(* ===== verification/Prelude.thy ===== *)
theory Prelude
  imports Main "HOL-Library.AList"
begin

text \<open>
  Shared vocabulary of the development: the Python effects the modelled code uses (exceptions and
  loops that need not end), dictionaries with insertion order, and the generic facts about them
  that every component rests on.

  A Python computation is a value of type \<open>'a py\<close>: \<open>None\<close> stands for a loop that never ends,
  \<open>Some (Inl e)\<close> for a raised exception and \<open>Some (Inr v)\<close> for a normal return.
  A Python \<open>dict\<close> is an association list in insertion order: \<open>AList.update\<close> keeps the position of
  a key that is already there and appends a new one, exactly as \<open>d[k] = v\<close> does.
\<close>

named_theorems py_simps "evaluation of the Python computation type"
named_theorems dict_simps "lookups in insertion-ordered dictionaries"

datatype py_exn = KeyError | IndexError | ValueError | TypeError | FileExistsError | ConfigError

type_synonym 'a py = "(py_exn + 'a) option"
type_synonym ('k, 'v) dict = "('k \<times> 'v) list"

definition py_ret :: "'a \<Rightarrow> 'a py" where
  "py_ret v = Some (Inr v)"

definition py_raise :: "py_exn \<Rightarrow> 'a py" where
  "py_raise e = Some (Inl e)"

definition py_bind :: "'a py \<Rightarrow> ('a \<Rightarrow> 'b py) \<Rightarrow> 'b py" where
  "py_bind m f = (case m of
     None \<Rightarrow> None
   | Some r \<Rightarrow> (case r of Inl e \<Rightarrow> Some (Inl e) | Inr v \<Rightarrow> f v))"

lemma py_bind_ret [py_simps, simp]: "py_bind (py_ret v) f = f v"
  by (simp add: py_bind_def py_ret_def)

lemma py_bind_raise [py_simps, simp]: "py_bind (py_raise e) f = py_raise e"
  by (simp add: py_bind_def py_raise_def)

lemma py_bind_diverge [py_simps, simp]: "py_bind None f = None"
  by (simp add: py_bind_def)

lemma py_ret_inject [simp]: "py_ret a = py_ret b \<longleftrightarrow> a = b"
  by (simp add: py_ret_def)

lemma py_ret_neq_raise [simp]: "py_ret a \<noteq> py_raise e" "py_raise e \<noteq> py_ret a"
  by (simp_all add: py_ret_def py_raise_def)

lemma py_ret_neq_None [simp]: "py_ret a \<noteq> None" "None \<noteq> py_ret a"
  by (simp_all add: py_ret_def)

lemma py_bind_eq_ret_iff:
  "py_bind m f = py_ret y \<longleftrightarrow> (\<exists>x. m = py_ret x \<and> f x = py_ret y)"
  by (auto simp: py_bind_def py_ret_def split: option.splits sum.splits)

lemma py_bindE [elim]:
  assumes "py_bind m f = py_ret y"
  obtains x where "m = py_ret x" and "f x = py_ret y"
  using assms by (auto simp: py_bind_eq_ret_iff)

text \<open>\<open>for x in xs: s = f(s, x)\<close> in the computation type; it stops at the first exception.\<close>

fun py_fold :: "('x \<Rightarrow> 's \<Rightarrow> 's py) \<Rightarrow> 'x list \<Rightarrow> 's \<Rightarrow> 's py" where
  "py_fold f [] s = py_ret s"
| "py_fold f (x # xs) s = py_bind (f x s) (py_fold f xs)"

lemma py_fold_append:
  "py_fold f (xs @ ys) s = py_bind (py_fold f xs s) (py_fold f ys)"
  by (induction xs arbitrary: s) (auto simp: py_bind_def py_ret_def split: option.splits sum.splits)

text \<open>A loop body that returns from every state satisfying an invariant, and keeps it, makes a
  loop that returns and keeps it.\<close>

lemma py_fold_total:
  assumes "I s" and "\<And>x s. x \<in> set xs \<Longrightarrow> I s \<Longrightarrow> \<exists>s'. f x s = py_ret s' \<and> I s' \<and> R s s'"
    and "\<And>s. R s s" and "\<And>s t u. R s t \<Longrightarrow> R t u \<Longrightarrow> R s u"
  shows "\<exists>s'. py_fold f xs s = py_ret s' \<and> I s' \<and> R s s'"
  using assms(1,2)
proof (induction xs arbitrary: s)
  case Nil
  then show ?case using assms(3) by simp
next
  case (Cons x xs)
  from Cons.prems(2)[of x s] Cons.prems(1)
  obtain t where t: "f x s = py_ret t" "I t" "R s t" by auto
  from Cons.IH[OF t(2)] Cons.prems(2)
  obtain u where u: "py_fold f xs t = py_ret u" "I u" "R t u" by auto
  from t u show ?case using assms(4) by auto
qed

subsection \<open>Dictionaries\<close>

definition dict_index :: "('k, 'v) dict \<Rightarrow> 'k \<Rightarrow> 'v py" where
  "dict_index d k = (case map_of d k of None \<Rightarrow> py_raise KeyError | Some v \<Rightarrow> py_ret v)"

definition dict_get :: "('k, 'v) dict \<Rightarrow> 'k \<Rightarrow> 'v \<Rightarrow> 'v" where
  "dict_get d k v0 = (case map_of d k of None \<Rightarrow> v0 | Some v \<Rightarrow> v)"

definition dict_setdefault :: "'k \<Rightarrow> 'v \<Rightarrow> ('k, 'v) dict \<Rightarrow> ('k, 'v) dict" where
  "dict_setdefault k v d = (case map_of d k of None \<Rightarrow> d @ [(k, v)] | Some _ \<Rightarrow> d)"

definition dict_keys :: "('k, 'v) dict \<Rightarrow> 'k list" where
  "dict_keys d = map fst d"

text \<open>\<open>d.setdefault(k, []).append(x)\<close>, and \<open>d[k].append(x)\<close> on a \<open>defaultdict(list)\<close>.\<close>

definition dict_push :: "'k \<Rightarrow> 'x \<Rightarrow> ('k, 'x list) dict \<Rightarrow> ('k, 'x list) dict" where
  "dict_push k x d = AList.update k (dict_get d k [] @ [x]) d"

lemma dict_index_eq_ret [simp]: "dict_index d k = py_ret v \<longleftrightarrow> map_of d k = Some v"
  by (simp add: dict_index_def split: option.splits)

lemma dict_index_Some [py_simps]: "map_of d k = Some v \<Longrightarrow> dict_index d k = py_ret v"
  by (simp add: dict_index_def)

lemma map_of_update [dict_simps, simp]: "map_of (AList.update k v d) = (map_of d)(k \<mapsto> v)"
  by (rule update_conv')

lemma map_of_delete [dict_simps, simp]: "map_of (AList.delete k d) = (map_of d)(k := None)"
  by (rule delete_conv')

lemma distinct_keys_update [simp]:
  "distinct (map fst d) \<Longrightarrow> distinct (map fst (AList.update k v d))"
  by (rule distinct_update)

lemma distinct_keys_delete [simp]:
  "distinct (map fst d) \<Longrightarrow> distinct (map fst (AList.delete k d))"
  by (simp add: delete_keys distinct_removeAll)

lemma map_of_setdefault [dict_simps]:
  "map_of (dict_setdefault k v d) = (case map_of d k of None \<Rightarrow> (map_of d)(k \<mapsto> v) | Some _ \<Rightarrow> map_of d)"
  by (auto simp: dict_setdefault_def map_add_def fun_eq_iff split: option.splits)

lemma dict_get_push [dict_simps]:
  "dict_get (dict_push k x d) k' [] = (if k' = k then dict_get d k [] @ [x] else dict_get d k' [])"
  by (simp add: dict_get_def dict_push_def)

lemma distinct_keys_push [simp]:
  "distinct (map fst d) \<Longrightarrow> distinct (map fst (dict_push k x d))"
  by (simp add: dict_push_def)

lemma fold_update_const [dict_simps]:
  "map_of (fold (\<lambda>m. AList.update m c) ms d) x = (if x \<in> set ms then Some c else map_of d x)"
  by (induction ms arbitrary: d) auto

lemma update_fresh: "k \<notin> fst ` set d \<Longrightarrow> AList.update k v d = d @ [(k, v)]"
  by (induction d) auto

text \<open>Filling a dictionary with pairwise different keys lists the entries in that order.\<close>

lemma fold_update_fresh:
  assumes "distinct (map k xs)" and "\<And>x. x \<in> set xs \<Longrightarrow> k x \<notin> fst ` set d"
  shows "fold (\<lambda>x. AList.update (k x) (v x)) xs d = d @ map (\<lambda>x. (k x, v x)) xs"
  using assms
proof (induction xs arbitrary: d)
  case Nil
  then show ?case by simp
next
  case (Cons x xs)
  have "fold (\<lambda>x. AList.update (k x) (v x)) xs (d @ [(k x, v x)]) =
      (d @ [(k x, v x)]) @ map (\<lambda>x. (k x, v x)) xs"
    by (rule Cons.IH) (use Cons.prems in \<open>auto, metis image_eqI\<close>)
  with Cons.prems show ?case by (simp add: update_fresh)
qed

lemma py_fold_ret:
  assumes "\<And>x s. x \<in> set xs \<Longrightarrow> f x s = py_ret (g x s)"
  shows "py_fold f xs s = py_ret (fold g xs s)"
  using assms by (induction xs arbitrary: s) auto

end
