(* ===== verification/UnionFind.thy ===== *)
theory UnionFind
  imports Prelude
begin

text \<open>
  \<^verbatim>\<open>forge/src/forge/packs/unionfind.py\<close>: the union-find over unit ids with cannot-link
  constraints. The record \<open>uf\<close> has the three dictionaries of the class; every method is one
  definition that returns its result with the changed object, since \<open>find\<close> compresses paths.
  The two loops of \<open>find\<close> are \<^theory_text>\<open>partial_function\<close>s: on a cyclic parent map they would
  not end, and the invariant \<open>uf_inv\<close> is what makes every method return.
\<close>

record uf =
  parent :: "(int, int) dict"
  members :: "(int, int set) dict"
  blocked :: "(int, int set) dict"

partial_function (option) uf_root :: "(int, int) dict \<Rightarrow> int \<Rightarrow> int py" where
  "uf_root p x = (case map_of p x of
     None \<Rightarrow> py_raise KeyError
   | Some y \<Rightarrow> if y = x then py_ret x else uf_root p y)"

partial_function (option) uf_compress :: "(int, int) dict \<Rightarrow> int \<Rightarrow> int \<Rightarrow> (int, int) dict py" where
  "uf_compress p root x = (case map_of p x of
     None \<Rightarrow> py_raise KeyError
   | Some y \<Rightarrow> if y = root then py_ret p else uf_compress (AList.update x root p) root y)"

declare uf_root.simps [code] uf_compress.simps [code]

definition uf_find :: "uf \<Rightarrow> int \<Rightarrow> (int \<times> uf) py" where
  "uf_find u x =
     py_bind (uf_root (parent u) x) (\<lambda>root.
     py_bind (uf_compress (parent u) root x) (\<lambda>p.
     py_ret (root, u\<lparr>parent := p\<rparr>)))"

definition uf_block :: "int \<times> int \<Rightarrow> uf \<Rightarrow> uf py" where
  "uf_block ab u = (case ab of (a, b) \<Rightarrow>
     if a \<in> fst ` set (parent u) \<and> b \<in> fst ` set (parent u) \<and> a \<noteq> b then
       py_bind (uf_find u a) (\<lambda>(ra, u1).
       py_bind (dict_index (blocked u1) ra) (\<lambda>sa.
       let u2 = u1\<lparr>blocked := AList.update ra (insert b sa) (blocked u1)\<rparr> in
       py_bind (uf_find u2 b) (\<lambda>(rb, u3).
       py_bind (dict_index (blocked u3) rb) (\<lambda>sb.
       py_ret (u3\<lparr>blocked := AList.update rb (insert a sb) (blocked u3)\<rparr>)))))
     else py_ret u)"

definition uf_add :: "int \<Rightarrow> uf \<Rightarrow> uf" where
  "uf_add i u = \<lparr>parent = AList.update i i (parent u),
                 members = AList.update i {i} (members u),
                 blocked = AList.update i {} (blocked u)\<rparr>"

definition uf_empty :: uf where
  "uf_empty = \<lparr>parent = [], members = [], blocked = []\<rparr>"

definition uf_init :: "int list \<Rightarrow> (int \<times> int) list \<Rightarrow> uf py" where
  "uf_init items cannot_link = py_fold uf_block cannot_link (fold uf_add items uf_empty)"

definition uf_contains :: "uf \<Rightarrow> int \<Rightarrow> bool" where
  "uf_contains u item \<longleftrightarrow> item \<in> fst ` set (parent u)"

definition uf_size :: "uf \<Rightarrow> int \<Rightarrow> (nat \<times> uf) py" where
  "uf_size u x =
     py_bind (uf_find u x) (\<lambda>(r, u1).
     py_bind (dict_index (members u1) r) (\<lambda>m. py_ret (card m, u1)))"

definition uf_can_union :: "uf \<Rightarrow> int \<Rightarrow> int \<Rightarrow> (bool \<times> uf) py" where
  "uf_can_union u a b =
     py_bind (uf_find u a) (\<lambda>(ra, u1).
     py_bind (uf_find u1 b) (\<lambda>(rb, u2).
     if ra = rb then py_ret (True, u2)
     else
       py_bind (dict_index (members u2) ra) (\<lambda>ma.
       py_bind (dict_index (members u2) rb) (\<lambda>mb.
       let (small, large, msmall, mlarge) =
             (if card ma \<le> card mb then (ra, rb, ma, mb) else (rb, ra, mb, ma)) in
       py_bind (dict_index (blocked u2) large) (\<lambda>bl.
       if bl \<inter> msmall \<noteq> {} then py_ret (False, u2)
       else
         py_bind (dict_index (blocked u2) small) (\<lambda>bs.
         py_ret (bs \<inter> mlarge = {}, u2)))))))"

definition uf_union :: "uf \<Rightarrow> int \<Rightarrow> int \<Rightarrow> nat option \<Rightarrow> (bool \<times> uf) py" where
  "uf_union u a b max_size =
     py_bind (uf_find u a) (\<lambda>(ra, u1).
     py_bind (uf_find u1 b) (\<lambda>(rb, u2).
     if ra = rb then py_ret (True, u2)
     else
       py_bind (uf_can_union u2 ra rb) (\<lambda>(can, u3).
       if \<not> can then py_ret (False, u3)
       else
         py_bind (dict_index (members u3) ra) (\<lambda>ma.
         py_bind (dict_index (members u3) rb) (\<lambda>mb.
         if (case max_size of None \<Rightarrow> False | Some n \<Rightarrow> n < card ma + card mb)
         then py_ret (False, u3)
         else
           let (ra, rb, ma, mb) =
                 (if card ma < card mb then (rb, ra, mb, ma) else (ra, rb, ma, mb)) in
           py_bind (dict_index (blocked u3) ra) (\<lambda>ba.
           py_bind (dict_index (blocked u3) rb) (\<lambda>bb.
           py_ret (True, u3\<lparr>
             parent := AList.update rb ra (parent u3),
             members := AList.update ra (ma \<union> mb) (AList.delete rb (members u3)),
             blocked := AList.update ra (ba \<union> bb) (AList.delete rb (blocked u3))\<rparr>))))))))"

definition uf_components :: "uf \<Rightarrow> (int, int list) dict py" where
  "uf_components u =
     py_fold (\<lambda>(root, mem) out.
       (case sorted_list_of_set mem of
          [] \<Rightarrow> py_raise IndexError
        | c # cs \<Rightarrow> py_ret (AList.update c (c # cs) out))) (members u) []"

definition uf_comp_of :: "uf \<Rightarrow> (int, int) dict py" where
  "uf_comp_of u =
     py_bind (uf_components u) (\<lambda>comps.
     py_fold (\<lambda>ordered res.
       (case ordered of
          [] \<Rightarrow> py_raise IndexError
        | cid # _ \<Rightarrow> py_ret (fold (\<lambda>m. AList.update m cid) ordered res))) (map snd comps) [])"

subsection \<open>Parent links with a rank: the loops of \<open>find\<close> end\<close>

definition ranked :: "(int \<Rightarrow> nat) \<Rightarrow> (int, int) dict \<Rightarrow> bool" where
  "ranked rank p \<longleftrightarrow> (\<forall>x y. map_of p x = Some y \<longrightarrow>
     y \<in> dom (map_of p) \<and> (x \<noteq> y \<longrightarrow> rank y < rank x))"

lemma rankedD:
  "ranked rank p \<Longrightarrow> map_of p x = Some y \<Longrightarrow> \<exists>z. map_of p y = Some z"
  "ranked rank p \<Longrightarrow> map_of p x = Some y \<Longrightarrow> x \<noteq> y \<Longrightarrow> rank y < rank x"
  by (auto simp: ranked_def)

lemma uf_root_self: "map_of p x = Some x \<Longrightarrow> uf_root p x = py_ret x"
  by (simp add: uf_root.simps)

lemma uf_root_step: "map_of p x = Some y \<Longrightarrow> x \<noteq> y \<Longrightarrow> uf_root p x = uf_root p y"
  by (subst uf_root.simps) simp

lemma uf_root_missing: "map_of p x = None \<Longrightarrow> uf_root p x = py_raise KeyError"
  by (simp add: uf_root.simps)

lemma uf_root_in_dom: "uf_root p x = py_ret r \<Longrightarrow> \<exists>y. map_of p x = Some y"
  by (cases "map_of p x") (auto simp: uf_root_missing)

lemma root_induct [consumes 2, case_names root link]:
  assumes "ranked rank p" and "map_of p x = Some y0"
    and root: "\<And>r. map_of p r = Some r \<Longrightarrow> P r r"
    and link: "\<And>x y r. map_of p x = Some y \<Longrightarrow> x \<noteq> y \<Longrightarrow> uf_root p y = py_ret r \<Longrightarrow>
      rank r \<le> rank y \<Longrightarrow> rank y < rank x \<Longrightarrow> map_of p r = Some r \<Longrightarrow> P y r \<Longrightarrow> P x r"
  shows "\<exists>r. uf_root p x = py_ret r \<and> map_of p r = Some r \<and> rank r \<le> rank x \<and> P x r"
  using assms(2)
proof (induction "rank x" arbitrary: x y0 rule: less_induct)
  case less
  show ?case
  proof (cases "y0 = x")
    case True
    with less.prems root show ?thesis by (auto simp: uf_root_self)
  next
    case False
    with less.prems assms(1) have lt: "rank y0 < rank x" by (auto dest: rankedD)
    from rankedD(1)[OF assms(1) less.prems] obtain z where "map_of p y0 = Some z" ..
    from less.hyps[OF lt this] obtain r where
      r: "uf_root p y0 = py_ret r" "map_of p r = Some r" "rank r \<le> rank y0" "P y0 r" by auto
    with False lt less.prems link[of x y0 r] show ?thesis
      by (auto simp: uf_root_step)
  qed
qed

lemma uf_root_total:
  assumes "ranked rank p" and "map_of p x = Some y"
  obtains r where "uf_root p x = py_ret r" and "map_of p r = Some r" and "rank r \<le> rank x"
  using root_induct[OF assms, where P = "\<lambda>_ _. True"] by auto

lemma uf_root_is_root:
  assumes "ranked rank p" and "uf_root p x = py_ret r"
  shows "map_of p r = Some r" and "uf_root p r = py_ret r" and "rank r \<le> rank x"
proof -
  from uf_root_in_dom[OF assms(2)] obtain y where "map_of p x = Some y" ..
  from uf_root_total[OF assms(1) this] assms(2)
  show "map_of p r = Some r" "rank r \<le> rank x" by auto
  then show "uf_root p r = py_ret r" by (simp add: uf_root_self)
qed

text \<open>One step of path compression (\<open>parent[x] = root\<close>) keeps the rank and every root.\<close>

lemma relink_ranked:
  assumes "ranked rank p" and "uf_root p x = py_ret r"
  shows "ranked rank (AList.update x r p)"
proof (cases "x = r")
  case True
  with uf_root_is_root(1)[OF assms] have "AList.update x r p = p"
    by (simp add: update_triv)
  with assms show ?thesis by simp
next
  case False
  obtain y where y: "map_of p x = Some y" using uf_root_in_dom[OF assms(2)] ..
  from y False uf_root_is_root(1)[OF assms] assms(2) have "x \<noteq> y" by (auto simp: uf_root_self)
  with y have "uf_root p y = py_ret r" using assms(2) by (simp add: uf_root_step)
  with uf_root_is_root(3)[OF assms(1)] rankedD(2)[OF assms(1) y \<open>x \<noteq> y\<close>]
  have "rank r < rank x" by fastforce
  with assms(1) uf_root_is_root(1)[OF assms] show ?thesis
    unfolding ranked_def by auto
qed

lemma relink_root:
  assumes "ranked rank p" and "uf_root p x = py_ret r"
  shows "uf_root (AList.update x r p) z = uf_root p z"
proof (cases "map_of p z")
  case None
  with uf_root_in_dom[OF assms(2)] have "z \<noteq> x" by auto
  with None show ?thesis by (simp add: uf_root_missing)
next
  case (Some y0)
  let ?q = "AList.update x r p"
  have *: "map_of p r = Some r" using uf_root_is_root[OF assms] by blast
  have "\<exists>s. uf_root p z = py_ret s \<and> map_of p s = Some s \<and> rank s \<le> rank z \<and> uf_root ?q z = py_ret s"
    using assms(1) Some
  proof (induction rule: root_induct)
    case (root s)
    show ?case
    proof (cases "s = x")
      case True
      with root assms(2) have "r = s" by (simp add: uf_root_self)
      with True show ?thesis by (simp add: uf_root_self)
    qed (simp add: root uf_root_self)
  next
    case (link w y s)
    show ?case
    proof (cases "w = x")
      case True
      with link assms(2) have "s = r" by (simp add: uf_root_step)
      moreover have "uf_root ?q r = py_ret r" using * by (simp add: uf_root_self)
      ultimately show ?thesis using True by (cases "x = r") (simp_all add: uf_root_step[of _ x r])
    next
      case False
      with link have "uf_root ?q w = uf_root ?q y" by (simp add: uf_root_step)
      with link show ?thesis by simp
    qed
  qed
  then show ?thesis by auto
qed

lemma uf_compress_spec:
  assumes "ranked rank p" and "uf_root p x = py_ret r"
  shows "\<exists>q. uf_compress p r x = py_ret q \<and> ranked rank q \<and> map fst q = map fst p \<and>
    (\<forall>z. uf_root q z = uf_root p z)"
  using assms
proof (induction "rank x" arbitrary: x p rule: less_induct)
  case less
  obtain y where y: "map_of p x = Some y" using uf_root_in_dom[OF less.prems(2)] ..
  show ?case
  proof (cases "y = r")
    case True
    with y less.prems show ?thesis by (subst uf_compress.simps) simp
  next
    case False
    then have "x \<noteq> y" using y less.prems by (auto simp: uf_root_self)
    with y less.prems have lt: "rank y < rank x" and ry: "uf_root p y = py_ret r"
      by (auto dest: rankedD simp: uf_root_step)
    let ?p = "AList.update x r p"
    note same = relink_root[OF less.prems]
    from less.hyps[OF lt relink_ranked[OF less.prems], unfolded same, OF ry]
    obtain q where q: "uf_compress ?p r y = py_ret q" "ranked rank q" "map fst q = map fst ?p"
      "\<forall>z. uf_root q z = uf_root p z" by auto
    moreover have "uf_compress p r x = uf_compress ?p r y"
      using y False by (subst uf_compress.simps) simp
    moreover have "map fst ?p = map fst p"
      using map_of_SomeD[OF y] by (force simp: update_keys)
    ultimately show ?thesis by auto
  qed
qed

subsection \<open>The invariant of the class\<close>

definition uf_items :: "uf \<Rightarrow> int set" where
  "uf_items u = fst ` set (parent u)"

definition uf_inv :: "uf \<Rightarrow> bool" where
  "uf_inv u \<longleftrightarrow> (\<exists>rank. ranked rank (parent u)) \<and>
     distinct (map fst (members u)) \<and>
     (\<forall>r. r \<in> dom (map_of (members u)) \<longleftrightarrow> map_of (parent u) r = Some r) \<and>
     dom (map_of (blocked u)) = dom (map_of (members u)) \<and>
     (\<forall>r M. map_of (members u) r = Some M \<longrightarrow>
        finite M \<and> (\<forall>x. x \<in> M \<longleftrightarrow> uf_root (parent u) x = py_ret r))"

definition uf_same :: "uf \<Rightarrow> int \<Rightarrow> int \<Rightarrow> bool" where
  "uf_same u x y \<longleftrightarrow> (\<exists>r. uf_root (parent u) x = py_ret r \<and> uf_root (parent u) y = py_ret r)"

text \<open>What a caller can see of the object is unchanged: path compression only.\<close>

definition uf_equiv :: "uf \<Rightarrow> uf \<Rightarrow> bool" where
  "uf_equiv u v \<longleftrightarrow> members v = members u \<and> blocked v = blocked u \<and>
     map fst (parent v) = map fst (parent u) \<and>
     (\<forall>z. uf_root (parent v) z = uf_root (parent u) z)"

lemma uf_equiv_refl [simp]: "uf_equiv u u"
  by (simp add: uf_equiv_def)

lemma uf_equiv_trans: "uf_equiv u v \<Longrightarrow> uf_equiv v w \<Longrightarrow> uf_equiv u w"
  by (simp add: uf_equiv_def)

lemma uf_equiv_items: "uf_equiv u v \<Longrightarrow> uf_items v = uf_items u"
  by (metis list.set_map uf_equiv_def uf_items_def)

lemma uf_equiv_same: "uf_equiv u v \<Longrightarrow> uf_same v x y = uf_same u x y"
  by (simp add: uf_equiv_def uf_same_def)

lemma uf_items_dom: "x \<in> uf_items u \<longleftrightarrow> (\<exists>y. map_of (parent u) x = Some y)"
  by (metis domD domI dom_map_of_conv_image_fst uf_items_def)

lemma uf_inv_root:
  assumes "uf_inv u" and "x \<in> uf_items u"
  obtains r where "uf_root (parent u) x = py_ret r" and "map_of (parent u) r = Some r"
proof -
  from assms obtain rank y where "ranked rank (parent u)" "map_of (parent u) x = Some y"
    by (auto simp: uf_inv_def uf_items_dom)
  from uf_root_total[OF this] that show thesis by blast
qed

lemma uf_root_idem:
  assumes "uf_inv u" and "uf_root (parent u) x = py_ret r"
  shows "map_of (parent u) r = Some r" and "uf_root (parent u) r = py_ret r"
  using assms uf_root_is_root by (auto simp: uf_inv_def)

lemma uf_root_items: "uf_root (parent u) x = py_ret r \<Longrightarrow> x \<in> uf_items u"
  using uf_root_in_dom by (simp add: uf_items_dom)

lemma uf_root_members:
  assumes "uf_inv u" and "uf_root (parent u) x = py_ret r"
  obtains M B where "map_of (members u) r = Some M" and "map_of (blocked u) r = Some B"
    and "finite M" and "\<And>z. z \<in> M \<longleftrightarrow> uf_root (parent u) z = py_ret r"
proof -
  note rr = uf_root_idem(1)[OF assms]
  with assms(1) obtain M where M: "map_of (members u) r = Some M" by (force simp: uf_inv_def)
  with assms(1) obtain B where "map_of (blocked u) r = Some B" by (force simp: uf_inv_def)
  with M assms(1) that show thesis by (simp add: uf_inv_def)
qed

lemma self_parent_iff_root:
  assumes "ranked rank p"
  shows "map_of p r = Some r \<longleftrightarrow> uf_root p r = py_ret r"
  using uf_root_self uf_root_is_root(1)[OF assms] by blast

lemma uf_equiv_inv:
  assumes "uf_equiv u v" and "uf_inv u" and "ranked rank (parent v)"
  shows "uf_inv v"
proof -
  from assms(2) obtain rank' where "ranked rank' (parent u)" by (auto simp: uf_inv_def)
  with assms(1,3) have "map_of (parent v) r = Some r \<longleftrightarrow> map_of (parent u) r = Some r" for r
    using self_parent_iff_root by (metis uf_equiv_def)
  with assms show ?thesis by (auto simp: uf_inv_def uf_equiv_def)
qed

lemma uf_find_spec:
  assumes "uf_inv u" and "uf_root (parent u) x = py_ret r"
  obtains v where "uf_find u x = py_ret (r, v)" and "uf_inv v" and "uf_equiv u v"
proof -
  from assms(1) obtain rank where "ranked rank (parent u)" by (auto simp: uf_inv_def)
  from uf_compress_spec[OF this assms(2)] obtain q where
    q: "uf_compress (parent u) r x = py_ret q" "ranked rank q" "map fst q = map fst (parent u)"
       "\<forall>z. uf_root q z = uf_root (parent u) z" by auto
  let ?v = "u\<lparr>parent := q\<rparr>"
  have e: "uf_equiv u ?v" using q by (simp add: uf_equiv_def)
  show thesis
  proof (rule that)
    show "uf_find u x = py_ret (r, ?v)" by (simp add: uf_find_def assms(2) q(1))
    show "uf_inv ?v" using uf_equiv_inv[OF e assms(1)] q(2) by simp
    show "uf_equiv u ?v" by (rule e)
  qed
qed

text \<open>\<open>find\<close> twice, as every binary operation starts.\<close>

lemma uf_find2_spec:
  assumes "uf_inv u" and "uf_root (parent u) a = py_ret ra" and "uf_root (parent u) b = py_ret rb"
  obtains v w where "uf_find u a = py_ret (ra, v)" and "uf_find v b = py_ret (rb, w)"
    and "uf_inv w" and "uf_equiv u w"
proof -
  from uf_find_spec[OF assms(1,2)] obtain v where
    v: "uf_find u a = py_ret (ra, v)" "uf_inv v" "uf_equiv u v" .
  from v(3) assms(3) have "uf_root (parent v) b = py_ret rb" by (simp add: uf_equiv_def)
  from uf_find_spec[OF v(2) this] obtain w where
    "uf_find v b = py_ret (rb, w)" "uf_inv w" "uf_equiv v w" .
  with v that uf_equiv_trans show thesis by blast
qed

text \<open>A cannot-link between the two components: the test of \<open>can_union\<close>.\<close>

definition uf_barred :: "uf \<Rightarrow> int \<Rightarrow> int \<Rightarrow> bool" where
  "uf_barred u a b \<longleftrightarrow> (\<exists>ra rb Ma Mb Ba Bb.
     uf_root (parent u) a = py_ret ra \<and> uf_root (parent u) b = py_ret rb \<and> ra \<noteq> rb \<and>
     map_of (members u) ra = Some Ma \<and> map_of (members u) rb = Some Mb \<and>
     map_of (blocked u) ra = Some Ba \<and> map_of (blocked u) rb = Some Bb \<and>
     (Ba \<inter> Mb \<noteq> {} \<or> Bb \<inter> Ma \<noteq> {}))"

lemma uf_barred_equiv: "uf_equiv u v \<Longrightarrow> uf_barred v a b = uf_barred u a b"
  by (simp add: uf_barred_def uf_equiv_def)

lemma uf_can_union_spec:
  assumes "uf_inv u" and "a \<in> uf_items u" and "b \<in> uf_items u"
  obtains v where "uf_can_union u a b = py_ret (\<not> uf_barred u a b, v)"
    and "uf_inv v" and "uf_equiv u v"
proof -
  obtain ra where ra: "uf_root (parent u) a = py_ret ra" by (rule uf_inv_root[OF assms(1,2)])
  obtain rb where rb: "uf_root (parent u) b = py_ret rb" by (rule uf_inv_root[OF assms(1,3)])
  obtain Ma Ba where A: "map_of (members u) ra = Some Ma" "map_of (blocked u) ra = Some Ba"
    by (rule uf_root_members[OF assms(1) ra])
  obtain Mb Bb where B: "map_of (members u) rb = Some Mb" "map_of (blocked u) rb = Some Bb"
    by (rule uf_root_members[OF assms(1) rb])
  obtain v w where f: "uf_find u a = py_ret (ra, v)" "uf_find v b = py_ret (rb, w)"
      "uf_inv w" "uf_equiv u w"
    by (rule uf_find2_spec[OF assms(1) ra rb])
  then have "members w = members u" "blocked w = blocked u" by (simp_all add: uf_equiv_def)
  with f(1,2) A B ra rb have "uf_can_union u a b = py_ret (\<not> uf_barred u a b, w)"
    by (auto simp: uf_can_union_def uf_barred_def Int_commute dict_index_def Let_def)
  with f(3,4) that show thesis by blast
qed

subsection \<open>Merging two components\<close>

lemma link_root:
  assumes "ranked rank p" and "map_of p k = Some k" and "map_of p g = Some g" and "k \<noteq> g"
  shows "uf_root (AList.update g k p) z =
    (if uf_root p z = py_ret g then py_ret k else uf_root p z)"
proof (cases "map_of p z")
  case None
  with assms(3) have "z \<noteq> g" by auto
  with None show ?thesis by (simp add: uf_root_missing)
next
  case (Some y0)
  let ?q = "AList.update g k p"
  have k: "uf_root ?q k = py_ret k" using assms by (simp add: uf_root_self)
  have "\<exists>s. uf_root p z = py_ret s \<and> map_of p s = Some s \<and> rank s \<le> rank z \<and>
      uf_root ?q z = py_ret (if s = g then k else s)"
    using assms(1) Some
  proof (induction rule: root_induct)
    case (root s)
    show ?case
      using root k assms(4) by (cases "s = g") (simp_all add: uf_root_self uf_root_step[of _ g k])
  next
    case (link w y s)
    with assms(3) have "w \<noteq> g" by auto
    with link have "uf_root ?q w = uf_root ?q y" by (simp add: uf_root_step)
    with link show ?case by simp
  qed
  then show ?thesis by auto
qed

lemma link_ranked:
  assumes "ranked rank p" and "map_of p k = Some k" and "map_of p g = Some g" and "k \<noteq> g"
  shows "ranked (\<lambda>z. rank z + (if uf_root p z = py_ret g then Suc (rank k) else 0))
    (AList.update g k p)"
    (is "ranked ?rank' _")
  unfolding ranked_def
proof (intro allI impI conjI)
  fix x y assume xy: "map_of (AList.update g k p) x = Some y"
  show "y \<in> dom (map_of (AList.update g k p))"
    using xy assms(1,2) by (cases "x = g") (auto dest: rankedD)
  assume "x \<noteq> y"
  show "?rank' y < ?rank' x"
  proof (cases "x = g")
    case True
    with xy assms(2-4) show ?thesis by (auto simp: uf_root_self)
  next
    case False
    with xy have p: "map_of p x = Some y" by simp
    with \<open>x \<noteq> y\<close> rankedD(2)[OF assms(1) p] uf_root_step[OF p] show ?thesis by simp
  qed
qed

definition uf_merge :: "uf \<Rightarrow> int \<Rightarrow> int \<Rightarrow> int set \<Rightarrow> int set \<Rightarrow> int set \<Rightarrow> int set \<Rightarrow> uf" where
  "uf_merge u k g mk mg bk bg = u\<lparr>
     parent := AList.update g k (parent u),
     members := AList.update k (mk \<union> mg) (AList.delete g (members u)),
     blocked := AList.update k (bk \<union> bg) (AList.delete g (blocked u))\<rparr>"

lemma uf_merge_inv:
  assumes inv: "uf_inv u" and k: "map_of (parent u) k = Some k" and g: "map_of (parent u) g = Some g"
    and kg: "k \<noteq> g" and mk: "map_of (members u) k = Some mk" and mg: "map_of (members u) g = Some mg"
  shows "uf_inv (uf_merge u k g mk mg bk bg)"
proof -
  let ?u = "uf_merge u k g mk mg bk bg"
  from inv obtain rank where rank: "ranked rank (parent u)" by (auto simp: uf_inv_def)
  note link = link_root[OF rank k g kg]
  have mem: "\<And>r M x. map_of (members u) r = Some M \<Longrightarrow> x \<in> M \<longleftrightarrow> uf_root (parent u) x = py_ret r"
    and fin: "\<And>r M. map_of (members u) r = Some M \<Longrightarrow> finite M"
    and doms: "\<And>r. r \<in> dom (map_of (members u)) \<longleftrightarrow> map_of (parent u) r = Some r"
    using inv by (auto simp: uf_inv_def)
  have "finite M \<and> (\<forall>x. x \<in> M \<longleftrightarrow> uf_root (parent ?u) x = py_ret r)"
    if "map_of (members ?u) r = Some M" for r M
  proof (cases "r = k")
    case True
    with that have "M = mk \<union> mg" by (simp add: uf_merge_def)
    with True fin[OF mk] fin[OF mg] mem[OF mk] mem[OF mg] kg show ?thesis
      by (auto simp: uf_merge_def link)
  next
    case False
    with that have "map_of (members u) r = Some M" "r \<noteq> g"
      by (auto simp: uf_merge_def split: if_splits)
    with False fin mem show ?thesis by (auto simp: uf_merge_def link)
  qed
  moreover have "r \<in> dom (map_of (members ?u)) \<longleftrightarrow> map_of (parent ?u) r = Some r" for r
    using doms[of r] k g kg by (auto simp: uf_merge_def)
  moreover have "dom (map_of (blocked ?u)) = dom (map_of (members ?u))"
    using inv by (auto simp: uf_inv_def uf_merge_def)
  moreover have "\<exists>rank. ranked rank (parent ?u)"
    using link_ranked[OF rank k g kg] by (auto simp: uf_merge_def)
  ultimately show ?thesis using inv by (auto simp: uf_inv_def uf_merge_def)
qed

lemma uf_merge_items:
  "map_of (parent u) g = Some g \<Longrightarrow> uf_items (uf_merge u k g mk mg bk bg) = uf_items u"
  by (auto simp: uf_items_dom uf_merge_def split: if_splits)

lemma uf_merge_same:
  assumes "uf_inv u" and "map_of (parent u) k = Some k" and "map_of (parent u) g = Some g" and "k \<noteq> g"
    and "uf_root (parent u) a = py_ret ra" and "uf_root (parent u) b = py_ret rb"
    and "{k, g} = {ra, rb}"
  shows "uf_same (uf_merge u k g mk mg bk bg) x y \<longleftrightarrow>
    uf_same u x y \<or> (uf_same u x a \<and> uf_same u b y) \<or> (uf_same u x b \<and> uf_same u a y)"
proof -
  from assms(1) obtain rank where "ranked rank (parent u)" by (auto simp: uf_inv_def)
  note link = link_root[OF this assms(2-4)]
  have same: "uf_same u x a \<longleftrightarrow> uf_root (parent u) x = py_ret ra"
      "uf_same u x b \<longleftrightarrow> uf_root (parent u) x = py_ret rb"
      "uf_same u a y \<longleftrightarrow> uf_root (parent u) y = py_ret ra"
      "uf_same u b y \<longleftrightarrow> uf_root (parent u) y = py_ret rb"
    using assms(5,6) by (auto simp: uf_same_def)
  from assms(4,7) consider "k = ra" "g = rb" "ra \<noteq> rb" | "k = rb" "g = ra" "ra \<noteq> rb"
    by (metis doubleton_eq_iff)
  moreover have "uf_root (parent (uf_merge u k g mk mg bk bg)) z =
      (if uf_root (parent u) z = py_ret g then py_ret k else uf_root (parent u) z)" for z
    by (simp add: uf_merge_def link)
  ultimately show ?thesis
    by cases (auto simp: same uf_same_def [of "uf_merge _ _ _ _ _ _ _"] uf_same_def [of u x y]
        split: if_splits)
qed

subsection \<open>The specification of \<open>union\<close>\<close>

definition uf_fits :: "uf \<Rightarrow> int \<Rightarrow> int \<Rightarrow> nat option \<Rightarrow> bool" where
  "uf_fits u a b ms \<longleftrightarrow> (case ms of None \<Rightarrow> True | Some n \<Rightarrow>
     card {z. uf_same u z a} + card {z. uf_same u z b} \<le> n)"

lemma uf_members_eq_same:
  assumes "uf_inv u" and "uf_root (parent u) a = py_ret ra" and "map_of (members u) ra = Some Ma"
  shows "Ma = {z. uf_same u z a}"
  using assms by (auto simp: uf_inv_def uf_same_def)

lemma uf_union_cases:
  assumes inv: "uf_inv u" and "a \<in> uf_items u" and "b \<in> uf_items u"
  obtains
    (same) v where "uf_union u a b ms = py_ret (True, v)" "uf_inv v" "uf_equiv u v" "uf_same u a b"
  | (refused) v where "uf_union u a b ms = py_ret (False, v)" "uf_inv v" "uf_equiv u v"
      "\<not> uf_same u a b" "uf_barred u a b \<or> \<not> uf_fits u a b ms"
  | (merged) w k g ra rb mk mg bk bg where
      "uf_union u a b ms = py_ret (True, uf_merge w k g mk mg bk bg)" "uf_inv w" "uf_equiv u w"
      "\<not> uf_same u a b" "\<not> uf_barred u a b" "uf_fits u a b ms"
      "uf_root (parent w) a = py_ret ra" "uf_root (parent w) b = py_ret rb"
      "{k, g} = {ra, rb}" "k \<noteq> g"
      "map_of (members w) k = Some mk" "map_of (members w) g = Some mg"
      "map_of (blocked w) k = Some bk" "map_of (blocked w) g = Some bg"
proof -
  obtain ra where ra: "uf_root (parent u) a = py_ret ra" by (rule uf_inv_root[OF assms(1,2)])
  obtain rb where rb: "uf_root (parent u) b = py_ret rb" by (rule uf_inv_root[OF assms(1,3)])
  obtain v w where f: "uf_find u a = py_ret (ra, v)" "uf_find v b = py_ret (rb, w)"
      "uf_inv w" "uf_equiv u w"
    by (rule uf_find2_spec[OF assms(1) ra rb])
  have same: "uf_same u a b \<longleftrightarrow> ra = rb" using ra rb by (auto simp: uf_same_def)
  show thesis
  proof (cases "ra = rb")
    case True
    then have "uf_union u a b ms = py_ret (True, w)" using f by (simp add: uf_union_def)
    with True f same that(1) show thesis by blast
  next
    case False
    have wr: "uf_root (parent w) a = py_ret ra" "uf_root (parent w) b = py_ret rb"
        "uf_root (parent w) ra = py_ret ra" "uf_root (parent w) rb = py_ret rb"
      using f(4) ra rb uf_root_idem[OF inv ra] uf_root_idem[OF inv rb] by (auto simp: uf_equiv_def)
    obtain x where can: "uf_can_union w ra rb = py_ret (\<not> uf_barred w ra rb, x)"
        "uf_inv x" "uf_equiv w x"
      using uf_can_union_spec[OF f(3)] uf_root_items wr(3,4) by metis
    have bar: "uf_barred w ra rb = uf_barred u a b"
      unfolding uf_barred_equiv[OF f(4), symmetric] by (simp add: uf_barred_def wr)
    have ux: "uf_equiv u x" by (rule uf_equiv_trans[OF f(4) can(3)])
    have xr: "uf_root (parent x) a = py_ret ra" "uf_root (parent x) b = py_ret rb"
      using ux ra rb by (simp_all add: uf_equiv_def)
    obtain Ma Ba where A: "map_of (members x) ra = Some Ma" "map_of (blocked x) ra = Some Ba"
      by (rule uf_root_members[OF can(2) xr(1)])
    obtain Mb Bb where B: "map_of (members x) rb = Some Mb" "map_of (blocked x) rb = Some Bb"
      by (rule uf_root_members[OF can(2) xr(2)])
    have fits: "uf_fits u a b ms \<longleftrightarrow> (case ms of None \<Rightarrow> True | Some n \<Rightarrow> card Ma + card Mb \<le> n)"
      using uf_members_eq_same[OF can(2) xr(1) A(1)] uf_members_eq_same[OF can(2) xr(2) B(1)]
        uf_equiv_same[OF ux]
      by (simp add: uf_fits_def split: option.splits)
    show thesis
    proof (cases "uf_barred u a b \<or> \<not> uf_fits u a b ms")
      case True
      then have "uf_union u a b ms = py_ret (False, x)"
        using f(1,2) can(1) A B bar fits False
        by (auto simp: uf_union_def dict_index_def not_le split: option.splits)
      with True False same can(2) ux that(2) show thesis by blast
    next
      case ok: False
      let ?K = "if card Ma < card Mb then (rb, ra, Mb, Ma, Bb, Ba) else (ra, rb, Ma, Mb, Ba, Bb)"
      have u: "uf_union u a b ms = py_ret (True, case ?K of (k, g, mk, mg, bk, bg) \<Rightarrow>
          uf_merge x k g mk mg bk bg)"
        using f(1,2) can(1) A B bar fits False ok
        by (auto simp: uf_union_def dict_index_def Let_def uf_merge_def not_le split: option.splits)
      show thesis
        by (rule that(3)[of x "fst ?K" "fst (snd ?K)" "fst (snd (snd ?K))" "fst (snd (snd (snd ?K)))"
              "fst (snd (snd (snd (snd ?K))))" "snd (snd (snd (snd (snd ?K))))" ra rb])
           (use u ok False same can(2) ux xr A B in auto)
    qed
  qed
qed

subsection \<open>Cannot-links hold for ever\<close>

definition uf_apart :: "(int \<times> int) set \<Rightarrow> uf \<Rightarrow> bool" where
  "uf_apart C u \<longleftrightarrow> (\<forall>a b. (a, b) \<in> C \<longrightarrow> (\<exists>ra rb Ba Bb.
     uf_root (parent u) a = py_ret ra \<and> uf_root (parent u) b = py_ret rb \<and> ra \<noteq> rb \<and>
     map_of (blocked u) ra = Some Ba \<and> map_of (blocked u) rb = Some Bb \<and> b \<in> Ba \<and> a \<in> Bb))"

lemma uf_apart_equiv: "uf_equiv u v \<Longrightarrow> uf_apart C v = uf_apart C u"
  by (simp add: uf_apart_def uf_equiv_def)

lemma uf_apart_not_same: "uf_apart C u \<Longrightarrow> (a, b) \<in> C \<Longrightarrow> \<not> uf_same u a b"
  by (fastforce simp: uf_apart_def uf_same_def)

lemma uf_merge_apart:
  assumes inv: "uf_inv u" and k: "map_of (parent u) k = Some k" and g: "map_of (parent u) g = Some g"
    and kg: "k \<noteq> g" and m: "map_of (members u) k = Some mk" "map_of (members u) g = Some mg"
    and b: "map_of (blocked u) k = Some bk" "map_of (blocked u) g = Some bg"
    and free: "bk \<inter> mg = {}" "bg \<inter> mk = {}" and apart: "uf_apart C u"
  shows "uf_apart C (uf_merge u k g mk mg bk bg)" (is "uf_apart C ?m")
  unfolding uf_apart_def
proof (intro allI impI)
  fix x y assume "(x, y) \<in> C"
  with apart obtain rx ry Bx By where xy: "uf_root (parent u) x = py_ret rx"
      "uf_root (parent u) y = py_ret ry" "rx \<noteq> ry" "map_of (blocked u) rx = Some Bx"
      "map_of (blocked u) ry = Some By" "y \<in> Bx" "x \<in> By"
    unfolding uf_apart_def by blast
  from inv obtain rank where "ranked rank (parent u)" by (auto simp: uf_inv_def)
  then have mr: "uf_root (parent ?m) z =
      (if uf_root (parent u) z = py_ret g then py_ret k else uf_root (parent u) z)" for z
    using k g kg by (simp add: uf_merge_def link_root)
  have mem: "z \<in> mk \<longleftrightarrow> uf_root (parent u) z = py_ret k" "z \<in> mg \<longleftrightarrow> uf_root (parent u) z = py_ret g" for z
    using inv m by (auto simp: uf_inv_def)
  have "\<not> (rx = k \<and> ry = g)" and "\<not> (rx = g \<and> ry = k)"
    using free xy mem b by auto
  then have ne: "(if rx = g then k else rx) \<noteq> (if ry = g then k else ry)" using xy(3) by auto
  have grow: "\<exists>B'. map_of (blocked ?m) (if r = g then k else r) = Some B' \<and> B \<subseteq> B'"
    if "map_of (blocked u) r = Some B" for r B
    using that b kg by (auto simp: uf_merge_def)
  from grow[OF xy(4)] grow[OF xy(5)] xy(6,7) obtain Bx' By' where
    "map_of (blocked ?m) (if rx = g then k else rx) = Some Bx'" "y \<in> Bx'"
    "map_of (blocked ?m) (if ry = g then k else ry) = Some By'" "x \<in> By'" by blast
  moreover have "uf_root (parent ?m) x = py_ret (if rx = g then k else rx)"
    and "uf_root (parent ?m) y = py_ret (if ry = g then k else ry)"
    using xy(1,2) by (simp_all add: mr)
  ultimately show "\<exists>ra rb Ba Bb. uf_root (parent ?m) x = py_ret ra \<and>
      uf_root (parent ?m) y = py_ret rb \<and> ra \<noteq> rb \<and> map_of (blocked ?m) ra = Some Ba \<and>
      map_of (blocked ?m) rb = Some Bb \<and> y \<in> Ba \<and> x \<in> Bb"
    using ne by blast
qed

lemma uf_union_spec:
  assumes "uf_inv u" and "a \<in> uf_items u" and "b \<in> uf_items u"
  shows "\<exists>ok v. uf_union u a b ms = py_ret (ok, v) \<and> uf_inv v \<and> uf_items v = uf_items u \<and>
    (ok \<longleftrightarrow> uf_same u a b \<or> \<not> uf_barred u a b \<and> uf_fits u a b ms) \<and>
    (\<forall>x y. uf_same v x y \<longleftrightarrow> uf_same u x y \<or>
       ok \<and> (uf_same u x a \<and> uf_same u b y \<or> uf_same u x b \<and> uf_same u a y)) \<and>
    (\<forall>C. uf_apart C u \<longrightarrow> uf_apart C v)"
  using assms
proof (cases rule: uf_union_cases[of u a b ms])
  case (same v)
  have "uf_same u x y" if "uf_same u x a \<and> uf_same u b y \<or> uf_same u x b \<and> uf_same u a y" for x y
    using that same(4) by (auto simp: uf_same_def)
  then have eq: "uf_same u x y \<or> uf_same u x a \<and> uf_same u b y \<or> uf_same u x b \<and> uf_same u a y
      \<longleftrightarrow> uf_same u x y" for x y by blast
  show ?thesis
    by (intro exI [of _ True] exI [of _ v])
       (simp add: same uf_equiv_items [OF same(3)] uf_equiv_same [OF same(3)]
         uf_apart_equiv [OF same(3)] eq)
next
  case (refused v)
  then show ?thesis
    by (intro exI [of _ False] exI [of _ v])
       (auto simp: uf_equiv_items [OF refused(3)] uf_equiv_same [OF refused(3)]
         uf_apart_equiv [OF refused(3)])
next
  case (merged w k g ra rb mk mg bk bg)
  have k: "map_of (parent w) k = Some k" and g: "map_of (parent w) g = Some g"
    using merged(9) uf_root_idem(1)[OF merged(2)] merged(7,8) by (auto simp: doubleton_eq_iff)
  have "\<not> uf_barred w a b" using uf_barred_equiv[OF merged(3)] merged(5) by simp
  with merged(7-14) have "bk \<inter> mg = {}" "bg \<inter> mk = {}"
    by (auto simp: uf_barred_def doubleton_eq_iff)
  note apart = uf_merge_apart[OF merged(2) k g merged(10-14) this]
  show ?thesis
    using merged uf_merge_inv[OF merged(2) k g merged(10-12)] uf_merge_items[of w g, OF g]
      uf_merge_same[OF merged(2) k g merged(10,7,8,9)] apart
      uf_equiv_items[OF merged(3)] uf_equiv_same[OF merged(3)] uf_apart_equiv[OF merged(3)]
    by (intro exI[of _ True] exI[of _ "uf_merge w k g mk mg bk bg"]) simp
qed

subsection \<open>The interface resolution relies on\<close>

locale constrained_partition =
  fixes invar :: "'s \<Rightarrow> bool"
    and items :: "'s \<Rightarrow> 'a set"
    and same :: "'s \<Rightarrow> 'a \<Rightarrow> 'a \<Rightarrow> bool"
    and apart :: "('a \<times> 'a) set \<Rightarrow> 's \<Rightarrow> bool"
    and join :: "'s \<Rightarrow> 'a \<Rightarrow> 'a \<Rightarrow> nat option \<Rightarrow> (bool \<times> 's) py"
  assumes join_returns: "invar s \<Longrightarrow> a \<in> items s \<Longrightarrow> b \<in> items s \<Longrightarrow>
      \<exists>ok t. join s a b ms = py_ret (ok, t)"
    and join_invar: "invar s \<Longrightarrow> a \<in> items s \<Longrightarrow> b \<in> items s \<Longrightarrow> join s a b ms = py_ret (ok, t) \<Longrightarrow>
      invar t \<and> items t = items s"
    and join_keeps: "invar s \<Longrightarrow> a \<in> items s \<Longrightarrow> b \<in> items s \<Longrightarrow> join s a b ms = py_ret (ok, t) \<Longrightarrow>
      same s x y \<Longrightarrow> same t x y"
    and join_joins: "invar s \<Longrightarrow> a \<in> items s \<Longrightarrow> b \<in> items s \<Longrightarrow> join s a b ms = py_ret (True, t) \<Longrightarrow>
      same t a b"
    and join_apart: "invar s \<Longrightarrow> a \<in> items s \<Longrightarrow> b \<in> items s \<Longrightarrow> join s a b ms = py_ret (ok, t) \<Longrightarrow>
      apart C s \<Longrightarrow> apart C t"
    and apart_separate: "apart C s \<Longrightarrow> (a, b) \<in> C \<Longrightarrow> \<not> same s a b"
begin

text \<open>What any sequence of joins makes of a state.\<close>

definition advances :: "'s \<Rightarrow> 's \<Rightarrow> bool" where
  "advances s t \<longleftrightarrow> (invar s \<longrightarrow> invar t \<and> items t = items s) \<and>
     (invar s \<longrightarrow> (\<forall>x y. same s x y \<longrightarrow> same t x y)) \<and>
     (invar s \<longrightarrow> (\<forall>C. apart C s \<longrightarrow> apart C t))"

lemma advances_refl [simp, intro]: "advances s s"
  by (simp add: advances_def)

lemma advances_trans [trans]: "advances s t \<Longrightarrow> advances t u \<Longrightarrow> advances s u"
  by (auto simp: advances_def)

lemma joined_advances:
  assumes "invar s" and "a \<in> items s" and "b \<in> items s" and "join s a b ms = py_ret (ok, t)"
  shows "advances s t"
  unfolding advances_def
  using join_invar [OF assms] join_keeps [OF assms] join_apart [OF assms] by blast

lemma join_advances:
  assumes "invar s" and "a \<in> items s" and "b \<in> items s"
  obtains ok t where "join s a b ms = py_ret (ok, t)" and "advances s t"
  using join_returns [OF assms, of ms] joined_advances [OF assms] that by blast

lemma advances_separate:
  "advances s t \<Longrightarrow> invar s \<Longrightarrow> apart C s \<Longrightarrow> (a, b) \<in> C \<Longrightarrow> \<not> same t a b"
  using apart_separate by (auto simp: advances_def)

end

lemma uf_unionD:
  assumes "uf_inv u" and "a \<in> uf_items u" and "b \<in> uf_items u"
    and "uf_union u a b ms = py_ret (ok, v)"
  shows "uf_inv v" and "uf_items v = uf_items u"
    and "ok \<longleftrightarrow> uf_same u a b \<or> \<not> uf_barred u a b \<and> uf_fits u a b ms"
    and "uf_same v x y \<longleftrightarrow> uf_same u x y \<or>
       ok \<and> (uf_same u x a \<and> uf_same u b y \<or> uf_same u x b \<and> uf_same u a y)"
    and "uf_apart C u \<Longrightarrow> uf_apart C v"
  using uf_union_spec [OF assms(1-3), of ms] unfolding assms(4) by simp_all

lemma uf_same_refl: "uf_inv u \<Longrightarrow> a \<in> uf_items u \<Longrightarrow> uf_same u a a"
  using uf_inv_root unfolding uf_same_def by blast

interpretation ufp: constrained_partition uf_inv uf_items uf_same uf_apart uf_union
proof
  fix u :: uf and a b ms C
  assume u: "uf_inv u" "a \<in> uf_items u" "b \<in> uf_items u"
  show "\<exists>ok t. uf_union u a b ms = py_ret (ok, t)" using uf_union_spec [OF u, of ms] by blast
  fix ok t assume r: "uf_union u a b ms = py_ret (ok, t)"
  show "uf_inv t \<and> uf_items t = uf_items u" using uf_unionD [OF u r] by blast
  show "uf_same t x y" if "uf_same u x y" for x y using uf_unionD(4) [OF u r] that by blast
  show "uf_apart C t" if "uf_apart C u" using uf_unionD(5) [OF u r] that by blast
next
  fix u :: uf and a b ms t
  assume u: "uf_inv u" "a \<in> uf_items u" "b \<in> uf_items u"
    and r: "uf_union u a b ms = py_ret (True, t)"
  show "uf_same t a b"
    using uf_unionD(4) [OF u r] uf_same_refl [OF u(1)] u(2,3) by blast
qed (rule uf_apart_not_same)

subsection \<open>The constructor\<close>

lemma uf_add_fold:
  "map_of (parent (fold uf_add xs u)) i = (if i \<in> set xs then Some i else map_of (parent u) i)"
  "map_of (members (fold uf_add xs u)) i = (if i \<in> set xs then Some {i} else map_of (members u) i)"
  "map_of (blocked (fold uf_add xs u)) i = (if i \<in> set xs then Some {} else map_of (blocked u) i)"
  "distinct (map fst (members u)) \<Longrightarrow> distinct (map fst (members (fold uf_add xs u)))"
  by (induction xs arbitrary: u) (auto simp: uf_add_def)

lemma uf_fresh:
  defines "u xs \<equiv> fold uf_add xs uf_empty"
  shows "uf_inv (u xs)" and "uf_items (u xs) = set xs" and "uf_same (u xs) x y \<longleftrightarrow> x = y \<and> x \<in> set xs"
proof -
  have p: "map_of (parent (u xs)) i = (if i \<in> set xs then Some i else None)"
    and m: "map_of (members (u xs)) i = (if i \<in> set xs then Some {i} else None)"
    and b: "map_of (blocked (u xs)) i = (if i \<in> set xs then Some {} else None)" for i
    by (simp_all add: u_def uf_add_fold) (simp_all add: uf_empty_def)
  have d: "distinct (map fst (members (u xs)))"
    unfolding u_def by (rule uf_add_fold(4)) (simp add: uf_empty_def)
  have r: "uf_root (parent (u xs)) i = (if i \<in> set xs then py_ret i else py_raise KeyError)" for i
    using p by (subst uf_root.simps) simp
  have "ranked (\<lambda>_. 0) (parent (u xs))" by (auto simp: ranked_def p dom_def split: if_splits)
  then show "uf_inv (u xs)" using d by (auto simp: uf_inv_def p m b r split: if_splits)
  show "uf_items (u xs) = set xs" by (auto simp: uf_items_dom p split: if_splits)
  show "uf_same (u xs) x y \<longleftrightarrow> x = y \<and> x \<in> set xs" by (auto simp: uf_same_def r)
qed

lemma uf_set_blocked_inv:
  assumes "uf_inv u" and "map_of (blocked u) r = Some B"
  shows "uf_inv (u\<lparr>blocked := AList.update r B' (blocked u)\<rparr>)"
proof -
  from assms(2) have "r \<in> dom (map_of (blocked u))" by (rule domI)
  with assms(1) have "r \<in> dom (map_of (members u))" unfolding uf_inv_def by metis
  with assms(1) show ?thesis by (simp add: uf_inv_def insert_absorb)
qed

lemma uf_apart_mono:
  assumes "uf_apart C u" and "\<And>z. uf_root (parent v) z = uf_root (parent u) z"
    and "\<And>r B. map_of (blocked u) r = Some B \<Longrightarrow> \<exists>B'. map_of (blocked v) r = Some B' \<and> B \<subseteq> B'"
  shows "uf_apart C v"
  unfolding uf_apart_def assms(2)
proof (intro allI impI)
  fix a b assume "(a, b) \<in> C"
  with assms(1) obtain ra rb Ba Bb where r: "uf_root (parent u) a = py_ret ra"
      "uf_root (parent u) b = py_ret rb" "ra \<noteq> rb" "map_of (blocked u) ra = Some Ba"
      "map_of (blocked u) rb = Some Bb" "b \<in> Ba" "a \<in> Bb"
    unfolding uf_apart_def by blast
  from assms(3) [OF r(4)] assms(3) [OF r(5)] r
  show "\<exists>ra rb Ba Bb. uf_root (parent u) a = py_ret ra \<and> uf_root (parent u) b = py_ret rb \<and>
      ra \<noteq> rb \<and> map_of (blocked v) ra = Some Ba \<and> map_of (blocked v) rb = Some Bb \<and> b \<in> Ba \<and> a \<in> Bb"
    by blast
qed

lemma uf_apart_insert:
  "uf_apart (insert (a, b) C) u \<longleftrightarrow> uf_apart C u \<and> (\<exists>ra rb Ba Bb.
     uf_root (parent u) a = py_ret ra \<and> uf_root (parent u) b = py_ret rb \<and> ra \<noteq> rb \<and>
     map_of (blocked u) ra = Some Ba \<and> map_of (blocked u) rb = Some Bb \<and> b \<in> Ba \<and> a \<in> Bb)"
  unfolding uf_apart_def by blast

lemma uf_block_spec:
  assumes inv: "uf_inv u" and sep: "\<And>x y. uf_same u x y \<longleftrightarrow> x = y \<and> x \<in> uf_items u"
    and apart: "uf_apart C u"
  shows "\<exists>v. uf_block (a, b) u = py_ret v \<and> uf_inv v \<and> uf_items v = uf_items u \<and>
    (\<forall>x y. uf_same v x y = uf_same u x y) \<and>
    uf_apart (C \<union> (if a \<in> uf_items u \<and> b \<in> uf_items u \<and> a \<noteq> b then {(a, b)} else {})) v"
proof (cases "a \<in> uf_items u \<and> b \<in> uf_items u \<and> a \<noteq> b")
  case False
  then show ?thesis using assms by (auto simp: uf_block_def uf_items_def)
next
  case True
  obtain ra where ra: "uf_root (parent u) a = py_ret ra" using uf_inv_root [OF inv, of a] True by blast
  obtain rb where rb: "uf_root (parent u) b = py_ret rb" using uf_inv_root [OF inv, of b] True by blast
  have ne: "ra \<noteq> rb" using sep [of a b] True ra rb by (auto simp: uf_same_def)
  obtain u1 where u1: "uf_find u a = py_ret (ra, u1)" "uf_inv u1" "uf_equiv u u1"
    by (rule uf_find_spec [OF inv ra])
  have r1: "uf_root (parent u1) b = py_ret rb" "uf_root (parent u1) a = py_ret ra"
    using u1(3) ra rb by (simp_all add: uf_equiv_def)
  obtain Ba where Ba: "map_of (blocked u1) ra = Some Ba" by (rule uf_root_members [OF u1(2) r1(2)])
  let ?u2 = "u1\<lparr>blocked := AList.update ra (insert b Ba) (blocked u1)\<rparr>"
  have u2: "uf_inv ?u2" using uf_set_blocked_inv [OF u1(2) Ba] .
  obtain u3 where u3: "uf_find ?u2 b = py_ret (rb, u3)" "uf_inv u3" "uf_equiv ?u2 u3"
    by (rule uf_find_spec [OF u2, of b rb]) (use r1 in auto)
  have r3: "uf_root (parent u3) z = uf_root (parent u) z" for z
    using u1(3) u3(3) by (simp add: uf_equiv_def)
  obtain Bb where Bb: "map_of (blocked u3) rb = Some Bb"
    by (rule uf_root_members [OF u3(2)]) (use r3 rb in auto)
  let ?v = "u3\<lparr>blocked := AList.update rb (insert a Bb) (blocked u3)\<rparr>"
  have "uf_block (a, b) u = py_ret ?v"
    using True u1(1) u3(1) Ba Bb by (simp add: uf_block_def uf_items_def dict_index_def Let_def)
  moreover have "uf_inv ?v" using uf_set_blocked_inv [OF u3(2) Bb] .
  moreover have "uf_items ?v = uf_items u"
    using uf_equiv_items [OF u1(3)] uf_equiv_items [OF u3(3)] by (simp add: uf_items_def)
  moreover have "uf_same ?v x y = uf_same u x y" for x y by (simp add: uf_same_def r3)
  moreover have "uf_apart C ?v"
  proof (rule uf_apart_mono [OF apart])
    show "uf_root (parent ?v) z = uf_root (parent u) z" for z by (simp add: r3)
    show "\<exists>B'. map_of (blocked ?v) r = Some B' \<and> B \<subseteq> B'" if "map_of (blocked u) r = Some B" for r B
      using that Ba Bb u1(3) u3(3) by (auto simp: uf_equiv_def)
  qed
  moreover have "\<exists>A B. map_of (blocked ?v) ra = Some A \<and> map_of (blocked ?v) rb = Some B \<and> b \<in> A \<and> a \<in> B"
    using u3(3) ne by (simp add: uf_equiv_def)
  then have "\<exists>ra rb Ba Bb. uf_root (parent ?v) a = py_ret ra \<and> uf_root (parent ?v) b = py_ret rb \<and>
      ra \<noteq> rb \<and> map_of (blocked ?v) ra = Some Ba \<and> map_of (blocked ?v) rb = Some Bb \<and> b \<in> Ba \<and> a \<in> Bb"
    using ra rb ne r3 by auto
  ultimately show ?thesis
    using True by (intro exI [of _ ?v]) (simp add: uf_apart_insert)
qed

definition effective :: "int list \<Rightarrow> (int \<times> int) list \<Rightarrow> (int \<times> int) set" where
  "effective items cl = {(a, b) \<in> set cl. a \<in> set items \<and> b \<in> set items \<and> a \<noteq> b}"

lemma effective_Cons:
  "effective items ((a, b) # cl) =
     (if a \<in> set items \<and> b \<in> set items \<and> a \<noteq> b then {(a, b)} else {}) \<union> effective items cl"
  by (auto simp: effective_def)

lemma uf_init_spec:
  "\<exists>u. uf_init items cl = py_ret u \<and> uf_inv u \<and> uf_items u = set items \<and>
     (\<forall>x y. uf_same u x y \<longleftrightarrow> x = y \<and> x \<in> set items) \<and> uf_apart (effective items cl) u"
proof -
  let ?u0 = "fold uf_add items uf_empty"
  let ?I = "\<lambda>u C. uf_inv u \<and> uf_items u = set items \<and>
    (\<forall>x y. uf_same u x y \<longleftrightarrow> x = y \<and> x \<in> set items) \<and> uf_apart C u"
  have "?I u C \<Longrightarrow> \<exists>v. py_fold uf_block ds u = py_ret v \<and> ?I v (C \<union> effective items ds)" for ds u C
  proof (induction ds arbitrary: u C)
    case Nil
    then show ?case by (simp add: effective_def)
  next
    case (Cons d ds)
    obtain a b where d: "d = (a, b)" by fastforce
    from uf_block_spec [of u C a b] Cons.prems obtain v where
      v: "uf_block d u = py_ret v"
        "?I v (C \<union> (if a \<in> set items \<and> b \<in> set items \<and> a \<noteq> b then {(a, b)} else {}))"
      unfolding d by auto
    from Cons.IH [OF v(2)] v(1) show ?case by (simp add: d effective_Cons Un_assoc)
  qed
  from this [of ?u0 "{}" cl] show ?thesis
    using uf_fresh [of items] by (simp add: uf_init_def uf_apart_def)
qed

subsection \<open>Components\<close>

lemma py_fold_heads:
  assumes "\<And>o'. o' \<in> set os \<Longrightarrow> o' \<noteq> []"
    and "\<And>o' x. o' \<in> set os \<Longrightarrow> x \<in> set o' \<Longrightarrow> hd o' = g x"
  shows "\<exists>m. py_fold (\<lambda>ordered res. (case ordered of [] \<Rightarrow> py_raise IndexError
      | cid # _ \<Rightarrow> py_ret (fold (\<lambda>m. AList.update m cid) ordered res))) os res = py_ret m \<and>
    (\<forall>x. map_of m x = (if x \<in> (\<Union>o' \<in> set os. set o') then Some (g x) else map_of res x))"
  using assms
proof (induction os arbitrary: res)
  case Nil
  then show ?case by simp
next
  case (Cons w ws)
  from Cons.prems obtain c cs where w: "w = c # cs" by (cases w) auto
  from Cons.prems(2) [of w] w have "\<And>x. x \<in> set w \<Longrightarrow> c = g x" by fastforce
  with Cons.IH [of "fold (\<lambda>m. AList.update m c) w res"] Cons.prems w show ?case
    by (auto simp: fold_update_const simp del: fold.simps)
qed

lemma uf_members_iff:
  assumes "uf_inv u"
  shows "(r, M) \<in> set (members u) \<longleftrightarrow> map_of (parent u) r = Some r \<and> M = {z. uf_same u z r}"
proof -
  from assms have "(r, M) \<in> set (members u) \<longleftrightarrow> map_of (members u) r = Some M"
    by (simp add: uf_inv_def)
  also have "\<dots> \<longleftrightarrow> map_of (parent u) r = Some r \<and> M = {z. uf_same u z r}"
  proof
    assume M: "map_of (members u) r = Some M"
    then have "r \<in> dom (map_of (members u))" by (rule domI)
    with assms have r: "map_of (parent u) r = Some r" by (simp add: uf_inv_def)
    with uf_members_eq_same [OF assms uf_root_self [OF r] M]
    show "map_of (parent u) r = Some r \<and> M = {z. uf_same u z r}" by simp
  next
    assume r: "map_of (parent u) r = Some r \<and> M = {z. uf_same u z r}"
    then have "r \<in> dom (map_of (members u))" using assms by (simp add: uf_inv_def)
    then obtain N where N: "map_of (members u) r = Some N" by auto
    with uf_members_eq_same [OF assms uf_root_self N] r show "map_of (members u) r = Some M" by simp
  qed
  finally show ?thesis .
qed

lemma uf_same_sym: "uf_same u x y \<Longrightarrow> uf_same u y x"
  by (auto simp: uf_same_def)

lemma uf_same_trans: "uf_same u x y \<Longrightarrow> uf_same u y z \<Longrightarrow> uf_same u x z"
  by (auto simp: uf_same_def)

lemma uf_same_items: "uf_same u x y \<Longrightarrow> x \<in> uf_items u \<and> y \<in> uf_items u"
  using uf_root_items by (auto simp: uf_same_def)

lemma uf_class_finite: "finite {z. uf_same u z x}"
  by (rule finite_subset [of _ "uf_items u"]) (auto dest: uf_same_items simp: uf_items_def)

lemma sorted_list_of_set_hd:
  "finite A \<Longrightarrow> A \<noteq> {} \<Longrightarrow> \<exists>cs. sorted_list_of_set A = Min A # cs"
  by (metis sorted_list_of_set_nonempty)

lemma uf_components_spec:
  assumes inv: "uf_inv u"
  shows "\<exists>out. uf_components u = py_ret out \<and> distinct (map fst out) \<and>
    (\<forall>c ms. (c, ms) \<in> set out \<longleftrightarrow> c \<in> uf_items u \<and> c = Min {z. uf_same u z c} \<and>
       ms = sorted_list_of_set {z. uf_same u z c})"
proof -
  let ?key = "\<lambda>(r, M). Min M" and ?val = "\<lambda>(r, M). sorted_list_of_set M"
  have mem: "M = {z. uf_same u z r} \<and> r \<in> M" if "(r, M) \<in> set (members u)" for r M
    using that uf_same_refl [OF inv] uf_items_dom uf_members_iff [OF inv] by fastforce
  have step: "(\<lambda>(root, mem) out. (case sorted_list_of_set mem of [] \<Rightarrow> py_raise IndexError
        | c # cs \<Rightarrow> py_ret (AList.update c (c # cs) out))) x out
      = py_ret (AList.update (?key x) (?val x) out)"
    if "x \<in> set (members u)" for x and out :: "(int, int list) dict"
  proof (cases x)
    case (Pair r M)
    with mem that have "finite M" "M \<noteq> {}" using uf_class_finite by auto
    from sorted_list_of_set_hd [OF this] Pair show ?thesis by auto
  qed
  have dist: "distinct (map ?key (members u))"
  proof (rule distinct_map [THEN iffD2], intro conjI inj_onI)
    show "distinct (members u)" using inv by (simp add: uf_inv_def distinct_map)
    fix x y assume xy: "x \<in> set (members u)" "y \<in> set (members u)" "?key x = ?key y"
    obtain r M s N where p: "x = (r, M)" "y = (s, N)" by fastforce
    with xy mem have M: "M = {z. uf_same u z r}" "r \<in> M" "N = {z. uf_same u z s}" "s \<in> N" by blast+
    have "finite M" "finite N" using M uf_class_finite by auto
    with M have "Min M \<in> M" "Min N \<in> N" using Min_in by blast+
    with xy(3) p M have "uf_same u r s" by (auto intro: uf_same_sym uf_same_trans)
    moreover have "map_of (parent u) r = Some r" "map_of (parent u) s = Some s"
      using xy p uf_members_iff [OF inv] by blast+
    ultimately have "r = s" by (simp add: uf_same_def uf_root_self)
    with p M show "x = y" by simp
  qed
  let ?out = "map (\<lambda>x. (?key x, ?val x)) (members u)"
  have "uf_components u = py_ret (fold (\<lambda>x. AList.update (?key x) (?val x)) (members u) [])"
    unfolding uf_components_def by (rule py_fold_ret) (rule step)
  also have "fold (\<lambda>x. AList.update (?key x) (?val x)) (members u) [] = ?out"
    using fold_update_fresh [OF dist, of "[]" ?val] by simp
  finally have out: "uf_components u = py_ret ?out" .
  moreover have "distinct (map fst ?out)" using dist by (simp add: comp_def)
  moreover have "(c, ms) \<in> set ?out \<longleftrightarrow> c \<in> uf_items u \<and> c = Min {z. uf_same u z c} \<and>
       ms = sorted_list_of_set {z. uf_same u z c}" for c ms
  proof
    assume "(c, ms) \<in> set ?out"
    then obtain r M where rM: "(r, M) \<in> set (members u)" "c = Min M" "ms = sorted_list_of_set M" by auto
    note M = mem [OF rM(1)]
    then have "Min M \<in> M" using uf_class_finite by (metis Min_in empty_iff)
    with M rM(2) have "uf_same u c r" by auto
    then have "{z. uf_same u z c} = M" using M by (auto intro: uf_same_sym uf_same_trans)
    with rM(2,3) uf_same_items [OF \<open>uf_same u c r\<close>]
    show "c \<in> uf_items u \<and> c = Min {z. uf_same u z c} \<and> ms = sorted_list_of_set {z. uf_same u z c}" by simp
  next
    assume c: "c \<in> uf_items u \<and> c = Min {z. uf_same u z c} \<and> ms = sorted_list_of_set {z. uf_same u z c}"
    then obtain r where r: "uf_root (parent u) c = py_ret r" "map_of (parent u) r = Some r"
      using uf_inv_root [OF inv] by blast
    then have "{z. uf_same u z r} = {z. uf_same u z c}"
      by (auto simp: uf_same_def uf_root_self)
    moreover have "(r, {z. uf_same u z r}) \<in> set (members u)" using uf_members_iff [OF inv] r(2) by simp
    ultimately show "(c, ms) \<in> set ?out" using c by force
  qed
  ultimately show ?thesis by blast
qed

lemma uf_comp_of_spec:
  assumes inv: "uf_inv u"
  shows "\<exists>m. uf_comp_of u = py_ret m \<and> (\<forall>x. map_of m x =
    (if x \<in> uf_items u then Some (Min {z. uf_same u z x}) else None))"
proof -
  obtain out where out: "uf_components u = py_ret out" and
    mem: "\<And>c ms. (c, ms) \<in> set out \<longleftrightarrow> c \<in> uf_items u \<and> c = Min {z. uf_same u z c} \<and>
       ms = sorted_list_of_set {z. uf_same u z c}"
    using uf_components_spec [OF inv] by blast
  let ?g = "\<lambda>x. Min {z. uf_same u z x}"
  have cls: "{z. uf_same u z x} = {z. uf_same u z y}" if "uf_same u x y" for x y
    using that by (auto intro: uf_same_sym uf_same_trans)
  have ne: "{z. uf_same u z c} \<noteq> {}" if "c \<in> uf_items u" for c
    using uf_same_refl [OF inv that] by blast
  have o: "w \<noteq> [] \<and> (\<forall>x \<in> set w. hd w = ?g x)" if w: "w \<in> set (map snd out)" for w
  proof -
    from w obtain c where c: "(c, w) \<in> set out" by auto
    then have w': "w = sorted_list_of_set {z. uf_same u z c}" and "c \<in> uf_items u" using mem by blast+
    with sorted_list_of_set_hd [OF uf_class_finite ne] obtain cs where "w = ?g c # cs" by blast
    moreover have "?g x = ?g c" if "x \<in> set w" for x
      using that w' uf_class_finite cls by simp
    ultimately show ?thesis by simp
  qed
  have un: "(\<Union>w \<in> set (map snd out). set w) = uf_items u"
  proof (intro set_eqI iffI)
    fix x assume "x \<in> (\<Union>w \<in> set (map snd out). set w)"
    then show "x \<in> uf_items u" using mem uf_class_finite by (auto dest: uf_same_items)
  next
    fix x assume x: "x \<in> uf_items u"
    from Min_in [OF uf_class_finite ne [OF x]] have s: "uf_same u (?g x) x" by simp
    then have "(?g x, sorted_list_of_set {z. uf_same u z x}) \<in> set out"
      using mem uf_same_items cls by metis
    then have "sorted_list_of_set {z. uf_same u z x} \<in> set (map snd out)" by force
    moreover have "x \<in> set (sorted_list_of_set {z. uf_same u z x})"
      using uf_same_refl [OF inv x] by (simp add: uf_class_finite)
    ultimately show "x \<in> (\<Union>w \<in> set (map snd out). set w)" by (rule UN_I)
  qed
  from py_fold_heads [where os = "map snd out" and g = ?g and res = "[]"] o
  obtain m where "uf_comp_of u = py_ret m"
      "\<forall>x. map_of m x = (if x \<in> (\<Union>w \<in> set (map snd out). set w) then Some (?g x) else map_of [] x)"
    unfolding uf_comp_of_def out py_bind_ret by blast
  then show ?thesis unfolding un by auto
qed

subsection \<open>Properties\<close>

definition uf_unions :: "(int \<times> int \<times> nat option) list \<Rightarrow> uf \<Rightarrow> uf py" where
  "uf_unions ops = py_fold (\<lambda>(a, b, ms) u. py_bind (uf_union u a b ms) (\<lambda>(_, v). py_ret v)) ops"

lemma uf_unions_advances:
  assumes "uf_inv u" and "\<forall>(a, b, ms) \<in> set ops. a \<in> uf_items u \<and> b \<in> uf_items u"
  shows "\<exists>v. uf_unions ops u = py_ret v \<and> ufp.advances u v"
  using assms
proof (induction ops arbitrary: u)
  case Nil
  then show ?case by (simp add: uf_unions_def)
next
  case (Cons op ops)
  obtain a b ms where op: "op = (a, b, ms)" by (cases op)
  with Cons.prems have ab: "a \<in> uf_items u" "b \<in> uf_items u" by auto
  obtain ok t where t: "uf_union u a b ms = py_ret (ok, t)" "ufp.advances u t"
    by (rule ufp.join_advances [OF Cons.prems(1) ab])
  with Cons.prems have "uf_inv t" "uf_items t = uf_items u" by (simp_all add: ufp.advances_def)
  with Cons.prems(2) Cons.IH [of t] obtain v where "uf_unions ops t = py_ret v" "ufp.advances t v"
    by auto
  with t ufp.advances_trans show ?case by (auto simp: uf_unions_def op)
qed

text \<open>
  C4. A human \<^emph>\<open>separate\<close> always wins. Whatever cannot-links the constructor is given and whatever
  unions follow (with or without a size cap), every call returns, and the two ends of a
  cannot-link are in different components of \<open>comp_of\<close> at the end.
\<close>

theorem cannot_links_hold:
  assumes "\<forall>(a, b, ms) \<in> set ops. a \<in> set items \<and> b \<in> set items"
  shows "\<exists>u v comp. uf_init items cl = py_ret u \<and> uf_unions ops u = py_ret v \<and>
    uf_comp_of v = py_ret comp \<and>
    (\<forall>a b. (a, b) \<in> set cl \<and> a \<in> set items \<and> b \<in> set items \<and> a \<noteq> b \<longrightarrow>
       map_of comp a \<noteq> map_of comp b)"
proof -
  obtain u where u: "uf_init items cl = py_ret u" "uf_inv u" "uf_items u = set items"
      "uf_apart (effective items cl) u"
    using uf_init_spec by blast
  with assms obtain v where v: "uf_unions ops u = py_ret v" "ufp.advances u v"
    using uf_unions_advances [of u ops] by auto
  then have v': "uf_inv v" "uf_items v = set items" using u by (simp_all add: ufp.advances_def)
  then obtain comp where c: "uf_comp_of v = py_ret comp" "\<And>x. map_of comp x =
      (if x \<in> set items then Some (Min {z. uf_same v z x}) else None)"
    using uf_comp_of_spec by metis
  have "map_of comp a \<noteq> map_of comp b"
    if "(a, b) \<in> set cl \<and> a \<in> set items \<and> b \<in> set items \<and> a \<noteq> b" for a b
  proof
    assume "map_of comp a = map_of comp b"
    with that c(2) have eq: "Min {z. uf_same v z a} = Min {z. uf_same v z b}" by simp
    have "Min {z. uf_same v z x} \<in> {z. uf_same v z x}" if "x \<in> set items" for x
      using uf_same_refl [OF v'(1)] v'(2) that by (intro Min_in uf_class_finite) blast
    with eq that have "uf_same v a b"
      by (metis (no_types, lifting) mem_Collect_eq uf_same_sym uf_same_trans)
    moreover have "(a, b) \<in> effective items cl" using that by (simp add: effective_def)
    ultimately show False using ufp.advances_separate [OF v(2) u(2,4)] by blast
  qed
  with u(1) v(1) c(1) show ?thesis by blast
qed

theorem cannot_links_hold_witness:
  "\<exists>u v comp. uf_init [1, 2, 3] [(1, 3)] = py_ret u \<and>
    uf_unions [(1, 2, None), (2, 3, None)] u = py_ret v \<and>
    uf_comp_of v = py_ret comp \<and> map_of comp 1 \<noteq> map_of comp 3"
  using cannot_links_hold [of "[(1, 2, None), (2, 3, None)]" "[1, 2, 3]" "[(1, 3)]"] by simp

text \<open>
  C5. \<open>union\<close> is correct: on an object in the class invariant it returns, keeps the invariant and
  the items, answers \<open>True\<close> exactly when the two ids were together already or no cannot-link and
  no size cap stands between their components, and then (and only then) merges exactly those two.
\<close>

theorem union_correct:
  assumes "uf_inv u" and "a \<in> uf_items u" and "b \<in> uf_items u"
  shows "\<exists>ok v. uf_union u a b ms = py_ret (ok, v) \<and> uf_inv v \<and> uf_items v = uf_items u \<and>
    (ok \<longleftrightarrow> uf_same u a b \<or> \<not> uf_barred u a b \<and> uf_fits u a b ms) \<and>
    (\<forall>x y. uf_same v x y \<longleftrightarrow> uf_same u x y \<or>
       ok \<and> (uf_same u x a \<and> uf_same u b y \<or> uf_same u x b \<and> uf_same u a y))"
  using uf_union_spec [OF assms, of ms] by blast

theorem union_correct_witness:
  "\<exists>u. uf_init [4, 7] [] = py_ret u \<and> (\<exists>ok v. uf_union u 4 7 None = py_ret (ok, v) \<and> uf_inv v)"
proof -
  obtain u where u: "uf_init [4, 7] [] = py_ret u" "uf_inv u" "uf_items u = {4, 7}"
    using uf_init_spec [of "[4, 7]" "[]"] by auto
  with union_correct [of u 4 7 None] show ?thesis by auto
qed

text \<open>
  C6. \<open>components\<close> lists every component once, keyed by its smallest member with its members in
  order, so the result does not depend on which member happens to be the root.
\<close>

theorem components_partition:
  assumes "uf_inv u"
  shows "\<exists>out. uf_components u = py_ret out \<and> distinct (map fst out) \<and>
    (\<forall>c ms. (c, ms) \<in> set out \<longleftrightarrow> c \<in> uf_items u \<and> c = Min {z. uf_same u z c} \<and>
       ms = sorted_list_of_set {z. uf_same u z c})"
  using assms by (rule uf_components_spec)

theorem components_partition_witness:
  "\<exists>u out. uf_init [5, 3] [] = py_ret u \<and> uf_components u = py_ret out \<and> distinct (map fst out)"
proof -
  obtain u where "uf_init [5, 3] [] = py_ret u" "uf_inv u"
    using uf_init_spec [of "[5, 3]" "[]"] by auto
  with components_partition [of u] show ?thesis by auto
qed

end
