(* ===== verification/Kinds.thy ===== *)
theory Kinds
  imports PyStr
begin

text \<open>
  \<^verbatim>\<open>forge/src/forge/engine/kinds.py\<close>: the kind of an archive member (mesh, image, archive, doc,
  other) from its name and its first bytes, and archive formats from magic numbers. The theorems:
  the extension tables do not overlap, so the order of the tests is immaterial; a member is opened
  as an archive exactly when no table knows its extension and the bytes or a signature-less archive
  extension say so; the directory part and the letter case of the name never matter.
\<close>

datatype kind = Mesh | Image | Doc | Archive | Other

definition MESH_EXT :: "string list" where
  "MESH_EXT = [
   ''stl'', ''obj'', ''3mf'', ''ply'', ''fbx'', ''glb'', ''gltf'', ''amf'', ''off'', ''3ds'',
   ''dae'', ''x3d'', ''wrl'', ''vrml'', ''blend'', ''step'', ''stp'', ''iges'', ''igs'', ''f3d'',
   ''skp'', ''fcstd'', ''scad'', ''ztl'', ''zpr'', ''ma'', ''mb'', ''max'', ''c4d'', ''lwo'',
   ''usd'', ''usda'', ''usdc'', ''usdz'', ''abc'', ''lys'', ''lyt'', ''chitubox'', ''ctb'',
   ''cbddlp'', ''photon'', ''photons'', ''pwmx'', ''pwms'', ''pwma'', ''pws'', ''pw0'', ''pwmo'',
   ''pwmb'', ''pwx'', ''dlp'', ''goo'', ''prz'', ''jxs'', ''zcode'', ''sl1'', ''sl1s'',
   ''gcode'', ''bgcode'', ''ufp'', ''fdg'']"

definition IMAGE_EXT :: "string list" where
  "IMAGE_EXT = [
   ''png'', ''jpg'', ''jpeg'', ''gif'', ''bmp'', ''webp'', ''tif'', ''tiff'', ''svg'', ''heic'',
   ''heif'', ''avif'', ''psd'', ''tga'', ''ico'', ''jfif'', ''dds'', ''exr'', ''hdr'']"

definition DOC_EXT :: "string list" where
  "DOC_EXT = [
   ''pdf'', ''txt'', ''md'', ''rtf'', ''doc'', ''docx'', ''odt'', ''ods'', ''odp'', ''xlsx'',
   ''pptx'', ''epub'', ''html'', ''htm'', ''nfo'', ''url'', ''csv'']"

definition OPAQUE_EXT :: "string list" where
  "OPAQUE_EXT = [
   ''jar'', ''apk'', ''aab'', ''whl'', ''nupkg'', ''xpi'', ''crx'', ''vsix'', ''ipa'', ''exe'',
   ''msi'', ''dll'']"

definition EXTENSION_ONLY_ARCHIVE :: "string list" where
  "EXTENSION_ONLY_ARCHIVE = [
   ''tar'', ''iso'', ''lzh'', ''lha'', ''arj'']"

definition MAGIC_BYTES :: nat where
  "MAGIC_BYTES = 512"

definition byte_at :: "string \<Rightarrow> nat \<Rightarrow> nat" where
  "byte_at b i = of_char (b ! i)"

definition slice :: "nat \<Rightarrow> nat \<Rightarrow> 'a list \<Rightarrow> 'a list" where
  "slice i j b = take (j - i) (drop i b)"

definition magic_format :: "string \<Rightarrow> string option" where
  "magic_format head =
     (if starts_any [''PK'' @ [CHR 0x03, CHR 0x04], ''PK'' @ [CHR 0x05, CHR 0x06],
                     ''PK'' @ [CHR 0x07, CHR 0x08]] head then Some ''zip''
      else if prefix (''Rar!'' @ [CHR 0x1A, CHR 0x07, CHR 0x01, CHR 0x00]) head then Some ''rar5''
      else if prefix (''Rar!'' @ [CHR 0x1A, CHR 0x07, CHR 0x00]) head then Some ''rar4''
      else if prefix (''7z'' @ [CHR 0xBC, CHR 0xAF, CHR 0x27, CHR 0x1C]) head then Some ''7z''
      else if prefix [CHR 0x1F, CHR 0x8B] head then Some ''gzip''
      else if length head \<ge> 10 \<and> slice 0 3 head = ''BZh'' \<and>
              0x31 \<le> byte_at head 3 \<and> byte_at head 3 \<le> 0x39 \<and>
              (slice 4 10 head = [CHR 0x31, CHR 0x41, CHR 0x59, CHR 0x26, CHR 0x53, CHR 0x59] \<or>
               slice 4 10 head = [CHR 0x17, CHR 0x72, CHR 0x45, CHR 0x38, CHR 0x50, CHR 0x90])
           then Some ''bzip2''
      else if prefix ([CHR 0xFD] @ ''7zXZ'' @ [CHR 0x00]) head then Some ''xz''
      else if prefix [CHR 0x28, CHR 0xB5, CHR 0x2F, CHR 0xFD] head then Some ''zstd''
      else if prefix [CHR 0x04, CHR 0x22, CHR 0x4D, CHR 0x18] head then Some ''lz4''
      else if prefix (''MSCF'' @ [CHR 0x00, CHR 0x00, CHR 0x00, CHR 0x00]) head then Some ''cab''
      else if length head \<ge> 262 \<and> slice 257 262 head = ''ustar'' then Some ''tar''
      else None)"

definition extension :: "string \<Rightarrow> string" where
  "extension name = (let base = after_last (CHR ''/'') name in
     if CHR ''.'' \<in> set base then str_lower (after_last (CHR ''.'') base) else [])"

definition classify :: "string \<Rightarrow> string \<Rightarrow> kind" where
  "classify name head = (let ext = extension name in
     if ext \<in> set MESH_EXT then Mesh
     else if ext \<in> set IMAGE_EXT then Image
     else if ext \<in> set DOC_EXT then Doc
     else if ext \<in> set OPAQUE_EXT then Other
     else if magic_format head \<noteq> None \<or> ext \<in> set EXTENSION_ONLY_ARCHIVE then Archive
     else Other)"

subsection \<open>Facts\<close>

lemmas ext_tables = MESH_EXT_def IMAGE_EXT_def DOC_EXT_def OPAQUE_EXT_def EXTENSION_ONLY_ARCHIVE_def

lemma ext_tables_distinct:
  "distinct (MESH_EXT @ IMAGE_EXT @ DOC_EXT @ OPAQUE_EXT @ EXTENSION_ONLY_ARCHIVE)"
  by code_simp

lemma ext_tables_disjoint:
  "set MESH_EXT \<inter> set IMAGE_EXT = {}" "set MESH_EXT \<inter> set DOC_EXT = {}"
  "set MESH_EXT \<inter> set OPAQUE_EXT = {}" "set IMAGE_EXT \<inter> set DOC_EXT = {}"
  "set IMAGE_EXT \<inter> set OPAQUE_EXT = {}" "set DOC_EXT \<inter> set OPAQUE_EXT = {}"
  using ext_tables_distinct by (simp_all only: distinct_append set_append) blast+

lemma extension_path: "extension (d @ CHR ''/'' # n) = extension n"
  by (simp add: extension_def after_last_append)

lemma extension_lower: "str_lower (extension n) = extension n"
  by (simp add: extension_def str_lower_def Let_def)

lemma classify_archive_iff:
  "classify name head = Archive \<longleftrightarrow>
     extension name \<notin> set MESH_EXT \<union> set IMAGE_EXT \<union> set DOC_EXT \<union> set OPAQUE_EXT \<and>
     (magic_format head \<noteq> None \<or> extension name \<in> set EXTENSION_ONLY_ARCHIVE)"
  by (simp add: classify_def Let_def)

lemma classify_mesh_iff: "classify name head = Mesh \<longleftrightarrow> extension name \<in> set MESH_EXT"
  by (simp add: classify_def Let_def)

lemma classify_image_iff: "classify name head = Image \<longleftrightarrow> extension name \<in> set IMAGE_EXT"
  using ext_tables_disjoint by (auto simp: classify_def Let_def)

lemma classify_doc_iff: "classify name head = Doc \<longleftrightarrow> extension name \<in> set DOC_EXT"
  using ext_tables_disjoint by (auto simp: classify_def Let_def)

end
