(* ===== verification/Refuse.thy ===== *)
theory Refuse
  imports PyStr "HOL-Library.Word"
begin

unbundle bit_operations_syntax

text \<open>
  \<^verbatim>\<open>forge/src/forge/engine/refuse.py\<close>: which archive member names and member types are refused.
  An accepted name is a relative path of ordinary segments; the theorems say so, that every refusal
  carries a reason of the closed list of \<^verbatim>\<open>types.py\<close>, and that an accepted path is accepted again
  unchanged unless it starts like a drive letter (the check looks for one before it drops the empty
  and \<open>.\<close> segments, so \<open>./C:x\<close> is accepted as \<open>C:x\<close>, which is itself refused).
  File modes are the POSIX \<open>S_IFMT\<close> bits as unbounded integers. \<open>decode_name\<close> (UTF-8 with escapes)
  makes the name these functions get from raw bytes; it is a parameter of the engine model.
\<close>

definition AE_IFMT :: int where "AE_IFMT = 0xF000"
definition AE_IFREG :: int where "AE_IFREG = 0x8000"
definition AE_IFLNK :: int where "AE_IFLNK = 0xA000"
definition AE_IFSOCK :: int where "AE_IFSOCK = 0xC000"
definition AE_IFCHR :: int where "AE_IFCHR = 0x2000"
definition AE_IFBLK :: int where "AE_IFBLK = 0x6000"
definition AE_IFDIR :: int where "AE_IFDIR = 0x4000"
definition AE_IFIFO :: int where "AE_IFIFO = 0x1000"

text \<open>The reasons of \<^verbatim>\<open>Sink.refused\<close> (\<^verbatim>\<open>types.py\<close>).\<close>

definition REFUSAL_REASONS :: "string list" where
  "REFUSAL_REASONS = [''absolute_path'', ''parent_traversal'', ''control_chars'', ''empty_name'',
     ''symlink'', ''hardlink'', ''device'', ''fifo'', ''socket'', ''not_regular'',
     ''vanished'', ''reader_error'']"

definition is_control :: "char \<Rightarrow> bool" where
  "is_control c \<longleftrightarrow> (let n = of_char c :: nat in n < 32 \<or> n = 127)"

definition has_drive :: "string \<Rightarrow> bool" where
  "has_drive s \<longleftrightarrow> (case s of a # b # _ \<Rightarrow> is_letter a \<and> b = CHR '':'' | _ \<Rightarrow> False)"

definition hex_digit :: "nat \<Rightarrow> char" where
  "hex_digit n = ''0123456789abcdef'' ! n"

definition display_name :: "string \<Rightarrow> string" where
  "display_name name = concat (map (\<lambda>c. if is_control c
     then [CHR 0x5C, CHR ''x'', hex_digit (of_char c div 16), hex_digit (of_char c mod 16)]
     else [c]) name)"

definition name_parts :: "string \<Rightarrow> string list" where
  "name_parts unified = filter (\<lambda>p. p \<noteq> [] \<and> p \<noteq> ''.'') (split_on (CHR ''/'') unified)"

definition check_name :: "string \<Rightarrow> string option \<times> string option" where
  "check_name name =
     (if \<exists>c \<in> set name. is_control c then (None, Some ''control_chars'')
      else
        let unified = replace_char (CHR 0x5C) (CHR ''/'') name in
        if prefix ''/'' unified \<or> has_drive unified then (None, Some ''absolute_path'')
        else
          let parts = name_parts unified in
          if \<exists>p \<in> set parts. p = ''..'' then (None, Some ''parent_traversal'')
          else if parts = [] then (None, Some ''empty_name'')
          else (Some (join_on (CHR ''/'') parts), None))"

definition check_filetype :: "int \<Rightarrow> bool \<Rightarrow> bool \<Rightarrow> string option" where
  "check_filetype filetype hardlink symlink =
     (if symlink then Some ''symlink''
      else if hardlink then Some ''hardlink''
      else
        let ft = filetype AND AE_IFMT in
        if ft = AE_IFREG \<or> ft = 0 then None
        else if ft = AE_IFLNK then Some ''symlink''
        else if ft \<in> {AE_IFCHR, AE_IFBLK} then Some ''device''
        else if ft = AE_IFIFO then Some ''fifo''
        else if ft = AE_IFSOCK then Some ''socket''
        else Some ''not_regular'')"

subsection \<open>What an accepted name looks like\<close>

text \<open>The predicate the materializer uses for a path it may join under its root
  (\<^verbatim>\<open>guard.is_v2_relative_safe\<close>) describes accepted names.\<close>

definition is_v2_relative_safe :: "string \<Rightarrow> bool" where
  "is_v2_relative_safe rel \<longleftrightarrow>
     (if rel = [] \<or> prefix ''/'' rel \<or> CHR 0x00 \<in> set rel then False
      else \<forall>part \<in> set (split_on (CHR ''/'') rel). part \<notin> {[], ''.'', ''..''})"

lemma name_parts_props:
  "p \<in> set (name_parts u) \<Longrightarrow> p \<noteq> [] \<and> p \<noteq> ''.'' \<and> CHR ''/'' \<notin> set p \<and> set p \<subseteq> set u"
  using split_on_parts set_split_on by (fastforce simp: name_parts_def)

lemma name_parts_join:
  assumes "ps \<noteq> []" and "\<And>p. p \<in> set ps \<Longrightarrow> p \<noteq> [] \<and> p \<noteq> ''.'' \<and> CHR ''/'' \<notin> set p"
  shows "name_parts (join_on (CHR ''/'') ps) = ps"
  using assms by (simp add: name_parts_def split_join_on filter_id_conv)

lemma check_name_Some:
  assumes "check_name name = (Some p, w)"
  shows "w = None" and "\<exists>ps. p = join_on (CHR ''/'') ps \<and> ps \<noteq> [] \<and>
    (\<forall>q \<in> set ps. q \<noteq> [] \<and> q \<noteq> ''.'' \<and> q \<noteq> ''..'' \<and> CHR ''/'' \<notin> set q \<and> CHR 0x5C \<notin> set q \<and>
       (\<forall>c \<in> set q. \<not> is_control c))"
proof -
  let ?u = "replace_char (CHR 0x5C) (CHR ''/'') name"
  from assms have ctl: "\<forall>c \<in> set name. \<not> is_control c" and w: "w = None"
    and p: "p = join_on (CHR ''/'') (name_parts ?u)" and ne: "name_parts ?u \<noteq> []"
    and dots: "\<forall>q \<in> set (name_parts ?u). q \<noteq> ''..''"
    by (auto simp: check_name_def Let_def split: if_splits)
  show "w = None" by (rule w)
  have "set ?u \<subseteq> insert (CHR ''/'') (set name)" by (auto simp: replace_char_def)
  moreover have "\<not> is_control (CHR ''/'')" by (simp add: is_control_def)
  moreover have "CHR 0x5C \<notin> set ?u" by (rule replace_char_notin) simp
  ultimately have "\<forall>q \<in> set (name_parts ?u). CHR 0x5C \<notin> set q \<and> (\<forall>c \<in> set q. \<not> is_control c)"
    using ctl name_parts_props by blast
  with p ne dots name_parts_props show "\<exists>ps. p = join_on (CHR ''/'') ps \<and> ps \<noteq> [] \<and>
    (\<forall>q \<in> set ps. q \<noteq> [] \<and> q \<noteq> ''.'' \<and> q \<noteq> ''..'' \<and> CHR ''/'' \<notin> set q \<and> CHR 0x5C \<notin> set q \<and>
       (\<forall>c \<in> set q. \<not> is_control c))"
    by blast
qed

lemma join_on_relative:
  assumes "ps \<noteq> []" and "\<And>q. q \<in> set ps \<Longrightarrow> q \<noteq> [] \<and> CHR ''/'' \<notin> set q"
  shows "join_on (CHR ''/'') ps \<noteq> []" and "\<not> prefix ''/'' (join_on (CHR ''/'') ps)"
proof -
  obtain q qs where ps: "ps = q # qs" using assms(1) by (cases ps) auto
  with assms(2) [of q] obtain x xs where q: "q = x # xs" "x \<noteq> CHR ''/''" by (cases q) auto
  then show "join_on (CHR ''/'') ps \<noteq> []" and "\<not> prefix ''/'' (join_on (CHR ''/'') ps)"
    by (cases qs; simp add: ps)+
qed

lemma check_name_safe:
  assumes "check_name name = (Some p, w)"
  shows "is_v2_relative_safe p" and "\<forall>c \<in> set p. \<not> is_control c" and "CHR 0x5C \<notin> set p"
proof -
  from check_name_Some(2) [OF assms] obtain ps where ps: "p = join_on (CHR ''/'') ps" "ps \<noteq> []"
    "\<forall>q \<in> set ps. q \<noteq> [] \<and> q \<noteq> ''.'' \<and> q \<noteq> ''..'' \<and> CHR ''/'' \<notin> set q \<and> CHR 0x5C \<notin> set q \<and>
       (\<forall>c \<in> set q. \<not> is_control c)" by blast
  have "\<not> is_control (CHR ''/'')" by (simp add: is_control_def)
  with ps set_join_on [of "CHR ''/''" ps] show c: "\<forall>c \<in> set p. \<not> is_control c" by blast
  have "CHR 0x5C \<noteq> CHR ''/''" by simp
  with ps set_join_on [of "CHR ''/''" ps] show "CHR 0x5C \<notin> set p" by blast
  have "is_control (CHR 0x00)" by (simp add: is_control_def)
  with c have "CHR 0x00 \<notin> set p" by blast
  moreover have "p \<noteq> []" "\<not> prefix ''/'' p" using join_on_relative [of ps] ps by auto
  moreover have "split_on (CHR ''/'') p = ps" using ps by (simp add: split_join_on)
  ultimately show "is_v2_relative_safe p" using ps(3) by (auto simp: is_v2_relative_safe_def)
qed

lemma check_name_fixpoint:
  assumes "check_name name = (Some p, w)"
  shows "check_name p = (if has_drive p then (None, Some ''absolute_path'') else (Some p, None))"
proof -
  note safe = check_name_safe [OF assms]
  from check_name_Some(2) [OF assms] obtain ps where ps: "p = join_on (CHR ''/'') ps" "ps \<noteq> []"
    "\<forall>q \<in> set ps. q \<noteq> [] \<and> q \<noteq> ''.'' \<and> q \<noteq> ''..'' \<and> CHR ''/'' \<notin> set q" by blast
  then have parts: "name_parts p = ps" by (simp add: name_parts_join)
  have "replace_char (CHR 0x5C) (CHR ''/'') p = p" using safe(3) by (rule replace_char_id)
  with safe(1,2) parts ps show ?thesis
    by (auto simp: check_name_def is_v2_relative_safe_def Let_def split: if_splits)
qed

lemma check_name_reason: "check_name name = (q, Some w) \<Longrightarrow> q = None \<and> w \<in> set REFUSAL_REASONS"
  by (auto simp: check_name_def REFUSAL_REASONS_def Let_def split: if_splits)

lemma check_filetype_reason: "check_filetype ft h s = Some w \<Longrightarrow> w \<in> set REFUSAL_REASONS"
  by (auto simp: check_filetype_def REFUSAL_REASONS_def Let_def split: if_splits)

subsection \<open>Properties\<close>

text \<open>
  C7. Path traversal is impossible through a member name: whatever name an archive carries, an
  accepted name is a relative path that may be joined under a root (no empty, \<open>.\<close> or \<open>..\<close> segment,
  no leading separator), without control characters or backslashes.
\<close>

theorem accepted_name_is_safe:
  assumes "check_name name = (Some p, w)"
  shows "w = None \<and> is_v2_relative_safe p \<and> (\<forall>c \<in> set p. \<not> is_control c) \<and> CHR 0x5C \<notin> set p"
  using check_name_Some(1) [OF assms] check_name_safe [OF assms] by blast

theorem accepted_name_is_safe_witness:
  "check_name ([CHR ''a'', CHR 0x5C] @ ''.//b.stl'') = (Some ''a/b.stl'', None) \<and>
   is_v2_relative_safe ''a/b.stl''"
proof -
  have "check_name ([CHR ''a'', CHR 0x5C] @ ''.//b.stl'') = (Some ''a/b.stl'', None)" by code_simp
  with accepted_name_is_safe [OF this] show ?thesis by blast
qed

text \<open>
  C8. Accepting is stable up to drive letters: an accepted path is accepted again, unchanged,
  exactly when it does not begin like a Windows drive. The exception is real: the check for a drive
  letter runs before \<open>.\<close> segments are dropped, so \<open>./C:x\<close> is accepted as \<open>C:x\<close>.
\<close>

theorem accepted_name_fixpoint:
  assumes "check_name name = (Some p, w)"
  shows "check_name p = (Some p, None) \<longleftrightarrow> \<not> has_drive p"
  using check_name_fixpoint [OF assms] by simp

theorem accepted_name_fixpoint_witness:
  "check_name ''./C:x'' = (Some ''C:x'', None) \<and> check_name ''C:x'' = (None, Some ''absolute_path'')"
proof -
  have a: "check_name ''./C:x'' = (Some ''C:x'', None)" by code_simp
  have "has_drive ''C:x''" by code_simp
  with accepted_name_fixpoint [OF a] have "check_name ''C:x'' \<noteq> (Some ''C:x'', None)" by blast
  moreover have "check_name ''C:x'' = (None, Some ''absolute_path'')" by code_simp
  ultimately show ?thesis using a by blast
qed

end
