(* ===== verification/Effects.thy ===== *)
theory Effects
  imports Prelude
begin

text \<open>
  Stateful code that raises: an action of type \<open>('s, 'e, 'a) act\<close> runs on a state and returns the
  changed state together with an exception (\<open>Inl\<close>) or a value (\<open>Inr\<close>). As in Python, what was
  assigned before a \<open>raise\<close> stays assigned. The Hoare triple \<open>triple P m Q E\<close> has one postcondition
  for a normal return and one for an exception; its rules are in the collection \<open>triple_rules\<close>.
\<close>

named_theorems act_simps "evaluation of actions"
named_theorems triple_rules "introduction rules for triples over actions"

type_synonym ('s, 'e, 'a) act = "'s \<Rightarrow> ('e + 'a) \<times> 's"

definition act_ret :: "'a \<Rightarrow> ('s, 'e, 'a) act" where
  "act_ret v = (\<lambda>s. (Inr v, s))"

definition act_raise :: "'e \<Rightarrow> ('s, 'e, 'a) act" where
  "act_raise e = (\<lambda>s. (Inl e, s))"

definition act_bind :: "('s, 'e, 'a) act \<Rightarrow> ('a \<Rightarrow> ('s, 'e, 'b) act) \<Rightarrow> ('s, 'e, 'b) act" where
  "act_bind m f = (\<lambda>s. case m s of (Inl e, t) \<Rightarrow> (Inl e, t) | (Inr v, t) \<Rightarrow> f v t)"

definition act_seq :: "('s, 'e, 'a) act \<Rightarrow> ('s, 'e, 'b) act \<Rightarrow> ('s, 'e, 'b) act" where
  "act_seq m n = act_bind m (\<lambda>_. n)"

definition act_get :: "('s \<Rightarrow> 'a) \<Rightarrow> ('s, 'e, 'a) act" where
  "act_get f = (\<lambda>s. (Inr (f s), s))"

definition act_mod :: "('s \<Rightarrow> 's) \<Rightarrow> ('s, 'e, unit) act" where
  "act_mod f = (\<lambda>s. (Inr (), f s))"

text \<open>\<open>try: m except e: h(e)\<close>, and \<open>try: m finally: c\<close> with a cleanup that does not raise.\<close>

definition act_catch :: "('s, 'e, 'a) act \<Rightarrow> ('e \<Rightarrow> ('s, 'e, 'a) act) \<Rightarrow> ('s, 'e, 'a) act" where
  "act_catch m h = (\<lambda>s. case m s of (Inl e, t) \<Rightarrow> h e t | (Inr v, t) \<Rightarrow> (Inr v, t))"

definition act_finally :: "('s, 'e, 'a) act \<Rightarrow> ('s \<Rightarrow> 's) \<Rightarrow> ('s, 'e, 'a) act" where
  "act_finally m c = (\<lambda>s. case m s of (r, t) \<Rightarrow> (r, c t))"

fun act_for :: "'x list \<Rightarrow> ('x \<Rightarrow> ('s, 'e, unit) act) \<Rightarrow> ('s, 'e, unit) act" where
  "act_for [] f = act_ret ()"
| "act_for (x # xs) f = act_seq (f x) (act_for xs f)"

lemma act_run [act_simps]:
  "act_ret v s = (Inr v, s)"
  "act_raise e s = (Inl e, s)"
  "act_get f s = (Inr (f s), s)"
  "act_mod g s = (Inr (), g s)"
  by (simp_all add: act_ret_def act_raise_def act_get_def act_mod_def)

lemma act_bind_run [act_simps]:
  "m s = (Inr v, t) \<Longrightarrow> act_bind m f s = f v t"
  "m s = (Inl e, t) \<Longrightarrow> act_bind m f s = (Inl e, t)"
  by (simp_all add: act_bind_def)

lemma act_seq_assoc: "act_seq (act_seq m n) q = act_seq m (act_seq n q)"
  by (rule ext) (auto simp: act_seq_def act_bind_def split: prod.splits sum.splits)

lemma act_seq_Inr:
  "act_seq m k s = (Inr v, t) \<longleftrightarrow> (\<exists>u s1. m s = (Inr u, s1) \<and> k s1 = (Inr v, t))"
  by (auto simp: act_seq_def act_bind_def split: prod.splits sum.splits)

lemma act_bind_get_Inr: "act_bind (act_get g) k s = (Inr v, t) \<longleftrightarrow> k (g s) s = (Inr v, t)"
  by (simp add: act_bind_def act_get_def)

definition triple :: "('s \<Rightarrow> bool) \<Rightarrow> ('s, 'e, 'a) act \<Rightarrow> ('a \<Rightarrow> 's \<Rightarrow> bool) \<Rightarrow> ('e \<Rightarrow> 's \<Rightarrow> bool) \<Rightarrow> bool"
  where "triple P m Q E \<longleftrightarrow> (\<forall>s. P s \<longrightarrow>
    (case m s of (Inl e, t) \<Rightarrow> E e t | (Inr v, t) \<Rightarrow> Q v t))"

lemma triple_conseq:
  assumes "triple P' m Q' E'" and "\<And>s. P s \<Longrightarrow> P' s" and "\<And>v s. Q' v s \<Longrightarrow> Q v s"
    and "\<And>e s. E' e s \<Longrightarrow> E e s"
  shows "triple P m Q E"
  using assms unfolding triple_def by (fastforce split: prod.splits sum.splits)

lemma triple_ret [triple_rules]: "(\<And>s. P s \<Longrightarrow> Q v s) \<Longrightarrow> triple P (act_ret v) Q E"
  by (simp add: triple_def act_ret_def)

lemma triple_raise [triple_rules]: "(\<And>s. P s \<Longrightarrow> E e s) \<Longrightarrow> triple P (act_raise e) Q E"
  by (simp add: triple_def act_raise_def)

lemma triple_get [triple_rules]: "(\<And>s. P s \<Longrightarrow> Q (f s) s) \<Longrightarrow> triple P (act_get f) Q E"
  by (simp add: triple_def act_get_def)

lemma triple_mod [triple_rules]: "(\<And>s. P s \<Longrightarrow> Q () (f s)) \<Longrightarrow> triple P (act_mod f) Q E"
  by (simp add: triple_def act_mod_def)

lemma triple_bind:
  assumes "triple P m R E" and "\<And>v. triple (R v) (f v) Q E"
  shows "triple P (act_bind m f) Q E"
  using assms unfolding triple_def act_bind_def by (fastforce split: prod.splits sum.splits)

lemma triple_seq:
  assumes "triple P m (\<lambda>_. R) E" and "triple R n Q E"
  shows "triple P (act_seq m n) Q E"
  unfolding act_seq_def by (rule triple_bind [OF assms(1)]) (rule assms(2))

lemma triple_catch:
  assumes "triple P m Q R" and "\<And>e. triple (R e) (h e) Q E"
  shows "triple P (act_catch m h) Q E"
  using assms unfolding triple_def act_catch_def by (fastforce split: prod.splits sum.splits)

lemma triple_finally:
  assumes "triple P m (\<lambda>v s. Q v (c s)) (\<lambda>e s. E e (c s))"
  shows "triple P (act_finally m c) Q E"
  using assms unfolding triple_def act_finally_def by (fastforce split: prod.splits sum.splits)

lemma triple_for:
  assumes "\<And>x. x \<in> set xs \<Longrightarrow> triple I (f x) (\<lambda>_. I) E"
  shows "triple I (act_for xs f) (\<lambda>_. I) E"
  using assms by (induction xs) (auto intro: triple_ret triple_seq)

lemma triple_if [triple_rules]:
  "(b \<Longrightarrow> triple P m Q E) \<Longrightarrow> (\<not> b \<Longrightarrow> triple P n Q E) \<Longrightarrow> triple P (if b then m else n) Q E"
  by simp

lemma triple_option [triple_rules]:
  "(x = None \<Longrightarrow> triple P m Q E) \<Longrightarrow> (\<And>y. x = Some y \<Longrightarrow> triple P (f y) Q E) \<Longrightarrow>
   triple P (case x of None \<Rightarrow> m | Some y \<Rightarrow> f y) Q E"
  by (cases x) auto

lemma triple_prod [triple_rules]:
  "(\<And>a b. x = (a, b) \<Longrightarrow> triple P (f a b) Q E) \<Longrightarrow> triple P (case x of (a, b) \<Rightarrow> f a b) Q E"
  by (cases x) auto

text \<open>Reading a state component never changes the precondition.\<close>

lemma triple_get_bind:
  "(\<And>v. triple (\<lambda>s. P s \<and> f s = v) (k v) Q E) \<Longrightarrow> triple P (act_bind (act_get f) k) Q E"
  by (rule triple_bind [where R = "\<lambda>v s. P s \<and> f s = v"]) (auto intro: triple_get)

lemma tripleD:
  "triple P m Q E \<Longrightarrow> P s \<Longrightarrow> m s = (Inr v, t) \<Longrightarrow> Q v t"
  "triple P m Q E \<Longrightarrow> P s \<Longrightarrow> m s = (Inl e, t) \<Longrightarrow> E e t"
  by (fastforce simp: triple_def)+

subsection \<open>Invariants that every exit keeps\<close>

definition keeps :: "('s \<Rightarrow> bool) \<Rightarrow> ('s, 'e, 'a) act \<Rightarrow> bool" where
  "keeps I m \<longleftrightarrow> triple I m (\<lambda>_. I) (\<lambda>_. I)"

lemma keeps_iff: "keeps I m \<longleftrightarrow> (\<forall>s. I s \<longrightarrow> I (snd (m s)))"
proof -
  have "(case m s of (Inl e, t) \<Rightarrow> I t | (Inr v, t) \<Rightarrow> I t) = I (snd (m s))" for s
    by (cases "m s") (auto split: sum.splits)
  then show ?thesis by (simp add: keeps_def triple_def)
qed

lemma keepsD: "keeps I m \<Longrightarrow> I s \<Longrightarrow> m s = (r, t) \<Longrightarrow> I t"
  by (simp add: keeps_iff) (metis snd_conv)

named_theorems keeps_rules "introduction rules for invariants of actions"

lemma keeps_basic [keeps_rules]:
  "keeps I (act_ret v)" "keeps I (act_raise e)" "keeps I (act_get f)"
  by (simp_all add: keeps_iff act_run)

lemma keeps_mod [keeps_rules]: "(\<And>s. I s \<Longrightarrow> I (g s)) \<Longrightarrow> keeps I (act_mod g)"
  by (simp add: keeps_iff act_run)

lemma keeps_bind [keeps_rules]: "keeps I m \<Longrightarrow> (\<And>v. keeps I (f v)) \<Longrightarrow> keeps I (act_bind m f)"
  unfolding keeps_def by (rule triple_bind)

lemma keeps_seq [keeps_rules]: "keeps I m \<Longrightarrow> keeps I n \<Longrightarrow> keeps I (act_seq m n)"
  unfolding keeps_def by (rule triple_seq)

lemma keeps_catch [keeps_rules]: "keeps I m \<Longrightarrow> (\<And>e. keeps I (h e)) \<Longrightarrow> keeps I (act_catch m h)"
  unfolding keeps_def by (rule triple_catch)

lemma keeps_finally [keeps_rules]:
  "keeps I m \<Longrightarrow> (\<And>s. I s \<Longrightarrow> I (c s)) \<Longrightarrow> keeps I (act_finally m c)"
  unfolding keeps_iff act_finally_def by (auto split: prod.splits)

lemma keeps_for [keeps_rules]: "(\<And>x. x \<in> set xs \<Longrightarrow> keeps I (f x)) \<Longrightarrow> keeps I (act_for xs f)"
  unfolding keeps_def by (rule triple_for)

lemma keeps_if [keeps_rules]: "(b \<Longrightarrow> keeps I m) \<Longrightarrow> (\<not> b \<Longrightarrow> keeps I n) \<Longrightarrow> keeps I (if b then m else n)"
  by simp

lemma keeps_option [keeps_rules]:
  "(x = None \<Longrightarrow> keeps I m) \<Longrightarrow> (\<And>y. x = Some y \<Longrightarrow> keeps I (f y)) \<Longrightarrow>
   keeps I (case x of None \<Rightarrow> m | Some y \<Rightarrow> f y)"
  by (cases x) auto

lemma keeps_prod [keeps_rules]:
  "(\<And>a b. x = (a, b) \<Longrightarrow> keeps I (f a b)) \<Longrightarrow> keeps I (case x of (a, b) \<Rightarrow> f a b)"
  by (cases x) auto

end
