(* ===== verification/Caps.thy ===== *)
theory Caps
  imports Effects
begin

text \<open>
  \<^verbatim>\<open>forge/src/forge/engine/caps.py\<close> and the \<open>Result\<close> type of \<^verbatim>\<open>types.py\<close>: the resource caps, the typed
  failures they raise and the tree-wide \<open>Budget\<close> that every container opened under one \<open>process()\<close>
  call shares. Sizes are Python integers. The wall clock is a parameter: \<open>clock i\<close> is what the
  \<open>i\<close>-th call of \<open>time.monotonic()\<close> returns, and the budget counts its readings. The \<open>detail\<close> texts of
  failures are for logs only and are not modelled.
\<close>

definition READ_AHEAD_SLACK :: int where
  "READ_AHEAD_SLACK = 2 ^ 20"

record caps =
  cap_depth :: int
  cap_ratio :: int
  cap_member_bytes :: int
  cap_total_bytes :: int
  cap_spool_bytes :: int
  cap_wall_seconds :: int
  cap_ratio_floor_bytes :: int

definition default_caps :: caps where
  "default_caps = \<lparr>cap_depth = 3, cap_ratio = 200, cap_member_bytes = 8 * 2 ^ 30,
     cap_total_bytes = 64 * 2 ^ 30, cap_spool_bytes = 24 * 2 ^ 30, cap_wall_seconds = 5400,
     cap_ratio_floor_bytes = 16 * 2 ^ 20\<rparr>"

text \<open>Exceptions of the engine: the two failure classes with their reason, and the exceptions of the
  readers and of Python that can pass through it.\<close>

datatype engine_exn = Local string | Fatal string | Memory_Error | Libarchive_Error string
  | Stream_Error | Os_Error | Py py_exn | Recursion_Error

record budget =
  top_compressed :: int
  started :: int
  tree_bytes :: int
  live_spool :: int
  max_depth :: int
  readings :: nat

type_synonym 'a budget_act = "(budget, engine_exn, 'a) act"

definition budget_init :: "int \<Rightarrow> int \<Rightarrow> budget" where
  "budget_init compressed now = \<lparr>top_compressed = max compressed 1, started = now, tree_bytes = 0,
     live_spool = 0, max_depth = 0, readings = 0\<rparr>"

definition deadline :: "caps \<Rightarrow> budget \<Rightarrow> int" where
  "deadline caps b = started b + cap_wall_seconds caps"

definition read_clock :: "(nat \<Rightarrow> int) \<Rightarrow> int budget_act" where
  "read_clock clock = act_bind (act_get readings) (\<lambda>i.
     act_seq (act_mod (\<lambda>b. b\<lparr>readings := Suc i\<rparr>)) (act_ret (clock i)))"

definition check_time :: "caps \<Rightarrow> (nat \<Rightarrow> int) \<Rightarrow> unit budget_act" where
  "check_time caps clock = act_bind (read_clock clock) (\<lambda>now.
     act_bind (act_get (deadline caps)) (\<lambda>d.
     if now > d then act_raise (Fatal ''timeout'') else act_ret ()))"

definition remaining_seconds :: "caps \<Rightarrow> (nat \<Rightarrow> int) \<Rightarrow> int budget_act" where
  "remaining_seconds caps clock = act_bind (read_clock clock) (\<lambda>now.
     act_bind (act_get (deadline caps)) (\<lambda>d. act_ret (max 0 (d - now))))"

definition add_tree_bytes :: "caps \<Rightarrow> int \<Rightarrow> unit budget_act" where
  "add_tree_bytes caps n =
     act_seq (act_mod (\<lambda>b. b\<lparr>tree_bytes := tree_bytes b + n\<rparr>))
       (act_bind (act_get id) (\<lambda>b.
        if tree_bytes b > cap_total_bytes caps then act_raise (Fatal ''total_too_large'')
        else if tree_bytes b > max (cap_ratio_floor_bytes caps) (cap_ratio caps * top_compressed b)
        then act_raise (Fatal ''ratio_exceeded'')
        else act_ret ()))"

definition check_member :: "caps \<Rightarrow> int \<Rightarrow> int option \<Rightarrow> unit budget_act" where
  "check_member caps sz compressed =
     (if sz > cap_member_bytes caps then act_raise (Local ''member_too_large'')
      else (case compressed of
          None \<Rightarrow> act_ret ()
        | Some c \<Rightarrow>
            if sz > max (cap_ratio_floor_bytes caps) (cap_ratio caps * (c + READ_AHEAD_SLACK))
            then act_raise (Fatal ''ratio_exceeded'') else act_ret ()))"

definition check_container :: "caps \<Rightarrow> int \<Rightarrow> int \<Rightarrow> unit budget_act" where
  "check_container caps sz compressed =
     (if sz > max (cap_ratio_floor_bytes caps) (cap_ratio caps * max compressed 1)
      then act_raise (Fatal ''ratio_exceeded'') else act_ret ())"

definition reserve_spool :: "caps \<Rightarrow> int \<Rightarrow> budget \<Rightarrow> bool \<times> budget" where
  "reserve_spool caps n b =
     (if live_spool b + n > cap_spool_bytes caps then (False, b)
      else (True, b\<lparr>live_spool := live_spool b + n\<rparr>))"

definition release_spool :: "int \<Rightarrow> budget \<Rightarrow> budget" where
  "release_spool n b = b\<lparr>live_spool := max 0 (live_spool b - n)\<rparr>"

subsection \<open>Results (\<open>types.py\<close>)\<close>

definition FAILURE_REASONS :: "string list" where
  "FAILURE_REASONS = [''depth_exceeded'', ''ratio_exceeded'', ''member_too_large'',
     ''spool_exceeded'', ''total_too_large'', ''timeout'', ''reader_error'',
     ''unsupported_format'', ''missing_volume'', ''encrypted'', ''oom'']"

record result =
  res_status :: string
  res_reason :: "string option"
  res_members :: int
  res_bytes :: int
  res_depth :: int
  res_format :: "string option"
  res_reader :: "string option"

text \<open>The \<open>__post_init__\<close> check; a \<open>Result\<close> that fails it cannot be built.\<close>

definition result_valid :: "result \<Rightarrow> bool" where
  "result_valid r \<longleftrightarrow>
     \<not> (res_status r = ''done'' \<and> res_reason r \<noteq> None) \<and>
     \<not> (res_status r = ''failed'' \<and> (case res_reason r of None \<Rightarrow> True | Some w \<Rightarrow> w \<notin> set FAILURE_REASONS))"

subsection \<open>Facts\<close>

lemma check_time_run:
  "check_time caps clock b =
     (if clock (readings b) > deadline caps b then Inl (Fatal ''timeout'') else Inr (),
      b\<lparr>readings := Suc (readings b)\<rparr>)"
  by (simp add: check_time_def read_clock_def act_bind_def act_seq_def act_run deadline_def)

definition tree_bound :: "caps \<Rightarrow> budget \<Rightarrow> int" where
  "tree_bound caps b = min (cap_total_bytes caps)
     (max (cap_ratio_floor_bytes caps) (cap_ratio caps * top_compressed b))"

lemma add_tree_bytes_run:
  "add_tree_bytes caps n b =
     (if tree_bytes b + n > cap_total_bytes caps then Inl (Fatal ''total_too_large'')
      else if tree_bytes b + n > tree_bound caps b then Inl (Fatal ''ratio_exceeded'')
      else Inr (), b\<lparr>tree_bytes := tree_bytes b + n\<rparr>)"
  by (simp add: add_tree_bytes_def act_bind_def act_seq_def act_run tree_bound_def
      min_less_iff_disj)

lemma add_tree_bytes_ok:
  "add_tree_bytes caps n b = (Inr (), b') \<longleftrightarrow>
     b' = b\<lparr>tree_bytes := tree_bytes b + n\<rparr> \<and> tree_bytes b' \<le> tree_bound caps b"
  by (auto simp: add_tree_bytes_run tree_bound_def)

lemma check_member_state: "snd (check_member caps sz c b) = b"
  by (simp add: check_member_def act_run split: option.split)

lemma check_container_state: "snd (check_container caps sz c b) = b"
  by (simp add: check_container_def act_run)

lemma reserve_release:
  assumes "0 \<le> live_spool b" and "reserve_spool caps n b = (True, b')"
  shows "release_spool n b' = b" and "live_spool b' \<le> cap_spool_bytes caps"
  using assms by (auto simp: reserve_spool_def release_spool_def split: if_splits)

subsection \<open>Properties\<close>

definition read_blocks :: "caps \<Rightarrow> int list \<Rightarrow> unit budget_act" where
  "read_blocks caps ns = act_for ns (add_tree_bytes caps)"

lemma read_blocks_ok:
  assumes "read_blocks caps ns b = (r, b')" and "r = Inr ()"
  shows "b' = b\<lparr>tree_bytes := tree_bytes b + sum_list ns\<rparr> \<and>
    (ns \<noteq> [] \<longrightarrow> tree_bytes b' \<le> tree_bound caps b)"
  using assms
proof (induction ns arbitrary: b)
  case Nil
  then show ?case by (simp add: read_blocks_def act_run)
next
  case (Cons n ns)
  from Cons.prems have ok: "add_tree_bytes caps n b = (Inr (), b\<lparr>tree_bytes := tree_bytes b + n\<rparr>)"
    and rest: "read_blocks caps ns (b\<lparr>tree_bytes := tree_bytes b + n\<rparr>) = (r, b')"
    by (auto simp: read_blocks_def act_seq_def act_bind_def add_tree_bytes_run split: if_splits)
  from Cons.IH [OF rest Cons.prems(2)] ok show ?case
    by (cases ns) (auto simp: add_tree_bytes_ok tree_bound_def read_blocks_def act_run)
qed

text \<open>
  C9. The archive-bomb budget fails closed. Whatever blocks are read from the tree of one source
  archive, as long as no check has failed their total stays within the byte cap and the compression
  ratio cap; when a check fails, everything before the failing block was within the caps, and the
  failure is a fatal one.
\<close>

theorem tree_budget_fails_closed:
  "case read_blocks caps ns b of
     (Inr _, b') \<Rightarrow> tree_bytes b' = tree_bytes b + sum_list ns \<and>
        (ns \<noteq> [] \<longrightarrow> tree_bytes b' \<le> tree_bound caps b)
   | (Inl e, b') \<Rightarrow> e \<in> {Fatal ''total_too_large'', Fatal ''ratio_exceeded''} \<and>
        (\<exists>ok n rest. ns = ok @ n # rest \<and> tree_bytes b' = tree_bytes b + sum_list ok + n \<and>
           tree_bytes b' > tree_bound caps b \<and>
           (ok \<noteq> [] \<longrightarrow> tree_bytes b + sum_list ok \<le> tree_bound caps b))"
proof (induction ns arbitrary: b)
  case Nil
  show ?case by (simp add: read_blocks_def act_run)
next
  case (Cons n ns)
  let ?b = "b\<lparr>tree_bytes := tree_bytes b + n\<rparr>"
  have bound: "tree_bound caps ?b = tree_bound caps b" by (simp add: tree_bound_def)
  show ?case
  proof (cases "tree_bytes b + n > tree_bound caps b")
    case True
    then obtain e where e: "add_tree_bytes caps n b = (Inl e, ?b)"
        "e \<in> {Fatal ''total_too_large'', Fatal ''ratio_exceeded''}"
      by (cases "tree_bytes b + n > cap_total_bytes caps") (simp_all add: add_tree_bytes_run)
    then have "read_blocks caps (n # ns) b = (Inl e, ?b)"
      by (simp add: read_blocks_def act_seq_def act_bind_def)
    with e True show ?thesis by (auto intro: exI [of _ "[]"])
  next
    case False
    then have "add_tree_bytes caps n b = (Inr (), ?b)" by (simp add: add_tree_bytes_ok)
    then have run: "read_blocks caps (n # ns) b = read_blocks caps ns ?b"
      by (simp add: read_blocks_def act_seq_def act_bind_def)
    show ?thesis
    proof (cases "read_blocks caps ns ?b")
      case (Pair r b')
      show ?thesis
      proof (cases r)
        case (Inr u)
        then have tree: "tree_bytes b' = tree_bytes b + n + sum_list ns"
            "ns \<noteq> [] \<longrightarrow> tree_bytes b' \<le> tree_bound caps b"
          using Cons [of ?b] Pair bound by auto
        then have "tree_bytes b' \<le> tree_bound caps b" using False by (cases "ns = []") simp_all
        with tree Inr Pair show ?thesis by (simp add: run)
      next
        case (Inl e)
        from Cons [of ?b] Pair Inl bound
        have e: "e \<in> {Fatal ''total_too_large'', Fatal ''ratio_exceeded''}"
          and "\<exists>ok m rest. ns = ok @ m # rest \<and> tree_bytes b' = tree_bytes b + n + sum_list ok + m \<and>
            tree_bytes b' > tree_bound caps b \<and>
            (ok \<noteq> [] \<longrightarrow> tree_bytes b + n + sum_list ok \<le> tree_bound caps b)"
          by simp_all
        then obtain ok m rest where ok: "ns = ok @ m # rest"
          "tree_bytes b' = tree_bytes b + n + sum_list ok + m" "tree_bytes b' > tree_bound caps b"
          "ok \<noteq> [] \<longrightarrow> tree_bytes b + n + sum_list ok \<le> tree_bound caps b" by blast
        then have "tree_bytes b + n + sum_list ok \<le> tree_bound caps b"
          using False by (cases "ok = []") simp_all
        then have "\<exists>ok' m rest. n # ns = ok' @ m # rest \<and>
            tree_bytes b' = tree_bytes b + sum_list ok' + m \<and> tree_bytes b' > tree_bound caps b \<and>
            (ok' \<noteq> [] \<longrightarrow> tree_bytes b + sum_list ok' \<le> tree_bound caps b)"
          using ok by (intro exI [of _ "n # ok"] exI [of _ m] exI [of _ rest]) simp
        with e Inl Pair show ?thesis by (simp add: run)
      qed
    qed
  qed
qed

theorem tree_budget_fails_closed_witness:
  "\<exists>b'. read_blocks default_caps [10, 20] (budget_init 4 0) = (Inr (), b') \<and> tree_bytes b' = 30 \<and>
     30 \<le> tree_bound default_caps (budget_init 4 0)"
proof -
  let ?b = "budget_init 4 0"
  let ?t = "?b\<lparr>tree_bytes := 30\<rparr>"
  have run: "read_blocks default_caps [10, 20] ?b = (Inr (), ?t)"
    by (simp add: read_blocks_def act_seq_def act_bind_def act_run add_tree_bytes_run tree_bound_def
        default_caps_def budget_init_def)
  have "30 \<le> tree_bound default_caps ?b"
    using tree_budget_fails_closed [where caps = default_caps and ns = "[10, 20]" and b = ?b] run by simp
  with run show ?thesis by (intro exI [of _ ?t]) simp
qed

end
