(* ===== verification/Hashing.thy ===== *)
theory Hashing
  imports PyStr
begin

text \<open>
  \<^verbatim>\<open>forge/src/forge/hashing.py\<close>: the incremental STL triangle counter and the streaming hash of one
  open file. Bytes are lists of 8-bit characters. A \<open>hashlib\<close> object is the bytes it was fed, and the
  hex digest is a parameter applied to them; the file system shows as the blocks that successive
  \<open>read\<close> calls return. The theorems: however the bytes are cut into blocks, the counter returns what
  the format rules say of the whole content, and a digest is only ever returned for exactly the bytes
  the file had.
\<close>

definition bytes_space :: "char \<Rightarrow> bool" where
  "bytes_space c \<longleftrightarrow> (let n = of_char c :: nat in 9 \<le> n \<and> n \<le> 13 \<or> n = 32)"

definition bytes_lstrip :: "string \<Rightarrow> string" where
  "bytes_lstrip s = dropWhile bytes_space s"

text \<open>\<open>bytes.count\<close>: occurrences that do not overlap, from the left.\<close>

function bytes_count :: "string \<Rightarrow> string \<Rightarrow> nat" where
  "bytes_count p s =
     (if p = [] then Suc (length s)
      else if s = [] then 0
      else if prefix p s then Suc (bytes_count p (drop (length p) s))
      else bytes_count p (tl s))"
  by pat_completeness auto
termination
  by (relation "measure (\<lambda>(p, s). length s)") auto

declare bytes_count.simps [simp del]

definition last_n :: "nat \<Rightarrow> 'a list \<Rightarrow> 'a list" where
  "last_n n s = drop (length s - n) s"

text \<open>\<open>int.from_bytes(b, "little")\<close>.\<close>

fun from_little :: "string \<Rightarrow> nat" where
  "from_little [] = 0"
| "from_little (c # cs) = of_char c + 256 * from_little cs"

subsection \<open>The counter\<close>

definition FACET :: string where "FACET = ''facet normal''"
definition BINARY_HEADER :: nat where "BINARY_HEADER = 84"
definition BINARY_FACET :: nat where "BINARY_FACET = 50"

record stl_counter =
  stl_head :: string
  stl_tail :: string
  stl_ascii :: "bool option"
  stl_facets :: nat
  stl_size :: nat

definition stl_init :: stl_counter where
  "stl_init = \<lparr>stl_head = [], stl_tail = [], stl_ascii = None, stl_facets = 0, stl_size = 0\<rparr>"

definition stl_feed :: "string \<Rightarrow> stl_counter \<Rightarrow> stl_counter" where
  "stl_feed data c =
     (if length data = 0 then c
      else
        let c = c\<lparr>stl_size := stl_size c + length data\<rparr>;
            c = (if length (stl_head c) < BINARY_HEADER
                 then c\<lparr>stl_head := stl_head c @ take (BINARY_HEADER - length (stl_head c)) data\<rparr>
                 else c);
            c = (if stl_ascii c = None then
                   let stripped = bytes_lstrip (stl_head c) in
                   if length stripped \<ge> 5 \<or> length (stl_head c) \<ge> BINARY_HEADER
                   then c\<lparr>stl_ascii := Some (str_lower (take 5 stripped) = ''solid'')\<rparr> else c
                 else c)
        in if stl_ascii c = Some False then c
           else
             let window = stl_tail c @ str_lower data in
             c\<lparr>stl_facets := stl_facets c + bytes_count FACET window,
               stl_tail := last_n (length FACET - 1) window\<rparr>)"

definition stl_result :: "stl_counter \<Rightarrow> nat option" where
  "stl_result c =
     (let n = from_little (take 4 (drop 80 (stl_head c))) in
      if length (stl_head c) \<ge> BINARY_HEADER \<and> stl_size c = BINARY_HEADER + BINARY_FACET * n then Some n
      else if stl_ascii c = Some True \<and> stl_facets c > 0 then Some (stl_facets c)
      else None)"

definition is_stl_name :: "string \<Rightarrow> bool" where
  "is_stl_name name \<longleftrightarrow> suffix ''.stl'' (str_lower name)"

text \<open>What the class promises, on the whole content.\<close>

definition solid_text :: "string \<Rightarrow> bool" where
  "solid_text b \<longleftrightarrow> str_lower (take 5 (bytes_lstrip (take BINARY_HEADER b))) = ''solid''"

definition stl_triangles :: "string \<Rightarrow> nat option" where
  "stl_triangles b =
     (let n = from_little (take 4 (drop 80 b)) in
      if length b \<ge> BINARY_HEADER \<and> length b = BINARY_HEADER + BINARY_FACET * n then Some n
      else let k = bytes_count FACET (str_lower b) in
        if solid_text b \<and> k > 0 then Some k else None)"

subsection \<open>Counting a pattern across block boundaries\<close>

fun occurrences :: "string \<Rightarrow> string \<Rightarrow> nat" where
  "occurrences p [] = 0"
| "occurrences p (x # xs) = (if prefix p (x # xs) then 1 else 0) + occurrences p xs"

lemma occurrences_skip: "f \<notin> set q \<Longrightarrow> occurrences (f # p) (q @ r) = occurrences (f # p) r"
  by (induction q) auto

lemma occurrences_short: "length s < length p \<Longrightarrow> occurrences p s = 0"
  by (induction s) (auto dest: prefix_length_le)

text \<open>A pattern whose first letter does not come back cannot overlap itself.\<close>

lemma bytes_count_occurrences:
  assumes "f \<notin> set q"
  shows "bytes_count (f # q) s = occurrences (f # q) s"
proof (induction "length s" arbitrary: s rule: less_induct)
  case less
  note IH = less
  show ?case
  proof (cases s)
    case Nil
    then show ?thesis by (simp add: bytes_count.simps)
  next
    case (Cons x xs)
    show ?thesis
    proof (cases "prefix (f # q) s")
      case True
      then obtain r where s: "s = f # q @ r" by (auto simp: prefix_def)
      then have "bytes_count (f # q) r = occurrences (f # q) r" by (intro IH) simp
      then show ?thesis using s occurrences_skip [OF assms, of q r]
        by (subst bytes_count.simps) simp
    next
      case False
      with Cons IH [of xs] show ?thesis
        by (subst bytes_count.simps) (simp del: Cons_prefix_Cons)
    qed
  qed
qed

lemma bytes_count_FACET: "bytes_count FACET s = occurrences FACET s"
  unfolding FACET_def by (rule bytes_count_occurrences) simp

lemma last_n_all: "length s \<le> n \<Longrightarrow> last_n n s = s"
  by (simp add: last_n_def)

lemma last_n_Cons: "n \<le> length s \<Longrightarrow> last_n n (x # s) = last_n n s"
  by (simp add: last_n_def Suc_diff_le)

lemma last_n_last_n: "last_n n (last_n n s @ d) = last_n n (s @ d)"
proof (cases "n \<le> length s")
  case True
  have "s @ d = take (length s - n) s @ last_n n s @ d" by (simp add: last_n_def)
  moreover have "drop (length (s @ d) - n) (take (length s - n) s @ last_n n s @ d) =
      drop (length (last_n n s @ d) - n) (last_n n s @ d)"
    using True by (simp add: last_n_def)
  ultimately show ?thesis unfolding last_n_def [of n "s @ d"] last_n_def [of n "last_n n s @ d"]
    by argo
next
  case False
  then show ?thesis by (simp add: last_n_all)
qed

lemma occurrences_split:
  assumes "p \<noteq> []"
  shows "occurrences p (a @ b) = occurrences p a + occurrences p (last_n (length p - 1) a @ b)"
proof (induction a)
  case Nil
  show ?case by (simp add: last_n_def)
next
  case (Cons x a)
  show ?case
  proof (cases "length (x # a) < length p")
    case True
    then have "last_n (length p - 1) (x # a) = x # a" by (intro last_n_all) simp
    then show ?thesis using occurrences_short [OF True] by simp
  next
    case False
    then have "prefix p (x # a @ b) \<longleftrightarrow> prefix p (x # a)"
      by (metis append_Cons linorder_not_less prefix_append prefix_length_le prefix_length_prefix
          prefixI prefix_order.trans)
    moreover from False have "last_n (length p - 1) (x # a) = last_n (length p - 1) a"
      by (intro last_n_Cons) (cases p; simp)
    ultimately show ?thesis using Cons by simp
  qed
qed

subsection \<open>The counter follows the content\<close>

definition ascii_of :: "string \<Rightarrow> bool option" where
  "ascii_of h = (let stripped = bytes_lstrip h in
     if length stripped \<ge> 5 \<or> length h \<ge> BINARY_HEADER
     then Some (str_lower (take 5 stripped) = ''solid'') else None)"

definition stl_inv :: "string \<Rightarrow> stl_counter \<Rightarrow> bool" where
  "stl_inv seen c \<longleftrightarrow> stl_head c = take BINARY_HEADER seen \<and> stl_size c = length seen \<and>
     stl_ascii c = ascii_of (take BINARY_HEADER seen) \<and>
     (stl_ascii c \<noteq> Some False \<longrightarrow> stl_facets c = bytes_count FACET (str_lower seen) \<and>
        stl_tail c = last_n (length FACET - 1) (str_lower seen))"

lemma ascii_of_stable:
  assumes "ascii_of (take BINARY_HEADER seen) = Some v"
  shows "ascii_of (take BINARY_HEADER (seen @ data)) = Some v"
proof (cases "length seen \<ge> BINARY_HEADER")
  case True
  with assms show ?thesis by simp
next
  case False
  with assms have five: "length (bytes_lstrip seen) \<ge> 5"
    by (auto simp: ascii_of_def Let_def split: if_splits)
  let ?d = "take (BINARY_HEADER - length seen) data"
  have "bytes_lstrip (seen @ ?d) = bytes_lstrip seen @ ?d"
    using five unfolding bytes_lstrip_def
    by (metis dropWhile_append3 dropWhile_eq_Nil_conv dropWhile_append length_0_conv not_numeral_le_zero)
  with five False assms show ?thesis by (simp add: ascii_of_def Let_def)
qed

lemma stl_inv_init: "stl_inv [] stl_init"
  by (simp add: stl_inv_def stl_init_def ascii_of_def bytes_lstrip_def BINARY_HEADER_def FACET_def
      str_lower_def last_n_def bytes_count.simps)

lemma stl_feed_inv:
  assumes "stl_inv seen c"
  shows "stl_inv (seen @ data) (stl_feed data c)"
proof (cases "data = []")
  case True
  with assms show ?thesis by (simp add: stl_feed_def)
next
  case False
  let ?h = "take BINARY_HEADER (seen @ data)"
  from assms have c: "stl_head c = take BINARY_HEADER seen" "stl_size c = length seen"
    "stl_ascii c = ascii_of (take BINARY_HEADER seen)" by (simp_all add: stl_inv_def)
  have head: "stl_head (stl_feed data c) = ?h" using c(1) False
    by (simp add: stl_feed_def Let_def)
  have asc: "stl_ascii (stl_feed data c) = ascii_of ?h"
  proof (cases "ascii_of (take BINARY_HEADER seen)")
    case None
    with c False show ?thesis by (simp add: stl_feed_def ascii_of_def Let_def)
  next
    case (Some v)
    with ascii_of_stable [OF Some, of data] c False show ?thesis
      by (simp add: stl_feed_def Let_def)
  qed
  have sz: "stl_size (stl_feed data c) = length (seen @ data)"
    using c(2) False by (simp add: stl_feed_def Let_def)
  have scan: "stl_facets (stl_feed data c) = bytes_count FACET (str_lower (seen @ data)) \<and>
     stl_tail (stl_feed data c) = last_n (length FACET - 1) (str_lower (seen @ data))"
    if "stl_ascii (stl_feed data c) \<noteq> Some False"
  proof -
    from that asc have "stl_ascii c \<noteq> Some False"
      using c(3) ascii_of_stable by metis
    with assms have t: "stl_facets c = bytes_count FACET (str_lower seen)"
      "stl_tail c = last_n (length FACET - 1) (str_lower seen)" by (simp_all add: stl_inv_def)
    have "stl_facets (stl_feed data c) =
        stl_facets c + bytes_count FACET (stl_tail c @ str_lower data)"
      "stl_tail (stl_feed data c) = last_n (length FACET - 1) (stl_tail c @ str_lower data)"
      using that False by (auto simp: stl_feed_def Let_def split: if_splits)
    then show ?thesis unfolding t bytes_count_FACET str_lower_append
      using occurrences_split [of FACET "str_lower seen" "str_lower data"]
      by (simp add: last_n_last_n) (simp add: FACET_def)
  qed
  from head asc sz scan show ?thesis by (simp add: stl_inv_def)
qed

lemma stl_fold_inv: "stl_inv (concat blocks) (fold stl_feed blocks stl_init)"
proof (induction blocks rule: rev_induct)
  case Nil
  show ?case by (simp add: stl_inv_init)
next
  case (snoc b bs)
  then show ?case using stl_feed_inv by simp
qed

lemma ascii_of_solid: "ascii_of (take BINARY_HEADER b) = Some True \<longleftrightarrow> solid_text b"
proof -
  have "str_lower (take 5 s) = ''solid'' \<Longrightarrow> 5 \<le> length s" for s
    by (drule arg_cong [where f = length]) (simp add: min_def split: if_splits)
  then show ?thesis by (auto simp: ascii_of_def solid_text_def Let_def)
qed

lemma stl_result_inv: 
  assumes "stl_inv seen c"
  shows "stl_result c = stl_triangles seen"
proof -
  from assms have c: "stl_head c = take BINARY_HEADER seen" "stl_size c = length seen"
    and asc: "stl_ascii c = Some True \<longleftrightarrow> solid_text seen"
    and facets: "solid_text seen \<Longrightarrow> stl_facets c = bytes_count FACET (str_lower seen)"
    unfolding stl_inv_def using ascii_of_solid [of seen] by simp_all
  have number: "take 4 (drop 80 (take BINARY_HEADER seen)) = take 4 (drop 80 seen)"
    by (simp add: BINARY_HEADER_def drop_take)
  have long: "BINARY_HEADER \<le> length (take BINARY_HEADER seen) \<longleftrightarrow> BINARY_HEADER \<le> length seen"
    by simp
  show ?thesis
    unfolding stl_result_def stl_triangles_def Let_def c number long asc
    using facets by (cases "solid_text seen") (simp_all only: simp_thms if_False if_True)
qed

subsection \<open>Hashing one open file\<close>

text \<open>What \<open>os.fstat\<close> and the reads of one descriptor show: the type and size at the start, the
  blocks of successive reads, how the last read ends, and the size afterwards.\<close>

datatype os_exn = FileNotFound | IsADirectory | TimedOut | FileChanged | Loop | Other_Os_Error

record open_file =
  fd_regular :: bool
  fd_size :: nat
  fd_blocks :: "string list"
  fd_fails :: "os_exn option"
  fd_size_after :: nat

definition sha256_stream :: "(string \<Rightarrow> string) \<Rightarrow> string list \<Rightarrow> string \<times> nat" where
  "sha256_stream sha blocks =
     (let (h, n) = fold (\<lambda>block (h, n). (h @ block, n + length block))
        (takeWhile (\<lambda>b. b \<noteq> []) blocks) ([], 0) in (sha h, n))"

record hash_state =
  h_bytes :: string
  h_counter :: "stl_counter option"
  h_head :: string
  h_size :: nat

definition hash_block :: "nat \<Rightarrow> string \<Rightarrow> hash_state \<Rightarrow> hash_state" where
  "hash_block head_bytes block s =
     (let s = s\<lparr>h_bytes := h_bytes s @ block, h_size := h_size s + length block\<rparr>;
          s = (if length (h_head s) < head_bytes
               then s\<lparr>h_head := h_head s @ take (head_bytes - length (h_head s)) block\<rparr> else s)
      in s\<lparr>h_counter := map_option (stl_feed block) (h_counter s)\<rparr>)"

text \<open>The loop: the deadline is tested before every read, the one that finds the end included. The
  \<open>i\<close>-th test reads \<open>clock i\<close>.\<close>

fun hash_loop :: "(nat \<Rightarrow> int) \<Rightarrow> int option \<Rightarrow> nat \<Rightarrow> os_exn option \<Rightarrow> nat \<Rightarrow> string list \<Rightarrow> hash_state \<Rightarrow>
    os_exn + hash_state" where
  "hash_loop clock limit head_bytes fails i blocks s =
     (if limit \<noteq> None \<and> clock i > the limit then Inl TimedOut
      else (case blocks of
          [] \<Rightarrow> (case fails of None \<Rightarrow> Inr s | Some e \<Rightarrow> Inl e)
        | block # rest \<Rightarrow>
            if block = [] then Inr s
            else hash_loop clock limit head_bytes fails (Suc i) rest (hash_block head_bytes block s)))"

declare hash_loop.simps [simp del]

definition hash_start :: "bool \<Rightarrow> hash_state" where
  "hash_start count_triangles = \<lparr>h_bytes = [],
     h_counter = (if count_triangles then Some stl_init else None), h_head = [], h_size = 0\<rparr>"

definition hash_open_fd :: "(string \<Rightarrow> string) \<Rightarrow> (nat \<Rightarrow> int) \<Rightarrow> open_file \<Rightarrow> bool \<Rightarrow> nat \<Rightarrow> int option \<Rightarrow>
    os_exn + (string \<times> nat \<times> nat option \<times> string)" where
  "hash_open_fd sha clock f count_triangles head_bytes limit =
     (if \<not> fd_regular f then Inl IsADirectory
      else (case hash_loop clock limit head_bytes (fd_fails f) 0 (fd_blocks f)
          (hash_start count_triangles) of
          Inl e \<Rightarrow> Inl e
        | Inr s \<Rightarrow>
            if h_size s \<noteq> fd_size f \<or> fd_size_after f \<noteq> fd_size f then Inl FileChanged
            else Inr (sha (h_bytes s), h_size s, Option.bind (h_counter s) stl_result, h_head s)))"

text \<open>The file system gives the open: an error (\<open>ELOOP\<close> for a symlink under \<open>O_NOFOLLOW\<close>) or a
  descriptor.\<close>

definition hash_file_full :: "(string \<Rightarrow> string) \<Rightarrow> (nat \<Rightarrow> int) \<Rightarrow> (string \<Rightarrow> os_exn + open_file) \<Rightarrow>
    string \<Rightarrow> nat \<Rightarrow> int option \<Rightarrow> os_exn + (string \<times> nat \<times> nat option \<times> string)" where
  "hash_file_full sha clock open_fd path head_bytes limit =
     (case open_fd path of
        Inl e \<Rightarrow> Inl e
      | Inr f \<Rightarrow> hash_open_fd sha clock f (is_stl_name path) head_bytes limit)"

definition hash_file :: "(string \<Rightarrow> string) \<Rightarrow> (nat \<Rightarrow> int) \<Rightarrow> (string \<Rightarrow> os_exn + open_file) \<Rightarrow>
    string \<Rightarrow> os_exn + (string \<times> nat \<times> nat option)" where
  "hash_file sha clock open_fd path =
     (case hash_file_full sha clock open_fd path 0 None of
        Inl e \<Rightarrow> Inl e
      | Inr (digest, n, tri, _) \<Rightarrow> Inr (digest, n, tri))"

definition file_content :: "open_file \<Rightarrow> string" where
  "file_content f = concat (takeWhile (\<lambda>b. b \<noteq> []) (fd_blocks f))"

definition hash_inv :: "bool \<Rightarrow> nat \<Rightarrow> string \<Rightarrow> hash_state \<Rightarrow> bool" where
  "hash_inv count_triangles head_bytes seen s \<longleftrightarrow>
     h_bytes s = seen \<and> h_size s = length seen \<and> h_head s = take head_bytes seen \<and>
     (if count_triangles then \<exists>c. h_counter s = Some c \<and> stl_inv seen c else h_counter s = None)"

lemma hash_block_inv:
  "hash_inv t n seen s \<Longrightarrow> hash_inv t n (seen @ block) (hash_block n block s)"
  unfolding hash_inv_def hash_block_def Let_def using stl_feed_inv
  by (cases "length seen < n") (auto split: if_splits)

lemma hash_loop_inv:
  assumes "hash_inv t n seen s" and "hash_loop clock limit n fails i blocks s = Inr s'"
  shows "hash_inv t n (seen @ concat (takeWhile (\<lambda>b. b \<noteq> []) blocks)) s'"
  using assms
proof (induction blocks arbitrary: i seen s)
  case Nil
  then show ?case by (auto simp: hash_loop.simps split: if_splits option.splits)
next
  case (Cons b bs)
  show ?case
  proof (cases "b = []")
    case True
    with Cons.prems show ?thesis by (auto simp: hash_loop.simps split: if_splits)
  next
    case False
    with Cons.prems(2) have
      "hash_loop clock limit n fails (Suc i) bs (hash_block n b s) = Inr s'"
      by (simp add: hash_loop.simps [of clock limit n fails i] split: if_splits)
    from Cons.IH [OF hash_block_inv [OF Cons.prems(1)] this] False show ?thesis by simp
  qed
qed

lemma hash_open_fd_Inr:
  assumes "hash_open_fd sha clock f t n limit = Inr (digest, sz, tri, head)"
  obtains s where "fd_regular f" "hash_loop clock limit n (fd_fails f) 0 (fd_blocks f) (hash_start t) = Inr s"
    "h_size s = fd_size f" "fd_size_after f = fd_size f" "digest = sha (h_bytes s)" "sz = h_size s"
    "tri = Option.bind (h_counter s) stl_result" "head = h_head s"
proof (cases "hash_loop clock limit n (fd_fails f) 0 (fd_blocks f) (hash_start t)")
  case (Inl e)
  with assms show ?thesis by (simp add: hash_open_fd_def split: if_splits)
next
  case (Inr s)
  with assms have "fd_regular f" "h_size s = fd_size f" "fd_size_after f = fd_size f"
      "digest = sha (h_bytes s)" "sz = h_size s" "tri = Option.bind (h_counter s) stl_result"
      "head = h_head s"
    by (simp_all add: hash_open_fd_def split: if_splits)
  with Inr show ?thesis by (intro that)
qed

lemma fold_hash_bytes:
  "fold (\<lambda>block (h, n). (h @ block, n + length block)) bs (h0, n0) =
     (h0 @ concat bs, n0 + length (concat bs))"
  by (induction bs arbitrary: h0 n0) (auto simp: add.assoc)

lemma sha256_stream_content:
  "sha256_stream sha bs = (sha (concat (takeWhile (\<lambda>b. b \<noteq> []) bs)),
     length (concat (takeWhile (\<lambda>b. b \<noteq> []) bs)))"
  by (simp add: sha256_stream_def fold_hash_bytes)

subsection \<open>Properties\<close>

text \<open>
  C10. The STL triangle counter does not depend on how the content is cut into blocks: fed with any
  blocks, in order, it returns what the format rules say of the whole content (the binary count
  when the size fits it, otherwise the \<open>facet normal\<close> lines of a text that starts with \<open>solid\<close>).
\<close>

theorem stl_counter_streams:
  "stl_result (fold stl_feed blocks stl_init) = stl_triangles (concat blocks)"
  by (rule stl_result_inv [OF stl_fold_inv])

text \<open>
  C11. A digest describes the file: when hashing a path returns, the file was a regular file, the
  digest, the size, the head and the triangle count are those of exactly the bytes that were read,
  and their number is the size the file had before and after.
\<close>

theorem hash_describes_file:
  assumes "open_fd path = Inr f"
    and "hash_file_full sha clock open_fd path n limit = Inr (digest, sz, tri, head)"
  shows "fd_regular f \<and> digest = sha (file_content f) \<and> sz = length (file_content f) \<and>
    sz = fd_size f \<and> sz = fd_size_after f \<and> head = take n (file_content f) \<and>
    tri = (if is_stl_name path then stl_triangles (file_content f) else None)"
proof -
  let ?t = "is_stl_name path"
  from assms have open_ok: "hash_open_fd sha clock f ?t n limit = Inr (digest, sz, tri, head)"
    by (simp add: hash_file_full_def)
  obtain s where s: "fd_regular f"
      "hash_loop clock limit n (fd_fails f) 0 (fd_blocks f) (hash_start ?t) = Inr s"
      "h_size s = fd_size f" "fd_size_after f = fd_size f"
      "digest = sha (h_bytes s)" "sz = h_size s" "tri = Option.bind (h_counter s) stl_result"
      "head = h_head s"
    by (rule hash_open_fd_Inr [OF open_ok])
  have "hash_inv ?t n [] (hash_start ?t)" by (simp add: hash_inv_def hash_start_def stl_inv_init)
  from hash_loop_inv [OF this s(2)] have "hash_inv ?t n (file_content f) s"
    by (simp add: file_content_def)
  then have inv: "h_bytes s = file_content f" "h_size s = length (file_content f)"
      "h_head s = take n (file_content f)"
      "if ?t then \<exists>c. h_counter s = Some c \<and> stl_inv (file_content f) c else h_counter s = None"
    unfolding hash_inv_def by blast+
  have "Option.bind (h_counter s) stl_result =
      (if ?t then stl_triangles (file_content f) else None)"
  proof (cases ?t)
    case True
    with inv(4) obtain c where "h_counter s = Some c" "stl_inv (file_content f) c" by auto
    with True stl_result_inv show ?thesis by simp
  next
    case False
    with inv(4) show ?thesis by simp
  qed
  with s inv(1-3) show ?thesis by simp
qed

theorem hash_describes_file_witness:
  "\<exists>f. file_content f = ''solid facet normal'' \<and>
     hash_file_full id (\<lambda>i. int i) (\<lambda>_. Inr f) ''a.STL'' 3 (Some 9) =
       Inr (''solid facet normal'', 18, Some 1, ''sol'') \<and> fd_size f = 18"
proof -
  let ?f = "\<lparr>fd_regular = True, fd_size = 18, fd_blocks = [''solid fac'', ''et normal''],
    fd_fails = None, fd_size_after = 18\<rparr>"
  have run: "hash_file_full id (\<lambda>i. int i) (\<lambda>_. Inr ?f) ''a.STL'' 3 (Some 9) =
       Inr (''solid facet normal'', 18, Some 1, ''sol'')" by code_simp
  with hash_describes_file [OF _ this, of ?f] show ?thesis
    by (intro exI [of _ ?f]) simp
qed

end
