(* ===== verification/Fallback.thy ===== *)
theory Fallback
  imports Caps Refuse
begin

text \<open>
  The pure parts of \<^verbatim>\<open>forge/src/forge/engine/fallback.py\<close> and the error mapping of \<^verbatim>\<open>archive.py\<close>: names
  of single-file streams, the listing of \<open>7zz l -slt\<close>, the type of a listed entry, and the typed
  reasons for the messages of the two readers. Text is what the tool's output decodes to.
\<close>

definition safe_basename :: "string \<Rightarrow> string \<Rightarrow> string" where
  "safe_basename name fallback =
     (let base = after_last (CHR ''/'') (replace_char (CHR 0x5C) (CHR ''/'') name);
          base = str_strip (map (\<lambda>c. if is_control c then CHR ''_'' else c) base)
      in if base \<in> {[], ''.'', ''..''} then fallback else base)"

definition STREAM_SUFFIX :: "string \<Rightarrow> string list" where
  "STREAM_SUFFIX fmt =
     (if fmt = ''gzip'' then [''.gz'', ''.gzip'']
      else if fmt = ''bzip2'' then [''.bz2'']
      else if fmt = ''xz'' then [''.xz''] else [])"

definition drop_end :: "nat \<Rightarrow> string \<Rightarrow> string" where
  "drop_end n s = take (length s - n) s"

definition stream_member_name :: "string \<Rightarrow> string \<Rightarrow> string" where
  "stream_member_name name_hint fmt =
     (let base = safe_basename name_hint ''data''; low = str_lower base in
      if fmt = ''gzip'' \<and> suffix ''.tgz'' low then drop_end 4 base @ ''.tar''
      else (case find (\<lambda>suf. suffix suf low \<and> length base > length suf) (STREAM_SUFFIX fmt) of
          Some suf \<Rightarrow> drop_end (length suf) base
        | None \<Rightarrow> if CHR ''.'' \<notin> set base then base @ ''.data'' else before_last (CHR ''.'') base))"

type_synonym slt_entry = "(string, string) dict"

text \<open>One line of the listing: the state is the finished entries and the current one.\<close>

definition slt_line :: "string \<Rightarrow> slt_entry list \<times> slt_entry \<Rightarrow> slt_entry list \<times> slt_entry" where
  "slt_line line st = (case st of (entries, cur) \<Rightarrow>
     if str_strip line = [] then (if cur \<noteq> [] then (entries @ [cur], []) else (entries, cur))
     else (case str_partition '' = '' line of
         Some (k, v) \<Rightarrow> (entries, AList.update (str_strip k) v cur)
       | None \<Rightarrow> if suffix '' ='' line
                 then (entries, AList.update (str_strip (drop_end 2 line)) [] cur)
                 else (entries, cur)))"

definition LF :: char where "LF = CHR 0x0A"

definition parse_slt :: "string \<Rightarrow> slt_entry list" where
  "parse_slt txt = (case str_partition ([LF] @ ''----------'' @ [LF]) txt of
       None \<Rightarrow> []
     | Some (_, body) \<Rightarrow>
         let (entries, cur) = fold slt_line (str_lines body) ([], []);
             entries = (if cur \<noteq> [] then entries @ [cur] else entries)
         in filter (\<lambda>e. ''Path'' \<in> set (dict_keys e)) entries)"

definition is_unix_mode :: "string \<Rightarrow> bool" where
  "is_unix_mode tok \<longleftrightarrow> length tok = 10 \<and> hd tok \<in> set ''-dlcbps'' \<and> set (tl tok) \<subseteq> set ''-rwxsStT''"

definition mode_type :: "char \<Rightarrow> string" where
  "mode_type t =
     (if t = CHR ''-'' then ''file'' else if t = CHR ''d'' then ''dir''
      else if t = CHR ''l'' then ''symlink'' else if t = CHR ''c'' then ''device''
      else if t = CHR ''b'' then ''device'' else if t = CHR ''p'' then ''fifo'' else ''socket'')"

definition has_value :: "slt_entry \<Rightarrow> string \<Rightarrow> bool" where
  "has_value e k \<longleftrightarrow> dict_get e k [] \<noteq> []"

definition entry_type :: "slt_entry \<Rightarrow> string" where
  "entry_type e =
     (if map_of e ''Folder'' = Some ''+'' then ''dir''
      else if map_of e ''Alternate Stream'' = Some ''+'' then ''not_regular''
      else if has_value e ''Symbolic Link'' then ''symlink''
      else if has_value e ''Hard Link'' \<or> has_value e ''Copy Link'' then ''hardlink''
      else
        let tokens = str_words (dict_get e ''Attributes'' []) in
        (case find is_unix_mode tokens of
           Some tok \<Rightarrow> mode_type (hd tok)
         | None \<Rightarrow> if tokens \<noteq> [] \<and> CHR ''D'' \<in> set (hd tokens) \<and> \<not> is_unix_mode (hd tokens)
                   then ''dir'' else ''file''))"

definition seven_zip_reason :: "int \<Rightarrow> string \<Rightarrow> string" where
  "seven_zip_reason rc err =
     (let low = str_lower err in
      if str_contains ''wrong password'' low \<or> str_contains ''can not open encrypted archive'' low \<or>
         str_contains ''cannot open encrypted'' low then ''encrypted''
      else if str_contains ''missing volume'' low then ''missing_volume''
      else if rc = 8 \<or> str_contains (''can'' @ [CHR 0x27] @ ''t allocate'') low \<or>
              str_contains ''not enough memory'' low then ''oom''
      else if str_contains ''cannot open the file as archive'' low \<or> str_contains ''unsupported'' low
        then ''unsupported_format''
      else ''reader_error'')"

definition map_error :: "string \<Rightarrow> string" where
  "map_error message =
     (let m = str_lower message in
      if str_contains ''encrypt'' m \<or> str_contains ''passphrase'' m \<or> str_contains ''password'' m
        then ''encrypted''
      else if str_contains ''allocate'' m \<or> str_contains ''out of memory'' m then ''oom''
      else if str_contains ''missing volume'' m \<or> str_contains ''volume'' m \<and>
              (str_contains ''missing'' m \<or> str_contains ''next'' m \<or> str_contains ''open'' m)
        then ''missing_volume''
      else if str_contains ''unrecognized archive format'' m \<or> str_contains ''unsupported'' m \<or>
              str_contains ''not supported'' m then ''unsupported_format''
      else ''reader_error'')"

subsection \<open>Facts\<close>

text \<open>The reasons that abort a whole tree are never those of one container.\<close>

definition FATAL_REASONS :: "string list" where
  "FATAL_REASONS = [''timeout'', ''total_too_large'', ''ratio_exceeded'']"

definition local_reason :: "string \<Rightarrow> bool" where
  "local_reason w \<longleftrightarrow> w \<in> set FAILURE_REASONS \<and> w \<notin> set FATAL_REASONS"

lemma fatal_reasons_fail: "w \<in> set FATAL_REASONS \<Longrightarrow> w \<in> set FAILURE_REASONS"
  by (auto simp: FATAL_REASONS_def FAILURE_REASONS_def)

lemma local_reasons [simp]:
  "local_reason ''depth_exceeded''" "local_reason ''member_too_large''" "local_reason ''spool_exceeded''"
  "local_reason ''reader_error''" "local_reason ''unsupported_format''" "local_reason ''missing_volume''"
  "local_reason ''encrypted''" "local_reason ''oom''"
  by (simp_all add: local_reason_def FATAL_REASONS_def FAILURE_REASONS_def)

lemma map_error_local [simp]: "local_reason (map_error m)"
  by (simp add: map_error_def Let_def)

lemma seven_zip_reason_local [simp]: "local_reason (seven_zip_reason rc err)"
  by (simp add: seven_zip_reason_def Let_def)

lemma mode_type_reason:
  "t \<in> set ''-dlcbps'' \<Longrightarrow> mode_type t \<in> set REFUSAL_REASONS \<union> {''dir'', ''file''}"
  by (auto simp: mode_type_def REFUSAL_REASONS_def)

lemma entry_type_reason: "entry_type e \<in> set REFUSAL_REASONS \<union> {''dir'', ''file''}"
proof -
  have *: "mode_type (hd tok) \<in> set REFUSAL_REASONS \<union> {''dir'', ''file''}"
    if "find is_unix_mode ts = Some tok" for ts tok
    using that mode_type_reason [of "hd tok"]
    by (auto simp: find_Some_iff is_unix_mode_def)
  have listed: "''symlink'' \<in> set REFUSAL_REASONS" "''hardlink'' \<in> set REFUSAL_REASONS"
    "''not_regular'' \<in> set REFUSAL_REASONS" by (simp_all add: REFUSAL_REASONS_def)
  show ?thesis
  proof (cases "find is_unix_mode (str_words (dict_get e ''Attributes'' []))")
    case None
    with listed show ?thesis by (simp add: entry_type_def Let_def)
  next
    case (Some tok)
    with listed * [OF Some] show ?thesis by (simp add: entry_type_def Let_def)
  qed
qed

lemma parse_slt_path:
  assumes "e \<in> set (parse_slt txt)"
  shows "\<exists>p. map_of e ''Path'' = Some p"
proof -
  from assms have "''Path'' \<in> set (dict_keys e)"
    by (auto simp: parse_slt_def Let_def split: option.splits prod.splits)
  then show ?thesis unfolding dict_keys_def set_map
    by (metis map_of_eq_None_iff not_None_eq)
qed

end
