(* ===== verification/Engine.thy ===== *)
theory Engine
  imports Fallback Kinds Hashing
begin

text \<open>
  \<^verbatim>\<open>forge/src/forge/engine/archive.py\<close> and the readers of \<^verbatim>\<open>fallback.py\<close>: the recursive traversal of
  one source archive. A container is opened by libarchive, by the single-stream modules or, after a
  failure, by 7zz; every member is hashed as it streams, spooled to scratch when it is an archive
  that will be opened itself, and reported to the sink when it has been read whole.

  What the operating system and the libraries do is the record \<open>env\<close>: libarchive as a script of
  entries and blocks for a list of files, the stream modules as blocks, 7zz as an outcome with its
  output, the clock as the sequence of its readings. A file is its base name and its content
  (\<open>None\<close>: it cannot be opened). Writes to the scratch directory succeed.

  The state \<open>eng\<close> holds the shared budget, the calls of the sink in order (\<open>events\<close>), \<open>ctx.fatal\<close>,
  the number of files and directories on scratch, and the two local objects of the container being
  read: its \<open>ContainerState\<close> with the local variables of the readers, and its \<open>MemberWriter\<close>.
  Opening a nested container puts its own pair in place and the old one back at the end. The
  recursion is by the number of container levels that may still be opened.
\<close>

type_synonym sfile = "string \<times> string option"

datatype read_end = Read_Eof | Read_Error string

record la_entry =
  le_name :: string
  le_filetype :: int
  le_size :: "int option"
  le_symlink :: bool
  le_hardlink :: bool
  le_encrypted :: bool
  le_format :: "string option"
  le_pos :: int
  le_blocks :: "(string \<times> int) list"
  le_end :: read_end

datatype la_open = La_Open_Error string | La_No_Memory | La_Script "la_entry list" read_end

datatype zz_outcome = Zz_Timeout | Zz_Done int string string

datatype extracted = X_Absent | X_File bool "string list"

record env =
  e_caps :: caps
  e_clock :: "nat \<Rightarrow> int"
  e_sha :: "string \<Rightarrow> string"
  e_crc :: "string \<Rightarrow> int"
  e_decode :: "string \<Rightarrow> string"
  e_libarchive :: "sfile list \<Rightarrow> la_open"
  e_peek :: "sfile list \<Rightarrow> string \<Rightarrow> nat \<Rightarrow> string option"
  e_stream :: "sfile list \<Rightarrow> string \<Rightarrow> (string \<times> int) list \<times> bool"
  e_sevenzip :: bool
  e_zz_list :: "sfile list \<Rightarrow> int \<Rightarrow> zz_outcome"
  e_zz_extract :: "sfile list \<Rightarrow> string list \<Rightarrow> int \<Rightarrow> zz_outcome \<times> (string \<Rightarrow> extracted)"

type_synonym chain = "string list"

datatype event =
    Ev_Member chain string int kind "nat option" int
  | Ev_Refused chain string
  | Ev_Nested chain string int
  | Ev_Result chain result

type_synonym counter = "(string, nat) dict"

record container =
  c_prefix :: chain
  c_depth :: int
  c_compressed :: int
  c_name_hint :: string
  c_members :: int
  c_bytes_out :: int
  c_bytes_hashed :: int
  c_seen :: counter
  c_handled :: counter
  c_format :: "string option"
  c_reader :: string
  c_tempdirs :: int
  c_reserved :: int

record writer =
  w_norm :: string
  w_bytes :: string
  w_size :: int
  w_stl :: "stl_counter option"
  w_head :: string
  w_kind :: "kind option"
  w_existing :: "sfile option"
  w_spool_path :: "string option"
  w_open :: bool
  w_spooled :: int
  w_spool_failed :: "string option"

record eng =
  bud :: budget
  events :: "event list"
  fatal :: "string option"
  scratch_entries :: int
  con :: container
  wr :: writer

type_synonym 'a engine = "(eng, engine_exn, 'a) act"
type_synonym opener = "sfile list \<Rightarrow> chain \<Rightarrow> int \<Rightarrow> int \<Rightarrow> string \<Rightarrow> result engine"

definition on_budget :: "'a budget_act \<Rightarrow> 'a engine" where
  "on_budget m = (\<lambda>s. case m (bud s) of (r, b) \<Rightarrow> (r, s\<lparr>bud := b\<rparr>))"

definition counter_inc :: "string \<Rightarrow> counter \<Rightarrow> counter" where
  "counter_inc k c = AList.update k (dict_get c k 0 + 1) c"

definition counter_dec :: "string \<Rightarrow> counter \<Rightarrow> counter" where
  "counter_dec k c = AList.update k (dict_get c k 0 - 1) c"

definition container_init :: "chain \<Rightarrow> int \<Rightarrow> int \<Rightarrow> string \<Rightarrow> container" where
  "container_init pre depth compressed name_hint =
     \<lparr>c_prefix = pre, c_depth = depth, c_compressed = compressed, c_name_hint = name_hint,
      c_members = 0, c_bytes_out = 0, c_bytes_hashed = 0, c_seen = [], c_handled = [],
      c_format = None, c_reader = ''libarchive'', c_tempdirs = 0, c_reserved = 0\<rparr>"

text \<open>\<open>chain_for\<close>: the name of the \<open>k\<close>-th member with the same path, and the bookkeeping.\<close>

definition chain_name :: "string \<Rightarrow> nat \<Rightarrow> string" where
  "chain_name norm k = (if k = 0 then norm else norm @ ''//dup'' @ nat_str k)"

definition chain_for :: "string \<Rightarrow> container \<Rightarrow> chain \<times> container" where
  "chain_for norm c =
     (let k = dict_get (c_seen c) norm 0 in
      (c_prefix c @ [chain_name norm k], c\<lparr>c_seen := counter_inc norm (c_seen c)\<rparr>))"

subsection \<open>The member writer\<close>

definition writer_init :: "string \<Rightarrow> sfile option \<Rightarrow> writer" where
  "writer_init norm existing =
     \<lparr>w_norm = norm, w_bytes = [], w_size = 0,
      w_stl = (if is_stl_name norm then Some stl_init else None), w_head = [], w_kind = None,
      w_existing = existing, w_spool_path = None, w_open = False, w_spooled = 0,
      w_spool_failed = None\<rparr>"

definition new_writer :: "string \<Rightarrow> sfile option \<Rightarrow> unit engine" where
  "new_writer norm existing = act_mod (\<lambda>s. s\<lparr>wr := writer_init norm existing\<rparr>)"

definition drop_spool :: "eng \<Rightarrow> eng" where
  "drop_spool s = (let w = wr s in
     s\<lparr>bud := release_spool (w_spooled w) (bud s),
       scratch_entries := scratch_entries s - (if w_spool_path w \<noteq> None then 1 else 0),
       wr := w\<lparr>w_open := False, w_spool_path := None, w_spooled := 0\<rparr>\<rparr>)"

definition spool_write :: "env \<Rightarrow> string \<Rightarrow> eng \<Rightarrow> eng" where
  "spool_write env data s =
     (if \<not> w_open (wr s) then s
      else
        let n = int (length data); w = wr s in
        case reserve_spool (e_caps env) n (bud s) of
          (False, b) \<Rightarrow> drop_spool (s\<lparr>bud := b, wr := w\<lparr>w_spool_failed := Some ''spool_exceeded''\<rparr>\<rparr>)
        | (True, b) \<Rightarrow> s\<lparr>bud := b, wr := w\<lparr>w_spooled := w_spooled w + n,
            w_spool_path := map_option (\<lambda>c. c @ data) (w_spool_path w)\<rparr>\<rparr>)"

definition decide :: "env \<Rightarrow> eng \<Rightarrow> eng" where
  "decide env s =
     (let w = wr s; k = classify (w_norm w) (w_head w); s = s\<lparr>wr := w\<lparr>w_kind := Some k\<rparr>\<rparr> in
      if k \<noteq> Archive \<or> w_existing w \<noteq> None then s
      else if c_depth (con s) + 1 > cap_depth (e_caps env) then s
      else spool_write env (w_head w)
        (s\<lparr>scratch_entries := scratch_entries s + 1,
           wr := (wr s)\<lparr>w_spool_path := Some [], w_open := True\<rparr>\<rparr>))"

text \<open>The part of \<open>feed\<close> after the checks: hash, count, collect the head, spool.\<close>

definition feed_data :: "env \<Rightarrow> string \<Rightarrow> eng \<Rightarrow> eng" where
  "feed_data env data s =
     (let w = wr s;
          w = w\<lparr>w_bytes := w_bytes w @ data, w_stl := map_option (stl_feed data) (w_stl w)\<rparr>;
          s = s\<lparr>wr := w\<rparr>
      in if w_kind w = None then
           let need = MAGIC_BYTES - length (w_head w);
               s = s\<lparr>wr := w\<lparr>w_head := w_head w @ take need data\<rparr>\<rparr>
           in if length (w_head (wr s)) \<ge> MAGIC_BYTES then
                let s = decide env s in
                if length data > need then spool_write env (drop need data) s else s
              else s
         else spool_write env data s)"

definition feed :: "env \<Rightarrow> string \<Rightarrow> int option \<Rightarrow> unit engine" where
  "feed env data compressed =
     (let n = int (length data); caps = e_caps env in
      act_seq (on_budget (check_time caps (e_clock env)))
     (act_seq (act_mod (\<lambda>s. s\<lparr>wr := (wr s)\<lparr>w_size := w_size (wr s) + n\<rparr>,
                              con := (con s)\<lparr>c_bytes_out := c_bytes_out (con s) + n\<rparr>\<rparr>))
     (act_seq (on_budget (add_tree_bytes caps n))
     (act_seq (act_bind (act_get (\<lambda>s. w_size (wr s))) (\<lambda>sz. on_budget (check_member caps sz compressed)))
     (act_seq (act_bind (act_get con) (\<lambda>c. on_budget (check_container caps (c_bytes_out c) (c_compressed c))))
       (act_mod (feed_data env data)))))))"

definition abort :: "unit engine" where
  "abort = act_mod drop_spool"

text \<open>\<open>finish\<close> up to the report of the member: it returns the chain, the digest and the size.\<close>

definition finish_member :: "env \<Rightarrow> eng \<Rightarrow> eng \<times> chain \<times> string" where
  "finish_member env s =
     (let s = (if w_kind (wr s) = None then decide env s else s);
          s = s\<lparr>wr := (wr s)\<lparr>w_open := False\<rparr>\<rparr>;
          w = wr s;
          (chain, c) = chain_for (w_norm w) (con s);
          sha = e_sha env (w_bytes w);
          tri = Option.bind (w_stl w) stl_result
      in (s\<lparr>events := events s @ [Ev_Member chain sha (w_size w) (the (w_kind w)) tri (c_depth c)],
            con := c\<lparr>c_members := c_members c + 1, c_bytes_hashed := c_bytes_hashed c + w_size w\<rparr>\<rparr>,
          chain, sha))"

definition mk_result :: "result \<Rightarrow> result engine" where
  "mk_result r = (if result_valid r then act_ret r else act_raise (Py ValueError))"

definition failed_child :: "string \<Rightarrow> int \<Rightarrow> result" where
  "failed_child w depth = \<lparr>res_status = ''failed'', res_reason = Some w, res_members = 0,
     res_bytes = 0, res_depth = depth, res_format = None, res_reader = None\<rparr>"

definition open_child :: "env \<Rightarrow> opener \<Rightarrow> chain \<Rightarrow> writer \<Rightarrow> int \<Rightarrow> result engine" where
  "open_child env child chain w child_depth =
     (if child_depth > cap_depth (e_caps env) then mk_result (failed_child ''depth_exceeded'' child_depth)
      else (case w_spool_failed w of
          Some why \<Rightarrow> mk_result (failed_child why child_depth)
        | None \<Rightarrow>
            let hint = after_last (CHR ''/'') (w_norm w) in
            (case w_existing w of
               Some f \<Rightarrow> child [f] chain child_depth (w_size w) hint
             | None \<Rightarrow> (case w_spool_path w of
                   Some content \<Rightarrow> child [(''spool'', Some content)] chain child_depth (w_size w) hint
                 | None \<Rightarrow> act_raise (Py TypeError)))))"

definition emit :: "event \<Rightarrow> unit engine" where
  "emit ev = act_mod (\<lambda>s. s\<lparr>events := events s @ [ev]\<rparr>)"

definition raise_fatal :: "unit engine" where
  "raise_fatal = act_bind (act_get fatal) (\<lambda>f. case f of None \<Rightarrow> act_ret () | Some w \<Rightarrow> act_raise (Fatal w))"

definition finish :: "env \<Rightarrow> opener \<Rightarrow> unit engine" where
  "finish env child =
     act_bind (\<lambda>s. case finish_member env s of (t, x) \<Rightarrow> (Inr x, t)) (\<lambda>(chain, sha).
     act_bind (act_get (\<lambda>s. (wr s, c_depth (con s) + 1))) (\<lambda>(w, child_depth).
     if w_kind w \<noteq> Some Archive then act_ret ()
     else act_seq (emit (Ev_Nested chain sha (w_size w)))
       (act_bind (act_finally (open_child env child chain w child_depth) drop_spool) (\<lambda>res.
        act_seq (emit (Ev_Result chain res)) raise_fatal))))"

definition on_error_abort :: "'a engine \<Rightarrow> 'a engine" where
  "on_error_abort m = act_catch m (\<lambda>e. act_seq abort (act_raise e))"

subsection \<open>Reading with libarchive\<close>

definition refuse :: "string \<Rightarrow> string \<Rightarrow> unit engine" where
  "refuse name why = act_mod (\<lambda>s.
     s\<lparr>con := (con s)\<lparr>c_seen := counter_inc (CHR ''!'' # display_name name) (c_seen (con s))\<rparr>,
       events := events s @ [Ev_Refused (c_prefix (con s) @ [display_name name]) why]\<rparr>)"

definition read_stop :: "read_end \<Rightarrow> unit engine" where
  "read_stop e = (case e of Read_Eof \<Rightarrow> act_ret () | Read_Error msg \<Rightarrow> act_raise (Libarchive_Error msg))"

fun drain :: "env \<Rightarrow> (string \<times> int) list \<Rightarrow> read_end \<Rightarrow> unit engine" where
  "drain env [] e = act_seq (on_budget (check_time (e_caps env) (e_clock env))) (read_stop e)"
| "drain env ((b, _) # bs) e = act_seq (on_budget (check_time (e_caps env) (e_clock env)))
     (if b = [] then act_ret ()
      else act_seq (act_mod (\<lambda>s. s\<lparr>con := (con s)\<lparr>c_bytes_out := c_bytes_out (con s) + int (length b)\<rparr>\<rparr>))
        (act_seq (on_budget (add_tree_bytes (e_caps env) (int (length b)))) (drain env bs e)))"

fun read_data :: "env \<Rightarrow> int \<Rightarrow> int \<Rightarrow> (string \<times> int) list \<Rightarrow> read_end \<Rightarrow> unit engine" where
  "read_data env pos consumed [] e = read_stop e"
| "read_data env pos consumed ((b, cur) # bs) e =
     (if b = [] then act_ret ()
      else let consumed = consumed + max 0 (cur - pos) in
        act_seq (feed env b (Some consumed)) (read_data env cur consumed bs e))"

definition read_member :: "env \<Rightarrow> opener \<Rightarrow> la_entry \<Rightarrow> string \<Rightarrow> unit engine" where
  "read_member env child e norm =
     act_seq (new_writer norm None)
    (act_seq (on_error_abort
       (act_seq (if le_size e = Some 0 then act_ret ()
                 else read_data env (le_pos e) 0 (le_blocks e) (le_end e))
         (act_bind (act_get (\<lambda>s. w_size (wr s))) (\<lambda>got.
          if le_size e \<noteq> None \<and> le_size e \<noteq> Some got then act_raise (Local ''reader_error'')
          else act_ret ()))))
      (finish env child))"

definition read_entry :: "env \<Rightarrow> opener \<Rightarrow> la_entry \<Rightarrow> unit engine" where
  "read_entry env child e =
     (let name = e_decode env (le_name e) in
      if le_filetype e = AE_IFDIR \<and> \<not> (le_symlink e \<or> le_hardlink e) then act_ret ()
      else
        (case check_name name of (norm, why) \<Rightarrow>
           let why = (if why = None then check_filetype (le_filetype e) (le_hardlink e) (le_symlink e)
                      else why) in
           (case why of
              Some w \<Rightarrow> act_seq (refuse name w) (drain env (le_blocks e) (le_end e))
            | None \<Rightarrow>
                if le_encrypted e then act_raise (Local ''encrypted'')
                else act_seq (case le_size e of
                       None \<Rightarrow> act_ret ()
                     | Some n \<Rightarrow> on_budget (check_member (e_caps env) n None))
                  (read_member env child e (the norm)))))"

fun read_entries :: "env \<Rightarrow> opener \<Rightarrow> string option \<Rightarrow> la_entry list \<Rightarrow> read_end \<Rightarrow> string option engine" where
  "read_entries env child fmt [] e = act_seq (on_budget (check_time (e_caps env) (e_clock env)))
     (act_seq (read_stop e) (act_ret fmt))"
| "read_entries env child fmt (x # xs) e = act_seq (on_budget (check_time (e_caps env) (e_clock env)))
     (act_seq (read_entry env child x)
       (read_entries env child (if fmt = None \<or> fmt = Some [] then le_format x else fmt) xs e))"

definition read_libarchive :: "env \<Rightarrow> opener \<Rightarrow> sfile list \<Rightarrow> string option engine" where
  "read_libarchive env child files =
     act_catch (case e_libarchive env files of
         La_Open_Error msg \<Rightarrow> act_raise (Libarchive_Error msg)
       | La_No_Memory \<Rightarrow> act_raise Memory_Error
       | La_Script xs e \<Rightarrow> read_entries env child None xs e)
       (\<lambda>x. case x of Libarchive_Error msg \<Rightarrow> act_raise (Local (map_error msg)) | _ \<Rightarrow> act_raise x)"

subsection \<open>Reading a single stream\<close>

fun stream_blocks :: "env \<Rightarrow> (string \<times> int) list \<Rightarrow> bool \<Rightarrow> unit engine" where
  "stream_blocks env [] ok = (if ok then act_ret () else act_raise Stream_Error)"
| "stream_blocks env ((b, consumed) # bs) ok =
     (if b = [] then act_ret () else act_seq (feed env b (Some consumed)) (stream_blocks env bs ok))"

definition read_stream :: "env \<Rightarrow> opener \<Rightarrow> sfile list \<Rightarrow> string \<Rightarrow> unit engine" where
  "read_stream env child files fmt =
     act_bind (act_get (\<lambda>s. c_name_hint (con s))) (\<lambda>hint.
     let norm = (case check_name (stream_member_name hint fmt) of
                   (norm, why) \<Rightarrow> if why \<noteq> None then ''data'' else the norm) in
     act_seq (new_writer norm None)
    (act_seq (act_catch (case e_stream env files fmt of (bs, ok) \<Rightarrow> stream_blocks env bs ok)
        (\<lambda>x. act_seq abort (if x \<in> {Stream_Error, Os_Error, Py ValueError}
             then act_raise (Local ''reader_error'') else act_raise x)))
      (finish env child)))"

subsection \<open>Reading with 7zz\<close>

definition py_value :: "int option \<Rightarrow> int engine" where
  "py_value v = (case v of None \<Rightarrow> act_raise (Py ValueError) | Some n \<Rightarrow> act_ret n)"

definition entry_size :: "slt_entry \<Rightarrow> int engine" where
  "entry_size e = (if has_value e ''Size'' then py_value (py_int (dict_get e ''Size'' [])) else act_ret 0)"

definition entry_path :: "slt_entry \<Rightarrow> string" where
  "entry_path e = dict_get e ''Path'' []"

text \<open>The plan: the entries still to be read, each with its checked name or the reason to refuse it.\<close>

type_synonym plan_item = "slt_entry \<times> string option \<times> string option"

fun plan_entries :: "env \<Rightarrow> slt_entry list \<Rightarrow> plan_item list engine" where
  "plan_entries env [] = act_ret []"
| "plan_entries env (e # es) =
     (let kind = entry_type e in
      if kind = ''dir'' then plan_entries env es
      else
        (case check_name (entry_path e) of (norm, why) \<Rightarrow>
         let why = (if why = None \<and> kind \<noteq> ''file'' then Some kind else why);
             key = (if why = None then the norm else CHR ''!'' # display_name (entry_path e))
         in act_bind (act_get (\<lambda>s. dict_get (c_handled (con s)) key 0)) (\<lambda>left.
            if left > 0 then
              act_seq (act_mod (\<lambda>s. s\<lparr>con := (con s)\<lparr>c_handled := counter_dec key (c_handled (con s)),
                                           c_seen := counter_inc key (c_seen (con s))\<rparr>\<rparr>))
                (plan_entries env es)
            else
              act_seq (if why = None then act_bind (entry_size e)
                         (\<lambda>n. on_budget (check_member (e_caps env) n None)) else act_ret ())
                (act_bind (plan_entries env es) (\<lambda>rest. act_ret ((e, norm, why) # rest))))))"

fun sum_sizes :: "plan_item list \<Rightarrow> int engine" where
  "sum_sizes [] = act_ret 0"
| "sum_sizes ((e, norm, why) # ps) =
     (if why = None then act_bind (entry_size e) (\<lambda>n. act_bind (sum_sizes ps) (\<lambda>m. act_ret (n + m)))
      else sum_sizes ps)"

fun feed_blocks :: "env \<Rightarrow> string list \<Rightarrow> unit engine" where
  "feed_blocks env [] = act_ret ()"
| "feed_blocks env (b # bs) = (if b = [] then act_ret () else act_seq (feed env b None) (feed_blocks env bs))"

definition verify_extracted :: "env \<Rightarrow> slt_entry \<Rightarrow> bool \<Rightarrow> bool engine" where
  "verify_extracted env e clean_exit =
     act_bind (act_get (\<lambda>s. (w_size (wr s), e_crc env (w_bytes (wr s))))) (\<lambda>(got, crc).
     act_bind (if has_value e ''Size'' then py_value (py_int (dict_get e ''Size'' [])) else act_ret got) (\<lambda>listed.
     if listed \<noteq> got then act_ret False
     else
       act_bind (if has_value e ''CRC'' then py_value (py_int16 (dict_get e ''CRC'' [])) else act_ret crc) (\<lambda>lcrc.
       if lcrc \<noteq> crc then act_ret False
       else act_ret (\<not> (\<not> has_value e ''CRC'' \<and> got \<noteq> 0 \<and> \<not> clean_exit)))))"

definition hash_extracted :: "env \<Rightarrow> opener \<Rightarrow> (string \<Rightarrow> extracted) \<Rightarrow> string \<Rightarrow> slt_entry \<Rightarrow> bool \<Rightarrow> bool engine" where
  "hash_extracted env child outdir norm e clean_exit =
     (case outdir norm of
        X_Absent \<Rightarrow> act_ret False
      | X_File regular blocks \<Rightarrow>
          act_seq (new_writer norm (Some (norm, Some (concat blocks))))
            (on_error_abort
              (if \<not> regular then act_seq abort (act_ret False)
               else act_seq (feed_blocks env blocks)
                 (act_bind (verify_extracted env e clean_exit) (\<lambda>ok.
                  if \<not> ok then act_seq abort (act_ret False)
                  else act_seq (finish env child) (act_ret True))))))"

fun run_plan :: "env \<Rightarrow> opener \<Rightarrow> (string \<Rightarrow> extracted) \<Rightarrow> bool \<Rightarrow> plan_item list \<Rightarrow> string list engine" where
  "run_plan env child outdir clean_exit [] = act_ret []"
| "run_plan env child outdir clean_exit ((e, norm, why) # ps) =
     (case why of
        Some w \<Rightarrow> act_seq (refuse (entry_path e) w) (run_plan env child outdir clean_exit ps)
      | None \<Rightarrow>
          act_bind (hash_extracted env child outdir (the norm) e clean_exit) (\<lambda>ok.
          act_bind (run_plan env child outdir clean_exit ps) (\<lambda>bad.
          act_ret (if ok then bad else the norm # bad))))"

definition zz_cleanup :: "eng \<Rightarrow> eng" where
  "zz_cleanup s = s\<lparr>scratch_entries := scratch_entries s - c_tempdirs (con s),
     bud := release_spool (c_reserved (con s)) (bud s),
     con := (con s)\<lparr>c_tempdirs := 0, c_reserved := 0\<rparr>\<rparr>"

definition link_names :: "string \<Rightarrow> sfile list \<Rightarrow> string list" where
  "link_names hint files = map (\<lambda>(i, (name, _)).
     safe_basename (if length files = 1 then hint else name) (''volume'' @ nat_str i))
     (enumerate 0 files)"

definition zz_wanted :: "plan_item list \<Rightarrow> string list" where
  "zz_wanted plan = map (\<lambda>(e, _, _). entry_path e) (filter (\<lambda>(_, _, why). why = None) plan)"

definition zz_list :: "env \<Rightarrow> sfile list \<Rightarrow> slt_entry list engine" where
  "zz_list env files =
     act_bind (on_budget (remaining_seconds (e_caps env) (e_clock env))) (\<lambda>t.
     case e_zz_list env files t of
       Zz_Timeout \<Rightarrow> act_raise (Fatal ''timeout'')
     | Zz_Done rc out err \<Rightarrow>
         if rc \<noteq> 0 then act_raise (Local (seven_zip_reason rc err))
         else
           let entries = parse_slt out in
           if \<exists>e \<in> set entries. map_of e ''Encrypted'' = Some ''+'' then act_raise (Local ''encrypted'')
           else act_ret entries)"

definition zz_extract :: "env \<Rightarrow> sfile list \<Rightarrow> string list \<Rightarrow> (int \<times> string \<times> (string \<Rightarrow> extracted)) engine" where
  "zz_extract env files wanted =
     (if wanted = [] then act_ret (0, [], (\<lambda>_. X_Absent))
      else act_bind (on_budget (remaining_seconds (e_caps env) (e_clock env))) (\<lambda>t.
        case e_zz_extract env files wanted t of
          (Zz_Timeout, _) \<Rightarrow> act_raise (Fatal ''timeout'')
        | (Zz_Done rc out err, outdir) \<Rightarrow> act_ret (rc, err, outdir)))"

definition reserve_total :: "env \<Rightarrow> int \<Rightarrow> bool engine" where
  "reserve_total env n = (\<lambda>s. case reserve_spool (e_caps env) n (bud s) of
     (ok, b) \<Rightarrow> (Inr ok, s\<lparr>bud := b\<rparr>))"

definition zz_read_planned :: "env \<Rightarrow> opener \<Rightarrow> sfile list \<Rightarrow> plan_item list \<Rightarrow> unit engine" where
  "zz_read_planned env child files plan =
     act_bind (zz_extract env files (zz_wanted plan)) (\<lambda>(rc, err, outdir).
     act_bind (run_plan env child outdir (rc = 0) plan) (\<lambda>bad.
     if bad \<noteq> [] \<or> rc \<noteq> 0 then act_raise (Local (seven_zip_reason rc err)) else act_ret ()))"

definition zz_reserve :: "env \<Rightarrow> plan_item list \<Rightarrow> unit engine" where
  "zz_reserve env plan =
     act_bind (sum_sizes plan) (\<lambda>total.
     act_bind (reserve_total env total) (\<lambda>ok.
     if \<not> ok then act_raise (Local ''spool_exceeded'')
     else act_seq (act_mod (\<lambda>s. s\<lparr>con := (con s)\<lparr>c_reserved := total\<rparr>\<rparr>))
       (act_bind (act_get con) (\<lambda>c. on_budget (check_container (e_caps env) total (c_compressed c))))))"

definition zz_body :: "env \<Rightarrow> opener \<Rightarrow> sfile list \<Rightarrow> unit engine" where
  "zz_body env child files =
     act_bind (act_get (\<lambda>s. c_name_hint (con s))) (\<lambda>hint.
     act_seq (if distinct (link_names hint files) then act_ret () else act_raise (Py FileExistsError))
    (act_bind (zz_list env files) (\<lambda>entries.
     act_bind (plan_entries env entries) (\<lambda>plan.
     act_seq (zz_reserve env plan) (zz_read_planned env child files plan)))))"

definition read_7zz :: "env \<Rightarrow> opener \<Rightarrow> sfile list \<Rightarrow> unit engine" where
  "read_7zz env child files =
     (if \<not> e_sevenzip env then act_raise (Local ''reader_error'')
      else
        act_seq (act_mod (\<lambda>s. s\<lparr>scratch_entries := scratch_entries s + 2,
                                con := (con s)\<lparr>c_tempdirs := 2\<rparr>\<rparr>))
          (act_finally (zz_body env child files) zz_cleanup))"

subsection \<open>Opening a container\<close>

definition FALLBACK_FORMATS :: "string list" where
  "FALLBACK_FORMATS = [''zip'', ''rar4'', ''rar5'', ''7z'']"

definition STREAM_FORMATS :: "string list" where
  "STREAM_FORMATS = [''gzip'', ''bzip2'', ''xz'']"

definition container_result :: "string \<Rightarrow> string option \<Rightarrow> container \<Rightarrow> result" where
  "container_result status why c = \<lparr>res_status = status, res_reason = why, res_members = c_members c,
     res_bytes = c_bytes_hashed c, res_depth = c_depth c, res_format = c_format c,
     res_reader = Some (c_reader c)\<rparr>"

definition finish_result :: "string \<Rightarrow> string option \<Rightarrow> result engine" where
  "finish_result status why = act_bind (act_get con) (\<lambda>c. mk_result (container_result status why c))"

definition set_reader :: "string \<Rightarrow> unit engine" where
  "set_reader name = act_mod (\<lambda>s. s\<lparr>con := (con s)\<lparr>c_reader := name\<rparr>\<rparr>)"

definition sniff :: "sfile list \<Rightarrow> string engine" where
  "sniff files = (case files of
       [] \<Rightarrow> act_raise (Py IndexError)
     | (name, content) # _ \<Rightarrow> (case content of
           None \<Rightarrow> act_raise (Local ''reader_error'')
         | Some b \<Rightarrow> act_ret (take MAGIC_BYTES b)))"

definition read_with_fallback :: "env \<Rightarrow> opener \<Rightarrow> sfile list \<Rightarrow> string option \<Rightarrow> unit engine" where
  "read_with_fallback env child files fmt =
     act_catch
       (act_seq (read_libarchive env child files)
         (act_bind (act_get (\<lambda>s. c_seen (con s))) (\<lambda>seen.
          if fmt = None \<and> seen = [] then act_raise (Local ''unsupported_format'') else act_ret ())))
       (\<lambda>x. case x of
          Local first \<Rightarrow>
            if first \<in> {''reader_error'', ''unsupported_format'', ''missing_volume''} \<and>
               (case fmt of None \<Rightarrow> False | Some f \<Rightarrow> f \<in> set FALLBACK_FORMATS) \<and> e_sevenzip env
            then
              act_seq (set_reader ''7zz'')
             (act_seq (act_mod (\<lambda>s. s\<lparr>con := (con s)\<lparr>c_handled := c_seen (con s), c_seen := []\<rparr>\<rparr>))
               (act_catch (read_7zz env child files)
                 (\<lambda>y. case y of
                    Local second \<Rightarrow> act_raise (Local (if second \<noteq> ''reader_error'' then second else first))
                  | _ \<Rightarrow> act_raise y)))
            else act_raise x
        | _ \<Rightarrow> act_raise x)"

definition read_container :: "env \<Rightarrow> opener \<Rightarrow> sfile list \<Rightarrow> unit engine" where
  "read_container env child files =
     act_bind (sniff files) (\<lambda>head.
     let fmt = magic_format head in
     act_seq (act_mod (\<lambda>s. s\<lparr>con := (con s)\<lparr>c_format := fmt\<rparr>\<rparr>))
      (case fmt of
         Some f \<Rightarrow>
           if f \<in> set STREAM_FORMATS \<and>
              (case e_peek env files f MAGIC_BYTES of None \<Rightarrow> True | Some inner \<Rightarrow> magic_format inner = None)
           then act_seq (set_reader ''stream'') (read_stream env child files f)
           else read_with_fallback env child files fmt
       | None \<Rightarrow> read_with_fallback env child files fmt))"

definition open_body :: "env \<Rightarrow> opener \<Rightarrow> sfile list \<Rightarrow> result engine" where
  "open_body env child files =
     act_catch (act_seq (read_container env child files) (finish_result ''done'' None))
       (\<lambda>x. case x of
          Fatal w \<Rightarrow> act_seq (act_mod (\<lambda>s. s\<lparr>fatal := (case fatal s of None \<Rightarrow> Some w | Some v \<Rightarrow> Some v)\<rparr>))
                      (finish_result ''failed'' (Some w))
        | Memory_Error \<Rightarrow> finish_result ''failed'' (Some ''oom'')
        | Local w \<Rightarrow> finish_result ''failed'' (Some w)
        | _ \<Rightarrow> act_raise x)"

definition in_frame :: "container \<Rightarrow> 'a engine \<Rightarrow> 'a engine" where
  "in_frame c m = (\<lambda>s. case m (s\<lparr>con := c, wr := writer_init [] None\<rparr>) of
     (r, t) \<Rightarrow> (r, t\<lparr>con := con s, wr := wr s\<rparr>))"

definition open_with :: "env \<Rightarrow> opener \<Rightarrow> opener" where
  "open_with env child files pre depth compressed name_hint =
     in_frame (container_init pre depth compressed name_hint)
       (act_seq (act_mod (\<lambda>s. s\<lparr>bud := (bud s)\<lparr>max_depth := max (max_depth (bud s)) depth\<rparr>\<rparr>))
         (open_body env child files))"

fun open_level :: "env \<Rightarrow> nat \<Rightarrow> opener" where
  "open_level env 0 = (\<lambda>files pre depth compressed name_hint. act_raise Recursion_Error)"
| "open_level env (Suc n) = open_with env (open_level env n)"

text \<open>\<open>open_container\<close>: enough levels for the depth cap.\<close>

definition levels :: "env \<Rightarrow> int \<Rightarrow> nat" where
  "levels env depth = Suc (nat (cap_depth (e_caps env) - depth))"

definition open_container :: "env \<Rightarrow> opener" where
  "open_container env files pre depth compressed name_hint =
     open_level env (levels env depth) files pre depth compressed name_hint"

subsection \<open>The top level\<close>

datatype source_stat = Src_Missing | Src_Irregular | Src_File int

fun stat_sources :: "nat \<Rightarrow> int \<Rightarrow> source_stat list \<Rightarrow> string + int" where
  "stat_sources count acc [] = Inr acc"
| "stat_sources count acc (st # sts) = (case st of
       Src_Missing \<Rightarrow> Inl (if count > 1 then ''missing_volume'' else ''reader_error'')
     | Src_Irregular \<Rightarrow> Inl ''reader_error''
     | Src_File n \<Rightarrow> stat_sources count (acc + n) sts)"

definition eng_init :: "env \<Rightarrow> int \<Rightarrow> eng" where
  "eng_init env compressed =
     \<lparr>bud = (budget_init compressed (e_clock env 0))\<lparr>readings := 1\<rparr>, events = [], fatal = None,
      scratch_entries = 0, con = container_init [] 0 0 [], wr = writer_init [] None\<rparr>"

definition run_archive :: "env \<Rightarrow> (sfile \<times> source_stat) list \<Rightarrow> (engine_exn + result) \<times> eng" where
  "run_archive env sources =
     (case stat_sources (length sources) 0 (map snd sources) of
        Inl why \<Rightarrow> mk_result (failed_child why 1) (eng_init env 0)
      | Inr compressed \<Rightarrow>
          (let files = map fst sources; s0 = eng_init env compressed in
           case sources of
             [] \<Rightarrow> (Inl (Py IndexError), s0)
           | ((name, _), _) # _ \<Rightarrow>
               (act_bind (open_container env files [] 1 compressed name) (\<lambda>res.
                act_bind (act_get (\<lambda>s. max_depth (bud s))) (\<lambda>d.
                mk_result (res\<lparr>res_depth := d\<rparr>)))) s0))"

end
