(* ===== verification/EngineLog.thy ===== *)
theory EngineLog
  imports Engine
begin

text \<open>
  What the sink is told, as a grammar. \<open>container_log cap p d evs\<close>: the calls \<open>evs\<close> made while one
  container of depth \<open>d\<close> with chain prefix \<open>p\<close> is read are members and refusals of that container
  and, for every member that is an archive, its nested bracket: the member, the announcement, the
  calls of the child under its own prefix and the child's result with the child's own counts. No
  member chain occurs twice and no child deeper than the cap makes a call.
\<close>

fun ev_chains :: "event \<Rightarrow> chain list" where
  "ev_chains (Ev_Member c _ _ _ _ _) = [c]"
| "ev_chains _ = []"

fun ev_size :: "event \<Rightarrow> int" where
  "ev_size (Ev_Member _ _ n _ _ _) = n"
| "ev_size _ = 0"

fun ev_own :: "chain \<Rightarrow> event \<Rightarrow> int list" where
  "ev_own p (Ev_Member c _ n _ _ _) = (if length c = Suc (length p) then [n] else [])"
| "ev_own p _ = []"

fun ev_depth_ok :: "int \<Rightarrow> event \<Rightarrow> bool" where
  "ev_depth_ok cap (Ev_Member _ _ _ _ _ d) \<longleftrightarrow> d \<le> cap"
| "ev_depth_ok cap _ \<longleftrightarrow> True"

definition member_chains :: "event list \<Rightarrow> chain list" where
  "member_chains evs = concat (map ev_chains evs)"

definition member_bytes :: "event list \<Rightarrow> int" where
  "member_bytes evs = sum_list (map ev_size evs)"

definition own_sizes :: "chain \<Rightarrow> event list \<Rightarrow> int list" where
  "own_sizes p evs = concat (map (ev_own p) evs)"

lemma log_simps [simp]:
  "member_chains [] = []" "member_chains (e # es) = ev_chains e @ member_chains es"
  "member_chains (xs @ ys) = member_chains xs @ member_chains ys"
  "member_bytes [] = 0" "member_bytes (e # es) = ev_size e + member_bytes es"
  "member_bytes (xs @ ys) = member_bytes xs + member_bytes ys"
  "own_sizes p [] = []" "own_sizes p (e # es) = ev_own p e @ own_sizes p es"
  "own_sizes p (xs @ ys) = own_sizes p xs @ own_sizes p ys"
  by (simp_all add: member_chains_def member_bytes_def own_sizes_def)

definition counts_own :: "chain \<Rightarrow> event list \<Rightarrow> int \<Rightarrow> int \<Rightarrow> bool" where
  "counts_own p evs m b \<longleftrightarrow> m = int (length (own_sizes p evs)) \<and> b = sum_list (own_sizes p evs)"

inductive container_log :: "int \<Rightarrow> chain \<Rightarrow> int \<Rightarrow> event list \<Rightarrow> bool" for cap where
  log_start: "container_log cap p d []"
| log_refused: "container_log cap p d evs \<Longrightarrow> why \<in> set REFUSAL_REASONS \<Longrightarrow>
    container_log cap p d (evs @ [Ev_Refused (p @ [x]) why])"
| log_member: "container_log cap p d evs \<Longrightarrow> p @ [x] \<notin> set (member_chains evs) \<Longrightarrow> k \<noteq> Archive \<Longrightarrow>
    container_log cap p d (evs @ [Ev_Member (p @ [x]) sha n k tri d])"
| log_nested: "container_log cap p d evs \<Longrightarrow> p @ [x] \<notin> set (member_chains evs) \<Longrightarrow>
    container_log cap (p @ [x]) (d + 1) child \<Longrightarrow> child = [] \<or> d + 1 \<le> cap \<Longrightarrow> result_valid res \<Longrightarrow>
    counts_own (p @ [x]) child (res_members res) (res_bytes res) \<Longrightarrow>
    container_log cap p d (evs @ Ev_Member (p @ [x]) sha n Archive tri d # Ev_Nested (p @ [x]) sha n #
      child @ [Ev_Result (p @ [x]) res])"

inductive_cases container_log_snocE: "container_log cap p d (evs @ [e])"

lemma log_chain_prefix:
  "container_log cap p d evs \<Longrightarrow> c \<in> set (member_chains evs) \<Longrightarrow>
   \<exists>x r. c = p @ x # r \<and> p @ [x] \<in> set (member_chains evs)"
proof (induction arbitrary: c rule: container_log.induct)
  case (log_nested p d evs x child res sha n tri)
  from log_nested.prems consider "c \<in> set (member_chains evs)" | "c = p @ [x]"
    | "c \<in> set (member_chains child)" by auto
  then show ?case
  proof cases
    case 1
    with log_nested.IH(1) obtain y r where "c = p @ y # r" "p @ [y] \<in> set (member_chains evs)"
      by blast
    then show ?thesis by (intro exI [of _ y] exI [of _ r]) simp
  next
    case 2
    then show ?thesis by auto
  next
    case 3
    with log_nested.IH(2) obtain y r where "c = (p @ [x]) @ y # r" by blast
    then show ?thesis by (intro exI [of _ x] exI [of _ "y # r"]) simp
  qed
next
  case (log_member p d evs x k sha n tri)
  show ?case
  proof (cases "c = p @ [x]")
    case True
    then show ?thesis by (intro exI [of _ x] exI [of _ "[]"]) simp
  next
    case False
    with log_member.prems log_member.IH [of c] obtain y r where "c = p @ y # r"
      "p @ [y] \<in> set (member_chains evs)" by auto
    then show ?thesis by (intro exI [of _ y] exI [of _ r]) simp
  qed
qed auto

lemma log_distinct: "container_log cap p d evs \<Longrightarrow> distinct (member_chains evs)"
proof (induction rule: container_log.induct)
  case (log_nested p d evs x child res sha n tri)
  have "c \<notin> set (member_chains child)" if mem: "c \<in> set (member_chains evs)" for c
  proof
    assume "c \<in> set (member_chains child)"
    then obtain y r where "c = p @ x # y # r"
      using log_chain_prefix [OF log_nested.hyps(3)] by fastforce
    moreover obtain z q where "c = p @ z # q" "p @ [z] \<in> set (member_chains evs)"
      using log_chain_prefix [OF log_nested.hyps(1) mem] by blast
    ultimately show False using log_nested.hyps(2) by simp
  qed
  moreover have "p @ [x] \<notin> set (member_chains child)"
    using log_chain_prefix [OF log_nested.hyps(3)] by fastforce
  ultimately show ?case using log_nested by auto
qed auto

lemma log_depth: "container_log cap p d evs \<Longrightarrow> d \<le> cap \<Longrightarrow> \<forall>e \<in> set evs. ev_depth_ok cap e"
proof (induction rule: container_log.induct)
  case (log_nested p d evs x child res sha n tri)
  then show ?case by (cases "child = []") auto
qed auto

lemma log_child_own:
  assumes "container_log cap (p @ [x]) d evs"
  shows "own_sizes p evs = []"
proof -
  have "\<And>c. c \<in> set (member_chains evs) \<Longrightarrow> length c \<noteq> Suc (length p)"
    using log_chain_prefix [OF assms] by fastforce
  moreover have "own_sizes p evs = []" if "\<forall>c \<in> set (member_chains es). length c \<noteq> Suc (length p)"
    "es = evs" for es
    using that
  proof (induction es arbitrary: evs)
    case Nil
    then show ?case by simp
  next
    case (Cons e es)
    then show ?case by (cases e) auto
  qed
  ultimately show ?thesis by blast
qed

text \<open>Which fatal reason the results in a log carry: none, or only the one given.\<close>

fun ev_fatal_ok :: "string option \<Rightarrow> event \<Rightarrow> bool" where
  "ev_fatal_ok f (Ev_Result _ r) \<longleftrightarrow>
     (case res_reason r of None \<Rightarrow> True | Some w \<Rightarrow> w \<in> set FATAL_REASONS \<longrightarrow> f = Some w)"
| "ev_fatal_ok f _ \<longleftrightarrow> True"

definition fatal_ok :: "string option \<Rightarrow> event list \<Rightarrow> bool" where
  "fatal_ok f evs \<longleftrightarrow> (\<forall>e \<in> set evs. ev_fatal_ok f e)"

lemma fatal_ok_simps [simp]:
  "fatal_ok f []" "fatal_ok f (e # es) \<longleftrightarrow> ev_fatal_ok f e \<and> fatal_ok f es"
  "fatal_ok f (xs @ ys) \<longleftrightarrow> fatal_ok f xs \<and> fatal_ok f ys"
  by (auto simp: fatal_ok_def)

lemma fatal_ok_None: "fatal_ok None evs \<Longrightarrow> fatal_ok f evs"
proof -
  have "ev_fatal_ok None e \<Longrightarrow> ev_fatal_ok f e" for e
    by (cases e) (auto split: option.splits)
  then show "fatal_ok None evs \<Longrightarrow> fatal_ok f evs" by (simp add: fatal_ok_def)
qed

subsection \<open>Chain names\<close>

lemma safe_split: "is_v2_relative_safe rel \<Longrightarrow> [] \<notin> set (split_on (CHR ''/'') rel)"
  by (auto simp: is_v2_relative_safe_def split: if_splits)

lemma split_on_double:
  "CHR ''/'' \<notin> set w \<Longrightarrow> split_on (CHR ''/'') (a @ ''//'' @ w) = split_on (CHR ''/'') a @ [[], w]"
  using split_on_app [of "CHR ''/''" a "CHR ''/'' # w"] by (simp add: split_on_single)

lemma chain_name_split:
  "split_on (CHR ''/'') (chain_name norm k) =
     split_on (CHR ''/'') norm @ (if k = 0 then [] else [[], ''dup'' @ nat_str k])"
proof (cases "k = 0")
  case True
  then show ?thesis by (simp add: chain_name_def)
next
  case False
  have "CHR ''/'' \<notin> set (''dup'' @ nat_str k)"
    using nat_str_digits [of "CHR ''/''" k] by (auto simp: is_digit_def)
  from split_on_double [OF this, of norm] False show ?thesis by (simp add: chain_name_def)
qed

lemma chain_name_inject:
  assumes "is_v2_relative_safe a" and "is_v2_relative_safe b"
    and "chain_name a j = chain_name b k"
  shows "a = b \<and> j = k"
proof -
  let ?s = "split_on (CHR ''/'')"
  from assms(3) have eq: "?s (chain_name a j) = ?s (chain_name b k)" by simp
  note empty = safe_split [OF assms(1)] safe_split [OF assms(2)]
  have zero: "[] \<in> set (?s (chain_name c i)) \<longleftrightarrow> i \<noteq> 0" if "[] \<notin> set (?s c)" for c i
    using that by (simp add: chain_name_split)
  from zero [OF empty(1), of j] zero [OF empty(2), of k] eq have "(j = 0) = (k = 0)" by (simp only: not_False_eq_True) blast
  with eq have "?s a = ?s b \<and> j = k" by (cases "j = 0") (simp_all add: chain_name_split)
  then show ?thesis by (metis join_split_on)
qed

end
