(* ===== verification/EngineSafe.thy ===== *)
theory EngineSafe
  imports EngineLog
begin

text \<open>
  The invariant of the engine and its proof through every reader. A \<open>frame\<close> names what a container
  run started from: the state at entry, its prefix and depth, what the 7zz reader holds, and the
  library whose own exceptions may still be under way (\<open>f_raw\<close>, empty outside the readers). Between
  two members the state satisfies \<open>Idle\<close>, while one is being read \<open>Open\<close>; an exception leaves
  \<open>FaultO\<close> before and \<open>Fault\<close> after the writer is dropped. The contract of opening a container,
  \<open>opener_ok\<close>, is the locale \<open>nested_opener\<close> the readers are verified in; every level of the
  recursion provides it.
\<close>

named_theorems engine_rules "triples of the engine operations"

record frame =
  f_start :: eng
  f_prefix :: chain
  f_depth :: int
  f_dirs :: int
  f_reserved :: int
  f_handled :: "counter option"
  f_hint :: string
  f_raw :: string

definition fresh :: "frame \<Rightarrow> eng \<Rightarrow> event list" where
  "fresh f s = drop (length (events (f_start f))) (events s)"

definition budget_kept :: "caps \<Rightarrow> int \<Rightarrow> budget \<Rightarrow> budget \<Rightarrow> bool" where
  "budget_kept caps d b0 b \<longleftrightarrow> top_compressed b = top_compressed b0 \<and> d \<le> max_depth b \<and>
     max_depth b0 \<le> max_depth b \<and> max_depth b \<le> max (max_depth b0) (max d (cap_depth caps))"

definition spool_kept :: "frame \<Rightarrow> eng \<Rightarrow> bool" where
  "spool_kept f s \<longleftrightarrow> 0 \<le> live_spool (bud (f_start f)) \<and> 0 \<le> f_reserved f \<and> 0 \<le> w_spooled (wr s) \<and>
     live_spool (bud s) = live_spool (bud (f_start f)) + w_spooled (wr s) + f_reserved f \<and>
     scratch_entries s = scratch_entries (f_start f) + (if w_spool_path (wr s) \<noteq> None then 1 else 0) + f_dirs f \<and>
     (w_spool_path (wr s) = None \<longrightarrow> w_spooled (wr s) = 0) \<and> (w_open (wr s) \<longrightarrow> w_spool_path (wr s) \<noteq> None)"

definition named :: "frame \<Rightarrow> eng \<Rightarrow> bool" where
  "named f s \<longleftrightarrow> (\<forall>x. f_prefix f @ [x] \<in> set (member_chains (fresh f s)) \<longrightarrow>
     (\<exists>norm k. x = chain_name norm k \<and> is_v2_relative_safe norm \<and>
        k < dict_get (c_seen (con s)) norm 0 + dict_get (c_handled (con s)) norm 0))"

definition logged :: "env \<Rightarrow> frame \<Rightarrow> eng \<Rightarrow> bool" where
  "logged env f s \<longleftrightarrow> events s = events (f_start f) @ fresh f s \<and>
     container_log (cap_depth (e_caps env)) (f_prefix f) (f_depth f) (fresh f s) \<and>
     counts_own (f_prefix f) (fresh f s) (c_members (con s)) (c_bytes_hashed (con s))"

definition core :: "env \<Rightarrow> frame \<Rightarrow> eng \<Rightarrow> bool" where
  "core env f s \<longleftrightarrow> c_prefix (con s) = f_prefix f \<and> c_depth (con s) = f_depth f \<and>
     c_tempdirs (con s) = f_dirs f \<and> c_reserved (con s) = f_reserved f \<and>
     (f_handled f = None \<or> f_handled f = Some (c_handled (con s))) \<and> c_name_hint (con s) = f_hint f \<and>
     budget_kept (e_caps env) (f_depth f) (bud (f_start f)) (bud s) \<and>
     spool_kept f s \<and> logged env f s \<and> named f s \<and>
     tree_bytes (bud (f_start f)) + member_bytes (fresh f s) \<le> tree_bytes (bud s)"

definition bounded :: "env \<Rightarrow> budget \<Rightarrow> bool" where
  "bounded env b \<longleftrightarrow> tree_bytes b \<le> max 0 (tree_bound (e_caps env) b)"

definition sane :: "env \<Rightarrow> frame \<Rightarrow> eng \<Rightarrow> bool" where
  "sane env f s \<longleftrightarrow> fatal s = None \<and> bounded env (bud s) \<and> fatal_ok None (fresh f s)"

text \<open>The scratch file of a writer whose kind is decided: \<open>b\<close> is what it holds, if it exists; it exists
  for an archive that will be opened unless the scratch budget ran out.\<close>

definition spool_ok :: "env \<Rightarrow> frame \<Rightarrow> string \<Rightarrow> writer \<Rightarrow> bool" where
  "spool_ok env f b w \<longleftrightarrow>
     (w_kind w \<noteq> Some Archive \<or> w_existing w \<noteq> None \<longrightarrow> w_spool_path w = None) \<and>
     (w_kind w = Some Archive \<and> w_existing w = None \<and> f_depth f + 1 \<le> cap_depth (e_caps env) \<and>
        w_spool_failed w = None \<longrightarrow> w_spool_path w = Some b) \<and>
     (w_spool_path w \<noteq> None \<longrightarrow> w_open w \<and> w_spool_failed w = None \<and> w_spool_path w = Some b) \<and>
     (w_open w \<longrightarrow> w_spool_path w \<noteq> None) \<and>
     (case w_spool_failed w of None \<Rightarrow> True | Some why \<Rightarrow> why = ''spool_exceeded'')"

text \<open>The writer follows the bytes it was fed; in the course of a \<open>feed\<close> its size is \<open>n\<close> bytes ahead
  of the data and \<open>k\<close> bytes ahead of the budget.\<close>

definition tracks :: "env \<Rightarrow> frame \<Rightarrow> writer \<Rightarrow> bool" where
  "tracks env f w \<longleftrightarrow> (let b = w_bytes w in w_head w = take MAGIC_BYTES b \<and>
     (case w_kind w of
        None \<Rightarrow> length b < MAGIC_BYTES \<and> w_spool_path w = None \<and> w_spool_failed w = None
      | Some kind \<Rightarrow> MAGIC_BYTES \<le> length b \<and> kind = classify (w_norm w) (take MAGIC_BYTES b) \<and>
          spool_ok env f b w))"

definition follows :: "env \<Rightarrow> frame \<Rightarrow> int \<Rightarrow> int \<Rightarrow> eng \<Rightarrow> bool" where
  "follows env f n k s \<longleftrightarrow> (let w = wr s in
     tracks env f w \<and> is_v2_relative_safe (w_norm w) \<and>
     dict_get (c_handled (con s)) (w_norm w) 0 = 0 \<and> w_size w = int (length (w_bytes w)) + n \<and>
     (case w_existing w of None \<Rightarrow> True | Some (name, content) \<Rightarrow> content \<noteq> None) \<and>
     tree_bytes (bud (f_start f)) + member_bytes (fresh f s) + w_size w \<le> tree_bytes (bud s) + k)"

definition Idle :: "env \<Rightarrow> frame \<Rightarrow> eng \<Rightarrow> bool" where
  "Idle env f s \<longleftrightarrow> core env f s \<and> sane env f s \<and> w_spool_path (wr s) = None \<and> w_spooled (wr s) = 0"

definition Open :: "env \<Rightarrow> frame \<Rightarrow> int \<Rightarrow> int \<Rightarrow> eng \<Rightarrow> bool" where
  "Open env f n k s \<longleftrightarrow> core env f s \<and> sane env f s \<and> follows env f n k s"

definition fault :: "env \<Rightarrow> frame \<Rightarrow> engine_exn \<Rightarrow> eng \<Rightarrow> bool" where
  "fault env f e s \<longleftrightarrow> (case e of
       Fatal w \<Rightarrow> w \<in> set FATAL_REASONS \<and> (fatal s = None \<or> fatal s = Some w) \<and>
         fatal_ok (Some w) (fresh f s)
     | Local w \<Rightarrow> local_reason w \<and> sane env f s
     | Memory_Error \<Rightarrow> sane env f s
     | Libarchive_Error _ \<Rightarrow> f_raw f = ''libarchive'' \<and> sane env f s
     | Stream_Error \<Rightarrow> f_raw f = ''stream'' \<and> sane env f s
     | _ \<Rightarrow> False)"

definition FaultO :: "env \<Rightarrow> frame \<Rightarrow> engine_exn \<Rightarrow> eng \<Rightarrow> bool" where
  "FaultO env f e s \<longleftrightarrow> core env f s \<and> fault env f e s"

definition Fault :: "env \<Rightarrow> frame \<Rightarrow> engine_exn \<Rightarrow> eng \<Rightarrow> bool" where
  "Fault env f e s \<longleftrightarrow> core env f s \<and> fault env f e s \<and> w_spool_path (wr s) = None \<and> w_spooled (wr s) = 0"

lemma Fault_FaultO: "Fault env f e s \<Longrightarrow> FaultO env f e s"
  by (simp add: Fault_def FaultO_def)

lemma Idle_Fault:
  "Idle env f s \<Longrightarrow> local_reason w \<Longrightarrow> Fault env f (Local w) s"
  "Idle env f s \<Longrightarrow> w \<in> set FATAL_REASONS \<Longrightarrow> Fault env f (Fatal w) s"
  "Idle env f s \<Longrightarrow> Fault env f Memory_Error s"
  "Idle env f s \<Longrightarrow> f_raw f = ''libarchive'' \<Longrightarrow> Fault env f (Libarchive_Error m) s"
  "Idle env f s \<Longrightarrow> f_raw f = ''stream'' \<Longrightarrow> Fault env f Stream_Error s"
  by (simp_all add: Idle_def Fault_def fault_def sane_def fatal_ok_None)

lemma Open_FaultO:
  "Open env f n k s \<Longrightarrow> local_reason w \<Longrightarrow> FaultO env f (Local w) s"
  "Open env f n k s \<Longrightarrow> w \<in> set FATAL_REASONS \<Longrightarrow> FaultO env f (Fatal w) s"
  "Open env f n k s \<Longrightarrow> FaultO env f Memory_Error s"
  "Open env f n k s \<Longrightarrow> f_raw f = ''libarchive'' \<Longrightarrow> FaultO env f (Libarchive_Error m) s"
  "Open env f n k s \<Longrightarrow> f_raw f = ''stream'' \<Longrightarrow> FaultO env f Stream_Error s"
  by (simp_all add: Open_def FaultO_def fault_def sane_def fatal_ok_None)

lemma fatal_reason_simps [simp]:
  "''timeout'' \<in> set FATAL_REASONS" "''total_too_large'' \<in> set FATAL_REASONS"
  "''ratio_exceeded'' \<in> set FATAL_REASONS"
  by (simp_all add: FATAL_REASONS_def)

subsection \<open>Checks of the budget\<close>

lemmas engine_state = core_def budget_kept_def spool_kept_def named_def logged_def sane_def
  bounded_def follows_def fresh_def tree_bound_def

lemma readings_simps [simp]:
  "core env f (s\<lparr>bud := (bud s)\<lparr>readings := n\<rparr>\<rparr>) = core env f s"
  "sane env f (s\<lparr>bud := (bud s)\<lparr>readings := n\<rparr>\<rparr>) = sane env f s"
  "follows env f i j (s\<lparr>bud := (bud s)\<lparr>readings := n\<rparr>\<rparr>) = follows env f i j s"
  by (simp_all add: engine_state)

lemma readings_phase [simp]:
  "Idle env f (s\<lparr>bud := (bud s)\<lparr>readings := n\<rparr>\<rparr>) = Idle env f s"
  "Open env f i j (s\<lparr>bud := (bud s)\<lparr>readings := n\<rparr>\<rparr>) = Open env f i j s"
  by (simp_all add: Idle_def Open_def)

lemma check_time_idle [engine_rules]:
  "triple (Idle env f) (on_budget (check_time caps clock)) (\<lambda>_. Idle env f) (Fault env f)"
  by (auto simp: triple_def on_budget_def check_time_run intro: Idle_Fault)

lemma check_time_open [engine_rules]:
  "triple (Open env f i j) (on_budget (check_time caps clock)) (\<lambda>_. Open env f i j) (FaultO env f)"
  by (auto simp: triple_def on_budget_def check_time_run intro: Open_FaultO)

lemma remaining_idle [engine_rules]:
  "triple (Idle env f) (on_budget (remaining_seconds caps clock)) (\<lambda>_. Idle env f) (Fault env f)"
  by (auto simp: triple_def on_budget_def remaining_seconds_def read_clock_def act_bind_def
      act_seq_def act_run)

lemma check_member_cases:
  "check_member caps n c b \<in> {(Inr (), b), (Inl (Local ''member_too_large''), b),
     (Inl (Fatal ''ratio_exceeded''), b)}"
  by (simp add: check_member_def act_run split: option.split)

lemma check_container_cases:
  "check_container caps n c b \<in> {(Inr (), b), (Inl (Fatal ''ratio_exceeded''), b)}"
  by (simp add: check_container_def act_run)

text \<open>A check that changes nothing and fails with the reason of a failure of this container.\<close>

lemma budget_check_idle:
  assumes "\<And>b. m b \<in> {(Inr (), b), (Inl (Local ''member_too_large''), b), (Inl (Fatal ''ratio_exceeded''), b)}"
  shows "triple (Idle env f) (on_budget m) (\<lambda>_. Idle env f) (Fault env f)"
  unfolding triple_def on_budget_def
proof (intro allI impI)
  fix s assume "Idle env f s"
  with assms [of "bud s"] show "case case m (bud s) of (r, b) \<Rightarrow> (r, s\<lparr>bud := b\<rparr>) of
      (Inl e, t) \<Rightarrow> Fault env f e t | (Inr v, t) \<Rightarrow> Idle env f t"
    by (auto simp: Idle_Fault)
qed

lemma budget_check_open:
  assumes "\<And>b. m b \<in> {(Inr (), b), (Inl (Local ''member_too_large''), b), (Inl (Fatal ''ratio_exceeded''), b)}"
  shows "triple (Open env f n k) (on_budget m) (\<lambda>_. Open env f n k) (FaultO env f)"
  unfolding triple_def on_budget_def
proof (intro allI impI)
  fix s assume "Open env f n k s"
  with assms [of "bud s"] show "case case m (bud s) of (r, b) \<Rightarrow> (r, s\<lparr>bud := b\<rparr>) of
      (Inl e, t) \<Rightarrow> FaultO env f e t | (Inr v, t) \<Rightarrow> Open env f n k t"
    by (auto simp: Open_FaultO)
qed

lemma check_idle [engine_rules]:
  "triple (Idle env f) (on_budget (check_member caps n c)) (\<lambda>_. Idle env f) (Fault env f)"
  "triple (Idle env f) (on_budget (check_container caps n k)) (\<lambda>_. Idle env f) (Fault env f)"
  using check_member_cases check_container_cases by (blast intro: budget_check_idle)+

lemma check_open [engine_rules]:
  "triple (Open env f i j) (on_budget (check_member caps n c)) (\<lambda>_. Open env f i j) (FaultO env f)"
  "triple (Open env f i j) (on_budget (check_container caps n k)) (\<lambda>_. Open env f i j) (FaultO env f)"
  using check_member_cases check_container_cases by (blast intro: budget_check_open)+

subsection \<open>The writer\<close>

definition spool_next :: "writer \<Rightarrow> string \<Rightarrow> writer \<Rightarrow> bool" where
  "spool_next w data w' \<longleftrightarrow>
     (if w_open w then
        w_spool_path w' = map_option (\<lambda>c. c @ data) (w_spool_path w) \<and> w_open w' \<and>
          w_spool_failed w' = w_spool_failed w \<or>
        w_spool_path w' = None \<and> \<not> w_open w' \<and> w_spool_failed w' = Some ''spool_exceeded''
      else w' = w)"

definition writer_same :: "writer \<Rightarrow> writer \<Rightarrow> bool" where
  "writer_same w w' \<longleftrightarrow> w_norm w' = w_norm w \<and> w_bytes w' = w_bytes w \<and> w_size w' = w_size w \<and>
     w_head w' = w_head w \<and> w_existing w' = w_existing w \<and> w_stl w' = w_stl w"

definition same_rest :: "eng \<Rightarrow> eng \<Rightarrow> bool" where
  "same_rest s s' \<longleftrightarrow> con s' = con s \<and> events s' = events s \<and> fatal s' = fatal s \<and>
     tree_bytes (bud s') = tree_bytes (bud s) \<and> top_compressed (bud s') = top_compressed (bud s) \<and>
     max_depth (bud s') = max_depth (bud s)"

lemma same_rest_refl [simp]: "same_rest s s"
  by (simp add: same_rest_def)

lemma same_rest_trans: "same_rest s t \<Longrightarrow> same_rest t u \<Longrightarrow> same_rest s u"
  by (simp add: same_rest_def)

text \<open>What the invariant looks at of a container.\<close>

definition con_view :: "container \<Rightarrow> chain \<times> int \<times> int \<times> int \<times> int \<times> int \<times> counter \<times> counter \<times> string" where
  "con_view c = (c_prefix c, c_depth c, c_tempdirs c, c_reserved c, c_members c, c_bytes_hashed c,
     c_seen c, c_handled c, c_name_hint c)"

lemma core_step:
  assumes "core env f s" and "con_view (con s') = con_view (con s)" and "events s' = events s"
    and "top_compressed (bud s') = top_compressed (bud s)" and "max_depth (bud s') = max_depth (bud s)"
    and "tree_bytes (bud s) \<le> tree_bytes (bud s')" and "spool_kept f s'"
  shows "core env f s'"
  using assms by (simp add: con_view_def core_def budget_kept_def logged_def named_def fresh_def)

lemma core_same_rest: "core env f s \<Longrightarrow> same_rest s s' \<Longrightarrow> spool_kept f s' \<Longrightarrow> core env f s'"
  by (rule core_step) (auto simp: same_rest_def)

lemma sane_same_rest: "sane env f s \<Longrightarrow> same_rest s s' \<Longrightarrow> sane env f s'"
  by (simp add: same_rest_def sane_def bounded_def tree_bound_def fresh_def)

lemma drop_spool_rest: "same_rest s (drop_spool s)"
  by (simp add: same_rest_def drop_spool_def release_spool_def Let_def)

lemma drop_spool_kept:
  "spool_kept f s \<Longrightarrow> spool_kept f (drop_spool s)"
  by (simp add: spool_kept_def drop_spool_def release_spool_def Let_def)

lemma drop_spool_writer:
  "wr (drop_spool s) = (wr s)\<lparr>w_open := False, w_spool_path := None, w_spooled := 0\<rparr>"
  by (simp add: drop_spool_def Let_def)

lemma spool_write_props:
  assumes "spool_kept f s"
  shows "same_rest s (spool_write env data s)" and "spool_kept f (spool_write env data s)"
    and "writer_same (wr s) (wr (spool_write env data s))"
    and "spool_next (wr s) data (wr (spool_write env data s))"
    and "w_kind (wr (spool_write env data s)) = w_kind (wr s)"
proof -
  let ?n = "int (length data)"
  have "same_rest s (spool_write env data s) \<and> spool_kept f (spool_write env data s) \<and>
    writer_same (wr s) (wr (spool_write env data s)) \<and>
    spool_next (wr s) data (wr (spool_write env data s)) \<and>
    w_kind (wr (spool_write env data s)) = w_kind (wr s)"
  proof (cases "w_open (wr s)")
    case False
    with assms show ?thesis
      by (simp add: spool_write_def writer_same_def spool_next_def)
  next
    case True
    show ?thesis
    proof (cases "live_spool (bud s) + ?n > cap_spool_bytes (e_caps env)")
      case fails: True
      let ?t = "s\<lparr>wr := (wr s)\<lparr>w_spool_failed := Some ''spool_exceeded''\<rparr>\<rparr>"
      have run: "spool_write env data s = drop_spool ?t"
        using fails True by (simp add: spool_write_def reserve_spool_def Let_def)
      have "spool_kept f ?t" using assms by (simp add: spool_kept_def)
      with drop_spool_kept have "spool_kept f (drop_spool ?t)" by blast
      moreover have "same_rest s (drop_spool ?t)"
        by (rule same_rest_trans [OF _ drop_spool_rest]) (simp add: same_rest_def)
      ultimately show ?thesis unfolding run
        using True by (simp add: drop_spool_writer writer_same_def spool_next_def)
    next
      case False
      then show ?thesis using assms True
        by (auto simp: spool_write_def reserve_spool_def Let_def same_rest_def spool_kept_def
            writer_same_def spool_next_def)
    qed
  qed
  then show "same_rest s (spool_write env data s)" "spool_kept f (spool_write env data s)"
    "writer_same (wr s) (wr (spool_write env data s))"
    "spool_next (wr s) data (wr (spool_write env data s))"
    "w_kind (wr (spool_write env data s)) = w_kind (wr s)" by blast+
qed

text \<open>When the kind is decided, an archive that will be opened starts its spool with the head.\<close>

definition spools :: "env \<Rightarrow> int \<Rightarrow> writer \<Rightarrow> bool" where
  "spools env d w \<longleftrightarrow> classify (w_norm w) (w_head w) = Archive \<and> w_existing w = None \<and>
     d + 1 \<le> cap_depth (e_caps env)"

lemma decide_props:
  assumes "spool_kept f s" and "w_spool_path (wr s) = None" and "c_depth (con s) = d"
  shows "same_rest s (decide env s)" and "spool_kept f (decide env s)"
    and "writer_same (wr s) (wr (decide env s))"
    and "w_kind (wr (decide env s)) = Some (classify (w_norm (wr s)) (w_head (wr s)))"
    and "if spools env d (wr s) then
        spool_next ((wr s)\<lparr>w_spool_path := Some [], w_open := True\<rparr>) (w_head (wr s)) (wr (decide env s))
      else w_spool_path (wr (decide env s)) = None \<and> w_open (wr (decide env s)) = w_open (wr s) \<and>
        w_spool_failed (wr (decide env s)) = w_spool_failed (wr s)"
proof -
  let ?k = "classify (w_norm (wr s)) (w_head (wr s))"
  let ?t = "s\<lparr>scratch_entries := scratch_entries s + 1,
    wr := (wr s)\<lparr>w_kind := Some ?k, w_spool_path := Some [], w_open := True\<rparr>\<rparr>"
  let ?spooled = "if spools env d (wr s) then
        spool_next ((wr s)\<lparr>w_spool_path := Some [], w_open := True\<rparr>) (w_head (wr s)) (wr (decide env s))
      else w_spool_path (wr (decide env s)) = None \<and> w_open (wr (decide env s)) = w_open (wr s) \<and>
        w_spool_failed (wr (decide env s)) = w_spool_failed (wr s)"
  have "same_rest s (decide env s) \<and> spool_kept f (decide env s) \<and>
    writer_same (wr s) (wr (decide env s)) \<and> w_kind (wr (decide env s)) = Some ?k \<and> ?spooled"
  proof (cases "spools env d (wr s)")
    case True
    then have run: "decide env s = spool_write env (w_head (wr s)) ?t"
      using assms(3) by (simp add: decide_def spools_def Let_def)
    have kept: "spool_kept f ?t" using assms(1,2) by (simp add: spool_kept_def)
    have "same_rest s ?t" by (simp add: same_rest_def)
    with spool_write_props [OF kept, where env = env and data = "w_head (wr s)"] True
    show ?thesis
      unfolding run by (auto simp: writer_same_def spool_next_def intro: same_rest_trans)
  next
    case False
    then have run: "decide env s = s\<lparr>wr := (wr s)\<lparr>w_kind := Some ?k\<rparr>\<rparr>"
      using assms(3) by (auto simp: decide_def spools_def Let_def)
    show ?thesis
      unfolding run using assms False by (simp add: same_rest_def spool_kept_def writer_same_def)
  qed
  then show "same_rest s (decide env s)" and "spool_kept f (decide env s)"
    and "writer_same (wr s) (wr (decide env s))" and "w_kind (wr (decide env s)) = Some ?k"
    and ?spooled by blast+
qed

lemma spool_ok_size [simp]:
  "spool_ok env f b (w\<lparr>w_size := n\<rparr>) = spool_ok env f b w"
  "spool_ok env f b (w\<lparr>w_bytes := d, w_stl := c\<rparr>) = spool_ok env f b w"
  by (simp_all add: spool_ok_def)

lemma spool_ok_archive:
  assumes "spool_ok env f b w" and "w_kind w = Some Archive"
  shows "w_existing w = None \<and> f_depth f + 1 \<le> cap_depth (e_caps env) \<and> w_spool_failed w = None \<longrightarrow>
      w_spool_path w \<noteq> None"
    and "case w_spool_failed w of None \<Rightarrow> True | Some why \<Rightarrow> why = ''spool_exceeded''"
  using assms unfolding spool_ok_def by blast+

lemma spool_ok_next:
  assumes "spool_ok env f b w" and "writer_same w w'" and "w_kind w' = w_kind w"
    and "spool_next w data w'"
  shows "spool_ok env f (b @ data) w'"
  using assms unfolding spool_ok_def writer_same_def spool_next_def
  by (cases "w_open w") auto

lemma spool_write_ok:
  assumes "spool_kept f s" and "spool_ok env f b (wr s)"
  shows "spool_ok env f (b @ data) (wr (spool_write env data s))"
  using spool_ok_next [OF assms(2)] spool_write_props [OF assms(1)] by blast

lemma decide_ok:
  assumes "spool_kept f s" and "w_spool_path (wr s) = None" and "w_spool_failed (wr s) = None"
    and "c_depth (con s) = f_depth f"
  shows "spool_ok env f (w_head (wr s)) (wr (decide env s))"
proof -
  note d = decide_props [OF assms(1,2,4), of env]
  have closed: "\<not> w_open (wr s)" using assms(1,2) by (auto simp: spool_kept_def)
  show ?thesis
  proof (cases "spools env (f_depth f) (wr s)")
    case True
    let ?w = "(wr s)\<lparr>w_kind := Some Archive, w_spool_path := Some [], w_open := True\<rparr>"
    have "spool_ok env f [] ?w" using True assms(3) by (simp add: spool_ok_def spools_def)
    moreover have "writer_same ?w (wr (decide env s))" using d(3) by (simp add: writer_same_def)
    moreover have "w_kind (wr (decide env s)) = w_kind ?w" using d(4) True by (simp add: spools_def)
    moreover have "spool_next ?w (w_head (wr s)) (wr (decide env s))"
      using d(5) True by (simp add: spool_next_def)
    ultimately have "spool_ok env f ([] @ w_head (wr s)) (wr (decide env s))"
      by (rule spool_ok_next)
    then show ?thesis by simp
  next
    case False
    with d(3,4,5) closed assms(3) show ?thesis by (auto simp: spool_ok_def spools_def writer_same_def)
  qed
qed

lemma feed_data_rest:
  assumes "spool_kept f s" and "c_depth (con s) = f_depth f" and "w_kind (wr s) = None \<longrightarrow> w_spool_path (wr s) = None"
  shows "same_rest s (feed_data env data s)" and "spool_kept f (feed_data env data s)"
proof -
  let ?w = "(wr s)\<lparr>w_bytes := w_bytes (wr s) @ data, w_stl := map_option (stl_feed data) (w_stl (wr s))\<rparr>"
  let ?h = "w_head (wr s) @ take (MAGIC_BYTES - length (w_head (wr s))) data"
  have "same_rest s (feed_data env data s) \<and> spool_kept f (feed_data env data s)"
  proof (cases "w_kind (wr s)")
    case None
    let ?t = "s\<lparr>wr := ?w\<lparr>w_head := ?h\<rparr>\<rparr>"
    have t: "same_rest s ?t" "spool_kept f ?t" "w_spool_path (wr ?t) = None" "c_depth (con ?t) = f_depth f"
      using assms None by (simp_all add: same_rest_def spool_kept_def)
    note d = decide_props(1,2) [OF t(2-4), of env]
    note w = spool_write_props(1,2) [OF d(2), where env = env]
    have "same_rest s (decide env ?t)" by (rule same_rest_trans [OF t(1) d(1)])
    with t d w None show ?thesis
      by (auto simp: feed_data_def Let_def intro: same_rest_trans)
  next
    case (Some k)
    let ?t = "s\<lparr>wr := ?w\<rparr>"
    have t: "same_rest s ?t" "spool_kept f ?t" using assms by (simp_all add: same_rest_def spool_kept_def)
    note w = spool_write_props(1,2) [OF t(2), where env = env and data = data]
    have "same_rest s (spool_write env data ?t)" by (rule same_rest_trans [OF t(1) w(1)])
    with w Some show ?thesis by (simp add: feed_data_def Let_def)
  qed
  then show "same_rest s (feed_data env data s)" "spool_kept f (feed_data env data s)" by blast+
qed

lemma feed_data_tracks:
  assumes "spool_kept f s" and "c_depth (con s) = f_depth f" and "tracks env f (wr s)"
  shows "tracks env f (wr (feed_data env data s)) \<and>
    w_bytes (wr (feed_data env data s)) = w_bytes (wr s) @ data \<and>
    w_norm (wr (feed_data env data s)) = w_norm (wr s) \<and>
    w_size (wr (feed_data env data s)) = w_size (wr s) \<and>
    w_existing (wr (feed_data env data s)) = w_existing (wr s)"
proof -
  let ?w = "(wr s)\<lparr>w_bytes := w_bytes (wr s) @ data, w_stl := map_option (stl_feed data) (w_stl (wr s))\<rparr>"
  let ?b = "w_bytes (wr s)"
  show ?thesis
  proof (cases "w_kind (wr s)")
    case None
    let ?need = "MAGIC_BYTES - length (w_head (wr s))"
    let ?t = "s\<lparr>wr := ?w\<lparr>w_head := w_head (wr s) @ take ?need data\<rparr>\<rparr>"
    from assms(3) None have b: "length ?b < MAGIC_BYTES" "w_head (wr s) = ?b"
      "w_spool_path (wr s) = None" "w_spool_failed (wr s) = None"
      by (auto simp: tracks_def Let_def)
    then have head: "w_head (wr ?t) = take MAGIC_BYTES (?b @ data)" by simp
    have t: "spool_kept f ?t" "w_spool_path (wr ?t) = None" "w_spool_failed (wr ?t) = None"
        "c_depth (con ?t) = f_depth f"
      using assms b by (simp_all add: spool_kept_def)
    show ?thesis
    proof (cases "length (w_head (wr ?t)) \<ge> MAGIC_BYTES")
      case False
      then have "feed_data env data s = ?t" using None by (simp add: feed_data_def Let_def)
      moreover have "length (?b @ data) < MAGIC_BYTES" using False b
        by (auto simp: min_def split: if_splits)
      ultimately show ?thesis using b head None by (simp add: tracks_def Let_def)
    next
      case True
      let ?d = "decide env ?t"
      let ?r = "if length data > ?need then spool_write env (drop ?need data) ?d else ?d"
      have run: "feed_data env data s = ?r" using True None by (simp add: feed_data_def Let_def)
      note d = decide_props [OF t(1,2,4), of env]
      have kept: "spool_kept f ?d" by (rule d(2))
      have ok: "spool_ok env f (w_head (wr ?t)) (wr ?d)" by (rule decide_ok [OF t])
      have "spool_ok env f (?b @ data) (wr ?r)"
      proof (cases "length data > ?need")
        case True
        have "w_head (wr ?t) @ drop ?need data = ?b @ data" using b by simp
        with spool_write_ok [OF kept ok, of "drop ?need data"] True show ?thesis by simp
      next
        case False
        with b ok show ?thesis by simp
      qed
      moreover have "writer_same (wr ?t) (wr ?r)" and "w_kind (wr ?r) = w_kind (wr ?d)"
        using d(3) spool_write_props(3,5) [OF kept, where env = env and data = "drop ?need data"]
        by (auto simp: writer_same_def)
      moreover have "MAGIC_BYTES \<le> length (?b @ data)" using True b
        by (auto simp: min_def split: if_splits)
      ultimately show ?thesis unfolding run using d(4) head
        by (simp add: tracks_def writer_same_def Let_def)
    qed
  next
    case (Some k)
    let ?t = "s\<lparr>wr := ?w\<rparr>"
    have t: "spool_kept f ?t" using assms by (simp add: spool_kept_def)
    have run: "feed_data env data s = spool_write env data ?t"
      using Some by (simp add: feed_data_def Let_def)
    note w = spool_write_props [OF t, where env = env and data = data]
    have "spool_ok env f ?b (wr s)" using assms(3) Some by (simp add: tracks_def Let_def)
    then have "spool_ok env f ?b (wr ?t)" by simp
    then have "spool_ok env f (?b @ data) (wr (spool_write env data ?t))" by (rule spool_write_ok [OF t])
    then show ?thesis unfolding run using assms(3) Some w(3,5)
      by (simp add: tracks_def writer_same_def Let_def)
  qed
qed

lemma feed_data_open:
  assumes "Open env f (int (length data)) 0 s"
  shows "Open env f 0 0 (feed_data env data s)"
proof -
  from assms have core: "core env f s" and sane: "sane env f s" and fol: "follows env f (int (length data)) 0 s"
    by (simp_all add: Open_def)
  have kept: "spool_kept f s" and depth: "c_depth (con s) = f_depth f" and tr: "tracks env f (wr s)"
    using core fol by (simp_all add: core_def follows_def Let_def)
  have none: "w_kind (wr s) = None \<longrightarrow> w_spool_path (wr s) = None"
    using tr by (auto simp: tracks_def Let_def)
  note r = feed_data_rest [OF kept depth none, of env data]
  note t = feed_data_tracks [OF kept depth tr, of data]
  have "core env f (feed_data env data s)" "sane env f (feed_data env data s)"
    using core_same_rest [OF core r] sane_same_rest [OF sane r(1)] by simp_all
  moreover have "follows env f 0 0 (feed_data env data s)"
    using fol t r(1) by (simp add: follows_def same_rest_def fresh_def Let_def)
  ultimately show ?thesis by (simp add: Open_def)
qed

lemma core_spool: "core env f s \<Longrightarrow> spool_kept f s"
  by (simp add: core_def)

lemma grow_tree:
  assumes "core env f s" and "sane env f s" and "0 \<le> n"
    and "add_tree_bytes (e_caps env) n (bud s) = (r, b)" and "t = s\<lparr>bud := b\<rparr>"
  shows "core env f t" and "r = Inr () \<Longrightarrow> sane env f t" and "r = Inl e \<Longrightarrow> fault env f e t"
    and "r = Inr () \<or> (\<exists>e. r = Inl e)" and "tree_bytes (bud t) = tree_bytes (bud s) + n"
proof -
  have b: "b = (bud s)\<lparr>tree_bytes := tree_bytes (bud s) + n\<rparr>"
    using assms(4) by (simp add: add_tree_bytes_run)
  show "core env f t"
    by (rule core_step [OF assms(1)]) (use core_spool [OF assms(1)] assms(3,5) b in \<open>simp_all add: spool_kept_def\<close>)
  show "tree_bytes (bud t) = tree_bytes (bud s) + n" using assms(5) b by simp
  show "r = Inr () \<or> (\<exists>e. r = Inl e)" by (cases r) auto
  show "sane env f t" if "r = Inr ()"
  proof -
    have "tree_bytes b \<le> tree_bound (e_caps env) (bud s)"
      using assms(4) that add_tree_bytes_ok [of "e_caps env" n "bud s" b] by auto
    moreover have "tree_bound (e_caps env) b = tree_bound (e_caps env) (bud s)"
      using b by (simp add: tree_bound_def)
    ultimately show ?thesis using assms(2,5)
      by (simp add: sane_def bounded_def fresh_def le_max_iff_disj)
  qed
  show "fault env f e t" if "r = Inl e"
    using assms(2,4,5) b that
    by (auto simp: fault_def sane_def fresh_def fatal_ok_None add_tree_bytes_run split: if_splits)
qed

lemma add_tree_bytes_open:
  assumes "0 \<le> n"
  shows "triple (Open env f n n) (on_budget (add_tree_bytes (e_caps env) n))
     (\<lambda>_. Open env f n 0) (FaultO env f)"
  unfolding triple_def on_budget_def
proof (intro allI impI)
  fix s assume o: "Open env f n n s"
  obtain r b where run: "add_tree_bytes (e_caps env) n (bud s) = (r, b)" by fastforce
  from o have "core env f s" "sane env f s" and fol: "follows env f n n s" by (simp_all add: Open_def)
  note g = grow_tree [OF this(1,2) assms run refl]
  have "follows env f n 0 (s\<lparr>bud := b\<rparr>)"
    using fol g(5) by (simp add: follows_def fresh_def Let_def)
  with g(1-4) show "case case add_tree_bytes (e_caps env) n (bud s) of (r, b) \<Rightarrow> (r, s\<lparr>bud := b\<rparr>) of
      (Inl e, t) \<Rightarrow> FaultO env f e t | (Inr v, t) \<Rightarrow> Open env f n 0 t"
    by (auto simp: run Open_def FaultO_def split: sum.split)
qed

lemma feed_grow:
  "triple (Open env f 0 0) (act_mod (\<lambda>s. s\<lparr>wr := (wr s)\<lparr>w_size := w_size (wr s) + n\<rparr>,
      con := (con s)\<lparr>c_bytes_out := c_bytes_out (con s) + n\<rparr>\<rparr>)) (\<lambda>_. Open env f n n) (FaultO env f)"
proof (rule triple_mod)
  fix s assume o: "Open env f 0 0 s"
  let ?t = "s\<lparr>wr := (wr s)\<lparr>w_size := w_size (wr s) + n\<rparr>,
      con := (con s)\<lparr>c_bytes_out := c_bytes_out (con s) + n\<rparr>\<rparr>"
  from o have core: "core env f s" by (simp add: Open_def)
  have "core env f ?t"
    by (rule core_step [OF core]) (use core_spool [OF core] in \<open>simp_all add: con_view_def spool_kept_def\<close>)
  with o show "Open env f n n ?t"
    by (simp add: Open_def sane_def follows_def tracks_def fresh_def Let_def cong: option.case_cong)
qed

lemma feed_triple [engine_rules]:
  "triple (Open env f 0 0) (feed env data compressed) (\<lambda>_. Open env f 0 0) (FaultO env f)"
proof -
  let ?n = "int (length data)"
  have grown: "triple (Open env f ?n 0)
      (act_bind (act_get (\<lambda>s. w_size (wr s))) (\<lambda>sz. on_budget (check_member (e_caps env) sz compressed)))
      (\<lambda>_. Open env f ?n 0) (FaultO env f)"
    by (rule triple_bind [OF triple_get check_open(1)]) simp
  have cont: "triple (Open env f ?n 0)
      (act_bind (act_get con) (\<lambda>c. on_budget (check_container (e_caps env) (c_bytes_out c) (c_compressed c))))
      (\<lambda>_. Open env f ?n 0) (FaultO env f)"
    by (rule triple_bind [OF triple_get check_open(2)]) simp
  have data: "triple (Open env f ?n 0) (act_mod (feed_data env data)) (\<lambda>_. Open env f 0 0) (FaultO env f)"
    by (rule triple_mod) (rule feed_data_open)
  show ?thesis unfolding feed_def Let_def
    by (rule triple_seq [OF check_time_open triple_seq [OF feed_grow
          triple_seq [OF add_tree_bytes_open triple_seq [OF grown triple_seq [OF cont data]]]]]) simp
qed

lemma abort_fault: "FaultO env f e s \<Longrightarrow> Fault env f e (drop_spool s)"
proof -
  assume a: "FaultO env f e s"
  then have core: "core env f s" and fl: "fault env f e s" by (simp_all add: FaultO_def)
  have "core env f (drop_spool s)"
    using core_same_rest [OF core drop_spool_rest drop_spool_kept] core by (simp add: core_def)
  moreover have "fault env f e (drop_spool s)"
    using fl sane_same_rest [OF _ drop_spool_rest] drop_spool_rest [of s]
    by (auto simp: fault_def same_rest_def fresh_def split: engine_exn.splits)
  ultimately show ?thesis by (simp add: Fault_def drop_spool_writer)
qed

lemma abort_idle: "Open env f n k s \<Longrightarrow> Idle env f (drop_spool s)"
proof -
  assume a: "Open env f n k s"
  then have core: "core env f s" and "sane env f s" by (simp_all add: Open_def)
  moreover have "core env f (drop_spool s)"
    using core_same_rest [OF core drop_spool_rest drop_spool_kept] core by (simp add: core_def)
  ultimately show ?thesis using sane_same_rest [OF _ drop_spool_rest]
    by (simp add: Idle_def drop_spool_writer)
qed

lemma on_error_abort_triple:
  assumes "triple P m Q (FaultO env f)"
  shows "triple P (on_error_abort m) Q (Fault env f)"
  unfolding on_error_abort_def abort_def
  by (rule triple_catch [OF assms], rule triple_seq [where R = "Fault env f _"])
    (auto intro: triple_mod triple_raise abort_fault)

text \<open>A new writer: its name is a checked one that an earlier reader has not already reported.\<close>

definition name_free :: "string \<Rightarrow> eng \<Rightarrow> bool" where
  "name_free norm s \<longleftrightarrow> is_v2_relative_safe norm \<and> dict_get (c_handled (con s)) norm 0 = 0"

lemma new_writer_triple:
  assumes "existing = None \<or> (\<exists>name b. existing = Some (name, Some b))"
  shows "triple (\<lambda>s. Idle env f s \<and> name_free norm s) (new_writer norm existing)
     (\<lambda>_. Open env f 0 0) (Fault env f)"
  unfolding new_writer_def
proof (rule triple_mod, elim conjE)
  fix s assume i: "Idle env f s" and n: "name_free norm s"
  let ?t = "s\<lparr>wr := writer_init norm existing\<rparr>"
  from i have core: "core env f s" and sane: "sane env f s"
    and idle: "w_spool_path (wr s) = None" "w_spooled (wr s) = 0" by (simp_all add: Idle_def)
  have "core env f ?t"
    by (rule core_step [OF core]) (use core_spool [OF core] idle in
        \<open>simp_all add: spool_kept_def writer_init_def\<close>)
  moreover have "follows env f 0 0 ?t"
    using assms n core by (auto simp: follows_def tracks_def writer_init_def name_free_def core_def
        fresh_def MAGIC_BYTES_def Let_def)
  ultimately show "Open env f 0 0 ?t" using sane by (simp add: Open_def sane_def fresh_def)
qed

subsection \<open>The contract of opening a container\<close>

definition env_ok :: "env \<Rightarrow> bool" where
  "env_ok env \<longleftrightarrow> (e_sevenzip env \<longrightarrow> (\<forall>files t rc out err e.
     e_zz_list env files t = Zz_Done rc out err \<and> e \<in> set (parse_slt out) \<longrightarrow>
       (has_value e ''Size'' \<longrightarrow> (\<exists>n \<ge> 0. py_int (dict_get e ''Size'' []) = Some n)) \<and>
       (has_value e ''CRC'' \<longrightarrow> py_int16 (dict_get e ''CRC'' []) \<noteq> None)))"

definition opened :: "env \<Rightarrow> chain \<Rightarrow> int \<Rightarrow> eng \<Rightarrow> event list \<Rightarrow> result \<Rightarrow> eng \<Rightarrow> bool" where
  "opened env pre d s new res t \<longleftrightarrow> con t = con s \<and> wr t = wr s \<and>
     live_spool (bud t) = live_spool (bud s) \<and> scratch_entries t = scratch_entries s \<and>
     events t = events s @ new \<and> container_log (cap_depth (e_caps env)) pre d new \<and>
     result_valid res \<and> counts_own pre new (res_members res) (res_bytes res) \<and>
     top_compressed (bud t) = top_compressed (bud s) \<and> max_depth (bud s) \<le> max_depth (bud t) \<and>
     max_depth (bud t) \<le> max (max_depth (bud s)) (max d (cap_depth (e_caps env))) \<and>
     tree_bytes (bud s) + member_bytes new \<le> tree_bytes (bud t) \<and>
     (case fatal t of
        None \<Rightarrow> bounded env (bud t) \<and> fatal_ok None new \<and> ev_fatal_ok None (Ev_Result pre res)
      | Some w \<Rightarrow> w \<in> set FATAL_REASONS \<and> fatal_ok (Some w) new \<and> res_reason res = Some w)"

definition opener_ok :: "env \<Rightarrow> nat \<Rightarrow> opener \<Rightarrow> bool" where
  "opener_ok env n child \<longleftrightarrow> (\<forall>files pre d compressed hint s.
     env_ok env \<and> files \<noteq> [] \<and> distinct (link_names hint files) \<and>
     nat (cap_depth (e_caps env) - d) < n \<and> fatal s = None \<and> bounded env (bud s) \<and>
     0 \<le> live_spool (bud s) \<longrightarrow>
     (\<exists>res t new. child files pre d compressed hint s = (Inr res, t) \<and> opened env pre d s new res t \<and>
        d \<le> max_depth (bud t)))"

subsection \<open>Finishing a member\<close>

lemma finish_decided:
  assumes "Open env f 0 0 s" and "t = (if w_kind (wr s) = None then decide env s else s)"
  shows "core env f t" and "sane env f t" and "writer_same (wr s) (wr t)"
    and "spool_ok env f (w_bytes (wr t)) (wr t)" and "events t = events s" and "con t = con s"
    and "w_kind (wr t) = Some (classify (w_norm (wr s)) (take MAGIC_BYTES (w_bytes (wr s))))"
    and "tree_bytes (bud (f_start f)) + member_bytes (fresh f s) + w_size (wr t) \<le> tree_bytes (bud t)"
proof -
  from assms(1) have core: "core env f s" and sane: "sane env f s" and fol: "follows env f 0 0 s"
    by (simp_all add: Open_def)
  have all: "core env f t \<and> sane env f t \<and> writer_same (wr s) (wr t) \<and>
      spool_ok env f (w_bytes (wr t)) (wr t) \<and> events t = events s \<and> con t = con s \<and>
      w_kind (wr t) = Some (classify (w_norm (wr s)) (take MAGIC_BYTES (w_bytes (wr s)))) \<and>
      tree_bytes (bud t) = tree_bytes (bud s)"
  proof (cases "w_kind (wr s)")
    case (Some k)
    with assms(2) core sane fol show ?thesis
      by (simp add: follows_def tracks_def writer_same_def Let_def)
  next
    case None
    with fol have w: "w_spool_path (wr s) = None" "w_spool_failed (wr s) = None"
      "w_head (wr s) = w_bytes (wr s)" "length (w_bytes (wr s)) < MAGIC_BYTES"
      by (auto simp: follows_def tracks_def Let_def)
    have c: "c_depth (con s) = f_depth f" using core by (simp add: core_def)
    note d = decide_props [OF core_spool [OF core] w(1) c, of env]
    note ok = decide_ok [OF core_spool [OF core] w(1,2) c]
    from assms(2) None have t: "t = decide env s" by simp
    from core_same_rest [OF core d(1,2)] sane_same_rest [OF sane d(1)] d(1,3,4) ok w(3,4)
    show ?thesis unfolding t by (simp add: same_rest_def writer_same_def)
  qed
  moreover have "tree_bytes (bud (f_start f)) + member_bytes (fresh f s) + w_size (wr s) \<le> tree_bytes (bud s)"
    using fol by (simp add: follows_def Let_def)
  ultimately show "core env f t" "sane env f t" "writer_same (wr s) (wr t)"
    "spool_ok env f (w_bytes (wr t)) (wr t)" "events t = events s" "con t = con s"
    "w_kind (wr t) = Some (classify (w_norm (wr s)) (take MAGIC_BYTES (w_bytes (wr s))))"
    "tree_bytes (bud (f_start f)) + member_bytes (fresh f s) + w_size (wr t) \<le> tree_bytes (bud t)"
    by (auto simp: writer_same_def)
qed

lemma counter_get_inc [dict_simps]:
  "dict_get (counter_inc k c) k' 0 = (if k' = k then dict_get c k 0 + 1 else dict_get c k' 0)"
  by (simp add: counter_inc_def dict_get_def)

lemma counter_get_dec [dict_simps]:
  "dict_get (counter_dec k c) k' 0 = (if k' = k then dict_get c k 0 - 1 else dict_get c k' 0)"
  by (simp add: counter_dec_def dict_get_def)

lemma counter_inc_mono: "dict_get c k 0 \<le> dict_get (counter_inc k' c) k 0"
  by (simp add: counter_get_inc)

lemma name_is_new:
  assumes "core env f s" and "is_v2_relative_safe norm" and "dict_get (c_handled (con s)) norm 0 = 0"
  shows "f_prefix f @ [chain_name norm (dict_get (c_seen (con s)) norm 0)] \<notin> set (member_chains (fresh f s))"
proof
  let ?k = "dict_get (c_seen (con s)) norm 0"
  assume "f_prefix f @ [chain_name norm ?k] \<in> set (member_chains (fresh f s))"
  then obtain a k where ak: "chain_name norm ?k = chain_name a k" "is_v2_relative_safe a"
    "k < dict_get (c_seen (con s)) a 0 + dict_get (c_handled (con s)) a 0"
    using assms(1) unfolding core_def named_def by blast
  from chain_name_inject [OF assms(2) ak(2,1)] have "norm = a" "?k = k" by blast+
  with ak(3) assms(3) show False by simp
qed

text \<open>The log after a member was reported, with the bracket of its container if it has one.\<close>

definition bracket :: "env \<Rightarrow> frame \<Rightarrow> chain \<Rightarrow> string \<Rightarrow> int \<Rightarrow> kind \<Rightarrow> event list \<Rightarrow> bool" where
  "bracket env f chain sha n k rest \<longleftrightarrow>
     (if k \<noteq> Archive then rest = []
      else \<exists>new res. rest = Ev_Nested chain sha n # new @ [Ev_Result chain res] \<and>
        container_log (cap_depth (e_caps env)) chain (f_depth f + 1) new \<and>
        (new = [] \<or> f_depth f + 1 \<le> cap_depth (e_caps env)) \<and> result_valid res \<and>
        counts_own chain new (res_members res) (res_bytes res))"

lemma bracket_log:
  assumes "container_log (cap_depth (e_caps env)) (f_prefix f) (f_depth f) evs"
    and "f_prefix f @ [x] \<notin> set (member_chains evs)"
    and "bracket env f (f_prefix f @ [x]) sha n k rest"
  shows "container_log (cap_depth (e_caps env)) (f_prefix f) (f_depth f)
     (evs @ Ev_Member (f_prefix f @ [x]) sha n k tri (f_depth f) # rest)"
  using assms log_member [OF assms(1,2), of k sha n tri]
  by (auto simp: bracket_def split: if_splits intro: log_nested)

lemma bracket_own:
  assumes "bracket env f (p @ [x]) sha n k rest"
  shows "own_sizes p rest = []" and "p @ [y] \<notin> set (member_chains rest)"
proof -
  have "own_sizes p rest = [] \<and> p @ [y] \<notin> set (member_chains rest)"
  proof (cases "k = Archive")
    case True
    with assms obtain new res where r: "rest = Ev_Nested (p @ [x]) sha n # new @ [Ev_Result (p @ [x]) res]"
      and log: "container_log (cap_depth (e_caps env)) (p @ [x]) (f_depth f + 1) new"
      by (auto simp: bracket_def)
    from log_chain_prefix [OF log] have "p @ [y] \<notin> set (member_chains new)" by fastforce
    with log_child_own [OF log] r show ?thesis by simp
  next
    case False
    with assms show ?thesis by (simp add: bracket_def)
  qed
  then show "own_sizes p rest = []" "p @ [y] \<notin> set (member_chains rest)" by blast+
qed

lemma core_report:
  assumes core: "core env f s" and safe: "is_v2_relative_safe norm"
    and free: "dict_get (c_handled (con s)) norm 0 = 0"
    and x: "x = chain_name norm (dict_get (c_seen (con s)) norm 0)"
    and brk: "bracket env f (f_prefix f @ [x]) sha n k rest"
    and ev: "events t = events s @ Ev_Member (f_prefix f @ [x]) sha n k tri (f_depth f) # rest"
    and con: "con t = (con s)\<lparr>c_seen := counter_inc norm (c_seen (con s)),
      c_members := c_members (con s) + 1, c_bytes_hashed := c_bytes_hashed (con s) + n\<rparr>"
    and bud: "top_compressed (bud t) = top_compressed (bud s)" "max_depth (bud s) \<le> max_depth (bud t)"
      "max_depth (bud t) \<le> max (max_depth (bud s)) (max (f_depth f) (cap_depth (e_caps env)))"
    and tree: "tree_bytes (bud (f_start f)) + member_bytes (fresh f s) + n + member_bytes rest \<le> tree_bytes (bud t)"
    and spool: "spool_kept f t"
  shows "core env f t"
proof -
  let ?e = "Ev_Member (f_prefix f @ [x]) sha n k tri (f_depth f)"
  have new: "f_prefix f @ [x] \<notin> set (member_chains (fresh f s))"
    unfolding x by (rule name_is_new [OF core safe free])
  have ev0: "events s = events (f_start f) @ fresh f s" using core by (simp add: core_def logged_def)
  have evt: "events t = events (f_start f) @ fresh f s @ ?e # rest"
    unfolding ev by (subst ev0) simp
  then have fr: "fresh f t = fresh f s @ ?e # rest" by (simp add: fresh_def [of f t])
  have "logged env f t" unfolding logged_def fr
    using core bracket_log [OF _ new brk] bracket_own(1) [OF brk] evt con
    by (simp add: core_def logged_def counts_own_def)
  moreover have "named f t" unfolding named_def fr
  proof (intro allI impI)
    fix y assume "f_prefix f @ [y] \<in> set (member_chains (fresh f s @ ?e # rest))"
    then consider "y = x" | "f_prefix f @ [y] \<in> set (member_chains (fresh f s))"
      using bracket_own(2) [OF brk, of y] by auto
    then show "\<exists>a j. y = chain_name a j \<and> is_v2_relative_safe a \<and>
        j < dict_get (c_seen (con t)) a 0 + dict_get (c_handled (con t)) a 0"
    proof cases
      case 1
      then show ?thesis using x safe con
        by (intro exI [of _ norm] exI [of _ "dict_get (c_seen (con s)) norm 0"]) (simp add: counter_get_inc)
    next
      case 2
      then obtain a j where "y = chain_name a j" "is_v2_relative_safe a"
          "j < dict_get (c_seen (con s)) a 0 + dict_get (c_handled (con s)) a 0"
        using core unfolding core_def named_def by blast
      then show ?thesis using con counter_inc_mono [of "c_seen (con s)" a norm]
        by (intro exI [of _ a] exI [of _ j]) simp
    qed
  qed
  moreover have "budget_kept (e_caps env) (f_depth f) (bud (f_start f)) (bud t)"
    using core bud by (auto simp: core_def budget_kept_def)
  ultimately show ?thesis using core con spool tree fr by (simp add: core_def)
qed

lemma finish_member_run:
  assumes "Open env f 0 0 s" and "finish_member env s = (t, chain, sha)"
  obtains s1 x where "s1 = (if w_kind (wr s) = None then decide env s else s)"
    and "x = chain_name (w_norm (wr s)) (dict_get (c_seen (con s)) (w_norm (wr s)) 0)"
    and "chain = f_prefix f @ [x]"
    and "events t = events s @ [Ev_Member chain sha (w_size (wr t)) (the (w_kind (wr t)))
           (Option.bind (w_stl (wr t)) stl_result) (f_depth f)]"
    and "con t = (con s)\<lparr>c_seen := counter_inc (w_norm (wr s)) (c_seen (con s)),
           c_members := c_members (con s) + 1, c_bytes_hashed := c_bytes_hashed (con s) + w_size (wr t)\<rparr>"
    and "bud t = bud s1" and "fatal t = fatal s1" and "scratch_entries t = scratch_entries s1"
    and "wr t = (wr s1)\<lparr>w_open := False\<rparr>"
proof
  let ?s1 = "if w_kind (wr s) = None then decide env s else s"
  note d = finish_decided [OF assms(1) refl]
  from assms(1) have pre: "c_prefix (con s) = f_prefix f" "c_depth (con s) = f_depth f"
    by (simp_all add: Open_def core_def)
  let ?x = "chain_name (w_norm (wr s)) (dict_get (c_seen (con s)) (w_norm (wr s)) 0)"
  from assms(2) d(3,5,6) pre show "chain = f_prefix f @ [?x]"
    "events t = events s @ [Ev_Member chain sha (w_size (wr t)) (the (w_kind (wr t)))
           (Option.bind (w_stl (wr t)) stl_result) (f_depth f)]"
    "con t = (con s)\<lparr>c_seen := counter_inc (w_norm (wr s)) (c_seen (con s)),
           c_members := c_members (con s) + 1, c_bytes_hashed := c_bytes_hashed (con s) + w_size (wr t)\<rparr>"
    "bud t = bud ?s1" "fatal t = fatal ?s1" "scratch_entries t = scratch_entries ?s1"
    "wr t = (wr ?s1)\<lparr>w_open := False\<rparr>"
    unfolding finish_member_def chain_for_def writer_same_def Let_def
    by (auto split: prod.splits)
qed (rule refl)+

lemma result_valid_failed [simp]:
  "result_valid (failed_child why d) \<longleftrightarrow> why \<in> set FAILURE_REASONS"
  by (simp add: result_valid_def failed_child_def)

lemma opened_failed:
  assumes "local_reason why" and "fatal s = None" and "bounded env (bud s)"
  shows "opened env chain d s [] (failed_child why d) s"
  using assms by (simp add: opened_def log_start counts_own_def local_reason_def failed_child_def
      result_valid_def)

locale nested_opener =
  fixes env :: env and n :: nat and child :: opener
  assumes contract: "opener_ok env n child"
begin

lemma open_child_outcome:
  assumes "env_ok env" and "d + 1 \<le> cap_depth (e_caps env) \<longrightarrow> nat (cap_depth (e_caps env) - (d + 1)) < n"
    and "fatal s = None" and "bounded env (bud s)" and "0 \<le> live_spool (bud s)"
    and "w_existing w = None \<and> d + 1 \<le> cap_depth (e_caps env) \<and> w_spool_failed w = None \<longrightarrow> w_spool_path w \<noteq> None"
    and "case w_spool_failed w of None \<Rightarrow> True | Some why \<Rightarrow> why = ''spool_exceeded''"
  obtains res t new where "open_child env child chain w (d + 1) s = (Inr res, t)"
    and "opened env chain (d + 1) s new res t"
    and "new = [] \<and> t = s \<or> d + 1 \<le> cap_depth (e_caps env)"
proof (cases "d + 1 > cap_depth (e_caps env)")
  case True
  have "local_reason ''depth_exceeded''" by simp
  with True opened_failed [OF this assms(3,4), of chain "d + 1"] that show ?thesis
    by (simp add: open_child_def mk_result_def act_run local_reason_def)
next
  case False
  show ?thesis
  proof (cases "w_spool_failed w")
    case (Some why)
    with assms(7) have "local_reason why" by simp
    with False Some opened_failed [OF this assms(3,4), of chain "d + 1"] that show ?thesis
      by (simp add: open_child_def mk_result_def act_run local_reason_def)
  next
    case None
    have "\<exists>src. open_child env child chain w (d + 1) =
        child [src] chain (d + 1) (w_size w) (after_last (CHR ''/'') (w_norm w))"
    proof (cases "w_existing w")
      case None
      with False assms(6) \<open>w_spool_failed w = None\<close> obtain b where "w_spool_path w = Some b" by auto
      with None False \<open>w_spool_failed w = None\<close> show ?thesis
        by (intro exI [of _ "(''spool'', Some b)"]) (simp add: open_child_def Let_def)
    next
      case (Some src)
      with False \<open>w_spool_failed w = None\<close> show ?thesis
        by (intro exI [of _ src]) (simp add: open_child_def Let_def)
    qed
    then obtain src where run: "open_child env child chain w (d + 1) =
        child [src] chain (d + 1) (w_size w) (after_last (CHR ''/'') (w_norm w))" by blast
    have "distinct (link_names (after_last (CHR ''/'') (w_norm w)) [src])"
      by (simp add: link_names_def enumerate_eq_zip)
    then obtain res t new where
      "child [src] chain (d + 1) (w_size w) (after_last (CHR ''/'') (w_norm w)) s = (Inr res, t)"
      "opened env chain (d + 1) s new res t"
      using contract assms(1-5) False unfolding opener_ok_def by (metis linorder_not_less list.distinct(1))
    with run False that show ?thesis by auto
  qed
qed

lemma finish_triple:
  assumes env: "env_ok env"
    and level: "f_depth f + 1 \<le> cap_depth (e_caps env) \<longrightarrow> nat (cap_depth (e_caps env) - (f_depth f + 1)) < n"
  shows "triple (Open env f 0 0) (finish env child) (\<lambda>_. Idle env f) (Fault env f)"
  unfolding triple_def
proof (intro allI impI)
  fix s assume o: "Open env f 0 0 s"
  obtain t chain sha where fm: "finish_member env s = (t, chain, sha)" by (cases "finish_member env s") auto
  from finish_member_run [OF o fm] obtain s1 x where
    s1: "s1 = (if w_kind (wr s) = None then decide env s else s)"
    and x: "x = chain_name (w_norm (wr s)) (dict_get (c_seen (con s)) (w_norm (wr s)) 0)"
    and chain: "chain = f_prefix f @ [x]"
    and ev: "events t = events s @ [Ev_Member chain sha (w_size (wr t)) (the (w_kind (wr t)))
           (Option.bind (w_stl (wr t)) stl_result) (f_depth f)]"
    and con: "con t = (con s)\<lparr>c_seen := counter_inc (w_norm (wr s)) (c_seen (con s)),
           c_members := c_members (con s) + 1, c_bytes_hashed := c_bytes_hashed (con s) + w_size (wr t)\<rparr>"
    and rest: "bud t = bud s1" "fatal t = fatal s1" "scratch_entries t = scratch_entries s1"
    and wr: "wr t = (wr s1)\<lparr>w_open := False\<rparr>" by blast
  note d = finish_decided [OF o s1]
  let ?k = "classify (w_norm (wr s)) (take MAGIC_BYTES (w_bytes (wr s)))"
  have kind: "w_kind (wr t) = Some ?k" using d(7) wr by simp
  have core: "core env f s" and sane: "sane env f s"
    and safe: "is_v2_relative_safe (w_norm (wr s))" and free: "dict_get (c_handled (con s)) (w_norm (wr s)) 0 = 0"
    using o by (simp_all add: Open_def follows_def Let_def)
  have depth: "c_depth (con t) = f_depth f" using con core by (simp add: core_def)
  have bud1: "top_compressed (bud t) = top_compressed (bud s)" "max_depth (bud t) = max_depth (bud s)"
    "tree_bytes (bud t) = tree_bytes (bud s)"
  proof -
    have "same_rest s s1"
    proof (cases "w_kind (wr s)")
      case None
      then have "w_spool_path (wr s) = None"
        using o by (auto simp: Open_def follows_def tracks_def Let_def)
      with None show ?thesis using decide_props(1) [OF core_spool [OF core]] s1 core
        by (simp add: core_def)
    qed (simp add: s1)
    then show "top_compressed (bud t) = top_compressed (bud s)" "max_depth (bud t) = max_depth (bud s)"
      "tree_bytes (bud t) = tree_bytes (bud s)" using rest by (simp_all add: same_rest_def)
  qed
  have kept: "spool_kept f t" using core_spool [OF d(1)] rest wr by (simp add: spool_kept_def)
  have sane_t: "fatal t = None" "bounded env (bud t)" using d(2) rest by (simp_all add: sane_def)
  have ev0: "events s = events (f_start f) @ fresh f s" using core by (simp add: core_def logged_def)
  have tree: "tree_bytes (bud (f_start f)) + member_bytes (fresh f s) + w_size (wr t) \<le> tree_bytes (bud t)"
    using d(8) rest wr by simp
  have frame: "events u = events (f_start f) @ fresh f s @ more \<Longrightarrow> fresh f u = fresh f s @ more" for u more
    by (simp add: fresh_def [of f u])
  show "case finish env child s of (Inl e, t) \<Rightarrow> Fault env f e t | (Inr v, t) \<Rightarrow> Idle env f t"
  proof (cases "?k = Archive")
    case False
    then have run: "finish env child s = (Inr (), t)"
      by (simp add: finish_def act_bind_def act_get_def fm kind act_ret_def)
    have brk: "bracket env f (f_prefix f @ [x]) sha (w_size (wr t)) ?k []"
      using False by (simp add: bracket_def)
    have "core env f t"
      by (rule core_report [OF core safe free x brk _ con])
        (use ev chain kind bud1 tree kept in simp_all)
    moreover have "sane env f t" using sane sane_t ev ev0 frame [of t] by (simp add: sane_def)
    moreover have "w_spool_path (wr t) = None" using d(4,7) wr False by (auto simp: spool_ok_def)
    ultimately show ?thesis using run kept by (simp add: Idle_def spool_kept_def)
  next
    case True
    let ?t2 = "t\<lparr>events := events t @ [Ev_Nested chain sha (w_size (wr t))]\<rparr>"
    have sp: "0 \<le> live_spool (bud ?t2)" using kept by (simp add: spool_kept_def)
    have path: "w_existing (wr t) = None \<and> f_depth f + 1 \<le> cap_depth (e_caps env) \<and>
        w_spool_failed (wr t) = None \<longrightarrow> w_spool_path (wr t) \<noteq> None"
      and failed: "case w_spool_failed (wr t) of None \<Rightarrow> True | Some why \<Rightarrow> why = ''spool_exceeded''"
      using spool_ok_archive [OF d(4)] d(7) wr True by simp_all
    obtain res t3 new where oc: "open_child env child chain (wr t) (f_depth f + 1) ?t2 = (Inr res, t3)"
      "opened env chain (f_depth f + 1) ?t2 new res t3" "new = [] \<and> t3 = ?t2 \<or> f_depth f + 1 \<le> cap_depth (e_caps env)"
      by (rule open_child_outcome [OF env level _ _ sp path failed]) (use sane_t in simp_all)
    let ?t4 = "(drop_spool t3)\<lparr>events := events t3 @ [Ev_Result chain res]\<rparr>"
    have run: "finish env child s = raise_fatal ?t4"
      using kind True depth drop_spool_rest [of t3]
      by (simp add: finish_def act_bind_def act_get_def act_seq_def act_finally_def emit_def act_mod_def
          fm oc(1) same_rest_def)
    let ?rest = "Ev_Nested chain sha (w_size (wr t)) # new @ [Ev_Result chain res]"
    have op: "con t3 = con t" "wr t3 = wr t" "live_spool (bud t3) = live_spool (bud t)"
      "scratch_entries t3 = scratch_entries t" "events t3 = events t @ Ev_Nested chain sha (w_size (wr t)) # new"
      "top_compressed (bud t3) = top_compressed (bud t)" "max_depth (bud t) \<le> max_depth (bud t3)"
      "max_depth (bud t3) \<le> max (max_depth (bud t)) (max (f_depth f + 1) (cap_depth (e_caps env)))"
      "tree_bytes (bud t) + member_bytes new \<le> tree_bytes (bud t3)"
      using oc(2) by (simp_all add: opened_def)
    have deep: "max_depth (bud t3) \<le> max (max_depth (bud t)) (max (f_depth f) (cap_depth (e_caps env)))"
      using oc(3) op(8) by auto
    have brk: "bracket env f (f_prefix f @ [x]) sha (w_size (wr t)) ?k ?rest"
      using True oc(2,3) chain by (auto simp: bracket_def opened_def)
    have d4: "same_rest t3 (drop_spool t3)" by (rule drop_spool_rest)
    have kept3: "spool_kept f t3" using kept op(2-4) by (simp add: spool_kept_def)
    have kept4: "spool_kept f ?t4" using drop_spool_kept [OF kept3] by (simp add: spool_kept_def)
    have ev4: "events ?t4 = events s @ Ev_Member (f_prefix f @ [x]) sha (w_size (wr t)) ?k
        (Option.bind (w_stl (wr t)) stl_result) (f_depth f) # ?rest"
      using ev op(5) kind chain by simp
    have core4: "core env f ?t4"
      by (rule core_report [OF core safe free x brk ev4])
        (use con op d4 deep bud1 tree kept4 in \<open>auto simp: same_rest_def\<close>)
    have idle4: "w_spool_path (wr ?t4) = None" "w_spooled (wr ?t4) = 0"
      by (simp_all add: drop_spool_writer)
    have fr: "fresh f ?t4 = fresh f s @ Ev_Member (f_prefix f @ [x]) sha (w_size (wr t)) ?k
        (Option.bind (w_stl (wr t)) stl_result) (f_depth f) # ?rest"
      by (rule frame) (use ev4 ev0 in simp)
    show ?thesis
    proof (cases "fatal t3")
      case None
      then have "sane env f ?t4" using oc(2) d4 sane fr
        by (auto simp: sane_def opened_def same_rest_def bounded_def tree_bound_def)
      with core4 idle4 run None d4 show ?thesis
        by (simp add: Idle_def raise_fatal_def act_bind_def act_get_def act_ret_def same_rest_def)
    next
      case (Some w)
      then have "fault env f (Fatal w) ?t4" using oc(2) d4 sane fr
        by (auto simp: fault_def sane_def opened_def same_rest_def fatal_ok_None)
      with core4 idle4 run Some d4 show ?thesis
        by (simp add: Fault_def raise_fatal_def act_bind_def act_get_def act_raise_def same_rest_def)
    qed
  qed
qed

end

end
