(* ===== verification/EngineRead.thy ===== *)
theory EngineRead
  imports EngineSafe
begin

text \<open>
  The readers keep the contract: libarchive, the single streams, 7zz and their composition in
  \<open>open_container\<close>, for every number of levels. The properties of the engine follow.
\<close>

lemma triple_case: "triple P m Q E \<Longrightarrow> P s \<Longrightarrow> case m s of (Inl e, t) \<Rightarrow> E e t | (Inr v, t) \<Rightarrow> Q v t"
  by (simp add: triple_def)

lemma seq_idle:
  "triple (Idle env f) m (\<lambda>_. Idle env f) (Fault env f) \<Longrightarrow> triple (Idle env f) k (\<lambda>_. Idle env f) (Fault env f) \<Longrightarrow>
   triple (Idle env f) (act_seq m k) (\<lambda>_. Idle env f) (Fault env f)"
  by (rule triple_seq)

lemma con_step_idle:
  assumes "Idle env f s" and "con_view (con t) = con_view (con s)" and "events t = events s"
    and "bud t = bud s" and "wr t = wr s" and "fatal t = fatal s" and "scratch_entries t = scratch_entries s"
  shows "Idle env f t"
proof -
  from assms(1) have core: "core env f s" by (simp add: Idle_def)
  have "core env f t"
    by (rule core_step [OF core]) (use core_spool [OF core] assms(2-7) in \<open>simp_all add: spool_kept_def\<close>)
  with assms show ?thesis by (simp add: Idle_def sane_def fresh_def)
qed

lemma add_tree_bytes_idle:
  assumes "0 \<le> n"
  shows "triple (Idle env f) (on_budget (add_tree_bytes (e_caps env) n)) (\<lambda>_. Idle env f) (Fault env f)"
  unfolding triple_def on_budget_def
proof (intro allI impI)
  fix s assume i: "Idle env f s"
  obtain r b where run: "add_tree_bytes (e_caps env) n (bud s) = (r, b)" by fastforce
  from i have "core env f s" "sane env f s" by (simp_all add: Idle_def)
  note g = grow_tree [OF this assms run refl]
  from g(1-4) i show "case case add_tree_bytes (e_caps env) n (bud s) of (r, b) \<Rightarrow> (r, s\<lparr>bud := b\<rparr>) of
      (Inl e, t) \<Rightarrow> Fault env f e t | (Inr v, t) \<Rightarrow> Idle env f t"
    by (auto simp: run Idle_def Fault_def split: sum.split)
qed

lemma read_stop_idle: "f_raw f = ''libarchive'' \<Longrightarrow> triple (Idle env f) (read_stop e) (\<lambda>_. Idle env f) (Fault env f)"
  by (cases e) (auto simp: read_stop_def intro!: triple_ret triple_raise simp: Idle_Fault)

lemma read_stop_open: "f_raw f = ''libarchive'' \<Longrightarrow> triple (Open env f 0 0) (read_stop e) (\<lambda>_. Open env f 0 0) (FaultO env f)"
  by (cases e) (auto simp: read_stop_def intro!: triple_ret triple_raise simp: Open_FaultO)

lemma bytes_out_idle:
  "triple (Idle env f) (act_mod (\<lambda>s. s\<lparr>con := (con s)\<lparr>c_bytes_out := c_bytes_out (con s) + n\<rparr>\<rparr>))
     (\<lambda>_. Idle env f) (Fault env f)"
  by (rule triple_mod, erule con_step_idle) (simp_all add: con_view_def)

lemma drain_triple:
  assumes "f_raw f = ''libarchive''"
  shows "triple (Idle env f) (drain env bs e) (\<lambda>_. Idle env f) (Fault env f)"
proof (induction bs)
  case Nil
  show ?case unfolding drain.simps by (rule seq_idle [OF check_time_idle read_stop_idle [OF assms]])
next
  case (Cons x bs)
  obtain b c where x: "x = (b, c)" by (cases x)
  have "triple (Idle env f) (act_seq (act_mod (\<lambda>s. s\<lparr>con := (con s)\<lparr>c_bytes_out := c_bytes_out (con s) + int (length b)\<rparr>\<rparr>))
        (act_seq (on_budget (add_tree_bytes (e_caps env) (int (length b)))) (drain env bs e)))
      (\<lambda>_. Idle env f) (Fault env f)"
    by (rule seq_idle [OF bytes_out_idle seq_idle [OF add_tree_bytes_idle Cons]]) simp
  then show ?case unfolding x drain.simps
    by (intro seq_idle [OF check_time_idle] triple_if triple_ret)
qed

lemma read_data_triple:
  assumes "f_raw f = ''libarchive''"
  shows "triple (Open env f 0 0) (read_data env pos consumed bs e) (\<lambda>_. Open env f 0 0) (FaultO env f)"
proof (induction bs arbitrary: pos consumed)
  case Nil
  show ?case unfolding read_data.simps by (rule read_stop_open [OF assms])
next
  case (Cons x bs)
  obtain b c where x: "x = (b, c)" by (cases x)
  show ?case unfolding x read_data.simps Let_def
    by (intro triple_if triple_ret triple_seq [OF feed_triple Cons])
qed

lemma stream_blocks_triple:
  assumes "f_raw f = ''stream''"
  shows "triple (Open env f 0 0) (stream_blocks env bs ok) (\<lambda>_. Open env f 0 0) (FaultO env f)"
proof (induction bs)
  case Nil
  show ?case unfolding stream_blocks.simps
    by (intro triple_if triple_ret triple_raise) (simp_all add: Open_FaultO assms)
next
  case (Cons x bs)
  obtain b c where x: "x = (b, c)" by (cases x)
  show ?case unfolding x stream_blocks.simps
    by (intro triple_if triple_ret triple_seq [OF feed_triple Cons])
qed

lemma feed_blocks_triple:
  "triple (Open env f 0 0) (feed_blocks env bs) (\<lambda>_. Open env f 0 0) (FaultO env f)"
proof (induction bs)
  case Nil
  show ?case unfolding feed_blocks.simps by (intro triple_ret)
next
  case (Cons b bs)
  show ?case unfolding feed_blocks.simps
    by (intro triple_if triple_ret triple_seq [OF feed_triple Cons])
qed

lemma freshI: "events t = events (f_start f) @ evs \<Longrightarrow> fresh f t = evs"
  by (simp add: fresh_def)

lemma refuse_idle:
  assumes "why \<in> set REFUSAL_REASONS"
  shows "triple (Idle env f) (refuse name why) (\<lambda>_. Idle env f) (Fault env f)"
  unfolding refuse_def
proof (rule triple_mod)
  fix s assume i: "Idle env f s"
  let ?e = "Ev_Refused (c_prefix (con s) @ [display_name name]) why"
  let ?key = "CHR ''!'' # display_name name"
  let ?t = "s\<lparr>con := (con s)\<lparr>c_seen := counter_inc ?key (c_seen (con s))\<rparr>, events := events s @ [?e]\<rparr>"
  from i have core: "core env f s" and sane: "sane env f s" by (simp_all add: Idle_def)
  have ev0: "events s = events (f_start f) @ fresh f s" using core by (simp add: core_def logged_def)
  have evt: "events ?t = events (f_start f) @ fresh f s @ [?e]" using arg_cong [OF ev0, of "\<lambda>x. x @ [?e]"] by simp
  then have fr: "fresh f ?t = fresh f s @ [?e]" by (rule freshI)
  have "container_log (cap_depth (e_caps env)) (f_prefix f) (f_depth f) (fresh f s @ [?e])"
    using core log_refused [of "cap_depth (e_caps env)" "f_prefix f" "f_depth f" "fresh f s" why "display_name name"] assms
    by (simp add: core_def logged_def)
  then have "logged env f ?t" using core evt fr by (simp add: core_def logged_def counts_own_def)
  moreover have "named f ?t" unfolding named_def fr
  proof (intro allI impI)
    fix x assume "f_prefix f @ [x] \<in> set (member_chains (fresh f s @ [?e]))"
    then obtain a j where "x = chain_name a j" "is_v2_relative_safe a"
        "j < dict_get (c_seen (con s)) a 0 + dict_get (c_handled (con s)) a 0"
      using core unfolding core_def named_def by auto
    then show "\<exists>a j. x = chain_name a j \<and> is_v2_relative_safe a \<and>
        j < dict_get (c_seen (con ?t)) a 0 + dict_get (c_handled (con ?t)) a 0"
      using counter_inc_mono [of "c_seen (con s)" a ?key] by (intro exI [of _ a] exI [of _ j]) simp
  qed
  moreover have "spool_kept f ?t" using core_spool [OF core] by (simp add: spool_kept_def)
  ultimately have "core env f ?t" using core fr by (simp add: core_def)
  with i sane fr show "Idle env f ?t" by (simp add: Idle_def sane_def)
qed

lemma name_free_first: "Idle env f s \<Longrightarrow> f_handled f = Some [] \<Longrightarrow> is_v2_relative_safe norm \<Longrightarrow> name_free norm s"
  by (simp add: Idle_def core_def name_free_def dict_get_def)

lemma check_name_ok:
  assumes "check_name name = (norm, None)"
  shows "is_v2_relative_safe (the norm)"
proof (cases norm)
  case None
  with assms show ?thesis by (auto simp: check_name_def Let_def split: if_splits)
next
  case (Some p)
  with assms check_name_safe(1) show ?thesis by auto
qed

text \<open>\<open>levels_left\<close>: the levels that the child of a container of depth \<open>d\<close> needs are there.\<close>

definition levels_left :: "env \<Rightarrow> nat \<Rightarrow> int \<Rightarrow> bool" where
  "levels_left env n d \<longleftrightarrow> (d + 1 \<le> cap_depth (e_caps env) \<longrightarrow> nat (cap_depth (e_caps env) - (d + 1)) < n)"

text \<open>The mark of a library under way changes only which exceptions are expected.\<close>

lemma raw_fresh [simp]: "fresh (f\<lparr>f_raw := m\<rparr>) s = fresh f s"
  by (simp add: fresh_def)

lemma raw_core [simp]: "core env (f\<lparr>f_raw := m\<rparr>) s = core env f s"
  by (simp add: core_def logged_def named_def spool_kept_def)

lemma raw_sane [simp]: "sane env (f\<lparr>f_raw := m\<rparr>) s = sane env f s"
  by (simp add: sane_def)

lemma raw_idle [simp]: "Idle env (f\<lparr>f_raw := m\<rparr>) = Idle env f"
  by (simp add: fun_eq_iff Idle_def)

lemma raw_spool: "spool_ok env (f\<lparr>f_raw := m\<rparr>) = spool_ok env f"
  by (simp add: fun_eq_iff spool_ok_def)

lemma raw_open: "Open env (f\<lparr>f_raw := m\<rparr>) i j = Open env f i j"
  by (simp add: fun_eq_iff Open_def follows_def tracks_def raw_spool cong: option.case_cong)

context nested_opener begin

lemma finish_idle:
  "env_ok env \<Longrightarrow> levels_left env n (f_depth f) \<Longrightarrow>
   triple (Open env f 0 0) (finish env child) (\<lambda>_. Idle env f) (Fault env f)"
  by (rule finish_triple) (simp_all add: levels_left_def)

lemma read_member_triple:
  assumes "env_ok env" and "levels_left env n (f_depth f)"
    and "f_raw f = ''libarchive''"
  shows "triple (\<lambda>s. Idle env f s \<and> name_free norm s) (read_member env child e norm)
     (\<lambda>_. Idle env f) (Fault env f)"
proof -
  have check: "triple (Open env f 0 0) (act_bind (act_get (\<lambda>s. w_size (wr s))) (\<lambda>got.
          if le_size e \<noteq> None \<and> le_size e \<noteq> Some got then act_raise (Local ''reader_error'')
          else act_ret ())) (\<lambda>_. Open env f 0 0) (FaultO env f)"
    by (rule triple_bind [where R = "\<lambda>_. Open env f 0 0"])
      (auto intro!: triple_get triple_raise triple_ret simp: Open_FaultO)
  have data: "triple (Open env f 0 0) (if le_size e = Some 0 then act_ret ()
        else read_data env (le_pos e) 0 (le_blocks e) (le_end e)) (\<lambda>_. Open env f 0 0) (FaultO env f)"
    by (intro triple_if triple_ret read_data_triple [OF assms(3)])
  have new: "triple (\<lambda>s. Idle env f s \<and> name_free norm s) (new_writer norm None) (\<lambda>_. Open env f 0 0) (Fault env f)"
    by (rule new_writer_triple) simp
  show ?thesis unfolding read_member_def
    by (rule triple_seq [OF new triple_seq [OF on_error_abort_triple [OF triple_seq [OF data check]]
          finish_idle [OF assms(1,2)]]])
qed

lemma read_entry_triple:
  assumes "env_ok env" and "levels_left env n (f_depth f)" and "f_handled f = Some []"
    and "f_raw f = ''libarchive''"
  shows "triple (Idle env f) (read_entry env child e) (\<lambda>_. Idle env f) (Fault env f)"
proof -
  let ?name = "e_decode env (le_name e)"
  obtain norm why0 where cn: "check_name ?name = (norm, why0)" by fastforce
  let ?why = "if why0 = None then check_filetype (le_filetype e) (le_hardlink e) (le_symlink e) else why0"
  have refused: "triple (Idle env f) (act_seq (refuse ?name w) (drain env (le_blocks e) (le_end e)))
      (\<lambda>_. Idle env f) (Fault env f)" if "?why = Some w" for w
  proof (rule seq_idle [OF refuse_idle drain_triple [OF assms(4)]])
    show "w \<in> set REFUSAL_REASONS"
      using that check_filetype_reason check_name_reason cn by (auto split: if_splits)
  qed
  have accepted: "triple (Idle env f) (act_seq (case le_size e of None \<Rightarrow> act_ret ()
        | Some n \<Rightarrow> on_budget (check_member (e_caps env) n None)) (read_member env child e (the norm)))
      (\<lambda>_. Idle env f) (Fault env f)" if "?why = None"
  proof -
    from that have "why0 = None" by (simp split: if_splits)
    with cn have safe: "is_v2_relative_safe (the norm)" using check_name_ok by blast
    have "triple (Idle env f) (read_member env child e (the norm)) (\<lambda>_. Idle env f) (Fault env f)"
      by (rule triple_conseq [OF read_member_triple [OF assms(1,2,4), where norm = "the norm" and e = e]])
        (use name_free_first assms(3) safe in auto)
    then show ?thesis by (intro seq_idle triple_option triple_ret check_idle)
  qed
  show ?thesis unfolding read_entry_def Let_def cn prod.case
    by (intro triple_if triple_ret triple_option triple_raise)
      (use refused accepted in \<open>auto simp: Idle_Fault\<close>)
qed

lemma read_entries_triple:
  assumes "env_ok env" and "levels_left env n (f_depth f)" and "f_handled f = Some []"
    and "f_raw f = ''libarchive''"
  shows "triple (Idle env f) (read_entries env child fmt xs e) (\<lambda>_. Idle env f) (Fault env f)"
proof (induction xs arbitrary: fmt)
  case Nil
  show ?case unfolding read_entries.simps
    by (intro triple_seq [OF check_time_idle] triple_seq [OF read_stop_idle [OF assms(4)]] triple_ret)
next
  case (Cons x xs)
  show ?case unfolding read_entries.simps
    by (intro triple_seq [OF check_time_idle] triple_seq [OF read_entry_triple [OF assms]] Cons)
qed

lemma read_libarchive_triple:
  assumes "env_ok env" and "levels_left env n (f_depth f)" and "f_handled f = Some []"
  shows "triple (Idle env f) (read_libarchive env child files) (\<lambda>_. Idle env f) (Fault env f)"
proof -
  let ?g = "f\<lparr>f_raw := ''libarchive''\<rparr>"
  have entries: "triple (Idle env ?g) (read_entries env child None xs e) (\<lambda>_. Idle env ?g) (Fault env ?g)" for xs e
    by (rule read_entries_triple) (use assms in simp_all)
  have body: "triple (Idle env ?g) (case e_libarchive env files of
         La_Open_Error msg \<Rightarrow> act_raise (Libarchive_Error msg)
       | La_No_Memory \<Rightarrow> act_raise Memory_Error
       | La_Script xs e \<Rightarrow> read_entries env child None xs e) (\<lambda>_. Idle env ?g) (Fault env ?g)"
  proof (cases "e_libarchive env files")
    case (La_Script xs e)
    with entries show ?thesis by simp
  qed (auto intro!: triple_raise Idle_Fault simp del: raw_idle)
  have handler: "triple (Fault env ?g x) (case x of Libarchive_Error msg \<Rightarrow> act_raise (Local (map_error msg)) | _ \<Rightarrow> act_raise x)
      (\<lambda>_. Idle env f) (Fault env f)" for x
    by (cases x) (auto intro!: triple_raise simp: Fault_def fault_def)
  show ?thesis unfolding read_libarchive_def
    by (rule triple_catch [OF body [unfolded raw_idle] handler])
qed

lemma data_name_safe: "is_v2_relative_safe ''data''"
  by code_simp

lemma read_stream_triple:
  assumes "env_ok env" and "levels_left env n (f_depth f)" and "f_handled f = Some []"
  shows "triple (Idle env f) (read_stream env child files fmt) (\<lambda>_. Idle env f) (Fault env f)"
proof -
  let ?norm = "\<lambda>hint. case check_name (stream_member_name hint fmt) of
      (norm, why) \<Rightarrow> if why \<noteq> None then ''data'' else the norm"
  have safe: "is_v2_relative_safe (?norm hint)" for hint
  proof -
    obtain norm why where cn: "check_name (stream_member_name hint fmt) = (norm, why)" by fastforce
    show ?thesis
    proof (cases "why = None")
      case True
      with cn check_name_ok [of "stream_member_name hint fmt" norm] show ?thesis by simp
    next
      case False
      with cn data_name_safe show ?thesis by simp
    qed
  qed
  have new: "triple (Idle env f) (new_writer (?norm hint) None) (\<lambda>_. Open env f 0 0) (Fault env f)" for hint
    by (rule triple_conseq [OF new_writer_triple [of None env f "?norm hint"]])
      (use name_free_first assms(3) safe in auto)
  let ?g = "f\<lparr>f_raw := ''stream''\<rparr>"
  have "triple (Open env ?g 0 0) (stream_blocks env bs ok) (\<lambda>_. Open env ?g 0 0) (FaultO env ?g)" for bs ok
    by (rule stream_blocks_triple) simp
  then have blocks: "triple (Open env f 0 0) (case e_stream env files fmt of (bs, ok) \<Rightarrow> stream_blocks env bs ok)
      (\<lambda>_. Open env f 0 0) (FaultO env ?g)"
    by (cases "e_stream env files fmt") (simp add: raw_open)
  have handler: "triple (FaultO env ?g x) (act_seq abort (if x \<in> {Stream_Error, Os_Error, Py ValueError}
      then act_raise (Local ''reader_error'') else act_raise x)) (\<lambda>_. Open env f 0 0) (Fault env f)" for x
    unfolding abort_def
  proof (rule triple_seq [where R = "Fault env ?g x"])
    show "triple (FaultO env ?g x) (act_mod drop_spool) (\<lambda>_. Fault env ?g x) (Fault env f)"
      by (rule triple_mod) (rule abort_fault)
    show "triple (Fault env ?g x) (if x \<in> {Stream_Error, Os_Error, Py ValueError}
        then act_raise (Local ''reader_error'') else act_raise x) (\<lambda>_. Open env f 0 0) (Fault env f)"
      by (intro triple_if triple_raise) (auto simp: Fault_def fault_def split: engine_exn.splits)
  qed
  show ?thesis unfolding read_stream_def Let_def
    by (rule triple_bind [OF triple_get], assumption)
      (rule triple_seq [OF new triple_seq [OF triple_catch [OF blocks handler] finish_idle [OF assms(1,2)]]])
qed

end

subsection \<open>7zz\<close>

definition entry_ok :: "slt_entry \<Rightarrow> bool" where
  "entry_ok e \<longleftrightarrow> (has_value e ''Size'' \<longrightarrow> (\<exists>n \<ge> 0. py_int (dict_get e ''Size'' []) = Some n)) \<and>
     (has_value e ''CRC'' \<longrightarrow> py_int16 (dict_get e ''CRC'' []) \<noteq> None)"

definition item_ok :: "counter \<Rightarrow> plan_item \<Rightarrow> bool" where
  "item_ok handled = (\<lambda>(e, norm, why). entry_ok e \<and>
     (case why of None \<Rightarrow> is_v2_relative_safe (the norm) \<and> dict_get handled (the norm) 0 = 0
      | Some w \<Rightarrow> w \<in> set REFUSAL_REASONS))"

lemma entry_size_run:
  assumes "entry_ok e"
  obtains n where "0 \<le> n" and "entry_size e = act_ret n"
proof (cases "has_value e ''Size''")
  case True
  with assms obtain n where "0 \<le> n" "py_int (dict_get e ''Size'' []) = Some n" by (auto simp: entry_ok_def)
  with True that show ?thesis by (simp add: entry_size_def py_value_def)
next
  case False
  with that [of 0] show ?thesis by (simp add: entry_size_def)
qed

lemma act_bind_ret [simp]: "act_bind (act_ret v) g = g v"
  by (simp add: fun_eq_iff act_bind_def act_ret_def)

lemma zz_list_triple:
  assumes "env_ok env" and "e_sevenzip env"
  shows "triple (Idle env f) (zz_list env files) (\<lambda>es s. Idle env f s \<and> (\<forall>e \<in> set es. entry_ok e)) (Fault env f)"
  unfolding zz_list_def
proof (rule triple_bind [OF remaining_idle])
  fix t
  show "triple (Idle env f) (case e_zz_list env files t of
     Zz_Timeout \<Rightarrow> act_raise (Fatal ''timeout'')
   | Zz_Done rc out err \<Rightarrow>
       if rc \<noteq> 0 then act_raise (Local (seven_zip_reason rc err))
       else let entries = parse_slt out in
         if \<exists>e \<in> set entries. map_of e ''Encrypted'' = Some ''+'' then act_raise (Local ''encrypted'')
         else act_ret entries) (\<lambda>es s. Idle env f s \<and> (\<forall>e \<in> set es. entry_ok e)) (Fault env f)"
  proof (cases "e_zz_list env files t")
    case Zz_Timeout
    then show ?thesis by (auto intro: triple_raise simp: Idle_Fault)
  next
    case (Zz_Done rc out err)
    have "entry_ok e" if "e \<in> set (parse_slt out)" for e
      using assms Zz_Done that unfolding env_ok_def entry_ok_def by blast
    then show ?thesis using Zz_Done
      by (auto intro!: triple_raise triple_ret simp: Idle_Fault Let_def)
  qed
qed

text \<open>Planning moves what an earlier reader finished from \<open>handled\<close> to \<open>seen\<close>.\<close>

lemma plan_move_idle:
  assumes "f_handled f = None"
  shows "triple (\<lambda>s. (Idle env f s \<and> (\<forall>k \<in> Z. dict_get (c_handled (con s)) k 0 = 0)) \<and>
       dict_get (c_handled (con s)) key 0 = k + 1)
     (act_mod (\<lambda>s. s\<lparr>con := (con s)\<lparr>c_handled := counter_dec key (c_handled (con s)),
        c_seen := counter_inc key (c_seen (con s))\<rparr>\<rparr>))
     (\<lambda>_ s. Idle env f s \<and> (\<forall>k \<in> Z. dict_get (c_handled (con s)) k 0 = 0)) (Fault env f)"
proof (rule triple_mod, elim conjE)
  fix s assume i: "Idle env f s" and k: "dict_get (c_handled (con s)) key 0 = k + 1"
    and z: "\<forall>k \<in> Z. dict_get (c_handled (con s)) k 0 = 0"
  let ?t = "s\<lparr>con := (con s)\<lparr>c_handled := counter_dec key (c_handled (con s)),
        c_seen := counter_inc key (c_seen (con s))\<rparr>\<rparr>"
  from i have core: "core env f s" by (simp add: Idle_def)
  have fr: "fresh f ?t = fresh f s" by (simp add: fresh_def)
  have "dict_get (c_seen (con ?t)) a 0 + dict_get (c_handled (con ?t)) a 0 =
      dict_get (c_seen (con s)) a 0 + dict_get (c_handled (con s)) a 0" for a
    using k by (simp add: counter_get_inc counter_get_dec)
  then have "named f ?t" using core fr by (simp add: named_def core_def)
  with core fr assms core_spool [OF core] have "core env f ?t"
    by (simp add: core_def logged_def spool_kept_def)
  with i fr have "Idle env f ?t" by (simp add: Idle_def sane_def)
  moreover have "\<forall>k \<in> Z. dict_get (c_handled (con ?t)) k 0 = 0" using z by (simp add: counter_get_dec)
  ultimately show "Idle env f ?t \<and> (\<forall>k \<in> Z. dict_get (c_handled (con ?t)) k 0 = 0)" by (rule conjI)
qed

lemma item_ok_mono:
  assumes "item_ok h i" and "\<And>k. dict_get h k 0 = 0 \<Longrightarrow> dict_get h' k 0 = (0::nat)"
  shows "item_ok h' i"
  using assms by (auto simp: item_ok_def split: option.splits)

lemma entry_step_idle:
  assumes "entry_ok e"
  shows "triple (Idle env f) (act_bind (entry_size e) (\<lambda>n. on_budget (check_member (e_caps env) n None)))
     (\<lambda>_. Idle env f) (Fault env f)"
proof -
  obtain n where "entry_size e = act_ret n" by (rule entry_size_run [OF assms])
  then show ?thesis by (simp add: check_idle)
qed

text \<open>A budget operation leaves the container alone.\<close>

lemma on_budget_frame:
  assumes "triple P (on_budget m) (\<lambda>_. P) E"
  shows "triple (\<lambda>s. P s \<and> R (con s)) (on_budget m) (\<lambda>_ s. P s \<and> R (con s)) E"
  unfolding triple_def
proof (intro allI impI, elim conjE)
  fix s assume s: "P s" "R (con s)"
  obtain r b where m: "m (bud s) = (r, b)" by fastforce
  show "case on_budget m s of (Inl e, t) \<Rightarrow> E e t | (Inr v, t) \<Rightarrow> P t \<and> R (con t)"
  proof -
    have "case on_budget m s of (Inl e, t) \<Rightarrow> E e t | (Inr v, t) \<Rightarrow> P t"
      by (rule assms [unfolded triple_def, rule_format, OF s(1)])
    with s(2) m show ?thesis by (cases r) (simp_all add: on_budget_def)
  qed
qed

lemma plan_check_idle:
  assumes "entry_ok e"
  shows "triple (\<lambda>s. (Idle env f s \<and> (\<forall>k \<in> Z. dict_get (c_handled (con s)) k 0 = (0::nat))) \<and>
       dict_get (c_handled (con s)) key 0 = 0)
     (if b then act_bind (entry_size e) (\<lambda>n. on_budget (check_member (e_caps env) n None)) else act_ret ())
     (\<lambda>_ s. Idle env f s \<and> (\<forall>k \<in> insert key Z. dict_get (c_handled (con s)) k 0 = 0)) (Fault env f)"
proof -
  let ?R = "\<lambda>c. \<forall>k \<in> insert key Z. dict_get (c_handled c) k 0 = (0::nat)"
  obtain n where n: "entry_size e = act_ret n" by (rule entry_size_run [OF assms])
  have check: "triple (\<lambda>s. Idle env f s \<and> ?R (con s)) (on_budget (check_member (e_caps env) n None))
      (\<lambda>_ s. Idle env f s \<and> ?R (con s)) (Fault env f)"
    by (rule on_budget_frame [OF check_idle(1), where R = ?R])
  show ?thesis unfolding n act_bind_ret
    by (rule triple_conseq [OF triple_if [OF check triple_ret]]) auto
qed

lemma plan_entries_triple:
  assumes "f_handled f = None" and "\<forall>e \<in> set es. entry_ok e"
  shows "triple (\<lambda>s. Idle env f s \<and> (\<forall>k \<in> Z. dict_get (c_handled (con s)) k 0 = 0)) (plan_entries env es)
     (\<lambda>plan s. (Idle env f s \<and> (\<forall>k \<in> Z. dict_get (c_handled (con s)) k 0 = 0)) \<and>
        (\<forall>i \<in> set plan. item_ok (c_handled (con s)) i)) (Fault env f)"
  using assms(2)
proof (induction es arbitrary: Z)
  case Nil
  show ?case unfolding plan_entries.simps by (rule triple_ret) simp
next
  case (Cons e es)
  let ?I = "\<lambda>Z s. Idle env f s \<and> (\<forall>k \<in> Z. dict_get (c_handled (con s)) k 0 = (0::nat))"
  have ok: "entry_ok e" and IH: "\<And>Z. triple (?I Z) (plan_entries env es)
      (\<lambda>plan s. ?I Z s \<and> (\<forall>i \<in> set plan. item_ok (c_handled (con s)) i)) (Fault env f)"
    using Cons by auto
  obtain norm why0 where cn: "check_name (entry_path e) = (norm, why0)" by fastforce
  let ?kind = "entry_type e"
  let ?why = "if why0 = None \<and> ?kind \<noteq> ''file'' then Some ?kind else why0"
  let ?key = "if ?why = None then the norm else CHR ''!'' # display_name (entry_path e)"
  let ?move = "act_mod (\<lambda>s. s\<lparr>con := (con s)\<lparr>c_handled := counter_dec ?key (c_handled (con s)),
                                           c_seen := counter_inc ?key (c_seen (con s))\<rparr>\<rparr>)"
  let ?Q = "\<lambda>plan s. ?I Z s \<and> (\<forall>i \<in> set plan. item_ok (c_handled (con s)) i)"
  have why_ok: "case ?why of None \<Rightarrow> is_v2_relative_safe (the norm) | Some w \<Rightarrow> ?kind = ''dir'' \<or> w \<in> set REFUSAL_REASONS"
    using check_name_ok [of "entry_path e" norm] check_name_reason [of "entry_path e" norm] cn
      entry_type_reason [of e] by (auto split: option.splits)
  have moved: "triple (\<lambda>s. ?I Z s \<and> dict_get (c_handled (con s)) ?key 0 = left) (act_seq ?move (plan_entries env es))
      ?Q (Fault env f)" if pos: "left > 0" for left
  proof -
    obtain k where "left = k + 1" using pos by (cases left) auto
    show ?thesis unfolding \<open>left = k + 1\<close>
      by (rule triple_seq [OF plan_move_idle [OF assms(1)] IH])
  qed
  have kept: "triple (\<lambda>s. ?I Z s \<and> dict_get (c_handled (con s)) ?key 0 = left)
      (act_seq (if ?why = None then act_bind (entry_size e)
          (\<lambda>n. on_budget (check_member (e_caps env) n None)) else act_ret ())
        (act_bind (plan_entries env es) (\<lambda>rest. act_ret ((e, norm, ?why) # rest)))) ?Q (Fault env f)"
    if "?kind \<noteq> ''dir''" "\<not> left > 0" for left
  proof (rule triple_seq [where R = "?I (insert ?key Z)"])
    have left0: "left = 0" using that(2) by simp
    show "triple (\<lambda>s. ?I Z s \<and> dict_get (c_handled (con s)) ?key 0 = left)
        (if ?why = None then act_bind (entry_size e) (\<lambda>n. on_budget (check_member (e_caps env) n None)) else act_ret ())
        (\<lambda>_. ?I (insert ?key Z)) (Fault env f)"
      unfolding left0 by (rule plan_check_idle [OF ok])
    show "triple (?I (insert ?key Z)) (act_bind (plan_entries env es) (\<lambda>rest. act_ret ((e, norm, ?why) # rest)))
        ?Q (Fault env f)"
      by (rule triple_bind [OF IH], rule triple_ret)
        (use why_ok ok that(1) in \<open>auto simp: item_ok_def split: option.splits if_splits\<close>)
  qed
  show ?case unfolding plan_entries.simps Let_def cn prod.case
  proof (rule triple_if)
    show "triple (?I Z) (plan_entries env es) ?Q (Fault env f)" by (rule IH)
  next
    assume nd: "?kind \<noteq> ''dir''"
    show "triple (?I Z) (act_bind (act_get (\<lambda>s. dict_get (c_handled (con s)) ?key 0)) (\<lambda>left.
        if left > 0 then act_seq ?move (plan_entries env es)
        else act_seq (if ?why = None then act_bind (entry_size e)
            (\<lambda>n. on_budget (check_member (e_caps env) n None)) else act_ret ())
          (act_bind (plan_entries env es) (\<lambda>rest. act_ret ((e, norm, ?why) # rest))))) ?Q (Fault env f)"
      by (rule triple_get_bind, rule triple_if) (use moved kept nd in \<open>blast+\<close>)
  qed
qed

lemma sum_sizes_run:
  assumes "\<forall>i \<in> set plan. item_ok h i"
  shows "\<exists>n \<ge> 0. sum_sizes plan = act_ret n"
  using assms
proof (induction plan)
  case Nil
  show ?case by (intro exI [of _ 0]) simp
next
  case (Cons i plan)
  obtain e norm why where i: "i = (e, norm, why)" by (cases i)
  from Cons obtain n where n: "0 \<le> n" "sum_sizes plan = act_ret n" by auto
  have "entry_ok e" using Cons.prems i by (simp add: item_ok_def)
  then obtain m where "0 \<le> m" "entry_size e = act_ret m" by (rule entry_size_run)
  with n i show ?case
    by (cases why) (auto intro: exI [of _ "m + n"])
qed

text \<open>What 7zz holds while it reads: the reservation \<open>r\<close> on top of the frame.\<close>

abbreviation holding :: "frame \<Rightarrow> int \<Rightarrow> frame" where
  "holding f r \<equiv> f\<lparr>f_reserved := r\<rparr>"

lemma zz_reserve_triple:
  assumes "f_reserved f = 0" and "\<forall>i \<in> set plan. item_ok h i" and "f_handled f = None"
  shows "triple (\<lambda>s. Idle env f s \<and> c_handled (con s) = h) (zz_reserve env plan)
     (\<lambda>_ s. \<exists>r. Idle env ((holding f r)\<lparr>f_handled := Some h\<rparr>) s)
     (\<lambda>e s. \<exists>r. Fault env (holding f r) e s)"
  unfolding triple_def
proof (intro allI impI, elim conjE)
  fix s assume i: "Idle env f s" and h: "c_handled (con s) = h"
  obtain n where n: "0 \<le> n" "sum_sizes plan = act_ret n" using sum_sizes_run [OF assms(2)] by blast
  have f: "holding f 0 = f" using assms(1) by simp
  show "case zz_reserve env plan s of (Inl e, t) \<Rightarrow> \<exists>r. Fault env (holding f r) e t
      | (Inr v, t) \<Rightarrow> \<exists>r. Idle env ((holding f r)\<lparr>f_handled := Some h\<rparr>) t"
  proof (cases "live_spool (bud s) + n > cap_spool_bytes (e_caps env)")
    case True
    then have "zz_reserve env plan s = (Inl (Local ''spool_exceeded''), s)"
      by (simp add: zz_reserve_def n(2) act_bind_def act_ret_def reserve_total_def reserve_spool_def
          act_raise_def)
    moreover have "Fault env (holding f 0) (Local ''spool_exceeded'') s"
      unfolding f by (rule Idle_Fault(1) [OF i]) simp
    ultimately show ?thesis by auto
  next
    case False
    let ?g = "(holding f n)\<lparr>f_handled := Some h\<rparr>"
    let ?t = "s\<lparr>bud := (bud s)\<lparr>live_spool := live_spool (bud s) + n\<rparr>, con := (con s)\<lparr>c_reserved := n\<rparr>\<rparr>"
    let ?m = "on_budget (check_container (e_caps env) n (c_compressed (con s)))"
    have run: "zz_reserve env plan s = ?m ?t"
      using False by (simp add: zz_reserve_def n(2) act_bind_def act_ret_def act_seq_def act_mod_def
          act_get_def reserve_total_def reserve_spool_def)
    have fr: "fresh g ?t = fresh f s" if "f_start g = f_start f" for g using that by (simp add: fresh_def)
    have bnd: "bounded env (bud ?t) = bounded env (bud s)" by (simp add: bounded_def tree_bound_def)
    have idle: "Idle env ?g ?t"
      using i h n(1) assms(1) fr [of ?g] bnd
      by (auto simp: Idle_def core_def sane_def logged_def named_def spool_kept_def budget_kept_def)
    have weak: "Fault env ?g e t \<Longrightarrow> Fault env (holding f n) e t" for e t
      using assms(3) by (auto simp: Fault_def fault_def core_def sane_def logged_def named_def spool_kept_def
          budget_kept_def fresh_def split: engine_exn.splits)
    obtain r b where mb: "?m ?t = (r, b)" by fastforce
    show ?thesis
    proof (cases r)
      case (Inl e)
      have "Fault env ?g e b" by (rule tripleD(2) [OF check_idle(2) idle]) (use mb Inl in blast)
      with run mb Inl weak show ?thesis by auto
    next
      case (Inr u)
      have "Idle env ?g b" by (rule tripleD(1) [OF check_idle(2) idle]) (use mb Inr in blast)
      with run mb Inr show ?thesis by auto
    qed
  qed
qed

lemma verify_extracted_triple:
  assumes "entry_ok e"
  shows "triple (Open env f 0 0) (verify_extracted env e clean) (\<lambda>_. Open env f 0 0) (FaultO env f)"
proof -
  obtain sz where sz: "has_value e ''Size'' \<Longrightarrow> py_int (dict_get e ''Size'' []) = Some sz"
    using assms by (auto simp: entry_ok_def)
  obtain c where c: "has_value e ''CRC'' \<Longrightarrow> py_int16 (dict_get e ''CRC'' []) = Some c"
    using assms by (auto simp: entry_ok_def)
  have size_run: "(if has_value e ''Size'' then py_value (py_int (dict_get e ''Size'' [])) else act_ret got) =
      act_ret (if has_value e ''Size'' then sz else got)" for got
    using sz by (simp add: py_value_def)
  have crc_run: "(if has_value e ''CRC'' then py_value (py_int16 (dict_get e ''CRC'' [])) else act_ret crc) =
      act_ret (if has_value e ''CRC'' then c else crc)" for crc
    using c by (simp add: py_value_def)
  show ?thesis unfolding verify_extracted_def size_run crc_run act_bind_ret
    by (rule triple_bind [where R = "\<lambda>_. Open env f 0 0"], rule triple_get, assumption)
      (intro triple_prod triple_if triple_ret)
qed

lemma zz_extract_triple: "triple (Idle env f) (zz_extract env files wanted) (\<lambda>_. Idle env f) (Fault env f)"
  unfolding zz_extract_def
proof (intro triple_if triple_ret)
  show "triple (Idle env f) (act_bind (on_budget (remaining_seconds (e_caps env) (e_clock env))) (\<lambda>t.
        case e_zz_extract env files wanted t of
          (Zz_Timeout, _) \<Rightarrow> act_raise (Fatal ''timeout'')
        | (Zz_Done rc out err, outdir) \<Rightarrow> act_ret (rc, err, outdir))) (\<lambda>_. Idle env f) (Fault env f)"
    by (rule triple_bind [OF remaining_idle])
      (auto intro!: triple_raise triple_ret simp: Idle_Fault split: prod.split zz_outcome.split)
qed

lemma zz_cleanup_idle:
  assumes "f_dirs f = 0" and "f_reserved f = 0"
  shows "Idle env (holding (f\<lparr>f_dirs := 2\<rparr>) r) s \<Longrightarrow> Idle env f (zz_cleanup s)"
    and "Fault env (holding (f\<lparr>f_dirs := 2\<rparr>) r) e s \<Longrightarrow> Fault env f e (zz_cleanup s)"
proof -
  let ?g = "holding (f\<lparr>f_dirs := 2\<rparr>) r"
  have fr: "fresh f (zz_cleanup s) = fresh ?g s" by (simp add: fresh_def zz_cleanup_def)
  have core: "core env f (zz_cleanup s)" if "core env ?g s" "w_spooled (wr s) = 0"
    using that assms fr
    by (auto simp: core_def logged_def named_def spool_kept_def budget_kept_def zz_cleanup_def release_spool_def)
  have bnd: "bounded env (bud (zz_cleanup s)) = bounded env (bud s)"
    by (simp add: bounded_def tree_bound_def zz_cleanup_def release_spool_def)
  have rest: "fatal (zz_cleanup s) = fatal s" "wr (zz_cleanup s) = wr s"
    by (simp_all add: zz_cleanup_def)
  show "Idle env ?g s \<Longrightarrow> Idle env f (zz_cleanup s)"
    using core fr bnd rest by (simp add: Idle_def sane_def)
  show "Fault env ?g e s \<Longrightarrow> Fault env f e (zz_cleanup s)"
    using core fr bnd rest by (auto simp: Fault_def fault_def sane_def split: engine_exn.splits)
qed

lemma handled_weaken:
  assumes "f_handled f = None"
  shows "Idle env (f\<lparr>f_handled := Some h\<rparr>) s \<Longrightarrow> Idle env f s"
    and "Fault env (f\<lparr>f_handled := Some h\<rparr>) e s \<Longrightarrow> Fault env f e s"
proof -
  have fr: "fresh (f\<lparr>f_handled := Some h\<rparr>) s = fresh f s" by (simp add: fresh_def)
  have core: "core env (f\<lparr>f_handled := Some h\<rparr>) s \<Longrightarrow> core env f s"
    using assms fr by (simp add: core_def logged_def named_def spool_kept_def)
  show "Idle env (f\<lparr>f_handled := Some h\<rparr>) s \<Longrightarrow> Idle env f s"
    using core fr by (simp add: Idle_def sane_def)
  show "Fault env (f\<lparr>f_handled := Some h\<rparr>) e s \<Longrightarrow> Fault env f e s"
    using core fr by (auto simp: Fault_def fault_def sane_def split: engine_exn.splits)
qed

context nested_opener begin

lemma hash_extracted_triple:
  assumes "env_ok env" and "levels_left env n (f_depth f)" and "entry_ok e"
  shows "triple (\<lambda>s. Idle env f s \<and> name_free norm s) (hash_extracted env child outdir norm e clean)
     (\<lambda>_. Idle env f) (Fault env f)"
proof (cases "outdir norm")
  case X_Absent
  then show ?thesis unfolding hash_extracted_def by (auto intro: triple_ret)
next
  case (X_File regular blocks)
  let ?abort = "act_seq abort (act_ret False)"
  have aborted: "triple (Open env f 0 0) ?abort (\<lambda>_. Idle env f) (FaultO env f)"
    unfolding abort_def
    by (rule triple_seq [where R = "Idle env f"], rule triple_mod, erule abort_idle) (rule triple_ret)
  have finished: "triple (Open env f 0 0) (act_seq (finish env child) (act_ret True)) (\<lambda>_. Idle env f) (FaultO env f)"
    by (rule triple_conseq [OF triple_seq [OF finish_idle [OF assms(1,2)] triple_ret]])
      (auto intro: Fault_FaultO)
  have body: "triple (Open env f 0 0) (if \<not> regular then ?abort
      else act_seq (feed_blocks env blocks) (act_bind (verify_extracted env e clean) (\<lambda>ok.
        if \<not> ok then ?abort else act_seq (finish env child) (act_ret True))))
      (\<lambda>_. Idle env f) (FaultO env f)"
    by (intro triple_if aborted triple_seq [OF feed_blocks_triple]
        triple_bind [OF verify_extracted_triple [OF assms(3)]] finished)
  have new: "triple (\<lambda>s. Idle env f s \<and> name_free norm s)
      (new_writer norm (Some (norm, Some (concat blocks)))) (\<lambda>_. Open env f 0 0) (Fault env f)"
    by (rule new_writer_triple) simp
  show ?thesis unfolding hash_extracted_def X_File extracted.case
    by (rule triple_seq [OF new on_error_abort_triple [OF body]])
qed

lemma run_plan_triple:
  assumes "env_ok env" and "levels_left env n (f_depth f)" and "f_handled f = Some h"
    and "\<forall>i \<in> set plan. item_ok h i"
  shows "triple (Idle env f) (run_plan env child outdir clean plan) (\<lambda>_. Idle env f) (Fault env f)"
  using assms(4)
proof (induction plan)
  case Nil
  show ?case unfolding run_plan.simps by (intro triple_ret)
next
  case (Cons i plan)
  obtain e norm why where i: "i = (e, norm, why)" by (cases i)
  have IH: "triple (Idle env f) (run_plan env child outdir clean plan) (\<lambda>_. Idle env f) (Fault env f)"
    using Cons by simp
  have item: "item_ok h (e, norm, why)" using Cons.prems i by simp
  show ?case
  proof (cases why)
    case (Some w)
    with item have "w \<in> set REFUSAL_REASONS" by (simp add: item_ok_def)
    with Some show ?thesis unfolding i by (simp add: triple_seq [OF refuse_idle IH])
  next
    case None
    with item have ok: "entry_ok e" "is_v2_relative_safe (the norm)" "dict_get h (the norm) 0 = 0"
      by (simp_all add: item_ok_def)
    have hashed: "triple (Idle env f) (hash_extracted env child outdir (the norm) e clean)
        (\<lambda>_. Idle env f) (Fault env f)"
      by (rule triple_conseq [OF hash_extracted_triple [OF assms(1,2) ok(1), where norm = "the norm"]])
        (use ok assms(3) in \<open>auto simp: Idle_def core_def name_free_def\<close>)
    show ?thesis unfolding i None run_plan.simps option.case
      by (intro triple_bind [OF hashed] triple_bind [OF IH] triple_ret)
  qed
qed

lemma zz_read_planned_triple:
  assumes "env_ok env" and "levels_left env n (f_depth f)" and "f_handled f = Some h"
    and "\<forall>i \<in> set plan. item_ok h i"
  shows "triple (Idle env f) (zz_read_planned env child files plan) (\<lambda>_. Idle env f) (Fault env f)"
  unfolding zz_read_planned_def
  by (intro triple_bind [OF zz_extract_triple] triple_prod triple_bind [OF run_plan_triple [OF assms]]
      triple_if triple_raise triple_ret) (simp_all add: Idle_Fault)

lemma zz_body_triple:
  assumes "env_ok env" and "levels_left env n (f_depth f)" and "e_sevenzip env"
    and "f_handled f = None" and "f_reserved f = 0" and "distinct (link_names (f_hint f) files)"
  shows "triple (Idle env f) (zz_body env child files) (\<lambda>_ s. \<exists>r. Idle env (holding f r) s)
     (\<lambda>e s. \<exists>r. Fault env (holding f r) e s)"
proof -
  let ?Q = "\<lambda>_ s. \<exists>r. Idle env (holding f r) s" and ?E = "\<lambda>e s. \<exists>r. Fault env (holding f r) e s"
  have f0: "holding f 0 = f" using assms(5) by simp
  have E0: "Fault env f e s \<Longrightarrow> ?E e s" for e s by (rule exI [of _ 0]) (simp add: f0)
  have read: "triple (\<lambda>s. Idle env f s \<and> (\<forall>i \<in> set plan. item_ok (c_handled (con s)) i))
      (act_seq (zz_reserve env plan) (zz_read_planned env child files plan)) ?Q ?E" for plan
    unfolding triple_def
  proof (intro allI impI, elim conjE)
    fix s assume i: "Idle env f s" and items: "\<forall>i \<in> set plan. item_ok (c_handled (con s)) i"
    let ?h = "c_handled (con s)" let ?g = "\<lambda>r. (holding f r)\<lparr>f_handled := Some ?h\<rparr>"
    have rd: "triple (Idle env (?g r)) (zz_read_planned env child files plan) (\<lambda>_. Idle env (?g r)) (Fault env (?g r))" for r
      by (rule zz_read_planned_triple) (use assms items in simp_all)
    have weak: "triple (\<lambda>s. \<exists>r. Idle env (?g r) s) (zz_read_planned env child files plan) ?Q ?E"
      unfolding triple_def
    proof (intro allI impI, elim exE)
      fix t r assume t: "Idle env (?g r) t"
      show "case zz_read_planned env child files plan t of (Inl e, u) \<Rightarrow> ?E e u | (Inr v, u) \<Rightarrow> ?Q v u"
      proof (cases "zz_read_planned env child files plan t")
        case (Pair x u)
        have none: "f_handled (holding f r) = None" using assms(4) by simp
        show ?thesis
        proof (cases x)
          case (Inl e)
          with Pair have "Fault env (holding f r) e u"
            by (intro handled_weaken(2) [OF none, where h = ?h] tripleD(2) [OF rd t]) simp
          with Inl Pair show ?thesis by auto
        next
          case (Inr v)
          with Pair have "Idle env (holding f r) u"
            by (intro handled_weaken(1) [OF none, where h = ?h] tripleD(1) [OF rd t]) simp
          with Inr Pair show ?thesis by auto
        qed
      qed
    qed
    have "triple (\<lambda>t. Idle env f t \<and> c_handled (con t) = ?h)
        (act_seq (zz_reserve env plan) (zz_read_planned env child files plan)) ?Q ?E"
      by (rule triple_seq [OF zz_reserve_triple [OF assms(5) items assms(4)] weak])
    then show "case act_seq (zz_reserve env plan) (zz_read_planned env child files plan) s of
        (Inl e, u) \<Rightarrow> ?E e u | (Inr v, u) \<Rightarrow> ?Q v u"
      by (rule triple_case) (simp add: i)
  qed
  have planned: "triple (\<lambda>s. Idle env f s \<and> (\<forall>e \<in> set es. entry_ok e)) (plan_entries env es)
      (\<lambda>plan s. Idle env f s \<and> (\<forall>i \<in> set plan. item_ok (c_handled (con s)) i)) ?E" for es
  proof (cases "\<forall>e \<in> set es. entry_ok e")
    case True
    show ?thesis
      by (rule triple_conseq [OF plan_entries_triple [OF assms(4) True, where Z = "{}" and env = env]])
        (use E0 in auto)
  next
    case False
    then show ?thesis unfolding triple_def by blast
  qed
  have listed: "triple (Idle env f) (zz_list env files)
      (\<lambda>es s. Idle env f s \<and> (\<forall>e \<in> set es. entry_ok e)) ?E"
    by (rule triple_conseq [OF zz_list_triple [OF assms(1,3)]]) (use E0 in auto)
  have links: "triple (\<lambda>s. Idle env f s \<and> c_name_hint (con s) = hint)
      (if distinct (link_names hint files) then act_ret () else act_raise (Py FileExistsError))
      (\<lambda>_. Idle env f) ?E" for hint
    using assms(6) by (cases "hint = f_hint f") (auto simp: triple_def act_run Idle_def core_def)
  show ?thesis unfolding zz_body_def
    by (rule triple_get_bind, rule triple_seq [OF links],
        rule triple_bind [OF listed triple_bind [OF planned read]])
qed

lemma read_7zz_triple:
  assumes "env_ok env" and "levels_left env n (f_depth f)" and "f_handled f = None"
    and "f_dirs f = 0" and "f_reserved f = 0" and "distinct (link_names (f_hint f) files)"
  shows "triple (Idle env f) (read_7zz env child files) (\<lambda>_. Idle env f) (Fault env f)"
proof -
  let ?g = "f\<lparr>f_dirs := 2\<rparr>"
  have enter: "triple (Idle env f) (act_mod (\<lambda>s. s\<lparr>scratch_entries := scratch_entries s + 2,
      con := (con s)\<lparr>c_tempdirs := 2\<rparr>\<rparr>)) (\<lambda>_. Idle env ?g) (Fault env f)"
  proof (rule triple_mod)
    fix s assume i: "Idle env f s"
    let ?t = "s\<lparr>scratch_entries := scratch_entries s + 2, con := (con s)\<lparr>c_tempdirs := 2\<rparr>\<rparr>"
    have "fresh ?g ?t = fresh f s" by (simp add: fresh_def)
    with i assms(3-5) show "Idle env ?g ?t"
      by (auto simp: Idle_def core_def sane_def logged_def named_def spool_kept_def)
  qed
  have body: "triple (Idle env ?g) (act_finally (zz_body env child files) zz_cleanup) (\<lambda>_. Idle env f) (Fault env f)"
    if "e_sevenzip env"
  proof (rule triple_finally)
    show "triple (Idle env ?g) (zz_body env child files) (\<lambda>_ s. Idle env f (zz_cleanup s))
        (\<lambda>e s. Fault env f e (zz_cleanup s))"
      by (rule triple_conseq [OF zz_body_triple])
        (use assms that zz_cleanup_idle [OF assms(4,5)] in auto)
  qed
  show ?thesis unfolding read_7zz_def
    by (intro triple_if triple_raise triple_seq [OF enter body]) (simp_all add: Idle_Fault)
qed

text \<open>The container as a whole. Its locals come and go with the frame.\<close>

lemma idle_retry:
  assumes "f_handled f = Some []" and "Idle env f s"
  shows "Idle env (f\<lparr>f_handled := None\<rparr>) (s\<lparr>con := (con s)\<lparr>c_handled := c_seen (con s), c_seen := []\<rparr>\<rparr>)"
proof -
  let ?t = "s\<lparr>con := (con s)\<lparr>c_handled := c_seen (con s), c_seen := []\<rparr>\<rparr>"
  have fr: "fresh (f\<lparr>f_handled := None\<rparr>) ?t = fresh f s" by (simp add: fresh_def)
  have h: "c_handled (con s) = []" using assms by (simp add: Idle_def core_def)
  have "dict_get [] k (0::nat) = 0" for k :: string by (simp add: dict_get_def)
  with assms(2) fr h show ?thesis
    by (auto simp: Idle_def core_def sane_def logged_def named_def spool_kept_def)
qed

lemma set_reader_triple: "triple (Idle env f) (set_reader name) (\<lambda>_. Idle env f) (Fault env f)"
  unfolding set_reader_def by (rule triple_mod, erule con_step_idle) (simp_all add: con_view_def)

lemma fault_local: "Fault env f (Local w) s \<Longrightarrow> local_reason w \<and> Idle env f s"
  by (simp add: Fault_def fault_def Idle_def)

lemma read_with_fallback_triple:
  assumes "env_ok env" and "levels_left env n (f_depth f)" and "f_handled f = Some []"
    and "f_dirs f = 0" and "f_reserved f = 0" and "distinct (link_names (f_hint f) files)"
  shows "triple (Idle env f) (read_with_fallback env child files fmt)
     (\<lambda>_ s. Idle env (f\<lparr>f_handled := None\<rparr>) s) (Fault env (f\<lparr>f_handled := None\<rparr>))"
proof -
  let ?g = "f\<lparr>f_handled := None\<rparr>"
  have g: "?g\<lparr>f_handled := Some []\<rparr> = f" using assms(3) by simp
  have weak: "Idle env f s \<Longrightarrow> Idle env ?g s" "Fault env f e s \<Longrightarrow> Fault env ?g e s" for s e
    using handled_weaken [of ?g env "[]"] unfolding g by simp_all
  have first: "triple (Idle env f) (act_seq (read_libarchive env child files)
      (act_bind (act_get (\<lambda>s. c_seen (con s))) (\<lambda>seen.
        if fmt = None \<and> seen = [] then act_raise (Local ''unsupported_format'') else act_ret ())))
      (\<lambda>_. Idle env ?g) (Fault env f)"
    by (rule triple_seq [OF read_libarchive_triple [OF assms(1-3)]],
        rule triple_bind [where R = "\<lambda>_. Idle env f"], rule triple_get, assumption)
      (intro triple_if triple_raise triple_ret, simp_all add: Idle_Fault weak)
  have retry: "triple (Idle env f) (act_mod (\<lambda>s. s\<lparr>con := (con s)\<lparr>c_handled := c_seen (con s), c_seen := []\<rparr>\<rparr>))
      (\<lambda>_. Idle env ?g) (Fault env ?g)"
    by (rule triple_mod) (rule idle_retry [OF assms(3)])
  have zz: "triple (Idle env ?g) (read_7zz env child files) (\<lambda>_. Idle env ?g) (Fault env ?g)"
    by (rule read_7zz_triple) (use assms in simp_all)
  have again: "triple (Idle env f) (act_seq (set_reader ''7zz'')
      (act_seq (act_mod (\<lambda>s. s\<lparr>con := (con s)\<lparr>c_handled := c_seen (con s), c_seen := []\<rparr>\<rparr>))
        (act_catch (read_7zz env child files) (\<lambda>y. case y of
            Local second \<Rightarrow> act_raise (Local (if second \<noteq> ''reader_error'' then second else w))
          | _ \<Rightarrow> act_raise y)))) (\<lambda>_. Idle env ?g) (Fault env ?g)" if w: "local_reason w" for w
  proof -
    have reader: "triple (Idle env f) (set_reader ''7zz'') (\<lambda>_. Idle env f) (Fault env ?g)"
      by (rule triple_conseq [OF set_reader_triple]) (assumption | erule weak)+
    have handler: "triple (Fault env ?g y) (case y of
          Local second \<Rightarrow> act_raise (Local (if second \<noteq> ''reader_error'' then second else w))
        | _ \<Rightarrow> act_raise y) (\<lambda>_. Idle env ?g) (Fault env ?g)" for y
      using w by (cases y) (auto intro!: triple_raise dest!: fault_local simp: Idle_Fault)
    show ?thesis by (rule triple_seq [OF reader triple_seq [OF retry triple_catch [OF zz handler]]])
  qed
  show ?thesis unfolding read_with_fallback_def
  proof (rule triple_catch [OF first])
    fix x
    show "triple (Fault env f x) (case x of
          Local w \<Rightarrow> if w \<in> {''reader_error'', ''unsupported_format'', ''missing_volume''} \<and>
               (case fmt of None \<Rightarrow> False | Some f \<Rightarrow> f \<in> set FALLBACK_FORMATS) \<and> e_sevenzip env
            then act_seq (set_reader ''7zz'')
             (act_seq (act_mod (\<lambda>s. s\<lparr>con := (con s)\<lparr>c_handled := c_seen (con s), c_seen := []\<rparr>\<rparr>))
               (act_catch (read_7zz env child files) (\<lambda>y. case y of
                    Local second \<Rightarrow> act_raise (Local (if second \<noteq> ''reader_error'' then second else w))
                  | _ \<Rightarrow> act_raise y)))
            else act_raise x
        | _ \<Rightarrow> act_raise x) (\<lambda>_. Idle env ?g) (Fault env ?g)"
    proof (cases x)
      case (Local w)
      show ?thesis
      proof (cases "local_reason w")
        case True
        show ?thesis unfolding Local engine_exn.case
          by (intro triple_if triple_raise triple_conseq [OF again [OF True]])
            (auto dest: fault_local weak(2))
      next
        case False
        then show ?thesis unfolding Local triple_def by (auto dest: fault_local)
      qed
    qed (auto intro!: triple_raise weak(2))
  qed
qed

lemma sniff_triple: "files \<noteq> [] \<Longrightarrow> triple (Idle env f) (sniff files) (\<lambda>_. Idle env f) (Fault env f)"
  unfolding sniff_def
  by (cases files) (auto intro!: triple_ret triple_raise simp: Idle_Fault split: option.split prod.split)

lemma set_format_triple:
  "triple (Idle env f) (act_mod (\<lambda>s. s\<lparr>con := (con s)\<lparr>c_format := fmt\<rparr>\<rparr>)) (\<lambda>_. Idle env f) (Fault env f)"
  by (rule triple_mod, erule con_step_idle) (simp_all add: con_view_def)

lemma read_container_triple:
  assumes "env_ok env" and "levels_left env n (f_depth f)" and "f_handled f = Some []"
    and "f_dirs f = 0" and "f_reserved f = 0" and "distinct (link_names (f_hint f) files)" and "files \<noteq> []"
  shows "triple (Idle env f) (read_container env child files)
     (\<lambda>_ s. Idle env (f\<lparr>f_handled := None\<rparr>) s) (Fault env (f\<lparr>f_handled := None\<rparr>))"
proof -
  let ?g = "f\<lparr>f_handled := None\<rparr>"
  have g: "?g\<lparr>f_handled := Some []\<rparr> = f" using assms(3) by simp
  have weak: "Idle env f s \<Longrightarrow> Idle env ?g s" "Fault env f e s \<Longrightarrow> Fault env ?g e s" for s e
    using handled_weaken [of ?g env "[]"] unfolding g by simp_all
  note fallback = read_with_fallback_triple [OF assms(1-6)]
  have stream: "triple (Idle env f) (act_seq (set_reader ''stream'') (read_stream env child files fmt))
      (\<lambda>_. Idle env ?g) (Fault env ?g)" for fmt
    by (rule triple_conseq [OF triple_seq [OF set_reader_triple read_stream_triple [OF assms(1-3)]]])
      (use weak in auto)
  have sniffed: "triple (Idle env f) (sniff files) (\<lambda>_. Idle env f) (Fault env ?g)"
    by (rule triple_conseq [OF sniff_triple [OF assms(7), where f = f]]) (use weak in auto)
  have format: "triple (Idle env f) (act_mod (\<lambda>s. s\<lparr>con := (con s)\<lparr>c_format := fmt\<rparr>\<rparr>))
      (\<lambda>_. Idle env f) (Fault env ?g)" for fmt
    by (rule triple_conseq [OF set_format_triple [where f = f]]) (use weak in auto)
  show ?thesis unfolding read_container_def Let_def
    by (intro triple_bind [OF sniffed] triple_seq [OF format] triple_option triple_if stream fallback)
qed

end

end
