(* ===== verification/EngineProps.thy ===== *)
theory EngineProps
  imports EngineRead
begin

text \<open>
  The contract of \<open>open_container\<close> for every number of levels, and what it says of \<open>run_archive\<close>:
  a result always comes back and is one that the type allows; nothing stays on scratch or in the
  spool budget; the calls of the sink are bracketed, with unique chains and within the depth cap;
  the byte budget bounds what was reported; and a fatal failure anywhere fails the whole archive.
\<close>

definition start_frame :: "eng \<Rightarrow> chain \<Rightarrow> int \<Rightarrow> string \<Rightarrow> frame" where
  "start_frame s pre d hint = \<lparr>f_start = s, f_prefix = pre, f_depth = d, f_dirs = 0, f_reserved = 0,
     f_handled = Some [], f_hint = hint, f_raw = []\<rparr>"

definition entered :: "eng \<Rightarrow> chain \<Rightarrow> int \<Rightarrow> int \<Rightarrow> string \<Rightarrow> eng" where
  "entered s pre d compressed hint = s\<lparr>con := container_init pre d compressed hint, wr := writer_init [] None,
     bud := (bud s)\<lparr>max_depth := max (max_depth (bud s)) d\<rparr>\<rparr>"

lemma entered_idle:
  assumes "fatal s = None" and "bounded env (bud s)" and "0 \<le> live_spool (bud s)"
  shows "Idle env (start_frame s pre d hint) (entered s pre d compressed hint)"
proof -
  have fr: "fresh (start_frame s pre d hint) (entered s pre d compressed hint) = []"
    by (simp add: fresh_def start_frame_def entered_def)
  have "bounded env ((bud s)\<lparr>max_depth := m\<rparr>) = bounded env (bud s)" for m
    by (simp add: bounded_def tree_bound_def)
  with assms fr show ?thesis
    by (simp add: Idle_def core_def sane_def logged_def named_def spool_kept_def budget_kept_def
        log_start counts_own_def)
      (simp add: start_frame_def entered_def container_init_def writer_init_def)
qed

text \<open>How the run of a container ends: its result and what \<open>ctx.fatal\<close> says.\<close>

definition ended :: "env \<Rightarrow> frame \<Rightarrow> result \<Rightarrow> eng \<Rightarrow> bool" where
  "ended env f res t \<longleftrightarrow> core env f t \<and> w_spool_path (wr t) = None \<and> w_spooled (wr t) = 0 \<and>
     result_valid res \<and> res_members res = c_members (con t) \<and> res_bytes res = c_bytes_hashed (con t) \<and>
     (case fatal t of
        None \<Rightarrow> bounded env (bud t) \<and> fatal_ok None (fresh f t) \<and> ev_fatal_ok None (Ev_Result [] res)
      | Some w \<Rightarrow> w \<in> set FATAL_REASONS \<and> fatal_ok (Some w) (fresh f t) \<and> res_reason res = Some w)"

lemma result_valid_container:
  "result_valid (container_result ''done'' None c)"
  "result_valid (container_result ''failed'' (Some w) c) \<longleftrightarrow> w \<in> set FAILURE_REASONS"
  by (simp_all add: result_valid_def container_result_def)

lemma finish_result_run:
  assumes "result_valid (container_result status why (con s))"
  shows "finish_result status why s = (Inr (container_result status why (con s)), s)"
  using assms by (simp add: finish_result_def act_bind_def act_get_def mk_result_def act_ret_def)

lemma ended_done:
  assumes "Idle env f t"
  shows "\<exists>res. finish_result ''done'' None t = (Inr res, t) \<and> ended env f res t"
proof (intro exI conjI)
  let ?r = "container_result ''done'' None (con t)"
  show "finish_result ''done'' None t = (Inr ?r, t)" by (rule finish_result_run) (rule result_valid_container)
  show "ended env f ?r t" using assms result_valid_container(1) [of "con t"]
    by (simp add: ended_def Idle_def sane_def container_result_def)
qed

lemma ended_local:
  assumes "Idle env f t" and "local_reason w"
  shows "\<exists>res. finish_result ''failed'' (Some w) t = (Inr res, t) \<and> ended env f res t"
proof (intro exI conjI)
  let ?r = "container_result ''failed'' (Some w) (con t)"
  have v: "result_valid ?r" using assms(2) by (simp add: result_valid_container local_reason_def)
  show "finish_result ''failed'' (Some w) t = (Inr ?r, t)" by (rule finish_result_run [OF v])
  show "ended env f ?r t" using assms v
    by (simp add: ended_def Idle_def sane_def container_result_def local_reason_def)
qed

lemma ended_fatal:
  assumes "Fault env f (Fatal w) s" and "t = s\<lparr>fatal := Some w\<rparr>"
  shows "\<exists>res. finish_result ''failed'' (Some w) t = (Inr res, t) \<and> ended env f res t"
proof (intro exI conjI)
  let ?r = "container_result ''failed'' (Some w) (con t)"
  from assms(1) have core: "core env f s" and w: "w \<in> set FATAL_REASONS" "fatal_ok (Some w) (fresh f s)"
    and idle: "w_spool_path (wr s) = None" "w_spooled (wr s) = 0" by (simp_all add: Fault_def fault_def)
  have v: "result_valid ?r" using w(1) fatal_reasons_fail by (simp add: result_valid_container)
  show "finish_result ''failed'' (Some w) t = (Inr ?r, t)" by (rule finish_result_run [OF v])
  have fr: "fresh f t = fresh f s" using assms(2) by (simp add: fresh_def)
  have "core env f t"
    by (rule core_step [OF core]) (use core_spool [OF core] assms(2) in \<open>simp_all add: spool_kept_def\<close>)
  with w idle v fr assms(2) show "ended env f ?r t"
    by (simp add: ended_def container_result_def)
qed

lemma ended_opened:
  assumes "ended env ((start_frame s pre d hint)\<lparr>f_handled := None\<rparr>) res t"
  shows "opened env pre d s (drop (length (events s)) (events t)) res (t\<lparr>con := con s, wr := wr s\<rparr>)"
    and "d \<le> max_depth (bud t)"
proof -
  let ?f = "(start_frame s pre d hint)\<lparr>f_handled := None\<rparr>"
  have fr: "fresh ?f t = drop (length (events s)) (events t)" by (simp add: fresh_def start_frame_def)
  have start: "f_start ?f = s" "f_prefix ?f = pre" "f_depth ?f = d" "f_dirs ?f = 0" "f_reserved ?f = 0"
    by (simp_all add: start_frame_def)
  note parts = core_def logged_def spool_kept_def budget_kept_def start
  show "d \<le> max_depth (bud t)" using assms by (simp add: ended_def parts)
  have c: "live_spool (bud t) = live_spool (bud s)" "scratch_entries t = scratch_entries s"
    "events t = events s @ fresh ?f t" "container_log (cap_depth (e_caps env)) pre d (fresh ?f t)"
    "counts_own pre (fresh ?f t) (c_members (con t)) (c_bytes_hashed (con t))"
    "top_compressed (bud t) = top_compressed (bud s)" "max_depth (bud s) \<le> max_depth (bud t)"
    "max_depth (bud t) \<le> max (max_depth (bud s)) (max d (cap_depth (e_caps env)))"
    "tree_bytes (bud s) + member_bytes (fresh ?f t) \<le> tree_bytes (bud t)"
    using assms unfolding ended_def parts by auto
  have r: "result_valid res" "res_members res = c_members (con t)" "res_bytes res = c_bytes_hashed (con t)"
    "case fatal t of
        None \<Rightarrow> bounded env (bud t) \<and> fatal_ok None (fresh ?f t) \<and> ev_fatal_ok None (Ev_Result pre res)
      | Some w \<Rightarrow> w \<in> set FATAL_REASONS \<and> fatal_ok (Some w) (fresh ?f t) \<and> res_reason res = Some w"
    using assms by (auto simp: ended_def split: option.splits)
  show "opened env pre d s (drop (length (events s)) (events t)) res (t\<lparr>con := con s, wr := wr s\<rparr>)"
    unfolding fr [symmetric] opened_def using c r by (cases "fatal t") simp_all
qed

context nested_opener begin

lemma open_body_ends:
  assumes "env_ok env" and "levels_left env n (f_depth f)" and "f_handled f = Some []"
    and "f_dirs f = 0" and "f_reserved f = 0" and "f_raw f = []" and "distinct (link_names (f_hint f) files)"
    and "files \<noteq> []" and "Idle env f s"
  shows "\<exists>res t. open_body env child files s = (Inr res, t) \<and> ended env (f\<lparr>f_handled := None\<rparr>) res t"
proof -
  let ?g = "f\<lparr>f_handled := None\<rparr>"
  have tr: "triple (Idle env f) (read_container env child files) (\<lambda>_ s. Idle env ?g s) (Fault env ?g)"
    by (rule read_container_triple) (use assms in simp_all)
  obtain r t where run: "read_container env child files s = (r, t)" by fastforce
  show ?thesis
  proof (cases r)
    case (Inr u)
    have "Idle env ?g t" by (rule tripleD(1) [OF tr assms(9)]) (use run Inr in simp)
    then obtain res where "finish_result ''done'' None t = (Inr res, t)" "ended env ?g res t"
      using ended_done by blast
    with run Inr show ?thesis by (simp add: open_body_def act_catch_def act_seq_def act_bind_def)
  next
    case (Inl e)
    have flt: "Fault env ?g e t" by (rule tripleD(2) [OF tr assms(9)]) (use run Inl in simp)
    have body: "open_body env child files s = (case e of
          Fatal w \<Rightarrow> act_seq (act_mod (\<lambda>s. s\<lparr>fatal := (case fatal s of None \<Rightarrow> Some w | Some v \<Rightarrow> Some v)\<rparr>))
                      (finish_result ''failed'' (Some w))
        | Memory_Error \<Rightarrow> finish_result ''failed'' (Some ''oom'')
        | Local w \<Rightarrow> finish_result ''failed'' (Some w)
        | _ \<Rightarrow> act_raise e) t"
      using run Inl by (simp add: open_body_def act_catch_def act_seq_def act_bind_def)
    show ?thesis
    proof (cases e)
      case (Local w)
      with flt fault_local ended_local body show ?thesis by fastforce
    next
      case (Fatal w)
      have "fatal t = None \<or> fatal t = Some w" using flt Fatal by (simp add: Fault_def fault_def)
      then have "(case fatal t of None \<Rightarrow> Some w | Some v \<Rightarrow> Some v) = Some w" by auto
      then have "open_body env child files s = finish_result ''failed'' (Some w) (t\<lparr>fatal := Some w\<rparr>)"
        using body Fatal by (simp add: act_seq_def act_bind_def act_mod_def)
      with ended_fatal [OF flt [unfolded Fatal] refl] show ?thesis by fastforce
    next
      case Memory_Error
      with flt have "Idle env ?g t" by (simp add: Fault_def fault_def Idle_def)
      with ended_local [of env ?g t "''oom''"] body Memory_Error show ?thesis by fastforce
    qed (use flt assms(6) in \<open>simp_all add: Fault_def fault_def\<close>)
  qed
qed

lemma open_with_ok: "opener_ok env (Suc n) (open_with env child)"
  unfolding opener_ok_def
proof (intro allI impI, elim conjE)
  fix files pre d compressed hint and s :: eng
  assume env: "env_ok env" and files: "files \<noteq> []" "distinct (link_names hint files)"
    and lev: "nat (cap_depth (e_caps env) - d) < Suc n" and s: "fatal s = None" "bounded env (bud s)" "0 \<le> live_spool (bud s)"
  let ?f = "start_frame s pre d hint"
  have "levels_left env n d" using lev by (auto simp: levels_left_def)
  then obtain res t where t: "open_body env child files (entered s pre d compressed hint) = (Inr res, t)"
      "ended env (?f\<lparr>f_handled := None\<rparr>) res t"
    using open_body_ends [of ?f files "entered s pre d compressed hint"] env files entered_idle [OF s]
    by (auto simp: start_frame_def)
  have run: "open_with env child files pre d compressed hint s = (Inr res, t\<lparr>con := con s, wr := wr s\<rparr>)"
    using t(1) by (simp add: open_with_def in_frame_def act_seq_def act_bind_def act_mod_def entered_def)
  show "\<exists>res t new. open_with env child files pre d compressed hint s = (Inr res, t) \<and>
      opened env pre d s new res t \<and> d \<le> max_depth (bud t)"
    using run ended_opened [OF t(2)]
    by (intro exI [of _ res] exI [of _ "t\<lparr>con := con s, wr := wr s\<rparr>"]
        exI [of _ "drop (length (events s)) (events t)"]) simp
qed

end

lemma open_level_ok: "opener_ok env n (open_level env n)"
proof (induction n)
  case 0
  show ?case by (simp add: opener_ok_def)
next
  case (Suc n)
  then show ?case using nested_opener.open_with_ok [OF nested_opener.intro] by simp
qed

text \<open>Every level of the recursion is a provider of the contract.\<close>

interpretation lvl: nested_opener env n "open_level env n" for env n
  by unfold_locales (rule open_level_ok)

subsection \<open>A run of the engine\<close>

text \<open>The volumes of a source archive have different names, also once they are made safe for the
  private directory that 7zz reads them from.\<close>

definition sources_ok :: "(sfile \<times> source_stat) list \<Rightarrow> bool" where
  "sources_ok sources \<longleftrightarrow> (case sources of [] \<Rightarrow> False
     | ((name, _), _) # _ \<Rightarrow> distinct (link_names name (map fst sources)))"

lemma eng_init_ok:
  "fatal (eng_init env c) = None" "bounded env (bud (eng_init env c))" "live_spool (bud (eng_init env c)) = 0"
  "events (eng_init env c) = []" "scratch_entries (eng_init env c) = 0"
  "top_compressed (bud (eng_init env c)) = max c 1" "max_depth (bud (eng_init env c)) = 0"
  "tree_bytes (bud (eng_init env c)) = 0"
  by (simp_all add: eng_init_def budget_init_def bounded_def)

text \<open>The end of a run in one predicate: what the properties below take apart.\<close>

definition run_ends :: "env \<Rightarrow> int \<Rightarrow> result \<Rightarrow> eng \<Rightarrow> bool" where
  "run_ends env c res t \<longleftrightarrow> result_valid res \<and> live_spool (bud t) = 0 \<and> scratch_entries t = 0 \<and>
     container_log (cap_depth (e_caps env)) [] 1 (events t) \<and>
     counts_own [] (events t) (res_members res) (res_bytes res) \<and>
     0 \<le> res_depth res \<and> res_depth res \<le> max 1 (cap_depth (e_caps env)) \<and>
     (case fatal t of
        None \<Rightarrow> member_bytes (events t) \<le> max 0 (min (cap_total_bytes (e_caps env))
            (max (cap_ratio_floor_bytes (e_caps env)) (cap_ratio (e_caps env) * max c 1))) \<and>
          fatal_ok None (events t)
      | Some w \<Rightarrow> w \<in> set FATAL_REASONS \<and> fatal_ok (Some w) (events t) \<and> res_status res = ''failed'' \<and> res_reason res = Some w)"

lemma result_valid_failed_reason:
  "result_valid r \<Longrightarrow> res_reason r = Some w \<Longrightarrow> res_status r \<noteq> ''done''"
  by (auto simp: result_valid_def)

lemma finish_statuses:
  assumes "act_catch (act_seq m (finish_result ''done'' None)) h s = (Inr res, t)"
    and "\<And>e u. h e u = (Inr res, t) \<Longrightarrow> res_status res \<in> {''done'', ''failed''}"
  shows "res_status res \<in> {''done'', ''failed''}"
  using assms by (auto simp: act_catch_def act_seq_def act_bind_def finish_result_def act_get_def mk_result_def
      act_ret_def act_raise_def container_result_def split: prod.splits sum.splits if_splits)

lemma open_body_status:
  assumes "open_body env child files s = (Inr res, t)"
  shows "res_status res \<in> {''done'', ''failed''}"
  using assms unfolding open_body_def
  by (rule finish_statuses)
    (auto simp: act_seq_def act_bind_def finish_result_def act_get_def act_mod_def mk_result_def act_ret_def
      act_raise_def container_result_def split: engine_exn.splits if_splits)

lemma open_container_status:
  assumes "open_container env files pre d c hint s = (Inr res, t)"
  shows "res_status res \<in> {''done'', ''failed''}"
  using assms open_body_status
  by (auto simp: open_container_def levels_def open_with_def in_frame_def act_seq_def act_bind_def act_mod_def
      split: prod.splits sum.splits)

lemma run_archive_ends:
  assumes "env_ok env" and "sources_ok sources"
    and "stat_sources (length sources) 0 (map snd sources) = Inr c"
  shows "\<exists>res t. run_archive env sources = (Inr res, t) \<and> run_ends env c res t"
proof -
  from assms(2) obtain name content st rest where src: "sources = ((name, content), st) # rest"
    by (auto simp: sources_ok_def split: list.splits)
  let ?s = "eng_init env c" and ?files = "map fst sources"
  have "nat (cap_depth (e_caps env) - 1) < levels env 1" by (simp add: levels_def)
  then have "\<exists>res t new. open_level env (levels env 1) ?files [] 1 c name ?s = (Inr res, t) \<and>
      opened env [] 1 ?s new res t \<and> 1 \<le> max_depth (bud t)"
    using assms(1,2) eng_init_ok [of env c]
    by (intro open_level_ok [unfolded opener_ok_def, rule_format] conjI) (simp_all add: src sources_ok_def)
  then obtain res t new where o: "open_container env ?files [] 1 c name ?s = (Inr res, t)"
      "opened env [] 1 ?s new res t" "1 \<le> max_depth (bud t)"
    by (auto simp: open_container_def)
  have st: "res_status res \<in> {''done'', ''failed''}" by (rule open_container_status [OF o(1)])
  let ?r = "res\<lparr>res_depth := max_depth (bud t)\<rparr>"
  have valid: "result_valid res" and ev: "events t = new" using o(2) by (simp_all add: opened_def eng_init_ok)
  then have vr: "result_valid ?r" by (simp add: result_valid_def)
  have "stat_sources (length sources) 0 (map snd sources) = Inr c" by (rule assms(3))
  then have run: "run_archive env sources = (Inr ?r, t)"
    using o(1) vr by (simp add: run_archive_def src act_bind_def act_get_def mk_result_def act_ret_def)
  have facts: "live_spool (bud t) = 0" "scratch_entries t = 0"
    "container_log (cap_depth (e_caps env)) [] 1 new" "counts_own [] new (res_members res) (res_bytes res)"
    "top_compressed (bud t) = max c 1" "max_depth (bud t) \<le> max 1 (cap_depth (e_caps env))"
    "member_bytes new \<le> tree_bytes (bud t)"
    using o(2) by (auto simp: opened_def eng_init_ok)
  have "run_ends env c ?r t"
  proof (cases "fatal t")
    case None
    with o(2) have "tree_bytes (bud t) \<le> max 0 (tree_bound (e_caps env) (bud t))" "fatal_ok None new"
      by (simp_all add: opened_def bounded_def)
    with facts vr ev o(3) None show ?thesis by (simp add: run_ends_def tree_bound_def)
  next
    case (Some w)
    with o(2) have "w \<in> set FATAL_REASONS" "fatal_ok (Some w) new" "res_reason res = Some w" by (simp_all add: opened_def)
    moreover from this valid st have "res_status res = ''failed''" by (auto simp: result_valid_def)
    ultimately show ?thesis using facts vr ev o(3) Some by (simp add: run_ends_def)
  qed
  with run show ?thesis by blast
qed

text \<open>A source that cannot be read at all ends the run before anything was opened.\<close>

lemma stat_sources_fails:
  "stat_sources n acc sts = Inl why \<Longrightarrow> why \<in> {''missing_volume'', ''reader_error''}"
  by (induction sts arbitrary: acc) (auto split: source_stat.splits if_splits)

lemma run_archive_unreadable:
  assumes "stat_sources (length sources) 0 (map snd sources) = Inl why"
  shows "run_archive env sources = (Inr (failed_child why 1), eng_init env 0)" and "local_reason why"
proof -
  from stat_sources_fails [OF assms] show l: "local_reason why" by auto
  then show "run_archive env sources = (Inr (failed_child why 1), eng_init env 0)"
    using assms by (simp add: run_archive_def mk_result_def act_ret_def local_reason_def)
qed

lemma run_archive_total:
  assumes "env_ok env" and "sources_ok sources"
  obtains res t c where "run_archive env sources = (Inr res, t)" and "run_ends env c res t"
    and "stat_sources (length sources) 0 (map snd sources) = Inr c \<or> events t = [] \<and> fatal t = None"
proof (cases "stat_sources (length sources) 0 (map snd sources)")
  case (Inl why)
  have "run_ends env 0 (failed_child why 1) (eng_init env 0)"
    using run_archive_unreadable(2) [OF Inl]
    by (simp add: run_ends_def eng_init_ok log_start counts_own_def local_reason_def)
      (simp add: failed_child_def)
  with run_archive_unreadable(1) [OF Inl] that eng_init_ok show ?thesis by blast
next
  case (Inr c)
  with run_archive_ends [OF assms Inr] that show ?thesis by blast
qed


subsection \<open>What is reported of one member\<close>

text \<open>A writer that has read \<open>content\<close>, whatever the state around it.\<close>

definition has_read :: "string \<Rightarrow> string \<Rightarrow> writer \<Rightarrow> bool" where
  "has_read norm content w \<longleftrightarrow> w_norm w = norm \<and> w_bytes w = content \<and> w_size w = int (length content) \<and>
     w_head w = take MAGIC_BYTES content \<and>
     (case w_kind w of None \<Rightarrow> length content < MAGIC_BYTES
      | Some k \<Rightarrow> MAGIC_BYTES \<le> length content \<and> k = classify norm (take MAGIC_BYTES content)) \<and>
     (if is_stl_name norm then \<exists>c. w_stl w = Some c \<and> stl_inv content c else w_stl w = None)"

lemma spool_write_writer:
  "writer_same (wr s) (wr (spool_write env data s)) \<and> w_kind (wr (spool_write env data s)) = w_kind (wr s) \<and>
   con (spool_write env data s) = con s"
  by (simp add: spool_write_def reserve_spool_def drop_spool_def writer_same_def Let_def)

lemma decide_writer:
  "writer_same (wr s) (wr (decide env s)) \<and>
   w_kind (wr (decide env s)) = Some (classify (w_norm (wr s)) (w_head (wr s))) \<and> con (decide env s) = con s"
  by (simp add: decide_def spool_write_def reserve_spool_def drop_spool_def writer_same_def Let_def)

lemma feed_data_writer:
  assumes "has_read norm content ((wr s)\<lparr>w_size := int (length content)\<rparr>)"
    and "w_size (wr s) = int (length content + length data)"
  shows "has_read norm (content @ data) (wr (feed_data env data s)) \<and> con (feed_data env data s) = con s"
proof -
  let ?w = "(wr s)\<lparr>w_bytes := w_bytes (wr s) @ data, w_stl := map_option (stl_feed data) (w_stl (wr s))\<rparr>"
  have stl: "if is_stl_name norm then \<exists>c. w_stl ?w = Some c \<and> stl_inv (content @ data) c else w_stl ?w = None"
    using assms(1) stl_feed_inv by (auto simp: has_read_def split: if_splits)
  have w: "w_norm (wr s) = norm" "w_bytes (wr s) = content" "w_head (wr s) = take MAGIC_BYTES content"
    using assms(1) by (simp_all add: has_read_def)
  show ?thesis
  proof (cases "w_kind (wr s)")
    case (Some k)
    then have k: "MAGIC_BYTES \<le> length content" "k = classify norm (take MAGIC_BYTES content)"
      using assms(1) by (simp_all add: has_read_def)
    have "feed_data env data s = spool_write env data (s\<lparr>wr := ?w\<rparr>)"
      using Some by (simp add: feed_data_def Let_def)
    then show ?thesis using spool_write_writer [of "s\<lparr>wr := ?w\<rparr>" env data] k w Some assms(2) stl
      by (cases "is_stl_name norm") (simp_all add: has_read_def writer_same_def)
  next
    case None
    then have short: "length content < MAGIC_BYTES" using assms(1) by (simp add: has_read_def)
    let ?need = "MAGIC_BYTES - length (w_head (wr s))"
    let ?t = "s\<lparr>wr := ?w\<lparr>w_head := w_head (wr s) @ take ?need data\<rparr>\<rparr>"
    have head: "w_head (wr ?t) = take MAGIC_BYTES (content @ data)" using w short by simp
    show ?thesis
    proof (cases "length (w_head (wr ?t)) \<ge> MAGIC_BYTES")
      case False
      then have "feed_data env data s = ?t" using None by (simp add: feed_data_def Let_def)
      moreover have "length (content @ data) < MAGIC_BYTES" using False w short
        by (auto simp: min_def split: if_splits)
      ultimately show ?thesis using w head None assms(2) stl
        by (cases "is_stl_name norm") (simp_all add: has_read_def)
    next
      case True
      let ?r = "if length data > ?need then spool_write env (drop ?need data) (decide env ?t) else decide env ?t"
      have eq: "feed_data env data s = ?r" using True None by (simp add: feed_data_def Let_def)
      have kind: "w_kind (wr (decide env ?t)) = Some (classify norm (take MAGIC_BYTES (content @ data)))"
        using decide_writer [of ?t env] head w(1) by simp
      have "writer_same (wr ?t) (wr ?r) \<and> w_kind (wr ?r) = w_kind (wr (decide env ?t)) \<and> con ?r = con s"
      proof (cases "length data > ?need")
        case True
        with decide_writer [of ?t env] spool_write_writer [of "decide env ?t" env "drop ?need data"]
        show ?thesis unfolding writer_same_def by simp
      next
        case False
        with decide_writer [of ?t env] show ?thesis by simp
      qed
      then obtain r where r: "feed_data env data s = r" "writer_same (wr ?t) (wr r)"
        "w_kind (wr r) = Some (classify norm (take MAGIC_BYTES (content @ data)))" "con r = con s"
        unfolding eq [symmetric] kind by blast
      have "MAGIC_BYTES \<le> length (content @ data)" using True w short
        by (auto simp: min_def split: if_splits)
      moreover have "w_norm (wr r) = norm" "w_bytes (wr r) = content @ data"
          "w_size (wr r) = int (length (content @ data))" "w_head (wr r) = take MAGIC_BYTES (content @ data)"
          "w_stl (wr r) = w_stl ?w"
        using r(2) w head assms(2) by (simp_all add: writer_same_def)
      ultimately show ?thesis unfolding r(1) has_read_def using r(3,4) stl
        by (cases "is_stl_name norm") simp_all
    qed
  qed
qed

lemma on_budget_rest: "on_budget m s = (r, t) \<Longrightarrow> wr t = wr s \<and> con t = con s"
  by (auto simp: on_budget_def split: prod.splits)

lemma feed_writer:
  assumes "feed env data compressed s = (Inr u, t)" and "has_read norm content (wr s)"
  shows "has_read norm (content @ data) (wr t)"
    and "c_prefix (con t) = c_prefix (con s)" and "c_depth (con t) = c_depth (con s)"
proof -
  let ?n = "int (length data)"
  from assms(1) obtain s1 s2 s3 s4 s5 where steps:
    "on_budget (check_time (e_caps env) (e_clock env)) s = (Inr (), s1)"
    "s2 = s1\<lparr>wr := (wr s1)\<lparr>w_size := w_size (wr s1) + ?n\<rparr>, con := (con s1)\<lparr>c_bytes_out := c_bytes_out (con s1) + ?n\<rparr>\<rparr>"
    "on_budget (add_tree_bytes (e_caps env) ?n) s2 = (Inr (), s3)"
    "on_budget (check_member (e_caps env) (w_size (wr s3)) compressed) s3 = (Inr (), s4)"
    "on_budget (check_container (e_caps env) (c_bytes_out (con s4)) (c_compressed (con s4))) s4 = (Inr (), s5)"
    "t = feed_data env data s5"
    by (auto simp: feed_def Let_def act_seq_Inr act_bind_get_Inr act_mod_def)
  have w: "wr s5 = (wr s)\<lparr>w_size := w_size (wr s) + ?n\<rparr>"
    and c: "con s5 = (con s)\<lparr>c_bytes_out := c_bytes_out (con s) + ?n\<rparr>"
    using on_budget_rest [OF steps(1)] on_budget_rest [OF steps(3)] on_budget_rest [OF steps(4)]
      on_budget_rest [OF steps(5)] steps(2) by simp_all
  have "w_size (wr s) = int (length content)" using assms(2) by (simp add: has_read_def)
  then have "has_read norm (content @ data) (wr t) \<and> con t = con s5"
    unfolding steps(6) using assms(2) w by (intro feed_data_writer) (simp_all add: has_read_def)
  with c show "has_read norm (content @ data) (wr t)" "c_prefix (con t) = c_prefix (con s)"
    "c_depth (con t) = c_depth (con s)" by simp_all
qed

definition block_content :: "(string \<times> int) list \<Rightarrow> string" where
  "block_content bs = concat (takeWhile (\<lambda>b. b \<noteq> []) (map fst bs))"

lemma read_data_writer:
  assumes "read_data env pos consumed bs e s = (Inr u, t)" and "has_read norm content (wr s)"
  shows "has_read norm (content @ block_content bs) (wr t) \<and> c_prefix (con t) = c_prefix (con s) \<and>
    c_depth (con t) = c_depth (con s)"
  using assms
proof (induction bs arbitrary: pos consumed content s)
  case Nil
  then show ?case by (cases e) (auto simp: read_stop_def block_content_def act_run)
next
  case (Cons x bs)
  obtain b cur where x: "x = (b, cur)" by (cases x)
  show ?case
  proof (cases "b = []")
    case True
    with Cons.prems x show ?thesis by (simp add: block_content_def act_run)
  next
    case False
    with Cons.prems(1) x obtain s1 where f: "feed env b (Some (consumed + max 0 (cur - pos))) s = (Inr (), s1)"
      and r: "read_data env cur (consumed + max 0 (cur - pos)) bs e s1 = (Inr u, t)"
      by (auto simp: Let_def act_seq_Inr)
    from Cons.IH [OF r feed_writer(1) [OF f Cons.prems(2)]] feed_writer(2,3) [OF f Cons.prems(2)] x False
    show ?thesis by (simp add: block_content_def)
  qed
qed

lemma finish_member_event:
  assumes "has_read norm content (wr s)" and "finish_member env s = (t, chain, sha)"
  shows "events t = events (if w_kind (wr s) = None then decide env s else s) @
     [Ev_Member chain (e_sha env content) (int (length content)) (classify norm (take MAGIC_BYTES content))
       (if is_stl_name norm then stl_triangles content else None) (c_depth (con s))]"
    and "sha = e_sha env content"
    and "chain = c_prefix (con s) @ [chain_name norm (dict_get (c_seen (con s)) norm 0)]"
proof -
  let ?s = "if w_kind (wr s) = None then decide env s else s"
  have s: "writer_same (wr s) (wr ?s)" "con ?s = con s"
    "w_kind (wr ?s) = Some (classify norm (take MAGIC_BYTES content))"
    using decide_writer [of s env] assms(1) by (auto simp: has_read_def writer_same_def)
  have tri: "Option.bind (w_stl (wr ?s)) stl_result = (if is_stl_name norm then stl_triangles content else None)"
    using assms(1) s(1) stl_result_inv by (auto simp: has_read_def writer_same_def split: if_splits)
  have w: "w_norm (wr ?s) = norm" "w_bytes (wr ?s) = content" "w_size (wr ?s) = int (length content)"
    using assms(1) s(1) by (simp_all add: has_read_def writer_same_def)
  have "(t, chain, sha) = finish_member env s" using assms(2) by simp
  then show "events t = events ?s @
     [Ev_Member chain (e_sha env content) (int (length content)) (classify norm (take MAGIC_BYTES content))
       (if is_stl_name norm then stl_triangles content else None) (c_depth (con s))]"
    "sha = e_sha env content" "chain = c_prefix (con s) @ [chain_name norm (dict_get (c_seen (con s)) norm 0)]"
    unfolding finish_member_def chain_for_def Let_def prod.case
    using s w tri by simp_all
qed

subsection \<open>Properties\<close>

text \<open>The sources of the witnesses: a zip file that holds a zip file, with a clock that passes the wall
  cap when the inner one is opened, and a zip file that holds a text file. Runs are evaluated step by
  step: an action is unfolded only when it is applied to a state.\<close>

definition demo_entry :: "string \<Rightarrow> int \<Rightarrow> string \<Rightarrow> la_entry" where
  "demo_entry name ft b = \<lparr>le_name = name, le_filetype = ft, le_size = None, le_symlink = (ft = AE_IFLNK),
     le_hardlink = False, le_encrypted = False, le_format = None, le_pos = 0, le_blocks = [(b, 100)],
     le_end = Read_Eof\<rparr>"

definition demo_zip :: string where
  "demo_zip = ''PK'' @ [CHR 0x03, CHR 0x04]"

definition demo_env :: env where
  "demo_env = \<lparr>e_caps = default_caps\<lparr>cap_depth := 2\<rparr>, e_clock = (\<lambda>i. if i < 3 then 0 else 6000), e_sha = id,
     e_crc = (\<lambda>s. 0), e_decode = id,
     e_libarchive = (\<lambda>fs. if map fst fs = [''t.zip''] then La_Script [demo_entry ''x.zip'' AE_IFREG demo_zip] Read_Eof
       else La_Script [] Read_Eof),
     e_peek = (\<lambda>_ _ _. None), e_stream = (\<lambda>_ _. ([], False)), e_sevenzip = False,
     e_zz_list = (\<lambda>_ _. Zz_Timeout), e_zz_extract = (\<lambda>_ _ _. (Zz_Timeout, (\<lambda>_. X_Absent)))\<rparr>"

definition demo_sources :: "(sfile \<times> source_stat) list" where
  "demo_sources = [((''t.zip'', Some demo_zip), Src_File 4)]"

definition text_env :: env where
  "text_env = demo_env\<lparr>e_clock := (\<lambda>i. 0),
     e_libarchive := (\<lambda>fs. La_Script [demo_entry ''k.txt'' AE_IFREG ''hello''] Read_Eof)\<rparr>"

lemma act_apply:
  "act_bind m f s = (case m s of (Inl e, t) \<Rightarrow> (Inl e, t) | (Inr v, t) \<Rightarrow> f v t)"
  "act_seq m k s = (case m s of (Inl e, t) \<Rightarrow> (Inl e, t) | (Inr v, t) \<Rightarrow> k t)"
  "act_catch m h s = (case m s of (Inl e, t) \<Rightarrow> h e t | (Inr v, t) \<Rightarrow> (Inr v, t))"
  "act_finally m c s = (case m s of (r, t) \<Rightarrow> (r, c t))"
  by (simp_all add: act_seq_def act_bind_def act_catch_def act_finally_def)

lemma act_lazy:
  "act_bind m f s = act_bind m f s" "act_seq m k s = act_seq m k s" "act_catch m h s = act_catch m h s"
  "act_finally m c s = act_finally m c s"
  by simp_all

lemmas engine_eval = run_archive_def Let_def open_container_def levels_def open_with_def in_frame_def
  open_body_def read_container_def sniff_def read_with_fallback_def read_libarchive_def read_entry_def
  read_member_def act_apply act_run eng_init_def budget_init_def on_budget_def check_time_run
  add_tree_bytes_run check_member_def check_container_def deadline_def tree_bound_def demo_entry_def
  STREAM_FORMATS_def FALLBACK_FORMATS_def read_stop_def set_reader_def new_writer_def feed_def
  feed_data_def decide_def spool_write_def reserve_spool_def drop_spool_def release_spool_def finish_def
  finish_member_def chain_for_def chain_name_def open_child_def emit_def raise_fatal_def
  on_error_abort_def abort_def container_init_def writer_init_def finish_result_def container_result_def
  mk_result_def result_valid_def FAILURE_REASONS_def counter_inc_def dict_get_def after_last_id
  READ_AHEAD_SLACK_def

lemma demo_facts:
  "check_name ''x.zip'' = (Some ''x.zip'', None)" "check_name ''k.txt'' = (Some ''k.txt'', None)"
  "magic_format demo_zip = Some ''zip''" "classify ''x.zip'' demo_zip = Archive"
  "classify ''k.txt'' ''hello'' = Doc" "is_stl_name ''x.zip'' = False" "is_stl_name ''k.txt'' = False"
  "take MAGIC_BYTES demo_zip = demo_zip" "length demo_zip = 4" "demo_zip \<noteq> []" "MAGIC_BYTES \<le> 4 \<longleftrightarrow> False"
  "take MAGIC_BYTES ''hello'' = ''hello''" "MAGIC_BYTES \<le> 5 \<longleftrightarrow> False"
  "check_filetype AE_IFREG False False = None" "AE_IFREG = AE_IFDIR \<longleftrightarrow> False" "AE_IFREG = AE_IFLNK \<longleftrightarrow> False"
  by code_simp+

lemma demo_ok: "env_ok demo_env" "sources_ok demo_sources" "env_ok text_env"
  by (simp_all add: env_ok_def demo_env_def text_env_def sources_ok_def demo_sources_def link_names_def)

definition demo_result :: result where
  "demo_result = \<lparr>res_status = ''failed'', res_reason = Some ''timeout'', res_members = 1, res_bytes = 4,
     res_depth = 2, res_format = Some ''zip'', res_reader = Some ''libarchive''\<rparr>"

definition demo_nested :: result where
  "demo_nested = \<lparr>res_status = ''failed'', res_reason = Some ''timeout'', res_members = 0, res_bytes = 0,
     res_depth = 2, res_format = Some ''zip'', res_reader = Some ''libarchive''\<rparr>"

lemma demo_case:
  "case run_archive demo_env demo_sources of (r, t) \<Rightarrow> r = Inr demo_result \<and>
     events t = [Ev_Member [''x.zip''] demo_zip 4 Archive None 1, Ev_Nested [''x.zip''] demo_zip 4,
       Ev_Result [''x.zip''] demo_nested]"
  by (simp add: demo_env_def default_caps_def demo_sources_def demo_result_def demo_nested_def demo_facts
      engine_eval cong: act_lazy)

lemma text_case:
  "case run_archive text_env demo_sources of (r, t) \<Rightarrow>
     r = Inr \<lparr>res_status = ''done'', res_reason = None, res_members = 1,
       res_bytes = 5, res_depth = 1, res_format = Some ''zip'', res_reader = Some ''libarchive''\<rparr> \<and>
     events t = [Ev_Member [''k.txt''] ''hello'' 5 Doc None 1]"
  by code_simp

lemma demo_run:
  "\<exists>t. run_archive demo_env demo_sources = (Inr demo_result, t) \<and>
     events t = [Ev_Member [''x.zip''] demo_zip 4 Archive None 1, Ev_Nested [''x.zip''] demo_zip 4,
       Ev_Result [''x.zip''] demo_nested]"
  using demo_case by (cases "run_archive demo_env demo_sources") simp

lemma text_run:
  "\<exists>t. run_archive text_env demo_sources = (Inr \<lparr>res_status = ''done'', res_reason = None, res_members = 1,
       res_bytes = 5, res_depth = 1, res_format = Some ''zip'', res_reader = Some ''libarchive''\<rparr>, t) \<and>
     events t = [Ev_Member [''k.txt''] ''hello'' 5 Doc None 1]"
  using text_case by (cases "run_archive text_env demo_sources") simp



text \<open>
  C2. The sink is called as its protocol says: the calls of a run form the grammar of members,
  refusals and nested brackets (a nested archive is its member, its announcement, the calls of the
  child under its own prefix and the child's result with the child's own counts); no two members of
  the whole tree have the same chain; and the counts of the result are those of the top level.
\<close>

theorem archive_calls_bracketed:
  assumes "env_ok env" and "sources_ok sources" and "run_archive env sources = (Inr res, t)"
  shows "container_log (cap_depth (e_caps env)) [] 1 (events t) \<and> distinct (member_chains (events t)) \<and>
     counts_own [] (events t) (res_members res) (res_bytes res)"
proof -
  obtain c where "run_ends env c res t"
    by (rule run_archive_total [OF assms(1,2)]) (use assms(3) in auto)
  then show ?thesis using log_distinct by (auto simp: run_ends_def)
qed

theorem archive_calls_bracketed_witness:
  "\<exists>t. run_archive demo_env demo_sources = (Inr demo_result, t) \<and> length (events t) = 3 \<and>
     container_log 2 [] 1 (events t) \<and> distinct (member_chains (events t))"
proof -
  obtain t where run: "run_archive demo_env demo_sources = (Inr demo_result, t)" "length (events t) = 3"
    using demo_run by auto
  with archive_calls_bracketed [OF demo_ok(1,2) run(1)] show ?thesis
    by (auto simp: demo_env_def default_caps_def)
qed



text \<open>
  C3. A decompression bomb cannot get through: unless the run failed with one of the three reasons
  that abort a tree, the bytes reported from the whole tree are at most the byte cap and at most the
  ratio cap times the size of the source (or the floor under which ratios are not looked at).
\<close>

theorem archive_bomb_bounded:
  assumes "env_ok env" and "sources_ok sources" and "run_archive env sources = (Inr res, t)"
    and "stat_sources (length sources) 0 (map snd sources) = Inr compressed"
    and "\<forall>w \<in> set FATAL_REASONS. res_reason res \<noteq> Some w"
  shows "member_bytes (events t) \<le> max 0 (min (cap_total_bytes (e_caps env))
     (max (cap_ratio_floor_bytes (e_caps env)) (cap_ratio (e_caps env) * max compressed 1)))"
proof -
  obtain res' t' where r: "run_archive env sources = (Inr res', t')" "run_ends env compressed res' t'"
    using run_archive_ends [OF assms(1,2,4)] by blast
  with assms(3) have e: "run_ends env compressed res t" by simp
  show ?thesis
  proof (cases "fatal t")
    case None
    with e show ?thesis by (simp add: run_ends_def)
  next
    case (Some w)
    have "res_reason res = Some w" using e Some by (simp add: run_ends_def)
    moreover have "w \<in> set FATAL_REASONS" using e Some by (simp add: run_ends_def)
    ultimately show ?thesis using assms(5) by blast
  qed
qed

theorem archive_bomb_bounded_witness:
  "\<exists>res t. run_archive text_env demo_sources = (Inr res, t) \<and> res_status res = ''done'' \<and>
     member_bytes (events t) = 5 \<and>
     member_bytes (events t) \<le> max 0 (min (64 * 2 ^ 30) (max (16 * 2 ^ 20) (200 * max 4 1)))"
proof -
  obtain res t where run: "run_archive text_env demo_sources = (Inr res, t)" "res_reason res = None"
    "res_status res = ''done''" "events t = [Ev_Member [''k.txt''] ''hello'' 5 Doc None 1]"
    using text_run by fastforce
  have st: "stat_sources (length demo_sources) 0 (map snd demo_sources) = Inr 4" by (simp add: demo_sources_def)
  have "member_bytes (events t) \<le> max 0 (min (cap_total_bytes (e_caps text_env))
     (max (cap_ratio_floor_bytes (e_caps text_env)) (cap_ratio (e_caps text_env) * max 4 1)))"
    by (rule archive_bomb_bounded [OF demo_ok(3,2) run(1) st]) (simp add: run(2))
  then show ?thesis using run by (simp add: text_env_def demo_env_def default_caps_def)
qed

text \<open>
  C13. A fatal failure anywhere fails the whole archive: if the result of any nested container of the
  tree carries one of the three reasons that abort a tree, the run failed with that same reason.
\<close>

theorem fatal_fails_the_archive:
  assumes "env_ok env" and "sources_ok sources" and "run_archive env sources = (Inr res, t)"
    and "Ev_Result chain r \<in> set (events t)" and "res_reason r = Some w" and "w \<in> set FATAL_REASONS"
  shows "res_status res = ''failed'' \<and> res_reason res = Some w"
proof -
  obtain c where e: "run_ends env c res t"
    by (rule run_archive_total [OF assms(1,2)]) (use assms(3) in auto)
  show ?thesis
  proof (cases "fatal t")
    case None
    with e assms(4-6) show ?thesis by (auto simp: run_ends_def fatal_ok_def)
  next
    case (Some v)
    with e have "ev_fatal_ok (Some v) (Ev_Result chain r)" using assms(4)
      by (auto simp: run_ends_def fatal_ok_def)
    with assms(5,6) have "v = w" by simp
    with e Some show ?thesis by (simp add: run_ends_def)
  qed
qed

theorem fatal_fails_the_archive_witness:
  "\<exists>t. run_archive demo_env demo_sources = (Inr demo_result, t) \<and>
     Ev_Result [''x.zip''] demo_nested \<in> set (events t) \<and> res_reason demo_nested = Some ''timeout'' \<and>
     res_status demo_result = ''failed'' \<and> res_reason demo_result = Some ''timeout''"
proof -
  obtain t where run: "run_archive demo_env demo_sources = (Inr demo_result, t)"
    "Ev_Result [''x.zip''] demo_nested \<in> set (events t)"
    using demo_run by auto
  have "res_reason demo_nested = Some ''timeout''" by (simp add: demo_nested_def)
  from fatal_fails_the_archive [OF demo_ok(1,2) run this] this run show ?thesis by auto
qed

text \<open>
  C14. A member is reported for exactly the bytes that were read: when the blocks of a member have been
  read to their end, the report that follows carries the digest, the length, the kind (from the name
  and the first 512 bytes) and, for an STL name, the triangle count of their concatenation.
\<close>

theorem member_reported_whole:
  assumes "act_seq (new_writer norm None) (read_data env pos 0 blocks e) s = (Inr u, s1)"
    and "finish_member env s1 = (t, chain, sha)"
  shows "\<exists>x. chain = c_prefix (con s) @ [x] \<and> sha = e_sha env (block_content blocks) \<and>
     last (events t) = Ev_Member chain sha (int (length (block_content blocks)))
       (classify norm (take MAGIC_BYTES (block_content blocks)))
       (if is_stl_name norm then stl_triangles (block_content blocks) else None) (c_depth (con s))"
proof -
  let ?s0 = "s\<lparr>wr := writer_init norm None\<rparr>"
  have "has_read norm [] (wr ?s0)"
    by (simp add: has_read_def writer_init_def stl_inv_init MAGIC_BYTES_def)
  moreover have "read_data env pos 0 blocks e ?s0 = (Inr u, s1)"
    using assms(1) by (simp add: new_writer_def act_seq_def act_bind_def act_mod_def)
  ultimately have r: "has_read norm (block_content blocks) (wr s1)"
    "c_prefix (con s1) = c_prefix (con s)" "c_depth (con s1) = c_depth (con s)"
    using read_data_writer [of env pos 0 blocks e ?s0 u s1 norm "[]"] by simp_all
  from finish_member_event [OF r(1) assms(2)] r(2,3) show ?thesis by simp
qed

theorem member_reported_whole_witness:
  "\<exists>s1 t chain sha. finish_member text_env s1 = (t, chain, sha) \<and> chain = [''k.txt''] \<and>
     last (events t) = Ev_Member chain sha 5 Doc None 1 \<and> sha = ''hello''"
proof -
  let ?s = "(eng_init text_env 4)\<lparr>con := container_init [] 1 4 ''t.zip''\<rparr>"
  let ?m = "act_seq (new_writer ''k.txt'' None) (read_data text_env 0 0 [(''hel'', 2), (''lo'', 4)] Read_Eof) ?s"
  have content: "block_content [(''hel'', 2), (''lo'', 4)] = ''hello''" by (simp add: block_content_def)
  have ok: "case ?m of (r, s1) \<Rightarrow> r = Inr () \<and> fst (snd (finish_member text_env s1)) = [''k.txt'']"
    by code_simp
  obtain s1 where run: "?m = (Inr (), s1)" and fm: "fst (snd (finish_member text_env s1)) = [''k.txt'']"
    using ok by (auto split: prod.splits)
  obtain t chain sha where f: "finish_member text_env s1 = (t, chain, sha)" by (cases "finish_member text_env s1") auto
  from member_reported_whole [OF run f] fm f show ?thesis
    by (intro exI [of _ s1] exI [of _ t] exI [of _ chain] exI [of _ sha])
      (simp add: content demo_facts text_env_def demo_env_def container_init_def)
qed



end
