(* ===== verification/Regex.thy ===== *)
theory Regex
  imports PyStr
begin

text \<open>
  The part of Python's \<open>re\<close> that the modelled code uses, as data: a pattern is a term of type \<open>rx\<close> and
  \<open>rx_run\<close> is the backtracking matcher, with the order of alternatives and the greedy and lazy
  repetitions of \<open>re\<close>, so that captured groups are the ones Python returns. Repetition is over single
  characters, which covers every pattern of the code. \<open>rx_rel\<close> is the declarative meaning; the matcher
  succeeds exactly when a match in that sense exists whose continuation succeeds.
\<close>

named_theorems rx_simps "evaluation of the matcher"

type_synonym rx_groups = "(string \<times> string) list"
type_synonym rx_pos = "string \<times> string \<times> rx_groups"

datatype rx =
    Eps
  | Cls "char \<Rightarrow> bool"
  | Seq rx rx
  | Alt rx rx
  | Rep bool nat "nat option" "char \<Rightarrow> bool"
  | Cap string rx
  | Bol
  | Eol
  | After "char \<Rightarrow> bool"
  | Not_Next "char \<Rightarrow> bool"

fun rx_rep :: "bool \<Rightarrow> (char \<Rightarrow> bool) \<Rightarrow> nat \<Rightarrow> nat option \<Rightarrow> (rx_pos \<Rightarrow> 'r option) \<Rightarrow> string \<Rightarrow> string \<Rightarrow>
    rx_groups \<Rightarrow> 'r option" where
  "rx_rep greedy p lo hi k b [] g = (if lo = 0 then k (b, [], g) else None)"
| "rx_rep greedy p lo hi k b (c # cs) g =
     (if p c \<and> hi \<noteq> Some 0 then
        if greedy then
          (case rx_rep greedy p (lo - 1) (map_option (\<lambda>h. h - 1) hi) k (c # b) cs g of
             Some v \<Rightarrow> Some v
           | None \<Rightarrow> if lo = 0 then k (b, c # cs, g) else None)
        else
          (case (if lo = 0 then k (b, c # cs, g) else None) of
             Some v \<Rightarrow> Some v
           | None \<Rightarrow> rx_rep greedy p (lo - 1) (map_option (\<lambda>h. h - 1) hi) k (c # b) cs g)
      else if lo = 0 then k (b, c # cs, g) else None)"

primrec rx_run :: "rx \<Rightarrow> (rx_pos \<Rightarrow> 'r option) \<Rightarrow> rx_pos \<Rightarrow> 'r option" where
  "rx_run Eps k = k"
| "rx_run (Cls p) k = (\<lambda>(b, s, g). case s of [] \<Rightarrow> None | c # cs \<Rightarrow> if p c then k (c # b, cs, g) else None)"
| "rx_run (Seq r1 r2) k = rx_run r1 (rx_run r2 k)"
| "rx_run (Alt r1 r2) k = (\<lambda>x. case rx_run r1 k x of Some v \<Rightarrow> Some v | None \<Rightarrow> rx_run r2 k x)"
| "rx_run (Rep greedy lo hi p) k = (\<lambda>(b, s, g). rx_rep greedy p lo hi k b s g)"
| "rx_run (Cap n r) k = (\<lambda>(b, s, g). rx_run r
     (\<lambda>(b', s', g'). k (b', s', (n, rev (take (length b' - length b) b')) # g')) (b, s, g))"
| "rx_run Bol k = (\<lambda>(b, s, g). if b = [] then k (b, s, g) else None)"
| "rx_run Eol k = (\<lambda>(b, s, g). if s = [] \<or> s = [CHR 0x0A] then k (b, s, g) else None)"
| "rx_run (After p) k = (\<lambda>(b, s, g). case b of [] \<Rightarrow> None | c # _ \<Rightarrow> if p c then k (b, s, g) else None)"
| "rx_run (Not_Next p) k = (\<lambda>(b, s, g). case s of [] \<Rightarrow> k (b, s, g)
     | c # _ \<Rightarrow> if p c then None else k (b, s, g))"

text \<open>\<open>re.match\<close>: the groups of the match at the start; \<open>re.search\<close>: what is before and after the first
  match; \<open>re.sub(r, w, s, count=1)\<close>.\<close>

definition rx_match :: "rx \<Rightarrow> string \<Rightarrow> rx_groups option" where
  "rx_match r s = rx_run r (\<lambda>(_, _, g). Some g) ([], s, [])"

definition rx_group :: "string \<Rightarrow> rx_groups \<Rightarrow> string" where
  "rx_group n g = dict_get g n []"

fun rx_search :: "rx \<Rightarrow> string \<Rightarrow> string \<Rightarrow> (string \<times> string) option" where
  "rx_search r b [] = rx_run r (\<lambda>(_, s', _). Some (rev b, s')) (b, [], [])"
| "rx_search r b (c # cs) =
     (case rx_run r (\<lambda>(_, s', _). Some (rev b, s')) (b, c # cs, []) of
        Some m \<Rightarrow> Some m
      | None \<Rightarrow> rx_search r (c # b) cs)"

definition rx_sub1 :: "rx \<Rightarrow> string \<Rightarrow> string \<Rightarrow> string" where
  "rx_sub1 r w s = (case rx_search r [] s of None \<Rightarrow> s | Some (pre, post) \<Rightarrow> pre @ w @ post)"

text \<open>Literals: exactly, and under \<open>IGNORECASE\<close>; classes of characters.\<close>

fun rx_lit :: "string \<Rightarrow> rx" where
  "rx_lit [] = Eps"
| "rx_lit (c # cs) = Seq (Cls (\<lambda>x. x = c)) (rx_lit cs)"

fun rx_ilit :: "string \<Rightarrow> rx" where
  "rx_ilit [] = Eps"
| "rx_ilit (c # cs) = Seq (Cls (\<lambda>x. lower_char x = lower_char c)) (rx_ilit cs)"

fun rx_alts :: "rx list \<Rightarrow> rx" where
  "rx_alts [] = Cls (\<lambda>_. False)"
| "rx_alts [r] = r"
| "rx_alts (r # rs) = Alt r (rx_alts rs)"

fun rx_seq :: "rx list \<Rightarrow> rx" where
  "rx_seq [] = Eps"
| "rx_seq [r] = r"
| "rx_seq (r # rs) = Seq r (rx_seq rs)"

definition rx_dot :: "char \<Rightarrow> bool" where
  "rx_dot c \<longleftrightarrow> c \<noteq> CHR 0x0A"

subsection \<open>The declarative meaning\<close>

definition rep_rel :: "(char \<Rightarrow> bool) \<Rightarrow> nat \<Rightarrow> nat option \<Rightarrow> rx_pos \<Rightarrow> rx_pos \<Rightarrow> bool" where
  "rep_rel p lo hi x y \<longleftrightarrow> (case (x, y) of ((b, s, g), (b', s', g')) \<Rightarrow>
     \<exists>w. s = w @ s' \<and> b' = rev w @ b \<and> g' = g \<and> (\<forall>c \<in> set w. p c) \<and> lo \<le> length w \<and>
       (case hi of None \<Rightarrow> True | Some h \<Rightarrow> length w \<le> h))"

primrec rx_rel :: "rx \<Rightarrow> rx_pos \<Rightarrow> rx_pos \<Rightarrow> bool" where
  "rx_rel Eps = (\<lambda>x y. y = x)"
| "rx_rel (Cls p) = (\<lambda>(b, s, g) y. \<exists>c cs. s = c # cs \<and> p c \<and> y = (c # b, cs, g))"
| "rx_rel (Seq r1 r2) = (\<lambda>x y. \<exists>z. rx_rel r1 x z \<and> rx_rel r2 z y)"
| "rx_rel (Alt r1 r2) = (\<lambda>x y. rx_rel r1 x y \<or> rx_rel r2 x y)"
| "rx_rel (Rep greedy lo hi p) = rep_rel p lo hi"
| "rx_rel (Cap n r) = (\<lambda>(b, s, g) y. \<exists>b' s' g'. rx_rel r (b, s, g) (b', s', g') \<and>
     y = (b', s', (n, rev (take (length b' - length b) b')) # g'))"
| "rx_rel Bol = (\<lambda>(b, s, g) y. b = [] \<and> y = (b, s, g))"
| "rx_rel Eol = (\<lambda>(b, s, g) y. (s = [] \<or> s = [CHR 0x0A]) \<and> y = (b, s, g))"
| "rx_rel (After p) = (\<lambda>(b, s, g) y. (\<exists>c b'. b = c # b' \<and> p c) \<and> y = (b, s, g))"
| "rx_rel (Not_Next p) = (\<lambda>(b, s, g) y. (\<forall>c cs. s = c # cs \<longrightarrow> \<not> p c) \<and> y = (b, s, g))"

lemma rep_rel_Nil: "rep_rel p lo hi (b, [], g) y \<longleftrightarrow> lo = 0 \<and> y = (b, [], g)"
  by (cases y) (auto simp: rep_rel_def split: option.splits)

lemma rep_rel_Cons:
  "rep_rel p lo hi (b, c # cs, g) y \<longleftrightarrow> (lo = 0 \<and> y = (b, c # cs, g)) \<or>
     (p c \<and> hi \<noteq> Some 0 \<and> rep_rel p (lo - 1) (map_option (\<lambda>h. h - 1) hi) (c # b, cs, g) y)"
proof (cases y)
  case (fields b' s' g')
  have "rep_rel p lo hi (b, c # cs, g) y \<longleftrightarrow> (\<exists>w. c # cs = w @ s' \<and> b' = rev w @ b \<and> g' = g \<and>
      (\<forall>c \<in> set w. p c) \<and> lo \<le> length w \<and> (case hi of None \<Rightarrow> True | Some h \<Rightarrow> length w \<le> h))"
    by (simp add: rep_rel_def fields)
  also have "\<dots> \<longleftrightarrow> (lo = 0 \<and> y = (b, c # cs, g)) \<or> (\<exists>v. cs = v @ s' \<and> b' = rev v @ c # b \<and> g' = g \<and>
      p c \<and> (\<forall>c \<in> set v. p c) \<and> lo \<le> Suc (length v) \<and>
      (case hi of None \<Rightarrow> True | Some h \<Rightarrow> Suc (length v) \<le> h))" (is "?L \<longleftrightarrow> ?R")
  proof
    assume ?L
    then obtain w where w: "c # cs = w @ s'" "b' = rev w @ b" "g' = g" "\<forall>c \<in> set w. p c" "lo \<le> length w"
      "case hi of None \<Rightarrow> True | Some h \<Rightarrow> length w \<le> h" by blast
    then show ?R by (cases w) (auto simp: fields split: option.splits)
  next
    assume ?R
    then show ?L
    proof
      assume "lo = 0 \<and> y = (b, c # cs, g)"
      then show ?L by (intro exI [of _ "[]"]) (auto simp: fields split: option.splits)
    next
      assume "\<exists>v. cs = v @ s' \<and> b' = rev v @ c # b \<and> g' = g \<and> p c \<and> (\<forall>c \<in> set v. p c) \<and>
        lo \<le> Suc (length v) \<and> (case hi of None \<Rightarrow> True | Some h \<Rightarrow> Suc (length v) \<le> h)"
      then obtain v where "cs = v @ s'" "b' = rev v @ c # b" "g' = g" "p c" "\<forall>c \<in> set v. p c"
        "lo \<le> Suc (length v)" "case hi of None \<Rightarrow> True | Some h \<Rightarrow> Suc (length v) \<le> h" by blast
      then show ?L by (intro exI [of _ "c # v"]) (auto split: option.splits)
    qed
  qed
  also have "\<dots> \<longleftrightarrow> (lo = 0 \<and> y = (b, c # cs, g)) \<or>
     (p c \<and> hi \<noteq> Some 0 \<and> rep_rel p (lo - 1) (map_option (\<lambda>h. h - 1) hi) (c # b, cs, g) y)"
    by (cases hi) (auto simp: rep_rel_def fields)
  finally show ?thesis .
qed

lemma rx_rep_sound:
  "rx_rep gr p lo hi k b s g = Some v \<Longrightarrow> \<exists>y. rep_rel p lo hi (b, s, g) y \<and> k y = Some v"
  by (induction gr p lo hi k b s g rule: rx_rep.induct)
    (auto simp: rep_rel_Nil rep_rel_Cons split: if_splits option.splits)

lemma rx_rep_complete:
  "rep_rel p lo hi (b, s, g) y \<Longrightarrow> k y \<noteq> None \<Longrightarrow> rx_rep gr p lo hi k b s g \<noteq> None"
  by (induction gr p lo hi k b s g rule: rx_rep.induct)
    (auto simp: rep_rel_Nil rep_rel_Cons split: if_splits option.splits)

lemma rx_run_sound: "rx_run r k x = Some v \<Longrightarrow> \<exists>y. rx_rel r x y \<and> k y = Some v"
proof (induction r arbitrary: k x)
  case (Seq r1 r2)
  from Seq.IH(1) [of "rx_run r2 k" x] Seq.prems obtain z where z: "rx_rel r1 x z" "rx_run r2 k z = Some v"
    by auto
  from Seq.IH(2) [OF z(2)] obtain y where "rx_rel r2 z y" "k y = Some v" by blast
  with z(1) show ?case unfolding rx_rel.simps by blast
next
  case (Alt r1 r2)
  show ?case
  proof (cases "rx_run r1 k x")
    case None
    with Alt.prems have "rx_run r2 k x = Some v" by simp
    from Alt.IH(2) [OF this] show ?thesis unfolding rx_rel.simps by blast
  next
    case (Some u)
    with Alt.prems have "rx_run r1 k x = Some v" by simp
    from Alt.IH(1) [OF this] show ?thesis unfolding rx_rel.simps by blast
  qed
next
  case (Rep greedy lo hi p)
  obtain b s g where x: "x = (b, s, g)" by (cases x)
  with Rep have "rx_rep greedy p lo hi k b s g = Some v" by simp
  from rx_rep_sound [OF this] show ?case unfolding x rx_rel.simps .
next
  case (Cap n r)
  obtain b s g where x: "x = (b, s, g)" by (cases x)
  from Cap.prems have "rx_run r (\<lambda>(b', s', g'). k (b', s', (n, rev (take (length b' - length b) b')) # g'))
      (b, s, g) = Some v" by (simp add: x)
  from Cap.IH [OF this] obtain y where y: "rx_rel r (b, s, g) y"
    "(\<lambda>(b', s', g'). k (b', s', (n, rev (take (length b' - length b) b')) # g')) y = Some v" by blast
  then show ?case by (cases y) (simp add: x, blast)
qed (auto split: option.splits list.splits if_splits)

lemma rx_run_complete: "rx_rel r x y \<Longrightarrow> k y \<noteq> None \<Longrightarrow> rx_run r k x \<noteq> None"
proof (induction r arbitrary: k x y)
  case Eps
  then show ?case by simp
next
  case (Cls p)
  then show ?case by (cases x) auto
next
  case (Seq r1 r2)
  from Seq.prems(1) obtain z where z: "rx_rel r1 x z" "rx_rel r2 z y" unfolding rx_rel.simps by blast
  have "rx_run r2 k z \<noteq> None" by (rule Seq.IH(2)) (rule z(2), rule Seq.prems(2))
  then have "rx_run r1 (rx_run r2 k) x \<noteq> None" by (rule Seq.IH(1) [OF z(1)])
  then show ?case by simp
next
  case (Alt r1 r2)
  then consider "rx_rel r1 x y" | "rx_rel r2 x y" by auto
  then show ?case
  proof cases
    case 1
    then have "rx_run r1 k x \<noteq> None" by (rule Alt.IH(1)) (rule Alt.prems(2))
    then show ?thesis by auto
  next
    case 2
    then have "rx_run r2 k x \<noteq> None" by (rule Alt.IH(2)) (rule Alt.prems(2))
    then show ?thesis by (auto split: option.splits)
  qed
next
  case (Rep greedy lo hi p)
  then show ?case by (cases x) (simp, drule rx_rep_complete [where k = k and gr = greedy], simp_all)
next
  case (Cap n r)
  obtain b s g where x: "x = (b, s, g)" by (cases x)
  with Cap.prems obtain b' s' g' where "rx_rel r (b, s, g) (b', s', g')"
    "y = (b', s', (n, rev (take (length b' - length b) b')) # g')" by auto
  with Cap.IH [of "(b, s, g)" "(b', s', g')"
      "\<lambda>(b', s', g'). k (b', s', (n, rev (take (length b' - length b) b')) # g')"] Cap.prems
  show ?case by (simp add: x)
next
  case Bol
  then show ?case by (cases x) auto
next
  case Eol
  then show ?case by (cases x) auto
next
  case (After p)
  then show ?case by (cases x) auto
next
  case (Not_Next p)
  obtain b s g where x: "x = (b, s, g)" by (cases x)
  with Not_Next show ?case by (cases s) auto
qed

text \<open>A match consumes exactly what is between the two positions.\<close>

lemma rx_rel_span: "rx_rel r (b, s, g) (b', s', g') \<Longrightarrow> \<exists>w. s = w @ s' \<and> b' = rev w @ b"
proof (induction r arbitrary: b s g b' s' g')
  case (Seq r1 r2)
  then obtain b1 s1 g1 where z: "rx_rel r1 (b, s, g) (b1, s1, g1)" "rx_rel r2 (b1, s1, g1) (b', s', g')"
    by auto
  from Seq.IH(1) [OF z(1)] obtain w where "s = w @ s1" "b1 = rev w @ b" by blast
  moreover from Seq.IH(2) [OF z(2)] obtain v where "s1 = v @ s'" "b' = rev v @ b1" by blast
  ultimately show ?case by (intro exI [of _ "w @ v"]) simp
next
  case (Cap n r)
  then show ?case by auto
qed (auto simp: rep_rel_def)

lemma rx_match_iff: "rx_match r s \<noteq> None \<longleftrightarrow> (\<exists>y. rx_rel r ([], s, []) y)"
proof
  assume "rx_match r s \<noteq> None"
  then obtain g where "rx_run r (\<lambda>(_, _, g). Some g) ([], s, []) = Some g" by (auto simp: rx_match_def)
  from rx_run_sound [OF this] show "\<exists>y. rx_rel r ([], s, []) y" by blast
next
  assume "\<exists>y. rx_rel r ([], s, []) y"
  then obtain y where y: "rx_rel r ([], s, []) y" ..
  show "rx_match r s \<noteq> None"
    unfolding rx_match_def by (rule rx_run_complete [OF y]) (cases y, simp)
qed

lemma rx_match_rel: "rx_match r s = Some g \<Longrightarrow> \<exists>b s'. rx_rel r ([], s, []) (b, s', g)"
  unfolding rx_match_def by (drule rx_run_sound) (auto split: prod.splits)

lemma rx_ilit_rel:
  "rx_rel (rx_ilit w) (b, s, g) y \<longleftrightarrow>
     (\<exists>v s'. s = v @ s' \<and> str_lower v = str_lower w \<and> y = (rev v @ b, s', g))"
proof (induction w arbitrary: b s)
  case Nil
  show ?case by (auto simp: str_lower_def)
next
  case (Cons c cs)
  have "rx_rel (rx_ilit (c # cs)) (b, s, g) y \<longleftrightarrow> (\<exists>d s1. s = d # s1 \<and> lower_char d = lower_char c \<and>
      rx_rel (rx_ilit cs) (d # b, s1, g) y)"
    by (simp only: rx_ilit.simps rx_rel.simps prod.case) blast
  also have "\<dots> \<longleftrightarrow> (\<exists>d s1 v s'. s = d # s1 \<and> lower_char d = lower_char c \<and>
      s1 = v @ s' \<and> str_lower v = str_lower cs \<and> y = (rev v @ d # b, s', g))"
    by (simp only: Cons) blast
  also have "\<dots> \<longleftrightarrow> (\<exists>v s'. s = v @ s' \<and> str_lower v = str_lower (c # cs) \<and> y = (rev v @ b, s', g))"
  proof
    assume "\<exists>d s1 v s'. s = d # s1 \<and> lower_char d = lower_char c \<and> s1 = v @ s' \<and>
      str_lower v = str_lower cs \<and> y = (rev v @ d # b, s', g)"
    then obtain d s1 v s' where "s = d # s1" "lower_char d = lower_char c" "s1 = v @ s'"
      "str_lower v = str_lower cs" "y = (rev v @ d # b, s', g)" by blast
    then show "\<exists>v s'. s = v @ s' \<and> str_lower v = str_lower (c # cs) \<and> y = (rev v @ b, s', g)"
      by (intro exI [of _ "d # v"] exI [of _ s']) (simp add: str_lower_def)
  next
    assume "\<exists>v s'. s = v @ s' \<and> str_lower v = str_lower (c # cs) \<and> y = (rev v @ b, s', g)"
    then obtain v s' where v: "s = v @ s'" "str_lower v = str_lower (c # cs)" "y = (rev v @ b, s', g)" by blast
    then obtain d v' where "v = d # v'" "lower_char d = lower_char c" "str_lower v' = str_lower cs"
      by (cases v) (auto simp: str_lower_def)
    with v show "\<exists>d s1 v s'. s = d # s1 \<and> lower_char d = lower_char c \<and> s1 = v @ s' \<and>
      str_lower v = str_lower cs \<and> y = (rev v @ d # b, s', g)" by auto
  qed
  finally show ?case .
qed

text \<open>When only one split point can succeed, a greedy repetition finds it: the result is the one of the
  continuation there.\<close>

lemma rx_rep_unique:
  assumes "\<forall>c \<in> set w. p c" and "lo \<le> length w" and "k (rev w @ b, s', g) = Some v"
    and "\<And>u t. w @ s' = u @ t \<Longrightarrow> u \<noteq> w \<Longrightarrow> k (rev u @ b, t, g) = None"
  shows "rx_rep greedy p lo None k b (w @ s') g = Some v"
proof -
  have "rep_rel p lo None (b, w @ s', g) (rev w @ b, s', g)"
    using assms(1,2) by (auto simp: rep_rel_def)
  then have "rx_rep greedy p lo None k b (w @ s') g \<noteq> None"
    by (rule rx_rep_complete) (simp add: assms(3))
  then obtain v' where v': "rx_rep greedy p lo None k b (w @ s') g = Some v'" by blast
  from rx_rep_sound [OF this] obtain y where y: "rep_rel p lo None (b, w @ s', g) y" "k y = Some v'" by blast
  then obtain u t where u: "w @ s' = u @ t" "y = (rev u @ b, t, g)"
    by (cases y) (auto simp: rep_rel_def)
  have "u = w"
  proof (rule ccontr)
    assume "u \<noteq> w"
    from assms(4) [OF u(1) this] y(2) u(2) show False by simp
  qed
  with u y assms(3) v' show ?thesis by simp
qed

end
