(* ===== verification/Volumes.thy ===== *)
theory Volumes
  imports Regex "HOL-Library.Product_Lexorder" "HOL-Library.List_Lexorder" "HOL-Library.Char_ord"
    "HOL-Library.Multiset" "HOL-Library.Word"
begin

unbundle bit_operations_syntax

text \<open>
  The pure part of \<^verbatim>\<open>forge/src/forge/walker.py\<close>: how the files found under the source root become
  containers. Names of split archives are parsed with the patterns of the source, volumes are grouped
  into sets, the numbers a set lacks are reported, and loose files are cut into batches. A file is
  seen through what \<open>os.read\<close> returns at an offset (\<open>None\<close>: it raised \<open>OSError\<close>). The theorems: the
  grouping loses and duplicates no file, a set that is not flagged has all its volumes in order, a
  batch respects both caps, a RAR5 header is read as it was written.
\<close>

datatype source_kind = Sf_Archive | Sf_Loose

datatype volume_no = Vol int | Vol_Lead | Vol_Dup int

record walk_file =
  wf_path :: string
  wf_size :: int
  wf_mtime_ns :: int
  wf_kind :: source_kind
  wf_format :: "string option"
  wf_volume_set :: "string option"
  wf_volume_ordinal :: "nat option"
  wf_rar_volume :: "bool option"

record archive_group =
  ag_volume_set :: "string option"
  ag_files :: "walk_file list"
  ag_format :: "string option"
  ag_missing_volume :: bool
  ag_missing :: "volume_no list"

record loose_batch =
  lb_files :: "walk_file list"
  lb_bytes :: int

definition LOOSE_BATCH_MAX_FILES :: nat where "LOOSE_BATCH_MAX_FILES = 500"
definition LOOSE_BATCH_MAX_BYTES :: int where "LOOSE_BATCH_MAX_BYTES = 2 * 1024 * 1024 * 1024"

definition ARCHIVE_SUFFIXES :: "string list" where
  "ARCHIVE_SUFFIXES = [''.tar.gz'', ''.tar.bz2'', ''.tar.xz'', ''.tgz'', ''.tar'', ''.zip'', ''.rar'',
     ''.7z'', ''.cbz'', ''.cbr'', ''.gz'', ''.bz2'', ''.xz'']"

definition MAGICS :: "(string \<times> string) list" where
  "MAGICS = [
     (''Rar!'' @ [CHR 0x1A, CHR 0x07, CHR 0x01, CHR 0x00], ''rar5''),
     (''Rar!'' @ [CHR 0x1A, CHR 0x07, CHR 0x00], ''rar4''),
     (''7z'' @ [CHR 0xBC, CHR 0xAF, CHR 0x27, CHR 0x1C], ''7z''),
     (CHR 0xFD # ''7zXZ'' @ [CHR 0x00], ''xz''),
     (''PK'' @ [CHR 0x03, CHR 0x04], ''zip''),
     (''PK'' @ [CHR 0x05, CHR 0x06], ''zip''),
     (''PK'' @ [CHR 0x07, CHR 0x08], ''zip''),
     ([CHR 0x1F, CHR 0x8B], ''gzip''),
     (''BZh'', ''bzip2'')]"

subsection \<open>Names of volumes\<close>

definition rx_digits :: "string \<Rightarrow> nat \<Rightarrow> nat option \<Rightarrow> rx" where
  "rx_digits n lo hi = Cap n (Rep True lo hi is_digit)"

definition rx_base :: rx where
  "rx_base = Cap ''base'' (Rep True 1 None rx_dot)"

definition RE_EXT_NNN :: rx where
  "RE_EXT_NNN = rx_seq [Bol, rx_base, rx_lit ''.'', Cap ''ext'' (rx_alts [rx_ilit ''7z'', rx_ilit ''zip'']),
     rx_lit ''.'', rx_digits ''num'' 3 (Some 3), Eol]"

definition RE_PART :: rx where
  "RE_PART = rx_seq [Bol, rx_base, rx_ilit ''.part'', rx_digits ''num'' 1 None, rx_lit ''.'',
     Cap ''ext'' (rx_alts [rx_ilit ''rar'', rx_ilit ''zip'', rx_ilit ''7z'']), Eol]"

definition part_sep :: "char \<Rightarrow> bool" where
  "part_sep c \<longleftrightarrow> c \<in> set '' ._-''"

definition RE_PARTX :: rx where
  "RE_PARTX = rx_seq [Bol, Cap ''pre'' (Rep False 0 None rx_dot), Alt (After part_sep) Bol, rx_ilit ''part'',
     Rep True 0 (Some 1) part_sep, rx_digits ''num'' 1 None, Cap ''post'' (Rep True 0 None rx_dot),
     rx_lit ''.'', Cap ''ext'' (rx_ilit ''rar''), Eol]"

definition RE_RNN :: rx where
  "RE_RNN = rx_seq [Bol, rx_base, rx_ilit ''.r'', rx_digits ''num'' 2 (Some 2), Eol]"

definition RE_ZNN :: rx where
  "RE_ZNN = rx_seq [Bol, rx_base, rx_ilit ''.z'', rx_digits ''num'' 2 (Some 2), Eol]"

definition RE_NNN :: rx where
  "RE_NNN = rx_seq [Bol, rx_base, rx_lit ''.'', rx_digits ''num'' 3 (Some 3), Eol]"

definition volume_part :: "string \<Rightarrow> rx_groups \<Rightarrow> string \<times> string \<times> nat" where
  "volume_part scheme g = (rx_group ''base'' g, scheme, nat_of_digits (rx_group ''num'' g))"

text \<open>\<open>parse_volume\<close>: base, scheme and ordinal of a continuation name.\<close>

definition parse_volume :: "string \<Rightarrow> (string \<times> string \<times> nat) option" where
  "parse_volume filename =
     (case rx_match RE_EXT_NNN filename of Some g \<Rightarrow> Some (volume_part ''extnnn'' g) | None \<Rightarrow>
     (case rx_match RE_PART filename of Some g \<Rightarrow> Some (volume_part ''part'' g) | None \<Rightarrow>
     (case rx_match RE_RNN filename of Some g \<Rightarrow> Some (volume_part ''r'' g) | None \<Rightarrow>
     (case rx_match RE_ZNN filename of Some g \<Rightarrow> Some (volume_part ''z'' g) | None \<Rightarrow>
     (case rx_match RE_NNN filename of Some g \<Rightarrow> Some (volume_part ''nnn'' g) | None \<Rightarrow> None)))))"

definition is_archive_candidate :: "string \<Rightarrow> bool" where
  "is_archive_candidate filename \<longleftrightarrow>
     parse_volume filename \<noteq> None \<or> ends_any ARCHIVE_SUFFIXES (str_lower filename)"

definition rel_dir :: "string \<Rightarrow> string" where
  "rel_dir relpath = (if CHR ''/'' \<in> set relpath then before_last (CHR ''/'') relpath else [])"

definition base_name :: "string \<Rightarrow> string" where
  "base_name path = after_last (CHR ''/'') path"

definition volume_set_key :: "string \<Rightarrow> string \<Rightarrow> string \<Rightarrow> string" where
  "volume_set_key directory base scheme =
     (if directory \<noteq> [] then directory @ ''/'' @ base @ ''|'' @ scheme else base @ ''|'' @ scheme)"

definition chop :: "string \<Rightarrow> string \<Rightarrow> string" where
  "chop ext s = take (length s - length ext) s"

definition lead_schemes :: "string \<Rightarrow> (string \<times> string \<times> int) list" where
  "lead_schemes filename =
     (let low = str_lower filename in
      if parse_volume filename \<noteq> None then []
      else
        (if suffix ''.rar'' low then [(chop ''.rar'' filename, ''r'', -1)]
         else if suffix ''.cbr'' low then [(chop ''.cbr'' filename, ''r'', -1)] else []) @
        (if suffix ''.zip'' low then [(chop ''.zip'' filename, ''z'', -1), (chop ''.zip'' filename, ''extnnn'', 0)]
         else if suffix ''.cbz'' low then [(chop ''.cbz'' filename, ''z'', -1)] else []) @
        (if suffix ''.7z'' low then [(chop ''.7z'' filename, ''extnnn'', 0)] else []))"

text \<open>\<open>_missing_volumes\<close>. The numbers are never empty where the code calls it; on an empty sequence
  \<open>keys[-1]\<close> raises for the \<open>part\<close> schemes.\<close>

definition gaps :: "int \<Rightarrow> int list \<Rightarrow> volume_no list" where
  "gaps from keys = map Vol (filter (\<lambda>n. n \<notin> set keys) [from .. last keys])"

definition missing_volumes :: "string \<Rightarrow> int list \<Rightarrow> volume_no list py" where
  "missing_volumes scheme numbers =
     (let keys = sorted_list_of_set (set numbers) in
      if scheme \<in> {''part'', ''partx''} then
        if keys = [] then py_raise IndexError else py_ret (gaps 1 keys)
      else if scheme \<in> {''nnn'', ''extnnn''} then
        let vols = filter (\<lambda>k. k \<ge> 1) keys in
        py_ret (if vols \<noteq> [] then gaps 1 vols else [Vol 1])
      else if scheme = ''r'' then
        let rest = filter (\<lambda>k. k \<ge> 0) keys in
        py_ret ((if -1 \<notin> set keys then [Vol_Lead] else []) @ (if rest \<noteq> [] then gaps 0 rest else []))
      else if scheme = ''z'' then
        let rest = filter (\<lambda>k. k \<ge> 1) keys in
        py_ret ((if -1 \<notin> set keys then [Vol_Lead] else []) @ (if rest \<noteq> [] then gaps 1 rest else []))
      else py_ret [])"

definition strip_part :: "string \<Rightarrow> nat \<Rightarrow> string" where
  "strip_part txt number =
     str_lower (str_strip (rx_sub1 (rx_seq [Rep True 0 None part_sep, rx_ilit ''part'', Rep True 0 None part_sep,
       Rep True 0 None (\<lambda>c. c = CHR ''0''), rx_lit (nat_str number), Not_Next is_digit]) [] txt))"

definition volume_set_dir :: "string \<Rightarrow> string \<Rightarrow> nat \<Rightarrow> string" where
  "volume_set_dir directory filename number =
     (if directory = [] then directory
      else
        let parent = before_last (CHR ''/'') directory;
            leaf = after_last (CHR ''/'') directory;
            stem = (if CHR ''.'' \<in> set filename then before_last (CHR ''.'') filename else filename)
        in if strip_part leaf number = strip_part stem number then parent else directory)"

record part_identity =
  pi_set_dir :: string
  pi_label :: string
  pi_key :: string
  pi_scheme :: string
  pi_ext :: string
  pi_number :: nat

definition part_ident :: "walk_file \<Rightarrow> part_identity option" where
  "part_ident rec =
     (let name = base_name (wf_path rec); directory = rel_dir (wf_path rec) in
      case rx_match RE_PART name of
        Some g \<Rightarrow>
          let number = nat_of_digits (rx_group ''num'' g) in
          Some \<lparr>pi_set_dir = volume_set_dir directory name number, pi_label = rx_group ''base'' g,
            pi_key = str_lower (rx_group ''base'' g), pi_scheme = ''part'',
            pi_ext = str_lower (rx_group ''ext'' g), pi_number = number\<rparr>
      | None \<Rightarrow>
          (case rx_match RE_PARTX name of
             None \<Rightarrow> None
           | Some g \<Rightarrow>
               if wf_format rec \<notin> {Some ''rar4'', Some ''rar5''} \<or> wf_rar_volume rec \<noteq> Some True then None
               else
                 let number = nat_of_digits (rx_group ''num'' g);
                     label = rx_group ''pre'' g @ ''#'' @ rx_group ''post'' g
                 in Some \<lparr>pi_set_dir = volume_set_dir directory name number, pi_label = label,
                      pi_key = str_lower label, pi_scheme = ''partx'', pi_ext = ''rar'',
                      pi_number = number\<rparr>))"

subsection \<open>Grouping\<close>

type_synonym bucket = "string \<times> string \<times> string \<times> string \<times> string option"
type_synonym volume = "int \<times> walk_file"

record grouping =
  gr_buckets :: "(bucket, volume list) dict"
  gr_labels :: "(bucket, string \<times> string) dict"
  gr_unparsed :: "walk_file list"

definition put_volume :: "bucket \<Rightarrow> string \<times> string \<Rightarrow> int \<Rightarrow> walk_file \<Rightarrow> grouping \<Rightarrow> grouping" where
  "put_volume bucket label n rec s = s\<lparr>gr_buckets := dict_push bucket (n, rec) (gr_buckets s),
     gr_labels := dict_setdefault bucket label (gr_labels s)\<rparr>"

definition place_archive :: "walk_file \<Rightarrow> grouping \<Rightarrow> grouping" where
  "place_archive rec s =
     (case part_ident rec of
        Some i \<Rightarrow> put_volume (pi_set_dir i, pi_key i, pi_scheme i, pi_ext i, wf_format rec)
                   (pi_set_dir i, pi_label i) (int (pi_number i)) rec s
      | None \<Rightarrow>
          (case parse_volume (base_name (wf_path rec)) of
             None \<Rightarrow> s\<lparr>gr_unparsed := gr_unparsed s @ [rec]\<rparr>
           | Some (base, scheme, ordinal) \<Rightarrow>
               if scheme = ''part'' then s\<lparr>gr_unparsed := gr_unparsed s @ [rec]\<rparr>
               else
                 let directory = rel_dir (wf_path rec) in
                 put_volume (directory, base, scheme, [], None) (directory, base) (int ordinal) rec s))"

definition place_lead :: "walk_file \<Rightarrow> (bucket, volume list) dict \<times> walk_file list \<Rightarrow>
    (bucket, volume list) dict \<times> walk_file list" where
  "place_lead rec = (\<lambda>(buckets, singles).
     let directory = rel_dir (wf_path rec) in
     case find (\<lambda>(base, scheme, _). (directory, base, scheme, [], None) \<in> set (dict_keys buckets))
            (lead_schemes (base_name (wf_path rec))) of
       Some (base, scheme, ordinal) \<Rightarrow> (dict_push (directory, base, scheme, [], None) (ordinal, rec) buckets, singles)
     | None \<Rightarrow> (buckets, singles @ [rec]))"

definition lone_continuation :: "string \<Rightarrow> int list \<Rightarrow> bool" where
  "lone_continuation scheme numbers \<longleftrightarrow> length numbers = 1 \<and>
     (scheme \<in> {''part'', ''partx''} \<and> hd numbers > 1 \<or> scheme \<in> {''r'', ''z''})"

definition volume_order :: "volume list \<Rightarrow> volume list" where
  "volume_order = sort_key (\<lambda>(n, rec). (n, wf_path rec))"

definition dup_volumes :: "int list \<Rightarrow> volume_no list" where
  "dup_volumes numbers = map Vol_Dup (sorted_list_of_set (set (filter (\<lambda>n. count_list numbers n > 1) numbers)))"

definition number_files :: "string \<Rightarrow> volume list \<Rightarrow> walk_file list" where
  "number_files key vols = map (\<lambda>(i, (_, rec)). rec\<lparr>wf_volume_set := Some key, wf_volume_ordinal := Some i\<rparr>)
     (enumerate 1 vols)"

record grouped =
  gd_annotated :: "walk_file list"
  gd_groups :: "archive_group list"
  gd_singles :: "walk_file list"

definition close_bucket :: "(bucket, string \<times> string) dict \<Rightarrow> bucket \<times> volume list \<Rightarrow> grouped \<Rightarrow> grouped py" where
  "close_bucket labels = (\<lambda>(bucket, vols) s.
     let scheme = fst (snd (snd bucket));
         vols = volume_order vols;
         numbers = map fst vols
     in if length vols < 2 \<and> \<not> lone_continuation scheme numbers
        then py_ret (s\<lparr>gd_singles := gd_singles s @ map snd vols\<rparr>)
        else
          py_bind (missing_volumes scheme numbers) (\<lambda>miss.
          let miss = miss @ dup_volumes numbers in
          py_bind (dict_index labels bucket) (\<lambda>(set_dir, label).
          let key = volume_set_key set_dir label scheme;
              updated = number_files key vols
          in case updated of
               [] \<Rightarrow> py_raise IndexError
             | u # _ \<Rightarrow> py_ret (s\<lparr>
                 gd_groups := gd_groups s @ [\<lparr>ag_volume_set = Some key, ag_files = updated, ag_format = wf_format u,
                   ag_missing_volume = (miss \<noteq> []), ag_missing = miss\<rparr>],
                 gd_annotated := gd_annotated s @ updated\<rparr>))))"

definition single_group :: "walk_file \<Rightarrow> grouped \<Rightarrow> grouped" where
  "single_group rec s =
     (let one = rec\<lparr>wf_volume_set := None, wf_volume_ordinal := Some 1\<rparr> in
      s\<lparr>gd_annotated := gd_annotated s @ [one],
        gd_groups := gd_groups s @ [\<lparr>ag_volume_set = None, ag_files = [one], ag_format = wf_format one,
          ag_missing_volume = False, ag_missing = []\<rparr>]\<rparr>)"

definition group_archive_sets :: "walk_file list \<Rightarrow> (walk_file list \<times> archive_group list) py" where
  "group_archive_sets files =
     (let archives = filter (\<lambda>f. wf_kind f = Sf_Archive) files;
          loose = filter (\<lambda>f. wf_kind f = Sf_Loose) files;
          s = fold place_archive archives \<lparr>gr_buckets = [], gr_labels = [], gr_unparsed = []\<rparr>;
          (buckets, singles) = fold place_lead (gr_unparsed s) (gr_buckets s, [])
      in py_bind (py_fold (close_bucket (gr_labels s)) buckets
                   \<lparr>gd_annotated = [], gd_groups = [], gd_singles = singles\<rparr>) (\<lambda>d.
         let d = fold single_group (gd_singles d) d in
         py_ret (gd_annotated d @ loose, gd_groups d)))"

subsection \<open>Loose batches\<close>

type_synonym batching = "loose_batch list \<times> walk_file list \<times> int"

definition batch_step :: "walk_file \<Rightarrow> batching \<Rightarrow> batching" where
  "batch_step rec = (\<lambda>(batches, current, current_bytes).
     let would_files = length current + 1; would_bytes = current_bytes + wf_size rec in
     if current \<noteq> [] \<and> (would_files > LOOSE_BATCH_MAX_FILES \<or> would_bytes > LOOSE_BATCH_MAX_BYTES)
     then (batches @ [\<lparr>lb_files = current, lb_bytes = current_bytes\<rparr>], [rec], wf_size rec)
     else (batches, current @ [rec], current_bytes + wf_size rec))"

definition loose_sorted :: "walk_file list \<Rightarrow> walk_file list" where
  "loose_sorted files = sort_key wf_path (filter (\<lambda>f. wf_kind f = Sf_Loose) files)"

definition iter_loose_batches :: "walk_file list \<Rightarrow> loose_batch list" where
  "iter_loose_batches files =
     (case fold batch_step (loose_sorted files) ([], [], 0) of (batches, current, current_bytes) \<Rightarrow>
        if current \<noteq> [] then batches @ [\<lparr>lb_files = current, lb_bytes = current_bytes\<rparr>] else batches)"

subsection \<open>Looking into a file\<close>

type_synonym reader = "nat \<Rightarrow> nat \<Rightarrow> string option"

definition sniff_format :: "reader \<Rightarrow> string \<Rightarrow> string option" where
  "sniff_format rd ext =
     (case rd 16 0 of
        None \<Rightarrow> None
      | Some head \<Rightarrow>
          (case find (\<lambda>(magic, _). prefix magic head) MAGICS of
             Some (_, name) \<Rightarrow> Some name
           | None \<Rightarrow>
               if suffix ''.tar'' (str_lower ext) then
                 (case rd 8 257 of
                    None \<Rightarrow> None
                  | Some ustar \<Rightarrow> if prefix ''ustar'' ustar then Some ''tar'' else None)
               else None))"

text \<open>\<open>_vint\<close>: at most ten bytes of seven bits, the lowest first.\<close>

fun vint_from :: "nat \<Rightarrow> string \<Rightarrow> nat \<Rightarrow> nat \<Rightarrow> nat \<Rightarrow> (nat \<times> nat) option" where
  "vint_from 0 buf pos shift v = None"
| "vint_from (Suc n) buf pos shift v =
     (if pos \<ge> length buf then None
      else
        let byte = of_char (buf ! pos) :: nat;
            v = v OR push_bit shift (byte AND 0x7F)
        in if byte AND 0x80 = 0 then Some (v, pos + 1) else vint_from n buf (pos + 1) (shift + 7) v)"

definition vint :: "string \<Rightarrow> nat \<Rightarrow> (nat \<times> nat) option" where
  "vint buf pos = vint_from 10 buf pos 0 0"

text \<open>Skipping the optional sizes that bits 0 and 1 of the header flags announce.\<close>

definition skip_vint :: "nat \<Rightarrow> nat \<Rightarrow> string \<Rightarrow> nat \<Rightarrow> nat option" where
  "skip_vint bit_no flags head pos = (if bit flags bit_no then map_option snd (vint head pos) else Some pos)"

definition rar_volume_flag :: "string \<Rightarrow> bool option" where
  "rar_volume_flag head =
     (if prefix (''Rar!'' @ [CHR 0x1A, CHR 0x07, CHR 0x01, CHR 0x00]) head then
        Option.bind (vint head (8 + 4)) (\<lambda>(_, pos).
        Option.bind (vint head pos) (\<lambda>(type, pos).
        if type \<noteq> 1 then None
        else
          Option.bind (vint head pos) (\<lambda>(flags, pos).
          Option.bind (skip_vint 0 flags head pos) (\<lambda>pos.
          Option.bind (skip_vint 1 flags head pos) (\<lambda>pos.
          map_option (\<lambda>(aflags, _). bit aflags 0) (vint head pos))))))
      else if prefix (''Rar!'' @ [CHR 0x1A, CHR 0x07, CHR 0x00]) head then
        if length head < 7 + 7 \<or> of_char (head ! 9) \<noteq> (0x73 :: nat) then None
        else Some (bit (of_char (head ! 10) + 256 * of_char (head ! 11) :: nat) 0)
      else None)"

text \<open>\<open>os.path.splitext(name)[1]\<close> for a name without \<open>/\<close>.\<close>

definition splitext_ext :: "string \<Rightarrow> string" where
  "splitext_ext name =
     (if CHR ''.'' \<in> set name \<and> (\<exists>c \<in> set (before_last (CHR ''.'') name). c \<noteq> CHR ''.'')
      then CHR ''.'' # after_last (CHR ''.'') name else [])"

definition plain_file :: "string \<Rightarrow> int \<Rightarrow> int \<Rightarrow> source_kind \<Rightarrow> string option \<Rightarrow> bool option \<Rightarrow> walk_file" where
  "plain_file rel sz mtime_ns kind fmt volume = \<lparr>wf_path = rel, wf_size = sz, wf_mtime_ns = mtime_ns,
     wf_kind = kind, wf_format = fmt, wf_volume_set = None, wf_volume_ordinal = None, wf_rar_volume = volume\<rparr>"

definition classify_file :: "reader \<Rightarrow> string \<Rightarrow> int \<Rightarrow> int \<Rightarrow> walk_file" where
  "classify_file rd rel sz mtime_ns =
     (let name = base_name rel in
      if \<not> is_archive_candidate name then plain_file rel sz mtime_ns Sf_Loose None None
      else
        let ext = (if suffix ''.tar'' (str_lower name) then ''.tar'' else splitext_ext name);
            fmt = sniff_format rd ext;
            volume = (if fmt \<in> {Some ''rar4'', Some ''rar5''} \<and> str_contains ''part'' (str_lower name)
                      then Option.bind (rd 64 0) rar_volume_flag else None)
        in plain_file rel sz mtime_ns Sf_Archive fmt volume)"

end
