(* ===== verification/VolumeSets.thy ===== *)
theory VolumeSets
  imports Volumes
begin

text \<open>
  The theorems about the walker's grouping (theory Volumes): what \<open>group_archive_sets\<close> does to the list
  of files, when a set is complete, what a loose batch may hold, and that \<open>rar_volume_flag\<close> reads the
  header it is meant to read.
\<close>

subsection \<open>Buckets\<close>

lemma dict_push_Cons: "dict_push k x ((k', v) # d) = (if k = k' then (k', v @ [x]) # d else (k', v) # dict_push k x d)"
  by (simp add: dict_push_def dict_get_def)

lemma dict_push_Nil: "dict_push k x [] = [(k, [x])]"
  by (simp add: dict_push_def dict_get_def)

lemmas dict_push_induct = dict_push_Nil dict_push_Cons

lemma mset_dict_push: "mset (concat (map snd (dict_push k x d))) = add_mset x (mset (concat (map snd d)))"
  by (induction d) (auto simp: dict_push_induct)

lemma dict_push_entry:
  "(k', v) \<in> set (dict_push k x d) \<Longrightarrow> (k', v) \<in> set d \<or> (k' = k \<and> (v = [x] \<or> (\<exists>u. (k, u) \<in> set d \<and> v = u @ [x])))"
  by (induction d) (auto simp: dict_push_induct split: if_splits)

lemma find_in: "find P xs = Some x \<Longrightarrow> x \<in> set xs \<and> P x"
  by (induction xs) (auto split: if_splits)

text \<open>What is known of a bucket: it is not empty, it has a label, and in the \<open>part\<close> schemes the number
  of a volume is the one its name carries, elsewhere no member is a \<open>partN\<close> name.\<close>

definition part_scheme :: "bucket \<Rightarrow> bool" where
  "part_scheme bucket \<longleftrightarrow> fst (snd (snd bucket)) \<in> {''part'', ''partx''}"

definition volume_ok :: "bucket \<Rightarrow> volume \<Rightarrow> bool" where
  "volume_ok bucket = (\<lambda>(n, rec). if part_scheme bucket
     then map_option pi_number (part_ident rec) = Some (nat n) \<and> 0 \<le> n else part_ident rec = None)"

definition bucket_ok :: "(bucket, string \<times> string) dict \<Rightarrow> bucket \<times> volume list \<Rightarrow> bool" where
  "bucket_ok labels = (\<lambda>(bucket, vols). vols \<noteq> [] \<and> map_of labels bucket \<noteq> None \<and>
     (\<forall>v \<in> set vols. volume_ok bucket v))"

definition grouping_ok :: "grouping \<Rightarrow> bool" where
  "grouping_ok s \<longleftrightarrow> (\<forall>b \<in> set (gr_buckets s). bucket_ok (gr_labels s) b) \<and>
     (\<forall>rec \<in> set (gr_unparsed s). part_ident rec = None)"

definition placed :: "(bucket, volume list) dict \<Rightarrow> walk_file multiset" where
  "placed buckets = mset (map snd (concat (map snd buckets)))"

lemma placed_push: "placed (dict_push k (n, rec) d) = add_mset rec (placed d)"
  by (simp add: placed_def mset_dict_push mset_map)

lemma bucket_ok_push:
  assumes "\<forall>b \<in> set d. bucket_ok labels b" and "volume_ok bucket v"
    and "map_of (dict_setdefault bucket label labels) bucket \<noteq> None"
    and "b \<in> set (dict_push bucket v d)"
  shows "bucket_ok (dict_setdefault bucket label labels) b"
proof -
  have grow: "map_of labels k \<noteq> None \<Longrightarrow> map_of (dict_setdefault bucket label labels) k \<noteq> None" for k
    by (auto simp: map_of_setdefault split: option.splits)
  obtain k vs where b: "b = (k, vs)" by (cases b)
  from dict_push_entry [of k vs bucket v d] assms(4) b consider "(k, vs) \<in> set d" | "k = bucket" "vs = [v]"
    | u where "k = bucket" "(bucket, u) \<in> set d" "vs = u @ [v]" by blast
  then show ?thesis
  proof cases
    case 1
    with assms(1) have "bucket_ok labels (k, vs)" by blast
    then have "vs \<noteq> []" "map_of labels k \<noteq> None" "\<forall>v \<in> set vs. volume_ok k v"
      unfolding bucket_ok_def prod.case by blast+
    with grow [of k] show ?thesis unfolding b bucket_ok_def prod.case by blast
  next
    case 2
    with assms(2,3) b show ?thesis by (simp add: bucket_ok_def)
  next
    case 3
    with assms(1) have "bucket_ok labels (bucket, u)" by blast
    then have "\<forall>v \<in> set u. volume_ok bucket v" unfolding bucket_ok_def prod.case by blast
    with assms(2,3) show ?thesis unfolding b 3 bucket_ok_def prod.case by simp
  qed
qed

lemma setdefault_label: "map_of (dict_setdefault bucket label labels) bucket \<noteq> None"
  by (auto simp: map_of_setdefault split: option.splits)

lemma put_volume_ok:
  assumes "grouping_ok s" and "volume_ok bucket (n, rec)"
  shows "grouping_ok (put_volume bucket label n rec s)"
    and "placed (gr_buckets (put_volume bucket label n rec s)) = add_mset rec (placed (gr_buckets s))"
    and "gr_unparsed (put_volume bucket label n rec s) = gr_unparsed s"
proof -
  have "bucket_ok (dict_setdefault bucket label (gr_labels s)) b"
    if "b \<in> set (dict_push bucket (n, rec) (gr_buckets s))" for b
    by (rule bucket_ok_push [OF _ assms(2) setdefault_label that]) (use assms(1) in \<open>simp add: grouping_ok_def\<close>)
  with assms(1) show "grouping_ok (put_volume bucket label n rec s)"
    by (simp add: put_volume_def grouping_ok_def)
qed (simp_all add: put_volume_def placed_push)

lemma part_ident_scheme: "part_ident rec = Some i \<Longrightarrow> pi_scheme i \<in> {''part'', ''partx''}"
  by (auto simp: part_ident_def Let_def split: option.splits if_splits)

lemma parse_volume_scheme:
  "parse_volume s = Some (base, scheme, n) \<Longrightarrow> scheme \<in> {''extnnn'', ''part'', ''r'', ''z'', ''nnn''}"
  by (auto simp: parse_volume_def volume_part_def split: option.splits)

lemma place_archive_ok:
  assumes "grouping_ok s"
  shows "grouping_ok (place_archive rec s) \<and>
    placed (gr_buckets (place_archive rec s)) + mset (gr_unparsed (place_archive rec s)) =
      add_mset rec (placed (gr_buckets s) + mset (gr_unparsed s))"
proof (cases "part_ident rec")
  case (Some i)
  then have "volume_ok (pi_set_dir i, pi_key i, pi_scheme i, pi_ext i, wf_format rec) (int (pi_number i), rec)"
    using part_ident_scheme [OF Some] by (auto simp: volume_ok_def part_scheme_def)
  from put_volume_ok [OF assms this] Some show ?thesis by (simp add: place_archive_def)
next
  case None
  have unparsed: ?thesis if "place_archive rec s = s\<lparr>gr_unparsed := gr_unparsed s @ [rec]\<rparr>"
    using assms None that by (auto simp: grouping_ok_def)
  show ?thesis
  proof (cases "parse_volume (base_name (wf_path rec))")
    case None': None
    show ?thesis by (rule unparsed) (simp add: place_archive_def None None')
  next
    case (Some p)
    obtain base scheme n where p: "p = (base, scheme, n)" by (cases p)
    show ?thesis
    proof (cases "scheme = ''part''")
      case True
      show ?thesis by (rule unparsed) (simp add: place_archive_def None Some p True)
    next
      case False
      have "scheme \<noteq> ''partx''" using parse_volume_scheme Some p by auto
      with False None have "volume_ok (rel_dir (wf_path rec), base, scheme, [], None) (int n, rec)"
        by (simp add: volume_ok_def part_scheme_def)
      from put_volume_ok [OF assms this] show ?thesis
        by (simp add: place_archive_def None Some p False Let_def)
    qed
  qed
qed

lemma place_archives_ok:
  assumes "grouping_ok s"
  shows "grouping_ok (fold place_archive recs s) \<and>
    placed (gr_buckets (fold place_archive recs s)) + mset (gr_unparsed (fold place_archive recs s)) =
      mset recs + (placed (gr_buckets s) + mset (gr_unparsed s))"
  using assms
proof (induction recs arbitrary: s)
  case Nil
  then show ?case by simp
next
  case (Cons rec recs)
  from place_archive_ok [OF Cons.prems] Cons.IH [of "place_archive rec s"] show ?case by simp
qed

lemma lead_schemes_scheme: "(base, scheme, n) \<in> set (lead_schemes s) \<Longrightarrow> scheme \<in> {''r'', ''z'', ''extnnn''}"
  by (auto simp: lead_schemes_def Let_def split: if_splits)

lemma place_lead_ok:
  assumes "\<forall>b \<in> set buckets. bucket_ok labels b" and "part_ident rec = None"
    and "place_lead rec (buckets, singles) = (buckets', singles')"
  shows "(\<forall>b \<in> set buckets'. bucket_ok labels b) \<and>
    placed buckets' + mset singles' = add_mset rec (placed buckets + mset singles)"
proof (cases "find (\<lambda>(base, scheme, _). (rel_dir (wf_path rec), base, scheme, [], None) \<in> set (dict_keys buckets))
    (lead_schemes (base_name (wf_path rec)))")
  case None
  with assms show ?thesis by (auto simp: place_lead_def Let_def)
next
  case (Some x)
  obtain base scheme n where x: "x = (base, scheme, n)" by (cases x)
  let ?k = "(rel_dir (wf_path rec), base, scheme, [], None)"
  from Some x have lead: "(base, scheme, n) \<in> set (lead_schemes (base_name (wf_path rec)))"
    and key: "?k \<in> set (dict_keys buckets)"
    using find_in [OF Some] by simp_all
  from lead_schemes_scheme [OF lead] assms(2) have v: "volume_ok ?k (n, rec)"
    by (auto simp: volume_ok_def part_scheme_def)
  from key obtain vs where "(?k, vs) \<in> set buckets" by (auto simp: dict_keys_def)
  with assms(1) have label: "map_of labels ?k \<noteq> None" by (auto simp: bucket_ok_def)
  then have same: "dict_setdefault ?k u labels = labels" for u
    by (auto simp: dict_setdefault_def)
  have b: "buckets' = dict_push ?k (n, rec) buckets" "singles' = singles"
    using assms(3) Some x by (auto simp: place_lead_def Let_def)
  show ?thesis
    using bucket_ok_push [OF assms(1) v] label by (simp add: b placed_push same)
qed

lemma place_leads_ok:
  assumes "\<forall>b \<in> set buckets. bucket_ok labels b" and "\<forall>rec \<in> set recs. part_ident rec = None"
    and "fold place_lead recs (buckets, singles) = (buckets', singles')"
  shows "(\<forall>b \<in> set buckets'. bucket_ok labels b) \<and>
    placed buckets' + mset singles' = mset recs + (placed buckets + mset singles)"
  using assms
proof (induction recs arbitrary: buckets singles)
  case Nil
  then show ?case by simp
next
  case (Cons rec recs)
  obtain b1 s1 where b1: "place_lead rec (buckets, singles) = (b1, s1)" by fastforce
  from place_lead_ok [OF Cons.prems(1) _ b1] Cons.prems(2) have ok: "\<forall>b \<in> set b1. bucket_ok labels b"
    "placed b1 + mset s1 = add_mset rec (placed buckets + mset singles)" by simp_all
  from Cons.IH [OF ok(1), of s1] Cons.prems(2,3) b1 ok(2) show ?case by simp
qed

subsection \<open>Volumes a set lacks\<close>

lemma sorted_le_last:
  fixes ks :: "int list"
  assumes "sorted ks" and "n \<in> set ks"
  shows "n \<le> last ks"
  using assms by (induction ks) auto

lemma last_sorted_set:
  fixes numbers :: "int list"
  assumes "n \<in> set numbers"
  shows "n \<le> last (filter P (sorted_list_of_set (set numbers))) \<or> \<not> P n"
proof (rule disjCI)
  assume "\<not> \<not> P n"
  let ?ks = "filter P (sorted_list_of_set (set numbers))"
  have n: "n \<in> set ?ks" using assms \<open>\<not> \<not> P n\<close> by simp
  have "sorted ?ks" by (rule sorted_wrt_filter) simp
  then show "n \<le> last ?ks" by (rule sorted_le_last [OF _ n])
qed

lemma gaps_empty: "gaps a keys = [] \<Longrightarrow> a \<le> n \<Longrightarrow> n \<le> last keys \<Longrightarrow> n \<in> set keys"
  by (auto simp: gaps_def filter_empty_conv)

text \<open>In the \<open>part\<close> schemes a set with no missing and no repeated volume has, in order, the numbers from
  1 (or 0) to the last.\<close>

lemma sorted_dense:
  fixes ns :: "int list"
  assumes "sorted ns" and "distinct ns" and "ns \<noteq> []" and "\<And>n. 1 \<le> n \<Longrightarrow> n \<le> last ns \<Longrightarrow> n \<in> set ns"
    and "\<And>n. n \<in> set ns \<Longrightarrow> 0 \<le> n"
  shows "ns = [0 .. last ns] \<or> ns = [1 .. last ns]"
proof -
  have le: "n \<le> last ns" if "n \<in> set ns" for n
    using last_sorted_set [of n ns "\<lambda>_. True"] that assms(1,2) by (simp add: sorted_list_of_set.idem_if_sorted_distinct)
  show ?thesis
  proof (cases "0 \<in> set ns")
    case True
    have "set ns = set [0 .. last ns]"
      using assms(4,5) le True by (auto, metis int_one_le_iff_zero_less order_le_less)
    then have "ns = [0 .. last ns]"
      by (intro sorted_distinct_set_unique assms(1,2)) simp_all
    then show ?thesis by simp
  next
    case False
    have "set ns = set [1 .. last ns]"
      using assms(4,5) le False by (auto, metis int_one_le_iff_zero_less order_le_less)
    then have "ns = [1 .. last ns]"
      by (intro sorted_distinct_set_unique assms(1,2)) simp_all
    then show ?thesis by simp
  qed
qed

lemma dup_volumes_empty: "dup_volumes ns = [] \<Longrightarrow> distinct ns"
proof -
  assume "dup_volumes ns = []"
  then have "filter (\<lambda>n. count_list ns n > 1) ns = []"
    by (auto simp: dup_volumes_def sorted_list_of_set_eq_Nil_iff)
  then have one: "\<And>n. n \<in> set ns \<Longrightarrow> count_list ns n \<le> 1" by (auto simp: filter_empty_conv not_less)
  have "count (mset ns) n = (if n \<in> set ns then 1 else 0)" for n
    using one [of n] by (cases "n \<in> set ns") (auto simp: count_mset count_list_0_iff le_Suc_eq)
  then show "distinct ns" by (simp add: distinct_count_atmost_1)
qed

lemma part_numbers:
  assumes "scheme \<in> {''part'', ''partx''}" and "missing_volumes scheme ns = py_ret []" and "dup_volumes ns = []"
    and "sorted ns" and "\<And>n. n \<in> set ns \<Longrightarrow> 0 \<le> n"
  shows "ns = [0 .. last ns] \<or> ns = [1 .. last ns]"
proof -
  have d: "distinct ns" by (rule dup_volumes_empty [OF assms(3)])
  then have keys: "sorted_list_of_set (set ns) = ns"
    using assms(4) by (simp add: sorted_list_of_set.idem_if_sorted_distinct)
  with assms(1,2) have ne: "ns \<noteq> []" and g: "gaps 1 ns = []"
    by (auto simp: missing_volumes_def Let_def split: if_splits)
  show ?thesis by (rule sorted_dense [OF assms(4) d ne]) (use gaps_empty [OF g] assms(5) in auto)
qed

subsection \<open>Closing the buckets\<close>

definition plain :: "walk_file \<Rightarrow> walk_file" where
  "plain rec = rec\<lparr>wf_volume_set := None, wf_volume_ordinal := None\<rparr>"

definition numbered :: "archive_group \<Rightarrow> bool" where
  "numbered g \<longleftrightarrow> ag_files g \<noteq> [] \<and>
     map wf_volume_ordinal (ag_files g) = map Some [1..<Suc (length (ag_files g))] \<and>
     (\<forall>f \<in> set (ag_files g). wf_volume_set f = ag_volume_set g)"

definition in_order :: "archive_group \<Rightarrow> bool" where
  "in_order g \<longleftrightarrow> (ag_volume_set g \<noteq> None \<and> \<not> ag_missing_volume g \<and> (\<exists>f \<in> set (ag_files g). part_ident f \<noteq> None) \<longrightarrow>
     (\<exists>a \<in> {0, 1}. map (\<lambda>f. map_option pi_number (part_ident f)) (ag_files g) =
        map Some [a ..< a + length (ag_files g)]))"

lemma part_ident_plain [simp]:
  "part_ident (rec\<lparr>wf_volume_set := a, wf_volume_ordinal := b\<rparr>) = part_ident rec"
  by (simp add: part_ident_def Let_def cong: option.case_cong)

lemma number_files_facts:
  "length (number_files key vols) = length vols"
  "map wf_volume_ordinal (number_files key vols) = map Some [1..<Suc (length vols)]"
  "f \<in> set (number_files key vols) \<Longrightarrow> wf_volume_set f = Some key"
  "map plain (number_files key vols) = map plain (map snd vols)"
  "map (\<lambda>f. map_option pi_number (part_ident f)) (number_files key vols) =
     map (\<lambda>v. map_option pi_number (part_ident (snd v))) vols"
  "(\<exists>f \<in> set (number_files key vols). part_ident f \<noteq> None) \<longleftrightarrow> (\<exists>v \<in> set vols. part_ident (snd v) \<noteq> None)"
proof -
  have snd_enum: "map snd (enumerate n xs) = xs" for n and xs :: "volume list" by simp
  show "length (number_files key vols) = length vols" by (simp add: number_files_def)
  show "map wf_volume_ordinal (number_files key vols) = map Some [1..<Suc (length vols)]"
    by (intro nth_equalityI) (auto simp: number_files_def nth_enumerate_eq simp del: upt_Suc split: prod.split)
  show "f \<in> set (number_files key vols) \<Longrightarrow> wf_volume_set f = Some key"
    by (auto simp: number_files_def)
  show "map plain (number_files key vols) = map plain (map snd vols)"
    by (intro nth_equalityI) (auto simp: number_files_def nth_enumerate_eq plain_def split: prod.split)
  show nums: "map (\<lambda>f. map_option pi_number (part_ident f)) (number_files key vols) =
     map (\<lambda>v. map_option pi_number (part_ident (snd v))) vols"
    by (intro nth_equalityI) (auto simp: number_files_def nth_enumerate_eq split: prod.split)
  show "(\<exists>f \<in> set (number_files key vols). part_ident f \<noteq> None) \<longleftrightarrow> (\<exists>v \<in> set vols. part_ident (snd v) \<noteq> None)"
  proof -
    have some: "(\<exists>x \<in> set xs. part_ident (h x) \<noteq> None) \<longleftrightarrow>
        (\<exists>r \<in> set (map (\<lambda>x. map_option pi_number (part_ident (h x))) xs). r \<noteq> None)" for xs :: "'a list" and h
      by (simp add: image_iff)
    show ?thesis
      using some [of "number_files key vols" "\<lambda>f. f"] some [of vols snd] nums by metis
  qed
qed

definition grouped_ok :: "grouped \<Rightarrow> bool" where
  "grouped_ok d \<longleftrightarrow> concat (map ag_files (gd_groups d)) = gd_annotated d \<and>
     (\<forall>g \<in> set (gd_groups d). numbered g \<and> in_order g)"

definition kept :: "grouped \<Rightarrow> walk_file multiset" where
  "kept d = mset (map plain (gd_annotated d @ gd_singles d))"

lemma volume_order_set: "set (volume_order vols) = set vols" "length (volume_order vols) = length vols"
  by (simp_all add: volume_order_def)

lemma volume_order_mset: "mset (map snd (volume_order vols)) = mset (map snd vols)"
  by (simp add: volume_order_def mset_map)

lemma volume_order_sorted: "sorted (map fst (volume_order vols))"
proof -
  have "sorted (map (\<lambda>(n, rec). (n, wf_path rec)) (volume_order vols))"
    unfolding volume_order_def by (rule sorted_sort_key)
  then show ?thesis
    unfolding sorted_map by (rule sorted_wrt_mono_rel [rotated]) (auto simp: less_eq_prod_def)
qed

lemma bucket_numbers:
  assumes "bucket_ok labels (bucket, vols)" and "part_scheme bucket"
  shows "map (\<lambda>v. map_option pi_number (part_ident (snd v))) (volume_order vols) =
      map (\<lambda>n. Some (nat n)) (map fst (volume_order vols))"
    and "n \<in> set (map fst (volume_order vols)) \<Longrightarrow> 0 \<le> n"
proof -
  have v: "map_option pi_number (part_ident (snd v)) = Some (nat (fst v)) \<and> 0 \<le> fst v" if "v \<in> set vols" for v
    using assms that by (cases v) (auto simp: bucket_ok_def volume_ok_def)
  then show "map (\<lambda>v. map_option pi_number (part_ident (snd v))) (volume_order vols) =
      map (\<lambda>n. Some (nat n)) (map fst (volume_order vols))"
    by (simp add: volume_order_set)
  show "n \<in> set (map fst (volume_order vols)) \<Longrightarrow> 0 \<le> n"
    using v by (auto simp: volume_order_set)
qed

lemma dense_nats:
  assumes "ns = [0 .. last ns] \<or> ns = [1 .. last ns]"
  shows "\<exists>a \<in> {0, 1}. map (\<lambda>n. Some (nat n)) ns = map Some [a ..< a + length ns]"
proof -
  have "map nat [a .. m] = [nat a ..< nat a + length [a .. m]]" if "0 \<le> a" for a m :: int
    using that by (intro nth_equalityI) (auto simp: nat_add_distrib simp del: upt_Suc)
  with assms have "\<exists>a \<in> {0, 1}. map nat ns = [a ..< a + length ns]"
    by (metis insertCI nat_0 nat_one_as_int order_refl zero_le_one)
  then show ?thesis by (metis (no_types, lifting) list.map_comp map_map comp_apply map_eq_conv)
qed

lemma missing_volumes_returns: "ns \<noteq> [] \<Longrightarrow> \<exists>miss. missing_volumes scheme ns = py_ret miss"
  by (auto simp: missing_volumes_def Let_def sorted_list_of_set_eq_Nil_iff)

lemma close_bucket_ok:
  assumes b: "bucket_ok labels (bucket, vols)" and d: "grouped_ok d"
  shows "\<exists>d'. close_bucket labels (bucket, vols) d = py_ret d' \<and> grouped_ok d' \<and>
    kept d' = kept d + image_mset plain (mset (map snd vols))"
proof -
  let ?scheme = "fst (snd (snd bucket))" and ?vs = "volume_order vols"
  let ?ns = "map fst ?vs"
  have ne: "vols \<noteq> []" and label: "map_of labels bucket \<noteq> None" using b by (auto simp: bucket_ok_def)
  have vs: "?vs \<noteq> []" using ne volume_order_set(2) [of vols] by auto
  have order: "mset (map plain (map snd ?vs)) = image_mset plain (mset (map snd vols))"
    by (simp only: volume_order_mset mset_map [of plain])
  show ?thesis
  proof (cases "length ?vs < 2 \<and> \<not> lone_continuation ?scheme ?ns")
    case True
    then have run: "close_bucket labels (bucket, vols) d = py_ret (d\<lparr>gd_singles := gd_singles d @ map snd ?vs\<rparr>)"
      unfolding close_bucket_def Let_def prod.case by (rule if_P)
    show ?thesis using d order
      by (intro exI [of _ "d\<lparr>gd_singles := gd_singles d @ map snd ?vs\<rparr>"])
        (simp add: run grouped_ok_def kept_def)
  next
    case False
    obtain miss where miss: "missing_volumes ?scheme ?ns = py_ret miss"
      using missing_volumes_returns [of ?ns] vs by auto
    obtain set_dir lab where lab: "map_of labels bucket = Some (set_dir, lab)" using label by auto
    let ?key = "volume_set_key set_dir lab ?scheme" and ?miss = "miss @ dup_volumes ?ns"
    let ?up = "number_files ?key ?vs"
    obtain u us where up: "?up = u # us" using vs number_files_facts(1) [where key = ?key and vols = ?vs] by (cases ?up) auto
    let ?g = "\<lparr>ag_volume_set = Some ?key, ag_files = ?up, ag_format = wf_format u,
      ag_missing_volume = (?miss \<noteq> []), ag_missing = ?miss\<rparr>"
    let ?d = "d\<lparr>gd_groups := gd_groups d @ [?g], gd_annotated := gd_annotated d @ ?up\<rparr>"
    have run: "close_bucket labels (bucket, vols) d = py_ret ?d"
      unfolding close_bucket_def Let_def prod.case if_not_P [OF False] miss py_bind_ret
        dict_index_Some [OF lab] up list.case by (rule refl)
    have num: "numbered ?g" using number_files_facts(1-3) [where key = ?key and vols = ?vs] up by (auto simp: numbered_def)
    have ord: "in_order ?g"
    proof (cases "part_scheme bucket")
      case True
      have "\<exists>a \<in> {0, 1}. map (\<lambda>n. Some (nat n)) ?ns = map Some [a ..< a + length ?ns]" if "?miss = []"
      proof (rule dense_nats, rule part_numbers)
        show "?scheme \<in> {''part'', ''partx''}" using True by (simp add: part_scheme_def)
        show "missing_volumes ?scheme ?ns = py_ret []" using miss that by simp
        show "dup_volumes ?ns = []" using that by simp
        show "sorted ?ns" by (rule volume_order_sorted)
        show "\<And>n. n \<in> set ?ns \<Longrightarrow> 0 \<le> n" by (rule bucket_numbers(2) [OF b True])
      qed
      then show ?thesis
        unfolding in_order_def by (auto simp: number_files_facts(1,5) bucket_numbers(1) [OF b True])
    next
      case False
      have "part_ident (snd v) = None" if "v \<in> set vols" for v
        using b False that by (cases v) (auto simp: bucket_ok_def volume_ok_def)
      then have "\<not> (\<exists>f \<in> set ?up. part_ident f \<noteq> None)"
        unfolding number_files_facts(6) by (auto simp: volume_order_set)
      then show ?thesis by (simp add: in_order_def)
    qed
    have keep: "kept ?d = kept d + image_mset plain (mset (map snd vols))"
      using order arg_cong [OF number_files_facts(4) [where key = ?key and vols = ?vs], of mset]
      by (simp add: kept_def)
    show ?thesis using run d num ord keep
      by (intro exI [of _ ?d]) (simp add: grouped_ok_def)
  qed
qed

lemma close_buckets_ok:
  assumes "\<forall>b \<in> set buckets. bucket_ok labels b" and "grouped_ok d"
  shows "\<exists>d'. py_fold (close_bucket labels) buckets d = py_ret d' \<and> grouped_ok d' \<and>
    kept d' = kept d + image_mset plain (placed buckets)"
  using assms
proof (induction buckets arbitrary: d)
  case Nil
  then show ?case by (simp add: placed_def)
next
  case (Cons b buckets)
  obtain bucket vols where b: "b = (bucket, vols)" by (cases b)
  from close_bucket_ok [of labels bucket vols d] Cons.prems b obtain d1 where d1:
    "close_bucket labels b d = py_ret d1" "grouped_ok d1"
    "kept d1 = kept d + image_mset plain (mset (map snd vols))" by auto
  from Cons.IH [OF _ d1(2)] Cons.prems(1) obtain d2 where d2:
    "py_fold (close_bucket labels) buckets d1 = py_ret d2" "grouped_ok d2"
    "kept d2 = kept d1 + image_mset plain (placed buckets)" by auto
  have "placed (b # buckets) = mset (map snd vols) + placed buckets" by (simp add: placed_def b)
  with d1 d2 show ?case by (intro exI [of _ d2]) (simp add: add.assoc)
qed

lemma single_groups_ok:
  assumes "grouped_ok d"
  shows "grouped_ok (fold single_group recs d) \<and> gd_singles (fold single_group recs d) = gd_singles d \<and>
    mset (map plain (gd_annotated (fold single_group recs d))) =
      mset (map plain (gd_annotated d)) + mset (map plain recs)"
  using assms
proof (induction recs arbitrary: d)
  case Nil
  then show ?case by simp
next
  case (Cons rec recs)
  have "grouped_ok (single_group rec d)"
    using Cons.prems by (simp add: grouped_ok_def single_group_def numbered_def in_order_def Let_def)
  from Cons.IH [OF this] have ih: "grouped_ok (fold single_group recs (single_group rec d))"
    "gd_singles (fold single_group recs (single_group rec d)) = gd_singles (single_group rec d)"
    "mset (map plain (gd_annotated (fold single_group recs (single_group rec d)))) =
      mset (map plain (gd_annotated (single_group rec d))) + mset (map plain recs)" by blast+
  have "gd_singles (single_group rec d) = gd_singles d"
    "mset (map plain (gd_annotated (single_group rec d))) = mset (map plain (gd_annotated d)) + {#plain rec#}"
    by (simp_all add: single_group_def plain_def Let_def)
  with ih show ?case by simp
qed

subsection \<open>Properties of the grouping\<close>

lemma group_archive_sets_total:
  "\<exists>fs gs. group_archive_sets files = py_ret (fs, gs) \<and>
     concat (map ag_files gs) @ filter (\<lambda>f. wf_kind f = Sf_Loose) files = fs \<and>
     mset (map plain (concat (map ag_files gs))) =
       mset (map plain (filter (\<lambda>f. wf_kind f = Sf_Archive) files)) \<and>
     (\<forall>g \<in> set gs. numbered g \<and> in_order g)"
proof -
  let ?arch = "filter (\<lambda>f. wf_kind f = Sf_Archive) files"
  let ?loose = "filter (\<lambda>f. wf_kind f = Sf_Loose) files"
  let ?init = "\<lparr>gr_buckets = [], gr_labels = [], gr_unparsed = []\<rparr>"
  let ?s = "fold place_archive ?arch ?init"
  have "grouping_ok ?init" by (simp add: grouping_ok_def)
  from place_archives_ok [OF this, of ?arch] have s: "grouping_ok ?s"
    "placed (gr_buckets ?s) + mset (gr_unparsed ?s) = mset ?arch" by (simp_all add: placed_def)
  obtain buckets singles where leads: "fold place_lead (gr_unparsed ?s) (gr_buckets ?s, []) = (buckets, singles)"
    by fastforce
  have s1: "\<forall>b \<in> set (gr_buckets ?s). bucket_ok (gr_labels ?s) b" "\<forall>rec \<in> set (gr_unparsed ?s). part_ident rec = None"
    using s(1) unfolding grouping_ok_def by blast+
  from place_leads_ok [OF s1 leads] have bs: "\<forall>b \<in> set buckets. bucket_ok (gr_labels ?s) b"
    "placed buckets + mset singles = mset (gr_unparsed ?s) + placed (gr_buckets ?s)" by simp_all
  have bs2: "placed buckets + mset singles = mset ?arch"
    unfolding bs(2) s(2) [symmetric] by (rule add.commute)
  let ?start = "\<lparr>gd_annotated = [], gd_groups = [], gd_singles = singles\<rparr>"
  have "grouped_ok ?start" by (simp add: grouped_ok_def)
  from close_buckets_ok [OF bs(1) this] obtain d where d:
    "py_fold (close_bucket (gr_labels ?s)) buckets ?start = py_ret d" "grouped_ok d"
    "kept d = kept ?start + image_mset plain (placed buckets)" by blast
  let ?d = "fold single_group (gd_singles d) d"
  from single_groups_ok [OF d(2), of "gd_singles d"] have e: "grouped_ok ?d"
    "mset (map plain (gd_annotated ?d)) = kept d" by (simp_all add: kept_def)
  have "kept d = image_mset plain (placed buckets + mset singles)"
    using d(3) by (simp add: kept_def add.commute)
  then have plain: "mset (map plain (gd_annotated ?d)) = mset (map plain ?arch)"
    using e(2) bs2 by simp
  have run: "group_archive_sets files = py_ret (gd_annotated ?d @ ?loose, gd_groups ?d)"
    by (simp add: group_archive_sets_def leads d(1) Let_def)
  from e(1) plain show ?thesis
    by (intro exI [of _ "gd_annotated ?d @ ?loose"] exI [of _ "gd_groups ?d"] conjI run)
      (simp_all add: grouped_ok_def)
qed

text \<open>
  C21. Grouping files into archive containers never fails and loses nothing: every archive file is in
  exactly one group (the files of the groups are the archive files, each as often as it was found, with
  only the volume fields filled in), loose files are returned untouched, and the files of a group carry
  its volume set and the ordinals 1, 2, 3, \<dots>.
\<close>

theorem grouping_partitions_archives:
  "\<exists>fs gs. group_archive_sets files = py_ret (fs, gs) \<and>
     fs = concat (map ag_files gs) @ filter (\<lambda>f. wf_kind f = Sf_Loose) files \<and>
     mset (map plain (concat (map ag_files gs))) =
       mset (map plain (filter (\<lambda>f. wf_kind f = Sf_Archive) files)) \<and>
     (\<forall>g \<in> set gs. ag_files g \<noteq> [] \<and>
        map wf_volume_ordinal (ag_files g) = map Some [1..<Suc (length (ag_files g))] \<and>
        (\<forall>f \<in> set (ag_files g). wf_volume_set f = ag_volume_set g))"
  using group_archive_sets_total [of files] unfolding numbered_def by blast

theorem grouping_partitions_archives_witness:
  "\<exists>fs gs. group_archive_sets [plain_file ''a.zip'' 5 0 Sf_Archive None None] = py_ret (fs, gs) \<and>
     map plain (concat (map ag_files gs)) = [plain_file ''a.zip'' 5 0 Sf_Archive None None] \<and>
     list_all (\<lambda>g. ag_files g \<noteq> []) gs"
proof -
  obtain fs gs where g: "group_archive_sets [plain_file ''a.zip'' 5 0 Sf_Archive None None] = py_ret (fs, gs)"
    "mset (map plain (concat (map ag_files gs))) =
       mset (map plain (filter (\<lambda>f. wf_kind f = Sf_Archive) [plain_file ''a.zip'' 5 0 Sf_Archive None None]))"
    "\<forall>g \<in> set gs. ag_files g \<noteq> []"
    using grouping_partitions_archives [of "[plain_file ''a.zip'' 5 0 Sf_Archive None None]"] by blast
  from g(2) have "mset (map plain (concat (map ag_files gs))) = {#plain_file ''a.zip'' 5 0 Sf_Archive None None#}"
    by (simp add: plain_file_def plain_def)
  then have "map plain (concat (map ag_files gs)) = [plain_file ''a.zip'' 5 0 Sf_Archive None None]"
    by (metis mset_single_iff_right mset_single_iff)
  moreover have "list_all (\<lambda>g. ag_files g \<noteq> []) gs" using g(3) by (simp add: list_all_iff)
  ultimately show ?thesis using g(1) by (intro exI [of _ fs] exI [of _ gs] conjI)
qed





subsection \<open>Batches\<close>

definition batch_fits :: "loose_batch \<Rightarrow> bool" where
  "batch_fits b \<longleftrightarrow> lb_files b \<noteq> [] \<and> lb_bytes b = (\<Sum>f \<leftarrow> lb_files b. wf_size f) \<and>
     length (lb_files b) \<le> LOOSE_BATCH_MAX_FILES \<and>
     (length (lb_files b) = 1 \<or> lb_bytes b \<le> LOOSE_BATCH_MAX_BYTES)"

definition full_for :: "loose_batch \<Rightarrow> walk_file \<Rightarrow> bool" where
  "full_for b f \<longleftrightarrow> length (lb_files b) = LOOSE_BATCH_MAX_FILES \<or> lb_bytes b + wf_size f > LOOSE_BATCH_MAX_BYTES"

fun tight :: "loose_batch list \<Rightarrow> bool" where
  "tight (b # c # bs) \<longleftrightarrow> full_for b (hd (lb_files c)) \<and> tight (c # bs)"
| "tight _ \<longleftrightarrow> True"

lemma tight_snoc: "tight (bs @ [c]) \<longleftrightarrow> tight bs \<and> (bs \<noteq> [] \<longrightarrow> full_for (last bs) (hd (lb_files c)))"
  by (induction bs rule: tight.induct) auto

definition batching_ok :: "walk_file list \<Rightarrow> batching \<Rightarrow> bool" where
  "batching_ok seen = (\<lambda>(batches, current, bytes).
     concat (map lb_files batches) @ current = seen \<and> bytes = (\<Sum>f \<leftarrow> current. wf_size f) \<and>
     (\<forall>b \<in> set batches. batch_fits b) \<and> tight batches \<and>
     (current = [] \<longrightarrow> batches = []) \<and>
     (current \<noteq> [] \<longrightarrow> batch_fits \<lparr>lb_files = current, lb_bytes = bytes\<rparr> \<and>
        (batches \<noteq> [] \<longrightarrow> full_for (last batches) (hd current))))"

lemma batch_step_ok:
  assumes "batching_ok seen s"
  shows "batching_ok (seen @ [rec]) (batch_step rec s)"
proof -
  obtain batches current bytes where s: "s = (batches, current, bytes)" by (cases s)
  let ?b = "\<lparr>lb_files = current, lb_bytes = bytes\<rparr>"
  have inv: "concat (map lb_files batches) @ current = seen" "bytes = (\<Sum>f \<leftarrow> current. wf_size f)"
    "\<forall>b \<in> set batches. batch_fits b" "tight batches" "current = [] \<Longrightarrow> batches = []"
    "current \<noteq> [] \<Longrightarrow> batch_fits ?b" "current \<noteq> [] \<Longrightarrow> batches \<noteq> [] \<Longrightarrow> full_for (last batches) (hd current)"
    using assms unfolding batching_ok_def s prod.case by blast+
  show ?thesis
  proof (cases "current \<noteq> [] \<and> (length current + 1 > LOOSE_BATCH_MAX_FILES \<or> bytes + wf_size rec > LOOSE_BATCH_MAX_BYTES)")
    case True
    then have step: "batch_step rec s = (batches @ [?b], [rec], wf_size rec)"
      by (simp add: batch_step_def s)
    have "length current \<le> LOOSE_BATCH_MAX_FILES" using inv(6) True by (simp add: batch_fits_def)
    with True have "full_for ?b rec" by (auto simp: full_for_def)
    moreover have "tight (batches @ [?b])" using inv(4,7) True by (simp add: tight_snoc)
    moreover have "batch_fits \<lparr>lb_files = [rec], lb_bytes = wf_size rec\<rparr>"
      by (simp add: batch_fits_def LOOSE_BATCH_MAX_FILES_def)
    ultimately show ?thesis using inv(1,3,6) True by (simp add: step batching_ok_def)
  next
    case False
    then have step: "batch_step rec s = (batches, current @ [rec], bytes + wf_size rec)"
      by (auto simp: batch_step_def s)
    show ?thesis
    proof (cases "current = []")
      case True
      with inv(1,2,5) show ?thesis
        by (simp add: step batching_ok_def batch_fits_def LOOSE_BATCH_MAX_FILES_def)
    next
      case ne: False
      with False have "batch_fits \<lparr>lb_files = current @ [rec], lb_bytes = bytes + wf_size rec\<rparr>"
        using inv(2) by (simp add: batch_fits_def)
      with inv ne show ?thesis by (simp add: step batching_ok_def)
    qed
  qed
qed

lemma batch_steps_ok: "batching_ok seen s \<Longrightarrow> batching_ok (seen @ recs) (fold batch_step recs s)"
proof (induction recs arbitrary: seen s)
  case Nil
  then show ?case by simp
next
  case (Cons rec recs)
  from Cons.IH [OF batch_step_ok [OF Cons.prems]] show ?case by simp
qed

text \<open>
  Loose batches: the batches list exactly the loose files in path order; every batch respects both
  caps (a single file may be larger than the byte cap), its byte count is that of its files; and
  batching is greedy: a batch is closed only when the next file would not have fitted.
\<close>

theorem loose_batches_fit:
  "concat (map lb_files (iter_loose_batches files)) = loose_sorted files \<and>
   tight (iter_loose_batches files) \<and>
   (\<forall>b \<in> set (iter_loose_batches files). lb_files b \<noteq> [] \<and>
      lb_bytes b = (\<Sum>f \<leftarrow> lb_files b. wf_size f) \<and> length (lb_files b) \<le> 500 \<and>
      (length (lb_files b) = 1 \<or> lb_bytes b \<le> 2 * 2 ^ 30))"
proof -
  obtain batches current bytes where f: "fold batch_step (loose_sorted files) ([], [], 0) = (batches, current, bytes)"
    by (cases "fold batch_step (loose_sorted files) ([], [], 0)")
  have "batching_ok [] ([], [], 0)" by (simp add: batching_ok_def)
  from batch_steps_ok [OF this, of "loose_sorted files"] have ok: "batching_ok (loose_sorted files) (batches, current, bytes)"
    by (simp add: f)
  have "\<forall>b \<in> set (iter_loose_batches files). batch_fits b"
    using ok by (auto simp: iter_loose_batches_def f batching_ok_def)
  moreover have "concat (map lb_files (iter_loose_batches files)) = loose_sorted files" "tight (iter_loose_batches files)"
    using ok by (auto simp: iter_loose_batches_def f batching_ok_def tight_snoc)
  moreover have "lb_files b \<noteq> [] \<and> lb_bytes b = (\<Sum>f \<leftarrow> lb_files b. wf_size f) \<and> length (lb_files b) \<le> 500 \<and>
      (length (lb_files b) = 1 \<or> lb_bytes b \<le> 2 * 2 ^ 30)" if "batch_fits b" for b
    using that by (auto simp: batch_fits_def LOOSE_BATCH_MAX_FILES_def LOOSE_BATCH_MAX_BYTES_def)
  ultimately show ?thesis by blast
qed

theorem loose_batches_fit_witness:
  "map lb_bytes (iter_loose_batches [plain_file ''b'' 5 0 Sf_Loose None None, plain_file ''a'' (2 ^ 31) 0 Sf_Loose None None]) =
     [2 ^ 31, 5] \<and>
   length (lb_files (hd (iter_loose_batches [plain_file ''b'' 5 0 Sf_Loose None None, plain_file ''a'' (2 ^ 31) 0 Sf_Loose None None]))) \<le> 500"
proof -
  let ?fs = "[plain_file ''b'' 5 0 Sf_Loose None None, plain_file ''a'' (2 ^ 31) 0 Sf_Loose None None]"
  have m: "map lb_bytes (iter_loose_batches ?fs) = [2 ^ 31, 5]" by code_simp
  then have "iter_loose_batches ?fs \<noteq> []" by force
  then have "hd (iter_loose_batches ?fs) \<in> set (iter_loose_batches ?fs)" by (rule hd_in_set)
  with loose_batches_fit [of ?fs] have "length (lb_files (hd (iter_loose_batches ?fs))) \<le> 500" by blast
  with m show ?thesis ..
qed

subsection \<open>The RAR header\<close>

text \<open>How RAR 5 writes a number: seven bits a byte, the lowest first, the top bit set on all but the
  last byte.\<close>

fun vint_enc :: "nat \<Rightarrow> string" where
  "vint_enc n = (if n < 128 then [char_of n] else char_of (128 + n mod 128) # vint_enc (n div 128))"

declare vint_enc.simps [simp del]

lemma vint_byte:
  fixes b :: nat
  assumes "b < 128"
  shows "b AND 0x7F = b" "b AND 0x80 = 0" "(128 + b) AND 0x7F = b" "(128 + b) AND 0x80 \<noteq> 0"
proof -
  have m: "x AND 0x7F = x mod 128" for x :: nat
    using take_bit_eq_mask [of 7 x] by (simp add: take_bit_eq_mod mask_eq_exp_minus_1)
  have t: "x AND 0x80 = 0 \<longleftrightarrow> even (x div 128)" for x :: nat
    using and_exp_eq_0_iff_not_bit [of x 7] by (simp add: bit_iff_odd)
  show "b AND 0x7F = b" "b AND 0x80 = 0" "(128 + b) AND 0x7F = b" "(128 + b) AND 0x80 \<noteq> 0"
    using assms div_add_self1 [of 128 b] by (simp_all only: m t) simp_all
qed

lemma or_push_bit:
  fixes v x :: nat
  assumes "v < 2 ^ k"
  shows "v OR push_bit k x = v + x * 2 ^ k"
proof -
  have "\<not> bit v n \<or> \<not> bit (push_bit k x) n" for n
  proof (cases "n < k")
    case True
    then show ?thesis by (simp add: bit_push_bit_iff)
  next
    case False
    then have "v < 2 ^ n" using assms by (meson less_le_trans not_less one_le_numeral power_increasing)
    then show ?thesis by (simp add: bit_iff_odd)
  qed
  then have "v + push_bit k x = v OR push_bit k x" by (rule disjunctive_add)
  then show ?thesis by (simp add: push_bit_eq_mult)
qed

lemma vint_last:
  assumes "n < 128" and "v < 2 ^ shift"
  shows "vint_from (Suc k) (pre @ vint_enc n @ rest) (length pre) shift v =
    Some (v + n * 2 ^ shift, length pre + length (vint_enc n))"
proof -
  have enc: "vint_enc n = [char_of n]" using assms(1) by (simp add: vint_enc.simps [of n])
  have byte: "of_char ((pre @ vint_enc n @ rest) ! length pre) = n"
    using assms(1) by (simp add: enc nth_append of_char_of)
  have len: "\<not> length pre \<ge> length (pre @ vint_enc n @ rest)" by (simp add: enc)
  show ?thesis
    unfolding vint_from.simps(2) Let_def if_not_P [OF len] byte if_P [OF vint_byte(2) [OF assms(1)]]
      vint_byte(1) [OF assms(1)] or_push_bit [OF assms(2)] by (simp add: enc)
qed

lemma vint_from_enc:
  assumes "n < 128 ^ Suc k" and "v < 2 ^ shift"
  shows "vint_from (Suc k) (pre @ vint_enc n @ rest) (length pre) shift v =
    Some (v + n * 2 ^ shift, length pre + length (vint_enc n))"
  using assms
proof (induction k arbitrary: n pre shift v)
  case 0
  then show ?case by (intro vint_last) simp_all
next
  case (Suc k)
  show ?case
  proof (cases "n < 128")
    case True
    then show ?thesis by (rule vint_last [OF _ Suc.prems(2)])
  next
    case False
    let ?r = "n mod 128"
    have r: "?r < 128" by simp
    have c: "of_char (char_of (128 + ?r) :: char) = 128 + ?r" using r by (simp add: of_char_of)
    have q: "n div 128 < 128 ^ Suc k" using Suc.prems(1) by (simp add: div_less_iff_less_mult mult.commute)
    have v: "v + ?r * 2 ^ shift < 2 ^ (shift + 7)"
    proof -
      have "?r * 2 ^ shift \<le> 127 * 2 ^ shift" using r by (intro mult_right_mono) auto
      with Suc.prems(2) have "v + ?r * 2 ^ shift < 128 * 2 ^ shift" by linarith
      then show ?thesis by (simp add: power_add)
    qed
    have total: "v + ?r * 2 ^ shift + n div 128 * 2 ^ (shift + 7) = v + n * 2 ^ shift"
    proof -
      have "n * 2 ^ shift = (n div 128 * 128 + ?r) * 2 ^ shift" by simp
      also have "\<dots> = n div 128 * 2 ^ (shift + 7) + ?r * 2 ^ shift" by (simp only: distrib_right power_add) simp
      finally show ?thesis by simp
    qed
    have ih: "vint_from (Suc k) ((pre @ [char_of (128 + ?r)]) @ vint_enc (n div 128) @ rest)
        (length (pre @ [char_of (128 + ?r)])) (shift + 7) (v + ?r * 2 ^ shift) =
      Some (v + n * 2 ^ shift, length pre + length (vint_enc n))"
      unfolding Suc.IH [OF q v] total using False by (simp add: vint_enc.simps [of n])
    have enc: "pre @ vint_enc n @ rest = (pre @ [char_of (128 + ?r)]) @ vint_enc (n div 128) @ rest"
      using False by (simp add: vint_enc.simps [of n])
    have byte: "of_char ((pre @ vint_enc n @ rest) ! length pre) = 128 + ?r"
      using c False by (simp add: vint_enc.simps [of n] nth_append)
    have len: "\<not> length pre \<ge> length (pre @ vint_enc n @ rest)"
      using False by (simp add: vint_enc.simps [of n])
    show ?thesis
      unfolding vint_from.simps(2) [of "Suc k"] Let_def if_not_P [OF len] byte
        if_not_P [OF vint_byte(4) [OF r]] vint_byte(3) [OF r] or_push_bit [OF Suc.prems(2)]
      using ih enc by simp
  qed
qed

lemma vint_roundtrip:
  assumes "n < 2 ^ 70"
  shows "vint (pre @ vint_enc n @ rest) (length pre) = Some (n, length pre + length (vint_enc n))"
  using vint_from_enc [of n 9 0 0 pre rest] assms by (simp add: vint_def)

definition rar5_header :: "string \<Rightarrow> nat \<Rightarrow> nat \<Rightarrow> nat \<Rightarrow> nat \<Rightarrow> nat \<Rightarrow> string" where
  "rar5_header crc header_size flags extra_size data_size archive_flags =
     (''Rar!'' @ [CHR 0x1A, CHR 0x07, CHR 0x01, CHR 0x00]) @ crc @ vint_enc header_size @ vint_enc 1 @ vint_enc flags @
     (if bit flags 0 then vint_enc extra_size else []) @ (if bit flags 1 then vint_enc data_size else []) @
     vint_enc archive_flags"

lemma skip_vint_roundtrip:
  assumes "n < 2 ^ 70"
  shows "skip_vint i flags (pre @ (if bit flags i then vint_enc n else []) @ rest) (length pre) =
    Some (length (pre @ (if bit flags i then vint_enc n else [])))"
  using vint_roundtrip [OF assms, of pre rest] by (simp add: skip_vint_def)

text \<open>
  The volume flag of a RAR 5 file is read as it was written: for every main header built by the
  format's rules (a 4-byte checksum, the header size, the type 1, the flags, the optional sizes that the
  flags announce, the archive flags; every number in the variable-length encoding) and whatever follows
  it, \<open>rar_volume_flag\<close> returns bit 0 of the archive flags.
\<close>

theorem rar5_flag_roundtrip:
  assumes "length crc = 4" and "header_size < 2 ^ 70" and "flags < 2 ^ 70" and "extra_size < 2 ^ 70"
    and "data_size < 2 ^ 70" and "archive_flags < 2 ^ 70"
  shows "rar_volume_flag (rar5_header crc header_size flags extra_size data_size archive_flags @ rest) =
    Some (odd archive_flags)"
proof -
  let ?sig = "''Rar!'' @ [CHR 0x1A, CHR 0x07, CHR 0x01, CHR 0x00]"
  let ?p1 = "?sig @ crc" and ?e1 = "vint_enc header_size" and ?e2 = "vint_enc 1" and ?e3 = "vint_enc flags"
  let ?e4 = "if bit flags 0 then vint_enc extra_size else []"
  let ?e5 = "if bit flags 1 then vint_enc data_size else []"
  let ?e6 = "vint_enc archive_flags"
  define h where "h = rar5_header crc header_size flags extra_size data_size archive_flags @ rest"
  have pre: "prefix ?sig h" by (simp add: h_def rar5_header_def)
  have "length ?p1 = 8 + 4" using assms(1) by simp
  moreover have "h = ?p1 @ ?e1 @ (?e2 @ ?e3 @ ?e4 @ ?e5 @ ?e6 @ rest)" by (simp add: h_def rar5_header_def)
  ultimately have v1: "vint h (8 + 4) = Some (header_size, length (?p1 @ ?e1))"
    using vint_roundtrip [OF assms(2), of ?p1] by simp
  have "h = (?p1 @ ?e1) @ ?e2 @ (?e3 @ ?e4 @ ?e5 @ ?e6 @ rest)" by (simp add: h_def rar5_header_def)
  then have v2: "vint h (length (?p1 @ ?e1)) = Some (1, length (?p1 @ ?e1 @ ?e2))"
    using vint_roundtrip [of 1 "?p1 @ ?e1"] by simp
  have "h = (?p1 @ ?e1 @ ?e2) @ ?e3 @ (?e4 @ ?e5 @ ?e6 @ rest)" by (simp add: h_def rar5_header_def)
  then have v3: "vint h (length (?p1 @ ?e1 @ ?e2)) = Some (flags, length (?p1 @ ?e1 @ ?e2 @ ?e3))"
    using vint_roundtrip [OF assms(3), of "?p1 @ ?e1 @ ?e2"] by simp
  have "h = (?p1 @ ?e1 @ ?e2 @ ?e3) @ ?e4 @ (?e5 @ ?e6 @ rest)" by (simp add: h_def rar5_header_def)
  then have v4: "skip_vint 0 flags h (length (?p1 @ ?e1 @ ?e2 @ ?e3)) = Some (length (?p1 @ ?e1 @ ?e2 @ ?e3 @ ?e4))"
    using skip_vint_roundtrip [OF assms(4), of 0 flags "?p1 @ ?e1 @ ?e2 @ ?e3"] by simp
  have "h = (?p1 @ ?e1 @ ?e2 @ ?e3 @ ?e4) @ ?e5 @ (?e6 @ rest)" by (simp add: h_def rar5_header_def)
  then have v5: "skip_vint 1 flags h (length (?p1 @ ?e1 @ ?e2 @ ?e3 @ ?e4)) =
      Some (length (?p1 @ ?e1 @ ?e2 @ ?e3 @ ?e4 @ ?e5))"
    using skip_vint_roundtrip [OF assms(5), of 1 flags "?p1 @ ?e1 @ ?e2 @ ?e3 @ ?e4"] by simp
  have "h = (?p1 @ ?e1 @ ?e2 @ ?e3 @ ?e4 @ ?e5) @ ?e6 @ rest" by (simp add: h_def rar5_header_def)
  then have v6: "\<exists>p. vint h (length (?p1 @ ?e1 @ ?e2 @ ?e3 @ ?e4 @ ?e5)) = Some (archive_flags, p)"
    using vint_roundtrip [OF assms(6), of "?p1 @ ?e1 @ ?e2 @ ?e3 @ ?e4 @ ?e5"] by auto
  have "rar_volume_flag h = Some (bit archive_flags 0)"
    unfolding rar_volume_flag_def if_P [OF pre] v1 Option.bind.simps prod.case v2
    using v3 v4 v5 v6 by auto
  then show ?thesis unfolding h_def by (simp add: bit_0)
qed

theorem rar5_flag_roundtrip_witness:
  "rar_volume_flag (rar5_header ''abcd'' 300 3 5 0 1 @ ''tail'') = Some True"
  using rar5_flag_roundtrip [of "''abcd''" 300 3 5 0 1 "''tail''"] by simp

end
