(* ===== verification/Catalog.thy ===== *)
theory Catalog
  imports Volumes Caps Kinds
begin

text \<open>
  The catalog database as the walker and the sweep see it, and the transactions they share:
  \<^verbatim>\<open>db/models.py\<close> (tables, unique and foreign keys), \<open>purge_outputs\<close> of \<^verbatim>\<open>sweep.py\<close>, the container writes
  of \<^verbatim>\<open>walker.py\<close>. A table with generated ids is a map with the next free id, so a query \<open>ORDER BY id\<close> is a
  walk over the ids; a table without one is a list of rows. Statements that the foreign keys refuse
  raise \<open>Db_Error\<close>, and \<open>txn\<close> rolls back whatever a failed transaction did. The JSON of the \<open>notes\<close>
  columns is the list of its fields.
\<close>

datatype ct_kind = Ct_Archive | Ct_Loose | Ct_Nested

datatype ct_status = St_Pending | St_Claimed | St_Done | St_Failed

datatype note_val = Note_Text string | Note_Int int | Note_Texts "string list" | Note_Volumes "volume_no list" |
  Note_Ids "nat list" | Note_Counts "(string \<times> nat) list" | Note_Examples "(string list \<times> string) list"

type_synonym note_list = "(string \<times> note_val) list"

record crow =
  ct_kind :: ct_kind
  ct_status :: ct_status
  ct_reason :: "string option"
  ct_format :: "string option"
  ct_depth :: int
  ct_source :: "nat option"
  ct_blob :: "string option"
  ct_parent :: "nat option"
  ct_chain :: "string list option"
  ct_claimed_by :: "string option"
  ct_claimed_at :: "int option"
  ct_attempts :: int
  ct_members :: int
  ct_bytes :: int
  ct_source_bytes :: "int option"
  ct_finished_at :: "int option"
  ct_notes :: "note_list option"
  ct_requeued_from :: "nat option"
  ct_superseded_by :: "nat option"

record srow =
  sf_path :: string
  sf_size :: int
  sf_mtime :: int
  sf_kind :: source_kind
  sf_format :: "string option"
  sf_volume_set :: "string option"
  sf_first_seen :: nat
  sf_last_seen :: nat
  sf_present :: bool

record blob =
  bl_size :: int
  bl_kind :: kind
  bl_ext :: "string option"
  bl_triangles :: "nat option"

record occ =
  oc_blob :: string
  oc_container :: nat
  oc_chain :: "string list"
  oc_path :: string
  oc_depth :: int

record worker_row =
  wk_last_seen :: int
  wk_current :: "nat option"
  wk_done :: int
  wk_failed :: int
  wk_bytes :: int
  wk_source_bytes :: int

record walk_counts =
  wc_files :: int
  wc_dirs :: int
  wc_bytes :: int
  wc_archives :: int
  wc_loose :: int
  wc_new :: int
  wc_changed :: int
  wc_unchanged :: int
  wc_vanished :: int
  wc_seeded :: int
  wc_symlinks :: int
  wc_skipped :: int
  wc_errors :: int

record run_row =
  rn_walk :: "walk_counts option"
  rn_finished_at :: "int option"
  rn_claimed :: int
  rn_done :: int
  rn_failed :: int
  rn_occurrences :: int
  rn_bytes :: int

record cat =
  rows :: "nat \<Rightarrow> crow option"
  next_row :: nat
  cfiles :: "(nat \<times> nat \<times> nat) list"
  occs :: "occ list"
  blobs :: "(string, blob) dict"
  sfiles :: "nat \<Rightarrow> srow option"
  next_sfile :: nat
  workers :: "(string, worker_row) dict"
  runs :: "nat \<Rightarrow> run_row option"
  next_run :: nat

datatype sweep_exn = Lost_Claim | Db_Error | Value_Error | Other_Error | Shutdown

type_synonym 'a db_act = "(cat, sweep_exn, 'a) act"

definition txn :: "'a db_act \<Rightarrow> 'a db_act" where
  "txn m = (\<lambda>d. case m d of (Inl e, _) \<Rightarrow> (Inl e, d) | (Inr v, d') \<Rightarrow> (Inr v, d'))"

definition update_rows :: "(nat \<Rightarrow> crow \<Rightarrow> bool) \<Rightarrow> (crow \<Rightarrow> crow) \<Rightarrow> cat \<Rightarrow> cat" where
  "update_rows P f d = d\<lparr>rows := (\<lambda>i. map_option (\<lambda>r. if P i r then f r else r) (rows d i))\<rparr>"

definition row_ids :: "cat \<Rightarrow> nat list" where
  "row_ids d = filter (\<lambda>i. rows d i \<noteq> None) [1..<next_row d]"

definition rows_where :: "(crow \<Rightarrow> bool) \<Rightarrow> cat \<Rightarrow> nat list" where
  "rows_where P d = filter (\<lambda>i. case rows d i of None \<Rightarrow> False | Some r \<Rightarrow> P r) [1..<next_row d]"

text \<open>The files of a container, \<open>ORDER BY ordinal\<close>.\<close>

definition files_of :: "cat \<Rightarrow> nat \<Rightarrow> nat list" where
  "files_of d cid = map fst (sort_key snd (map snd (filter (\<lambda>(c, _, _). c = cid) (cfiles d))))"

definition dangling :: "('k \<Rightarrow> 'v option) \<Rightarrow> 'k option \<Rightarrow> bool" where
  "dangling t x = (case x of None \<Rightarrow> False | Some k \<Rightarrow> t k = None)"

definition insert_row :: "crow \<Rightarrow> nat db_act" where
  "insert_row r = (\<lambda>d.
     if dangling (rows d) (ct_parent r) \<or> dangling (map_of (blobs d)) (ct_blob r) \<or> dangling (sfiles d) (ct_source r)
     then (Inl Db_Error, d)
     else (Inr (next_row d), d\<lparr>rows := (rows d)(next_row d \<mapsto> r), next_row := Suc (next_row d)\<rparr>))"

text \<open>\<open>DELETE FROM containers\<close>: refused while a row that stays has a deleted parent (RESTRICT); files and
  occurrences go with their container (CASCADE), other references become null.\<close>

definition forget :: "nat list \<Rightarrow> nat option \<Rightarrow> nat option" where
  "forget ids x = (case x of None \<Rightarrow> None | Some i \<Rightarrow> if i \<in> set ids then None else Some i)"

definition delete_rows :: "nat list \<Rightarrow> unit db_act" where
  "delete_rows ids = (\<lambda>d.
     if \<exists>i \<in> set (row_ids d). i \<notin> set ids \<and> (\<exists>p \<in> set ids. Option.bind (rows d i) ct_parent = Some p)
     then (Inl Db_Error, d)
     else (Inr (), d\<lparr>
       rows := (\<lambda>i. if i \<in> set ids then None
         else map_option (\<lambda>r. r\<lparr>ct_requeued_from := forget ids (ct_requeued_from r),
                                ct_superseded_by := forget ids (ct_superseded_by r)\<rparr>) (rows d i)),
       cfiles := filter (\<lambda>(c, _, _). c \<notin> set ids) (cfiles d),
       occs := filter (\<lambda>x. oc_container x \<notin> set ids) (occs d)\<rparr>))"

subsection \<open>Purging what an attempt wrote\<close>

text \<open>\<open>nested_descendants\<close>: the recursive query, level by level. A child is inserted after its parent, so
  there are fewer levels than ids.\<close>

fun nested_levels :: "nat \<Rightarrow> cat \<Rightarrow> nat list \<Rightarrow> nat list" where
  "nested_levels 0 d front = []"
| "nested_levels (Suc n) d front =
     (let kids = rows_where (\<lambda>r. ct_kind r = Ct_Nested \<and> (\<exists>p \<in> set front. ct_parent r = Some p)) d in
      if kids = [] then [] else kids @ nested_levels n d kids)"

definition nested_descendants :: "cat \<Rightarrow> nat \<Rightarrow> (nat \<times> int) list" where
  "nested_descendants d cid = map (\<lambda>i. (i, ct_depth (the (rows d i)))) (nested_levels (next_row d) d [cid])"

definition purge_outputs :: "nat \<Rightarrow> unit db_act" where
  "purge_outputs cid =
     act_bind (act_get (\<lambda>d. nested_descendants d cid)) (\<lambda>desc.
     let ids = cid # map fst desc in
     act_seq (act_mod (\<lambda>d. d\<lparr>occs := filter (\<lambda>x. oc_container x \<notin> set ids) (occs d)\<rparr>))
       (act_for (rev (sorted_list_of_set (set (map snd desc))))
         (\<lambda>depth. delete_rows (map fst (filter (\<lambda>(_, k). k = depth) desc)))))"

subsection \<open>Container writes of the walker\<close>

definition fresh_row :: "ct_kind \<Rightarrow> crow" where
  "fresh_row kind = \<lparr>ct_kind = kind, ct_status = St_Pending, ct_reason = None, ct_format = None, ct_depth = 1,
     ct_source = None, ct_blob = None, ct_parent = None, ct_chain = None, ct_claimed_by = None,
     ct_claimed_at = None, ct_attempts = 0, ct_members = 0, ct_bytes = 0, ct_source_bytes = None,
     ct_finished_at = None, ct_notes = None, ct_requeued_from = None, ct_superseded_by = None\<rparr>"

definition reset_row :: "ct_status \<Rightarrow> string option \<Rightarrow> nat option \<Rightarrow> string option \<Rightarrow> note_list option \<Rightarrow> crow \<Rightarrow> crow" where
  "reset_row status failure sid fmt nts r = r\<lparr>ct_status := status, ct_reason := failure, ct_source := sid,
     ct_format := fmt, ct_attempts := 0, ct_claimed_by := None, ct_claimed_at := None, ct_members := 0,
     ct_bytes := 0, ct_source_bytes := None, ct_finished_at := None, ct_superseded_by := None,
     ct_notes := nts\<rparr>"

definition reset_container :: "nat \<Rightarrow> ct_status \<Rightarrow> string option \<Rightarrow> nat option \<Rightarrow> string option \<Rightarrow> note_list option \<Rightarrow>
    unit db_act" where
  "reset_container cid status failure sid fmt nts =
     act_seq (purge_outputs cid)
       (act_mod (update_rows (\<lambda>i _. i = cid) (reset_row status failure sid fmt nts)))"

definition supersede_row :: "int \<Rightarrow> nat \<Rightarrow> crow \<Rightarrow> crow" where
  "supersede_row now by_id r = r\<lparr>ct_status := St_Done, ct_reason := None, ct_members := 0, ct_bytes := 0,
     ct_source_bytes := None, ct_claimed_by := None, ct_claimed_at := None, ct_finished_at := Some now,
     ct_superseded_by := Some by_id,
     ct_notes := Some [(''superseded_by'', Note_Int (int by_id)), (''reason'', Note_Text ''volume_set_member'')]\<rparr>"

definition supersede_container :: "int \<Rightarrow> nat \<Rightarrow> nat \<Rightarrow> unit db_act" where
  "supersede_container now cid by_id =
     act_seq (purge_outputs cid) (act_mod (update_rows (\<lambda>i _. i = cid) (supersede_row now by_id)))"

definition insert_cfiles :: "(nat \<times> nat \<times> nat) list \<Rightarrow> unit db_act" where
  "insert_cfiles new = (\<lambda>d.
     if (\<exists>(c, s, _) \<in> set new. rows d c = None \<or> sfiles d s = None) \<or>
        \<not> distinct (map (\<lambda>(c, s, _). (c, s)) (cfiles d @ new)) \<or>
        \<not> distinct (map (\<lambda>(c, _, n). (c, n)) (cfiles d @ new))
     then (Inl Db_Error, d)
     else (Inr (), d\<lparr>cfiles := cfiles d @ new\<rparr>))"

definition replace_container_files :: "nat \<Rightarrow> nat list \<Rightarrow> unit db_act" where
  "replace_container_files cid file_ids =
     act_seq (act_mod (\<lambda>d. d\<lparr>cfiles := filter (\<lambda>(c, _, _). c \<noteq> cid) (cfiles d)\<rparr>))
       (if file_ids = [] then act_ret ()
        else insert_cfiles (map (\<lambda>(n, s). (cid, s, n)) (enumerate 1 file_ids)))"

definition insert_container :: "nat option \<Rightarrow> ct_kind \<Rightarrow> string option \<Rightarrow> int \<Rightarrow> ct_status \<Rightarrow> string option \<Rightarrow>
    nat list \<Rightarrow> note_list option \<Rightarrow> nat db_act" where
  "insert_container sid kind fmt depth status failure file_ids nts =
     act_bind (insert_row ((fresh_row kind)\<lparr>ct_source := sid, ct_format := fmt, ct_depth := depth,
       ct_status := status, ct_reason := failure, ct_notes := nts\<rparr>)) (\<lambda>cid.
     act_seq (replace_container_files cid file_ids) (act_ret cid))"

end
