(* ===== verification/Sweep.thy ===== *)
theory Sweep
  imports Catalog Engine
begin

text \<open>
  \<^verbatim>\<open>forge/src/forge/sweep.py\<close>: claiming a pending container, writing what the engine reports into the
  catalog, recording the outcome, and handing claims back when a worker dies.

  Every transaction is one atomic step (the row locks the code takes make them so); a container locked
  by another transaction is skipped, so the queries with \<open>SKIP LOCKED\<close> take the locked ids as an argument.
  \<open>up n\<close> says whether the database answers the worker's \<open>n\<close>-th transaction; when it does not, the
  transaction raises \<open>Db_Error\<close> and changes nothing. The engine is its sequence of sink calls
  (\<open>event\<close> of theory Engine) and how it ends. \<open>now\<close> is the database clock. Logging and sleeping are not
  modelled, nor the
  \<open>detail\<close> text and the peak memory of a result.
\<close>

record claim =
  cl_id :: nat
  cl_kind :: ct_kind
  cl_attempt :: int
  cl_worker :: string
  cl_source :: "nat option"
  cl_files :: "(string \<times> int) list"
  cl_bytes :: int

record settings =
  ss_root :: string
  ss_stale :: int
  ss_beat_stale :: int
  ss_flush_members :: int
  ss_max_attempts :: int

subsection \<open>Claiming\<close>

definition claim_files :: "cat \<Rightarrow> nat \<Rightarrow> (string \<times> int) list" where
  "claim_files d cid = map (\<lambda>r. (sf_path r, sf_size r)) (map the (filter (\<lambda>x. x \<noteq> None) (map (sfiles d) (files_of d cid))))"

definition claim_row :: "string \<Rightarrow> int \<Rightarrow> int \<Rightarrow> crow \<Rightarrow> crow" where
  "claim_row w now sb r = r\<lparr>ct_status := St_Claimed, ct_claimed_by := Some w, ct_claimed_at := Some now,
     ct_attempts := ct_attempts r + 1, ct_source_bytes := Some sb, ct_finished_at := None\<rparr>"

definition claim_one :: "nat set \<Rightarrow> string \<Rightarrow> int \<Rightarrow> claim option db_act" where
  "claim_one locked w now = (\<lambda>d.
     case find (\<lambda>i. i \<notin> locked) (rows_where (\<lambda>r. ct_status r = St_Pending) d) of
       None \<Rightarrow> (Inr None, d)
     | Some cid \<Rightarrow>
         let r = the (rows d cid); files = claim_files d cid; sb = sum_list (map snd files) in
         (Inr (Some \<lparr>cl_id = cid, cl_kind = ct_kind r, cl_attempt = ct_attempts r + 1, cl_worker = w,
             cl_source = ct_source r, cl_files = files, cl_bytes = sb\<rparr>),
          update_rows (\<lambda>i _. i = cid) (claim_row w now sb) d))"

definition owned :: "claim \<Rightarrow> cat \<Rightarrow> bool" where
  "owned cl d \<longleftrightarrow> (case rows d (cl_id cl) of None \<Rightarrow> False
     | Some r \<Rightarrow> ct_status r = St_Claimed \<and> ct_claimed_by r = Some (cl_worker cl) \<and> ct_attempts r = cl_attempt cl)"

definition assert_owned :: "claim \<Rightarrow> unit db_act" where
  "assert_owned cl = (\<lambda>d. if owned cl d then (Inr (), d) else (Inl Lost_Claim, d))"

subsection \<open>The sink\<close>

record sink =
  sk_claim :: claim
  sk_flush_members :: nat
  sk_top_depth :: int
  sk_rel :: "(string, string) dict"
  sk_blobs :: "(string, blob) dict"
  sk_occ :: "occ list"
  sk_nested :: "(string list, nat) dict"
  sk_archive_sha :: "(string list, string \<times> int) dict"
  sk_refused_by :: "(nat, (string, nat) dict) dict"
  sk_refused_examples :: "(nat, (string list \<times> string) list) dict"
  sk_members :: int

record sw =
  sw_db :: cat
  sw_sink :: sink
  sw_txns :: nat
  sw_unreleased :: "claim list"

type_synonym 'a sweep_act = "(sw, sweep_exn, 'a) act"

definition run_txn :: "(nat \<Rightarrow> bool) \<Rightarrow> 'a db_act \<Rightarrow> 'a sweep_act" where
  "run_txn up m = (\<lambda>s.
     let n = sw_txns s; s = s\<lparr>sw_txns := Suc n\<rparr> in
     if \<not> up n then (Inl Db_Error, s)
     else (case txn m (sw_db s) of (r, d) \<Rightarrow> (r, s\<lparr>sw_db := d\<rparr>)))"

definition new_sink :: "settings \<Rightarrow> claim \<Rightarrow> sink" where
  "new_sink st cl = \<lparr>sk_claim = cl, sk_flush_members = nat (max 1 (ss_flush_members st)),
     sk_top_depth = (if cl_kind cl = Ct_Loose then 0 else 1),
     sk_rel = (if cl_kind cl = Ct_Loose
               then fold (\<lambda>(rel, _). AList.update (ss_root st @ ''/'' @ rel) rel) (cl_files cl) [] else []),
     sk_blobs = [], sk_occ = [], sk_nested = [], sk_archive_sha = [], sk_refused_by = [],
     sk_refused_examples = [], sk_members = 0\<rparr>"

definition sink_chain :: "sink \<Rightarrow> chain \<Rightarrow> chain" where
  "sink_chain k chain = (case chain of
     [] \<Rightarrow> []
   | c # cs \<Rightarrow> if sk_rel k \<noteq> [] then dict_get (sk_rel k) c c # cs else c # cs)"

definition sink_owner :: "sink \<Rightarrow> chain \<Rightarrow> nat" where
  "sink_owner k chain =
     (let parent = butlast chain in
      if parent = [] then cl_id (sk_claim k) else dict_get (sk_nested k) parent (cl_id (sk_claim k)))"

definition member_ext :: "string \<Rightarrow> string option" where
  "member_ext name =
     (let first = (case str_partition ''//'' name of None \<Rightarrow> name | Some (a, _) \<Rightarrow> a);
          ext = str_lower (tl (splitext_ext (base_name first)))
      in if ext \<noteq> [] \<and> length ext \<le> 16 then Some ext else None)"

definition member_path :: "chain \<Rightarrow> string" where
  "member_path chain = join_on (CHR 0x1F) chain"

definition result_notes :: "result option \<Rightarrow> (string, nat) dict option \<Rightarrow> (string list \<times> string) list option \<Rightarrow>
    note_list \<Rightarrow> note_list option" where
  "result_notes res refused examples extra =
     (let d = (case res of None \<Rightarrow> [] | Some r \<Rightarrow>
            (case res_reader r of None \<Rightarrow> [] | Some x \<Rightarrow> if x = [] then [] else [(''reader'', Note_Text x)]) @
            (if res_depth r \<noteq> 0 then [(''max_depth'', Note_Int (res_depth r))] else []));
          d = d @ (case refused of None \<Rightarrow> [] | Some c \<Rightarrow> if c = [] then []
                   else [(''refused'', Note_Counts c), (''refused_examples'',
                     Note_Examples (take 20 (case examples of None \<Rightarrow> [] | Some x \<Rightarrow> x)))]);
          d = fold (\<lambda>(k, v). AList.update k v) extra d
      in if d = [] then None else Some d)"

definition insert_blobs :: "(string, blob) dict \<Rightarrow> unit db_act" where
  "insert_blobs new = act_mod (\<lambda>d. d\<lparr>blobs :=
     fold (\<lambda>k. dict_setdefault k (the (map_of new k))) (sort (dict_keys new)) (blobs d)\<rparr>)"

definition add_occ :: "occ \<Rightarrow> occ list \<Rightarrow> occ list" where
  "add_occ x xs = (if \<exists>y \<in> set xs. oc_container y = oc_container x \<and> oc_path y = oc_path x then xs else xs @ [x])"

definition insert_occs :: "occ list \<Rightarrow> unit db_act" where
  "insert_occs new = (\<lambda>d.
     if \<exists>x \<in> set new. rows d (oc_container x) = None \<or> map_of (blobs d) (oc_blob x) = None
     then (Inl Db_Error, d)
     else (Inr (), d\<lparr>occs := fold add_occ new (occs d)\<rparr>))"

definition flush_db :: "sink \<Rightarrow> nat db_act option \<Rightarrow> nat option db_act" where
  "flush_db k extra =
     act_seq (assert_owned (sk_claim k))
    (act_seq (insert_blobs (sk_blobs k))
    (act_seq (insert_occs (sk_occ k))
       (case extra of None \<Rightarrow> act_ret None | Some m \<Rightarrow> act_bind m (\<lambda>i. act_ret (Some i)))))"

definition clear_buffers :: "sw \<Rightarrow> sw" where
  "clear_buffers s = s\<lparr>sw_sink := (sw_sink s)\<lparr>sk_blobs := [], sk_occ := []\<rparr>\<rparr>"

definition flush :: "(nat \<Rightarrow> bool) \<Rightarrow> nat db_act option \<Rightarrow> nat option sweep_act" where
  "flush up extra =
     act_bind (act_get sw_sink) (\<lambda>k.
     if sk_blobs k = [] \<and> sk_occ k = [] \<and> Option.is_none extra then act_ret None
     else act_bind (run_txn up (flush_db k extra)) (\<lambda>out.
       act_seq (act_mod clear_buffers) (act_ret out)))"

definition buffer_member :: "chain \<Rightarrow> string \<Rightarrow> int \<Rightarrow> kind \<Rightarrow> nat option \<Rightarrow> int \<Rightarrow> sink \<Rightarrow> sink" where
  "buffer_member chain sha sz kind tri depth k =
     (let k = k\<lparr>sk_blobs := dict_setdefault sha \<lparr>bl_size = sz, bl_kind = kind, bl_ext = member_ext (last chain),
            bl_triangles = tri\<rparr> (sk_blobs k),
          sk_occ := sk_occ k @ [\<lparr>oc_blob = sha, oc_container = sink_owner k chain, oc_chain = chain,
            oc_path = member_path chain, oc_depth = depth\<rparr>]\<rparr>;
          k = (if kind = Archive then k\<lparr>sk_archive_sha := AList.update chain (sha, sz) (sk_archive_sha k)\<rparr> else k)
      in k\<lparr>sk_members := sk_members k + 1\<rparr>)"

definition sink_member :: "(nat \<Rightarrow> bool) \<Rightarrow> chain \<Rightarrow> string \<Rightarrow> int \<Rightarrow> kind \<Rightarrow> nat option \<Rightarrow> int \<Rightarrow> unit sweep_act" where
  "sink_member up raw sha sz kind tri depth =
     act_bind (act_get (\<lambda>s. sink_chain (sw_sink s) raw)) (\<lambda>chain.
     if chain = [] then act_raise Other_Error
     else
       act_seq (act_mod (\<lambda>s. s\<lparr>sw_sink := buffer_member chain sha sz kind tri depth (sw_sink s)\<rparr>))
         (act_bind (act_get sw_sink) (\<lambda>k.
          if length (sk_occ k) \<ge> sk_flush_members k then act_seq (flush up None) (act_ret ()) else act_ret ())))"

definition note_refused :: "chain \<Rightarrow> string \<Rightarrow> sink \<Rightarrow> sink" where
  "note_refused chain why k =
     (let cid = sink_owner k chain;
          by = dict_get (sk_refused_by k) cid [];
          ex = dict_get (sk_refused_examples k) cid []
      in k\<lparr>sk_refused_by := AList.update cid (AList.update why (dict_get by why 0 + 1) by) (sk_refused_by k),
           sk_refused_examples := AList.update cid (if length ex < 20 then ex @ [(chain, why)] else ex)
             (sk_refused_examples k)\<rparr>)"

definition sink_refused :: "chain \<Rightarrow> string \<Rightarrow> unit sweep_act" where
  "sink_refused raw why = act_mod (\<lambda>s. s\<lparr>sw_sink := note_refused (sink_chain (sw_sink s) raw) why (sw_sink s)\<rparr>)"

definition nested_row :: "int \<Rightarrow> sink \<Rightarrow> chain \<Rightarrow> string option \<Rightarrow> int option \<Rightarrow> crow" where
  "nested_row now k chain sha sz = (fresh_row Ct_Nested)\<lparr>ct_source := cl_source (sk_claim k), ct_blob := sha,
     ct_parent := Some (sink_owner k chain), ct_chain := Some chain,
     ct_depth := sk_top_depth k + int (length chain), ct_status := St_Claimed,
     ct_claimed_by := Some (cl_worker (sk_claim k)), ct_claimed_at := Some now,
     ct_attempts := cl_attempt (sk_claim k), ct_source_bytes := sz\<rparr>"

definition set_nested :: "chain \<Rightarrow> nat option \<Rightarrow> unit sweep_act" where
  "set_nested chain out = (case out of None \<Rightarrow> act_ret ()
     | Some i \<Rightarrow> act_mod (\<lambda>s. s\<lparr>sw_sink := (sw_sink s)\<lparr>sk_nested := AList.update chain i (sk_nested (sw_sink s))\<rparr>\<rparr>))"

definition sink_nested :: "(nat \<Rightarrow> bool) \<Rightarrow> int \<Rightarrow> chain \<Rightarrow> string \<Rightarrow> int \<Rightarrow> unit sweep_act" where
  "sink_nested up now raw sha sz =
     act_bind (act_get sw_sink) (\<lambda>k.
     let chain = sink_chain k raw in
     act_bind (flush up (Some (insert_row (nested_row now k chain (Some sha) (Some sz))))) (set_nested chain))"

definition status_of :: "string \<Rightarrow> ct_status" where
  "status_of s = (if s = ''done'' then St_Done else St_Failed)"

definition result_row :: "result \<Rightarrow> int \<Rightarrow> note_list option \<Rightarrow> crow \<Rightarrow> crow" where
  "result_row res now nts r = r\<lparr>ct_status := status_of (res_status res), ct_reason := res_reason res,
     ct_members := res_members res, ct_bytes := res_bytes res, ct_format := res_format res,
     ct_finished_at := Some now, ct_notes := nts\<rparr>"

definition sink_result :: "(nat \<Rightarrow> bool) \<Rightarrow> int \<Rightarrow> chain \<Rightarrow> result \<Rightarrow> unit sweep_act" where
  "sink_result up now raw res =
     act_bind (act_get sw_sink) (\<lambda>k.
     let chain = sink_chain k raw in
     case map_of (sk_nested k) chain of
       Some cid \<Rightarrow>
         let nts = result_notes (Some res) (map_of (sk_refused_by k) cid) (map_of (sk_refused_examples k) cid) [] in
         act_bind (flush up (Some (act_seq (act_mod (update_rows (\<lambda>i _. i = cid) (result_row res now nts)))
             (act_ret cid)))) (set_nested chain)
     | None \<Rightarrow>
         let src = map_of (sk_archive_sha k) chain;
             nts = result_notes (Some res) None None [] in
         act_bind (flush up (Some (insert_row (result_row res now nts
             (nested_row now k chain (map_option fst src) (map_option snd src)))))) (set_nested chain))"

definition sink_event :: "(nat \<Rightarrow> bool) \<Rightarrow> int \<Rightarrow> event \<Rightarrow> unit sweep_act" where
  "sink_event up now ev = (case ev of
     Ev_Member chain sha sz kind tri depth \<Rightarrow> sink_member up chain sha sz kind tri depth
   | Ev_Refused chain why \<Rightarrow> sink_refused chain why
   | Ev_Nested chain sha sz \<Rightarrow> sink_nested up now chain sha sz
   | Ev_Result chain res \<Rightarrow> sink_result up now chain res)"

subsection \<open>Finishing and releasing\<close>

definition requeued_row :: "crow \<Rightarrow> crow" where
  "requeued_row r = r\<lparr>ct_status := St_Pending, ct_reason := None, ct_claimed_by := None, ct_claimed_at := None,
     ct_attempts := 0, ct_members := 0, ct_bytes := 0, ct_finished_at := None\<rparr>"

definition requeue_as_loose :: "claim \<Rightarrow> nat db_act" where
  "requeue_as_loose cl =
     act_bind (act_get (rows_where (\<lambda>r. ct_requeued_from r = Some (cl_id cl) \<and> ct_kind r = Ct_Loose))) (\<lambda>existing.
     act_bind (case existing of
         i # _ \<Rightarrow> act_seq (purge_outputs i)
           (act_seq (act_mod (update_rows (\<lambda>j _. j = i) requeued_row))
           (act_seq (act_mod (\<lambda>d. d\<lparr>cfiles := filter (\<lambda>(c, _, _). c \<noteq> i) (cfiles d)\<rparr>)) (act_ret i)))
       | [] \<Rightarrow> insert_row ((fresh_row Ct_Loose)\<lparr>ct_source := cl_source cl, ct_depth := 0,
           ct_requeued_from := Some (cl_id cl), ct_notes := result_notes None None None
             [(''requeued_from'', Note_Int (int (cl_id cl))), (''reason'', Note_Text ''unsupported_format'')]\<rparr>)) (\<lambda>new.
     act_bind (act_get (\<lambda>d. filter (\<lambda>(c, _, _). c = cl_id cl) (cfiles d))) (\<lambda>mine.
     act_seq (insert_cfiles (map (\<lambda>(_, s, n). (new, s, n)) mine)) (act_ret new))))"

definition should_requeue :: "claim \<Rightarrow> result \<Rightarrow> bool" where
  "should_requeue cl res \<longleftrightarrow> cl_kind cl = Ct_Archive \<and> res_status res = ''failed'' \<and>
     res_reason res = Some ''unsupported_format'' \<and> res_format res = None"

definition finish_row :: "string \<Rightarrow> string option \<Rightarrow> result \<Rightarrow> int \<Rightarrow> note_list option \<Rightarrow> crow \<Rightarrow> crow" where
  "finish_row status why res now nts r = r\<lparr>ct_status := status_of status, ct_reason := why,
     ct_members := res_members res, ct_bytes := res_bytes res,
     ct_format := (case res_format res of None \<Rightarrow> ct_format r | Some f \<Rightarrow> Some f),
     ct_finished_at := Some now, ct_notes := nts\<rparr>"

definition close_row :: "string option \<Rightarrow> int \<Rightarrow> crow \<Rightarrow> crow" where
  "close_row why now r = r\<lparr>ct_status := St_Failed,
     ct_reason := Some (case why of None \<Rightarrow> ''reader_error'' | Some w \<Rightarrow> if w = [] then ''reader_error'' else w),
     ct_finished_at := Some now\<rparr>"

definition count_worker :: "claim \<Rightarrow> bool \<Rightarrow> int \<Rightarrow> int \<Rightarrow> cat \<Rightarrow> cat" where
  "count_worker cl ok bytes now d = d\<lparr>workers := (case map_of (workers d) (cl_worker cl) of
       None \<Rightarrow> workers d
     | Some w \<Rightarrow> AList.update (cl_worker cl) (w\<lparr>wk_done := wk_done w + (if ok then 1 else 0),
         wk_failed := wk_failed w + (if ok then 0 else 1), wk_bytes := wk_bytes w + bytes,
         wk_source_bytes := wk_source_bytes w + cl_bytes cl, wk_current := None,
         wk_last_seen := now\<rparr>) (workers d))\<rparr>"

definition count_run :: "claim \<Rightarrow> bool \<Rightarrow> int \<Rightarrow> nat option \<Rightarrow> cat \<Rightarrow> cat" where
  "count_run cl ok written run d = (case run of None \<Rightarrow> d | Some i \<Rightarrow> d\<lparr>runs := (runs d)(i := map_option
     (\<lambda>r. r\<lparr>rn_claimed := rn_claimed r + 1, rn_done := rn_done r + (if ok then 1 else 0),
       rn_failed := rn_failed r + (if ok then 0 else 1), rn_occurrences := rn_occurrences r + written,
       rn_bytes := rn_bytes r + cl_bytes cl\<rparr>) (runs d i))\<rparr>)"

definition finish_db :: "int \<Rightarrow> claim \<Rightarrow> result \<Rightarrow> sink \<Rightarrow> nat option \<Rightarrow> (string \<times> string option) db_act" where
  "finish_db now cl res k run =
     act_seq (assert_owned cl)
    (act_bind (if should_requeue cl res
               then act_bind (requeue_as_loose cl) (\<lambda>i. act_ret (''done'', None,
                 [(''superseded_by'', Note_Int (int i)), (''engine_reason'', Note_Text ''unsupported_format'')]))
               else act_ret (res_status res, res_reason res, [])) (\<lambda>(status, why, extra).
     act_seq (act_mod (update_rows (\<lambda>i _. i = cl_id cl) (finish_row status why res now
       (result_notes (Some res) (map_of (sk_refused_by k) (cl_id cl))
         (map_of (sk_refused_examples k) (cl_id cl)) extra))))
    (act_seq (act_mod (update_rows (\<lambda>i r. i \<in> snd ` set (sk_nested k) \<and> ct_status r = St_Claimed) (close_row why now)))
    (act_seq (act_mod (\<lambda>d. count_run cl (status = ''done'') (sk_members k) run
       (count_worker cl (status = ''done'') (res_bytes res) now d)))
       (act_ret (status, why))))))"

definition finish_claim :: "(nat \<Rightarrow> bool) \<Rightarrow> int \<Rightarrow> claim \<Rightarrow> result \<Rightarrow> nat option \<Rightarrow> (string \<times> string option) sweep_act" where
  "finish_claim up now cl res run =
     act_seq (flush up None) (act_bind (act_get sw_sink) (\<lambda>k. run_txn up (finish_db now cl res k run)))"

definition release_row :: "bool \<Rightarrow> crow \<Rightarrow> crow" where
  "release_row count_attempt r = r\<lparr>ct_status := St_Pending, ct_claimed_by := None, ct_claimed_at := None,
     ct_attempts := max (ct_attempts r - (if count_attempt then 0 else 1)) 0\<rparr>"

definition release_db :: "claim \<Rightarrow> bool \<Rightarrow> bool db_act" where
  "release_db cl count_attempt = (\<lambda>d.
     if owned cl d
     then act_seq (purge_outputs (cl_id cl))
       (act_seq (act_mod (update_rows (\<lambda>i _. i = cl_id cl) (release_row count_attempt))) (act_ret True)) d
     else (Inr False, d))"

definition release_claim :: "(nat \<Rightarrow> bool) \<Rightarrow> claim \<Rightarrow> bool \<Rightarrow> bool sweep_act" where
  "release_claim up cl count_attempt = run_txn up (release_db cl count_attempt)"

subsection \<open>The reaper\<close>

definition int_str :: "int \<Rightarrow> string" where
  "int_str n = (if n < 0 then CHR ''-'' # nat_str (nat (- n)) else nat_str (nat n))"

definition exhausted_row :: "int \<Rightarrow> note_list option \<Rightarrow> crow \<Rightarrow> crow" where
  "exhausted_row now nts r = r\<lparr>ct_status := St_Failed, ct_reason := Some ''retries_exhausted'',
     ct_finished_at := Some now, ct_notes := nts\<rparr>"

definition close_exhausted :: "int \<Rightarrow> crow \<Rightarrow> crow" where
  "close_exhausted now r = r\<lparr>ct_status := St_Failed, ct_reason := Some ''retries_exhausted'',
     ct_finished_at := Some now\<rparr>"

definition unclaim_row :: "crow \<Rightarrow> crow" where
  "unclaim_row r = r\<lparr>ct_status := St_Pending, ct_claimed_by := None, ct_claimed_at := None\<rparr>"

definition stale_row :: "settings \<Rightarrow> int \<Rightarrow> cat \<Rightarrow> crow \<Rightarrow> bool" where
  "stale_row st now d r \<longleftrightarrow> ct_status r = St_Claimed \<and> ct_kind r \<noteq> Ct_Nested \<and>
     (let w = Option.bind (ct_claimed_by r) (map_of (workers d));
          before = (\<lambda>x. case ct_claimed_at r of None \<Rightarrow> False | Some t \<Rightarrow> t < now - x)
      in before (ss_stale st) \<or> (w = None \<and> before (ss_beat_stale st)) \<or>
         (case w of None \<Rightarrow> False | Some x \<Rightarrow> wk_last_seen x < now - ss_beat_stale st))"

definition lost_detail :: "string \<Rightarrow> crow \<Rightarrow> string" where
  "lost_detail why r = int_str (ct_attempts r) @ '' attempts; last worker '' @
     (case ct_claimed_by r of None \<Rightarrow> ''None'' | Some w \<Rightarrow> w) @ '' lost ('' @ why @ '')''"

definition reap_one :: "int \<Rightarrow> int \<Rightarrow> string \<Rightarrow> nat \<Rightarrow> unit db_act" where
  "reap_one max_attempts now why cid = (\<lambda>d.
     if ct_attempts (the (rows d cid)) > max_attempts
     then act_seq (act_mod (update_rows (\<lambda>i _. i = cid) (exhausted_row now (result_notes None None None
           [(''detail'', Note_Text (lost_detail why (the (rows d cid))))]))))
       (act_bind (act_get (\<lambda>d. map fst (nested_descendants d cid))) (\<lambda>desc.
        act_mod (update_rows (\<lambda>i r. i \<in> set desc \<and> ct_status r = St_Claimed) (close_exhausted now)))) d
     else act_seq (purge_outputs cid) (act_mod (update_rows (\<lambda>i _. i = cid) unclaim_row)) d)"

definition reap_rows :: "int \<Rightarrow> int \<Rightarrow> string \<Rightarrow> nat list \<Rightarrow> unit db_act" where
  "reap_rows max_attempts now why ids = act_for ids (reap_one max_attempts now why)"

definition reap :: "settings \<Rightarrow> nat set \<Rightarrow> int \<Rightarrow> unit db_act" where
  "reap st locked now =
     act_bind (act_get (\<lambda>d. take 500 (filter (\<lambda>i. i \<notin> locked) (rows_where (stale_row st now d) d))))
       (reap_rows (ss_max_attempts st) now ''stale'')"

definition release_own_claims :: "settings \<Rightarrow> nat set \<Rightarrow> string \<Rightarrow> int \<Rightarrow> unit db_act" where
  "release_own_claims st locked w now =
     act_bind (act_get (\<lambda>d. filter (\<lambda>i. i \<notin> locked) (rows_where (\<lambda>r. ct_status r = St_Claimed \<and>
         ct_kind r \<noteq> Ct_Nested \<and> ct_claimed_by r = Some w) d)))
       (reap_rows (ss_max_attempts st) now ''worker_restart'')"

definition register_worker :: "string \<Rightarrow> int \<Rightarrow> unit db_act" where
  "register_worker w now = act_mod (\<lambda>d. d\<lparr>workers := AList.update w
     (case map_of (workers d) w of
        None \<Rightarrow> \<lparr>wk_last_seen = now, wk_current = None, wk_done = 0, wk_failed = 0, wk_bytes = 0, wk_source_bytes = 0\<rparr>
      | Some x \<Rightarrow> x\<lparr>wk_last_seen := now, wk_current := None\<rparr>) (workers d)\<rparr>)"

definition beat :: "string \<Rightarrow> nat option \<Rightarrow> int \<Rightarrow> unit db_act" where
  "beat w current now = act_mod (\<lambda>d. case map_of (workers d) w of None \<Rightarrow> d
     | Some x \<Rightarrow> d\<lparr>workers := AList.update w (x\<lparr>wk_last_seen := now, wk_current := current\<rparr>) (workers d)\<rparr>)"

definition work_remaining :: "cat \<Rightarrow> bool" where
  "work_remaining d \<longleftrightarrow> rows_where (\<lambda>r. ct_status r \<in> {St_Pending, St_Claimed} \<and> ct_kind r \<noteq> Ct_Nested) d \<noteq> []"

subsection \<open>One claim, end to end\<close>

datatype engine_end = Eng_Result result | Eng_Raise sweep_exn

definition depth_for :: "claim \<Rightarrow> int" where
  "depth_for cl = (if cl_kind cl = Ct_Loose then 0 else 1)"

definition bad_result :: "claim \<Rightarrow> result" where
  "bad_result cl = \<lparr>res_status = ''failed'', res_reason = Some ''reader_error'', res_members = 0, res_bytes = 0,
     res_depth = depth_for cl, res_format = None, res_reader = None\<rparr>"

definition engine_process :: "(nat \<Rightarrow> bool) \<Rightarrow> int \<Rightarrow> event list \<Rightarrow> engine_end \<Rightarrow> result sweep_act" where
  "engine_process up now evs fin = act_seq (act_for evs (sink_event up now))
     (case fin of Eng_Result res \<Rightarrow> act_ret res | Eng_Raise e \<Rightarrow> act_raise e)"

definition release_or_defer :: "(nat \<Rightarrow> bool) \<Rightarrow> claim \<Rightarrow> unit sweep_act" where
  "release_or_defer up cl = act_catch (act_seq (release_claim up cl False) (act_ret ()))
     (\<lambda>e. if e = Db_Error then act_mod (\<lambda>s. s\<lparr>sw_unreleased := sw_unreleased s @ [cl]\<rparr>) else act_raise e)"

definition discard_buffers :: "unit sweep_act" where
  "discard_buffers = act_mod clear_buffers"

definition outcome_of :: "claim \<Rightarrow> result \<Rightarrow> string \<times> string option \<Rightarrow> string \<times> string option" where
  "outcome_of cl res x = (if fst x = ''done'' \<and> should_requeue cl res
     then (''requeued'', Some ''unsupported_format'') else x)"

definition run_claim :: "(nat \<Rightarrow> bool) \<Rightarrow> settings \<Rightarrow> int \<Rightarrow> nat option \<Rightarrow> claim \<Rightarrow> event list \<Rightarrow> engine_end \<Rightarrow>
    (string \<times> string option) sweep_act" where
  "run_claim up st now run cl evs fin =
     act_seq (act_mod (\<lambda>s. s\<lparr>sw_sink := new_sink st cl\<rparr>))
    (act_catch
      (act_seq (run_txn up (act_seq (assert_owned cl) (purge_outputs (cl_id cl))))
        (act_bind (if cl_files cl = [] then act_ret (bad_result cl) else engine_process up now evs fin) (\<lambda>res.
         act_bind (finish_claim up now cl res run) (\<lambda>x. act_ret (outcome_of cl res x)))))
      (\<lambda>e. case e of
         Lost_Claim \<Rightarrow> act_ret (''lost'', None)
       | Shutdown \<Rightarrow> act_seq (release_claim up cl False) (act_raise Shutdown)
       | Db_Error \<Rightarrow> act_seq (release_or_defer up cl) (act_ret (''db_error'', None))
       | Value_Error \<Rightarrow> act_seq (release_claim up cl False) (act_raise Value_Error)
       | Other_Error \<Rightarrow>
           act_seq discard_buffers
             (act_catch (act_bind (finish_claim up now cl (bad_result cl) run)
                (\<lambda>x. act_ret (outcome_of cl (bad_result cl) x)))
               (\<lambda>e'. case e' of
                  Lost_Claim \<Rightarrow> act_ret (''error'', None)
                | Db_Error \<Rightarrow> act_seq (release_or_defer up cl) (act_ret (''error'', None))
                | _ \<Rightarrow> act_raise e'))))"

fun retry_deferred :: "(nat \<Rightarrow> bool) \<Rightarrow> claim list \<Rightarrow> unit sweep_act" where
  "retry_deferred up [] = act_ret ()"
| "retry_deferred up (cl # cls) = act_seq (release_claim up cl False)
     (act_seq (act_mod (\<lambda>s. s\<lparr>sw_unreleased := tl (sw_unreleased s)\<rparr>)) (retry_deferred up cls))"

definition retry_deferred_releases :: "(nat \<Rightarrow> bool) \<Rightarrow> unit sweep_act" where
  "retry_deferred_releases up = act_bind (act_get sw_unreleased) (retry_deferred up)"

subsection \<open>The worker loop\<close>

record loop =
  lp_sw :: sw
  lp_processed :: "nat list"
  lp_outcomes :: "(string, nat) dict"
  lp_next_reap :: int

type_synonym 'a loop_act = "(loop, sweep_exn, 'a) act"

definition in_loop :: "'a sweep_act \<Rightarrow> 'a loop_act" where
  "in_loop m = (\<lambda>l. case m (lp_sw l) of (r, s) \<Rightarrow> (r, l\<lparr>lp_sw := s\<rparr>))"

definition count_outcome :: "nat \<Rightarrow> string \<times> string option \<Rightarrow> loop \<Rightarrow> loop" where
  "count_outcome cid x l =
     (let key = fst x @ (case snd x of None \<Rightarrow> [] | Some w \<Rightarrow> CHR ''/'' # w) in
      l\<lparr>lp_processed := lp_processed l @ [cid],
        lp_outcomes := AList.update key (dict_get (lp_outcomes l) key 0 + 1) (lp_outcomes l)\<rparr>)"

text \<open>The claiming part of one pass through \<open>worker_loop\<close>: deferred releases, the reaper when it is due, the
  next claim. The inner \<open>None\<close> means that nothing was claimed, the outer one that the queue is drained.\<close>

definition next_claim :: "(nat \<Rightarrow> bool) \<Rightarrow> settings \<Rightarrow> nat set \<Rightarrow> string \<Rightarrow> bool \<Rightarrow> int \<Rightarrow> int \<Rightarrow> int \<Rightarrow>
    claim option option loop_act" where
  "next_claim up st locked w once now tick next_due =
     act_seq (in_loop (retry_deferred_releases up))
    (act_seq (\<lambda>l. if tick \<ge> lp_next_reap l
        then act_seq (in_loop (run_txn up (reap st locked now))) (act_mod (\<lambda>l. l\<lparr>lp_next_reap := next_due\<rparr>)) l
        else (Inr (), l))
    (act_bind (in_loop (run_txn up (claim_one locked w now))) (\<lambda>c.
     if c = None \<and> once
     then act_bind (in_loop (run_txn up (act_get work_remaining))) (\<lambda>more. act_ret (if more then Some None else None))
     else act_ret (Some c))))"

text \<open>One pass: \<open>False\<close> when the loop breaks. A database error skips the rest of the pass.\<close>

definition worker_pass :: "(nat \<Rightarrow> bool) \<Rightarrow> settings \<Rightarrow> nat set \<Rightarrow> string \<Rightarrow> bool \<Rightarrow> nat option \<Rightarrow> int \<Rightarrow> int \<Rightarrow> int \<Rightarrow>
    nat option \<Rightarrow> (claim \<Rightarrow> event list \<times> engine_end) \<Rightarrow> bool loop_act" where
  "worker_pass up st locked w once max_containers now tick next_due run eng = (\<lambda>l.
     if case max_containers of None \<Rightarrow> False | Some n \<Rightarrow> length (lp_processed l) \<ge> n then (Inr False, l)
     else
       (case next_claim up st locked w once now tick next_due l of
          (Inl Db_Error, l') \<Rightarrow> (Inr True, l')
        | (Inl e, l') \<Rightarrow> (Inl e, l')
        | (Inr None, l') \<Rightarrow> (Inr False, l')
        | (Inr (Some None), l') \<Rightarrow> (Inr True, l')
        | (Inr (Some (Some cl)), l') \<Rightarrow>
            act_bind (in_loop (run_claim up st now run cl (fst (eng cl)) (snd (eng cl)))) (\<lambda>x.
            act_seq (act_mod (count_outcome (cl_id cl) x)) (act_ret True)) l'))"

end
