(* ===== verification/WalkSync.thy ===== *)
theory WalkSync
  imports Catalog
begin

text \<open>
  How \<^verbatim>\<open>forge/src/forge/walker.py\<close> writes what it found into the catalog: the source files (new, changed,
  unchanged, vanished), one container per archive group, loose batches for the files that have none; and
  \<^verbatim>\<open>forge/src/forge/requeue.py\<close>, which resets failed containers. All of \<open>persist_walk\<close> is one transaction.
  Times are microseconds, \<open>path_to_id\<close> is the dictionary the code builds from the table. A set the code
  iterates over is taken in increasing order.
\<close>

definition mtime_us :: "int \<Rightarrow> int" where
  "mtime_us ns = (ns div 1000000000) * 1000000 + (ns mod 1000000000) div 1000"

definition lift_py :: "'a py \<Rightarrow> 'a db_act" where
  "lift_py m = (case m of Some (Inr v) \<Rightarrow> act_ret v | _ \<Rightarrow> act_raise Other_Error)"

definition group_notes :: "archive_group \<Rightarrow> nat list \<Rightarrow> note_list option" where
  "group_notes g merged = (case ag_volume_set g of
     None \<Rightarrow> None
   | Some v \<Rightarrow> Some ([(''volume_set'', Note_Text v), (''volumes'', Note_Int (int (length (ag_files g))))] @
       (if ag_missing g \<noteq> [] then [(''missing_volumes'', Note_Volumes (ag_missing g))] else []) @
       (if merged \<noteq> [] then [(''merged_containers'', Note_Ids (sort merged))] else [])))"

definition archive_status :: "archive_group \<Rightarrow> ct_status \<times> string option" where
  "archive_status g = (if ag_missing_volume g then (St_Failed, Some ''missing_volume'') else (St_Pending, None))"

fun ids_of :: "(string, nat) dict \<Rightarrow> walk_file list \<Rightarrow> nat list db_act" where
  "ids_of path_to_id [] = act_ret []"
| "ids_of path_to_id (f # fs) = act_bind (lift_py (dict_index path_to_id (wf_path f))) (\<lambda>i.
     act_bind (ids_of path_to_id fs) (\<lambda>is. act_ret (i # is)))"

text \<open>The archive containers that hold one of the files, as the query at the start of the pass saw them.\<close>

type_synonym membership = "(nat \<times> nat) list"

definition load_membership :: "nat list \<Rightarrow> cat \<Rightarrow> membership" where
  "load_membership ids d = map (\<lambda>(c, s, _). (s, c)) (filter (\<lambda>(c, s, _). s \<in> set ids \<and>
     (case rows d c of None \<Rightarrow> False | Some r \<Rightarrow> ct_kind r = Ct_Archive)) (cfiles d))"

definition holders :: "membership \<Rightarrow> nat list \<Rightarrow> nat list" where
  "holders ms file_ids = sorted_list_of_set (set (map snd (filter (\<lambda>(s, _). s \<in> set file_ids) ms)))"

definition current_pairs :: "cat \<Rightarrow> nat \<Rightarrow> (nat \<times> nat) list" where
  "current_pairs d cid = sort_key snd (map snd (filter (\<lambda>(c, _, _). c = cid) (cfiles d)))"

definition reset_for_group :: "archive_group \<Rightarrow> nat list \<Rightarrow> nat \<Rightarrow> nat list \<Rightarrow> unit db_act" where
  "reset_for_group g file_ids cid merged = reset_container cid (fst (archive_status g)) (snd (archive_status g))
     (Some (hd file_ids)) (ag_format g) (group_notes g merged)"

text \<open>A container that held volumes of a set now owned by another: what is left of it is read again, and
  with nothing left it is superseded.\<close>

definition detach_extra :: "int \<Rightarrow> nat \<Rightarrow> nat list \<Rightarrow> nat \<Rightarrow> unit db_act" where
  "detach_extra now keep file_ids extra =
     act_seq (act_mod (\<lambda>d. d\<lparr>cfiles := filter (\<lambda>(c, s, _). \<not> (c = extra \<and> s \<in> set file_ids)) (cfiles d)\<rparr>))
       (act_bind (act_get (\<lambda>d. files_of d extra)) (\<lambda>rest.
        case rest of
          s # _ \<Rightarrow> reset_container extra St_Pending None (Some s) None None
        | [] \<Rightarrow> supersede_container now extra keep))"

definition merge_group :: "int \<Rightarrow> archive_group \<Rightarrow> nat list \<Rightarrow> nat list \<Rightarrow> unit db_act" where
  "merge_group now g file_ids existing =
     act_bind (act_get (\<lambda>d. case find (\<lambda>c. Option.bind (rows d c) ct_source = Some (hd file_ids)) existing of
         Some c \<Rightarrow> c | None \<Rightarrow> hd existing)) (\<lambda>keep.
     let extras = filter (\<lambda>c. c \<noteq> keep) existing in
     act_seq (replace_container_files keep file_ids)
    (act_seq (reset_for_group g file_ids keep extras)
       (act_for extras (detach_extra now keep file_ids))))"

definition sync_one :: "archive_group \<Rightarrow> nat list \<Rightarrow> nat \<Rightarrow> bool \<Rightarrow> nat db_act" where
  "sync_one g file_ids cid any_changed =
     act_bind (act_get (\<lambda>d. current_pairs d cid)) (\<lambda>current.
     act_bind (act_get (\<lambda>d. rows d cid)) (\<lambda>row.
     let same = current = map (\<lambda>(n, s). (s, n)) (enumerate 1 file_ids) in
     if same \<and> \<not> any_changed \<and> (\<not> ag_missing_volume g \<or>
          (case row of None \<Rightarrow> False | Some r \<Rightarrow> ct_status r = St_Failed \<and> ct_reason r = Some ''missing_volume''))
     then act_ret 0
     else act_seq (if same then act_ret () else replace_container_files cid file_ids)
       (act_seq (reset_for_group g file_ids cid []) (act_ret 1))))"

definition sync_group :: "int \<Rightarrow> (string, nat) dict \<Rightarrow> membership \<Rightarrow> string list \<Rightarrow> string list \<Rightarrow> archive_group \<Rightarrow>
    nat db_act" where
  "sync_group now path_to_id ms changed_paths new_paths g =
     act_bind (ids_of path_to_id (ag_files g)) (\<lambda>file_ids.
     let existing = holders ms file_ids;
         any_changed = (\<exists>f \<in> set (ag_files g). wf_path f \<in> set changed_paths \<or> wf_path f \<in> set new_paths)
     in case existing of
          [cid] \<Rightarrow> sync_one g file_ids cid any_changed
        | [] \<Rightarrow> act_bind (insert_container (Some (hd file_ids)) Ct_Archive (ag_format g) 1 (fst (archive_status g))
                  (snd (archive_status g)) file_ids (group_notes g [])) (\<lambda>_. act_ret 1)
        | _ \<Rightarrow> act_seq (merge_group now g file_ids existing) (act_ret 1))"

fun sum_acts :: "('s, 'e, nat) act list \<Rightarrow> ('s, 'e, nat) act" where
  "sum_acts [] = act_ret 0"
| "sum_acts (m # ms) = act_bind m (\<lambda>n. act_bind (sum_acts ms) (\<lambda>k. act_ret (n + k)))"

definition sync_archive_groups :: "int \<Rightarrow> (string, nat) dict \<Rightarrow> string list \<Rightarrow> string list \<Rightarrow> archive_group list \<Rightarrow>
    nat db_act" where
  "sync_archive_groups now path_to_id changed_paths new_paths groups =
     act_bind (ids_of path_to_id (concat (map ag_files groups))) (\<lambda>all_ids.
     act_bind (act_get (load_membership all_ids)) (\<lambda>ms.
     sum_acts (map (sync_group now path_to_id ms changed_paths new_paths) groups)))"

definition reset_batch :: "nat \<Rightarrow> nat db_act" where
  "reset_batch cid = act_bind (act_get (\<lambda>d. files_of d cid)) (\<lambda>fs.
     act_seq (reset_container cid St_Pending None (case fs of [] \<Rightarrow> None | s # _ \<Rightarrow> Some s) None None) (act_ret 1))"

definition seed_batch :: "(string, nat) dict \<Rightarrow> loose_batch \<Rightarrow> nat db_act" where
  "seed_batch path_to_id b = act_bind (ids_of path_to_id (lb_files b)) (\<lambda>file_ids.
     act_bind (insert_container (Some (hd file_ids)) Ct_Loose None 0 St_Pending None file_ids None)
       (\<lambda>_. act_ret 1))"

definition loose_owner :: "nat list \<Rightarrow> cat \<Rightarrow> (nat, nat) dict" where
  "loose_owner ids d = fold (\<lambda>(c, s, _). AList.update s c) (filter (\<lambda>(c, s, _). s \<in> set ids \<and>
     (case rows d c of None \<Rightarrow> False | Some r \<Rightarrow> ct_kind r = Ct_Loose)) (cfiles d)) []"

definition sync_loose_batches :: "(string, nat) dict \<Rightarrow> string list \<Rightarrow> walk_file list \<Rightarrow> nat db_act" where
  "sync_loose_batches path_to_id changed_paths files =
     (let loose = filter (\<lambda>f. wf_kind f = Sf_Loose) files in
      act_bind (ids_of path_to_id loose) (\<lambda>ids.
      act_bind (act_get (loose_owner ids)) (\<lambda>owner.
      let owner_of = (\<lambda>f. Option.bind (map_of path_to_id (wf_path f)) (map_of owner));
          stale = map (\<lambda>f. the (owner_of f)) (filter (\<lambda>f. wf_path f \<in> set changed_paths \<and> owner_of f \<noteq> None) loose);
          orphans = filter (\<lambda>f. owner_of f = None) loose
      in sum_acts (map reset_batch (sorted_list_of_set (set stale)) @
           map (seed_batch path_to_id) (iter_loose_batches orphans)))))"

subsection \<open>\<open>persist_walk\<close>\<close>

definition staged :: "walk_file list \<Rightarrow> string \<Rightarrow> walk_file option" where
  "staged files path = find (\<lambda>f. wf_path f = path) files"

definition same_stat :: "srow \<Rightarrow> walk_file \<Rightarrow> bool" where
  "same_stat r f \<longleftrightarrow> sf_size r = wf_size f \<and> sf_mtime r = mtime_us (wf_mtime_ns f)"

definition sfile_rows :: "cat \<Rightarrow> (nat \<times> srow) list" where
  "sfile_rows d = map (\<lambda>i. (i, the (sfiles d i))) (filter (\<lambda>i. sfiles d i \<noteq> None) [1..<next_sfile d])"

definition refresh_srow :: "nat \<Rightarrow> walk_file list \<Rightarrow> srow \<Rightarrow> srow" where
  "refresh_srow sid files r = (case staged files (sf_path r) of
     None \<Rightarrow> r\<lparr>sf_present := False\<rparr>
   | Some f \<Rightarrow>
       let r' = (if same_stat r f then r\<lparr>sf_last_seen := sid, sf_present := True\<rparr>
                 else r\<lparr>sf_size := wf_size f, sf_mtime := mtime_us (wf_mtime_ns f), sf_kind := wf_kind f,
                        sf_last_seen := sid, sf_present := True\<rparr>)
       in r'\<lparr>sf_format := wf_format f, sf_volume_set := wf_volume_set f\<rparr>)"

definition new_srow :: "nat \<Rightarrow> walk_file \<Rightarrow> srow" where
  "new_srow sid f = \<lparr>sf_path = wf_path f, sf_size = wf_size f, sf_mtime = mtime_us (wf_mtime_ns f),
     sf_kind = wf_kind f, sf_format = wf_format f, sf_volume_set = wf_volume_set f, sf_first_seen = sid,
     sf_last_seen = sid, sf_present = True\<rparr>"

definition add_srow :: "srow \<Rightarrow> cat \<Rightarrow> cat" where
  "add_srow r d = d\<lparr>sfiles := (sfiles d)(next_sfile d \<mapsto> r), next_sfile := Suc (next_sfile d)\<rparr>"

definition known_paths :: "cat \<Rightarrow> string list" where
  "known_paths d = map (\<lambda>(_, r). sf_path r) (sfile_rows d)"

text \<open>The files whose kind changed leave the containers of the other kind.\<close>

definition drop_misfits :: "cat \<Rightarrow> cat" where
  "drop_misfits d = d\<lparr>cfiles := filter (\<lambda>(c, s, _). case (sfiles d s, rows d c) of
     (Some f, Some r) \<Rightarrow> \<not> (sf_kind f = Sf_Archive \<and> ct_kind r = Ct_Loose \<or> sf_kind f = Sf_Loose \<and> ct_kind r = Ct_Archive)
   | _ \<Rightarrow> True) (cfiles d)\<rparr>"

definition new_run :: "cat \<Rightarrow> nat \<times> cat" where
  "new_run d = (next_run d, d\<lparr>runs := (runs d)(next_run d \<mapsto> \<lparr>rn_walk = None, rn_finished_at = None, rn_claimed = 0,
     rn_done = 0, rn_failed = 0, rn_occurrences = 0, rn_bytes = 0\<rparr>), next_run := Suc (next_run d)\<rparr>)"

definition persist_files :: "nat \<Rightarrow> walk_file list \<Rightarrow> cat \<Rightarrow> cat" where
  "persist_files sid files d =
     (let fresh = filter (\<lambda>f. wf_path f \<notin> set (known_paths d)) files;
          d = d\<lparr>sfiles := (\<lambda>i. map_option (refresh_srow sid files) (sfiles d i))\<rparr>
      in drop_misfits (fold (\<lambda>f. add_srow (new_srow sid f)) fresh d))"

definition path_ids :: "walk_file list \<Rightarrow> cat \<Rightarrow> (string, nat) dict" where
  "path_ids files d = map (\<lambda>(i, r). (sf_path r, i)) (filter (\<lambda>(_, r). staged files (sf_path r) \<noteq> None) (sfile_rows d))"

definition persist_body :: "int \<Rightarrow> walk_file list \<Rightarrow> archive_group list \<Rightarrow> walk_counts \<Rightarrow> nat db_act" where
  "persist_body now files groups counts = (\<lambda>d.
     case new_run d of (sid, d) \<Rightarrow>
     if \<not> distinct (map wf_path files) then (Inl Db_Error, d)
     else
       let old = sfile_rows d;
           seen = filter (\<lambda>(_, r). staged files (sf_path r) \<noteq> None) old;
           vanished = filter (\<lambda>(_, r). sf_present r \<and> staged files (sf_path r) = None) old;
           unchanged = filter (\<lambda>(_, r). same_stat r (the (staged files (sf_path r)))) seen;
           changed = map (\<lambda>(_, r). sf_path r) (filter (\<lambda>(_, r). \<not> same_stat r (the (staged files (sf_path r)))) seen);
           new_paths = filter (\<lambda>p. p \<notin> set (known_paths d)) (map wf_path files);
           d = persist_files sid files d;
           ids = path_ids files d
       in act_bind (sync_archive_groups now ids changed new_paths groups) (\<lambda>a.
          act_bind (sync_loose_batches ids changed files) (\<lambda>b.
          act_seq (act_mod (\<lambda>d. d\<lparr>runs := (runs d)(sid := map_option (\<lambda>r. r\<lparr>rn_finished_at := Some now,
              rn_bytes := wc_bytes counts, rn_walk := Some (counts\<lparr>wc_new := int (length new_paths),
                wc_changed := int (length changed), wc_unchanged := int (length unchanged),
                wc_vanished := int (length vanished), wc_seeded := int (a + b)\<rparr>)\<rparr>) (runs d sid))\<rparr>))
            (act_ret sid))) d)"

definition persist_walk :: "int \<Rightarrow> walk_file list \<Rightarrow> archive_group list \<Rightarrow> walk_counts \<Rightarrow> nat db_act" where
  "persist_walk now files groups counts = txn (persist_body now files groups counts)"

subsection \<open>\<open>requeue\<close>\<close>

text \<open>The query \<open>_ROOTS\<close>: from the failed containers with one of the reasons up to their top-level archive.\<close>

fun ancestors :: "nat \<Rightarrow> cat \<Rightarrow> nat \<Rightarrow> nat list" where
  "ancestors 0 d i = [i]"
| "ancestors (Suc n) d i = i # (case Option.bind (rows d i) ct_parent of None \<Rightarrow> [] | Some p \<Rightarrow> ancestors n d p)"

definition requeue_roots :: "string list \<Rightarrow> cat \<Rightarrow> nat list" where
  "requeue_roots reasons d =
     (let bad = rows_where (\<lambda>r. ct_status r = St_Failed \<and> (\<exists>w \<in> set reasons. ct_reason r = Some w) \<and>
            ct_superseded_by r = None) d;
          up = concat (map (ancestors (next_row d) d) bad)
      in filter (\<lambda>i. i \<in> set up) (rows_where (\<lambda>r. ct_parent r = None \<and> ct_kind r = Ct_Archive \<and>
           ct_status r \<noteq> St_Claimed) d))"

definition source_size :: "cat \<Rightarrow> nat \<Rightarrow> int" where
  "source_size d cid = sum_list (map (\<lambda>s. case sfiles d s of None \<Rightarrow> 0 | Some f \<Rightarrow> sf_size f) (files_of d cid))"

record requeue_result =
  rq_selected :: nat
  rq_bytes :: int
  rq_skipped :: nat
  rq_ids :: "nat list"

fun requeue_rows :: "string list \<Rightarrow> int option \<Rightarrow> nat list \<Rightarrow> nat option \<Rightarrow> bool \<Rightarrow> (nat \<times> int) list \<Rightarrow> requeue_result \<Rightarrow>
    requeue_result db_act" where
  "requeue_rows reasons max_bytes only_ids limit dry_run [] res = act_ret res"
| "requeue_rows reasons max_bytes only_ids limit dry_run ((cid, bytes) # rest) res =
     (if only_ids \<noteq> [] \<and> cid \<notin> set only_ids then requeue_rows reasons max_bytes only_ids limit dry_run rest res
      else if (case max_bytes of None \<Rightarrow> False | Some m \<Rightarrow> bytes > m)
      then requeue_rows reasons max_bytes only_ids limit dry_run rest (res\<lparr>rq_skipped := rq_skipped res + 1\<rparr>)
      else if (case limit of None \<Rightarrow> False | Some n \<Rightarrow> rq_selected res \<ge> n) then act_ret res
      else
        let res = res\<lparr>rq_selected := rq_selected res + 1, rq_bytes := rq_bytes res + bytes, rq_ids := rq_ids res @ [cid]\<rparr> in
        act_seq (if dry_run then act_ret ()
            else act_bind (act_get (\<lambda>d. the (rows d cid))) (\<lambda>r.
              reset_container cid St_Pending None (ct_source r) (ct_format r)
                (Some [(''requeued_for'', Note_Texts reasons)])))
          (requeue_rows reasons max_bytes only_ids limit dry_run rest res))"

definition requeue :: "string list \<Rightarrow> int option \<Rightarrow> nat list \<Rightarrow> nat option \<Rightarrow> bool \<Rightarrow> requeue_result db_act" where
  "requeue reasons max_bytes only_ids limit dry_run =
     act_bind (act_get (\<lambda>d. sort_key (\<lambda>(i, b). (b, i)) (map (\<lambda>i. (i, source_size d i)) (requeue_roots reasons d)))) (\<lambda>rs.
     requeue_rows reasons max_bytes only_ids limit dry_run rs
       \<lparr>rq_selected = 0, rq_bytes = 0, rq_skipped = 0, rq_ids = []\<rparr>)"

end
