(* ===== verification/CatalogOk.thy ===== *)
theory CatalogOk
  imports Catalog
begin

text \<open>
  The well-formedness invariant of the container table, \<open>cat_ok\<close>, and what the shared transactions of
  theory Catalog do to it. \<open>cat_ok mx d\<close>: parents are older rows that exist, exactly the nested rows have
  one, nested rows get deeper from parent to child, every occurrence has its container, a pending row has
  nothing written under it and was claimed at most \<open>mx\<close> times, a claimed one at most \<open>mx + 1\<close> times. \<open>grows\<close> says what
  every operation leaves alone: a row never changes its kind, depth or parent, and ids are never reused.
\<close>

definition unwritten :: "nat \<Rightarrow> cat \<Rightarrow> bool" where
  "unwritten i d \<longleftrightarrow> (\<forall>x \<in> set (occs d). oc_container x \<noteq> i) \<and> (\<forall>j r. rows d j = Some r \<longrightarrow> ct_parent r \<noteq> Some i)"

definition row_ok :: "int \<Rightarrow> cat \<Rightarrow> nat \<Rightarrow> crow \<Rightarrow> bool" where
  "row_ok mx d i r \<longleftrightarrow> 0 < i \<and> i < next_row d \<and> (ct_kind r = Ct_Nested) = (ct_parent r \<noteq> None) \<and>
     (\<forall>p. ct_parent r = Some p \<longrightarrow> p < i \<and> (\<exists>q. rows d p = Some q \<and> (ct_parent q \<noteq> None \<longrightarrow> ct_depth q < ct_depth r))) \<and>
     (ct_status r = St_Pending \<longrightarrow> ct_parent r = None \<and> unwritten i d \<and> ct_attempts r \<le> mx) \<and>
     (ct_status r = St_Claimed \<longrightarrow> ct_parent r = None \<longrightarrow> ct_attempts r \<le> mx + 1)"

definition cat_ok :: "int \<Rightarrow> cat \<Rightarrow> bool" where
  "cat_ok mx d \<longleftrightarrow> 0 \<le> mx \<and> 0 < next_row d \<and> (\<forall>i r. rows d i = Some r \<longrightarrow> row_ok mx d i r) \<and>
     (\<forall>x \<in> set (occs d). rows d (oc_container x) \<noteq> None)"

definition skeleton :: "crow \<Rightarrow> ct_kind \<times> int \<times> nat option" where
  "skeleton r = (ct_kind r, ct_depth r, ct_parent r)"

definition grows :: "cat \<Rightarrow> cat \<Rightarrow> bool" where
  "grows d d' \<longleftrightarrow> next_row d \<le> next_row d' \<and> (\<forall>i r'. i < next_row d \<longrightarrow> rows d' i = Some r' \<longrightarrow>
     (\<exists>r. rows d i = Some r \<and> skeleton r' = skeleton r))"

lemma grows_refl [simp, intro]: "grows d d"
  by (simp add: grows_def)

lemma grows_trans [trans]: "grows a b \<Longrightarrow> grows b c \<Longrightarrow> grows a c"
  unfolding grows_def by (metis order_less_le_trans order_trans)

lemma cat_okD:
  assumes "cat_ok mx d" and "rows d i = Some r"
  shows "0 < i" "i < next_row d" "(ct_kind r = Ct_Nested) = (ct_parent r \<noteq> None)"
    "ct_parent r = Some p \<Longrightarrow> p < i \<and> (\<exists>q. rows d p = Some q \<and> (ct_parent q \<noteq> None \<longrightarrow> ct_depth q < ct_depth r))"
    "ct_status r = St_Pending \<Longrightarrow> ct_parent r = None \<and> unwritten i d \<and> ct_attempts r \<le> mx"
    "ct_status r = St_Claimed \<Longrightarrow> ct_parent r = None \<Longrightarrow> ct_attempts r \<le> mx + 1"
  using assms unfolding cat_ok_def row_ok_def by blast+

lemma cat_ok_fresh: "cat_ok mx d \<Longrightarrow> next_row d \<le> i \<Longrightarrow> rows d i = None"
  using cat_okD(2) by fastforce

text \<open>Changes of the other tables.\<close>

lemma unwritten_cong: "rows d' = rows d \<Longrightarrow> occs d' = occs d \<Longrightarrow> unwritten i d' = unwritten i d"
  by (simp add: unwritten_def)

lemma cat_ok_cong:
  assumes "rows d' = rows d" and "next_row d' = next_row d" and "occs d' = occs d"
  shows "cat_ok mx d' = cat_ok mx d"
  using assms unwritten_cong [OF assms(1,3)] by (simp add: cat_ok_def row_ok_def)

lemma grows_cong: "rows d' = rows d \<Longrightarrow> next_row d' = next_row d \<Longrightarrow> grows d d'"
  by (simp add: grows_def)

subsection \<open>Updates and inserts\<close>

lemma update_rows_rows: "rows (update_rows P f d) i = map_option (\<lambda>r. if P i r then f r else r) (rows d i)"
  by (simp add: update_rows_def)

lemma update_rows_simps [simp]:
  "next_row (update_rows P f d) = next_row d" "cfiles (update_rows P f d) = cfiles d"
  "occs (update_rows P f d) = occs d" "blobs (update_rows P f d) = blobs d"
  "sfiles (update_rows P f d) = sfiles d" "workers (update_rows P f d) = workers d"
  "next_sfile (update_rows P f d) = next_sfile d" "runs (update_rows P f d) = runs d"
  by (simp_all add: update_rows_def)

lemma grows_update:
  assumes "\<And>i r. rows d i = Some r \<Longrightarrow> P i r \<Longrightarrow> skeleton (f r) = skeleton r"
  shows "grows d (update_rows P f d)"
  unfolding grows_def using assms by (auto simp: update_rows_rows)

lemma unwritten_update:
  assumes "\<And>i r. rows d i = Some r \<Longrightarrow> P i r \<Longrightarrow> skeleton (f r) = skeleton r"
  shows "unwritten i (update_rows P f d) = unwritten i d"
proof -
  have "(\<exists>r. rows (update_rows P f d) j = Some r \<and> ct_parent r = Some i) =
      (\<exists>r. rows d j = Some r \<and> ct_parent r = Some i)" for j
    using assms [of j] by (cases "rows d j") (auto simp: update_rows_rows skeleton_def)
  then show ?thesis unfolding unwritten_def by (metis update_rows_simps(3))
qed

lemma cat_ok_update:
  assumes ok: "cat_ok mx d"
    and sk: "\<And>i r. rows d i = Some r \<Longrightarrow> P i r \<Longrightarrow> skeleton (f r) = skeleton r"
    and pend: "\<And>i r. rows d i = Some r \<Longrightarrow> P i r \<Longrightarrow> ct_status (f r) = St_Pending \<Longrightarrow>
      ct_parent r = None \<and> unwritten i d \<and> ct_attempts (f r) \<le> mx"
    and clm: "\<And>i r. rows d i = Some r \<Longrightarrow> P i r \<Longrightarrow> ct_status (f r) = St_Claimed \<Longrightarrow> ct_parent r = None \<Longrightarrow>
      ct_attempts (f r) \<le> mx + 1"
  shows "cat_ok mx (update_rows P f d)"
proof -
  let ?d = "update_rows P f d"
  have "row_ok mx ?d i r'" if r': "rows ?d i = Some r'" for i r'
  proof -
    from r' obtain r where r: "rows d i = Some r" and eq: "r' = (if P i r then f r else r)"
      by (auto simp: update_rows_rows)
    note D = cat_okD [OF ok r]
    have s: "skeleton r' = skeleton r" using sk [OF r] eq by auto
    have 1: "p < i \<and> (\<exists>q. rows ?d p = Some q \<and> (ct_parent q \<noteq> None \<longrightarrow> ct_depth q < ct_depth r'))"
      if "ct_parent r' = Some p" for p
    proof -
      from that s have "ct_parent r = Some p" by (simp add: skeleton_def)
      from D(4) [OF this] obtain q where q: "p < i" "rows d p = Some q" "ct_parent q \<noteq> None \<longrightarrow> ct_depth q < ct_depth r"
        by blast
      from q(2,3) s sk [OF q(2)] have "\<exists>q. rows ?d p = Some q \<and> (ct_parent q \<noteq> None \<longrightarrow> ct_depth q < ct_depth r')"
        by (auto simp: update_rows_rows skeleton_def)
      with q(1) show ?thesis by blast
    qed
    have 2: "ct_parent r' = None \<and> unwritten i ?d \<and> ct_attempts r' \<le> mx" if "ct_status r' = St_Pending"
      using that s D(5) pend [OF r] eq unwritten_update [OF sk] by (auto simp: skeleton_def split: if_splits)
    have 3: "ct_attempts r' \<le> mx + 1" if "ct_status r' = St_Claimed" "ct_parent r' = None"
      using that s D(6) clm [OF r] eq by (auto simp: skeleton_def split: if_splits)
    show ?thesis unfolding row_ok_def using D(1-3) s 1 2 3 by (simp add: skeleton_def)
  qed
  moreover have "rows ?d (oc_container x) \<noteq> None" if "x \<in> set (occs ?d)" for x
    using ok that by (simp add: cat_ok_def update_rows_rows)
  ultimately show ?thesis using ok unfolding cat_ok_def by (metis update_rows_simps(1))
qed

text \<open>A new row has a new id, so nothing refers to it yet.\<close>

lemma unwritten_fresh:
  assumes ok: "cat_ok mx d" and n: "next_row d \<le> i"
  shows "unwritten i d"
proof -
  have none: "rows d i = None" by (rule cat_ok_fresh [OF ok n])
  have "oc_container x \<noteq> i" if "x \<in> set (occs d)" for x
    using ok that none by (auto simp: cat_ok_def)
  moreover have "ct_parent r \<noteq> Some i" if "rows d j = Some r" for j r
    using cat_okD(4) [OF ok that] none by auto
  ultimately show ?thesis by (simp add: unwritten_def)
qed

lemma insert_row_ok:
  assumes ok: "cat_ok mx d" and run: "insert_row r d = (Inr i, d')"
    and pa: "(ct_kind r = Ct_Nested) = (ct_parent r \<noteq> None)"
    and dp: "\<And>p q. ct_parent r = Some p \<Longrightarrow> rows d p = Some q \<Longrightarrow>
      ct_status q \<noteq> St_Pending \<and> (ct_parent q \<noteq> None \<longrightarrow> ct_depth q < ct_depth r)"
    and pe: "ct_status r = St_Pending \<Longrightarrow> ct_parent r = None \<and> ct_attempts r \<le> mx"
    and cl: "ct_status r = St_Claimed \<Longrightarrow> ct_parent r = None \<Longrightarrow> ct_attempts r \<le> mx + 1"
  shows "cat_ok mx d'" "grows d d'" "i = next_row d" "rows d' i = Some r" "occs d' = occs d" "cfiles d' = cfiles d"
    "\<And>j. j \<noteq> i \<Longrightarrow> rows d' j = rows d j" "next_row d' = Suc (next_row d)" "sfiles d' = sfiles d" "blobs d' = blobs d"
proof -
  let ?n = "next_row d"
  from run have eq: "i = ?n" "d' = d\<lparr>rows := (rows d)(?n \<mapsto> r), next_row := Suc ?n\<rparr>"
    and par: "\<not> dangling (rows d) (ct_parent r)"
    by (auto simp: insert_row_def split: if_splits)
  show "grows d d'" by (auto simp: grows_def eq)
  show "i = next_row d" "rows d' i = Some r" "occs d' = occs d" "cfiles d' = cfiles d"
    "\<And>j. j \<noteq> i \<Longrightarrow> rows d' j = rows d j" "next_row d' = Suc (next_row d)" "sfiles d' = sfiles d" "blobs d' = blobs d"
    by (simp_all add: eq)
  have fresh: "rows d j = Some q \<Longrightarrow> j \<noteq> ?n" for j q using cat_ok_fresh [OF ok, of ?n] by auto
  have parent: "\<exists>q. rows d p = Some q" if "ct_parent r = Some p" for p
    using par that by (cases "rows d p") (simp_all add: dangling_def)
  have old: "row_ok mx d' j q" if q: "rows d j = Some q" for j q
  proof -
    note D = cat_okD [OF ok q]
    have "\<exists>s. rows d' p = Some s \<and> (ct_parent s \<noteq> None \<longrightarrow> ct_depth s < ct_depth q)" if "ct_parent q = Some p" for p
      using D(4) [OF that] fresh by (auto simp: eq)
    moreover have "ct_status q = St_Pending \<Longrightarrow> unwritten j d'"
      using D(5) dp [OF _ q] by (auto simp: eq unwritten_def)
    ultimately show ?thesis unfolding row_ok_def using D by (auto simp: eq)
  qed
  have new: "row_ok mx d' ?n r"
  proof -
    have "p < ?n \<and> (\<exists>s. rows d' p = Some s \<and> (ct_parent s \<noteq> None \<longrightarrow> ct_depth s < ct_depth r))" if p: "ct_parent r = Some p" for p
      using parent [OF p] dp [OF p] cat_okD(2) [OF ok] fresh by (auto simp: eq)
    moreover have "unwritten ?n d'" if "ct_parent r = None"
      using unwritten_fresh [OF ok order_refl] that by (auto simp: eq unwritten_def)
    moreover have "0 < ?n" using ok by (simp add: cat_ok_def)
    ultimately show ?thesis unfolding row_ok_def using pa pe cl by (auto simp: eq)
  qed
  have "row_ok mx d' j q" if "rows d' j = Some q" for j q
    using that old new by (cases "j = ?n") (auto simp: eq)
  moreover have "rows d' (oc_container x) \<noteq> None" if "x \<in> set (occs d')" for x
    using ok that by (auto simp: cat_ok_def eq)
  moreover have "0 < next_row d'" by (simp add: eq)
  ultimately show "cat_ok mx d'" using ok unfolding cat_ok_def by blast
qed


subsection \<open>Descendants\<close>

definition child_of :: "cat \<Rightarrow> (nat \<times> nat) set" where
  "child_of d = {(i, p). \<exists>r. rows d i = Some r \<and> ct_parent r = Some p}"

definition desc_of :: "cat \<Rightarrow> nat \<Rightarrow> nat set" where
  "desc_of d cid = {i. (i, cid) \<in> (child_of d)\<^sup>+}"

lemma child_less: "cat_ok mx d \<Longrightarrow> (i, p) \<in> child_of d \<Longrightarrow> p < i \<and> i < next_row d"
  using cat_okD(2,4) by (auto simp: child_of_def)

lemma child_power_less: "cat_ok mx d \<Longrightarrow> (i, p) \<in> child_of d ^^ k \<Longrightarrow> p + k \<le> i"
proof (induction k arbitrary: p)
  case 0
  then show ?case by simp
next
  case (Suc k)
  from Suc.prems(2) obtain m where "(i, m) \<in> child_of d ^^ k" "(m, p) \<in> child_of d" by auto
  with Suc.IH [OF Suc.prems(1)] child_less [OF Suc.prems(1)] show ?case by fastforce
qed

lemma level_kids:
  assumes "cat_ok mx d"
  shows "set (rows_where (\<lambda>r. ct_kind r = Ct_Nested \<and> (\<exists>p \<in> set front. ct_parent r = Some p)) d) =
    {i. \<exists>p \<in> set front. (i, p) \<in> child_of d}"
proof -
  have "i < next_row d \<and> 0 < i \<and> ct_kind r = Ct_Nested" if "rows d i = Some r" "ct_parent r = Some p" for i r p
    using cat_okD(1-3) [OF assms that(1)] that(2) by simp
  then show ?thesis by (fastforce simp: rows_where_def child_of_def split: option.splits)
qed

lemma nested_levels_Nil [simp]: "nested_levels n d [] = []"
  by (cases n) (simp_all add: rows_where_def Let_def option.case_eq_if)

lemma nested_levels_set:
  assumes ok: "cat_ok mx d"
  shows "i \<in> set (nested_levels n d front) \<longleftrightarrow> (\<exists>k < n. \<exists>p \<in> set front. (i, p) \<in> child_of d ^^ Suc k)"
proof (induction n arbitrary: front)
  case 0
  then show ?case by simp
next
  case (Suc n)
  let ?kids = "rows_where (\<lambda>r. ct_kind r = Ct_Nested \<and> (\<exists>p \<in> set front. ct_parent r = Some p)) d"
  have kids: "set ?kids = {i. \<exists>p \<in> set front. (i, p) \<in> child_of d}" by (rule level_kids [OF ok])
  have step: "(\<exists>p \<in> set front. (i, p) \<in> child_of d ^^ Suc (Suc k)) \<longleftrightarrow>
      (\<exists>m \<in> set ?kids. (i, m) \<in> child_of d ^^ Suc k)" for k
    unfolding kids by (subst relpow.simps(2)) blast
  have "set (nested_levels (Suc n) d front) = set ?kids \<union> set (nested_levels n d ?kids)"
    by (cases "?kids = []") (simp_all add: Let_def)
  also have "i \<in> \<dots> \<longleftrightarrow> i \<in> set ?kids \<or> (\<exists>k < n. \<exists>p \<in> set front. (i, p) \<in> child_of d ^^ Suc (Suc k))"
    using Suc.IH [of ?kids] step by auto
  also have "\<dots> \<longleftrightarrow> (\<exists>k < Suc n. \<exists>p \<in> set front. (i, p) \<in> child_of d ^^ Suc k)"
  proof -
    have all: "(\<exists>k < Suc n. P k) \<longleftrightarrow> P 0 \<or> (\<exists>k < n. P (Suc k))" for P :: "nat \<Rightarrow> bool"
      by (rule Ex_less_Suc2)
    have "i \<in> set ?kids \<longleftrightarrow> (\<exists>p \<in> set front. (i, p) \<in> child_of d ^^ Suc 0)" unfolding kids by simp
    with all [of "\<lambda>k. \<exists>p \<in> set front. (i, p) \<in> child_of d ^^ Suc k"] show ?thesis by (simp only:)
  qed
  finally show ?case .
qed

lemma nested_descendants_set:
  assumes ok: "cat_ok mx d"
  shows "set (map fst (nested_descendants d cid)) = desc_of d cid"
proof -
  have "i \<in> desc_of d cid \<longleftrightarrow> (\<exists>k < next_row d. (i, cid) \<in> child_of d ^^ Suc k)" for i
  proof
    assume "i \<in> desc_of d cid"
    then obtain n where n: "0 < n" "(i, cid) \<in> child_of d ^^ n" by (auto simp: desc_of_def trancl_power)
    then obtain k where k: "n = Suc k" by (cases n) auto
    from n k obtain m where "(i, m) \<in> child_of d" using relpow_Suc_D2 by metis
    then have "i < next_row d" using child_less [OF ok] by blast
    moreover have "cid + n \<le> i" using child_power_less [OF ok n(2)] .
    ultimately show "\<exists>k < next_row d. (i, cid) \<in> child_of d ^^ Suc k"
      using n k by (intro exI [of _ k]) simp
  next
    assume "\<exists>k < next_row d. (i, cid) \<in> child_of d ^^ Suc k"
    then obtain k where "(i, cid) \<in> child_of d ^^ Suc k" by blast
    then show "i \<in> desc_of d cid" unfolding desc_of_def trancl_power by blast
  qed
  then show ?thesis using nested_levels_set [OF ok, of _ "next_row d" "[cid]"]
    by (auto simp: nested_descendants_def)
qed

lemma desc_row:
  assumes "cat_ok mx d" and "i \<in> desc_of d cid"
  obtains r p where "rows d i = Some r" "ct_parent r = Some p" "cid < i" "p = cid \<or> p \<in> desc_of d cid"
proof -
  from assms(2) have i: "(i, cid) \<in> (child_of d)\<^sup>+" by (simp add: desc_of_def)
  then obtain n where n: "0 < n" "(i, cid) \<in> child_of d ^^ n" by (auto simp: trancl_power)
  from i obtain m where m: "(i, m) \<in> child_of d" "(m, cid) \<in> (child_of d)\<^sup>*"
    using tranclD by metis
  then have "m = cid \<or> m \<in> desc_of d cid" by (auto simp: desc_of_def dest: rtranclD)
  moreover have "cid < i" using child_power_less [OF assms(1) n(2)] n(1) by simp
  ultimately show ?thesis using m that by (auto simp: child_of_def)
qed

lemma desc_closed: "rows d j = Some r \<Longrightarrow> ct_parent r = Some p \<Longrightarrow> p \<in> desc_of d cid \<Longrightarrow> j \<in> desc_of d cid"
  by (auto simp: desc_of_def child_of_def intro: trancl_into_trancl2)

lemma desc_child: "rows d j = Some r \<Longrightarrow> ct_parent r = Some cid \<Longrightarrow> j \<in> desc_of d cid"
  by (auto simp: desc_of_def child_of_def)


subsection \<open>\<open>purge_outputs\<close> always succeeds and removes exactly the outputs\<close>

definition cut :: "nat set \<Rightarrow> nat option \<Rightarrow> nat option" where
  "cut B x = (case x of None \<Rightarrow> None | Some i \<Rightarrow> if i \<in> B then None else Some i)"

definition erased :: "nat set \<Rightarrow> cat \<Rightarrow> cat" where
  "erased B d = d\<lparr>
     rows := (\<lambda>i. if i \<in> B then None
       else map_option (\<lambda>r. r\<lparr>ct_requeued_from := cut B (ct_requeued_from r),
                              ct_superseded_by := cut B (ct_superseded_by r)\<rparr>) (rows d i)),
     cfiles := filter (\<lambda>(c, _, _). c \<notin> B) (cfiles d),
     occs := filter (\<lambda>x. oc_container x \<notin> B) (occs d)\<rparr>"

lemma forget_cut: "forget ids x = cut (set ids) x"
  by (cases x) (simp_all add: forget_def cut_def)

lemma delete_rows_eq:
  "delete_rows ids d = (if \<exists>i \<in> set (row_ids d). i \<notin> set ids \<and> (\<exists>p \<in> set ids. Option.bind (rows d i) ct_parent = Some p)
     then (Inl Db_Error, d) else (Inr (), erased (set ids) d))"
  unfolding delete_rows_def erased_def forget_cut by (rule refl)

lemma cut_cut: "cut B (cut A x) = cut (A \<union> B) x"
  by (cases x) (auto simp: cut_def)

lemma erased_erased: "erased B (erased A d) = erased (A \<union> B) d"
proof (rule cat.equality)
  show "rows (erased B (erased A d)) = rows (erased (A \<union> B) d)"
  proof
    fix i show "rows (erased B (erased A d)) i = rows (erased (A \<union> B) d) i"
      by (cases "rows d i") (simp_all add: erased_def cut_cut)
  qed
qed (auto simp: erased_def intro!: filter_cong)

lemma erased_simps [simp]:
  "next_row (erased B d) = next_row d" "blobs (erased B d) = blobs d" "sfiles (erased B d) = sfiles d"
  "next_sfile (erased B d) = next_sfile d" "workers (erased B d) = workers d" "runs (erased B d) = runs d"
  "next_run (erased B d) = next_run d" "set (occs (erased B d)) = {x \<in> set (occs d). oc_container x \<notin> B}"
  by (simp_all add: erased_def)

lemma erased_row:
  "rows (erased B d) i = Some r' \<longleftrightarrow> i \<notin> B \<and> (\<exists>r. rows d i = Some r \<and>
     r' = r\<lparr>ct_requeued_from := cut B (ct_requeued_from r), ct_superseded_by := cut B (ct_superseded_by r)\<rparr>)"
  by (auto simp: erased_def)

lemma erased_empty [simp]: "erased {} d = d"
proof -
  have "cut {} x = x" for x by (cases x) (simp_all add: cut_def)
  then show ?thesis by (simp add: erased_def option.map_ident)
qed

text \<open>A set of rows is closed when no row outside has its parent in it.\<close>

definition closed :: "nat set \<Rightarrow> cat \<Rightarrow> bool" where
  "closed B d \<longleftrightarrow> (\<forall>j r p. rows d j = Some r \<longrightarrow> ct_parent r = Some p \<longrightarrow> p \<in> B \<longrightarrow> j \<in> B)"

lemma delete_closed: "closed (set ids) d \<Longrightarrow> delete_rows ids d = (Inr (), erased (set ids) d)"
  by (auto simp: delete_rows_eq closed_def Option.bind_eq_Some_conv)

lemma cat_ok_erased:
  assumes ok: "cat_ok mx d" and cl: "closed B d"
  shows "cat_ok mx (erased B d)" "grows d (erased B d)"
proof -
  let ?d = "erased B d"
  have "row_ok mx ?d i r'" if "rows ?d i = Some r'" for i r'
  proof -
    from that obtain r where i: "i \<notin> B" and r: "rows d i = Some r"
      and eq: "r' = r\<lparr>ct_requeued_from := cut B (ct_requeued_from r), ct_superseded_by := cut B (ct_superseded_by r)\<rparr>"
      unfolding erased_row by blast
    note D = cat_okD [OF ok r]
    have "p < i \<and> (\<exists>q. rows ?d p = Some q \<and> (ct_parent q \<noteq> None \<longrightarrow> ct_depth q < ct_depth r))" if p: "ct_parent r = Some p" for p
    proof -
      from cl r p i have "p \<notin> B" unfolding closed_def by blast
      with D(4) [OF p] show ?thesis by (auto simp: erased_def)
    qed
    moreover have "unwritten i ?d" if "unwritten i d"
      using that by (auto simp: unwritten_def erased_row)
    ultimately show ?thesis unfolding row_ok_def using D by (simp add: eq)
  qed
  moreover have "rows ?d (oc_container x) \<noteq> None" if "x \<in> set (occs ?d)" for x
    using ok that by (auto simp: cat_ok_def erased_def)
  ultimately show "cat_ok mx ?d" using ok unfolding cat_ok_def by (metis erased_simps(1))
  show "grows d ?d" by (auto simp: grows_def erased_row skeleton_def)
qed

lemma purge_deletes:
  assumes ok: "cat_ok mx d" and "sorted_wrt (>) (ks :: int list)"
    and "set (map fst desc) = desc_of d cid" and "\<And>i k. (i, k) \<in> set desc \<Longrightarrow> rows d i \<noteq> None \<and> k = ct_depth (the (rows d i))"
    and "B = {i \<in> desc_of d cid. ct_depth (the (rows d i)) \<notin> set ks}"
    and "\<And>i. i \<in> B \<Longrightarrow> \<forall>k \<in> set ks. k < ct_depth (the (rows d i))"
  shows "act_for ks (\<lambda>depth. delete_rows (map fst (filter (\<lambda>(_, k). k = depth) desc))) (erased B d) =
    (Inr (), erased (desc_of d cid) d)"
  using assms(2-)
proof (induction ks arbitrary: B)
  case Nil
  then show ?case by (simp add: act_run)
next
  case (Cons k ks)
  let ?ids = "map fst (filter (\<lambda>(_, x). x = k) desc)"
  let ?K = "{i \<in> desc_of d cid. ct_depth (the (rows d i)) = k}"
  have ids: "set ?ids = ?K" using Cons.prems(2,3) by (fastforce simp: image_iff)
  have "closed (set ?ids) (erased B d)"
    unfolding closed_def ids
  proof (intro allI impI)
    fix j r' p assume r': "rows (erased B d) j = Some r'" and "ct_parent r' = Some p" and p: "p \<in> ?K"
    then obtain r where j: "j \<notin> B" and r: "rows d j = Some r" "ct_parent r = Some p"
      by (auto simp: erased_row)
    from cat_okD(4) [OF ok r] obtain q where q: "rows d p = Some q" "ct_parent q \<noteq> None \<longrightarrow> ct_depth q < ct_depth r" by blast
    from p obtain s where "rows d p = Some s" "ct_parent s \<noteq> None" using desc_row [OF ok] by (metis (no_types, lifting) mem_Collect_eq option.distinct(1))
    with q p have deep: "k < ct_depth r" by auto
    have "j \<in> desc_of d cid" using desc_closed [OF r] p by blast
    with j r deep have "ct_depth r \<in> set (k # ks)" by (auto simp: Cons.prems(4))
    with deep Cons.prems(1) show "j \<in> ?K" by auto
  qed
  from delete_closed [OF this] have 1: "delete_rows ?ids (erased B d) = (Inr (), erased (B \<union> ?K) d)"
    by (simp only: ids erased_erased)
  have "act_for ks (\<lambda>depth. delete_rows (map fst (filter (\<lambda>(_, k). k = depth) desc))) (erased (B \<union> ?K) d) =
      (Inr (), erased (desc_of d cid) d)"
  proof (rule Cons.IH)
    show "B \<union> ?K = {i \<in> desc_of d cid. ct_depth (the (rows d i)) \<notin> set ks}"
      using Cons.prems(1) by (auto simp: Cons.prems(4))
    show "\<forall>k \<in> set ks. k < ct_depth (the (rows d i))" if "i \<in> B \<union> ?K" for i
      using that Cons.prems(1,5) by auto
  qed (use Cons.prems in auto)
  with 1 show ?case by (simp add: act_seq_def act_bind_run)
qed

definition purged :: "nat \<Rightarrow> cat \<Rightarrow> cat" where
  "purged cid d = erased (desc_of d cid) (d\<lparr>occs := filter (\<lambda>x. oc_container x \<noteq> cid) (occs d)\<rparr>)"

lemma purge_run:
  assumes ok: "cat_ok mx d"
  shows "purge_outputs cid d = (Inr (), purged cid d)"
proof -
  let ?desc = "nested_descendants d cid" and ?D = "desc_of d cid"
  let ?ids = "cid # map fst ?desc"
  let ?ks = "rev (sorted_list_of_set (set (map snd ?desc)))"
  let ?o = "d\<lparr>occs := filter (\<lambda>x. oc_container x \<notin> set ?ids) (occs d)\<rparr>"
  have ids: "set (map fst ?desc) = ?D" by (rule nested_descendants_set [OF ok])
  have ok': "cat_ok mx ?o" using ok by (auto simp: cat_ok_def row_ok_def unwritten_def)
  have desc': "desc_of ?o cid = ?D" by (simp add: desc_of_def child_of_def)
  have mem: "rows ?o i \<noteq> None \<and> k = ct_depth (the (rows ?o i))" if "(i, k) \<in> set ?desc" for i k
  proof -
    from that have "i \<in> ?D" unfolding ids [symmetric] by force
    then obtain r where "rows d i = Some r" by (rule desc_row [OF ok])
    moreover from that have "k = ct_depth (the (rows d i))" by (auto simp: nested_descendants_def)
    ultimately show ?thesis by simp
  qed
  have "act_for ?ks (\<lambda>depth. delete_rows (map fst (filter (\<lambda>(_, k). k = depth) ?desc))) (erased {} ?o) =
      (Inr (), erased (desc_of ?o cid) ?o)"
  proof (rule purge_deletes [OF ok'])
    show "sorted_wrt (>) ?ks" by (simp add: sorted_wrt_rev)
    show "set (map fst ?desc) = desc_of ?o cid" using ids desc' by simp
    have "ct_depth (the (rows d i)) \<in> set (map snd ?desc)" if "i \<in> ?D" for i
      using that unfolding ids [symmetric] by (auto simp: nested_descendants_def)
    then show "{} = {i \<in> desc_of ?o cid. ct_depth (the (rows ?o i)) \<notin> set ?ks}"
      unfolding desc' by auto
  qed (use mem in auto)
  moreover have "erased ?D ?o = purged cid d"
  proof (rule cat.equality)
    show "rows (erased ?D ?o) = rows (purged cid d)" by (rule ext) (simp add: purged_def erased_def)
  qed (use ids in \<open>auto simp: purged_def erased_def intro!: filter_cong\<close>)
  ultimately show ?thesis unfolding purge_outputs_def Let_def desc'
    by (simp add: act_bind_def act_seq_def act_run)
qed

lemma closed_desc: "closed (desc_of d cid) d"
  by (auto simp: closed_def intro: desc_closed)

lemma purged_ok:
  assumes ok: "cat_ok mx d"
  shows "cat_ok mx (purged cid d)" "grows d (purged cid d)" "unwritten cid (purged cid d)"
proof -
  let ?o = "d\<lparr>occs := filter (\<lambda>x. oc_container x \<noteq> cid) (occs d)\<rparr>"
  have ok': "cat_ok mx ?o" using ok by (auto simp: cat_ok_def row_ok_def unwritten_def)
  have cl: "closed (desc_of d cid) ?o" using closed_desc by (simp add: closed_def)
  show "cat_ok mx (purged cid d)" unfolding purged_def by (rule cat_ok_erased(1) [OF ok' cl])
  have "grows d ?o" by (rule grows_cong) simp_all
  with cat_ok_erased(2) [OF ok' cl] show "grows d (purged cid d)" unfolding purged_def by (rule grows_trans [rotated])
  show "unwritten cid (purged cid d)"
    using desc_child by (fastforce simp: purged_def unwritten_def erased_row)
qed


subsection \<open>Transactions that keep the invariant\<close>

named_theorems safe_rules "transactions that keep the catalog invariant"

definition safe :: "int \<Rightarrow> (cat \<Rightarrow> bool) \<Rightarrow> 'a db_act \<Rightarrow> bool" where
  "safe mx P m \<longleftrightarrow> (\<forall>d. cat_ok mx d \<longrightarrow> P d \<longrightarrow> cat_ok mx (snd (m d)) \<and> grows d (snd (m d)))"

lemma safeI: "(\<And>d. cat_ok mx d \<Longrightarrow> P d \<Longrightarrow> cat_ok mx (snd (m d)) \<and> grows d (snd (m d))) \<Longrightarrow> safe mx P m"
  by (simp add: safe_def)

lemma safeD: "safe mx P m \<Longrightarrow> cat_ok mx d \<Longrightarrow> P d \<Longrightarrow> m d = (r, d') \<Longrightarrow> cat_ok mx d' \<and> grows d d'"
  unfolding safe_def by (metis snd_conv)

lemma safe_weaken: "safe mx Q m \<Longrightarrow> (\<And>d. cat_ok mx d \<Longrightarrow> P d \<Longrightarrow> Q d) \<Longrightarrow> safe mx P m"
  by (simp add: safe_def)

lemma safe_basic [safe_rules]:
  "safe mx P (act_ret v)" "safe mx P (act_raise e)" "safe mx P (act_get f)"
  by (simp_all add: safe_def act_run)

lemma safe_bind_strong:
  assumes "safe mx P m" and "\<And>v. safe mx (R v) (f v)"
    and "\<And>d v d'. cat_ok mx d \<Longrightarrow> P d \<Longrightarrow> m d = (Inr v, d') \<Longrightarrow> cat_ok mx d' \<Longrightarrow> grows d d' \<Longrightarrow> R v d'"
  shows "safe mx P (act_bind m f)"
proof (rule safeI)
  fix d assume d: "cat_ok mx d" "P d"
  show "cat_ok mx (snd (act_bind m f d)) \<and> grows d (snd (act_bind m f d))"
  proof (cases "m d")
    case (Pair r d')
    have 1: "cat_ok mx d' \<and> grows d d'" by (rule safeD [OF assms(1) d Pair])
    show ?thesis
    proof (cases r)
      case (Inl e)
      with Pair 1 show ?thesis by (simp add: act_bind_def)
    next
      case (Inr v)
      with assms(3) [OF d] Pair 1 have "R v d'" by blast
      from safeD [OF assms(2) _ this, of "fst (f v d')" "snd (f v d')"] 1
      have "cat_ok mx (snd (f v d'))" "grows d (snd (f v d'))" using grows_trans by auto
      with Pair Inr show ?thesis by (simp add: act_bind_def)
    qed
  qed
qed

text \<open>What \<open>grows\<close> preserves stays true along a transaction.\<close>

definition stable :: "(cat \<Rightarrow> bool) \<Rightarrow> bool" where
  "stable P \<longleftrightarrow> (\<forall>d d'. P d \<longrightarrow> grows d d' \<longrightarrow> P d')"

definition top_row :: "nat \<Rightarrow> cat \<Rightarrow> bool" where
  "top_row i d \<longleftrightarrow> i < next_row d \<and> (\<forall>r. rows d i = Some r \<longrightarrow> ct_parent r = None)"

definition top_rows :: "nat set \<Rightarrow> cat \<Rightarrow> bool" where
  "top_rows A d \<longleftrightarrow> (\<forall>i \<in> A. top_row i d)"

lemma stable_top_row [safe_rules]: "stable (top_row i)"
  unfolding stable_def
proof (intro allI impI)
  fix d d' assume t: "top_row i d" and g: "grows d d'"
  have "ct_parent r' = None" if "rows d' i = Some r'" for r'
  proof -
    from g t that obtain r where "rows d i = Some r" "skeleton r' = skeleton r"
      unfolding grows_def top_row_def by blast
    with t show ?thesis by (simp add: top_row_def skeleton_def)
  qed
  with t g show "top_row i d'" by (simp add: top_row_def grows_def)
qed

lemma stable_top_rows [safe_rules]: "stable (top_rows A)"
  using stable_top_row unfolding stable_def top_rows_def by blast

lemma stable_True [safe_rules]: "stable (\<lambda>_. True)"
  by (simp add: stable_def)

lemma stable_conj: "stable P \<Longrightarrow> stable Q \<Longrightarrow> stable (\<lambda>d. P d \<and> Q d)"
  unfolding stable_def by blast

lemma safe_bind: "stable P \<Longrightarrow> safe mx P m \<Longrightarrow> (\<And>v. safe mx P (f v)) \<Longrightarrow> safe mx P (act_bind m f)"
  by (rule safe_bind_strong [where R = "\<lambda>_. P"]) (auto simp: stable_def)

lemma safe_seq: "stable P \<Longrightarrow> safe mx P m \<Longrightarrow> safe mx P n \<Longrightarrow> safe mx P (act_seq m n)"
  unfolding act_seq_def by (rule safe_bind)

lemma safe_seq_strong:
  "safe mx P m \<Longrightarrow> safe mx R n \<Longrightarrow>
   (\<And>d v d'. cat_ok mx d \<Longrightarrow> P d \<Longrightarrow> m d = (Inr v, d') \<Longrightarrow> cat_ok mx d' \<Longrightarrow> grows d d' \<Longrightarrow> R d') \<Longrightarrow> safe mx P (act_seq m n)"
  unfolding act_seq_def by (rule safe_bind_strong)

lemma safe_get_bind: "(\<And>v. safe mx (\<lambda>d. P d \<and> g d = v) (f v)) \<Longrightarrow> safe mx P (act_bind (act_get g) f)"
  by (rule safe_bind_strong [where R = "\<lambda>v d. P d \<and> g d = v"]) (auto simp: act_run safe_rules)

lemma safe_for: "stable P \<Longrightarrow> (\<And>x. x \<in> set xs \<Longrightarrow> safe mx P (f x)) \<Longrightarrow> safe mx P (act_for xs f)"
  by (induction xs) (auto intro: safe_seq safe_rules)

lemma safe_txn: "safe mx P m \<Longrightarrow> safe mx P (txn m)"
  unfolding safe_def
proof (intro allI impI)
  fix d assume m: "\<forall>d. cat_ok mx d \<longrightarrow> P d \<longrightarrow> cat_ok mx (snd (m d)) \<and> grows d (snd (m d))" and d: "cat_ok mx d" "P d"
  then have "cat_ok mx (snd (m d)) \<and> grows d (snd (m d))" by blast
  with d show "cat_ok mx (snd (txn m d)) \<and> grows d (snd (txn m d))"
    by (cases "m d"; cases "fst (m d)") (simp_all add: txn_def)
qed

lemma safe_other:
  assumes "\<And>d. rows (g d) = rows d" "\<And>d. next_row (g d) = next_row d" "\<And>d. occs (g d) = occs d"
  shows "safe mx P (act_mod g)"
  unfolding safe_def act_run using cat_ok_cong [OF assms] grows_cong [OF assms(1,2)] by simp

lemma safe_update:
  assumes "\<And>d i r. cat_ok mx d \<Longrightarrow> P d \<Longrightarrow> rows d i = Some r \<Longrightarrow> A i r \<Longrightarrow> skeleton (f r) = skeleton r \<and>
      (ct_status (f r) = St_Pending \<longrightarrow> ct_parent r = None \<and> unwritten i d \<and> ct_attempts (f r) \<le> mx) \<and>
      (ct_status (f r) = St_Claimed \<longrightarrow> ct_parent r = None \<longrightarrow> ct_attempts (f r) \<le> mx + 1)"
  shows "safe mx P (act_mod (update_rows A f))"
  unfolding safe_def act_run snd_conv
proof (intro allI impI conjI)
  fix d assume d: "cat_ok mx d" "P d"
  show "cat_ok mx (update_rows A f d)" by (rule cat_ok_update [OF d(1)]) (use assms [OF d] in blast)+
  show "grows d (update_rows A f d)" by (rule grows_update) (use assms [OF d] in blast)
qed

lemma safe_purge [safe_rules]: "safe mx P (purge_outputs cid)"
  by (simp add: safe_def purge_run purged_ok)

lemma purge_unwritten: "cat_ok mx d \<Longrightarrow> purge_outputs cid d = (Inr v, d') \<Longrightarrow> unwritten cid d'"
  by (metis Pair_inject purge_run purged_ok(3))

text \<open>Purge a top-level row, then update it.\<close>

lemma safe_purge_update:
  assumes f: "\<And>r. skeleton (f r) = skeleton r" and a: "\<And>d r. cat_ok mx d \<Longrightarrow> P d \<Longrightarrow> rows d cid = Some r \<Longrightarrow>
      ct_attempts (f r) \<le> mx" and P: "stable P" and top: "\<And>d. P d \<Longrightarrow> top_row cid d"
  shows "safe mx P (act_seq (purge_outputs cid) (act_mod (update_rows (\<lambda>i _. i = cid) f)))"
proof (rule safe_seq_strong [where R = "\<lambda>d. P d \<and> unwritten cid d"])
  show "safe mx (\<lambda>d. P d \<and> unwritten cid d) (act_mod (update_rows (\<lambda>i _. i = cid) f))"
  proof (rule safe_update)
    fix d i r assume d: "cat_ok mx d" "P d \<and> unwritten cid d" "rows d i = Some r" "i = cid"
    with a have "ct_attempts (f r) \<le> mx" by blast
    moreover have "ct_parent r = None" using top d by (auto simp: top_row_def)
    ultimately show "skeleton (f r) = skeleton r \<and>
        (ct_status (f r) = St_Pending \<longrightarrow> ct_parent r = None \<and> unwritten i d \<and> ct_attempts (f r) \<le> mx) \<and>
        (ct_status (f r) = St_Claimed \<longrightarrow> ct_parent r = None \<longrightarrow> ct_attempts (f r) \<le> mx + 1)"
      using f d by simp
  qed
  show "P d' \<and> unwritten cid d'" if "cat_ok mx d" "P d" "purge_outputs cid d = (Inr v, d')" "grows d d'" for d v d'
    using that P purge_unwritten unfolding stable_def by blast
qed (rule safe_purge)

lemma safe_reset [safe_rules]:
  "st = St_Pending \<or> st = St_Failed \<Longrightarrow> stable P \<Longrightarrow> (\<And>d. P d \<Longrightarrow> top_row cid d) \<Longrightarrow> safe mx P (reset_container cid st why sid fmt nts)"
  unfolding reset_container_def
  by (rule safe_purge_update) (auto simp: skeleton_def reset_row_def cat_ok_def)

lemma safe_supersede [safe_rules]: "safe mx P (supersede_container now cid by_id)"
  unfolding supersede_container_def
  by (rule safe_seq_strong [OF safe_purge, where R = "\<lambda>_. True"], rule safe_update)
    (auto simp: skeleton_def supersede_row_def)

lemma insert_cfiles_run: "\<exists>fs. snd (insert_cfiles new d) = d\<lparr>cfiles := fs\<rparr>"
  by (auto simp: insert_cfiles_def intro: exI [of _ "cfiles d"])

lemma safe_insert_cfiles [safe_rules]: "safe mx P (insert_cfiles new)"
  unfolding safe_def
proof (intro allI impI)
  fix d assume "cat_ok mx d"
  obtain fs where "snd (insert_cfiles new d) = d\<lparr>cfiles := fs\<rparr>" using insert_cfiles_run by blast
  with \<open>cat_ok mx d\<close> show "cat_ok mx (snd (insert_cfiles new d)) \<and> grows d (snd (insert_cfiles new d))"
    using cat_ok_cong [of "d\<lparr>cfiles := fs\<rparr>" d] grows_cong [of "d\<lparr>cfiles := fs\<rparr>" d] by simp
qed

lemma safe_replace_files [safe_rules]: "safe mx P (replace_container_files cid ids)"
  unfolding replace_container_files_def
  by (rule safe_weaken [where Q = "\<lambda>_. True"], rule safe_seq)
    (auto intro: safe_rules safe_other)

lemma safe_insert_row:
  assumes "(ct_kind r = Ct_Nested) = (ct_parent r \<noteq> None)"
    and "ct_status r = St_Pending \<Longrightarrow> ct_parent r = None \<and> ct_attempts r \<le> mx"
    and "ct_status r = St_Claimed \<Longrightarrow> ct_parent r = None \<Longrightarrow> ct_attempts r \<le> mx + 1"
    and "\<And>d p q. cat_ok mx d \<Longrightarrow> P d \<Longrightarrow> ct_parent r = Some p \<Longrightarrow> rows d p = Some q \<Longrightarrow>
      ct_status q \<noteq> St_Pending \<and> (ct_parent q \<noteq> None \<longrightarrow> ct_depth q < ct_depth r)"
  shows "safe mx P (insert_row r)"
proof (rule safeI)
  fix d assume d: "cat_ok mx d" "P d"
  show "cat_ok mx (snd (insert_row r d)) \<and> grows d (snd (insert_row r d))"
  proof (cases "insert_row r d")
    case (Pair x d')
    show ?thesis
    proof (cases x)
      case (Inl e)
      with Pair have "d' = d" by (auto simp: insert_row_def split: if_splits)
      with d Pair show ?thesis by simp
    next
      case (Inr i)
      have "cat_ok mx d'" by (rule insert_row_ok(1) [OF d(1) Pair [unfolded Inr] assms(1) assms(4) [OF d] assms(2,3)])
      moreover have "grows d d'" by (rule insert_row_ok(2) [OF d(1) Pair [unfolded Inr] assms(1) assms(4) [OF d] assms(2,3)])
      ultimately show ?thesis using Pair by simp
    qed
  qed
qed

lemma safe_insert_container [safe_rules]:
  assumes "kind \<noteq> Ct_Nested" and "st \<noteq> St_Claimed" and "0 \<le> mx"
  shows "safe mx P (insert_container sid kind fmt depth st why ids nts)"
proof (rule safe_weaken [where Q = "\<lambda>_. True"])
  show "safe mx (\<lambda>_. True) (insert_container sid kind fmt depth st why ids nts)"
    unfolding insert_container_def
  proof (rule safe_bind [OF stable_True])
    show "safe mx (\<lambda>_. True) (insert_row ((fresh_row kind)\<lparr>ct_source := sid, ct_format := fmt, ct_depth := depth,
        ct_status := st, ct_reason := why, ct_notes := nts\<rparr>))"
      by (rule safe_insert_row) (use assms in \<open>simp_all add: fresh_row_def\<close>)
    show "safe mx (\<lambda>_. True) (act_seq (replace_container_files cid ids) (act_ret cid))" for cid
      by (rule safe_seq [OF stable_True safe_replace_files safe_basic(1)])
  qed
qed simp

end
