(* ===== verification/WalkSafe.thy ===== *)
theory WalkSafe
  imports WalkSync CatalogOk
begin

text \<open>
  The walk and the requeue command keep the catalog invariant of theory CatalogOk: every container they
  reset is a top-level one, and its outputs are purged before its status becomes pending.
\<close>

lemma load_membership_top: "cat_ok mx d \<Longrightarrow> load_membership ids d = ms \<Longrightarrow> top_rows (snd ` set ms) d"
  using cat_okD(2,3) by (fastforce simp: load_membership_def top_rows_def top_row_def split: option.splits)

lemma holders_sub: "set (holders ms ids) \<subseteq> snd ` set ms"
  by (auto simp: holders_def)

lemma safe_lift [safe_rules]: "safe mx P (lift_py m)"
  by (auto simp: lift_py_def safe_rules split: option.splits sum.splits)

lemma safe_ids_of [safe_rules]: "safe mx P (ids_of path_to_id fs)"
proof (rule safe_weaken [where Q = "\<lambda>_. True"])
  show "safe mx (\<lambda>_. True) (ids_of path_to_id fs)"
    by (induction fs) (auto intro!: safe_bind safe_rules)
qed simp

lemma archive_status_cases: "fst (archive_status g) = St_Pending \<or> fst (archive_status g) = St_Failed"
  by (simp add: archive_status_def)

lemma safe_reset_for_group:
  "stable P \<Longrightarrow> (\<And>d. P d \<Longrightarrow> top_row cid d) \<Longrightarrow> safe mx P (reset_for_group g ids cid merged)"
  unfolding reset_for_group_def by (rule safe_reset [OF archive_status_cases])

lemma safe_detach_extra:
  assumes P: "stable P" "\<And>d. P d \<Longrightarrow> top_row extra d"
  shows "safe mx P (detach_extra now keep ids extra)"
proof -
  have "safe mx P (case rest of s # _ \<Rightarrow> reset_container extra St_Pending None (Some s) None None
      | [] \<Rightarrow> supersede_container now extra keep)" for rest
    by (cases rest) (auto intro: safe_rules P)
  then show ?thesis unfolding detach_extra_def
    by (intro safe_seq safe_bind P safe_basic safe_other) simp_all
qed

lemma found_in: "find Q xs = Some x \<Longrightarrow> x \<in> set xs"
  by (auto simp: find_Some_iff)

lemma safe_merge_group:
  assumes ex: "existing \<noteq> []"
  shows "safe mx (top_rows (set existing)) (merge_group now g ids existing)"
  unfolding merge_group_def
proof (rule safe_get_bind)
  fix keep
  let ?keep = "\<lambda>d. case find (\<lambda>c. Option.bind (rows d c) ct_source = Some (hd ids)) existing of
         Some c \<Rightarrow> c | None \<Rightarrow> hd existing"
  let ?extras = "filter (\<lambda>c. c \<noteq> keep) existing"
  have keep: "?keep d \<in> set existing" for d
    using ex by (cases "find (\<lambda>c. Option.bind (rows d c) ct_source = Some (hd ids)) existing") (auto dest: found_in)
  have "safe mx (\<lambda>d. top_rows (set existing) d \<and> keep \<in> set existing)
     (act_seq (replace_container_files keep ids)
       (act_seq (reset_for_group g ids keep ?extras) (act_for ?extras (detach_extra now keep ids))))"
    by (intro safe_seq safe_for safe_replace_files safe_reset_for_group safe_detach_extra stable_conj stable_top_rows)
      (auto simp: top_rows_def stable_def)
  then show "safe mx (\<lambda>d. top_rows (set existing) d \<and> ?keep d = keep)
     (let extras = ?extras in act_seq (replace_container_files keep ids)
       (act_seq (reset_for_group g ids keep extras) (act_for extras (detach_extra now keep ids))))"
    unfolding Let_def by (rule safe_weaken) (use keep in auto)
qed

lemma safe_sync_one: "safe mx (top_row cid) (sync_one g ids cid any_changed)"
proof -
  have act: "safe mx (top_row cid) (if b then act_ret 0
     else act_seq (if c then act_ret () else replace_container_files cid ids)
       (act_seq (reset_for_group g ids cid []) (act_ret 1)))" for b c
    by (auto intro!: safe_seq safe_rules safe_reset_for_group)
  show ?thesis unfolding sync_one_def Let_def by (intro safe_bind stable_top_row safe_basic(3) act)
qed

lemma safe_sync_group:
  assumes "0 \<le> mx"
  shows "safe mx (top_rows (snd ` set ms)) (sync_group now path_to_id ms changed new g)"
  unfolding sync_group_def
proof (intro safe_bind safe_rules)
  fix ids
  let ?any = "\<exists>f \<in> set (ag_files g). wf_path f \<in> set changed \<or> wf_path f \<in> set new"
  have act: "safe mx (top_rows (snd ` set ms)) (case existing of
          [cid] \<Rightarrow> sync_one g ids cid b
        | [] \<Rightarrow> act_bind (insert_container (Some (hd ids)) Ct_Archive (ag_format g) 1 (fst (archive_status g))
                  (snd (archive_status g)) ids (group_notes g [])) (\<lambda>_. act_ret 1)
        | _ \<Rightarrow> act_seq (merge_group now g ids existing) (act_ret 1))"
    if ex: "set existing \<subseteq> snd ` set ms" for existing b
  proof (cases existing rule: remdups_adj.cases)
    case 1
    then show ?thesis using assms archive_status_cases [of g]
      by (auto intro!: safe_bind safe_rules)
  next
    case (2 c)
    have "c \<in> snd ` set ms" using 2 ex by simp
    then show ?thesis unfolding 2 list.case
      by (intro safe_weaken [OF safe_sync_one]) (unfold top_rows_def, blast)
  next
    case (3 c c' cs)
    have "safe mx (top_rows (snd ` set ms)) (merge_group now g ids existing)"
      by (rule safe_weaken [OF safe_merge_group]) (use 3 ex in \<open>auto simp: top_rows_def\<close>)
    then show ?thesis unfolding 3 by (auto intro!: safe_seq safe_rules)
  qed
  then show "safe mx (top_rows (snd ` set ms)) (let existing = holders ms ids; any_changed = ?any
     in case existing of
          [cid] \<Rightarrow> sync_one g ids cid any_changed
        | [] \<Rightarrow> act_bind (insert_container (Some (hd ids)) Ct_Archive (ag_format g) 1 (fst (archive_status g))
                  (snd (archive_status g)) ids (group_notes g [])) (\<lambda>_. act_ret 1)
        | _ \<Rightarrow> act_seq (merge_group now g ids existing) (act_ret 1))"
    using act [OF holders_sub] by (simp only: Let_def)
qed

lemma safe_sum_acts: "stable P \<Longrightarrow> (\<And>m. m \<in> set ms \<Longrightarrow> safe mx P m) \<Longrightarrow> safe mx P (sum_acts ms)"
  by (induction ms) (auto intro!: safe_bind safe_rules)

lemma safe_sync_archive_groups:
  assumes "0 \<le> mx"
  shows "safe mx (\<lambda>_. True) (sync_archive_groups now path_to_id changed new groups)"
  unfolding sync_archive_groups_def
proof (rule safe_bind [OF stable_True safe_ids_of], rule safe_get_bind)
  fix ids ms
  have "safe mx (top_rows (snd ` set ms)) (sum_acts (map (sync_group now path_to_id ms changed new) groups))"
    by (rule safe_sum_acts [OF stable_top_rows]) (auto intro: safe_sync_group [OF assms])
  then show "safe mx (\<lambda>d. True \<and> load_membership ids d = ms) (sum_acts (map (sync_group now path_to_id ms changed new) groups))"
    by (rule safe_weaken) (blast intro: load_membership_top)
qed

lemma loose_owner_fold:
  "map_of (fold (\<lambda>(c, s, _). AList.update s c) xs acc) k = Some c \<Longrightarrow> map_of acc k = Some c \<or> (\<exists>s n. (c, s, n) \<in> set xs)"
proof (induction xs arbitrary: acc)
  case (Cons x xs)
  obtain a s n where x: "x = (a, s, n)" by (cases x) auto
  from Cons.IH [OF Cons.prems [unfolded fold_simps]] x show ?case by (auto split: if_splits)
qed simp

lemma loose_owner_top: "cat_ok mx d \<Longrightarrow> map_of (loose_owner ids d) k = Some c \<Longrightarrow> top_row c d"
  using cat_okD(2,3) [of mx d c]
  by (fastforce simp: loose_owner_def top_row_def dest!: loose_owner_fold split: option.splits)

lemma safe_reset_batch: "safe mx (top_row cid) (reset_batch cid)"
  unfolding reset_batch_def by (intro safe_bind safe_seq safe_rules) simp_all

lemma safe_seed_batch: "0 \<le> mx \<Longrightarrow> stable P \<Longrightarrow> safe mx P (seed_batch path_to_id b)"
  unfolding seed_batch_def by (intro safe_bind safe_rules) simp_all

lemma safe_sync_loose_batches:
  assumes "0 \<le> mx"
  shows "safe mx (\<lambda>_. True) (sync_loose_batches path_to_id changed fs)"
  unfolding sync_loose_batches_def Let_def
proof (rule safe_bind [OF stable_True safe_ids_of], rule safe_get_bind)
  fix ids and owner :: "(nat, nat) dict"
  let ?of = "\<lambda>f. Option.bind (map_of path_to_id (wf_path f)) (map_of owner)"
  let ?stale = "map (\<lambda>f. the (?of f)) (filter (\<lambda>f. wf_path f \<in> set changed \<and> ?of f \<noteq> None)
    (filter (\<lambda>f. wf_kind f = Sf_Loose) fs))"
  have sub: "set ?stale \<subseteq> ran (map_of owner)" by (auto simp: ran_def Option.bind_eq_Some_conv)
  have "safe mx (top_rows (set ?stale)) (sum_acts (map reset_batch (sorted_list_of_set (set ?stale)) @
      map (seed_batch path_to_id) bs))" for bs
  proof (rule safe_sum_acts [OF stable_top_rows])
    fix m assume "m \<in> set (map reset_batch (sorted_list_of_set (set ?stale)) @ map (seed_batch path_to_id) bs)"
    then consider c where "m = reset_batch c" "c \<in> set ?stale" | b where "m = seed_batch path_to_id b"
      by fastforce
    then show "safe mx (top_rows (set ?stale)) m"
    proof cases
      case 1
      show ?thesis unfolding 1(1) by (rule safe_weaken [OF safe_reset_batch]) (use 1(2) in \<open>unfold top_rows_def, blast\<close>)
    next
      case 2
      show ?thesis unfolding 2 by (rule safe_seed_batch [OF assms stable_top_rows])
    qed
  qed
  then show "safe mx (\<lambda>d. True \<and> loose_owner ids d = owner) (sum_acts (map reset_batch (sorted_list_of_set (set ?stale)) @
      map (seed_batch path_to_id) (iter_loose_batches (filter (\<lambda>f. ?of f = None) (filter (\<lambda>f. wf_kind f = Sf_Loose) fs)))))"
    by (rule safe_weaken) (use loose_owner_top sub in \<open>fastforce simp: top_rows_def ran_def\<close>)
qed

lemma persist_files_other:
  "rows (persist_files sid fs d) = rows d" "next_row (persist_files sid fs d) = next_row d"
  "occs (persist_files sid fs d) = occs d"
proof -
  have "rows (fold (\<lambda>f. add_srow (new_srow sid f)) xs e) = rows e \<and> next_row (fold (\<lambda>f. add_srow (new_srow sid f)) xs e) = next_row e \<and>
      occs (fold (\<lambda>f. add_srow (new_srow sid f)) xs e) = occs e" for xs e
    by (induction xs arbitrary: e) (simp_all add: add_srow_def)
  then show "rows (persist_files sid fs d) = rows d" "next_row (persist_files sid fs d) = next_row d"
    "occs (persist_files sid fs d) = occs d"
    by (simp_all add: persist_files_def Let_def drop_misfits_def)
qed

lemma safe_at: "safe mx (\<lambda>_. True) m \<Longrightarrow> cat_ok mx d \<Longrightarrow> cat_ok mx (snd (m d)) \<and> grows d (snd (m d))"
  by (simp add: safe_def)

lemma safe_persist_walk [safe_rules]:
  assumes mx: "0 \<le> mx"
  shows "safe mx (\<lambda>_. True) (persist_walk now fs groups counts)"
  unfolding persist_walk_def
proof (rule safe_txn, rule safeI)
  fix d assume ok: "cat_ok mx d"
  obtain sid e where e: "new_run d = (sid, e)" by (cases "new_run d") auto
  then have r: "rows e = rows d" "next_row e = next_row d" "occs e = occs d" by (auto simp: new_run_def)
  define p where "p = persist_files sid fs e"
  have p: "rows p = rows d" "next_row p = next_row d" "occs p = occs d"
    unfolding p_def persist_files_other r by simp_all
  have oke: "cat_ok mx e" "grows d e" using ok cat_ok_cong [OF r] grows_cong [OF r(1,2)] by simp_all
  have okp: "cat_ok mx p" "grows d p" using ok cat_ok_cong [OF p] grows_cong [OF p(1,2)] by simp_all
  have body: "safe mx (\<lambda>_. True) (act_bind (sync_archive_groups now ids changed new groups) (\<lambda>a.
      act_bind (sync_loose_batches ids changed fs) (\<lambda>b.
      act_seq (act_mod (\<lambda>d. d\<lparr>runs := (runs d)(sid := map_option (g a b) (runs d sid))\<rparr>)) (act_ret sid))))"
    for ids changed new g
    by (intro safe_bind safe_seq safe_rules safe_sync_archive_groups safe_sync_loose_batches mx safe_other) simp_all
  show "cat_ok mx (snd (persist_body now fs groups counts d)) \<and> grows d (snd (persist_body now fs groups counts d))"
  proof (cases "distinct (map wf_path fs)")
    case True
    then show ?thesis unfolding persist_body_def e Let_def prod.case p_def [symmetric]
      using safe_at [OF body okp(1)] okp(2) grows_trans by auto
  next
    case False
    then show ?thesis unfolding persist_body_def e Let_def prod.case using oke by simp
  qed
qed

subsection \<open>Requeue\<close>

lemma requeue_roots_top: "cat_ok mx d \<Longrightarrow> i \<in> set (requeue_roots reasons d) \<Longrightarrow> top_row i d"
  using cat_okD(2) by (fastforce simp: requeue_roots_def Let_def rows_where_def top_row_def split: option.splits)

lemma safe_requeue_rows:
  "safe mx (top_rows (fst ` set rs)) (requeue_rows reasons mb only lim dry rs res)"
proof (induction rs arbitrary: res)
  case Nil
  then show ?case by (simp add: safe_rules)
next
  case (Cons x rs)
  obtain cid b where x: "x = (cid, b)" by (cases x)
  have rest: "safe mx (top_rows (insert cid (fst ` set rs))) (requeue_rows reasons mb only lim dry rs res)" for res
    by (rule safe_weaken [OF Cons.IH]) (simp add: top_rows_def)
  have "safe mx (top_rows (insert cid (fst ` set rs))) (if dry then act_ret ()
      else act_bind (act_get (\<lambda>d. the (rows d cid))) (\<lambda>r.
        reset_container cid St_Pending None (ct_source r) (ct_format r) (Some [(''requeued_for'', Note_Texts reasons)])))"
    by (auto intro!: safe_bind safe_rules simp: top_rows_def)
  then show ?case unfolding x using rest
    by (auto simp: Let_def intro!: safe_seq safe_rules simp del: requeue_result.simps)
qed

lemma safe_requeue [safe_rules]: "safe mx (\<lambda>_. True) (requeue reasons mb only lim dry)"
  unfolding requeue_def
proof (rule safe_get_bind)
  fix rs
  show "safe mx (\<lambda>d. True \<and> sort_key (\<lambda>(i, b). (b, i)) (map (\<lambda>i. (i, source_size d i)) (requeue_roots reasons d)) = rs)
     (requeue_rows reasons mb only lim dry rs \<lparr>rq_selected = 0, rq_bytes = 0, rq_skipped = 0, rq_ids = []\<rparr>)"
    by (rule safe_weaken [OF safe_requeue_rows]) (auto simp: top_rows_def intro: requeue_roots_top)
qed

end
