(* ===== verification/SweepSafe.thy ===== *)
theory SweepSafe
  imports Sweep WalkSafe
begin

text \<open>
  All the processes that share the catalog, as one transition system: any number of workers, each with the
  sink of the container it last claimed, and the walk, the requeue command, the reaper and worker restarts
  between any two of their transactions (\<open>fleet_step\<close>). The invariant \<open>fleet_ok\<close> extends the one of theory
  CatalogOk with what a sink knows about the rows it created.
\<close>

subsection \<open>The transition system\<close>

record fleet =
  fl_db :: cat
  fl_sinks :: "string \<Rightarrow> sink option"
  fl_claims :: "claim set"

definition empty_cat :: cat where
  "empty_cat = \<lparr>rows = (\<lambda>_. None), next_row = 1, cfiles = [], occs = [], blobs = [], sfiles = (\<lambda>_. None),
     next_sfile = 1, workers = [], runs = (\<lambda>_. None), next_run = 1\<rparr>"

definition fleet_init :: fleet where
  "fleet_init = \<lparr>fl_db = empty_cat, fl_sinks = (\<lambda>_. None), fl_claims = {}\<rparr>"

inductive housekeeping :: "settings \<Rightarrow> cat \<Rightarrow> cat \<Rightarrow> bool" for st where
  hk_walk: "housekeeping st d (snd (persist_walk now fs groups counts d))"
| hk_requeue: "housekeeping st d (snd (txn (requeue reasons mb only lim dry) d))"
| hk_reap: "housekeeping st d (snd (txn (reap st locked now) d))"
| hk_restart: "housekeeping st d (snd (txn (release_own_claims st locked w now) d))"
| hk_register: "housekeeping st d (snd (txn (register_worker w now) d))"
| hk_beat: "housekeeping st d (snd (txn (beat w current now) d))"

text \<open>One transaction of a worker, or a change of its sink alone.\<close>

inductive worker_step :: "sw \<Rightarrow> sw \<Rightarrow> bool" where
  ws_purge: "worker_step s (snd (run_txn up (act_seq (assert_owned (sk_claim (sw_sink s)))
     (purge_outputs (cl_id (sk_claim (sw_sink s))))) s))"
| ws_event: "worker_step s (snd (sink_event up now ev s))"
| ws_flush: "worker_step s (snd (flush up None s))"
| ws_finish: "worker_step s (snd (run_txn up (finish_db now (sk_claim (sw_sink s)) res (sw_sink s) run) s))"
| ws_release: "worker_step s (snd (release_claim up (sk_claim (sw_sink s)) False s))"
| ws_discard: "worker_step s (snd (discard_buffers s))"

inductive fleet_step :: "settings \<Rightarrow> fleet \<Rightarrow> fleet \<Rightarrow> bool" for st where
  fs_house: "housekeeping st (fl_db f) d' \<Longrightarrow> fleet_step st f (f\<lparr>fl_db := d'\<rparr>)"
| fs_claim: "txn (claim_one locked w now) (fl_db f) = (Inr (Some cl), d') \<Longrightarrow>
    fleet_step st f (f\<lparr>fl_db := d', fl_sinks := (fl_sinks f)(w \<mapsto> new_sink st cl), fl_claims := insert cl (fl_claims f)\<rparr>)"
| fs_worker: "fl_sinks f w = Some (sw_sink s) \<Longrightarrow> fl_db f = sw_db s \<Longrightarrow> worker_step s s' \<Longrightarrow>
    fleet_step st f (f\<lparr>fl_db := sw_db s', fl_sinks := (fl_sinks f)(w \<mapsto> sw_sink s')\<rparr>)"
| fs_deferred: "cl \<in> fl_claims f \<Longrightarrow> fleet_step st f (f\<lparr>fl_db := snd (txn (release_db cl False) (fl_db f))\<rparr>)"
| fs_stop: "fleet_step st f (f\<lparr>fl_sinks := (fl_sinks f)(w := None)\<rparr>)"

inductive fleet_reach :: "settings \<Rightarrow> fleet \<Rightarrow> bool" for st where
  fr_init: "fleet_reach st fleet_init"
| fr_step: "fleet_reach st f \<Longrightarrow> fleet_step st f g \<Longrightarrow> fleet_reach st g"

subsection \<open>What a sink knows\<close>

definition claim_ok :: "int \<Rightarrow> claim \<Rightarrow> cat \<Rightarrow> bool" where
  "claim_ok mx cl d \<longleftrightarrow> top_row (cl_id cl) d \<and> cl_attempt cl \<le> mx + 1"

definition nested_ok :: "sink \<Rightarrow> string list \<Rightarrow> nat \<Rightarrow> cat \<Rightarrow> bool" where
  "nested_ok k chain i d \<longleftrightarrow> i < next_row d \<and>
     (\<forall>r. rows d i = Some r \<longrightarrow> ct_parent r \<noteq> None \<and> ct_depth r = sk_top_depth k + int (length chain))"

definition sink_ok :: "int \<Rightarrow> sink \<Rightarrow> cat \<Rightarrow> bool" where
  "sink_ok mx k d \<longleftrightarrow> claim_ok mx (sk_claim k) d \<and> (\<forall>(chain, i) \<in> set (sk_nested k). nested_ok k chain i d) \<and>
     (\<forall>x \<in> set (sk_occ k). oc_container x = cl_id (sk_claim k) \<or> oc_container x \<in> snd ` set (sk_nested k))"

lemma stable_claim_ok: "stable (claim_ok mx cl)"
  using stable_top_row unfolding stable_def claim_ok_def by blast

lemma stable_nested_ok: "stable (nested_ok k chain i)"
  unfolding stable_def
proof (intro allI impI)
  fix d d' assume n: "nested_ok k chain i d" and g: "grows d d'"
  have "ct_parent r' \<noteq> None \<and> ct_depth r' = sk_top_depth k + int (length chain)" if "rows d' i = Some r'" for r'
  proof -
    from g n that obtain r where "rows d i = Some r" "skeleton r' = skeleton r"
      unfolding grows_def nested_ok_def by blast
    with n show ?thesis by (simp add: nested_ok_def skeleton_def)
  qed
  with n g show "nested_ok k chain i d'" by (simp add: nested_ok_def grows_def)
qed

lemma stable_sink_ok [safe_rules]: "stable (sink_ok mx k)"
  unfolding stable_def
proof (intro allI impI)
  fix d d' assume s: "sink_ok mx k d" and g: "grows d d'"
  have "claim_ok mx (sk_claim k) d'" using s g stable_claim_ok unfolding stable_def sink_ok_def by blast
  moreover have "nested_ok k chain i d'" if "(chain, i) \<in> set (sk_nested k)" for chain i
    using s g that stable_nested_ok unfolding stable_def sink_ok_def by blast
  ultimately show "sink_ok mx k d'" using s unfolding sink_ok_def by blast
qed

definition fleet_ok :: "int \<Rightarrow> fleet \<Rightarrow> bool" where
  "fleet_ok mx f \<longleftrightarrow> cat_ok mx (fl_db f) \<and> (\<forall>w k. fl_sinks f w = Some k \<longrightarrow> sink_ok mx k (fl_db f)) \<and>
     (\<forall>cl \<in> fl_claims f. claim_ok mx cl (fl_db f))"

lemma fleet_ok_grows:
  assumes "fleet_ok mx f" and "cat_ok mx d" and "grows (fl_db f) d"
  shows "fleet_ok mx (f\<lparr>fl_db := d\<rparr>)"
proof -
  have "sink_ok mx k d" if "sink_ok mx k (fl_db f)" for k
    using that assms(3) stable_sink_ok unfolding stable_def by blast
  moreover have "claim_ok mx cl d" if "claim_ok mx cl (fl_db f)" for cl
    using that assms(3) stable_claim_ok unfolding stable_def by blast
  ultimately show ?thesis using assms(1,2) by (simp add: fleet_ok_def)
qed

subsection \<open>The catalog operations of the sweep\<close>

lemma txn_run: "txn m d = (Inr v, d') \<longleftrightarrow> m d = (Inr v, d')"
  by (auto simp: txn_def split: prod.splits sum.splits)

lemma claim_one_safe: "safe mx P (claim_one locked w now)"
proof (rule safeI)
  fix d assume ok: "cat_ok mx d"
  show "cat_ok mx (snd (claim_one locked w now d)) \<and> grows d (snd (claim_one locked w now d))"
  proof (cases "find (\<lambda>i. i \<notin> locked) (rows_where (\<lambda>r. ct_status r = St_Pending) d)")
    case None
    with ok show ?thesis by (simp add: claim_one_def)
  next
    case (Some cid)
    let ?sb = "sum_list (map snd (claim_files d cid))"
    have "cid \<in> set (rows_where (\<lambda>r. ct_status r = St_Pending) d)" using Some by (rule found_in)
    then obtain r where r: "rows d cid = Some r" "ct_status r = St_Pending"
      by (auto simp: rows_where_def split: option.splits)
    have "cat_ok mx (update_rows (\<lambda>i _. i = cid) (claim_row w now ?sb) d)"
      by (rule cat_ok_update [OF ok]) (use r cat_okD(5) [OF ok r(1)] in \<open>auto simp: skeleton_def claim_row_def\<close>)
    moreover have "grows d (update_rows (\<lambda>i _. i = cid) (claim_row w now ?sb) d)"
      by (rule grows_update) (simp add: skeleton_def claim_row_def)
    ultimately show ?thesis using Some by (simp add: claim_one_def Let_def)
  qed
qed

lemma claim_one_claim:
  assumes ok: "cat_ok mx d" and run: "claim_one locked w now d = (Inr (Some cl), d')"
  shows "claim_ok mx cl d'" "owned cl d'" "cl_worker cl = w"
proof -
  from run obtain cid where f: "find (\<lambda>i. i \<notin> locked) (rows_where (\<lambda>r. ct_status r = St_Pending) d) = Some cid"
    by (auto simp: claim_one_def split: option.splits)
  then have "cid \<in> set (rows_where (\<lambda>r. ct_status r = St_Pending) d)" by (rule found_in)
  then obtain r where r: "rows d cid = Some r" "ct_status r = St_Pending"
    by (auto simp: rows_where_def split: option.splits)
  note D = cat_okD(5) [OF ok r] cat_okD(2) [OF ok r(1)]
  from run f r have cl: "cl_id cl = cid" "cl_attempt cl = ct_attempts r + 1" "cl_worker cl = w"
    and d': "rows d' cid = Some (claim_row w now (sum_list (map snd (claim_files d cid))) r)" "next_row d' = next_row d"
    by (auto simp: claim_one_def Let_def update_rows_rows)
  show "claim_ok mx cl d'" using cl d' D by (simp add: claim_ok_def top_row_def claim_row_def)
  show "owned cl d'" using cl d' by (simp add: owned_def claim_row_def)
  show "cl_worker cl = w" by fact
qed

lemma assert_owned_run: "assert_owned cl d = (Inr u, d') \<longleftrightarrow> owned cl d \<and> d' = d"
  by (auto simp: assert_owned_def)

lemma safe_assert [safe_rules]: "safe mx P (assert_owned cl)"
  by (rule safeI) (simp add: assert_owned_def)

lemma db_bind_Inr: "act_bind m f s = (Inr v, u) \<longleftrightarrow> (\<exists>x t. m s = (Inr x, t) \<and> f x t = (Inr v, u))"
  by (auto simp: act_bind_def split: prod.splits sum.splits)

lemma db_seq_Inr: "act_seq m n s = (Inr v, u) \<longleftrightarrow> (\<exists>x t. m s = (Inr x, t) \<and> n t = (Inr v, u))"
  unfolding act_seq_def by (rule db_bind_Inr)

lemma add_occ_set: "set (fold add_occ xs ys) \<subseteq> set ys \<union> set xs"
proof (induction xs arbitrary: ys)
  case (Cons x xs)
  have "set (add_occ x ys) \<subseteq> insert x (set ys)" by (auto simp: add_occ_def)
  with Cons.IH [of "add_occ x ys"] show ?case by auto
qed simp

text \<open>A successful flush: the claim was owned, and the buffered rows are in the tables.\<close>

definition filled :: "sink \<Rightarrow> cat \<Rightarrow> cat \<Rightarrow> bool" where
  "filled k d d2 \<longleftrightarrow> rows d2 = rows d \<and> next_row d2 = next_row d \<and> occs d2 = fold add_occ (sk_occ k) (occs d) \<and>
     cfiles d2 = cfiles d \<and> (\<forall>x \<in> set (sk_occ k). rows d (oc_container x) \<noteq> None)"

lemma flush_db_Inr:
  assumes "flush_db k extra d = (Inr out, d')"
  obtains d2 where "owned (sk_claim k) d" "filled k d d2"
    "case extra of None \<Rightarrow> out = None \<and> d' = d2 | Some m \<Rightarrow> \<exists>i. out = Some i \<and> m d2 = (Inr i, d')"
proof -
  from assms obtain d1 d2 x y where own: "owned (sk_claim k) d"
    and 1: "insert_blobs (sk_blobs k) d = (Inr x, d1)" and 2: "insert_occs (sk_occ k) d1 = (Inr y, d2)"
    and 3: "(case extra of None \<Rightarrow> act_ret None | Some m \<Rightarrow> act_bind m (\<lambda>i. act_ret (Some i))) d2 = (Inr out, d')"
    unfolding flush_db_def db_seq_Inr assert_owned_run by blast
  from 1 2 have "filled k d d2"
    by (auto simp: filled_def insert_blobs_def insert_occs_def act_run split: if_splits)
  moreover have "case extra of None \<Rightarrow> out = None \<and> d' = d2 | Some m \<Rightarrow> \<exists>i. out = Some i \<and> m d2 = (Inr i, d')"
    using 3 by (auto simp: db_bind_Inr act_run split: option.splits)
  ultimately show ?thesis using own that by blast
qed

lemma owned_row: "owned cl d \<Longrightarrow> \<exists>r. rows d (cl_id cl) = Some r \<and> ct_status r = St_Claimed"
  by (auto simp: owned_def split: option.splits)

lemma owned_cong: "rows d' = rows d \<Longrightarrow> owned cl d' = owned cl d"
  by (simp add: owned_def)

lemma sink_ok_cong: "rows d' = rows d \<Longrightarrow> next_row d' = next_row d \<Longrightarrow> sink_ok mx k d' = sink_ok mx k d"
  by (simp add: sink_ok_def claim_ok_def top_row_def nested_ok_def)

text \<open>The rows a sink writes to are claimed or nested, never pending.\<close>

lemma sink_target:
  assumes ok: "cat_ok mx d" "sink_ok mx k d" "owned (sk_claim k) d"
    and i: "i = cl_id (sk_claim k) \<or> i \<in> snd ` set (sk_nested k)" and r: "rows d i = Some r"
  shows "ct_status r \<noteq> St_Pending"
  using i
proof
  assume "i = cl_id (sk_claim k)"
  with owned_row [OF ok(3)] r show ?thesis by auto
next
  assume "i \<in> snd ` set (sk_nested k)"
  then obtain chain where "(chain, i) \<in> set (sk_nested k)" by auto
  with ok(2) have "nested_ok k chain i d" by (auto simp: sink_ok_def)
  with r have "ct_parent r \<noteq> None" by (auto simp: nested_ok_def)
  with cat_okD(5) [OF ok(1) r] show ?thesis by blast
qed

lemma cat_ok_flush:
  assumes ok: "cat_ok mx d" "sink_ok mx k d" and own: "owned (sk_claim k) d"
    and fill: "filled k d d2"
  shows "cat_ok mx d2" "grows d d2" "sink_ok mx k d2" "owned (sk_claim k) d2"
proof -
  from fill have d2: "rows d2 = rows d" "next_row d2 = next_row d" "occs d2 = fold add_occ (sk_occ k) (occs d)"
      "\<And>x. x \<in> set (sk_occ k) \<Longrightarrow> rows d (oc_container x) \<noteq> None"
    by (auto simp: filled_def)
  have sub: "set (occs d2) \<subseteq> set (occs d) \<union> set (sk_occ k)" unfolding d2(3) by (rule add_occ_set)
  have "row_ok mx d2 i r" if r: "rows d i = Some r" for i r
  proof -
    have "unwritten i d2" if p: "ct_status r = St_Pending"
    proof -
      have "oc_container x \<noteq> i" if "x \<in> set (occs d2)" for x
      proof (cases "x \<in> set (occs d)")
        case True
        then show ?thesis using cat_okD(5) [OF ok(1) r p] by (simp add: unwritten_def)
      next
        case False
        with sub that ok(2) have "oc_container x = cl_id (sk_claim k) \<or> oc_container x \<in> snd ` set (sk_nested k)"
          by (auto simp: sink_ok_def)
        then show ?thesis using sink_target [OF ok own, of i r] r p by blast
      qed
      then show ?thesis using cat_okD(5) [OF ok(1) r p] d2(1) by (simp add: unwritten_def)
    qed
    then show ?thesis using cat_okD [OF ok(1) r] d2 unfolding row_ok_def by (metis (no_types, lifting))
  qed
  moreover have "rows d2 (oc_container x) \<noteq> None" if "x \<in> set (occs d2)" for x
    using sub that ok(1) d2(1,4) by (auto simp: cat_ok_def)
  ultimately show "cat_ok mx d2" using ok(1) d2 unfolding cat_ok_def by auto
  show "grows d d2" using grows_cong d2(1,2) by blast
  show "sink_ok mx k d2" "owned (sk_claim k) d2"
    using ok(2) own sink_ok_cong [OF d2(1,2)] owned_cong [OF d2(1)] by blast+
qed


lemma safe_flush_db:
  assumes "case extra of None \<Rightarrow> True | Some m \<Rightarrow> safe mx (\<lambda>d. sink_ok mx k d \<and> owned (sk_claim k) d) m"
    and ok: "cat_ok mx d" "sink_ok mx k d" and run: "flush_db k extra d = (Inr out, d')"
  shows "cat_ok mx d' \<and> grows d d'"
proof -
  obtain d2 where own: "owned (sk_claim k) d" and fill: "filled k d d2"
    and out: "case extra of None \<Rightarrow> out = None \<and> d' = d2 | Some m \<Rightarrow> \<exists>i. out = Some i \<and> m d2 = (Inr i, d')"
    using run by (rule flush_db_Inr)
  note 1 = cat_ok_flush [OF ok own fill]
  show ?thesis
  proof (cases extra)
    case None
    with 1 out show ?thesis by simp
  next
    case (Some m)
    with out obtain i where i: "m d2 = (Inr i, d')" by auto
    have "safe mx (\<lambda>d. sink_ok mx k d \<and> owned (sk_claim k) d) m" using assms(1) Some by simp
    from safeD [OF this 1(1) _ i] 1(3,4) have "cat_ok mx d' \<and> grows d2 d'" by blast
    with 1(2) grows_trans show ?thesis by blast
  qed
qed

subsection \<open>The steps of one worker\<close>

definition sw_ok :: "int \<Rightarrow> sw \<Rightarrow> bool" where
  "sw_ok mx s \<longleftrightarrow> cat_ok mx (sw_db s) \<and> sink_ok mx (sw_sink s) (sw_db s)"

definition sw_next :: "int \<Rightarrow> sw \<Rightarrow> sw \<Rightarrow> bool" where
  "sw_next mx s s' \<longleftrightarrow> sw_ok mx s' \<and> grows (sw_db s) (sw_db s') \<and> sk_claim (sw_sink s') = sk_claim (sw_sink s)"

lemma sw_next_trans [trans]: "sw_next mx a b \<Longrightarrow> sw_next mx b c \<Longrightarrow> sw_next mx a c"
  unfolding sw_next_def using grows_trans by auto

lemma run_txn_next:
  assumes s: "sw_ok mx s" and m: "\<And>v d'. m (sw_db s) = (Inr v, d') \<Longrightarrow> cat_ok mx d' \<and> grows (sw_db s) d'"
  shows "sw_next mx s (snd (run_txn up m s))" "sw_sink (snd (run_txn up m s)) = sw_sink s"
    "fst (run_txn up m s) = Inr v \<Longrightarrow> m (sw_db s) = (Inr v, sw_db (snd (run_txn up m s)))"
proof -
  have d: "cat_ok mx (snd (txn m (sw_db s))) \<and> grows (sw_db s) (snd (txn m (sw_db s)))"
    using s m by (cases "m (sw_db s)"; cases "fst (m (sw_db s))") (auto simp: txn_def sw_ok_def)
  then have "sink_ok mx (sw_sink s) (snd (txn m (sw_db s)))"
    using s stable_sink_ok unfolding stable_def sw_ok_def by blast
  with d s show "sw_next mx s (snd (run_txn up m s))"
    by (auto simp: sw_next_def sw_ok_def run_txn_def Let_def split: prod.splits)
  show "sw_sink (snd (run_txn up m s)) = sw_sink s"
    by (auto simp: run_txn_def Let_def split: prod.splits)
  show "m (sw_db s) = (Inr v, sw_db (snd (run_txn up m s)))" if "fst (run_txn up m s) = Inr v"
    using that by (auto simp: run_txn_def Let_def txn_run split: prod.splits if_splits)
qed

lemma sink_ok_buffers:
  "sink_ok mx k d \<Longrightarrow> sink_ok mx (k\<lparr>sk_blobs := bs, sk_occ := []\<rparr>) d"
  by (auto simp: sink_ok_def nested_ok_def)

lemma clear_next: "sw_ok mx s \<Longrightarrow> sw_next mx s (clear_buffers s)"
  using sink_ok_buffers by (auto simp: sw_next_def sw_ok_def clear_buffers_def)

text \<open>What a flush left behind: the sink keeps what it knows, and a value \<open>Some i\<close> is the one of the extra action.\<close>

definition flushed :: "int \<Rightarrow> nat db_act option \<Rightarrow> sw \<Rightarrow> (sweep_exn + nat option) \<Rightarrow> sw \<Rightarrow> bool" where
  "flushed mx extra s r s' \<longleftrightarrow> sw_next mx s s' \<and> sk_nested (sw_sink s') = sk_nested (sw_sink s) \<and>
     sk_top_depth (sw_sink s') = sk_top_depth (sw_sink s) \<and>
     (\<forall>out. r = Inr out \<longrightarrow> sk_occ (sw_sink s') = []) \<and>
     (\<forall>i m. r = Inr (Some i) \<longrightarrow> extra = Some m \<longrightarrow> (\<exists>d2. m d2 = (Inr i, sw_db s') \<and> cat_ok mx d2 \<and>
        sink_ok mx (sw_sink s) d2 \<and> owned (sk_claim (sw_sink s)) d2))"

lemma flush_next:
  assumes s: "sw_ok mx s" and ex: "case extra of None \<Rightarrow> True | Some m \<Rightarrow>
      safe mx (\<lambda>d. sink_ok mx (sw_sink s) d \<and> owned (sk_claim (sw_sink s)) d) m"
    and run: "flush up extra s = (r, s')"
  shows "flushed mx extra s r s'"
proof -
  let ?k = "sw_sink s" and ?m = "flush_db (sw_sink s) extra"
  let ?t = "snd (run_txn up ?m s)"
  have db: "cat_ok mx (sw_db s)" "sink_ok mx ?k (sw_db s)" using s by (simp_all add: sw_ok_def)
  have good: "cat_ok mx d' \<and> grows (sw_db s) d'" if "?m (sw_db s) = (Inr v, d')" for v d'
    by (rule safe_flush_db [OF ex db that])
  have t: "sw_next mx s ?t" "sw_sink ?t = ?k" by (rule run_txn_next(1) [OF s good], assumption) (rule run_txn_next(2) [OF s good])
  consider (empty) "s' = s" "r = Inr None" "sk_occ ?k = []" | (failed) e where "s' = ?t" "r = Inl e"
    | (ok) out where "fst (run_txn up ?m s) = Inr out" "s' = clear_buffers ?t" "r = Inr out"
    using run unfolding flush_def
    by (cases "run_txn up ?m s"; cases "fst (run_txn up ?m s)")
      (auto simp: act_bind_def act_seq_def act_run split: if_splits)
  then show ?thesis
  proof cases
    case empty
    then show ?thesis using s by (simp add: flushed_def sw_next_def)
  next
    case (failed e)
    then show ?thesis using t by (simp add: flushed_def)
  next
    case (ok out)
    have "sw_ok mx ?t" using t(1) by (simp add: sw_next_def)
    from sw_next_trans [OF t(1) clear_next [OF this]] have n: "sw_next mx s s'" by (simp add: ok(2))
    have "\<exists>d2. m d2 = (Inr i, sw_db s') \<and> cat_ok mx d2 \<and> sink_ok mx ?k d2 \<and> owned (sk_claim ?k) d2"
      if i: "out = Some i" "extra = Some m" for i m
    proof -
      have "?m (sw_db s) = (Inr out, sw_db s')"
        using run_txn_next(3) [OF s good ok(1)] ok(2) by (simp add: clear_buffers_def)
      then obtain d2 where own: "owned (sk_claim ?k) (sw_db s)" and fill: "filled ?k (sw_db s) d2"
        and "case extra of None \<Rightarrow> out = None \<and> sw_db s' = d2 | Some m \<Rightarrow> \<exists>i. out = Some i \<and> m d2 = (Inr i, sw_db s')"
        by (rule flush_db_Inr)
      then have "m d2 = (Inr i, sw_db s')" using i by simp
      with cat_ok_flush [OF db own fill] show ?thesis by blast
    qed
    with n t(2) ok show ?thesis by (simp add: flushed_def clear_buffers_def)
  qed
qed


lemma status_of_cases: "status_of s = St_Done \<or> status_of s = St_Failed"
  by (simp add: status_of_def)

lemma status_of_neq [simp]: "status_of s \<noteq> St_Pending" "status_of s \<noteq> St_Claimed"
  by (simp_all add: status_of_def)

text \<open>A nested row goes under a row of the same claim that is not pending and less deep.\<close>

lemma owner_parent:
  assumes ok: "cat_ok mx d" "sink_ok mx k d" "owned (sk_claim k) d"
    and q: "rows d (sink_owner k chain) = Some q"
  shows "ct_status q \<noteq> St_Pending \<and> (ct_parent q \<noteq> None \<longrightarrow> ct_depth q < sk_top_depth k + int (length chain))"
proof (cases "butlast chain \<noteq> [] \<and> map_of (sk_nested k) (butlast chain) \<noteq> None")
  case False
  then have o: "sink_owner k chain = cl_id (sk_claim k)"
    by (auto simp: sink_owner_def Let_def dict_get_def)
  have "ct_parent q = None" using ok(2) q unfolding o by (auto simp: sink_ok_def claim_ok_def top_row_def)
  then show ?thesis using sink_target [OF ok] q o by auto
next
  case True
  then obtain i where i: "map_of (sk_nested k) (butlast chain) = Some i" by auto
  then have o: "sink_owner k chain = i" and m: "(butlast chain, i) \<in> set (sk_nested k)"
    using True by (auto simp: sink_owner_def Let_def dict_get_def dest: map_of_SomeD)
  have "nested_ok k (butlast chain) i d" using ok(2) m by (auto simp: sink_ok_def)
  with q o have "ct_depth q = sk_top_depth k + int (length (butlast chain))" by (simp add: nested_ok_def)
  moreover have "i \<in> snd ` set (sk_nested k)" using m by force
  then have "ct_status q \<noteq> St_Pending" using sink_target [OF ok, of i q] q unfolding o by blast
  ultimately show ?thesis using True by (cases chain rule: rev_cases) auto
qed

lemma safe_insert_nested:
  assumes f: "\<And>r. skeleton (f r) = skeleton r" "ct_status (f (nested_row now k chain sha sz)) \<noteq> St_Pending"
  shows "safe mx (\<lambda>d. sink_ok mx k d \<and> owned (sk_claim k) d) (insert_row (f (nested_row now k chain sha sz)))"
proof (rule safe_insert_row)
  let ?r = "f (nested_row now k chain sha sz)"
  have r: "ct_kind ?r = Ct_Nested" "ct_parent ?r = Some (sink_owner k chain)"
    "ct_depth ?r = sk_top_depth k + int (length chain)"
    using f(1) [of "nested_row now k chain sha sz"] by (simp_all add: skeleton_def nested_row_def fresh_row_def)
  show "(ct_kind ?r = Ct_Nested) = (ct_parent ?r \<noteq> None)" using r by simp
  show "ct_status ?r = St_Pending \<Longrightarrow> ct_parent ?r = None \<and> ct_attempts ?r \<le> mx" using f(2) by blast
  show "ct_status ?r = St_Claimed \<Longrightarrow> ct_parent ?r = None \<Longrightarrow> ct_attempts ?r \<le> mx + 1" using r by simp
  show "ct_status q \<noteq> St_Pending \<and> (ct_parent q \<noteq> None \<longrightarrow> ct_depth q < ct_depth ?r)"
    if "cat_ok mx d" "sink_ok mx k d \<and> owned (sk_claim k) d" "ct_parent ?r = Some p" "rows d p = Some q" for d p q
    using owner_parent [of mx d k chain q] that r by auto
qed

lemma insert_nested_ok:
  assumes f: "\<And>r. skeleton (f r) = skeleton r" and run: "insert_row (f (nested_row now k chain sha sz)) d = (Inr i, d')"
  shows "nested_ok k chain i d'"
  using run f [of "nested_row now k chain sha sz"]
  by (auto simp: insert_row_def nested_ok_def skeleton_def nested_row_def fresh_row_def split: if_splits)

text \<open>Recording the id of a nested container, after its flush.\<close>

lemma set_update_sub: "set (AList.update k v xs) \<subseteq> insert (k, v) (set xs)"
  by (induction xs) auto

lemma set_nested_next:
  assumes ok: "sw_ok mx s" and occ: "sk_occ (sw_sink s) = []"
    and i: "\<And>i. out = Some i \<Longrightarrow> nested_ok (sw_sink s) chain i (sw_db s)"
  shows "sw_next mx s (snd (set_nested chain out s))"
proof (cases out)
  case None
  with ok show ?thesis by (simp add: set_nested_def act_run sw_next_def)
next
  case (Some i)
  let ?k = "sw_sink s" and ?n = "AList.update chain i (sk_nested (sw_sink s))"
  have "nested_ok ?k c j (sw_db s)" if "(c, j) \<in> set ?n" for c j
    using that set_update_sub [of chain i "sk_nested ?k"] ok i [OF Some] by (auto simp: sw_ok_def sink_ok_def)
  then have "sink_ok mx (?k\<lparr>sk_nested := ?n\<rparr>) (sw_db s)"
    using ok occ by (auto simp: sw_ok_def sink_ok_def nested_ok_def)
  then show ?thesis using Some ok by (simp add: set_nested_def act_run sw_next_def sw_ok_def)
qed

text \<open>A flush with an action that creates or names the row of \<open>chain\<close>, then recording it.\<close>

lemma flush_set_next:
  assumes ok: "sw_ok mx s" and m: "safe mx (\<lambda>d. sink_ok mx (sw_sink s) d \<and> owned (sk_claim (sw_sink s)) d) m"
    and post: "\<And>d2 i d'. cat_ok mx d2 \<Longrightarrow> sink_ok mx (sw_sink s) d2 \<Longrightarrow> m d2 = (Inr i, d') \<Longrightarrow> nested_ok (sw_sink s) chain i d'"
  shows "sw_next mx s (snd (act_bind (flush up (Some m)) (set_nested chain) s))"
proof -
  obtain r s' where run: "flush up (Some m) s = (r, s')" by (cases "flush up (Some m) s")
  have F: "flushed mx (Some m) s r s'" by (rule flush_next [OF ok _ run]) (simp add: m)
  then have n: "sw_next mx s s'" by (simp add: flushed_def)
  show ?thesis
  proof (cases r)
    case (Inl e)
    with run n show ?thesis by (simp add: act_bind_def)
  next
    case (Inr out)
    have "sw_next mx s' (snd (set_nested chain out s'))"
    proof (rule set_nested_next)
      show "sw_ok mx s'" using n by (simp add: sw_next_def)
      show "sk_occ (sw_sink s') = []" using F Inr by (simp add: flushed_def)
      show "nested_ok (sw_sink s') chain i (sw_db s')" if i: "out = Some i" for i
      proof -
        from F Inr i obtain d2 where "m d2 = (Inr i, sw_db s')" "cat_ok mx d2" "sink_ok mx (sw_sink s) d2"
          unfolding flushed_def by blast
        then have "nested_ok (sw_sink s) chain i (sw_db s')" using post by blast
        with F show ?thesis by (simp add: flushed_def nested_ok_def)
      qed
    qed
    with sw_next_trans [OF n] Inr run show ?thesis by (simp add: act_bind_def)
  qed
qed

lemma result_row_skeleton: "skeleton (result_row res now nts r) = skeleton r" "ct_status (result_row res now nts r) = status_of (res_status res)"
  by (simp_all add: skeleton_def result_row_def)

lemma sink_nested_next: "sw_ok mx s \<Longrightarrow> sw_next mx s (snd (sink_nested up now raw sha sz s))"
  unfolding sink_nested_def Let_def act_bind_run(1) [OF act_run(3)]
  by (rule flush_set_next [OF _ safe_insert_nested [where f = "\<lambda>r. r"] insert_nested_ok [where f = "\<lambda>r. r"]])
    (simp_all add: nested_row_def)

lemma sink_result_next:
  assumes ok: "sw_ok mx s"
  shows "sw_next mx s (snd (sink_result up now raw res s))"
proof -
  let ?k = "sw_sink s" and ?chain = "sink_chain (sw_sink s) raw"
  show ?thesis
  proof (cases "map_of (sk_nested ?k) ?chain")
    case (Some cid)
    let ?nts = "result_notes (Some res) (map_of (sk_refused_by ?k) cid) (map_of (sk_refused_examples ?k) cid) []"
    let ?m = "act_seq (act_mod (update_rows (\<lambda>i _. i = cid) (result_row res now ?nts))) (act_ret cid)"
    have "sw_next mx s (snd (act_bind (flush up (Some ?m)) (set_nested ?chain) s))"
    proof (rule flush_set_next [OF ok])
      show "safe mx (\<lambda>d. sink_ok mx ?k d \<and> owned (sk_claim ?k) d) ?m"
        by (rule safe_seq_strong [where R = "\<lambda>_. True"], rule safe_update) (auto simp: result_row_skeleton safe_rules)
      show "nested_ok ?k ?chain i d'" if "cat_ok mx d2" "sink_ok mx ?k d2" "?m d2 = (Inr i, d')" for d2 i d'
      proof -
        from that(3) have "i = cid" and d': "d' = update_rows (\<lambda>i _. i = cid) (result_row res now ?nts) d2"
          by (auto simp: db_seq_Inr act_run)
        moreover have "nested_ok ?k ?chain cid d2" using that(2) map_of_SomeD [OF Some] by (auto simp: sink_ok_def)
        moreover have "grows d2 d'" unfolding d' by (rule grows_update) (simp add: result_row_skeleton)
        ultimately show ?thesis using stable_nested_ok unfolding stable_def by blast
      qed
    qed
    then show ?thesis using Some by (simp add: sink_result_def act_bind_run(1) [OF act_run(3)] Let_def)
  next
    case None
    let ?m = "insert_row (result_row res now (result_notes (Some res) None None [])
      (nested_row now ?k ?chain (map_option fst (map_of (sk_archive_sha ?k) ?chain)) (map_option snd (map_of (sk_archive_sha ?k) ?chain))))"
    have "sw_next mx s (snd (act_bind (flush up (Some ?m)) (set_nested ?chain) s))"
      by (rule flush_set_next [OF ok safe_insert_nested insert_nested_ok]) (simp_all add: result_row_skeleton)
    then show ?thesis using None by (simp add: sink_result_def act_bind_run(1) [OF act_run(3)] Let_def)
  qed
qed


lemma buffer_member_ok:
  assumes "sink_ok mx k d"
  shows "sink_ok mx (buffer_member chain sha sz kind tri depth k) d"
proof -
  have "sink_owner k chain = cl_id (sk_claim k) \<or> sink_owner k chain \<in> snd ` set (sk_nested k)"
    by (auto simp: sink_owner_def Let_def dict_get_def dest!: map_of_SomeD split: option.splits) force
  with assms show ?thesis
    by (auto simp: buffer_member_def Let_def sink_ok_def nested_ok_def sink_owner_def)
qed

lemma sink_event_next:
  assumes ok: "sw_ok mx s"
  shows "sw_next mx s (snd (sink_event up now ev s))"
proof (cases ev)
  case (Ev_Member raw sha sz kind tri depth)
  let ?chain = "sink_chain (sw_sink s) raw"
  let ?s' = "s\<lparr>sw_sink := buffer_member ?chain sha sz kind tri depth (sw_sink s)\<rparr>"
  have n: "sw_next mx s ?s'"
    using ok buffer_member_ok by (auto simp: sw_next_def sw_ok_def buffer_member_def Let_def)
  then have "flushed mx None ?s' (fst (flush up None ?s')) (snd (flush up None ?s'))"
    by (intro flush_next) (simp_all add: sw_next_def)
  then have "sw_next mx s (snd (flush up None ?s'))" using n sw_next_trans by (auto simp: flushed_def)
  moreover have "sink_event up now ev s = (if ?chain = [] then (Inl Other_Error, s)
      else if length (sk_occ (sw_sink ?s')) \<ge> sk_flush_members (sw_sink ?s') then act_seq (flush up None) (act_ret ()) ?s'
      else (Inr (), ?s'))"
    by (simp add: Ev_Member sink_event_def sink_member_def act_bind_def act_seq_def act_run)
  moreover have "snd (act_seq (flush up None) (act_ret ()) ?s') = snd (flush up None ?s')"
    by (auto simp: act_seq_def act_bind_def act_run split: prod.splits sum.splits)
  ultimately show ?thesis using n ok by (simp add: sw_next_def)
next
  case (Ev_Refused raw why)
  then show ?thesis using ok
    by (auto simp: sink_event_def sink_refused_def act_run sw_next_def sw_ok_def note_refused_def Let_def sink_ok_def nested_ok_def)
next
  case (Ev_Nested raw sha sz)
  then show ?thesis using sink_nested_next [OF ok] by (simp add: sink_event_def)
next
  case (Ev_Result raw res)
  then show ?thesis using sink_result_next [OF ok] by (simp add: sink_event_def)
qed

subsection \<open>Finishing, releasing, reaping\<close>

lemma safe_prod_case: "(\<And>a b. safe mx P (f a b)) \<Longrightarrow> safe mx P (case x of (a, b) \<Rightarrow> f a b)"
  by (cases x) simp

lemma safe_if_case: "safe mx P m \<Longrightarrow> safe mx P n \<Longrightarrow> safe mx P (if b then m else n)"
  by simp

lemma safe_requeue_as_loose:
  assumes mx: "0 \<le> mx"
  shows "safe mx (\<lambda>_. True) (requeue_as_loose cl)"
  unfolding requeue_as_loose_def
proof (rule safe_get_bind)
  fix ex
  let ?P = "\<lambda>d. rows_where (\<lambda>r. ct_requeued_from r = Some (cl_id cl) \<and> ct_kind r = Ct_Loose) d = ex"
  have files: "safe mx (\<lambda>_. True) (act_bind (act_get (\<lambda>d. filter (\<lambda>(c, _, _). c = cl_id cl) (cfiles d))) (\<lambda>mine.
     act_seq (insert_cfiles (map (\<lambda>(_, s, n). (new, s, n)) mine)) (act_ret new)))" for new
    by (intro safe_bind safe_seq safe_rules)
  have first: "safe mx ?P (case ex of
         i # _ \<Rightarrow> act_seq (purge_outputs i)
           (act_seq (act_mod (update_rows (\<lambda>j _. j = i) requeued_row))
           (act_seq (act_mod (\<lambda>d. d\<lparr>cfiles := filter (\<lambda>(c, _, _). c \<noteq> i) (cfiles d)\<rparr>)) (act_ret i)))
       | [] \<Rightarrow> insert_row ((fresh_row Ct_Loose)\<lparr>ct_source := cl_source cl, ct_depth := 0,
           ct_requeued_from := Some (cl_id cl), ct_notes := nts\<rparr>))" for nts
  proof (cases ex)
    case Nil
    then show ?thesis using mx by (auto intro!: safe_insert_row simp: fresh_row_def)
  next
    case (Cons i more)
    have top: "top_row i d" if ok: "cat_ok mx d" and p: "?P d" for d
    proof -
      from p Cons have "i \<in> set (rows_where (\<lambda>r. ct_requeued_from r = Some (cl_id cl) \<and> ct_kind r = Ct_Loose) d)" by simp
      then obtain r where r: "rows d i = Some r" "ct_kind r = Ct_Loose" by (auto simp: rows_where_def split: option.splits)
      with cat_okD(2,3) [OF ok r(1)] show ?thesis by (simp add: top_row_def)
    qed
    have "safe mx (top_row i) (act_seq (act_seq (purge_outputs i) (act_mod (update_rows (\<lambda>j _. j = i) requeued_row)))
        (act_seq (act_mod (\<lambda>d. d\<lparr>cfiles := filter (\<lambda>(c, _, _). c \<noteq> i) (cfiles d)\<rparr>)) (act_ret i)))"
      by (intro safe_seq [OF stable_top_row] safe_purge_update safe_rules safe_other)
        (use mx in \<open>auto simp: skeleton_def requeued_row_def\<close>)
    also have "act_seq (act_seq (purge_outputs i) (act_mod (update_rows (\<lambda>j _. j = i) requeued_row)))
        (act_seq (act_mod (\<lambda>d. d\<lparr>cfiles := filter (\<lambda>(c, _, _). c \<noteq> i) (cfiles d)\<rparr>)) (act_ret i)) =
      act_seq (purge_outputs i) (act_seq (act_mod (update_rows (\<lambda>j _. j = i) requeued_row))
           (act_seq (act_mod (\<lambda>d. d\<lparr>cfiles := filter (\<lambda>(c, _, _). c \<noteq> i) (cfiles d)\<rparr>)) (act_ret i)))"
      by (rule act_seq_assoc)
    finally show ?thesis unfolding Cons list.case by (rule safe_weaken) (rule top, assumption, simp add: Cons)
  qed
  show "safe mx (\<lambda>d. True \<and> ?P d) (act_bind (case ex of
         i # _ \<Rightarrow> act_seq (purge_outputs i)
           (act_seq (act_mod (update_rows (\<lambda>j _. j = i) requeued_row))
           (act_seq (act_mod (\<lambda>d. d\<lparr>cfiles := filter (\<lambda>(c, _, _). c \<noteq> i) (cfiles d)\<rparr>)) (act_ret i)))
       | [] \<Rightarrow> insert_row ((fresh_row Ct_Loose)\<lparr>ct_source := cl_source cl, ct_depth := 0,
           ct_requeued_from := Some (cl_id cl), ct_notes := result_notes None None None
             [(''requeued_from'', Note_Int (int (cl_id cl))), (''reason'', Note_Text ''unsupported_format'')]\<rparr>)) (\<lambda>new.
     act_bind (act_get (\<lambda>d. filter (\<lambda>(c, _, _). c = cl_id cl) (cfiles d))) (\<lambda>mine.
     act_seq (insert_cfiles (map (\<lambda>(_, s, n). (new, s, n)) mine)) (act_ret new))))"
    by (rule safe_bind_strong [OF safe_weaken [OF first] files]) simp_all
qed


lemma safe_finish_db:
  assumes mx: "0 \<le> mx"
  shows "safe mx (\<lambda>_. True) (finish_db now cl res k run)"
proof -
  have worker: "rows (count_worker cl ok b now d) = rows d" "next_row (count_worker cl ok b now d) = next_row d"
    "occs (count_worker cl ok b now d) = occs d" for ok b d by (simp_all add: count_worker_def)
  have runs: "rows (count_run cl ok b run d) = rows d" "next_row (count_run cl ok b run d) = next_row d"
    "occs (count_run cl ok b run d) = occs d" for ok b d by (simp_all add: count_run_def split: option.splits)
  have row: "skeleton (finish_row st why res now nts r) = skeleton r" "ct_status (finish_row st why res now nts r) = status_of st"
    "skeleton (close_row why now r) = skeleton r" "ct_status (close_row why now r) = St_Failed" for st why nts r
    by (simp_all add: skeleton_def finish_row_def close_row_def)
  show ?thesis unfolding finish_db_def
    by (intro safe_seq safe_bind stable_True safe_prod_case safe_if_case safe_requeue_as_loose mx safe_rules safe_update safe_other)
      (simp_all add: row worker runs)
qed

lemma purge_update_ok:
  assumes ok: "cat_ok mx d" "top_row cid d" and f: "\<And>r. skeleton (f r) = skeleton r"
    and a: "\<And>r r'. rows d cid = Some r \<Longrightarrow> ct_attempts r' = ct_attempts r \<Longrightarrow> ct_attempts (f r') \<le> mx"
  shows "cat_ok mx (update_rows (\<lambda>i _. i = cid) f (purged cid d))" "grows d (update_rows (\<lambda>i _. i = cid) f (purged cid d))"
proof -
  note P = purged_ok [OF ok(1), of cid]
  have top: "top_row cid (purged cid d)" using ok(2) P(2) stable_top_row unfolding stable_def by blast
  have att: "ct_attempts (f r') \<le> mx" if r': "rows (purged cid d) cid = Some r'" for r'
  proof -
    from r' obtain r where "rows d cid = Some r" "ct_attempts r' = ct_attempts r"
      by (auto simp: purged_def erased_row)
    then show ?thesis by (rule a)
  qed
  have 1: "ct_parent r' = None \<and> unwritten cid (purged cid d) \<and> ct_attempts (f r') \<le> mx" if "rows (purged cid d) cid = Some r'" for r'
    using top that P(3) att by (auto simp: top_row_def)
  show "cat_ok mx (update_rows (\<lambda>i _. i = cid) f (purged cid d))"
    by (rule cat_ok_update [OF P(1)]) (use f 1 in force)+
  show "grows d (update_rows (\<lambda>i _. i = cid) f (purged cid d))"
    using P(2) grows_update [of "purged cid d" "\<lambda>i _. i = cid" f] f grows_trans by blast
qed

lemma purge_update_run:
  "cat_ok mx d \<Longrightarrow> act_seq (purge_outputs cid) (act_mod (update_rows A f)) d = (Inr (), update_rows A f (purged cid d))"
  by (simp add: act_seq_def act_bind_def purge_run act_run)

lemma release_run:
  assumes "cat_ok mx d"
  shows "release_db cl c d = (if owned cl d
    then (Inr True, update_rows (\<lambda>i _. i = cl_id cl) (release_row c) (purged (cl_id cl) d)) else (Inr False, d))"
  using purge_run [OF assms] by (simp add: release_db_def act_seq_def act_bind_def act_run)

lemma release_row_facts:
  "skeleton (release_row c r) = skeleton r" "ct_status (release_row c r) = St_Pending"
  "ct_attempts (release_row False r) = max (ct_attempts r - 1) 0"
  by (simp_all add: release_row_def skeleton_def)

lemma safe_release_db:
  assumes top: "\<And>d. P d \<Longrightarrow> claim_ok mx cl d"
  shows "safe mx P (release_db cl False)"
proof (rule safeI)
  fix d assume d: "cat_ok mx d" "P d"
  have mx: "0 \<le> mx" using d(1) by (simp add: cat_ok_def)
  show "cat_ok mx (snd (release_db cl False d)) \<and> grows d (snd (release_db cl False d))"
  proof (cases "owned cl d")
    case False
    with d show ?thesis by (simp add: release_db_def)
  next
    case True
    have c: "top_row (cl_id cl) d" "cl_attempt cl \<le> mx + 1" using top [OF d(2)] by (simp_all add: claim_ok_def)
    have "ct_attempts (release_row False r') \<le> mx" if "rows d (cl_id cl) = Some r" "ct_attempts r' = ct_attempts r" for r r'
      using that True c(2) mx by (simp add: release_row_facts owned_def)
    from purge_update_ok [OF d(1) c(1) release_row_facts(1) this] True show ?thesis
      by (simp add: release_run [OF d(1)])
  qed
qed

lemma unclaim_row_facts:
  "skeleton (unclaim_row r) = skeleton r" "ct_status (unclaim_row r) = St_Pending" "ct_attempts (unclaim_row r) = ct_attempts r"
  by (simp_all add: unclaim_row_def skeleton_def)

lemma exhausted_facts:
  "skeleton (exhausted_row now nts r) = skeleton r" "ct_status (exhausted_row now nts r) = St_Failed"
  "skeleton (close_exhausted now r) = skeleton r" "ct_status (close_exhausted now r) = St_Failed"
  by (simp_all add: exhausted_row_def close_exhausted_def skeleton_def)

lemma safe_reap_one: "safe mx (top_row cid) (reap_one mx now why cid)"
proof (rule safeI)
  fix d assume d: "cat_ok mx d" "top_row cid d"
  show "cat_ok mx (snd (reap_one mx now why cid d)) \<and> grows d (snd (reap_one mx now why cid d))"
  proof (cases "ct_attempts (the (rows d cid)) > mx")
    case True
    have "safe mx (\<lambda>_. True) (act_seq (act_mod (update_rows (\<lambda>i _. i = cid) (exhausted_row now nts)))
       (act_bind (act_get (\<lambda>d. map fst (nested_descendants d cid))) (\<lambda>desc.
        act_mod (update_rows (\<lambda>i r. i \<in> set desc \<and> ct_status r = St_Claimed) (close_exhausted now)))))" for nts
      by (intro safe_seq safe_bind stable_True safe_basic safe_update) (simp_all add: exhausted_facts)
    from safe_at [OF this d(1)] True show ?thesis by (simp add: reap_one_def)
  next
    case False
    have "ct_attempts (unclaim_row r') \<le> mx" if "rows d cid = Some r" "ct_attempts r' = ct_attempts r" for r r'
      using that False by (simp add: unclaim_row_facts)
    from purge_update_ok [OF d unclaim_row_facts(1) this] False show ?thesis
      by (simp add: reap_one_def purge_update_run [OF d(1)])
  qed
qed

lemma safe_reap_rows: "safe mx (top_rows (set ids)) (reap_rows mx now why ids)"
  unfolding reap_rows_def
  by (rule safe_for [OF stable_top_rows]) (auto intro: safe_weaken [OF safe_reap_one] simp: top_rows_def)

lemma rows_where_top:
  assumes "cat_ok mx d" and "set ids \<subseteq> set (rows_where (\<lambda>r. ct_kind r \<noteq> Ct_Nested \<and> A r) d)"
  shows "top_rows (set ids) d"
proof -
  have "top_row i d" if "i \<in> set ids" for i
  proof -
    from that assms(2) obtain r where r: "rows d i = Some r" "ct_kind r \<noteq> Ct_Nested"
      by (fastforce simp: rows_where_def split: option.splits)
    with cat_okD(2,3) [OF assms(1) r(1)] show ?thesis by (simp add: top_row_def)
  qed
  then show ?thesis by (simp add: top_rows_def)
qed

lemma rows_where_mono: "(\<And>r. A r \<Longrightarrow> B r) \<Longrightarrow> set (rows_where A d) \<subseteq> set (rows_where B d)"
  by (auto simp: rows_where_def split: option.splits)

lemma safe_reap: "safe (ss_max_attempts st) (\<lambda>_. True) (reap st locked now)"
  unfolding reap_def
proof (rule safe_get_bind, rule safe_weaken [OF safe_reap_rows])
  fix ids d assume ok: "cat_ok (ss_max_attempts st) d"
    and "True \<and> take 500 (filter (\<lambda>i. i \<notin> locked) (rows_where (stale_row st now d) d)) = ids"
  then have "set ids \<subseteq> set (rows_where (stale_row st now d) d)" using set_take_subset by fastforce
  also have "\<dots> \<subseteq> set (rows_where (\<lambda>r. ct_kind r \<noteq> Ct_Nested \<and> True) d)"
    by (rule rows_where_mono) (simp add: stale_row_def)
  finally show "top_rows (set ids) d" by (rule rows_where_top [OF ok])
qed

lemma safe_restart: "safe (ss_max_attempts st) (\<lambda>_. True) (release_own_claims st locked w now)"
  unfolding release_own_claims_def
proof (rule safe_get_bind, rule safe_weaken [OF safe_reap_rows])
  fix ids d assume ok: "cat_ok (ss_max_attempts st) d"
    and "True \<and> filter (\<lambda>i. i \<notin> locked) (rows_where (\<lambda>r. ct_status r = St_Claimed \<and> ct_kind r \<noteq> Ct_Nested \<and>
      ct_claimed_by r = Some w) d) = ids"
  then have "set ids \<subseteq> set (rows_where (\<lambda>r. ct_status r = St_Claimed \<and> ct_kind r \<noteq> Ct_Nested \<and> ct_claimed_by r = Some w) d)"
    by auto
  also have "\<dots> \<subseteq> set (rows_where (\<lambda>r. ct_kind r \<noteq> Ct_Nested \<and> True) d)"
    by (rule rows_where_mono) simp
  finally show "top_rows (set ids) d" by (rule rows_where_top [OF ok])
qed

subsection \<open>The invariant holds in every reachable state\<close>

lemma housekeeping_ok:
  assumes "housekeeping st d d'" and ok: "cat_ok (ss_max_attempts st) d"
  shows "cat_ok (ss_max_attempts st) d' \<and> grows d d'"
  using assms(1)
proof cases
  case (hk_walk now fs groups counts)
  have "0 \<le> ss_max_attempts st" using ok by (simp add: cat_ok_def)
  from safe_at [OF safe_persist_walk [OF this] ok] hk_walk show ?thesis by simp
next
  case hk_requeue
  with safe_at [OF safe_txn [OF safe_requeue] ok] show ?thesis by simp
next
  case hk_reap
  with safe_at [OF safe_txn [OF safe_reap] ok] show ?thesis by simp
next
  case hk_restart
  with safe_at [OF safe_txn [OF safe_restart] ok] show ?thesis by simp
next
  case (hk_register w now)
  have "safe (ss_max_attempts st) (\<lambda>_. True) (register_worker w now)" unfolding register_worker_def by (rule safe_other) simp_all
  from safe_at [OF safe_txn [OF this] ok] hk_register show ?thesis by simp
next
  case (hk_beat w current now)
  have "safe (ss_max_attempts st) (\<lambda>_. True) (beat w current now)" unfolding beat_def
    by (rule safe_other) (simp_all split: option.splits)
  from safe_at [OF safe_txn [OF this] ok] hk_beat show ?thesis by simp
qed

lemma worker_step_ok:
  assumes "worker_step s s'" and ok: "sw_ok mx s"
  shows "sw_next mx s s'"
  using assms(1)
proof cases
  case (ws_purge up)
  have "safe mx (\<lambda>_. True) (act_seq (assert_owned (sk_claim (sw_sink s))) (purge_outputs (cl_id (sk_claim (sw_sink s)))))"
    by (intro safe_seq safe_rules)
  from run_txn_next(1) [OF ok safeD [OF this]] ok ws_purge show ?thesis by (simp add: sw_ok_def)
next
  case ws_event
  with sink_event_next [OF ok] show ?thesis by simp
next
  case (ws_flush up)
  have "flushed mx None s (fst (flush up None s)) (snd (flush up None s))" by (rule flush_next [OF ok]) simp_all
  with ws_flush show ?thesis by (simp add: flushed_def)
next
  case (ws_finish up now res run)
  have "0 \<le> mx" using ok by (simp add: sw_ok_def cat_ok_def)
  from run_txn_next(1) [OF ok safeD [OF safe_finish_db [OF this]]] ok ws_finish show ?thesis by (simp add: sw_ok_def)
next
  case (ws_release up)
  have "safe mx (sink_ok mx (sw_sink s)) (release_db (sk_claim (sw_sink s)) False)"
    by (rule safe_release_db) (simp add: sink_ok_def)
  from run_txn_next(1) [OF ok safeD [OF this]] ok ws_release show ?thesis by (simp add: sw_ok_def release_claim_def)
next
  case ws_discard
  with clear_next [OF ok] show ?thesis by (simp add: discard_buffers_def act_run)
qed

lemma new_sink_ok: "claim_ok mx cl d \<Longrightarrow> sink_ok mx (new_sink st cl) d"
  by (simp add: sink_ok_def new_sink_def)

lemma fleet_step_ok:
  assumes "fleet_step st f g" and inv: "fleet_ok (ss_max_attempts st) f"
  shows "fleet_ok (ss_max_attempts st) g"
proof -
  let ?mx = "ss_max_attempts st"
  from inv have ok: "cat_ok ?mx (fl_db f)" by (simp add: fleet_ok_def)
  from assms(1) show ?thesis
  proof cases
    case (fs_house d')
    with housekeeping_ok [OF _ ok] fleet_ok_grows [OF inv] show ?thesis by blast
  next
    case (fs_claim locked w now cl d')
    then have run: "claim_one locked w now (fl_db f) = (Inr (Some cl), d')" by (simp add: txn_run)
    have d': "cat_ok ?mx d'" "grows (fl_db f) d'" using safeD [OF claim_one_safe ok, of "\<lambda>_. True" locked w now] run by blast+
    have c: "claim_ok ?mx cl d'" by (rule claim_one_claim(1) [OF ok run])
    have "fleet_ok ?mx (f\<lparr>fl_db := d'\<rparr>)" by (rule fleet_ok_grows [OF inv d'])
    with c new_sink_ok [OF c] fs_claim(1) show ?thesis by (auto simp: fleet_ok_def)
  next
    case (fs_worker w s s')
    have "sw_ok ?mx s" using inv fs_worker by (auto simp: fleet_ok_def sw_ok_def)
    from worker_step_ok [OF fs_worker(4) this]
    have n: "cat_ok ?mx (sw_db s')" "grows (fl_db f) (sw_db s')" "sink_ok ?mx (sw_sink s') (sw_db s')"
      using fs_worker(3) by (simp_all add: sw_next_def sw_ok_def)
    have "fleet_ok ?mx (f\<lparr>fl_db := sw_db s'\<rparr>)" by (rule fleet_ok_grows [OF inv n(1,2)])
    with n(3) fs_worker(1) show ?thesis by (auto simp: fleet_ok_def)
  next
    case (fs_deferred cl)
    have "claim_ok ?mx cl (fl_db f)" using inv fs_deferred by (simp add: fleet_ok_def)
    have "safe ?mx (claim_ok ?mx cl) (txn (release_db cl False))" by (intro safe_txn safe_release_db)
    with ok \<open>claim_ok ?mx cl (fl_db f)\<close> have "cat_ok ?mx (snd (txn (release_db cl False) (fl_db f))) \<and>
        grows (fl_db f) (snd (txn (release_db cl False) (fl_db f)))" by (simp add: safe_def)
    with fleet_ok_grows [OF inv] fs_deferred(1) show ?thesis by blast
  next
    case (fs_stop w)
    with inv show ?thesis by (auto simp: fleet_ok_def)
  qed
qed

lemma fleet_reach_ok: "fleet_reach st f \<Longrightarrow> 0 \<le> ss_max_attempts st \<Longrightarrow> fleet_ok (ss_max_attempts st) f"
proof (induction rule: fleet_reach.induct)
  case fr_init
  then show ?case by (simp add: fleet_ok_def fleet_init_def cat_ok_def empty_cat_def)
next
  case (fr_step f g)
  then show ?case using fleet_step_ok by blast
qed

end
