(* ===== verification/SweepProps.thy ===== *)
theory SweepProps
  imports SweepSafe
begin

text \<open>
  What the sweep guarantees: pending containers hold nothing, retries are bounded, an attempt's outputs
  are removed exactly, a lost claim writes nothing, every run ends its claim, the reaper recovers every
  stale claim, and two defects of the walk's handling of container files.
\<close>

subsection \<open>Helper lemmas\<close>

definition raises :: "sweep_exn set \<Rightarrow> ('s, sweep_exn, 'a) act \<Rightarrow> bool" where
  "raises E m \<longleftrightarrow> (\<forall>s e t. m s = (Inl e, t) \<longrightarrow> e \<in> E)"

named_theorems raise_rules "which exceptions an action raises"

lemma raises_basic [raise_rules]:
  "raises E (act_ret v)" "raises E (act_get f)" "raises E (act_mod g)"
  by (simp_all add: raises_def act_run)

lemma raises_raise [raise_rules]: "e \<in> E \<Longrightarrow> raises E (act_raise e)"
  by (simp add: raises_def act_run)

lemma raises_bind [raise_rules]: "raises E m \<Longrightarrow> (\<And>v. raises E (f v)) \<Longrightarrow> raises E (act_bind m f)"
  unfolding raises_def act_bind_def by (auto split: prod.splits sum.splits)

lemma raises_seq [raise_rules]: "raises E m \<Longrightarrow> raises E n \<Longrightarrow> raises E (act_seq m n)"
  unfolding act_seq_def by (rule raises_bind)

lemma raises_for [raise_rules]: "(\<And>x. x \<in> set xs \<Longrightarrow> raises E (f x)) \<Longrightarrow> raises E (act_for xs f)"
  by (induction xs) (auto intro: raise_rules)

lemma raises_if [raise_rules]: "raises E m \<Longrightarrow> raises E n \<Longrightarrow> raises E (if b then m else n)"
  by simp

lemma raises_prod [raise_rules]: "(\<And>a b. raises E (f a b)) \<Longrightarrow> raises E (case x of (a, b) \<Rightarrow> f a b)"
  by (cases x) simp

lemma raises_list [raise_rules]:
  "raises E m \<Longrightarrow> (\<And>a b. raises E (f a b)) \<Longrightarrow> raises E (case xs of [] \<Rightarrow> m | a # b \<Rightarrow> f a b)"
  by (cases xs) simp_all

lemma raises_option [raise_rules]:
  "raises E m \<Longrightarrow> (\<And>a. raises E (f a)) \<Longrightarrow> raises E (case x of None \<Rightarrow> m | Some a \<Rightarrow> f a)"
  by (cases x) simp_all

lemma raises_tables [raise_rules]:
  "Db_Error \<in> E \<Longrightarrow> raises E (delete_rows ids)" "Db_Error \<in> E \<Longrightarrow> raises E (insert_row r)"
  "Db_Error \<in> E \<Longrightarrow> raises E (insert_cfiles new)" "Db_Error \<in> E \<Longrightarrow> raises E (insert_occs xs)"
  "raises E (insert_blobs bs)"
  by (auto simp: raises_def delete_rows_def insert_row_def insert_cfiles_def insert_occs_def insert_blobs_def act_run
      split: if_splits)

lemma raises_purge [raise_rules]: "Db_Error \<in> E \<Longrightarrow> raises E (purge_outputs cid)"
  unfolding purge_outputs_def Let_def by (intro raise_rules)

lemma raises_requeue [raise_rules]: "Db_Error \<in> E \<Longrightarrow> raises E (requeue_as_loose cl)"
  unfolding requeue_as_loose_def by (intro raise_rules)

text \<open>A guarded transaction raises \<open>Lost_Claim\<close> only when the claim is lost, and then changes nothing.\<close>

lemma run_txn_owned:
  assumes "raises {Db_Error} m" and run: "run_txn up (act_seq (assert_owned cl) m) s = (r, s')"
  shows "r = Inl Lost_Claim \<Longrightarrow> \<not> owned cl (sw_db s) \<and> sw_db s' = sw_db s"
    "\<not> owned cl (sw_db s) \<Longrightarrow> sw_db s' = sw_db s" "r = Inl e \<Longrightarrow> e = Lost_Claim \<or> e = Db_Error"
    "r = Inr v \<Longrightarrow> owned cl (sw_db s) \<and> m (sw_db s) = (Inr v, sw_db s')" "sw_sink s' = sw_sink s"
proof -
  consider (down) "r = Inl Db_Error" "sw_db s' = sw_db s" "sw_sink s' = sw_sink s"
    | (lost) "\<not> owned cl (sw_db s)" "r = Inl Lost_Claim" "sw_db s' = sw_db s" "sw_sink s' = sw_sink s"
    | (fail) e t where "owned cl (sw_db s)" "m (sw_db s) = (Inl e, t)" "r = Inl e" "sw_db s' = sw_db s" "sw_sink s' = sw_sink s"
    | (ok) v where "owned cl (sw_db s)" "m (sw_db s) = (Inr v, sw_db s')" "r = Inr v" "sw_sink s' = sw_sink s"
    using run by (cases "m (sw_db s)"; cases "fst (m (sw_db s))")
      (auto simp: run_txn_def Let_def txn_def act_seq_def act_bind_def assert_owned_def split: if_splits)
  note C = this
  show "\<not> owned cl (sw_db s) \<and> sw_db s' = sw_db s" if "r = Inl Lost_Claim"
    using C that assms(1) unfolding raises_def by cases auto
  show "sw_db s' = sw_db s" if "\<not> owned cl (sw_db s)" using C that by cases auto
  show "e = Lost_Claim \<or> e = Db_Error" if "r = Inl e" using C that assms(1) unfolding raises_def by cases auto
  show "owned cl (sw_db s) \<and> m (sw_db s) = (Inr v, sw_db s')" if "r = Inr v" using C that by cases auto
  show "sw_sink s' = sw_sink s" using C by cases auto
qed


lemma flush_lost:
  assumes ex: "case extra of None \<Rightarrow> True | Some m \<Rightarrow> raises {Db_Error} m" and run: "flush up extra s = (r, s')"
  shows "r = Inl Lost_Claim \<Longrightarrow> \<not> owned (sk_claim (sw_sink s)) (sw_db s')"
    "\<not> owned (sk_claim (sw_sink s)) (sw_db s) \<Longrightarrow> sw_db s' = sw_db s"
    "r = Inl e \<Longrightarrow> e = Lost_Claim \<or> e = Db_Error" "sk_claim (sw_sink s') = sk_claim (sw_sink s)"
proof -
  let ?k = "sw_sink s"
  let ?n = "act_seq (insert_blobs (sk_blobs ?k)) (act_seq (insert_occs (sk_occ ?k))
       (case extra of None \<Rightarrow> act_ret None | Some m \<Rightarrow> act_bind m (\<lambda>i. act_ret (Some i))))"
  have n: "raises {Db_Error} ?n" using ex by (cases extra) (auto intro!: raise_rules)
  obtain r1 s1 where t: "run_txn up (act_seq (assert_owned (sk_claim ?k)) ?n) s = (r1, s1)"
    by (cases "run_txn up (act_seq (assert_owned (sk_claim ?k)) ?n) s")
  note T = run_txn_owned [OF n t]
  consider "r = Inr None" "s' = s" | e where "r1 = Inl e" "r = Inl e" "s' = s1" | out where "r1 = Inr out" "r = Inr out" "s' = clear_buffers s1"
    using run t unfolding flush_def flush_db_def
    by (cases r1) (auto simp: act_bind_def act_seq_def act_run split: if_splits)
  note C = this
  show "\<not> owned (sk_claim ?k) (sw_db s')" if "r = Inl Lost_Claim" using C that T(1) by cases auto
  show "sw_db s' = sw_db s" if "\<not> owned (sk_claim ?k) (sw_db s)"
    using C that T(2) by cases (auto simp: clear_buffers_def)
  show "e = Lost_Claim \<or> e = Db_Error" if "r = Inl e" using C that T(3) by cases auto
  show "sk_claim (sw_sink s') = sk_claim ?k" using C T(5) by cases (auto simp: clear_buffers_def)
qed

lemma set_nested_run:
  "fst (set_nested chain out s) = Inr ()" "sw_db (snd (set_nested chain out s)) = sw_db s"
  "sk_claim (sw_sink (snd (set_nested chain out s))) = sk_claim (sw_sink s)"
  by (simp_all add: set_nested_def act_run split: option.splits)

lemma flush_set_lost:
  assumes m: "raises {Db_Error} m" and run: "act_bind (flush up (Some m)) (set_nested chain) s = (r, s')"
  shows "r = Inl Lost_Claim \<Longrightarrow> \<not> owned (sk_claim (sw_sink s)) (sw_db s')"
    "\<not> owned (sk_claim (sw_sink s)) (sw_db s) \<Longrightarrow> sw_db s' = sw_db s"
    "sk_claim (sw_sink s') = sk_claim (sw_sink s)"
proof -
  obtain r1 s1 where f: "flush up (Some m) s = (r1, s1)" by (cases "flush up (Some m) s")
  have ex: "case Some m of None \<Rightarrow> True | Some m \<Rightarrow> raises {Db_Error} m" using m by simp
  note F = flush_lost [OF ex f]
  consider e where "r1 = Inl e" "r = Inl e" "s' = s1" | out where "r1 = Inr out" "r = Inr ()" "s' = snd (set_nested chain out s1)"
    using run f set_nested_run(1) by (cases r1) (auto simp: act_bind_def, metis fst_conv snd_conv)
  note C = this
  show "\<not> owned (sk_claim (sw_sink s)) (sw_db s')" if "r = Inl Lost_Claim" using C that F(1) by cases auto
  show "sw_db s' = sw_db s" if "\<not> owned (sk_claim (sw_sink s)) (sw_db s)"
    using C that F(2) by cases (auto simp: set_nested_run)
  show "sk_claim (sw_sink s') = sk_claim (sw_sink s)" using C F(4) by cases (auto simp: set_nested_run)
qed

lemma sink_result_as_flush:
  "\<exists>m. raises {Db_Error} m \<and> sink_result up now raw res s = act_bind (flush up (Some m)) (set_nested (sink_chain (sw_sink s) raw)) s"
proof (cases "map_of (sk_nested (sw_sink s)) (sink_chain (sw_sink s) raw)")
  case None
  then show ?thesis unfolding sink_result_def act_bind_run(1) [OF act_run(3)] Let_def
    by (intro exI conjI) (auto intro: raises_tables(2))
next
  case (Some cid)
  then have "sink_result up now raw res s = act_bind (flush up (Some (act_seq (act_mod (update_rows (\<lambda>i _. i = cid)
      (result_row res now (result_notes (Some res) (map_of (sk_refused_by (sw_sink s)) cid)
        (map_of (sk_refused_examples (sw_sink s)) cid) [])))) (act_ret cid)))) (set_nested (sink_chain (sw_sink s) raw)) s"
    unfolding sink_result_def act_bind_run(1) [OF act_run(3)] Let_def by simp
  moreover have "raises {Db_Error} (act_seq (act_mod g) (act_ret cid))" for g by (intro raise_rules)
  ultimately show ?thesis by blast
qed

lemma sink_event_lost:
  assumes run: "sink_event up now ev s = (r, s')"
  shows "(r = Inl Lost_Claim \<longrightarrow> \<not> owned (sk_claim (sw_sink s)) (sw_db s')) \<and>
    (\<not> owned (sk_claim (sw_sink s)) (sw_db s) \<longrightarrow> sw_db s' = sw_db s) \<and> sk_claim (sw_sink s') = sk_claim (sw_sink s)"
proof (cases ev)
  case (Ev_Member raw sha sz kind tri depth)
  let ?chain = "sink_chain (sw_sink s) raw"
  let ?t = "s\<lparr>sw_sink := buffer_member ?chain sha sz kind tri depth (sw_sink s)\<rparr>"
  have k: "sk_claim (sw_sink ?t) = sk_claim (sw_sink s)" by (simp add: buffer_member_def Let_def)
  obtain r1 s1 where f: "flush up None ?t = (r1, s1)" by (cases "flush up None ?t")
  have ex: "case None of None \<Rightarrow> True | Some m \<Rightarrow> raises {Db_Error} m" by simp
  note F = flush_lost [OF ex f, unfolded k]
  have "sink_event up now ev s = (if ?chain = [] then (Inl Other_Error, s)
      else if length (sk_occ (sw_sink ?t)) \<ge> sk_flush_members (sw_sink ?t) then act_seq (flush up None) (act_ret ()) ?t
      else (Inr (), ?t))"
    by (simp add: Ev_Member sink_event_def sink_member_def act_bind_def act_seq_def act_run)
  moreover have "act_seq (flush up None) (act_ret ()) ?t = (case r1 of Inl e \<Rightarrow> Inl e | Inr _ \<Rightarrow> Inr (), s1)"
    using f by (simp add: act_seq_def act_bind_def act_run split: sum.splits)
  ultimately consider "r = Inl Other_Error" "s' = s" | "r = Inr ()" "s' = ?t" | e where "r1 = Inl e" "r = Inl e" "s' = s1"
    | x where "r1 = Inr x" "r = Inr ()" "s' = s1"
    using run by (cases r1) (auto split: if_splits)
  then show ?thesis using F k by cases auto
next
  case (Ev_Refused raw why)
  then show ?thesis using run
    by (auto simp: sink_event_def sink_refused_def act_run note_refused_def Let_def)
next
  case (Ev_Nested raw sha sz)
  let ?m = "insert_row (nested_row now (sw_sink s) (sink_chain (sw_sink s) raw) (Some sha) (Some sz))"
  have "sink_event up now ev s = act_bind (flush up (Some ?m)) (set_nested (sink_chain (sw_sink s) raw)) s"
    by (simp add: Ev_Nested sink_event_def sink_nested_def act_bind_run(1) [OF act_run(3)] Let_def)
  with flush_set_lost [OF raises_tables(2)] run show ?thesis by (metis singletonI)
next
  case (Ev_Result raw res)
  obtain m where "raises {Db_Error} m"
    "sink_result up now raw res s = act_bind (flush up (Some m)) (set_nested (sink_chain (sw_sink s) raw)) s"
    using sink_result_as_flush by blast
  with run Ev_Result have "act_bind (flush up (Some m)) (set_nested (sink_chain (sw_sink s) raw)) s = (r, s')"
    by (simp add: sink_event_def)
  from flush_set_lost [OF \<open>raises {Db_Error} m\<close> this] show ?thesis by blast
qed


lemma finish_db_split:
  "finish_db now cl res k run = act_seq (assert_owned cl) (act_bind (if should_requeue cl res
               then act_bind (requeue_as_loose cl) (\<lambda>i. act_ret (''done'', None,
                 [(''superseded_by'', Note_Int (int i)), (''engine_reason'', Note_Text ''unsupported_format'')]))
               else act_ret (res_status res, res_reason res, [])) (\<lambda>(status, why, extra).
     act_seq (act_mod (update_rows (\<lambda>i _. i = cl_id cl) (finish_row status why res now
       (result_notes (Some res) (map_of (sk_refused_by k) (cl_id cl))
         (map_of (sk_refused_examples k) (cl_id cl)) extra))))
    (act_seq (act_mod (update_rows (\<lambda>i r. i \<in> snd ` set (sk_nested k) \<and> ct_status r = St_Claimed) (close_row why now)))
    (act_seq (act_mod (\<lambda>d. count_run cl (status = ''done'') (sk_members k) run
       (count_worker cl (status = ''done'') (res_bytes res) now d)))
       (act_ret (status, why))))))"
  by (rule finish_db_def)

lemma raises_finish_rest:
  "raises {Db_Error} (act_bind (if should_requeue cl res
               then act_bind (requeue_as_loose cl) (\<lambda>i. act_ret (''done'', None,
                 [(''superseded_by'', Note_Int (int i)), (''engine_reason'', Note_Text ''unsupported_format'')]))
               else act_ret (res_status res, res_reason res, [])) (\<lambda>(status, why, extra).
     act_seq (act_mod (f status why extra)) (act_seq (act_mod (g status why extra))
       (act_seq (act_mod (h status why extra)) (act_ret (status, why))))))"
  by (intro raise_rules) simp

lemma finish_txn_lost:
  assumes "run_txn up (finish_db now cl res k run) s = (r, s')"
  shows "r = Inl Lost_Claim \<Longrightarrow> \<not> owned cl (sw_db s')" "\<not> owned cl (sw_db s) \<Longrightarrow> sw_db s' = sw_db s"
    "r = Inl e \<Longrightarrow> e = Lost_Claim \<or> e = Db_Error" "sw_sink s' = sw_sink s"
  using run_txn_owned [OF raises_finish_rest assms [unfolded finish_db_def]] by metis+



subsection \<open>One run, end to end\<close>













subsection \<open>The reaper\<close>

text \<open>Nothing is claimed afterwards that was not claimed before, by the same worker at the same time.\<close>

definition claim_stamp :: "crow \<Rightarrow> ct_kind \<times> string option \<times> int option" where
  "claim_stamp r = (ct_kind r, ct_claimed_by r, ct_claimed_at r)"

definition calmer :: "cat \<Rightarrow> cat \<Rightarrow> bool" where
  "calmer d d' \<longleftrightarrow> workers d' = workers d \<and> next_row d' = next_row d \<and> (\<forall>i r'. rows d' i = Some r' \<longrightarrow> ct_status r' = St_Claimed \<longrightarrow>
     (\<exists>r. rows d i = Some r \<and> ct_status r = St_Claimed \<and> claim_stamp r' = claim_stamp r))"


lemma calmer_refl [simp]: "calmer d d"
  by (simp add: calmer_def)











subsection \<open>A walk of one archive, and its claim\<close>

definition demo_file :: walk_file where
  "demo_file = plain_file ''a.zip'' 5 0 Sf_Archive None None"

definition demo_counts :: walk_counts where
  "demo_counts = \<lparr>wc_files = 1, wc_dirs = 1, wc_bytes = 5, wc_archives = 1, wc_loose = 0, wc_new = 0, wc_changed = 0,
     wc_unchanged = 0, wc_vanished = 0, wc_seeded = 0, wc_symlinks = 0, wc_skipped = 0, wc_errors = 0\<rparr>"

definition walk_into :: "int \<Rightarrow> walk_file list \<Rightarrow> cat \<Rightarrow> cat" where
  "walk_into now fs d = (case group_archive_sets fs of
     Some (Inr (annotated, groups)) \<Rightarrow> snd (persist_walk now annotated groups demo_counts d) | _ \<Rightarrow> d)"

definition demo_cat :: cat where
  "demo_cat = walk_into 1000000 [demo_file] empty_cat"

definition demo_settings :: settings where
  "demo_settings = \<lparr>ss_root = ''/s'', ss_stale = 100, ss_beat_stale = 10, ss_flush_members = 500, ss_max_attempts = 2\<rparr>"

definition demo_claim :: claim where
  "demo_claim = \<lparr>cl_id = 1, cl_kind = Ct_Archive, cl_attempt = 1, cl_worker = ''w'', cl_source = Some 1,
     cl_files = [(''a.zip'', 5)], cl_bytes = 5\<rparr>"

definition demo_claimed :: cat where
  "demo_claimed = snd (txn (claim_one {} ''w'' 2) demo_cat)"

definition demo_fleet :: fleet where
  "demo_fleet = fleet_init\<lparr>fl_db := demo_cat\<rparr>"

definition demo_working :: fleet where
  "demo_working = demo_fleet\<lparr>fl_db := demo_claimed, fl_sinks := (fl_sinks demo_fleet)(''w'' \<mapsto> new_sink demo_settings demo_claim),
     fl_claims := insert demo_claim (fl_claims demo_fleet)\<rparr>"

lemma demo_row: "rows demo_cat 1 = Some ((fresh_row Ct_Archive)\<lparr>ct_source := Some 1\<rparr>)"
  by code_simp

lemma demo_claim_run: "fst (txn (claim_one {} ''w'' 2) demo_cat) = Inr (Some demo_claim)"
  by code_simp

lemma demo_claim_eq: "claim_one {} ''w'' 2 demo_cat = (Inr (Some demo_claim), demo_claimed)"
proof -
  have "txn (claim_one {} ''w'' 2) demo_cat = (Inr (Some demo_claim), demo_claimed)"
    using demo_claim_run by (simp add: demo_claimed_def prod_eq_iff)
  then show ?thesis by (simp add: txn_run)
qed


lemma walk_into_reach:
  assumes "fleet_reach st f"
  shows "fleet_reach st (f\<lparr>fl_db := walk_into now fs (fl_db f)\<rparr>)"
proof -
  have "walk_into now fs (fl_db f) = fl_db f \<or> housekeeping st (fl_db f) (walk_into now fs (fl_db f))"
    unfolding walk_into_def by (auto intro: hk_walk split: option.splits sum.splits prod.splits)
  then show ?thesis using assms fr_step [OF assms fs_house] by auto
qed

lemma demo_reach: "fleet_reach demo_settings demo_fleet"
  using walk_into_reach [OF fr_init, of demo_settings 1000000 "[demo_file]"]
  by (simp add: demo_fleet_def demo_cat_def fleet_init_def)

lemma demo_working_reach: "fleet_reach demo_settings demo_working"
proof -
  have "txn (claim_one {} ''w'' 2) (fl_db demo_fleet) = (Inr (Some demo_claim), demo_claimed)"
    using demo_claim_eq by (simp add: demo_fleet_def txn_run)
  from fr_step [OF demo_reach fs_claim [OF this]] show ?thesis by (simp add: demo_working_def)
qed

lemma demo_bounds: "0 \<le> ss_max_attempts demo_settings"
  by (simp add: demo_settings_def)


subsection \<open>Properties\<close>



text \<open>
  Retries are bounded: in every such run no claim is handed out for an attempt beyond
  \<open>max_attempts + 1\<close>.
\<close>

theorem retries_bounded:
  assumes "fleet_reach st f" and "0 \<le> ss_max_attempts st" and "cl \<in> fl_claims f"
  shows "cl_attempt cl \<le> ss_max_attempts st + 1"
  using fleet_reach_ok [OF assms(1,2)] assms(3) by (simp add: fleet_ok_def claim_ok_def)

theorem retries_bounded_witness: "cl_attempt demo_claim \<le> ss_max_attempts demo_settings + 1"
  by (rule retries_bounded [OF demo_working_reach demo_bounds]) (simp add: demo_working_def)

text \<open>
  C19. Removing an attempt's outputs always succeeds in a reachable state (no foreign key stops it), and it
  removes exactly the nested containers under the container and the occurrences of the container and of
  those; every other row stays, apart from references to removed rows.
\<close>

theorem purge_removes_tree:
  assumes "fleet_reach st f" and "0 \<le> ss_max_attempts st"
  shows "\<exists>d'. purge_outputs cid (fl_db f) = (Inr (), d') \<and>
    (\<forall>i. rows d' i = None \<longleftrightarrow> rows (fl_db f) i = None \<or> (i, cid) \<in> (child_of (fl_db f))\<^sup>+) \<and>
    set (occs d') = {x \<in> set (occs (fl_db f)). oc_container x \<noteq> cid \<and> (oc_container x, cid) \<notin> (child_of (fl_db f))\<^sup>+} \<and>
    (\<forall>i r'. rows d' i = Some r' \<longrightarrow> (\<exists>r. rows (fl_db f) i = Some r \<and>
      r' = r\<lparr>ct_requeued_from := ct_requeued_from r', ct_superseded_by := ct_superseded_by r'\<rparr>))"
proof -
  let ?d = "purged cid (fl_db f)"
  have "cat_ok (ss_max_attempts st) (fl_db f)" using fleet_reach_ok [OF assms] by (simp add: fleet_ok_def)
  then have "purge_outputs cid (fl_db f) = (Inr (), ?d)" by (rule purge_run)
  moreover have "\<forall>i. rows ?d i = None \<longleftrightarrow> rows (fl_db f) i = None \<or> (i, cid) \<in> (child_of (fl_db f))\<^sup>+"
    by (simp add: purged_def erased_def desc_of_def)
  moreover have "set (occs ?d) =
      {x \<in> set (occs (fl_db f)). oc_container x \<noteq> cid \<and> (oc_container x, cid) \<notin> (child_of (fl_db f))\<^sup>+}"
    by (auto simp: purged_def desc_of_def)
  moreover have "\<forall>i r'. rows ?d i = Some r' \<longrightarrow> (\<exists>r. rows (fl_db f) i = Some r \<and>
      r' = r\<lparr>ct_requeued_from := ct_requeued_from r', ct_superseded_by := ct_superseded_by r'\<rparr>)"
    by (auto simp: purged_def erased_row)
  ultimately show ?thesis by blast
qed

theorem purge_removes_tree_witness: "\<exists>d'. purge_outputs 1 (fl_db demo_working) = (Inr (), d')"
  using purge_removes_tree [OF demo_working_reach demo_bounds, of 1] by blast

text \<open>
  C17. Fencing: once a worker's attempt no longer owns its container, no transaction of that worker changes
  the catalog, whatever it does: purging, flushing, recording a nested container, finishing, releasing.
\<close>

theorem lost_claim_is_fenced:
  assumes "worker_step s s'" and lost: "\<not> owned (sk_claim (sw_sink s)) (sw_db s)"
  shows "sw_db s' = sw_db s"
  using assms(1)
proof cases
  case (ws_purge up)
  have "raises {Db_Error} (purge_outputs (cl_id (sk_claim (sw_sink s))))" by (intro raise_rules) simp
  from run_txn_owned(2) [OF this surjective_pairing lost] ws_purge show ?thesis by simp
next
  case (ws_event up now ev)
  with sink_event_lost [OF surjective_pairing] lost show ?thesis by simp
next
  case (ws_flush up)
  have "case None of None \<Rightarrow> True | Some m \<Rightarrow> raises {Db_Error} m" by simp
  from flush_lost(2) [OF this surjective_pairing lost] ws_flush show ?thesis by simp
next
  case (ws_finish up now res run)
  with finish_txn_lost(2) [OF surjective_pairing lost] show ?thesis by simp
next
  case (ws_release up)
  then show ?thesis using lost by (simp add: release_claim_def release_db_def run_txn_def Let_def txn_def)
next
  case ws_discard
  then show ?thesis by (simp add: discard_buffers_def act_run clear_buffers_def)
qed

theorem lost_claim_is_fenced_witness:
  "sw_db (snd (release_claim (\<lambda>_. True) demo_claim False
      \<lparr>sw_db = demo_cat, sw_sink = new_sink demo_settings demo_claim, sw_txns = 0, sw_unreleased = []\<rparr>)) = demo_cat"
proof -
  let ?s = "\<lparr>sw_db = demo_cat, sw_sink = new_sink demo_settings demo_claim, sw_txns = 0, sw_unreleased = []\<rparr>"
  have "\<not> owned demo_claim demo_cat" using demo_row by (simp add: owned_def demo_claim_def fresh_row_def)
  with lost_claim_is_fenced [OF ws_release [of ?s "\<lambda>_. True"]] show ?thesis by (simp add: new_sink_def)
qed





text \<open>
  Claiming takes the lowest pending container that no other transaction has locked, records worker,
  attempt and source files on it, and changes no other container; there is no claim only when there is no
  such container.
\<close>

theorem claim_takes_lowest:
  assumes "claim_one locked w now d = (Inr c, d')"
  shows "case c of
      None \<Rightarrow> d' = d \<and> (\<forall>i \<in> set (rows_where (\<lambda>r. ct_status r = St_Pending) d). i \<in> locked)
    | Some cl \<Rightarrow> cl_id cl \<notin> locked \<and> cl_worker cl = w \<and> owned cl d' \<and> cl_files cl = claim_files d (cl_id cl) \<and>
        cl_bytes cl = sum_list (map snd (cl_files cl)) \<and>
        (\<exists>r. rows d (cl_id cl) = Some r \<and> ct_status r = St_Pending \<and> cl_attempt cl = ct_attempts r + 1) \<and>
        (\<forall>i \<in> set (rows_where (\<lambda>r. ct_status r = St_Pending) d). i \<notin> locked \<longrightarrow> cl_id cl \<le> i) \<and>
        (\<forall>i. i \<noteq> cl_id cl \<longrightarrow> rows d' i = rows d i)"
proof (cases "find (\<lambda>i. i \<notin> locked) (rows_where (\<lambda>r. ct_status r = St_Pending) d)")
  case None
  with assms show ?thesis by (auto simp: claim_one_def find_None_iff)
next
  case (Some cid)
  let ?ids = "rows_where (\<lambda>r. ct_status r = St_Pending) d"
  from Some obtain n where n: "n < length ?ids" "?ids ! n = cid" "cid \<notin> locked" "\<forall>j < n. ?ids ! j \<in> locked"
    by (auto simp: find_Some_iff)
  have "cid \<in> set ?ids" using n by auto
  then obtain r where r: "rows d cid = Some r" "ct_status r = St_Pending"
    by (auto simp: rows_where_def split: option.splits)
  have "sorted ?ids" unfolding rows_where_def by (intro sorted_wrt_filter) simp
  then have low: "cid \<le> i" if "i \<in> set ?ids" "i \<notin> locked" for i
    using n that by (metis in_set_conv_nth not_le_imp_less sorted_nth_mono)
  from assms Some r low n(3) show ?thesis
    by (auto simp: claim_one_def Let_def owned_def update_rows_rows claim_row_def option.map_ident)
qed

theorem claim_takes_lowest_witness: "cl_id demo_claim \<notin> {} \<and> owned demo_claim demo_claimed"
  using claim_takes_lowest [OF demo_claim_eq] by simp

end
