(* ===== verification/SweepDefects.thy ===== *)
theory SweepDefects
  imports SweepProps
begin



















end
