(* ===== verification/WalkTree.thy ===== *)
theory WalkTree
  imports Volumes Catalog
begin

text \<open>
  \<open>walk_tree\<close> of \<^verbatim>\<open>forge/src/forge/walker.py\<close>: threads that take directories from a shared queue, scan them, and
  add what they found to the shared lists under a lock. The state has the queue (\<open>None\<close> is the stop token), the
  count of directories not finished, and each thread's place: waiting at \<open>work.get()\<close>, holding a scanned
  directory, or returned. \<open>walk_step\<close> has one step per queue or lock operation of a thread, so its runs are all
  interleavings. What \<open>os.scandir\<close> yields in a directory is a parameter: the entries read, and whether
  reading ended with an \<open>OSError\<close>.
\<close>

datatype dir_entry = De_Symlink string | De_Dir string string | De_File walk_file | De_Other string | De_Error string

datatype found = Fd_Symlink | Fd_Skip | Fd_Dir | Fd_File walk_file | Fd_Other | Fd_Error

type_synonym listing = "string \<Rightarrow> dir_entry list \<times> bool"

datatype thread = Waiting | Holding string "found list" "string list" | Returned

record walk_state =
  ws_queue :: "string option list"
  ws_pending :: int
  ws_threads :: "thread list"
  ws_files :: "walk_file list"
  ws_counts :: walk_counts
  ws_scanned :: "string list"

subsection \<open>Scanning one directory\<close>

definition scan_entry :: "string set \<Rightarrow> dir_entry \<Rightarrow> found list \<times> string list \<Rightarrow> found list \<times> string list" where
  "scan_entry skip e acc = (case acc of (buf, extra) \<Rightarrow> (case e of
     De_Symlink _ \<Rightarrow> (buf @ [Fd_Symlink], extra)
   | De_Dir name path \<Rightarrow> if name \<in> skip then (buf @ [Fd_Skip], extra) else (buf @ [Fd_Dir], extra @ [path])
   | De_File rec \<Rightarrow> (buf @ [Fd_File rec], extra)
   | De_Other _ \<Rightarrow> (buf @ [Fd_Other], extra)
   | De_Error _ \<Rightarrow> (buf @ [Fd_Error], extra)))"

definition scan_dir :: "listing \<Rightarrow> string set \<Rightarrow> string \<Rightarrow> found list \<times> string list" where
  "scan_dir ls skip dir =
     (case ls dir of (entries, failed) \<Rightarrow>
      case fold (scan_entry skip) entries ([], []) of (buf, extra) \<Rightarrow>
      (if failed then buf @ [Fd_Error] else buf, extra))"

subsection \<open>Adding the result under the lock\<close>

definition count_found :: "found \<Rightarrow> walk_counts \<Rightarrow> walk_counts" where
  "count_found x c = (case x of
     Fd_File rec \<Rightarrow>
       (let c = c\<lparr>wc_files := wc_files c + 1, wc_bytes := wc_bytes c + wf_size rec\<rparr> in
        if wf_kind rec = Sf_Archive then c\<lparr>wc_archives := wc_archives c + 1\<rparr> else c\<lparr>wc_loose := wc_loose c + 1\<rparr>)
   | Fd_Dir \<Rightarrow> c\<lparr>wc_dirs := wc_dirs c + 1\<rparr>
   | Fd_Symlink \<Rightarrow> c\<lparr>wc_symlinks := wc_symlinks c + 1\<rparr>
   | Fd_Skip \<Rightarrow> c\<lparr>wc_skipped := wc_skipped c + 1\<rparr>
   | Fd_Error \<Rightarrow> c\<lparr>wc_errors := wc_errors c + 1\<rparr>
   | Fd_Other \<Rightarrow> c)"

definition found_file :: "found \<Rightarrow> walk_file list" where
  "found_file x = (case x of Fd_File rec \<Rightarrow> [rec] | _ \<Rightarrow> [])"

definition add_found :: "found list \<Rightarrow> walk_state \<Rightarrow> walk_state" where
  "add_found buf s = s\<lparr>ws_files := ws_files s @ concat (map found_file buf), ws_counts := fold count_found buf (ws_counts s)\<rparr>"

definition put_child :: "string \<Rightarrow> walk_state \<Rightarrow> walk_state" where
  "put_child d s = s\<lparr>ws_pending := ws_pending s + 1, ws_queue := ws_queue s @ [Some d]\<rparr>"

definition pending_done :: "walk_state \<Rightarrow> walk_state" where
  "pending_done s =
     (let s = s\<lparr>ws_pending := ws_pending s - 1\<rparr> in
      if ws_pending s = 0 then s\<lparr>ws_queue := ws_queue s @ replicate (length (ws_threads s)) None\<rparr> else s)"

definition set_thread :: "nat \<Rightarrow> thread \<Rightarrow> walk_state \<Rightarrow> walk_state" where
  "set_thread i t s = s\<lparr>ws_threads := (ws_threads s)[i := t]\<rparr>"

inductive walk_step :: "listing \<Rightarrow> string set \<Rightarrow> walk_state \<Rightarrow> walk_state \<Rightarrow> bool" for ls skip where
  get_dir: "i < length (ws_threads s) \<Longrightarrow> ws_threads s ! i = Waiting \<Longrightarrow> ws_queue s = Some d # q \<Longrightarrow> scan_dir ls skip d = (buf, extra) \<Longrightarrow>
    walk_step ls skip s (set_thread i (Holding d buf extra) (s\<lparr>ws_queue := q\<rparr>))"
| get_stop: "i < length (ws_threads s) \<Longrightarrow> ws_threads s ! i = Waiting \<Longrightarrow> ws_queue s = None # q \<Longrightarrow>
    walk_step ls skip s (set_thread i Returned (s\<lparr>ws_queue := q\<rparr>))"
| commit: "i < length (ws_threads s) \<Longrightarrow> ws_threads s ! i = Holding d buf extra \<Longrightarrow>
    walk_step ls skip s (pending_done (fold put_child extra (add_found buf
      (set_thread i Waiting (s\<lparr>ws_scanned := ws_scanned s @ [d]\<rparr>)))))"

definition walk_start :: "nat \<Rightarrow> string \<Rightarrow> walk_state" where
  "walk_start threads root = \<lparr>ws_queue = [Some root], ws_pending = 1, ws_threads = replicate threads Waiting, ws_files = [],
     ws_counts = \<lparr>wc_files = 0, wc_dirs = 0, wc_bytes = 0, wc_archives = 0, wc_loose = 0, wc_new = 0, wc_changed = 0,
       wc_unchanged = 0, wc_vanished = 0, wc_seeded = 0, wc_symlinks = 0, wc_skipped = 0, wc_errors = 0\<rparr>,
     ws_scanned = []\<rparr>"

text \<open>\<open>walk_tree\<close> raises \<open>ConfigError\<close> for no threads or a root that is not a directory; otherwise it starts
  the threads and joins them: its result is the files and counts once all have returned.\<close>

definition walk_tree :: "(string \<Rightarrow> bool) \<Rightarrow> nat \<Rightarrow> string \<Rightarrow> walk_state py" where
  "walk_tree is_dir threads root = (if threads < 1 then py_raise ConfigError
     else if \<not> is_dir root then py_raise ConfigError else py_ret (walk_start threads root))"

definition walk_ended :: "walk_state \<Rightarrow> bool" where
  "walk_ended s \<longleftrightarrow> (\<forall>t \<in> set (ws_threads s). t = Returned)"

inductive walk_reach :: "listing \<Rightarrow> string set \<Rightarrow> walk_state \<Rightarrow> walk_state \<Rightarrow> bool" for ls skip s where
  walk_refl: "walk_reach ls skip s s"
| walk_more: "walk_reach ls skip s t \<Longrightarrow> walk_step ls skip t u \<Longrightarrow> walk_reach ls skip s u"

end
