(* ===== verification/WalkTreeProps.thy ===== *)
theory WalkTreeProps
  imports WalkTree "HOL-Library.Multiset"
begin

text \<open>
  The threaded walk ends, without deadlock, with exactly the files of the tree, whatever the number of
  threads and however they interleave. The only fact used of the file system is that the tree is finite:
  \<open>fits n d\<close> says that no directory path below \<open>d\<close> is longer than \<open>n\<close>.
\<close>

definition kids :: "listing \<Rightarrow> string set \<Rightarrow> string \<Rightarrow> string list" where
  "kids ls skip d = snd (scan_dir ls skip d)"

definition items :: "listing \<Rightarrow> string set \<Rightarrow> string \<Rightarrow> found list" where
  "items ls skip d = fst (scan_dir ls skip d)"

fun fits :: "listing \<Rightarrow> string set \<Rightarrow> nat \<Rightarrow> string \<Rightarrow> bool" where
  "fits ls skip 0 d = False"
| "fits ls skip (Suc n) d = (\<forall>k \<in> set (kids ls skip d). fits ls skip n k)"

text \<open>The directories of the tree, as a sequential walk would visit them.\<close>

fun dirs :: "listing \<Rightarrow> string set \<Rightarrow> nat \<Rightarrow> string \<Rightarrow> string list" where
  "dirs ls skip 0 d = []"
| "dirs ls skip (Suc n) d = d # concat (map (dirs ls skip n) (kids ls skip d))"

lemma fits_Suc: "fits ls skip n d \<Longrightarrow> fits ls skip (Suc n) d"
proof (induction n arbitrary: d)
  case (Suc n)
  then show ?case by (metis fits.simps(2))
qed simp

lemma dirs_Suc: "fits ls skip n d \<Longrightarrow> dirs ls skip (Suc n) d = dirs ls skip n d"
proof (induction n arbitrary: d)
  case (Suc n)
  then have "dirs ls skip (Suc n) k = dirs ls skip n k" if "k \<in> set (kids ls skip d)" for k
    using that by simp
  then have "map (dirs ls skip (Suc n)) (kids ls skip d) = map (dirs ls skip n) (kids ls skip d)"
    by (simp cong: map_cong)
  then show ?case by (metis dirs.simps(2))
qed simp

lemma fits_kids: "fits ls skip n d \<Longrightarrow> k \<in> set (kids ls skip d) \<Longrightarrow> fits ls skip n k"
proof (cases n)
  case (Suc m)
  assume "fits ls skip n d" "k \<in> set (kids ls skip d)"
  then have "fits ls skip m k" by (simp add: Suc)
  then show ?thesis unfolding Suc by (rule fits_Suc)
qed simp

lemma dirs_unfold:
  assumes "fits ls skip n d"
  shows "dirs ls skip n d = d # concat (map (dirs ls skip n) (kids ls skip d))"
proof (cases n)
  case (Suc m)
  have "dirs ls skip n k = dirs ls skip m k" if "k \<in> set (kids ls skip d)" for k
    using assms that dirs_Suc unfolding Suc by simp
  then have "map (dirs ls skip n) (kids ls skip d) = map (dirs ls skip m) (kids ls skip d)" by simp
  then show ?thesis unfolding Suc by (metis dirs.simps(2))
qed (use assms in simp)

subsection \<open>What the state accounts for\<close>

lemma sum_list_set:
  fixes f :: "'x \<Rightarrow> 'm :: comm_monoid_add"
  shows "i < length xs \<Longrightarrow> sum_list (map f (xs[i := x])) + f (xs ! i) = sum_list (map f xs) + f x"
proof (induction xs arbitrary: i)
  case (Cons y ys)
  then show ?case
  proof (cases i)
    case 0
    then show ?thesis by (simp add: ac_simps)
  next
    case (Suc j)
    with Cons have "sum_list (map f (ys[j := x])) + f (ys ! j) = sum_list (map f ys) + f x" by simp
    then show ?thesis unfolding Suc by (simp add: add.assoc)
  qed
qed simp

lemma sum_list_mset_eq:
  fixes f :: "'x \<Rightarrow> 'm :: comm_monoid_add"
  assumes "mset xs = mset ys"
  shows "sum_list (map f xs) = sum_list (map f ys)"
  using arg_cong [OF assms, of "\<lambda>m. sum_mset (image_mset f m)"] by (simp add: sum_mset_sum_list flip: mset_map)

lemma sum_list_none:
  fixes f :: "'x \<Rightarrow> 'm :: comm_monoid_add"
  shows "(\<And>x. x \<in> set xs \<Longrightarrow> f x = 0) \<Longrightarrow> sum_list (map f xs) = 0"
  by (induction xs) simp_all

lemma filter_all: "length (filter P xs) = length xs \<Longrightarrow> x \<in> set xs \<Longrightarrow> P x"
  by (metis length_filter_less less_irrefl)

definition tree_mset :: "listing \<Rightarrow> string set \<Rightarrow> nat \<Rightarrow> string list \<Rightarrow> string multiset" where
  "tree_mset ls skip n ds = sum_list (map (\<lambda>d. mset (dirs ls skip n d)) ds)"

definition in_queue :: "string option \<Rightarrow> string list" where
  "in_queue x = (case x of None \<Rightarrow> [] | Some d \<Rightarrow> [d])"

definition in_hand :: "thread \<Rightarrow> string list" where
  "in_hand t = (case t of Holding d buf extra \<Rightarrow> [d] | _ \<Rightarrow> [])"

definition found_dirs :: "thread \<Rightarrow> string list" where
  "found_dirs t = (case t of Holding d buf extra \<Rightarrow> extra | _ \<Rightarrow> [])"

text \<open>Every directory of the tree is scanned, in a thread's hand, or below one that is waiting.\<close>

definition accounted :: "listing \<Rightarrow> string set \<Rightarrow> nat \<Rightarrow> walk_state \<Rightarrow> string multiset" where
  "accounted ls skip n s = mset (ws_scanned s) + sum_list (map (\<lambda>x. tree_mset ls skip n (in_queue x)) (ws_queue s)) +
     sum_list (map (\<lambda>t. mset (in_hand t) + tree_mset ls skip n (found_dirs t)) (ws_threads s))"

definition open_dirs :: "walk_state \<Rightarrow> nat" where
  "open_dirs s = sum_list (map (\<lambda>x. length (in_queue x)) (ws_queue s)) + sum_list (map (\<lambda>t. length (in_hand t)) (ws_threads s))"

definition stops :: "walk_state \<Rightarrow> nat" where
  "stops s = length (filter (\<lambda>x. x = None) (ws_queue s)) + length (filter (\<lambda>t. t = Returned) (ws_threads s))"

definition walk_inv :: "listing \<Rightarrow> string set \<Rightarrow> nat \<Rightarrow> string \<Rightarrow> walk_state \<Rightarrow> bool" where
  "walk_inv ls skip n root s \<longleftrightarrow>
     accounted ls skip n s = mset (dirs ls skip n root) \<and>
     (\<forall>d. Some d \<in> set (ws_queue s) \<longrightarrow> fits ls skip n d) \<and>
     (\<forall>d buf extra. Holding d buf extra \<in> set (ws_threads s) \<longrightarrow> fits ls skip n d \<and> scan_dir ls skip d = (buf, extra)) \<and>
     ws_pending s = int (open_dirs s) \<and>
     stops s = (if ws_pending s = 0 then length (ws_threads s) else 0) \<and>
     ws_files s = concat (map found_file (concat (map (items ls skip) (ws_scanned s)))) \<and>
     ws_counts s = fold count_found (concat (map (items ls skip) (ws_scanned s))) (ws_counts (walk_start 0 root))"

lemma walk_invI:
  assumes "accounted ls skip n s = mset (dirs ls skip n root)" and "\<And>d. Some d \<in> set (ws_queue s) \<Longrightarrow> fits ls skip n d"
    and "\<And>d buf extra. Holding d buf extra \<in> set (ws_threads s) \<Longrightarrow> fits ls skip n d \<and> scan_dir ls skip d = (buf, extra)"
    and "ws_pending s = int (open_dirs s)" and "stops s = (if ws_pending s = 0 then length (ws_threads s) else 0)"
    and "ws_files s = concat (map found_file (concat (map (items ls skip) (ws_scanned s))))"
    and "ws_counts s = fold count_found (concat (map (items ls skip) (ws_scanned s))) (ws_counts (walk_start 0 root))"
  shows "walk_inv ls skip n root s"
  unfolding walk_inv_def using assms by blast

lemma walk_invD:
  assumes "walk_inv ls skip n root s"
  shows "accounted ls skip n s = mset (dirs ls skip n root)" "Some d \<in> set (ws_queue s) \<Longrightarrow> fits ls skip n d"
    "Holding d buf extra \<in> set (ws_threads s) \<Longrightarrow> fits ls skip n d \<and> scan_dir ls skip d = (buf, extra)"
    "ws_pending s = int (open_dirs s)" "stops s = (if ws_pending s = 0 then length (ws_threads s) else 0)"
    "ws_files s = concat (map found_file (concat (map (items ls skip) (ws_scanned s))))"
    "ws_counts s = fold count_found (concat (map (items ls skip) (ws_scanned s))) (ws_counts (walk_start 0 root))"
  using assms unfolding walk_inv_def by blast+

lemma fold_put_child:
  "fold put_child ds s = s\<lparr>ws_pending := ws_pending s + int (length ds), ws_queue := ws_queue s @ map Some ds\<rparr>"
  by (induction ds arbitrary: s) (simp_all add: put_child_def)

lemma tree_mset_simps [simp]:
  "tree_mset ls skip n [] = {#}" "tree_mset ls skip n (d # ds) = mset (dirs ls skip n d) + tree_mset ls skip n ds"
  by (simp_all add: tree_mset_def)

lemma in_queue_simps [simp]: "in_queue None = []" "in_queue (Some d) = [d]"
  by (simp_all add: in_queue_def)

lemma in_hand_simps [simp]:
  "in_hand Waiting = []" "in_hand Returned = []" "in_hand (Holding d buf extra) = [d]"
  "found_dirs Waiting = []" "found_dirs Returned = []" "found_dirs (Holding d buf extra) = extra"
  by (simp_all add: in_hand_def found_dirs_def)

lemma mset_concat_map: "mset (concat (map f xs)) = sum_list (map (\<lambda>x. mset (f x)) xs)"
  by (induction xs) simp_all

lemma dirs_mset: "fits ls skip n d \<Longrightarrow> mset (dirs ls skip n d) = {#d#} + tree_mset ls skip n (kids ls skip d)"
  by (simp add: dirs_unfold mset_concat_map tree_mset_def)

lemma queue_of_dirs: "sum_list (map (\<lambda>x. tree_mset ls skip n (in_queue x)) (map Some ds)) = tree_mset ls skip n ds"
  by (induction ds) simp_all

lemma stops_set:
  assumes "i < length ts"
  shows "length (filter (\<lambda>t. t = Returned) (ts[i := t])) + (if ts ! i = Returned then 1 else 0) =
    length (filter (\<lambda>t. t = Returned) ts) + (if t = Returned then 1 else 0)"
  using sum_list_set [OF assms, of "\<lambda>t. if t = Returned then 1 else (0::nat)" t]
  by (simp add: sum_list_map_filter' [symmetric] sum_list_triv)


lemma in_set_update: "x \<in> set (ts[i := t]) \<Longrightarrow> x = t \<or> x \<in> set ts"
  using set_update_subset_insert by fastforce

subsection \<open>The steps keep the account\<close>

lemma start_inv:
  assumes "fits ls skip n root" and "0 < threads"
  shows "walk_inv ls skip n root (walk_start threads root)"
proof -
  have z: "sum_list (map f (replicate threads Waiting)) = threads * f Waiting" for f :: "thread \<Rightarrow> nat"
    by (simp add: sum_list_replicate)
  have m: "sum_list (map f (replicate threads Waiting)) = {#}" if "f Waiting = {#}" for f :: "thread \<Rightarrow> string multiset"
    using that by (induction threads) simp_all
  have e: "sum_list (replicate threads ({#} :: string multiset)) = {#}" by (induction threads) simp_all
  show ?thesis using assms
    by (simp add: walk_inv_def walk_start_def accounted_def open_dirs_def stops_def m z e set_replicate_conv_if)
qed

lemma get_dir_inv:
  assumes inv: "walk_inv ls skip n root s" and i: "i < length (ws_threads s)" "ws_threads s ! i = Waiting"
    and q: "ws_queue s = Some d # q" and sc: "scan_dir ls skip d = (buf, extra)"
  shows "walk_inv ls skip n root (set_thread i (Holding d buf extra) (s\<lparr>ws_queue := q\<rparr>))"
proof -
  let ?t = "set_thread i (Holding d buf extra) (s\<lparr>ws_queue := q\<rparr>)" and ?h = "Holding d buf extra"
  have d: "fits ls skip n d" using inv q by (auto simp: walk_inv_def)
  have k: "kids ls skip d = extra" using sc by (simp add: kids_def)
  have "accounted ls skip n ?t = accounted ls skip n s"
    using sum_list_set [OF i(1), of "\<lambda>t. mset (in_hand t) + tree_mset ls skip n (found_dirs t)" ?h] i(2)
      dirs_mset [OF d] by (simp add: accounted_def set_thread_def q k)
  moreover have "open_dirs ?t = open_dirs s"
    using sum_list_set [OF i(1), of "\<lambda>t. length (in_hand t)" ?h] i(2) by (simp add: open_dirs_def set_thread_def q)
  moreover have "stops ?t = stops s"
    using stops_set [OF i(1), of ?h] i(2) by (simp add: stops_def set_thread_def q)
  moreover have "fits ls skip n e \<and> scan_dir ls skip e = (b, x)" if "Holding e b x \<in> set (ws_threads ?t)" for e b x
  proof -
    have "Holding e b x = ?h \<or> Holding e b x \<in> set (ws_threads s)" using that in_set_update by (fastforce simp: set_thread_def)
    then show ?thesis using d sc walk_invD(3) [OF inv] by blast
  qed
  moreover have "ws_pending ?t = ws_pending s" "length (ws_threads ?t) = length (ws_threads s)" "ws_files ?t = ws_files s"
    "ws_counts ?t = ws_counts s" "ws_scanned ?t = ws_scanned s" "set (ws_queue ?t) \<subseteq> set (ws_queue s)"
    using q by (auto simp: set_thread_def)
  ultimately show ?thesis using walk_invD [OF inv] by (intro walk_invI) auto
qed

lemma get_stop_inv:
  assumes inv: "walk_inv ls skip n root s" and i: "i < length (ws_threads s)" "ws_threads s ! i = Waiting"
    and q: "ws_queue s = None # q"
  shows "walk_inv ls skip n root (set_thread i Returned (s\<lparr>ws_queue := q\<rparr>))"
proof -
  let ?t = "set_thread i Returned (s\<lparr>ws_queue := q\<rparr>)"
  have "accounted ls skip n ?t = accounted ls skip n s"
    using sum_list_set [OF i(1), of "\<lambda>t. mset (in_hand t) + tree_mset ls skip n (found_dirs t)" Returned] i(2)
    by (simp add: accounted_def set_thread_def q)
  moreover have "open_dirs ?t = open_dirs s"
    using sum_list_set [OF i(1), of "\<lambda>t. length (in_hand t)" Returned] i(2) by (simp add: open_dirs_def set_thread_def q)
  moreover have "stops ?t = stops s"
    using stops_set [OF i(1), of Returned] i(2) by (simp add: stops_def set_thread_def q)
  moreover have "fits ls skip n e \<and> scan_dir ls skip e = (b, x)" if "Holding e b x \<in> set (ws_threads ?t)" for e b x
  proof -
    have "Holding e b x \<in> set (ws_threads s)" using that in_set_update by (fastforce simp: set_thread_def)
    then show ?thesis using walk_invD(3) [OF inv] by blast
  qed
  moreover have "ws_pending ?t = ws_pending s" "length (ws_threads ?t) = length (ws_threads s)" "ws_files ?t = ws_files s"
    "ws_counts ?t = ws_counts s" "ws_scanned ?t = ws_scanned s" "set (ws_queue ?t) \<subseteq> set (ws_queue s)"
    using q by (auto simp: set_thread_def)
  ultimately show ?thesis using walk_invD [OF inv] by (intro walk_invI) auto
qed

lemma sum_hand_pos: "Holding d buf extra \<in> set ts \<Longrightarrow> 0 < sum_list (map (\<lambda>t. length (in_hand t)) ts)"
  by (induction ts) auto

lemma commit_inv:
  assumes inv: "walk_inv ls skip n root s" and i: "i < length (ws_threads s)" "ws_threads s ! i = Holding d buf extra"
  shows "walk_inv ls skip n root (pending_done (fold put_child extra (add_found buf
    (set_thread i Waiting (s\<lparr>ws_scanned := ws_scanned s @ [d]\<rparr>)))))"
proof -
  let ?h = "Holding d buf extra" and ?ts = "(ws_threads s)[i := Waiting]"
  have mem: "?h \<in> set (ws_threads s)" using i by (metis nth_mem)
  have d: "fits ls skip n d" "scan_dir ls skip d = (buf, extra)" using inv mem unfolding walk_inv_def by blast+
  have k: "kids ls skip d = extra" "items ls skip d = buf" using d(2) by (simp_all add: kids_def items_def)
  have open1: "0 < open_dirs s" using sum_hand_pos [OF mem] by (simp add: open_dirs_def)
  have pend: "ws_pending s = int (open_dirs s)" "stops s = 0" using inv open1 by (auto simp: walk_inv_def split: if_splits)
  let ?q = "ws_queue s @ map Some extra"
  have hands: "sum_list (map (\<lambda>t. length (in_hand t)) ?ts) + 1 = sum_list (map (\<lambda>t. length (in_hand t)) (ws_threads s))"
    using sum_list_set [OF i(1), of "\<lambda>t. length (in_hand t)" Waiting] i(2) by simp
  have qlen: "sum_list (map (\<lambda>x. length (in_queue x)) (map Some extra)) = length extra"
    by (induction extra) simp_all
  have opened: "int (sum_list (map (\<lambda>x. length (in_queue x)) ?q) + sum_list (map (\<lambda>t. length (in_hand t)) ?ts)) =
      ws_pending s + int (length extra) - 1"
    using hands qlen pend(1) by (simp add: open_dirs_def)
  have noQ: "filter (\<lambda>x. x = None) ?q = []" and noT: "filter (\<lambda>t. t = Returned) ?ts = []"
    using pend(2) stops_set [OF i(1), of Waiting] i(2) by (auto simp: stops_def filter_empty_conv)
  have account: "mset (ws_scanned s @ [d]) + sum_list (map (\<lambda>x. tree_mset ls skip n (in_queue x)) ?q) +
      sum_list (map (\<lambda>t. mset (in_hand t) + tree_mset ls skip n (found_dirs t)) ?ts) = accounted ls skip n s"
    using sum_list_set [OF i(1), of "\<lambda>t. mset (in_hand t) + tree_mset ls skip n (found_dirs t)" Waiting] i(2)
    unfolding accounted_def map_append sum_list_append queue_of_dirs by (simp add: add.commute add.left_commute)
  have more: "sum_list (map (\<lambda>x. tree_mset ls skip n (in_queue x)) (replicate m None)) = {#}"
    "sum_list (map (\<lambda>x. length (in_queue x)) (replicate m None)) = 0" for m
    by (induction m) simp_all
  have thr: "Holding e b x \<in> set ?ts \<Longrightarrow> Holding e b x \<in> set (ws_threads s)" for e b x
    using in_set_update by fastforce
  have fit: "Some e \<in> set ?q \<Longrightarrow> fits ls skip n e" for e
    using inv fits_kids [OF d(1)] k(1) by (auto simp: walk_inv_def)
  let ?r = "pending_done (fold put_child extra (add_found buf (set_thread i Waiting (s\<lparr>ws_scanned := ws_scanned s @ [d]\<rparr>))))"
  have r: "ws_pending ?r = ws_pending s + int (length extra) - 1" "ws_threads ?r = ?ts" "ws_scanned ?r = ws_scanned s @ [d]"
    "ws_queue ?r = ?q @ (if ws_pending ?r = 0 then replicate (length (ws_threads s)) None else [])"
    "ws_files ?r = ws_files s @ concat (map found_file buf)" "ws_counts ?r = fold count_found buf (ws_counts s)"
    by (simp_all add: fold_put_child pending_done_def Let_def add_found_def set_thread_def)
  show ?thesis
  proof (rule walk_invI)
    show "accounted ls skip n ?r = mset (dirs ls skip n root)"
      using account walk_invD(1) [OF inv] more(1) unfolding accounted_def [of _ _ _ ?r] r(2-4) by (simp add: ac_simps)
    show "ws_pending ?r = int (open_dirs ?r)" using opened more(2) unfolding open_dirs_def r(2,4) by (simp add: r(1) sum_list_replicate)
    show "stops ?r = (if ws_pending ?r = 0 then length (ws_threads ?r) else 0)"
      using noQ noT unfolding stops_def r(2,4) by simp
    show "fits ls skip n e" if "Some e \<in> set (ws_queue ?r)" for e
      using that fit unfolding r(4) by (auto split: if_splits)
    show "fits ls skip n e \<and> scan_dir ls skip e = (b, x)" if "Holding e b x \<in> set (ws_threads ?r)" for e b x
      using that thr walk_invD(3) [OF inv] unfolding r(2) by blast
    show "ws_files ?r = concat (map found_file (concat (map (items ls skip) (ws_scanned ?r))))"
      using walk_invD(6) [OF inv] unfolding r(3,5) by (simp add: k(2))
    show "ws_counts ?r = fold count_found (concat (map (items ls skip) (ws_scanned ?r))) (ws_counts (walk_start 0 root))"
      using walk_invD(7) [OF inv] unfolding r(3,6) by (simp add: k(2))
  qed
qed


lemma walk_step_inv: "walk_step ls skip s t \<Longrightarrow> walk_inv ls skip n root s \<Longrightarrow> walk_inv ls skip n root t"
  by (induction rule: walk_step.induct) (auto intro: get_dir_inv get_stop_inv commit_inv)

lemma walk_reach_inv:
  assumes "walk_reach ls skip (walk_start threads root) s" and "fits ls skip n root" and "0 < threads"
  shows "walk_inv ls skip n root s"
  using assms by (induction rule: walk_reach.induct) (auto intro: start_inv walk_step_inv)

lemma walk_step_threads: "walk_step ls skip s t \<Longrightarrow> length (ws_threads t) = length (ws_threads s)"
  by (induction rule: walk_step.induct) (simp_all add: set_thread_def fold_put_child pending_done_def Let_def add_found_def)

lemma walk_reach_threads: "walk_reach ls skip s t \<Longrightarrow> length (ws_threads t) = length (ws_threads s)"
  by (induction rule: walk_reach.induct) (simp_all add: walk_step_threads)

text \<open>A thread waits only while something is in the queue or another thread will put something there.\<close>

lemma walk_progress:
  assumes inv: "walk_inv ls skip n root s" and live: "\<not> walk_ended s"
  shows "\<exists>t. walk_step ls skip s t"
proof (cases "\<exists>i d buf extra. i < length (ws_threads s) \<and> ws_threads s ! i = Holding d buf extra")
  case True
  then show ?thesis using commit by blast
next
  case False
  then have none: "\<not> Holding d buf extra \<in> set (ws_threads s)" for d buf extra
    by (metis in_set_conv_nth)
  have hand: "t \<in> set (ws_threads s) \<Longrightarrow> in_hand t = []" for t
    using none by (cases t) auto
  from live obtain t where t: "t \<in> set (ws_threads s)" "t \<noteq> Returned" by (auto simp: walk_ended_def)
  with none have w: "t = Waiting" by (cases t) auto
  then obtain i where i: "i < length (ws_threads s)" "ws_threads s ! i = Waiting" using t by (metis in_set_conv_nth)
  have "ws_queue s \<noteq> []"
  proof
    assume q: "ws_queue s = []"
    have "open_dirs s = 0" using q hand by (simp add: open_dirs_def)
    then have "length (filter (\<lambda>t. t = Returned) (ws_threads s)) = length (ws_threads s)"
      using walk_invD(4,5) [OF inv] q by (simp add: stops_def)
    with t show False using filter_all [of "\<lambda>t. t = Returned" "ws_threads s" t] by simp
  qed
  then obtain x q where "ws_queue s = x # q" by (cases "ws_queue s") auto
  show ?thesis
  proof (cases x)
    case None
    then show ?thesis using get_stop [OF i] \<open>ws_queue s = x # q\<close> by blast
  next
    case (Some d)
    then show ?thesis
      using get_dir [OF i, of d q ls skip "fst (scan_dir ls skip d)" "snd (scan_dir ls skip d)"] \<open>ws_queue s = x # q\<close> by auto
  qed
qed

text \<open>A directory costs two steps, a thread's return one.\<close>

definition thread_cost :: "listing \<Rightarrow> string set \<Rightarrow> nat \<Rightarrow> thread \<Rightarrow> nat" where
  "thread_cost ls skip n t = (case t of Waiting \<Rightarrow> 1 | Returned \<Rightarrow> 0
     | Holding d buf extra \<Rightarrow> 2 + 2 * size (tree_mset ls skip n extra))"

definition steps_left :: "listing \<Rightarrow> string set \<Rightarrow> nat \<Rightarrow> walk_state \<Rightarrow> nat" where
  "steps_left ls skip n s = 2 * sum_list (map (\<lambda>x. size (tree_mset ls skip n (in_queue x))) (ws_queue s)) +
     sum_list (map (thread_cost ls skip n) (ws_threads s))"

lemma thread_cost_simps [simp]:
  "thread_cost ls skip n Waiting = 1" "thread_cost ls skip n Returned = 0"
  "thread_cost ls skip n (Holding d buf extra) = 2 + 2 * size (tree_mset ls skip n extra)"
  by (simp_all add: thread_cost_def)

lemma size_queue: "sum_list (map (\<lambda>x. size (tree_mset ls skip n (in_queue x))) (map Some ds)) = size (tree_mset ls skip n ds)"
  by (induction ds) simp_all

lemma steps_left_decreases:
  assumes "walk_step ls skip s t" and inv: "walk_inv ls skip n root s"
  shows "Suc (steps_left ls skip n t) = steps_left ls skip n s"
  using assms(1)
proof cases
  case (get_dir i d q buf extra)
  have d: "fits ls skip n d" using walk_invD(2) [OF inv] get_dir(4) by simp
  have "size (mset (dirs ls skip n d)) = 1 + size (tree_mset ls skip n extra)"
    unfolding dirs_mset [OF d] using get_dir(5) by (simp add: kids_def)
  then show ?thesis
    using sum_list_set [OF get_dir(2), of "thread_cost ls skip n" "Holding d buf extra"] get_dir
    by (simp add: steps_left_def set_thread_def)
next
  case (get_stop i q)
  then show ?thesis
    using sum_list_set [OF get_stop(2), of "thread_cost ls skip n" Returned]
    by (simp add: steps_left_def set_thread_def)
next
  case (commit i d buf extra)
  have "sum_list (map (\<lambda>x. size (tree_mset ls skip n (in_queue x))) (replicate m None)) = 0" for m
    by (induction m) simp_all
  moreover have "ws_queue t = ws_queue s @ map Some extra @ replicate (if ws_pending t = 0 then length (ws_threads s) else 0) None"
    "ws_threads t = (ws_threads s)[i := Waiting]"
    unfolding commit(1) by (simp_all add: fold_put_child pending_done_def Let_def add_found_def set_thread_def)
  ultimately show ?thesis
    using sum_list_set [OF commit(2), of "thread_cost ls skip n" Waiting] commit(3) size_queue [of ls skip n extra]
    by (simp add: steps_left_def sum_list_replicate del: map_map)
qed

lemma steps_left_start: "steps_left ls skip n (walk_start threads root) = 2 * length (dirs ls skip n root) + threads"
  by (simp add: steps_left_def walk_start_def sum_list_replicate)

lemma walk_steps_bound:
  "(walk_step ls skip ^^ k) s t \<Longrightarrow> walk_inv ls skip n root s \<Longrightarrow> walk_inv ls skip n root t \<and> k + steps_left ls skip n t = steps_left ls skip n s"
proof (induction k arbitrary: t)
  case 0
  then show ?case by simp
next
  case (Suc k)
  then obtain u where u: "(walk_step ls skip ^^ k) s u" "walk_step ls skip u t" by auto
  with Suc.IH [OF u(1) Suc.prems(2)] walk_step_inv steps_left_decreases show ?case by fastforce
qed

lemma counts_additive:
  "wc_files (fold count_found xs c) = wc_files c + int (length (concat (map found_file xs))) \<and>
   wc_bytes (fold count_found xs c) = wc_bytes c + sum_list (map wf_size (concat (map found_file xs)))"
  by (induction xs arbitrary: c) (auto simp: count_found_def found_file_def Let_def split: found.splits)

subsection \<open>A concrete walk\<close>

text \<open>One thread, a root with one file and one directory.\<close>

definition small_listing :: listing where
  "small_listing d = (if d = ''r'' then ([De_File (plain_file ''a'' 5 0 Sf_Loose None None), De_Dir ''s'' ''t''], False) else ([], False))"

lemma small_walk:
  "(walk_step small_listing {} ^^ 5) (walk_start 1 ''r'')
     \<lparr>ws_queue = [], ws_pending = 0, ws_threads = [Returned], ws_files = [plain_file ''a'' 5 0 Sf_Loose None None],
      ws_counts = (ws_counts (walk_start 0 ''r''))\<lparr>wc_files := 1, wc_bytes := 5, wc_loose := 1, wc_dirs := 1\<rparr>,
      ws_scanned = [''r'', ''t'']\<rparr>" (is "(?step ^^ 5) ?s ?t")
proof -
  let ?f = "plain_file ''a'' 5 0 Sf_Loose None None"
  let ?h = "Holding ''r'' [Fd_File ?f, Fd_Dir] [''t'']"
  let ?a = "?s\<lparr>ws_queue := [], ws_threads := [?h]\<rparr>"
  let ?c = "(ws_counts ?s)\<lparr>wc_files := 1, wc_bytes := 5, wc_loose := 1, wc_dirs := 1\<rparr>"
  let ?b = "?s\<lparr>ws_queue := [Some ''t''], ws_files := [?f], ws_counts := ?c, ws_scanned := [''r'']\<rparr>"
  let ?d = "?b\<lparr>ws_queue := [], ws_threads := [Holding ''t'' [] []]\<rparr>"
  let ?e = "?b\<lparr>ws_queue := [None], ws_pending := 0, ws_scanned := [''r'', ''t'']\<rparr>"
  note defs = walk_start_def set_thread_def scan_dir_def scan_entry_def small_listing_def pending_done_def put_child_def
    add_found_def count_found_def found_file_def plain_file_def Let_def
  have "?step ?s ?a" using walk_step.get_dir [of 0 ?s "''r''" "[]" small_listing "{}" "[Fd_File ?f, Fd_Dir]" "[''t'']"]
    by (simp add: defs)
  moreover have "?step ?a ?b" using walk_step.commit [of 0 ?a "''r''" "[Fd_File ?f, Fd_Dir]" "[''t'']" small_listing "{}"]
    by (simp add: defs)
  moreover have "?step ?b ?d" using walk_step.get_dir [of 0 ?b "''t''" "[]" small_listing "{}" "[]" "[]"]
    by (simp add: defs)
  moreover have "?step ?d ?e" using walk_step.commit [of 0 ?d "''t''" "[]" "[]" small_listing "{}"]
    by (simp add: defs)
  moreover have "?step ?e ?t" using walk_step.get_stop [of 0 ?e "[]" small_listing "{}"]
    by (simp add: defs)
  ultimately show ?thesis by (auto simp: numeral_eq_Suc relcompp_apply)
qed

lemma walk_reach_steps: "(walk_step ls skip ^^ k) s t \<Longrightarrow> walk_reach ls skip s t"
  by (induction k arbitrary: t) (auto intro: walk_reach.intros)

lemma small_fits: "fits small_listing {} 2 ''r''"
  by (simp add: numeral_eq_Suc kids_def scan_dir_def scan_entry_def small_listing_def)

subsection \<open>Properties\<close>

definition tree_files :: "listing \<Rightarrow> string set \<Rightarrow> nat \<Rightarrow> string \<Rightarrow> walk_file list" where
  "tree_files ls skip n root = concat (map found_file (concat (map (items ls skip) (dirs ls skip n root))))"

lemma ended_account:
  assumes inv: "walk_inv ls skip n root s" and thr: "ws_threads s \<noteq> []" and fin: "walk_ended s"
  shows "mset (ws_scanned s) = mset (dirs ls skip n root)"
proof -
  have r: "filter (\<lambda>t. t = Returned) (ws_threads s) = ws_threads s" using fin by (simp add: walk_ended_def)
  have "ws_pending s = 0" using walk_invD(5) [OF inv] r thr by (auto simp: stops_def split: if_splits)
  then have o: "open_dirs s = 0" using walk_invD(4) [OF inv] by simp
  have q: "in_queue x = []" if "x \<in> set (ws_queue s)" for x using o that by (simp add: open_dirs_def)
  then have "sum_list (map (\<lambda>x. tree_mset ls skip n (in_queue x)) (ws_queue s)) = {#}"
    by (intro sum_list_none) simp
  moreover have "sum_list (map (\<lambda>t. mset (in_hand t) + tree_mset ls skip n (found_dirs t)) (ws_threads s)) = {#}"
    by (rule sum_list_none) (use fin in \<open>auto simp: walk_ended_def\<close>)
  ultimately show ?thesis using walk_invD(1) [OF inv] by (simp add: accounted_def)
qed

text \<open>
  C25. When all threads have returned, every directory of the tree below the root was scanned exactly once, the
  collected files are exactly the files of those directories (each as often as it is listed), and the file
  and byte counts are theirs, for any number of threads and any interleaving of their queue and lock
  operations.
\<close>

theorem walk_finds_the_tree:
  assumes "fits ls skip n root" and "0 < threads" and "walk_reach ls skip (walk_start threads root) s" and "walk_ended s"
  shows "mset (ws_scanned s) = mset (dirs ls skip n root) \<and> mset (ws_files s) = mset (tree_files ls skip n root) \<and>
    wc_files (ws_counts s) = int (length (tree_files ls skip n root)) \<and>
    wc_bytes (ws_counts s) = sum_list (map wf_size (tree_files ls skip n root))"
proof -
  have inv: "walk_inv ls skip n root s" by (rule walk_reach_inv [OF assms(3,1,2)])
  have "ws_threads s \<noteq> []" using walk_reach_threads [OF assms(3)] assms(2) by (auto simp: walk_start_def)
  then have m: "mset (ws_scanned s) = mset (dirs ls skip n root)" by (rule ended_account [OF inv _ assms(4)])
  have flat: "concat (map found_file (concat (map (items ls skip) ds))) =
      concat (map (\<lambda>d. concat (map found_file (items ls skip d))) ds)" for ds
    by (induction ds) simp_all
  have f: "mset (ws_files s) = mset (tree_files ls skip n root)"
    unfolding walk_invD(6) [OF inv] tree_files_def flat mset_concat_map by (rule sum_list_mset_eq [OF m])
  have "length (ws_files s) = length (tree_files ls skip n root)"
    "sum_list (map wf_size (ws_files s)) = sum_list (map wf_size (tree_files ls skip n root))"
    using mset_eq_length [OF f] sum_list_mset_eq [OF f] by blast+
  then show ?thesis using m f walk_invD(6,7) [OF inv] counts_additive
    by (simp add: walk_start_def)
qed

theorem walk_finds_the_tree_witness:
  "mset [''r'', ''t''] = mset (dirs small_listing {} 2 ''r'') \<and> length (tree_files small_listing {} 2 ''r'') = 1"
  using walk_finds_the_tree [OF small_fits _ walk_reach_steps [OF small_walk]] by (simp add: walk_ended_def)

text \<open>
  C26. The walk always ends and never deadlocks: every run of the threads takes at most two steps per
  directory and one per thread, and a run that cannot continue has all threads returned.
\<close>

theorem walk_terminates:
  assumes "fits ls skip n root" and "0 < threads" and "(walk_step ls skip ^^ k) (walk_start threads root) s"
  shows "k \<le> 2 * length (dirs ls skip n root) + threads \<and> ((\<exists>t. walk_step ls skip s t) \<or> walk_ended s)"
proof -
  have "walk_inv ls skip n root (walk_start threads root)" by (rule start_inv [OF assms(1,2)])
  from walk_steps_bound [OF assms(3) this] steps_left_start [of ls skip n threads root] walk_progress
  show ?thesis by fastforce
qed

theorem walk_terminates_witness:
  "(5::nat) \<le> 2 * length (dirs small_listing {} 2 ''r'') + 1"
  using walk_terminates [OF small_fits _ small_walk] by simp

end
