(* ===== verification/PackUnits.thy ===== *)
theory PackUnits
  imports Catalog
begin

text \<open>
  \<^verbatim>\<open>packs/units.py\<close>: the resolution units planned from the catalog. \<open>root_of_dir\<close> threads the memo table of
  \<open>ModelRoots\<close>, its loop over parent folders is \<open>root_loop\<close> (\<open>None\<close> when it does not end, which
  \<open>posixpath.dirname\<close> of an absolute path would cause). \<open>plan_units\<close> follows the loops of the code
  over insertion-ordered dictionaries; \<open>load_plan\<close> feeds it the tables of the catalog.
\<close>

record unit_spec =
  us_key :: string
  us_kind :: string
  us_path :: string
  us_model_root :: "string option"
  us_root_container :: "nat option"
  us_complete :: bool
  us_coloc :: "string option"
  us_files :: "nat list"
  us_loose_paths :: "string list"
  us_containers :: "nat list"

record source_row =
  sr_id :: nat
  sr_path :: string
  sr_kind :: source_kind

record container_row =
  cr_id :: nat
  cr_kind :: ct_kind
  cr_source :: "nat option"
  cr_parent :: "nat option"
  cr_status :: ct_status
  cr_requeued_from :: "nat option"
  cr_superseded_by :: "nat option"

subsection \<open>Model roots\<close>

definition MODEL_ROOT_MARKER :: string where
  "MODEL_ROOT_MARKER = ''datapackage.json''"

definition TERMINAL :: "ct_status set" where
  "TERMINAL = {St_Done, St_Failed}"

text \<open>\<open>posixpath.dirname\<close>.\<close>

definition dir_name :: "string \<Rightarrow> string" where
  "dir_name p =
     (let head = rev (dropWhile (\<lambda>x. x \<noteq> CHR ''/'') (rev p)) in
      if list_all (\<lambda>x. x = CHR ''/'') head then head else rev (dropWhile (\<lambda>x. x = CHR ''/'') (rev head)))"

definition under :: "string \<Rightarrow> string \<Rightarrow> bool" where
  "under d root \<longleftrightarrow> d = root \<or> root = [] \<or> take (length root + 1) d = root @ ''/''"

record model_roots =
  mr_dirs :: "string set"
  mr_memo :: "(string, string option) dict"

definition model_roots_init :: "string list \<Rightarrow> model_roots" where
  "model_roots_init paths =
     \<lparr>mr_dirs = set (map dir_name (filter (\<lambda>p. base_name p = MODEL_ROOT_MARKER) paths)), mr_memo = []\<rparr>"

partial_function (option) root_loop :: "model_roots \<Rightarrow> string list \<Rightarrow> string option \<Rightarrow> (string list \<times> string option) py" where
  "root_loop mr chain cur = (case cur of
     None \<Rightarrow> py_ret (chain, None)
   | Some c \<Rightarrow> (case map_of (mr_memo mr) c of
       Some f \<Rightarrow> py_ret (chain, f)
     | None \<Rightarrow> if c \<in> mr_dirs mr then py_ret (chain @ [c], Some c)
         else root_loop mr (chain @ [c]) (if c = [] then None else Some (dir_name c))))"

definition remember :: "string option \<Rightarrow> string \<Rightarrow> (string, string option) dict \<Rightarrow> (string, string option) dict" where
  "remember f c memo = AList.update c (case f of None \<Rightarrow> None | Some r \<Rightarrow> if under c r then Some r else None) memo"

definition root_of_dir :: "model_roots \<Rightarrow> string \<Rightarrow> (string option \<times> model_roots) py" where
  "root_of_dir mr d = (case map_of (mr_memo mr) d of
     Some r \<Rightarrow> py_ret (r, mr)
   | None \<Rightarrow>
       py_bind (root_loop mr [] (Some d)) (\<lambda>(chain, f).
       let mr2 = mr\<lparr>mr_memo := fold (remember f) chain (mr_memo mr)\<rparr> in
       py_bind (dict_index (mr_memo mr2) d) (\<lambda>r. py_ret (r, mr2))))"

subsection \<open>The plan\<close>

definition by_id :: "('r \<Rightarrow> 'k) \<Rightarrow> 'r list \<Rightarrow> ('k, 'r) dict" where
  "by_id key rs = fold (\<lambda>r. AList.update (key r) r) rs []"

type_synonym conts = "(nat, container_row) dict"

definition requeued_ids :: "conts \<Rightarrow> nat set" where
  "requeued_ids cont = {i. i \<noteq> 0 \<and> Some i \<in> set (map (cr_requeued_from \<circ> snd) cont)}"

fun top_of :: "conts \<Rightarrow> nat \<Rightarrow> nat \<Rightarrow> nat py" where
  "top_of cont 0 cid = py_ret cid"
| "top_of cont (Suc n) cid =
     py_bind (dict_index cont cid) (\<lambda>c. case cr_parent c of
       None \<Rightarrow> py_ret cid
     | Some p \<Rightarrow> if p \<in> set (dict_keys cont) then top_of cont n p else py_ret cid)"

definition subtrees :: "conts \<Rightarrow> (nat, nat list) dict py" where
  "subtrees cont = py_fold (\<lambda>c sub. if cr_kind c = Ct_Nested
     then py_bind (top_of cont 64 (cr_id c)) (\<lambda>t. py_ret (dict_push t (cr_id c) sub)) else py_ret sub)
     (map snd cont) []"

definition archive_tops :: "conts \<Rightarrow> container_row list" where
  "archive_tops cont = sort_key cr_id (filter (\<lambda>c. cr_kind c = Ct_Archive \<and> cr_parent c = None \<and>
     cr_id c \<notin> requeued_ids cont \<and> cr_superseded_by c = None) (map snd cont))"

definition push_file :: "conts \<Rightarrow> nat \<times> nat \<Rightarrow> (nat, nat list) dict \<times> (nat, nat list) dict \<Rightarrow>
    (nat, nat list) dict \<times> (nat, nat list) dict" where
  "push_file cont cs acc = (case cs of (cid, sid) \<Rightarrow> case acc of (files, batches) \<Rightarrow>
     (dict_push cid sid files,
      case map_of cont cid of
        None \<Rightarrow> batches
      | Some c \<Rightarrow> if cr_kind c = Ct_Loose then dict_push sid cid batches else batches))"

type_synonym item_sets = "(string, string set) dict"

definition add_item :: "string option \<Rightarrow> string \<Rightarrow> item_sets \<Rightarrow> item_sets" where
  "add_item root it its = (case root of None \<Rightarrow> its | Some r \<Rightarrow> AList.update r (insert it (dict_get its r {})) its)"

type_synonym arch_info = "container_row \<times> string \<times> string option"
type_synonym loose_info = "source_row \<times> string \<times> string option"

definition arch_step :: "(nat, source_row) dict \<Rightarrow> container_row \<Rightarrow> model_roots \<times> item_sets \<times> arch_info list \<Rightarrow>
    (model_roots \<times> item_sets \<times> arch_info list) py" where
  "arch_step src c acc = (case acc of (mr, its, infos) \<Rightarrow>
     case (case cr_source c of None \<Rightarrow> None | Some i \<Rightarrow> if i = 0 then None else map_of src i) of
       None \<Rightarrow> py_ret acc
     | Some first \<Rightarrow>
         py_bind (root_of_dir mr (dir_name (sr_path first))) (\<lambda>(root, mr2).
         py_ret (mr2, add_item root (''a:'' @ sr_path first) its, infos @ [(c, sr_path first, root)])))"

definition loose_scan :: "(nat, source_row) dict \<Rightarrow> nat \<Rightarrow> model_roots \<times> item_sets \<times> loose_info list \<Rightarrow>
    (model_roots \<times> item_sets \<times> loose_info list) py" where
  "loose_scan src sid acc = (case acc of (mr, its, infos) \<Rightarrow>
     case map_of src sid of
       None \<Rightarrow> py_ret acc
     | Some s \<Rightarrow>
         let d = dir_name (sr_path s) in
         py_bind (root_of_dir mr d) (\<lambda>(root, mr2).
         py_ret (mr2, add_item root (''d:'' @ d) its, infos @ [(s, d, root)])))"

definition bundles_of :: "int \<Rightarrow> item_sets \<Rightarrow> string set" where
  "bundles_of bundle_items its = fst ` set (filter (\<lambda>(r, xs). bundle_items < int (card xs)) its)"

definition coloc_of :: "string set \<Rightarrow> string option \<Rightarrow> string option" where
  "coloc_of bundles root = (case root of None \<Rightarrow> None | Some r \<Rightarrow> if r \<in> bundles then None else Some r)"

fun all_terminal :: "conts \<Rightarrow> nat list \<Rightarrow> bool py" where
  "all_terminal cont [] = py_ret True"
| "all_terminal cont (x # xs) =
     py_bind (dict_index cont x) (\<lambda>c. if cr_status c \<in> TERMINAL then all_terminal cont xs else py_ret False)"

definition arch_unit :: "conts \<Rightarrow> (nat, nat list) dict \<Rightarrow> (nat, nat list) dict \<Rightarrow> string set \<Rightarrow> arch_info \<Rightarrow> unit_spec py" where
  "arch_unit cont sub files bundles info = (case info of (c, path, root) \<Rightarrow>
     let tree = cr_id c # dict_get sub (cr_id c) [] in
     py_bind (all_terminal cont tree) (\<lambda>complete.
     py_ret \<lparr>us_key = ''archive:'' @ path, us_kind = ''archive'', us_path = path, us_model_root = root,
       us_root_container = Some (cr_id c), us_complete = complete, us_coloc = coloc_of bundles root,
       us_files = sort (case map_of files (cr_id c) of Some fs \<Rightarrow> fs | None \<Rightarrow> (case cr_source c of None \<Rightarrow> [] | Some i \<Rightarrow> [i])),
       us_loose_paths = [], us_containers = tree\<rparr>))"

definition fresh_loose :: "string \<Rightarrow> string option \<Rightarrow> string option \<Rightarrow> unit_spec" where
  "fresh_loose folder root coloc = \<lparr>us_key = ''loose:'' @ folder, us_kind = ''loose'', us_path = folder, us_model_root = root,
     us_root_container = None, us_complete = True, us_coloc = coloc, us_files = [], us_loose_paths = [], us_containers = []\<rparr>"

definition add_batch :: "conts \<Rightarrow> nat \<Rightarrow> unit_spec \<Rightarrow> unit_spec py" where
  "add_batch cont b u =
     (let u = (if b \<in> set (us_containers u) then u else u\<lparr>us_containers := us_containers u @ [b]\<rparr>) in
      py_bind (dict_index cont b) (\<lambda>c. py_ret (if cr_status c \<in> TERMINAL then u else u\<lparr>us_complete := False\<rparr>)))"

definition loose_step :: "conts \<Rightarrow> (nat, nat list) dict \<Rightarrow> string set \<Rightarrow> loose_info \<Rightarrow> (string, unit_spec) dict \<Rightarrow>
    (string, unit_spec) dict py" where
  "loose_step cont batches bundles info lu = (case info of (s, d, root) \<Rightarrow>
     let coloc = coloc_of bundles root;
         folder = (case coloc of None \<Rightarrow> d | Some r \<Rightarrow> r);
         key = ''loose:'' @ folder;
         u = (case map_of lu key of None \<Rightarrow> fresh_loose folder root coloc | Some u \<Rightarrow> u);
         u = u\<lparr>us_files := us_files u @ [sr_id s], us_loose_paths := us_loose_paths u @ [sr_path s]\<rparr> in
     py_bind (dict_index batches (sr_id s)) (\<lambda>bs.
     py_bind (py_fold (add_batch cont) bs u) (\<lambda>u.
     py_ret (AList.update key u lu))))"

definition push_new :: "'a \<Rightarrow> 'a list \<Rightarrow> 'a list py" where
  "push_new x xs = py_ret (xs @ [x])"

definition plan_units :: "source_row list \<Rightarrow> container_row list \<Rightarrow> (nat \<times> nat) list \<Rightarrow> int \<Rightarrow> unit_spec list py" where
  "plan_units sources containers container_files bundle_items =
     (let src = by_id sr_id sources; cont = by_id cr_id containers;
          roots = model_roots_init (map (sr_path \<circ> snd) src) in
      case fold (push_file cont) container_files ([], []) of (files, batches) \<Rightarrow>
      py_bind (subtrees cont) (\<lambda>sub.
      py_bind (py_fold (arch_step src) (archive_tops cont) (roots, [], [])) (\<lambda>(roots, its, arch).
      py_bind (py_fold (loose_scan src) (dict_keys batches) (roots, its, [])) (\<lambda>(roots, its, loose).
      let bundles = bundles_of bundle_items its in
      py_bind (py_fold (\<lambda>info us. py_bind (arch_unit cont sub files bundles info) (\<lambda>u. push_new u us)) arch []) (\<lambda>units.
      py_bind (py_fold (loose_step cont batches bundles) (sort_key (sr_path \<circ> fst) loose) []) (\<lambda>lu.
      py_fold (\<lambda>k us. py_bind (dict_index lu k) (\<lambda>u. push_new u us)) (sort (dict_keys lu)) units))))))"

subsection \<open>Reading the catalog\<close>

definition source_rows :: "cat \<Rightarrow> source_row list" where
  "source_rows d = map (\<lambda>i. case the (sfiles d i) of s \<Rightarrow> \<lparr>sr_id = i, sr_path = sf_path s, sr_kind = sf_kind s\<rparr>)
     (filter (\<lambda>i. case sfiles d i of None \<Rightarrow> False | Some s \<Rightarrow> sf_present s) [1..<next_sfile d])"

definition container_rows :: "cat \<Rightarrow> container_row list" where
  "container_rows d = map (\<lambda>i. case the (rows d i) of r \<Rightarrow> \<lparr>cr_id = i, cr_kind = ct_kind r, cr_source = ct_source r,
     cr_parent = ct_parent r, cr_status = ct_status r, cr_requeued_from = ct_requeued_from r,
     cr_superseded_by = ct_superseded_by r\<rparr>) (row_ids d)"

definition load_plan :: "cat \<Rightarrow> int \<Rightarrow> unit_spec list py" where
  "load_plan d bundle_items =
     plan_units (source_rows d) (container_rows d) (map (\<lambda>(c, s, _). (c, s)) (cfiles d)) bundle_items"

end
