(* ===== verification/PackUnitsProps.thy ===== *)
theory PackUnitsProps
  imports PackUnits "HOL-Library.Multiset"
begin

text \<open>
  \<open>ModelRoots\<close> computes the deepest folder with a marker whatever was asked before, and \<open>plan_units\<close> puts every
  present file of a loose batch into exactly one loose unit, below the folder of that unit.
\<close>

subsection \<open>Folders of a relative path\<close>

definition segs :: "string \<Rightarrow> string list" where
  "segs d = (if d = [] then [] else split_on (CHR ''/'') d)"

definition tidy :: "string \<Rightarrow> bool" where
  "tidy d \<longleftrightarrow> [] \<notin> set (segs d)"

definition anc :: "string list \<Rightarrow> nat \<Rightarrow> string" where
  "anc ws n = join_on (CHR ''/'') (take n ws)"

text \<open>The folder itself, its parent, and so on up to the root of the library.\<close>

definition ancestors :: "string \<Rightarrow> string list" where
  "ancestors d = map (anc (segs d)) (rev [0..<Suc (length (segs d))])"

definition deepest :: "string set \<Rightarrow> string \<Rightarrow> string option" where
  "deepest marked d = find (\<lambda>a. a \<in> marked) (ancestors d)"

definition clean :: "string list \<Rightarrow> bool" where
  "clean ws \<longleftrightarrow> (\<forall>w \<in> set ws. w \<noteq> [] \<and> CHR ''/'' \<notin> set w)"

lemma clean_segs: "tidy d \<Longrightarrow> clean (segs d)"
  using split_on_parts by (auto simp: clean_def tidy_def segs_def)

lemma clean_take: "clean ws \<Longrightarrow> clean (take n ws)"
  by (auto simp: clean_def dest: in_set_takeD)

lemma clean_Nil [simp]: "clean []" and clean_Cons [simp]: "clean (w # ws) \<longleftrightarrow> w \<noteq> [] \<and> CHR ''/'' \<notin> set w \<and> clean ws"
  by (auto simp: clean_def)

lemma clean_append [simp]: "clean (vs @ ws) \<longleftrightarrow> clean vs \<and> clean ws"
  by (auto simp: clean_def)

lemma join_snoc: "ws \<noteq> [] \<Longrightarrow> join_on c (ws @ [w]) = join_on c ws @ c # w"
  by (induction ws rule: induct_list012) (auto simp: join_on_Cons)

lemma join_nonempty: "clean ws \<Longrightarrow> ws \<noteq> [] \<Longrightarrow> join_on (CHR ''/'') ws \<noteq> [] \<and> hd (join_on (CHR ''/'') ws) \<noteq> CHR ''/'' \<and>
    last (join_on (CHR ''/'') ws) \<noteq> CHR ''/''"
proof (induction ws rule: rev_induct)
  case (snoc w ws)
  have w: "w \<noteq> []" "last w \<noteq> CHR ''/''" "hd w \<noteq> CHR ''/''"
    using snoc.prems by (auto simp: clean_def) (metis last_in_set, metis hd_in_set)
  show ?case
  proof (cases "ws = []")
    case False
    then show ?thesis using snoc w by (simp add: join_snoc hd_append)
  qed (use w in simp)
qed simp

lemma join_segs [simp]: "join_on (CHR ''/'') (segs d) = d"
  by (simp add: segs_def)

lemma segs_join: "clean ws \<Longrightarrow> segs (join_on (CHR ''/'') ws) = ws"
  using join_nonempty [of ws] split_join_on [of ws "CHR ''/''"] by (cases "ws = []") (auto simp: segs_def clean_def)

lemma dir_name_join:
  assumes "clean (ws @ [w])"
  shows "dir_name (join_on (CHR ''/'') (ws @ [w])) = join_on (CHR ''/'') ws"
proof (cases "ws = []")
  case True
  have "dropWhile (\<lambda>x. x \<noteq> CHR ''/'') (rev w) = []" using assms by (auto simp: dropWhile_eq_Nil_conv)
  then show ?thesis unfolding dir_name_def True by (simp del: dropWhile_eq_Nil_conv)
next
  case False
  let ?j = "join_on (CHR ''/'') ws"
  have j: "?j \<noteq> []" "hd ?j \<noteq> CHR ''/''" "last ?j \<noteq> CHR ''/''" using join_nonempty assms False by auto
  have "dropWhile (\<lambda>x. x \<noteq> CHR ''/'') (rev w @ CHR ''/'' # rev ?j) = CHR ''/'' # rev ?j"
    using assms by (subst dropWhile_append3) (auto simp: dropWhile_append2)
  then have h: "rev (dropWhile (\<lambda>x. x \<noteq> CHR ''/'') (rev (?j @ CHR ''/'' # w))) = ?j @ ''/''" by simp
  have "\<not> list_all (\<lambda>x. x = CHR ''/'') (?j @ ''/'')" 
    using j(2) hd_in_set [OF j(1)] unfolding list_all_iff set_append by blast
  moreover have "dropWhile (\<lambda>x. x = CHR ''/'') (rev (?j @ ''/'')) = rev ?j"
    using j by (cases "rev ?j") (auto simp: hd_rev)
  moreover have "join_on (CHR ''/'') (ws @ [w]) = ?j @ CHR ''/'' # w" by (rule join_snoc [OF False])
  ultimately show ?thesis by (simp only: dir_name_def Let_def h if_False rev_rev_ident)
qed

lemma dir_anc: "clean ws \<Longrightarrow> n < length ws \<Longrightarrow> dir_name (anc ws (Suc n)) = anc ws n"
  unfolding anc_def take_Suc_conv_app_nth by (rule dir_name_join) (use clean_take [of ws "Suc n"] in \<open>simp add: take_Suc_conv_app_nth\<close>)

lemma anc_nonempty: "clean ws \<Longrightarrow> n < length ws \<Longrightarrow> anc ws (Suc n) \<noteq> []"
  using join_nonempty [OF clean_take, of ws "Suc n"] by (cases ws) (auto simp: anc_def)

lemma anc_0 [simp]: "anc ws 0 = []"
  by (simp add: anc_def)

lemma segs_anc: "clean ws \<Longrightarrow> segs (anc ws n) = take n ws"
  by (simp add: anc_def segs_join clean_take)

lemma tidy_anc: "clean ws \<Longrightarrow> tidy (anc ws n)"
  using clean_take [of ws n] by (auto simp: tidy_def segs_anc clean_def)

lemma anc_all: "anc (segs d) (length (segs d)) = d"
  by (simp add: anc_def)

lemma tidy_dir_name: "tidy p \<Longrightarrow> tidy (dir_name p)"
proof (cases "segs p = []")
  case True
  then have "p = []" by (auto simp: segs_def split: if_splits)
  then show ?thesis by (simp add: dir_name_def tidy_def segs_def)
next
  case False
  assume "tidy p"
  then have c: "clean (segs p)" by (rule clean_segs)
  obtain n where n: "length (segs p) = Suc n" using False by (cases "length (segs p)") auto
  have "dir_name p = anc (segs p) n" using dir_anc [OF c, of n] anc_all [of p] n by simp
  then show ?thesis using tidy_anc [OF c] by simp
qed

lemma deepest_anc:
  assumes "clean ws" and "n < length ws"
  shows "deepest marked (anc ws (Suc n)) = (if anc ws (Suc n) \<in> marked then Some (anc ws (Suc n)) else deepest marked (anc ws n))"
proof -
  have t: "anc (take m ws) k = anc ws k" if "k \<le> m" for k m using that by (simp add: anc_def min_def)
  have a: "ancestors (anc ws m) = map (anc ws) (rev [0..<Suc m])" if "m \<le> length ws" for m
    using that unfolding ancestors_def segs_anc [OF assms(1)] by (auto simp: t min_def)
  show ?thesis using assms(2) by (simp add: deepest_def a)
qed

lemma deepest_Nil: "deepest marked [] = (if [] \<in> marked then Some [] else None)"
  by (simp add: deepest_def ancestors_def segs_def)

lemma deepest_SomeD: "deepest marked d = Some r \<Longrightarrow> r \<in> set (ancestors d) \<and> r \<in> marked"
  by (auto simp: deepest_def find_Some_iff)

lemma under_ancestor:
  assumes "tidy d" and "r \<in> set (ancestors d)"
  shows "under d r"
proof -
  obtain n where n: "n \<le> length (segs d)" "r = anc (segs d) n"
    using assms(2) by (auto simp: ancestors_def less_Suc_eq_le simp del: upt_Suc)
  show ?thesis
  proof (cases "n = 0 \<or> n = length (segs d)")
    case True
    then show ?thesis using n by (auto simp: under_def anc_all)
  next
    case False
    let ?a = "take n (segs d)" and ?b = "drop n (segs d)"
    have "?a \<noteq> []" "?b \<noteq> []" using False n by auto
    have j: "join_on (CHR ''/'') (xs @ ys) = join_on (CHR ''/'') xs @ CHR ''/'' # join_on (CHR ''/'') ys"
      if "xs \<noteq> []" "ys \<noteq> []" for xs ys using that by (induction xs rule: induct_list012) (auto simp: join_on_Cons)
    have "d = r @ CHR ''/'' # join_on (CHR ''/'') ?b"
      using j [OF \<open>?a \<noteq> []\<close> \<open>?b \<noteq> []\<close>] join_segs [of d] n(2) by (simp add: anc_def)
    then obtain t where "d = r @ CHR ''/'' # t" by blast
    then show ?thesis by (simp add: under_def)
  qed
qed

subsection \<open>The memo table\<close>

definition memo_ok :: "model_roots \<Rightarrow> bool" where
  "memo_ok mr \<longleftrightarrow> (\<forall>c r. map_of (mr_memo mr) c = Some r \<longrightarrow> tidy c \<and> r = deepest (mr_dirs mr) c)"

lemma memo_okD: "memo_ok mr \<Longrightarrow> map_of (mr_memo mr) c = Some r \<Longrightarrow> tidy c \<and> r = deepest (mr_dirs mr) c"
  by (simp add: memo_ok_def)

lemma root_loop_spec:
  assumes ok: "memo_ok mr" and ws: "clean ws" and n: "n \<le> length ws"
  shows "\<exists>chain. root_loop mr ch (Some (anc ws n)) = py_ret (ch @ chain, deepest (mr_dirs mr) (anc ws n)) \<and>
    (\<forall>c \<in> set chain. tidy c \<and> deepest (mr_dirs mr) c = deepest (mr_dirs mr) (anc ws n)) \<and>
    (map_of (mr_memo mr) (anc ws n) = None \<longrightarrow> anc ws n \<in> set chain)"
  using n
proof (induction n arbitrary: ch)
  case 0
  show ?case
  proof (cases "map_of (mr_memo mr) []")
    case None
    then show ?thesis
      by (intro exI [of _ "[[]]"]) (auto simp: root_loop.simps deepest_Nil tidy_def segs_def)
  next
    case (Some f)
    with memo_okD [OF ok Some] show ?thesis by (intro exI [of _ "[]"]) (simp add: root_loop.simps)
  qed
next
  case (Suc n)
  let ?a = "anc ws (Suc n)"
  have n: "n < length ws" using Suc.prems by simp
  show ?case
  proof (cases "map_of (mr_memo mr) ?a")
    case (Some f)
    with memo_okD [OF ok Some] show ?thesis by (intro exI [of _ "[]"]) (simp add: root_loop.simps)
  next
    case None
    show ?thesis
    proof (cases "?a \<in> mr_dirs mr")
      case True
      with None show ?thesis
        by (intro exI [of _ "[?a]"]) (simp add: root_loop.simps deepest_anc [OF ws n] tidy_anc [OF ws])
    next
      case False
      from Suc.IH [of "ch @ [?a]"] n obtain chain where c: "root_loop mr (ch @ [?a]) (Some (anc ws n)) =
          py_ret ((ch @ [?a]) @ chain, deepest (mr_dirs mr) (anc ws n))"
        "\<forall>c \<in> set chain. tidy c \<and> deepest (mr_dirs mr) c = deepest (mr_dirs mr) (anc ws n)" by auto
      have "root_loop mr ch (Some ?a) = root_loop mr (ch @ [?a]) (Some (anc ws n))"
        using None False anc_nonempty [OF ws n] dir_anc [OF ws n] by (simp add: root_loop.simps [of mr ch])
      with c False show ?thesis
        by (intro exI [of _ "?a # chain"]) (simp add: deepest_anc [OF ws n] tidy_anc [OF ws])
    qed
  qed
qed

lemma map_of_remember:
  assumes "\<forall>c \<in> set chain. \<forall>r. f = Some r \<longrightarrow> under c r"
  shows "map_of (fold (remember f) chain memo) c = (if c \<in> set chain then Some f else map_of memo c)"
  using assms by (induction chain arbitrary: memo) (auto simp: remember_def split: option.splits)

lemma root_of_dir_spec:
  assumes ok: "memo_ok mr" and d: "tidy d"
  shows "\<exists>mr2. root_of_dir mr d = py_ret (deepest (mr_dirs mr) d, mr2) \<and> memo_ok mr2 \<and> mr_dirs mr2 = mr_dirs mr"
proof (cases "map_of (mr_memo mr) d")
  case (Some r)
  with memo_okD [OF ok Some] ok show ?thesis by (simp add: root_of_dir_def)
next
  case None
  let ?f = "deepest (mr_dirs mr) d"
  have a: "anc (segs d) (length (segs d)) = d" by (rule anc_all)
  from root_loop_spec [OF ok clean_segs [OF d] order_refl, of "[]"] obtain chain where
    c: "root_loop mr [] (Some d) = py_ret (chain, ?f)" "\<forall>c \<in> set chain. tidy c \<and> deepest (mr_dirs mr) c = ?f" "d \<in> set chain"
    unfolding a append_Nil using None by blast
  have u: "\<forall>c \<in> set chain. \<forall>r. ?f = Some r \<longrightarrow> under c r"
  proof (intro ballI allI impI)
    fix c r assume "c \<in> set chain" "?f = Some r"
    with c(2) have "tidy c" "deepest (mr_dirs mr) c = Some r" by auto
    then show "under c r" using under_ancestor deepest_SomeD by blast
  qed
  have m: "map_of (fold (remember ?f) chain (mr_memo mr)) e = (if e \<in> set chain then Some ?f else map_of (mr_memo mr) e)" for e
    by (rule map_of_remember [OF u])
  let ?mr = "mr\<lparr>mr_memo := fold (remember ?f) chain (mr_memo mr)\<rparr>"
  have "root_of_dir mr d = py_ret (?f, ?mr)"
    using None c(1,3) m [of d] by (simp add: root_of_dir_def Let_def dict_index_Some)
  moreover have "memo_ok ?mr" using ok c(2) unfolding memo_ok_def by (auto simp: m)
  ultimately show ?thesis by simp
qed

definition ask :: "string \<Rightarrow> model_roots \<Rightarrow> model_roots py" where
  "ask q mr = py_bind (root_of_dir mr q) (\<lambda>(_, mr). py_ret mr)"

lemma ask_all:
  assumes "memo_ok mr" and "\<forall>q \<in> set qs. tidy q"
  shows "\<exists>mr2. py_fold ask qs mr = py_ret mr2 \<and> memo_ok mr2 \<and> mr_dirs mr2 = mr_dirs mr"
  using assms
proof (induction qs arbitrary: mr)
  case (Cons q qs)
  from root_of_dir_spec [OF Cons.prems(1), of q] Cons.prems(2) obtain mr2 where
    q: "root_of_dir mr q = py_ret (deepest (mr_dirs mr) q, mr2)" "memo_ok mr2" "mr_dirs mr2 = mr_dirs mr" by auto
  from Cons.IH [OF q(2)] Cons.prems(2) q show ?case by (auto simp: ask_def)
qed simp

lemma memo_ok_init: "memo_ok (model_roots_init paths)"
  by (simp add: memo_ok_def model_roots_init_def)

subsection \<open>Containers and their trees\<close>

lemma by_id_distinct: "distinct (map key rs) \<Longrightarrow> by_id key rs = map (\<lambda>r. (key r, r)) rs"
  using fold_update_fresh [of key rs "[]" "\<lambda>r. r"] by (simp add: by_id_def)

lemma map_of_by_id: "distinct (map key rs) \<Longrightarrow> map_of (by_id key rs) k = Some r \<longleftrightarrow> r \<in> set rs \<and> key r = k"
  by (auto simp: by_id_distinct map_of_eq_Some_iff comp_def)

lemma top_of_total: "cid \<in> fst ` set cont \<Longrightarrow> \<exists>t. top_of cont n cid = py_ret t"
proof (induction n arbitrary: cid)
  case (Suc n)
  from Suc.prems obtain c where "map_of cont cid = Some c" by (metis domD dom_map_of_conv_image_fst)
  with Suc.IH show ?case by (auto simp: dict_index_Some dict_keys_def split: option.splits)
qed simp

lemma all_terminal_total: "set xs \<subseteq> fst ` set cont \<Longrightarrow> \<exists>b. all_terminal cont xs = py_ret b"
proof (induction xs)
  case (Cons x xs)
  then obtain c where "map_of cont x = Some c" by (metis domD dom_map_of_conv_image_fst insert_subset list.simps(15))
  with Cons show ?case by (cases "cr_status c \<in> TERMINAL") (simp_all add: dict_index_Some, blast)
qed (simp, blast)

lemma fold_push:
  assumes "\<And>x. x \<in> set xs \<Longrightarrow> \<exists>u. f x = py_ret u \<and> P x u"
  shows "\<exists>us. py_fold (\<lambda>x us. py_bind (f x) (\<lambda>u. push_new u us)) xs acc = py_ret (acc @ us) \<and> list_all2 P xs us"
  using assms
proof (induction xs arbitrary: acc)
  case (Cons x xs)
  from Cons.prems obtain u where u: "f x = py_ret u" "P x u" by auto
  from Cons.IH [of "acc @ [u]"] Cons.prems obtain us where
    "py_fold (\<lambda>x us. py_bind (f x) (\<lambda>u. push_new u us)) xs (acc @ [u]) = py_ret ((acc @ [u]) @ us)" "list_all2 P xs us" by auto
  with u show ?case by (intro exI [of _ "u # us"]) (simp add: push_new_def)
qed simp

lemma subtrees_total:
  assumes "distinct (map cr_id cs)"
  shows "\<exists>sub. subtrees (by_id cr_id cs) = py_ret sub \<and> (\<forall>k. set (dict_get sub k []) \<subseteq> fst ` set (by_id cr_id cs))"
proof -
  let ?cont = "by_id cr_id cs"
  let ?I = "\<lambda>sub. \<forall>k. set (dict_get sub k []) \<subseteq> fst ` set ?cont"
  have keys: "fst ` set ?cont = cr_id ` set cs" "map snd ?cont = cs"
    using assms by (auto simp: by_id_distinct comp_def image_image)
  have "\<exists>sub'. (if cr_kind c = Ct_Nested then py_bind (top_of ?cont 64 (cr_id c)) (\<lambda>t. py_ret (dict_push t (cr_id c) sub))
      else py_ret sub) = py_ret sub' \<and> ?I sub' \<and> True" if "c \<in> set cs" "?I sub" for c sub
  proof -
    have "cr_id c \<in> fst ` set ?cont" using that(1) keys by simp
    moreover from top_of_total [OF this] obtain t where "top_of ?cont 64 (cr_id c) = py_ret t" by blast
    ultimately show ?thesis using that(2) by (simp add: dict_get_push)
  qed
  then have "\<exists>sub. py_fold (\<lambda>c sub. if cr_kind c = Ct_Nested then py_bind (top_of ?cont 64 (cr_id c)) (\<lambda>t.
      py_ret (dict_push t (cr_id c) sub)) else py_ret sub) cs [] = py_ret sub \<and> ?I sub \<and> True"
    by (intro py_fold_total [where R = "\<lambda>_ _. True"]) (simp_all add: dict_get_def)
  then show ?thesis unfolding subtrees_def keys(2) by blast
qed

subsection \<open>The two scans\<close>

definition first_source :: "(nat, source_row) dict \<Rightarrow> container_row \<Rightarrow> source_row option" where
  "first_source src c = (case cr_source c of None \<Rightarrow> None | Some i \<Rightarrow> if i = 0 then None else map_of src i)"

definition arch_infos :: "(nat, source_row) dict \<Rightarrow> string set \<Rightarrow> container_row \<Rightarrow> arch_info list" where
  "arch_infos src marked c = (case first_source src c of None \<Rightarrow> []
     | Some f \<Rightarrow> [(c, sr_path f, deepest marked (dir_name (sr_path f)))])"

definition loose_infos :: "(nat, source_row) dict \<Rightarrow> string set \<Rightarrow> nat \<Rightarrow> loose_info list" where
  "loose_infos src marked sid = (case map_of src sid of None \<Rightarrow> []
     | Some s \<Rightarrow> [(s, dir_name (sr_path s), deepest marked (dir_name (sr_path s)))])"

definition items_ok :: "item_sets \<Rightarrow> (string \<Rightarrow> string set) \<Rightarrow> bool" where
  "items_ok its f \<longleftrightarrow> distinct (map fst its) \<and> (\<forall>r. dict_get its r {} = f r)"

lemma items_ok_add: "items_ok its f \<Longrightarrow> items_ok (add_item root it its) (\<lambda>r. if root = Some r then insert it (f r) else f r)"
  by (cases root) (auto simp: items_ok_def add_item_def dict_get_def split: option.splits)

definition arch_items :: "arch_info list \<Rightarrow> string \<Rightarrow> string set" where
  "arch_items infos r = {''a:'' @ path |c path. (c, path, Some r) \<in> set infos}"

definition loose_items :: "loose_info list \<Rightarrow> string \<Rightarrow> string set" where
  "loose_items infos r = {''d:'' @ d |s d. (s, d, Some r) \<in> set infos}"

definition tidy_sources :: "(nat, source_row) dict \<Rightarrow> bool" where
  "tidy_sources src \<longleftrightarrow> (\<forall>i s. map_of src i = Some s \<longrightarrow> tidy (sr_path s))"

lemma arch_scan:
  assumes "memo_ok mr" and "mr_dirs mr = marked" and "items_ok its (arch_items infos)" and "tidy_sources src"
  shows "\<exists>mr2 its2. py_fold (arch_step src) cs (mr, its, infos) = py_ret (mr2, its2, infos @ concat (map (arch_infos src marked) cs)) \<and>
    memo_ok mr2 \<and> mr_dirs mr2 = marked \<and> items_ok its2 (arch_items (infos @ concat (map (arch_infos src marked) cs)))"
  using assms(1-3)
proof (induction cs arbitrary: mr its infos)
  case (Cons c cs)
  show ?case
  proof (cases "first_source src c")
    case None
    then have "arch_step src c (mr, its, infos) = py_ret (mr, its, infos)" "arch_infos src marked c = []"
      by (auto simp: arch_step_def first_source_def arch_infos_def split: option.splits if_splits)
    with Cons show ?thesis by simp
  next
    case (Some f)
    let ?d = "dir_name (sr_path f)"
    have "tidy (sr_path f)" using Some assms(4) by (auto simp: first_source_def tidy_sources_def split: option.splits if_splits)
    from root_of_dir_spec [OF Cons.prems(1) tidy_dir_name [OF this]] Cons.prems(2) obtain mr2 where
      r: "root_of_dir mr ?d = py_ret (deepest marked ?d, mr2)" "memo_ok mr2" "mr_dirs mr2 = marked" by auto
    let ?i = "infos @ arch_infos src marked c" and ?its = "add_item (deepest marked ?d) (''a:'' @ sr_path f) its"
    have step: "arch_step src c (mr, its, infos) = py_ret (mr2, ?its, ?i)"
      using Some r(1) by (auto simp: arch_step_def first_source_def arch_infos_def split: option.splits if_splits)
    have "arch_items ?i = (\<lambda>r. if deepest marked ?d = Some r then insert (''a:'' @ sr_path f) (arch_items infos r) else arch_items infos r)"
      using Some by (auto simp: arch_items_def arch_infos_def fun_eq_iff)
    then have "items_ok ?its (arch_items ?i)" using items_ok_add [OF Cons.prems(3)] by (simp only:)
    from Cons.IH [OF r(2,3) this] step show ?thesis by simp
  qed
qed simp

lemma loose_scan_all:
  assumes "memo_ok mr" and "mr_dirs mr = marked" and "items_ok its (\<lambda>r. A r \<union> loose_items infos r)" and "tidy_sources src"
  shows "\<exists>mr2 its2. py_fold (loose_scan src) sids (mr, its, infos) = py_ret (mr2, its2, infos @ concat (map (loose_infos src marked) sids)) \<and>
    memo_ok mr2 \<and> mr_dirs mr2 = marked \<and> items_ok its2 (\<lambda>r. A r \<union> loose_items (infos @ concat (map (loose_infos src marked) sids)) r)"
  using assms(1-3)
proof (induction sids arbitrary: mr its infos)
  case (Cons sid sids)
  show ?case
  proof (cases "map_of src sid")
    case None
    then have "loose_scan src sid (mr, its, infos) = py_ret (mr, its, infos)" "loose_infos src marked sid = []"
      by (auto simp: loose_scan_def loose_infos_def)
    with Cons show ?thesis by simp
  next
    case (Some f)
    let ?d = "dir_name (sr_path f)"
    have "tidy (sr_path f)" using Some assms(4) by (simp add: tidy_sources_def)
    from root_of_dir_spec [OF Cons.prems(1) tidy_dir_name [OF this]] Cons.prems(2) obtain mr2 where
      r: "root_of_dir mr ?d = py_ret (deepest marked ?d, mr2)" "memo_ok mr2" "mr_dirs mr2 = marked" by auto
    let ?i = "infos @ loose_infos src marked sid" and ?its = "add_item (deepest marked ?d) (''d:'' @ ?d) its"
    have step: "loose_scan src sid (mr, its, infos) = py_ret (mr2, ?its, ?i)"
      using Some r(1) by (simp add: loose_scan_def loose_infos_def Let_def)
    have "(\<lambda>r. A r \<union> loose_items ?i r) =
        (\<lambda>r. if deepest marked ?d = Some r then insert (''d:'' @ ?d) (A r \<union> loose_items infos r) else A r \<union> loose_items infos r)"
      using Some by (auto simp: loose_items_def loose_infos_def fun_eq_iff)
    then have "items_ok ?its (\<lambda>r. A r \<union> loose_items ?i r)" using items_ok_add [OF Cons.prems(3)] by (simp only:)
    from Cons.IH [OF r(2,3) this] step show ?thesis by simp
  qed
qed simp

lemma bundles_of_ok: "items_ok its f \<Longrightarrow> 0 \<le> n \<Longrightarrow> bundles_of n its = {r. n < int (card (f r))}"
proof -
  assume ok: "items_ok its f" and n: "0 \<le> n"
  have "r \<in> bundles_of n its \<longleftrightarrow> n < int (card (f r))" for r
  proof -
    have "r \<in> bundles_of n its \<longleftrightarrow> (\<exists>xs. map_of its r = Some xs \<and> n < int (card xs))"
      using ok by (auto simp: bundles_of_def items_ok_def image_iff map_of_eq_Some_iff)
    also have "\<dots> \<longleftrightarrow> n < int (card (dict_get its r {}))"
      using n by (cases "map_of its r") (auto simp: dict_get_def)
    finally show ?thesis using ok by (simp add: items_ok_def)
  qed
  then show ?thesis by auto
qed

subsection \<open>The batches of a file\<close>

definition in_loose :: "conts \<Rightarrow> nat \<Rightarrow> bool" where
  "in_loose cont cid = (case map_of cont cid of None \<Rightarrow> False | Some c \<Rightarrow> cr_kind c = Ct_Loose)"

definition batches_of :: "conts \<Rightarrow> (nat \<times> nat) list \<Rightarrow> nat \<Rightarrow> nat list" where
  "batches_of cont cfs sid = map fst (filter (\<lambda>(c, s). s = sid \<and> in_loose cont c) cfs)"

definition batches_ok :: "conts \<Rightarrow> (nat \<times> nat) list \<Rightarrow> (nat, nat list) dict \<Rightarrow> bool" where
  "batches_ok cont cfs b \<longleftrightarrow> distinct (map fst b) \<and> (\<forall>k. map_of b k \<noteq> Some []) \<and> (\<forall>sid. dict_get b sid [] = batches_of cont cfs sid)"

lemma push_files_ok:
  assumes "batches_ok cont pre b"
  shows "batches_ok cont (pre @ cfs) (snd (fold (push_file cont) cfs (f, b)))"
  using assms
proof (induction cfs arbitrary: pre f b)
  case (Cons x cfs)
  obtain cid sid where x: "x = (cid, sid)" by (cases x)
  let ?b = "snd (push_file cont x (f, b))"
  have "batches_ok cont (pre @ [x]) ?b"
  proof (cases "in_loose cont cid")
    case True
    then have b: "?b = dict_push sid cid b" by (auto simp: push_file_def x in_loose_def split: option.splits)
    have "map_of (dict_push sid cid b) k \<noteq> Some []" for k using Cons.prems by (simp add: batches_ok_def dict_push_def)
    then show ?thesis unfolding b using Cons.prems True by (auto simp: batches_ok_def dict_get_push batches_of_def x)
  next
    case False
    then have "?b = b" by (auto simp: push_file_def x in_loose_def split: option.splits)
    then show ?thesis using Cons.prems False by (simp add: batches_ok_def batches_of_def x)
  qed
  from Cons.IH [OF this, of "fst (push_file cont x (f, b))"] show ?case by simp
qed simp

lemma batches_spec: "batches_ok cont cfs (snd (fold (push_file cont) cfs ([], [])))"
  using push_files_ok [of cont "[]" "[]" cfs "[]"] by (simp add: batches_ok_def batches_of_def dict_get_def)

lemma batches_keys: "batches_ok cont cfs b \<Longrightarrow> k \<in> set (dict_keys b) \<longleftrightarrow> batches_of cont cfs k \<noteq> []"
proof -
  assume ok: "batches_ok cont cfs b"
  then have "batches_of cont cfs k = dict_get b k []" "map_of b k \<noteq> Some []" by (simp_all add: batches_ok_def)
  then show ?thesis by (auto simp: dict_keys_def dict_get_def simp flip: dom_map_of_conv_image_fst split: option.splits)
qed

lemma batches_index:
  assumes "batches_ok cont cfs b" and "k \<in> set (dict_keys b)"
  shows "dict_index b k = py_ret (batches_of cont cfs k)"
proof -
  obtain v where "map_of b k = Some v" using assms(2) by (auto simp: dict_keys_def simp flip: dom_map_of_conv_image_fst)
  then show ?thesis using assms(1) by (auto simp: batches_ok_def dict_get_def dict_index_def split: option.splits)
qed

subsection \<open>Loose units\<close>

definition folder_of :: "string set \<Rightarrow> string set \<Rightarrow> string \<Rightarrow> string" where
  "folder_of bundles marked d = (case coloc_of bundles (deepest marked d) of None \<Rightarrow> d | Some r \<Rightarrow> r)"

definition is_terminal :: "conts \<Rightarrow> nat \<Rightarrow> bool" where
  "is_terminal cont b = (case map_of cont b of None \<Rightarrow> False | Some c \<Rightarrow> cr_status c \<in> TERMINAL)"

lemma deepest_self: "deepest marked d = Some r \<Longrightarrow> deepest marked r = Some r"
proof -
  assume "deepest marked d = Some r"
  then have "r \<in> marked" using deepest_SomeD by blast
  then show ?thesis by (simp add: deepest_def ancestors_def anc_all)
qed

lemma coloc_by_folder:
  assumes "folder_of bundles marked d = folder_of bundles marked e"
  shows "coloc_of bundles (deepest marked d) = coloc_of bundles (deepest marked e)"
proof -
  have up: "coloc_of bundles (deepest marked e) = Some r" if "coloc_of bundles (deepest marked d) = Some r"
    "folder_of bundles marked d = folder_of bundles marked e" for d e r
  proof (cases "coloc_of bundles (deepest marked e)")
    case None
    have d: "deepest marked d = Some r" "r \<notin> bundles" using that(1) by (auto simp: coloc_of_def split: option.splits if_splits)
    from None that have "e = r" by (simp add: folder_of_def)
    then show ?thesis using deepest_self [OF d(1)] d(2) by (simp add: coloc_of_def)
  next
    case (Some q)
    with that show ?thesis by (simp add: folder_of_def)
  qed
  show ?thesis
    using up [of d _ e] up [of e _ d] assms by (metis not_Some_eq)
qed

lemma add_batches:
  assumes "set bs \<subseteq> dom (map_of cont)"
  shows "\<exists>xs. py_fold (add_batch cont) bs u =
    py_ret (u\<lparr>us_containers := xs, us_complete := us_complete u \<and> (\<forall>b \<in> set bs. is_terminal cont b)\<rparr>)"
  using assms
proof (induction bs arbitrary: u)
  case Nil
  show ?case by (intro exI [of _ "us_containers u"]) simp
next
  case (Cons b bs)
  then obtain c where c: "map_of cont b = Some c" by auto
  let ?cs = "if b \<in> set (us_containers u) then us_containers u else us_containers u @ [b]"
  let ?u = "u\<lparr>us_containers := ?cs, us_complete := us_complete u \<and> is_terminal cont b\<rparr>"
  have "add_batch cont b u = py_ret ?u"
    using c by (auto simp: add_batch_def Let_def dict_index_Some is_terminal_def)
  with Cons.IH [of ?u] Cons.prems show ?case by auto
qed

definition unit_for :: "conts \<Rightarrow> (nat \<times> nat) list \<Rightarrow> string set \<Rightarrow> string set \<Rightarrow> source_row list \<Rightarrow> unit_spec \<Rightarrow> bool" where
  "unit_for cont cfs bundles marked ss u \<longleftrightarrow>
     (let mine = filter (\<lambda>s. folder_of bundles marked (dir_name (sr_path s)) = us_path u) ss in
      us_key u = ''loose:'' @ us_path u \<and> us_kind u = ''loose'' \<and> mine \<noteq> [] \<and>
      us_files u = map sr_id mine \<and> us_loose_paths u = map sr_path mine \<and>
      (\<forall>s \<in> set mine. us_coloc u = coloc_of bundles (deepest marked (dir_name (sr_path s)))) \<and>
      us_complete u = (\<forall>s \<in> set mine. \<forall>b \<in> set (batches_of cont cfs (sr_id s)). is_terminal cont b))"

definition loose_inv :: "conts \<Rightarrow> (nat \<times> nat) list \<Rightarrow> string set \<Rightarrow> string set \<Rightarrow> source_row list \<Rightarrow> (string, unit_spec) dict \<Rightarrow> bool" where
  "loose_inv cont cfs bundles marked ss lu \<longleftrightarrow> distinct (map fst lu) \<and>
     (\<forall>s \<in> set ss. ''loose:'' @ folder_of bundles marked (dir_name (sr_path s)) \<in> fst ` set lu) \<and>
     (\<forall>k u. map_of lu k = Some u \<longrightarrow> us_key u = k \<and> unit_for cont cfs bundles marked ss u)"

lemma unit_for_other:
  "unit_for cont cfs bundles marked ss u \<Longrightarrow> folder_of bundles marked (dir_name (sr_path s)) \<noteq> us_path u \<Longrightarrow>
   unit_for cont cfs bundles marked (ss @ [s]) u"
  by (simp add: unit_for_def Let_def)

lemma unit_for_key: "unit_for cont cfs bundles marked ss u \<Longrightarrow> us_key u = ''loose:'' @ us_path u \<and> us_kind u = ''loose''"
  by (simp add: unit_for_def Let_def)

lemma loose_invD:
  "loose_inv cont cfs bundles marked ss lu \<Longrightarrow> map_of lu k = Some u \<Longrightarrow> us_key u = k \<and> unit_for cont cfs bundles marked ss u"
  unfolding loose_inv_def by blast

lemma loose_step_inv:
  assumes inv: "loose_inv cont cfs bundles marked ss lu" and ok: "batches_ok cont cfs batches"
    and s: "sr_id s \<in> set (dict_keys batches)" and d: "d = dir_name (sr_path s)"
  shows "\<exists>lu2. loose_step cont batches bundles (s, d, deepest marked d) lu = py_ret lu2 \<and>
    loose_inv cont cfs bundles marked (ss @ [s]) lu2"
proof -
  let ?f = "folder_of bundles marked d" and ?bs = "batches_of cont cfs (sr_id s)"
  let ?k = "''loose:'' @ ?f"
  define u where "u = (case map_of lu ?k of None \<Rightarrow> fresh_loose ?f (deepest marked d) (coloc_of bundles (deepest marked d)) | Some u \<Rightarrow> u)"
  let ?u = "u\<lparr>us_files := us_files u @ [sr_id s], us_loose_paths := us_loose_paths u @ [sr_path s]\<rparr>"
  have "set ?bs \<subseteq> dom (map_of cont)" by (auto simp: batches_of_def in_loose_def split: option.splits)
  from add_batches [OF this, of ?u] obtain xs where
    b: "py_fold (add_batch cont) ?bs ?u = py_ret (?u\<lparr>us_containers := xs, us_complete := us_complete u \<and> (\<forall>b \<in> set ?bs. is_terminal cont b)\<rparr>)"
    (is "_ = py_ret ?v") by auto
  have step: "loose_step cont batches bundles (s, d, deepest marked d) lu = py_ret (AList.update ?k ?v lu)"
    unfolding loose_step_def prod.case Let_def folder_of_def [symmetric] u_def [symmetric] batches_index [OF ok s] py_bind_ret b
    by (rule refl)
  have path: "us_path u = ?f \<and> us_key u = ?k \<and> us_kind u = ''loose''"
  proof (cases "map_of lu ?k")
    case (Some w)
    have w: "us_key w = ?k" "unit_for cont cfs bundles marked ss w" using loose_invD [OF inv Some] by auto
    have "''loose:'' @ us_path w = ?k" using unit_for_key [OF w(2)] w(1) by metis
    then show ?thesis using Some w(1) unit_for_key [OF w(2)] by (simp add: u_def)
  qed (simp add: u_def fresh_loose_def)
  let ?mine = "filter (\<lambda>s. folder_of bundles marked (dir_name (sr_path s)) = ?f) ss"
  have old: "us_files u = map sr_id ?mine \<and> us_loose_paths u = map sr_path ?mine \<and>
      us_complete u = (\<forall>s \<in> set ?mine. \<forall>b \<in> set (batches_of cont cfs (sr_id s)). is_terminal cont b) \<and>
      us_coloc u = coloc_of bundles (deepest marked d)"
  proof (cases "map_of lu ?k")
    case None
    have "?mine = []"
    proof (rule ccontr)
      assume "?mine \<noteq> []"
      then obtain t where "t \<in> set ss" "folder_of bundles marked (dir_name (sr_path t)) = ?f" by (auto simp: filter_empty_conv)
      with inv have "?k \<in> fst ` set lu" unfolding loose_inv_def by metis
      with None show False by (simp add: map_of_eq_None_iff)
    qed
    then show ?thesis using None by (simp add: u_def fresh_loose_def)
  next
    case (Some w)
    then have w: "unit_for cont cfs bundles marked ss u" using inv by (simp add: u_def loose_inv_def)
    then have "?mine \<noteq> []" using path by (simp add: unit_for_def Let_def)
    then obtain t where t: "t \<in> set ?mine" by (cases ?mine) auto
    then have "us_coloc u = coloc_of bundles (deepest marked (dir_name (sr_path t)))"
      using w path by (simp add: unit_for_def Let_def)
    also have "\<dots> = coloc_of bundles (deepest marked d)" by (rule coloc_by_folder) (use t in simp)
    finally show ?thesis using w path by (simp add: unit_for_def Let_def)
  qed
  have mine: "filter (\<lambda>s. folder_of bundles marked (dir_name (sr_path s)) = us_path ?v) (ss @ [s]) = ?mine @ [s]"
    using path by (simp add: d)
  have col: "us_coloc ?v = coloc_of bundles (deepest marked (dir_name (sr_path t)))" if "t \<in> set (?mine @ [s])" for t
  proof -
    have "folder_of bundles marked d = folder_of bundles marked (dir_name (sr_path t))" using that d by auto
    from coloc_by_folder [OF this] old show ?thesis by simp
  qed
  have "unit_for cont cfs bundles marked (ss @ [s]) ?v"
    unfolding unit_for_def Let_def mine
  proof (intro conjI)
    show "\<forall>t \<in> set (?mine @ [s]). us_coloc ?v = coloc_of bundles (deepest marked (dir_name (sr_path t)))" using col by blast
    show "us_complete ?v = (\<forall>t \<in> set (?mine @ [s]). \<forall>b \<in> set (batches_of cont cfs (sr_id t)). is_terminal cont b)"
      using old by auto
  qed (use old path in simp_all)
  moreover have "unit_for cont cfs bundles marked (ss @ [s]) w" if "map_of lu k = Some w" "k \<noteq> ?k" for k w
  proof -
    have w: "us_key w = k" "unit_for cont cfs bundles marked ss w" using loose_invD [OF inv that(1)] by auto
    have "folder_of bundles marked (dir_name (sr_path s)) \<noteq> us_path w"
      using that(2) w(1) unit_for_key [OF w(2)] by (auto simp: d)
    then show ?thesis by (rule unit_for_other [OF w(2)])
  qed
  ultimately have "loose_inv cont cfs bundles marked (ss @ [s]) (AList.update ?k ?v lu)"
    using inv path by (auto simp: loose_inv_def d update_keys dom_update image_iff split: if_splits)
  with step show ?thesis by blast
qed


lemma loose_loop:
  assumes "loose_inv cont cfs bundles marked ss lu" and ok: "batches_ok cont cfs batches"
    and "\<forall>s \<in> set ts. sr_id s \<in> set (dict_keys batches)"
  shows "\<exists>lu2. py_fold (loose_step cont batches bundles)
      (map (\<lambda>s. (s, dir_name (sr_path s), deepest marked (dir_name (sr_path s)))) ts) lu = py_ret lu2 \<and>
    loose_inv cont cfs bundles marked (ss @ ts) lu2"
  using assms(1,3)
proof (induction ts arbitrary: ss lu)
  case (Cons s ts)
  from loose_step_inv [OF Cons.prems(1) ok, of s "dir_name (sr_path s)"] Cons.prems(2) obtain lu2 where
    "loose_step cont batches bundles (s, dir_name (sr_path s), deepest marked (dir_name (sr_path s))) lu = py_ret lu2"
    "loose_inv cont cfs bundles marked (ss @ [s]) lu2" by auto
  with Cons.IH [of "ss @ [s]" lu2] Cons.prems(2) show ?case by simp
qed simp

lemma sort_key_map: "sort_key f (map g xs) = map g (sort_key (f \<circ> g) xs)"
proof -
  have "insort_key f (g x) (map g ys) = map g (insort_key (f \<circ> g) x ys)" for x ys
    by (induction ys) auto
  then show ?thesis by (induction xs) simp_all
qed

lemma distinct_lookups:
  assumes "distinct ks" and "\<And>k r. m k = Some r \<Longrightarrow> key r = k"
  shows "distinct (concat (map (\<lambda>k. case m k of None \<Rightarrow> [] | Some r \<Rightarrow> [r]) ks))"
proof -
  have e: "concat (map (\<lambda>k. case m k of None \<Rightarrow> [] | Some r \<Rightarrow> [r]) ks) = map (the \<circ> m) (filter (\<lambda>k. m k \<noteq> None) ks)"
    by (induction ks) (auto split: option.splits)
  have "inj_on (the \<circ> m) {k. m k \<noteq> None}"
  proof (rule inj_onI)
    fix k l assume "k \<in> {k. m k \<noteq> None}" "l \<in> {k. m k \<noteq> None}" "(the \<circ> m) k = (the \<circ> m) l"
    then obtain r where "m k = Some r" "m l = Some r" by auto
    then show "k = l" using assms(2) by metis
  qed
  then have "inj_on (the \<circ> m) (set (filter (\<lambda>k. m k \<noteq> None) ks))" by (rule inj_on_subset) auto
  with assms(1) show ?thesis unfolding e by (simp add: distinct_map)
qed

lemma collect_units:
  assumes "set ks \<subseteq> fst ` set lu"
  shows "py_fold (\<lambda>k us. py_bind (dict_index lu k) (\<lambda>u. push_new u us)) ks acc = py_ret (acc @ map (the \<circ> map_of lu) ks)"
  using assms
proof (induction ks arbitrary: acc)
  case (Cons k ks)
  then obtain u where "map_of lu k = Some u" by (metis domD dom_map_of_conv_image_fst insert_subset list.simps(15))
  with Cons show ?case by (simp add: dict_index_Some push_new_def)
qed simp

subsection \<open>The plan\<close>

text \<open>What the plan is about: the files of loose batches that are present, and the items of a model root.\<close>

definition marked_dirs :: "source_row list \<Rightarrow> string set" where
  "marked_dirs sources = mr_dirs (model_roots_init (map sr_path sources))"

definition loose_sources :: "source_row list \<Rightarrow> container_row list \<Rightarrow> (nat \<times> nat) list \<Rightarrow> source_row set" where
  "loose_sources sources containers cfs =
     {s \<in> set sources. \<exists>b \<in> set containers. cr_kind b = Ct_Loose \<and> (cr_id b, sr_id s) \<in> set cfs}"

definition unit_archives :: "source_row list \<Rightarrow> container_row list \<Rightarrow> (container_row \<times> source_row) set" where
  "unit_archives sources containers =
     {(c, s). c \<in> set (archive_tops (by_id cr_id containers)) \<and> s \<in> set sources \<and> cr_source c = Some (sr_id s) \<and> sr_id s \<noteq> 0}"

definition root_items :: "source_row list \<Rightarrow> container_row list \<Rightarrow> (nat \<times> nat) list \<Rightarrow> string \<Rightarrow> string set" where
  "root_items sources containers cfs r =
     {''a:'' @ sr_path s |c s. (c, s) \<in> unit_archives sources containers \<and> deepest (marked_dirs sources) (dir_name (sr_path s)) = Some r} \<union>
     {''d:'' @ dir_name (sr_path s) |s. s \<in> loose_sources sources containers cfs \<and> deepest (marked_dirs sources) (dir_name (sr_path s)) = Some r}"

definition bundle_roots :: "source_row list \<Rightarrow> container_row list \<Rightarrow> (nat \<times> nat) list \<Rightarrow> int \<Rightarrow> string set" where
  "bundle_roots sources containers cfs n = {r. n < int (card (root_items sources containers cfs r))}"

lemma plan_units_spec:
  fixes cfs :: "(nat \<times> nat) list"
  assumes ids: "distinct (map sr_id sources)" "distinct (map cr_id containers)"
    and tidy: "\<forall>s \<in> set sources. tidy (sr_path s)" and n: "0 \<le> n"
  defines "cont \<equiv> by_id cr_id containers" and "marked \<equiv> marked_dirs sources"
    and "bundles \<equiv> bundle_roots sources containers cfs n"
  shows "\<exists>arch lu ss infos. plan_units sources containers cfs n = py_ret (arch @ map (the \<circ> map_of lu) (sort (map fst lu))) \<and>
    infos = concat (map (arch_infos (by_id sr_id sources) marked) (archive_tops cont)) \<and>
    list_all2 (\<lambda>(c, path, root) u. us_key u = ''archive:'' @ path \<and> us_kind u = ''archive'' \<and> us_root_container u = Some (cr_id c) \<and>
      us_coloc u = coloc_of bundles root) infos arch \<and>
    loose_inv cont cfs bundles marked ss lu \<and> distinct ss \<and> set ss = loose_sources sources containers cfs"
proof -
  let ?src = "by_id sr_id sources"
  obtain files batches where fb: "fold (push_file cont) cfs ([], []) = (files, batches)" by (cases "fold (push_file cont) cfs ([], [])")
  have ok: "batches_ok cont cfs batches" using batches_spec [of cont cfs] fb by simp
  have srcs: "map snd ?src = sources" using ids(1) by (simp add: by_id_distinct comp_def)
  then have roots: "map (sr_path \<circ> snd) ?src = map sr_path sources" by (metis map_map)
  have tsrc: "tidy_sources ?src" using tidy ids(1) by (auto simp: tidy_sources_def map_of_by_id)
  obtain sub where sub: "subtrees cont = py_ret sub" "\<And>k. set (dict_get sub k []) \<subseteq> fst ` set cont"
    using subtrees_total [OF ids(2)] unfolding cont_def by blast
  let ?tops = "archive_tops cont" and ?mr = "model_roots_init (map sr_path sources)"
  let ?arch = "concat (map (arch_infos ?src marked) ?tops)"
  have "items_ok [] (arch_items [])" by (simp add: items_ok_def dict_get_def arch_items_def)
  from arch_scan [OF memo_ok_init _ this tsrc, of "map sr_path sources" marked ?tops] obtain mr1 its1 where
    a: "py_fold (arch_step ?src) ?tops (?mr, [], []) = py_ret (mr1, its1, ?arch)" "memo_ok mr1" "mr_dirs mr1 = marked"
      "items_ok its1 (arch_items ?arch)"
    by (auto simp: marked_def marked_dirs_def)
  let ?loose = "concat (map (loose_infos ?src marked) (dict_keys batches))"
  have "items_ok its1 (\<lambda>r. arch_items ?arch r \<union> loose_items [] r)" using a(4) by (simp add: loose_items_def)
  from loose_scan_all [OF a(2,3) this tsrc, of "dict_keys batches"] obtain mr2 its2 where
    l: "py_fold (loose_scan ?src) (dict_keys batches) (mr1, its1, []) = py_ret (mr2, its2, ?loose)"
      "items_ok its2 (\<lambda>r. arch_items ?arch r \<union> loose_items ?loose r)" by auto
  let ?info = "\<lambda>s. (s, dir_name (sr_path s), deepest marked (dir_name (sr_path s)))"
  define ss0 where "ss0 = concat (map (\<lambda>sid. case map_of ?src sid of None \<Rightarrow> [] | Some s \<Rightarrow> [s]) (dict_keys batches))"
  have "concat (map (loose_infos ?src marked) ks) =
      map ?info (concat (map (\<lambda>sid. case map_of ?src sid of None \<Rightarrow> [] | Some s \<Rightarrow> [s]) ks))" for ks
    by (induction ks) (auto simp: loose_infos_def split: option.splits)
  then have lo: "?loose = map ?info ss0" by (simp add: ss0_def)
  have key: "sr_id s \<in> set (dict_keys batches) \<longleftrightarrow> (\<exists>c. (c, sr_id s) \<in> set cfs \<and> in_loose cont c)" for s
    unfolding batches_keys [OF ok] by (auto simp: batches_of_def filter_empty_conv)
  have in0: "s \<in> set ss0 \<longleftrightarrow> s \<in> set sources \<and> sr_id s \<in> set (dict_keys batches)" for s
  proof -
    have "s \<in> set ss0 \<longleftrightarrow> (\<exists>k \<in> set (dict_keys batches). map_of ?src k = Some s)"
      by (auto simp: ss0_def split: option.splits) (metis option.inject)
    then show ?thesis unfolding map_of_by_id [OF ids(1)] by auto
  qed
  have il: "in_loose cont c \<longleftrightarrow> (\<exists>b \<in> set containers. cr_kind b = Ct_Loose \<and> cr_id b = c)" for c
  proof -
    have "in_loose cont c \<longleftrightarrow> (\<exists>b. map_of cont c = Some b \<and> cr_kind b = Ct_Loose)" by (simp add: in_loose_def split: option.splits)
    then show ?thesis unfolding cont_def map_of_by_id [OF ids(2)] by auto
  qed
  have set0: "set ss0 = loose_sources sources containers cfs" unfolding loose_sources_def by (auto simp: in0 key il) blast
  have dist0: "distinct ss0"
  proof -
    have "distinct (dict_keys batches)" using ok by (simp add: batches_ok_def dict_keys_def)
    then have "distinct (concat (map (\<lambda>sid. case map_of ?src sid of None \<Rightarrow> [] | Some s \<Rightarrow> [s]) (dict_keys batches)))"
      by (rule distinct_lookups [where key = sr_id]) (use map_of_by_id [OF ids(1)] in blast)
    then show ?thesis by (simp add: ss0_def)
  qed
  have in_arch: "(c, p, rt) \<in> set ?arch \<longleftrightarrow> (\<exists>s. (c, s) \<in> unit_archives sources containers \<and> p = sr_path s \<and>
      rt = deepest marked (dir_name (sr_path s)))" for c p rt
  proof -
    have first: "first_source ?src c = Some s \<longleftrightarrow> s \<in> set sources \<and> cr_source c = Some (sr_id s) \<and> sr_id s \<noteq> 0" for c s
      using map_of_by_id [OF ids(1)] by (auto simp: first_source_def split: option.splits)
    have "(c, p, rt) \<in> set ?arch \<longleftrightarrow> c \<in> set ?tops \<and> (\<exists>s. first_source ?src c = Some s \<and> p = sr_path s \<and>
        rt = deepest marked (dir_name (sr_path s)))"
    proof -
      have "x \<in> set (arch_infos ?src marked e) \<longleftrightarrow> (\<exists>s. first_source ?src e = Some s \<and>
          x = (e, sr_path s, deepest marked (dir_name (sr_path s))))" for x e
        by (cases "first_source ?src e") (auto simp: arch_infos_def)
      then show ?thesis by auto
    qed
    then show ?thesis unfolding first by (auto simp: unit_archives_def cont_def)
  qed
  have bun: "bundles_of n its2 = bundles"
  proof -
    have "arch_items ?arch r \<union> loose_items ?loose r = root_items sources containers cfs r" for r
    proof -
      have "arch_items ?arch r = {''a:'' @ sr_path s |c s. (c, s) \<in> unit_archives sources containers \<and>
          deepest marked (dir_name (sr_path s)) = Some r}"
        unfolding arch_items_def in_arch by auto metis+
      moreover have "loose_items ?loose r = {''d:'' @ dir_name (sr_path s) |s. s \<in> loose_sources sources containers cfs \<and>
          deepest marked (dir_name (sr_path s)) = Some r}"
        unfolding loose_items_def lo set0 [symmetric] by auto (metis (mono_tags, lifting) image_eqI)
      ultimately show ?thesis by (simp add: root_items_def marked_def)
    qed
    with bundles_of_ok [OF l(2) n] show ?thesis by (simp add: bundles_def bundle_roots_def)
  qed
  let ?ss = "sort_key sr_path ss0"
  have sorted: "sort_key (sr_path \<circ> fst) ?loose = map ?info ?ss" by (simp add: lo sort_key_map comp_def)
  have "loose_inv cont cfs bundles marked [] []" by (simp add: loose_inv_def)
  from loose_loop [OF this ok, of ?ss] in0 obtain lu where
    lu: "py_fold (loose_step cont batches bundles) (map ?info ?ss) [] = py_ret lu" "loose_inv cont cfs bundles marked ?ss lu" by auto
  let ?P = "\<lambda>(c, path, root) u. us_key u = ''archive:'' @ path \<and> us_kind u = ''archive'' \<and>
      us_root_container u = Some (cr_id c) \<and> us_coloc u = coloc_of bundles root"
  have each: "\<exists>u. arch_unit cont sub files bundles i = py_ret u \<and> ?P i u" if "i \<in> set ?arch" for i
  proof -
    obtain c path root where i: "i = (c, path, root)" by (cases i)
    have "set ?tops \<subseteq> set containers" unfolding archive_tops_def cont_def by_id_distinct [OF ids(2)] by auto
    moreover have "c \<in> set ?tops" using that unfolding i in_arch by (auto simp: unit_archives_def cont_def)
    ultimately have "c \<in> set containers" by blast
    then have "cr_id c \<in> fst ` set cont" using ids(2) by (force simp: cont_def by_id_distinct)
    then have "set (cr_id c # dict_get sub (cr_id c) []) \<subseteq> fst ` set cont" using sub(2) by simp
    from all_terminal_total [OF this] obtain b where "all_terminal cont (cr_id c # dict_get sub (cr_id c) []) = py_ret b" ..
    then show ?thesis by (simp add: arch_unit_def i Let_def del: all_terminal.simps)
  qed
  obtain arch where
    ar: "py_fold (\<lambda>info us. py_bind (arch_unit cont sub files bundles info) (\<lambda>u. push_new u us)) ?arch [] = py_ret arch"
    "list_all2 ?P ?arch arch"
    using fold_push [of ?arch "arch_unit cont sub files bundles" ?P "[]", OF each] unfolding append_Nil by blast
  have "plan_units sources containers cfs n = py_ret (arch @ map (the \<circ> map_of lu) (sort (map fst lu)))"
    unfolding plan_units_def Let_def cont_def [symmetric] fb prod.case sub(1) roots py_bind_ret a(1) l(1) bun ar(1) sorted lu(1)
    using collect_units [of "sort (dict_keys lu)" lu arch] by (simp add: dict_keys_def)
  moreover have "distinct ?ss" "set ?ss = loose_sources sources containers cfs" using dist0 set0 by simp_all
  ultimately show ?thesis using ar(2) lu(2) by blast
qed

subsection \<open>Properties\<close>

text \<open>
  Whatever folders were asked for before, \<open>root_of_dir\<close> answers with the deepest folder, from the given one up
  to the root of the library, that holds a \<^verbatim>\<open>datapackage.json\<close>, or none: the memo table never changes an
  answer, and for relative paths the loop ends.
\<close>

theorem root_of_dir_deepest:
  assumes "\<forall>q \<in> set qs. tidy q" and "tidy d"
  shows "\<exists>mr mr2. py_fold ask qs (model_roots_init paths) = py_ret mr \<and>
    root_of_dir mr d = py_ret (find (\<lambda>a. \<exists>p \<in> set paths. base_name p = MODEL_ROOT_MARKER \<and> dir_name p = a) (ancestors d), mr2)"
proof -
  from ask_all [OF memo_ok_init assms(1)] obtain mr where
    m: "py_fold ask qs (model_roots_init paths) = py_ret mr" "memo_ok mr" "mr_dirs mr = mr_dirs (model_roots_init paths)" by blast
  have "(\<lambda>a. \<exists>p \<in> set paths. base_name p = MODEL_ROOT_MARKER \<and> dir_name p = a) = (\<lambda>a. a \<in> mr_dirs mr)"
    by (auto simp: m(3) model_roots_init_def)
  with root_of_dir_spec [OF m(2) assms(2)] m(1) show ?thesis by (auto simp: deepest_def)
qed

theorem root_of_dir_deepest_witness:
  "\<exists>mr mr2. py_fold ask [''a/b'', ''c''] (model_roots_init [''a/datapackage.json'', ''a/b/x.stl'']) = py_ret mr \<and>
     root_of_dir mr ''a/b/d'' = py_ret (Some ''a'', mr2)"
proof -
  have t: "\<forall>q \<in> set [''a/b'', ''c'']. tidy q" "tidy ''a/b/d''" by (simp_all add: tidy_def segs_def)
  have "find (\<lambda>a. \<exists>p \<in> set [''a/datapackage.json'', ''a/b/x.stl'']. base_name p = MODEL_ROOT_MARKER \<and> dir_name p = a)
      (ancestors ''a/b/d'') = Some ''a''"
    by code_simp
  with root_of_dir_deepest [OF t, of "[''a/datapackage.json'', ''a/b/x.stl'']"] show ?thesis by simp
qed

text \<open>
  C31. The plan returns for every catalog with relative paths, and its loose units are exactly the groups of
  files of loose batches by folder: the model root of the file when there is one with at most \<open>n\<close> items,
  its own folder otherwise. A loose unit is complete exactly when all batches of its files are done or failed.
\<close>

theorem plan_groups_loose_files:
  fixes cfs :: "(nat \<times> nat) list"
  assumes "distinct (map sr_id sources)" and "distinct (map cr_id containers)"
    and "\<forall>s \<in> set sources. tidy (sr_path s)" and "0 \<le> n"
  shows "\<exists>units. plan_units sources containers cfs n = py_ret units \<and>
    (let loose = filter (\<lambda>u. us_kind u = ''loose'') units;
         files = loose_sources sources containers cfs;
         folder = (\<lambda>s. folder_of (bundle_roots sources containers cfs n) (marked_dirs sources) (dir_name (sr_path s))) in
     distinct (map us_path loose) \<and>
     (\<forall>s \<in> files. \<exists>u \<in> set loose. us_path u = folder s) \<and>
     (\<forall>u \<in> set loose. distinct (us_files u) \<and> us_files u \<noteq> [] \<and> set (us_files u) = sr_id ` {s \<in> files. folder s = us_path u} \<and>
       us_complete u = (\<forall>s \<in> files. folder s = us_path u \<longrightarrow>
         (\<forall>b \<in> set containers. cr_kind b = Ct_Loose \<and> (cr_id b, sr_id s) \<in> set cfs \<longrightarrow> cr_status b \<in> TERMINAL))))"
proof -
  let ?cont = "by_id cr_id containers" and ?marked = "marked_dirs sources" and ?b = "bundle_roots sources containers cfs n"
  let ?files = "loose_sources sources containers cfs" and ?fo = "\<lambda>s. folder_of ?b ?marked (dir_name (sr_path s))"
  obtain arch lu ss infos where
    spec: "plan_units sources containers cfs n = py_ret (arch @ map (the \<circ> map_of lu) (sort (map fst lu))) \<and>
    infos = concat (map (arch_infos (by_id sr_id sources) ?marked) (archive_tops ?cont)) \<and>
    list_all2 (\<lambda>(c, path, root) u. us_key u = ''archive:'' @ path \<and> us_kind u = ''archive'' \<and> us_root_container u = Some (cr_id c) \<and>
      us_coloc u = coloc_of ?b root) infos arch \<and>
    loose_inv ?cont cfs ?b ?marked ss lu \<and> distinct ss \<and> set ss = ?files"
    using plan_units_spec [OF assms, of cfs] by - (elim exE, rule that)
  note p = spec [THEN conjunct1] and rest = spec [THEN conjunct2, THEN conjunct2]
  note a = rest [THEN conjunct1] and l = rest [THEN conjunct2, THEN conjunct1] and ss = rest [THEN conjunct2, THEN conjunct2]
  let ?us = "map (the \<circ> map_of lu) (sort (map fst lu))"
  from a have "list_all2 (\<lambda>_ u. us_kind u = ''archive'') infos arch" by (rule list_all2_mono) auto
  then have "\<forall>u \<in> set arch. us_kind u = ''archive''" by (auto simp: list_all2_conv_all_nth in_set_conv_nth)
  then have no: "filter (\<lambda>u. us_kind u = ''loose'') arch = []" by (auto simp: filter_empty_conv)
  have at: "(the \<circ> map_of lu) k \<in> set (map snd lu) \<and> us_key ((the \<circ> map_of lu) k) = k \<and>
      unit_for ?cont cfs ?b ?marked ss ((the \<circ> map_of lu) k)" if "k \<in> fst ` set lu" for k
  proof -
    from that obtain u where u: "map_of lu k = Some u" by (metis domD dom_map_of_conv_image_fst)
    then have "u \<in> set (map snd lu)" by (metis map_of_SomeD image_eqI set_map snd_conv)
    with loose_invD [OF l u] u show ?thesis by simp
  qed
  have unit: "unit_for ?cont cfs ?b ?marked ss u" if "u \<in> set ?us" for u using that at by auto
  have yes: "filter (\<lambda>u. us_kind u = ''loose'') ?us = ?us" using unit unit_for_key unfolding filter_id_conv by blast
  have keys: "map us_key ?us = sort (map fst lu)" using at by (auto simp: comp_def intro!: map_idI)
  have "map us_key ?us = map ((@) ''loose:'') (map us_path ?us)" using unit unit_for_key by (simp add: comp_def) blast
  moreover have "distinct (map us_key ?us)" unfolding keys using l by (simp add: loose_inv_def)
  ultimately have dp: "distinct (map us_path ?us)" by (metis distinct_map)
  have cover: "\<exists>u \<in> set ?us. us_path u = ?fo s" if "s \<in> ?files" for s
  proof -
    have k: "''loose:'' @ ?fo s \<in> fst ` set lu" using l that ss [THEN conjunct2] unfolding loose_inv_def by blast
    have "''loose:'' @ us_path ((the \<circ> map_of lu) (''loose:'' @ ?fo s)) = ''loose:'' @ ?fo s"
      using at [OF k] unit_for_key by metis
    then show ?thesis using k by (intro bexI [of _ "(the \<circ> map_of lu) (''loose:'' @ ?fo s)"]) auto
  qed
  have ended: "(\<forall>b \<in> set (batches_of ?cont cfs i). is_terminal ?cont b) \<longleftrightarrow>
      (\<forall>b \<in> set containers. cr_kind b = Ct_Loose \<and> (cr_id b, i) \<in> set cfs \<longrightarrow> cr_status b \<in> TERMINAL)" for i
  proof -
    have m: "map_of ?cont (cr_id b) = Some b" if "b \<in> set containers" for b using map_of_by_id [OF assms(2)] that by blast
    have mem: "c \<in> set (batches_of ?cont cfs i) \<longleftrightarrow> (\<exists>b \<in> set containers. cr_kind b = Ct_Loose \<and> cr_id b = c \<and> (c, i) \<in> set cfs)" for c
    proof -
      have "in_loose ?cont c \<longleftrightarrow> (\<exists>b. map_of ?cont c = Some b \<and> cr_kind b = Ct_Loose)" by (simp add: in_loose_def split: option.splits)
      moreover have "c \<in> set (batches_of ?cont cfs i) \<longleftrightarrow> (c, i) \<in> set cfs \<and> in_loose ?cont c"
        by (force simp: batches_of_def image_iff)
      ultimately show ?thesis unfolding map_of_by_id [OF assms(2)] by auto
    qed
    have bs: "set (batches_of ?cont cfs i) = cr_id ` {b \<in> set containers. cr_kind b = Ct_Loose \<and> (cr_id b, i) \<in> set cfs}"
      by (rule set_eqI, unfold mem) blast
    have "is_terminal ?cont (cr_id b) \<longleftrightarrow> cr_status b \<in> TERMINAL" if "b \<in> set containers" for b
      using m [OF that] by (simp add: is_terminal_def)
    then show ?thesis unfolding bs by auto
  qed
  have each: "distinct (us_files u) \<and> us_files u \<noteq> [] \<and> set (us_files u) = sr_id ` {s \<in> ?files. ?fo s = us_path u} \<and>
      us_complete u = (\<forall>s \<in> ?files. ?fo s = us_path u \<longrightarrow> (\<forall>b \<in> set (batches_of ?cont cfs (sr_id s)). is_terminal ?cont b))"
    if "u \<in> set ?us" for u
  proof -
    let ?mine = "filter (\<lambda>s. ?fo s = us_path u) ss"
    have f: "us_files u = map sr_id ?mine" "?mine \<noteq> []"
      "us_complete u = (\<forall>s \<in> set ?mine. \<forall>b \<in> set (batches_of ?cont cfs (sr_id s)). is_terminal ?cont b)"
      using unit [OF that] unfolding unit_for_def Let_def by blast+
    have "inj_on sr_id (set ?mine)" by (rule inj_on_subset [of _ "set sources"]) (use assms(1) ss [THEN conjunct2] in \<open>auto simp: distinct_map loose_sources_def\<close>)
    then have "distinct (us_files u)" using ss [THEN conjunct1] unfolding f(1) by (simp add: distinct_map)
    moreover have "set (us_files u) = sr_id ` {s \<in> ?files. ?fo s = us_path u}" unfolding f(1) by (simp add: ss [THEN conjunct2])
    moreover have "us_files u \<noteq> []" using f(1,2) by simp
    moreover have "us_complete u = (\<forall>s \<in> ?files. ?fo s = us_path u \<longrightarrow>
        (\<forall>b \<in> set (batches_of ?cont cfs (sr_id s)). is_terminal ?cont b))"
      unfolding f(3) set_filter ss [THEN conjunct2] by blast
    ultimately show ?thesis by blast
  qed
  show ?thesis unfolding p Let_def
  proof (rule exI [of _ "arch @ ?us"], unfold filter_append no append_Nil yes, intro conjI ballI)
    show "distinct (map us_path ?us)" by (rule dp)
  qed (use cover each in \<open>unfold ended, blast+\<close>)
qed

text \<open>A folder with a \<^verbatim>\<open>datapackage.json\<close> and a file below it, in two batches, one of them still pending.\<close>

definition demo_sources :: "source_row list" where
  "demo_sources = [\<lparr>sr_id = 1, sr_path = ''m/datapackage.json'', sr_kind = Sf_Loose\<rparr>, \<lparr>sr_id = 2, sr_path = ''m/x/a.stl'', sr_kind = Sf_Loose\<rparr>]"

definition demo_batch :: "nat \<Rightarrow> ct_status \<Rightarrow> container_row" where
  "demo_batch i st = \<lparr>cr_id = i, cr_kind = Ct_Loose, cr_source = None, cr_parent = None, cr_status = st,
     cr_requeued_from = None, cr_superseded_by = None\<rparr>"

theorem plan_groups_loose_files_witness:
  "\<exists>units. plan_units demo_sources [demo_batch 7 St_Done, demo_batch 8 St_Pending] [(7, 1), (8, 2)] 24 = py_ret units \<and>
     distinct (map us_path (filter (\<lambda>u. us_kind u = ''loose'') units))"
proof -
  have "distinct (map sr_id demo_sources)" "distinct (map cr_id [demo_batch 7 St_Done, demo_batch 8 St_Pending])"
    "\<forall>s \<in> set demo_sources. tidy (sr_path s)" by (simp_all add: demo_sources_def demo_batch_def tidy_def segs_def)
  from plan_groups_loose_files [OF this, of 24 "[(7, 1), (8, 2)]"] show ?thesis by (auto simp: Let_def)
qed

end
