(* ===== verification/PackResolve.thy ===== *)
theory PackResolve
  imports Complex_Main UnionFind PackUnits
begin

text \<open>
  \<^verbatim>\<open>packs/resolve.py\<close> and \<^verbatim>\<open>packs/settings.py\<close>: the tiers that join resolution units into packs, and the write of the
  result. The temporary tables of the SQL are lists of rows; where a query has no \<open>ORDER BY\<close> the rows it
  returns are a parameter of the step, so what is proved holds for every order. Floats are the rationals
  they denote: \<open>fl\<close> is the rounding of a division to the nearest double. The md5 of the database, the
  evidence fingerprint and the LLM judge are parameters; the texts of a rationale are the data they print.
\<close>

subsection \<open>Settings\<close>

record settings =
  ps_commons_k :: int
  ps_candidate_cap :: int
  ps_band_low :: rat
  ps_band_high :: rat
  ps_bundle_items :: int
  ps_colocate :: string
  ps_min_confidence :: rat
  ps_max_llm_units :: nat

definition COLOCATE_MODES :: "string list" where
  "COLOCATE_MODES = [''meshless'', ''all'', ''off'']"

definition default_settings :: "(rat \<Rightarrow> rat) \<Rightarrow> settings" where
  "default_settings fl = \<lparr>ps_commons_k = 5, ps_candidate_cap = 50, ps_band_low = fl (1 / 10), ps_band_high = 1,
     ps_bundle_items = 24, ps_colocate = ''meshless'', ps_min_confidence = fl (7 / 10), ps_max_llm_units = 40\<rparr>"

definition validate :: "settings \<Rightarrow> unit py" where
  "validate s =
     (if ps_colocate s \<notin> set COLOCATE_MODES then py_raise ValueError
      else if \<not> (0 \<le> ps_band_low s \<and> ps_band_low s \<le> ps_band_high s) then py_raise ValueError
      else if ps_commons_k s < 2 then py_raise ValueError
      else py_ret ())"

subsection \<open>The state of a run\<close>

record punit =
  pu_id :: int
  pu_key :: string
  pu_kind :: string
  pu_path :: string
  pu_model_root :: "string option"
  pu_container :: "nat option"
  pu_mesh_count :: int
  pu_mesh_bytes :: int
  pu_tri_sum :: int

type_synonym punits = "(int, punit) dict"

datatype reason = Colocated string | Meshless_Attached string | Identical_Sets int | Strict_Subset int int int |
  Overlap_Below rat | Overlap_Above rat

datatype pack_verdict = Same_Pack | Separate | Unsure | Absorb

record decision =
  dc_verdict :: pack_verdict
  dc_a :: int
  dc_b :: int
  dc_reason :: reason

record resolver =
  rv_uf :: uf
  rv_counts :: "(string, int) dict"
  rv_decisions :: "decision list"
  rv_review :: "(int, string set) dict"
  rv_absorbed :: "int set"

definition bump :: "string \<Rightarrow> int \<Rightarrow> resolver \<Rightarrow> resolver" where
  "bump k n s = s\<lparr>rv_counts := AList.update k (dict_get (rv_counts s) k 0 + n) (rv_counts s)\<rparr>"

definition bump_by :: "string \<Rightarrow> int \<Rightarrow> resolver \<Rightarrow> resolver" where
  "bump_by k n s = (if n = 0 then s else bump k n s)"

definition decide :: "pack_verdict \<Rightarrow> int \<Rightarrow> int \<Rightarrow> reason \<Rightarrow> resolver \<Rightarrow> resolver" where
  "decide v a b why s = s\<lparr>rv_decisions := rv_decisions s @ [\<lparr>dc_verdict = v, dc_a = a, dc_b = b, dc_reason = why\<rparr>]\<rparr>"

text \<open>\<open>if self.uf.union(a, b): yes else: no\<close>.\<close>

definition join_then :: "int \<Rightarrow> int \<Rightarrow> nat option \<Rightarrow> (resolver \<Rightarrow> resolver) \<Rightarrow> (resolver \<Rightarrow> resolver) \<Rightarrow> resolver \<Rightarrow> resolver py" where
  "join_then a b ms yes no s =
     py_bind (uf_union (rv_uf s) a b ms) (\<lambda>(ok, u).
     py_ret (if ok then yes (s\<lparr>rv_uf := u\<rparr>) else no (s\<lparr>rv_uf := u\<rparr>)))"

subsection \<open>Human overrides\<close>

text \<open>The latest human verdict of each unordered pair of unit keys, as the query returns them.\<close>

type_synonym override = "string \<times> string \<times> string"

definition override_step :: "(string, int) dict \<Rightarrow> override \<Rightarrow> (int \<times> int) list \<times> (int \<times> int) list \<times> int \<Rightarrow>
    (int \<times> int) list \<times> (int \<times> int) list \<times> int" where
  "override_step ids row acc = (case row of (ka, kb, verdict) \<Rightarrow> case acc of (must, cannot, unmatched) \<Rightarrow>
     case (map_of ids ka, map_of ids kb) of
       (Some a, Some b) \<Rightarrow>
         if verdict = ''same_pack'' then (must @ [(a, b)], cannot, unmatched)
         else if verdict = ''separate'' then (must, cannot @ [(a, b)], unmatched)
         else (must, cannot, unmatched)
     | _ \<Rightarrow> (must, cannot, unmatched + 1))"

definition key_ids :: "punits \<Rightarrow> (string, int) dict" where
  "key_ids units = fold (\<lambda>(_, u). AList.update (pu_key u) (pu_id u)) units []"

definition human_overrides :: "punits \<Rightarrow> override list \<Rightarrow> (int \<times> int) list \<times> (int \<times> int) list \<times> int" where
  "human_overrides units rws = fold (override_step (key_ids units)) rws ([], [], 0)"

definition apply_must :: "(int \<times> int) list \<Rightarrow> resolver \<Rightarrow> resolver py" where
  "apply_must = py_fold (\<lambda>(a, b). join_then a b None (bump ''human_same_applied'' 1) (bump ''human_conflicts'' 1))"

subsection \<open>Tier 2: co-location\<close>

definition mesh_count :: "punits \<Rightarrow> int \<Rightarrow> int py" where
  "mesh_count units i = py_bind (dict_index units i) (\<lambda>u. py_ret (pu_mesh_count u))"

definition coloc_groups :: "punits \<Rightarrow> (string, string option) dict \<Rightarrow> (string, int list) dict" where
  "coloc_groups units coloc = fold (\<lambda>(_, u) groups. case dict_get coloc (pu_key u) None of
     None \<Rightarrow> groups | Some rt \<Rightarrow> dict_push rt (pu_id u) groups) units []"

fun split_meshy :: "punits \<Rightarrow> int list \<Rightarrow> (int list \<times> int list) py" where
  "split_meshy units [] = py_ret ([], [])"
| "split_meshy units (i # is) =
     py_bind (mesh_count units i) (\<lambda>n. py_bind (split_meshy units is) (\<lambda>(meshy, bare).
     py_ret (if 0 < n then (i # meshy, bare) else if n = 0 then (meshy, i # bare) else (meshy, bare))))"

definition bytes_rank :: "punits \<Rightarrow> int \<Rightarrow> int \<times> int" where
  "bytes_rank units i = (- (case map_of units i of None \<Rightarrow> 0 | Some u \<Rightarrow> pu_mesh_bytes u), i)"

definition coloc_group :: "punits \<Rightarrow> string \<Rightarrow> string \<times> int list \<Rightarrow> resolver \<Rightarrow> resolver py" where
  "coloc_group units mode g s = (case g of (rt, ids) \<Rightarrow>
     let ids = sort ids in
     py_bind (split_meshy units ids) (\<lambda>(meshy, bare).
     case (if mode = ''all'' \<or> meshy = [] then (hd ids, tl ids, Colocated rt)
           else (arg_min_list (bytes_rank units) meshy, bare, Meshless_Attached rt)) of (anchor, joiners, why) \<Rightarrow>
     py_fold (\<lambda>uid. join_then anchor uid None
       (decide Same_Pack anchor uid why \<circ> bump ''coloc_joined'' 1) (bump ''coloc_blocked'' 1)) joiners s))"

definition colocate :: "settings \<Rightarrow> punits \<Rightarrow> (string, string option) dict \<Rightarrow> resolver \<Rightarrow> resolver py" where
  "colocate st units coloc s =
     (if ps_colocate st = ''off'' then py_ret s
      else py_fold (coloc_group units (ps_colocate st)) (coloc_groups units coloc) s)"

subsection \<open>Tier 3: identical mesh sets\<close>

type_synonym mesh_rows = "(int \<times> string) list"

text \<open>\<^verbatim>\<open>tmp_cm\<close>: the distinct pairs of a component and a mesh of one of its units.\<close>

definition comp_meshes :: "(int, int) dict \<Rightarrow> mesh_rows \<Rightarrow> mesh_rows" where
  "comp_meshes cof meshes = remdups (concat (map (\<lambda>(u, sha). case map_of cof u of None \<Rightarrow> [] | Some c \<Rightarrow> [(c, sha)]) meshes))"

definition shas_of :: "mesh_rows \<Rightarrow> int \<Rightarrow> string list" where
  "shas_of cm c = map snd (filter (\<lambda>(d, _). d = c) cm)"

definition set_rows :: "(string \<Rightarrow> string) \<Rightarrow> mesh_rows \<Rightarrow> (int \<times> string \<times> int) list" where
  "set_rows md5 cm = map (\<lambda>c. (c, md5 (join_on (CHR '','') (sort (shas_of cm c))), int (length (shas_of cm c)))) (remdups (map fst cm))"

definition by_hash :: "(int \<times> string \<times> int) list \<Rightarrow> (string, int list) dict" where
  "by_hash rws = fold (\<lambda>(c, h, _). dict_push h c) rws []"

definition comp_sizes :: "(int \<times> string \<times> int) list \<Rightarrow> (int, int) dict" where
  "comp_sizes rws = fold (\<lambda>(c, _, n). AList.update c n) rws []"

definition exact_group :: "(int, int) dict \<Rightarrow> string \<times> int list \<Rightarrow> resolver \<times> (int, int) dict \<Rightarrow>
    (resolver \<times> (int, int) dict) py" where
  "exact_group sizes g acc = (case g of (_, comps) \<Rightarrow> case acc of (s, eg) \<Rightarrow>
     let comps = sort comps in
     py_bind (py_fold (\<lambda>c. join_then (hd comps) c None
         (decide Same_Pack (hd comps) c (Identical_Sets (dict_get sizes c 0)) \<circ> bump ''exact_joined'' 1) (bump ''exact_blocked'' 1))
       (tl comps) s) (\<lambda>s.
     py_ret (s, fold (\<lambda>c. AList.update c (hd comps)) comps eg)))"

definition exact_tier :: "(int \<times> string \<times> int) list \<Rightarrow> resolver \<Rightarrow> (resolver \<times> (int, int) dict) py" where
  "exact_tier rws s = py_fold (exact_group (comp_sizes rws)) (by_hash rws) (s, [])"

subsection \<open>Tier 4: strict subsets\<close>

definition group_meshes :: "(int, int) dict \<Rightarrow> mesh_rows \<Rightarrow> mesh_rows" where
  "group_meshes eg cm = filter (\<lambda>(c, _). map_of eg c = Some c) cm"

definition degree :: "mesh_rows \<Rightarrow> string \<Rightarrow> int" where
  "degree gm sha = int (length (filter (\<lambda>(_, x). x = sha) gm))"

record gstats =
  gs_n :: int
  gs_u1 :: int
  gs_low :: int
  gs_high :: int
  gs_nc :: int

definition count_shas :: "(string \<Rightarrow> bool) \<Rightarrow> mesh_rows \<Rightarrow> int \<Rightarrow> int" where
  "count_shas P gm g = int (length (filter P (shas_of gm g)))"

definition group_stats :: "int \<Rightarrow> int \<Rightarrow> mesh_rows \<Rightarrow> int \<Rightarrow> gstats" where
  "group_stats k cap gm g =
     \<lparr>gs_n = count_shas (\<lambda>_. True) gm g,
      gs_u1 = count_shas (\<lambda>x. degree gm x = 1) gm g,
      gs_low = count_shas (\<lambda>x. 2 \<le> degree gm x \<and> degree gm x \<le> cap) gm g,
      gs_high = count_shas (\<lambda>x. cap < degree gm x) gm g,
      gs_nc = count_shas (\<lambda>x. degree gm x < k) gm g\<rparr>"

definition shared :: "(string \<Rightarrow> bool) \<Rightarrow> mesh_rows \<Rightarrow> int \<Rightarrow> int \<Rightarrow> int" where
  "shared P gm a b = int (length (filter (\<lambda>x. P x \<and> x \<in> set (shas_of gm b)) (shas_of gm a)))"

definition maybe_pairs :: "int \<Rightarrow> int \<Rightarrow> mesh_rows \<Rightarrow> (int \<times> int) list" where
  "maybe_pairs k cap gm =
     (let groups = remdups (map fst gm); low = (\<lambda>x. 2 \<le> degree gm x \<and> degree gm x \<le> cap) in
      concat (map (\<lambda>a. map (Pair a) (filter (\<lambda>b. b \<noteq> a \<and> 0 < shared low gm a b \<and>
        gs_n (group_stats k cap gm a) < gs_n (group_stats k cap gm b) \<and> gs_u1 (group_stats k cap gm a) = 0 \<and>
        shared low gm a b = gs_low (group_stats k cap gm a)) groups)) groups))"

definition high_ok :: "int \<Rightarrow> int \<Rightarrow> mesh_rows \<Rightarrow> (int \<times> int) list \<Rightarrow> (int \<times> int) set" where
  "high_ok k cap gm maybe = {(a, b). (a, b) \<in> set maybe \<and> 0 < gs_high (group_stats k cap gm a) \<and>
     0 < shared (\<lambda>x. cap < degree gm x) gm a b \<and>
     shared (\<lambda>x. cap < degree gm x) gm a b = gs_high (group_stats k cap gm a)}"

definition supersets :: "int \<Rightarrow> int \<Rightarrow> mesh_rows \<Rightarrow> (int \<times> int) list \<Rightarrow> (int, int list) dict" where
  "supersets k cap gm maybe = fold (\<lambda>(a, b) sups.
     if gs_high (group_stats k cap gm a) = 0 \<or> (a, b) \<in> high_ok k cap gm maybe then dict_push a b sups else sups) maybe []"

definition members_of_eg :: "(int, int) dict \<Rightarrow> (int, int list) dict" where
  "members_of_eg eg = fold (\<lambda>(c, g). dict_push g c) eg []"

definition units_of_comp :: "(int, int) dict \<Rightarrow> int \<Rightarrow> int list" where
  "units_of_comp cof c = map fst (filter (\<lambda>(_, d). d = c) cof)"

definition absorb_units :: "int set \<Rightarrow> resolver \<Rightarrow> resolver" where
  "absorb_units us s = s\<lparr>rv_absorbed := rv_absorbed s \<union> us\<rparr>"

definition subset_step :: "(int \<Rightarrow> gstats) \<Rightarrow> (int, int list) dict \<Rightarrow> (int, int list) dict \<Rightarrow> (int, int) dict \<Rightarrow> int \<Rightarrow>
    resolver \<Rightarrow> resolver py" where
  "subset_step stats sups meg comp0 a s =
     (if gs_nc (stats a) = 0 then py_ret (bump ''subset_commons_only'' 1 s)
      else let best = arg_min_list (\<lambda>g. (- gs_n (stats g), g)) (dict_get sups a []) in
        join_then a best None
          (decide Absorb a best (Strict_Subset (gs_n (stats a)) (gs_n (stats best)) (int (length (dict_get sups a [])))) \<circ>
           absorb_units (set (concat (map (units_of_comp comp0) (dict_get meg a [])))) \<circ> bump ''subset_absorbed'' 1)
          (bump ''subset_blocked'' 1) s)"

definition exact_and_subset :: "settings \<Rightarrow> mesh_rows \<Rightarrow> (mesh_rows \<Rightarrow> (int \<times> string \<times> int) list) \<Rightarrow>
    ((int \<times> int) list \<Rightarrow> (int \<times> int) list) \<Rightarrow> resolver \<Rightarrow> resolver py" where
  "exact_and_subset st meshes set_query order_pairs s =
     py_bind (uf_comp_of (rv_uf s)) (\<lambda>comp0.
     let cm = comp_meshes comp0 meshes in
     py_bind (exact_tier (set_query cm) s) (\<lambda>(s, eg).
     let gm = group_meshes eg cm; k = ps_commons_k st; cap = ps_candidate_cap st;
         maybe = order_pairs (maybe_pairs k cap gm); sups = supersets k cap gm maybe in
     py_fold (subset_step (group_stats k cap gm) sups (members_of_eg eg) comp0) (sort (dict_keys sups))
       (bump ''subset_pairs'' (int (length maybe)) s)))"

subsection \<open>Tier 5: partial overlap\<close>

record cstats =
  cs_meshes :: int
  cs_bytes :: int
  cs_nc :: int
  cs_nc_bytes :: int

definition comp_stats :: "(string \<Rightarrow> int) \<Rightarrow> int \<Rightarrow> mesh_rows \<Rightarrow> int \<Rightarrow> cstats" where
  "comp_stats sz k cm c =
     (let shas = shas_of cm c; nc = filter (\<lambda>x. degree cm x < k) shas in
      \<lparr>cs_meshes = int (length shas), cs_bytes = sum_list (map sz shas), cs_nc = int (length nc), cs_nc_bytes = sum_list (map sz nc)\<rparr>)"

definition overlap_rows :: "(string \<Rightarrow> int) \<Rightarrow> int \<Rightarrow> mesh_rows \<Rightarrow> (int \<times> int \<times> int \<times> int) list" where
  "overlap_rows sz k cm =
     (let comps = remdups (map fst cm);
          common = (\<lambda>a b. filter (\<lambda>x. 2 \<le> degree cm x \<and> degree cm x \<le> k - 1 \<and> x \<in> set (shas_of cm b)) (shas_of cm a)) in
      concat (map (\<lambda>a. map (\<lambda>b. (a, b, int (length (common a b)), sum_list (map sz (common a b))))
        (filter (\<lambda>b. a < b \<and> common a b \<noteq> []) comps)) comps))"

record pair =
  pr_a :: int
  pr_b :: int
  pr_shared :: int
  pr_bytes :: int
  pr_ratio :: rat

definition overlap_ratio :: "(rat \<Rightarrow> rat) \<Rightarrow> int \<Rightarrow> int \<Rightarrow> rat" where
  "overlap_ratio fl shared_n smaller = (if smaller = 0 then 0 else fl (of_int shared_n / of_int smaller))"

definition overlap_step :: "(rat \<Rightarrow> rat) \<Rightarrow> settings \<Rightarrow> (int \<Rightarrow> cstats) \<Rightarrow> int \<times> int \<times> int \<times> int \<Rightarrow> resolver \<times> pair list \<Rightarrow>
    (resolver \<times> pair list) py" where
  "overlap_step fl st cs row acc = (case row of (a, b, n, bytes) \<Rightarrow> case acc of (s, pairs) \<Rightarrow>
     let ratio = overlap_ratio fl n (min (cs_nc (cs a)) (cs_nc (cs b))) in
     if ratio < ps_band_low st then
       py_ret (decide Separate a b (Overlap_Below ratio) (bump ''band_below'' 1 s), pairs)
     else if ratio > ps_band_high st then
       py_bind (join_then a b None (decide Same_Pack a b (Overlap_Above ratio)) id (bump ''band_above'' 1 s)) (\<lambda>s.
       py_ret (s, pairs))
     else py_ret (s, pairs @ [\<lparr>pr_a = a, pr_b = b, pr_shared = n, pr_bytes = bytes, pr_ratio = ratio\<rparr>]))"

definition pair_rank :: "pair \<Rightarrow> int \<times> int \<times> int" where
  "pair_rank p = (- pr_bytes p, pr_a p, pr_b p)"

definition partial_overlap :: "(rat \<Rightarrow> rat) \<Rightarrow> settings \<Rightarrow> (string \<Rightarrow> int) \<Rightarrow> mesh_rows \<Rightarrow>
    ((int \<times> int \<times> int \<times> int) list \<Rightarrow> (int \<times> int \<times> int \<times> int) list) \<Rightarrow> resolver \<Rightarrow>
    ((int, int) dict \<times> resolver \<times> pair list) py" where
  "partial_overlap fl st sz meshes order_rows s =
     py_bind (uf_comp_of (rv_uf s)) (\<lambda>comp1.
     let k = ps_commons_k st; cm = comp_meshes comp1 meshes; rws = order_rows (overlap_rows sz k cm);
         commons = filter (\<lambda>x. k \<le> degree cm x) (remdups (map snd cm)) in
     py_bind (py_fold (overlap_step fl st (comp_stats sz k cm)) rws
       (bump ''overlap_pairs'' (int (length rws)) (bump ''commons_blobs'' (int (length commons)) s), [])) (\<lambda>(s, pairs).
     py_ret (comp1, bump ''band_llm_pairs'' (int (length pairs)) s, sort_key pair_rank pairs)))"

subsection \<open>The judge's tier\<close>

record verdict =
  vd_verdict :: pack_verdict
  vd_confidence :: rat
  vd_reason :: string
  vd_error :: "string option"

definition unsure :: "string \<Rightarrow> verdict" where
  "unsure err = \<lparr>vd_verdict = Unsure, vd_confidence = 0, vd_reason = [], vd_error = Some err\<rparr>"

definition RETRYABLE_ERROR_PREFIXES :: "string list" where
  "RETRYABLE_ERROR_PREFIXES = [''transport:'', ''http '', ''no attempt'']"

text \<open>\<open>_cached\<close>: the last LLM decision of each fingerprint under the current prompt, retryable errors left out.\<close>

type_synonym cached_row = "string \<times> verdict"

definition cached :: "cached_row list \<Rightarrow> (string, verdict) dict" where
  "cached rws = fold (\<lambda>(fp, v) out. case vd_error v of
     Some e \<Rightarrow> if e \<noteq> [] \<and> starts_any RETRYABLE_ERROR_PREFIXES e then out else AList.update fp v out
   | None \<Rightarrow> AList.update fp v out) rws []"

record llm_row =
  lr_pair :: pair
  lr_fp :: string
  lr_verdict :: verdict
  lr_needs_review :: bool

definition llm_row_of :: "settings \<Rightarrow> pair \<Rightarrow> string \<Rightarrow> verdict \<Rightarrow> llm_row" where
  "llm_row_of st p fp v = \<lparr>lr_pair = p, lr_fp = fp, lr_verdict = v,
     lr_needs_review = (vd_verdict v = Unsure \<or> vd_error v \<noteq> None \<or> vd_confidence v < ps_min_confidence st)\<rparr>"

definition comp_members :: "(int, int) dict \<Rightarrow> int \<Rightarrow> int list" where
  "comp_members cof c = (let ms = units_of_comp cof c in if ms = [] then [c] else ms)"

definition add_reason :: "string \<Rightarrow> int \<Rightarrow> resolver \<Rightarrow> resolver" where
  "add_reason why uid s = s\<lparr>rv_review := AList.update uid (insert why (dict_get (rv_review s) uid {})) (rv_review s)\<rparr>"

definition flag :: "(int, int) dict \<Rightarrow> pair \<Rightarrow> string \<Rightarrow> resolver \<Rightarrow> resolver" where
  "flag comp1 p why s = fold (add_reason why) (comp_members comp1 (pr_a p) @ comp_members comp1 (pr_b p)) s"

definition llm_scan_step :: "(pair \<Rightarrow> string) \<Rightarrow> (string, verdict) dict \<Rightarrow> pair \<Rightarrow>
    resolver \<times> (pair \<times> string) list \<times> (pair \<times> verdict) list \<Rightarrow>
    (resolver \<times> (pair \<times> string) list \<times> (pair \<times> verdict) list) py" where
  "llm_scan_step fingerprint cache p acc = (case acc of (s, todo, resolved) \<Rightarrow>
     py_bind (uf_can_union (rv_uf s) (pr_a p) (pr_b p)) (\<lambda>(ok, u).
     if \<not> ok then py_ret (bump ''llm_skipped_human_separate'' 1 (s\<lparr>rv_uf := u\<rparr>), todo, resolved)
     else py_bind (uf_find u (pr_a p)) (\<lambda>(ra, u). py_bind (uf_find u (pr_b p)) (\<lambda>(rb, u).
       let s = s\<lparr>rv_uf := u\<rparr> in
       if ra = rb then py_ret (bump ''llm_skipped_already_joined'' 1 s, todo, resolved)
       else (case map_of cache (fingerprint p) of
           Some v \<Rightarrow> py_ret (bump ''llm_cached'' 1 s, todo, resolved @ [(p, v)])
         | None \<Rightarrow> py_ret (s, todo @ [(p, fingerprint p)], resolved))))))"

definition verdict_name :: "pack_verdict \<Rightarrow> string" where
  "verdict_name v = (case v of Same_Pack \<Rightarrow> ''llm_same_pack'' | Separate \<Rightarrow> ''llm_separate'' | Unsure \<Rightarrow> ''llm_unsure'' | Absorb \<Rightarrow> ''llm_absorb'')"

definition llm_apply_step :: "settings \<Rightarrow> (int, int) dict \<Rightarrow> pair \<times> verdict \<Rightarrow> resolver \<Rightarrow> resolver py" where
  "llm_apply_step st comp1 pv s = (case pv of (p, v) \<Rightarrow>
     let s = bump (verdict_name (vd_verdict v)) 1 s in
     if vd_verdict v = Same_Pack \<and> ps_min_confidence st \<le> vd_confidence v then
       py_bind (uf_can_union (rv_uf s) (pr_a p) (pr_b p)) (\<lambda>(ok, u).
       if \<not> ok then py_ret (flag comp1 p ''human_separate_blocks_llm'' (s\<lparr>rv_uf := u\<rparr>))
       else join_then (pr_a p) (pr_b p) (Some (ps_max_llm_units st)) (bump ''llm_joined'' 1)
         (flag comp1 p ''chain_guard'' \<circ> bump ''llm_chain_guard'' 1) (s\<lparr>rv_uf := u\<rparr>))
     else if vd_verdict v = Same_Pack \<or> vd_verdict v = Unsure then
       py_ret (flag comp1 p ''pair_unsure'' (bump ''llm_needs_review'' 1 s))
     else py_ret s)"

text \<open>The judge is asked for the pairs without a cached verdict, up to the limit, and not at all without an
  endpoint or in a dry run; the verdicts come in any order \<open>arrive\<close>.\<close>

definition llm_tier :: "settings \<Rightarrow> bool \<Rightarrow> int option \<Rightarrow> (pair \<Rightarrow> string) \<Rightarrow> (pair \<Rightarrow> verdict) \<Rightarrow>
    ((pair \<times> string) list \<Rightarrow> (pair \<times> string) list) \<Rightarrow> cached_row list \<Rightarrow> (int, int) dict \<Rightarrow> pair list \<Rightarrow> resolver \<Rightarrow>
    (llm_row list \<times> resolver) py" where
  "llm_tier st asks limit fingerprint judge arrive cache_rows comp1 pairs s =
     py_bind (py_fold (llm_scan_step fingerprint (cached cache_rows)) pairs (s, [], [])) (\<lambda>(s, todo, resolved).
     let s = bump ''llm_needed'' (int (length todo)) s;
         (todo, s) = (if \<not> asks then ([], bump ''llm_deferred'' (int (length todo)) s)
           else case limit of None \<Rightarrow> (todo, s)
             | Some n \<Rightarrow> if n < int (length todo)
                 then (if 0 \<le> n then take (nat n) todo else take (length todo - nat (- n)) todo,
                       bump ''llm_deferred'' (int (length todo) - n) s)
                 else (todo, s));
         answers = map (\<lambda>(p, fp). (p, fp, judge p)) (arrive todo);
         s = bump_by ''llm_called'' (int (length answers)) s;
         resolved = sort_key (pair_rank \<circ> fst) (resolved @ map (\<lambda>(p, fp, v). (p, v)) answers) in
     py_bind (py_fold (llm_apply_step st comp1) resolved s) (\<lambda>s.
     py_ret (map (\<lambda>(p, fp, v). llm_row_of st p fp v) answers, s)))"

subsection \<open>The tiers in order\<close>

record sql_answers =
  sa_md5 :: "string \<Rightarrow> string"
  sa_sets :: "mesh_rows \<Rightarrow> (int \<times> string \<times> int) list"
  sa_pairs :: "(int \<times> int) list \<Rightarrow> (int \<times> int) list"
  sa_overlaps :: "(int \<times> int \<times> int \<times> int) list \<Rightarrow> (int \<times> int \<times> int \<times> int) list"
  sa_overrides :: "override list"
  sa_cache :: "cached_row list"
  sa_meshes :: mesh_rows
  sa_size :: "string \<Rightarrow> int"

record llm_side =
  ll_asks :: bool
  ll_limit :: "int option"
  ll_fingerprint :: "pair \<Rightarrow> string"
  ll_judge :: "pair \<Rightarrow> verdict"
  ll_arrive :: "(pair \<times> string) list \<Rightarrow> (pair \<times> string) list"

definition resolver_init :: "uf \<Rightarrow> resolver" where
  "resolver_init u = \<lparr>rv_uf = u, rv_counts = [], rv_decisions = [], rv_review = [], rv_absorbed = {}\<rparr>"

definition run_tiers :: "(rat \<Rightarrow> rat) \<Rightarrow> settings \<Rightarrow> punits \<Rightarrow> (string, string option) dict \<Rightarrow> sql_answers \<Rightarrow> llm_side \<Rightarrow>
    (llm_row list \<times> resolver) py" where
  "run_tiers fl st units coloc sql llm =
     (case human_overrides units (sa_overrides sql) of (must, cannot, unmatched) \<Rightarrow>
      py_bind (uf_init (sort (dict_keys units)) cannot) (\<lambda>u.
      py_bind (apply_must must (bump_by ''human_unmatched'' unmatched (resolver_init u))) (\<lambda>s.
      py_bind (colocate st units coloc (bump ''human_separate_applied'' (int (length cannot)) s)) (\<lambda>s.
      py_bind (exact_and_subset st (sa_meshes sql) (sa_sets sql) (sa_pairs sql) s) (\<lambda>s.
      py_bind (partial_overlap fl st (sa_size sql) (sa_meshes sql) (sa_overlaps sql) s) (\<lambda>(comp1, s, pairs).
      llm_tier st (ll_asks llm) (ll_limit llm) (ll_fingerprint llm) (ll_judge llm) (ll_arrive llm) (sa_cache sql) comp1 pairs s))))))"

end
