(* ===== verification/PackWrite.thy ===== *)
theory PackWrite
  imports PackResolve
begin

text \<open>
  \<open>_write\<close> of \<^verbatim>\<open>packs/resolve.py\<close>: pack ids for the components of the union-find (reused by the vote of the
  members' previous packs), the role of every unit, and the rows of \<open>packs\<close> and \<open>pack_containers\<close>. The tables
  it changes are the record \<open>pack_db\<close>; \<open>container_files\<close>, the loose batches and \<open>pack_unit_sources\<close> are read only.
  The items of the union-find are the keys of \<open>units\<close>, as the run builds it, so the look-ups of a unit do not raise.
\<close>

datatype role = Primary | Source | Absorbed

datatype pack_status = Provisional | Resolved | Materialized

record pack_row =
  pk_status :: pack_status
  pk_units :: int
  pk_meshes :: int
  pk_bytes :: int
  pk_reasons :: "string list"
  pk_needs_review :: bool

record pack_db =
  pd_units :: "(int, (int \<times> role) option) dict"
  pd_packs :: "(int, pack_row) dict"
  pd_next :: int
  pd_containers :: "(int \<times> nat \<times> role) list"
  pd_decisions :: "decision list"

subsection \<open>Pack ids\<close>

definition existing_packs :: "pack_db \<Rightarrow> (int, int) dict" where
  "existing_packs d = concat (map (\<lambda>(u, x). case x of None \<Rightarrow> [] | Some (p, _) \<Rightarrow> [(u, p)]) (pd_units d))"

definition votes :: "(int, int) dict \<Rightarrow> int list \<Rightarrow> (int, int) dict" where
  "votes existing ms = fold (\<lambda>u v. case map_of existing u of None \<Rightarrow> v
     | Some p \<Rightarrow> AList.update p (dict_get v p 0 + 1) v) ms []"

definition choose_pack :: "int set \<Rightarrow> (int, int) dict \<Rightarrow> int option" where
  "choose_pack taken v = find (\<lambda>p. p \<notin> taken) (map fst (sort_key (\<lambda>(p, n). (- n, p)) v))"

definition assign_step :: "(int, int) dict \<Rightarrow> int \<times> int list \<Rightarrow> int set \<times> (int, int option) dict \<Rightarrow>
    int set \<times> (int, int option) dict" where
  "assign_step existing cms acc = (case cms of (c, ms) \<Rightarrow> case acc of (taken, assign) \<Rightarrow>
     let choice = choose_pack taken (votes existing ms) in
     (case choice of None \<Rightarrow> taken | Some p \<Rightarrow> insert p taken, AList.update c choice assign))"

definition comp_order :: "(int, int list) dict \<Rightarrow> (int, int list) dict" where
  "comp_order comps = sort_key (\<lambda>(c, ms). (- int (length ms), c)) comps"

definition new_ids :: "int \<Rightarrow> nat \<Rightarrow> int list" where
  "new_ids next n = map (\<lambda>i. next + int i) [0..<n]"

definition assign_packs :: "(int, int list) dict \<Rightarrow> (int, int) dict \<Rightarrow> int \<Rightarrow> (int, int) dict \<times> int list" where
  "assign_packs comps existing next =
     (let order = comp_order comps;
          (taken, assign) = fold (assign_step existing) order ({}, []);
          need = map fst (filter (\<lambda>(c, _). dict_get assign c None = None) order);
          fresh = new_ids next (length need);
          assign = fold (\<lambda>(c, p). AList.update c (Some p)) (zip need fresh) assign in
      (concat (map (\<lambda>(c, x). case x of None \<Rightarrow> [] | Some p \<Rightarrow> [(c, p)]) assign), fresh))"

subsection \<open>Roles and review reasons\<close>

definition mesh_rank :: "punits \<Rightarrow> int \<Rightarrow> int \<times> int" where
  "mesh_rank units u = (- (case map_of units u of None \<Rightarrow> 0 | Some x \<Rightarrow> pu_mesh_count x), u)"

definition primary_of :: "punits \<Rightarrow> int set \<Rightarrow> int list \<Rightarrow> int" where
  "primary_of units absorbed ms =
     (let rest = filter (\<lambda>u. u \<notin> absorbed) ms in arg_min_list (mesh_rank units) (if rest = [] then ms else rest))"

definition role_of :: "punits \<Rightarrow> int set \<Rightarrow> int list \<Rightarrow> int \<Rightarrow> role" where
  "role_of units absorbed ms u =
     (if u = primary_of units absorbed ms then Primary else if u \<in> absorbed then Absorbed else Source)"

type_synonym assign_rows = "(int \<times> int \<times> role) list"

definition unit_rows :: "punits \<Rightarrow> int set \<Rightarrow> (int, int) dict \<Rightarrow> (int, int list) dict \<Rightarrow> assign_rows" where
  "unit_rows units absorbed assign comps =
     concat (map (\<lambda>(c, ms). map (\<lambda>u. (u, dict_get assign c 0, role_of units absorbed ms u)) ms) comps)"

definition pack_reasons :: "(int, string set) dict \<Rightarrow> assign_rows \<Rightarrow> int \<Rightarrow> string set" where
  "pack_reasons review arows p = \<Union> (set (map (\<lambda>(u, _, _). dict_get review u {}) (filter (\<lambda>(_, q, _). q = p) arows)))"

subsection \<open>The tables\<close>

definition pack_of :: "assign_rows \<Rightarrow> int \<Rightarrow> (int \<times> role) option" where
  "pack_of arows u = map_of (map (\<lambda>(u, p, r). (u, (p, r))) arows) u"

definition assigned_ids :: "assign_rows \<Rightarrow> int set" where
  "assigned_ids arows = set (map (\<lambda>(_, p, _). p) arows)"

definition update_units :: "assign_rows \<Rightarrow> pack_db \<Rightarrow> pack_db" where
  "update_units arows d = d\<lparr>pd_units := map (\<lambda>(u, x). (u, pack_of arows u)) (pd_units d)\<rparr>"

definition delete_packs :: "assign_rows \<Rightarrow> pack_db \<Rightarrow> pack_db" where
  "delete_packs arows d =
     (let gone = set (map fst (filter (\<lambda>(p, r). pk_status r \<noteq> Provisional \<and> p \<notin> assigned_ids arows) (pd_packs d))) in
      d\<lparr>pd_packs := filter (\<lambda>(p, _). p \<notin> gone) (pd_packs d),
        pd_containers := filter (\<lambda>(p, _, _). p \<notin> gone) (pd_containers d)\<rparr>)"

text \<open>\<open>y LIKE 'classify_%'\<close>, where the underscore stands for any one character.\<close>

definition classify_reason :: "string \<Rightarrow> bool" where
  "classify_reason y \<longleftrightarrow> take 8 y = ''classify'' \<and> 8 < length y"

definition pack_blobs :: "assign_rows \<Rightarrow> mesh_rows \<Rightarrow> int \<Rightarrow> string list" where
  "pack_blobs arows meshes p = remdups (concat (map (\<lambda>(u, q, _). if q = p then map snd (filter (\<lambda>(v, _). v = u) meshes) else []) arows))"

definition refreshed_pack :: "assign_rows \<Rightarrow> mesh_rows \<Rightarrow> (string \<Rightarrow> int) \<Rightarrow> (int, string set) dict \<Rightarrow> int \<Rightarrow> pack_row \<Rightarrow> pack_row" where
  "refreshed_pack arows meshes sz review p r =
     (let blobs = pack_blobs arows meshes p in
      \<lparr>pk_status = (if pk_status r = Materialized then Materialized else Resolved),
       pk_units = int (length (filter (\<lambda>(_, q, _). q = p) arows)), pk_meshes = int (length blobs), pk_bytes = sum_list (map sz blobs),
       pk_reasons = sorted_list_of_set (pack_reasons review arows p \<union> set (filter classify_reason (pk_reasons r))),
       pk_needs_review = pk_needs_review r\<rparr>)"

definition update_packs :: "assign_rows \<Rightarrow> mesh_rows \<Rightarrow> (string \<Rightarrow> int) \<Rightarrow> (int, string set) dict \<Rightarrow> pack_db \<Rightarrow> pack_db" where
  "update_packs arows meshes sz review d = d\<lparr>pd_packs := map (\<lambda>(p, r).
     let r = (if p \<in> assigned_ids arows then refreshed_pack arows meshes sz review p r else r) in
     (p, r\<lparr>pk_needs_review := pk_reasons r \<noteq> []\<rparr>)) (pd_packs d)\<rparr>"

subsection \<open>Whole loose batches\<close>

record cover =
  cv_files :: int
  cv_covered :: int
  cv_packs :: "int list"
  cv_rank :: int

text \<open>The rows of the join for one batch: one per file and unit, and one for a file without a unit.\<close>

definition cover_rows :: "assign_rows \<Rightarrow> (int \<times> nat) list \<Rightarrow> nat list \<Rightarrow> (int \<times> role) option list" where
  "cover_rows arows sources fids = concat (map (\<lambda>sid.
     let us = map fst (filter (\<lambda>(_, s). s = sid) sources) in
     if us = [] then [None] else map (pack_of arows) us) fids)"

definition role_rank :: "(int \<times> role) option \<Rightarrow> int" where
  "role_rank x = (case x of Some (_, Primary) \<Rightarrow> 0 | Some (_, Source) \<Rightarrow> 1 | _ \<Rightarrow> 2)"

definition batch_cover :: "(int \<times> role) option list \<Rightarrow> cover" where
  "batch_cover xs = \<lparr>cv_files = int (length xs), cv_covered = int (length (filter (\<lambda>x. x \<noteq> None) xs)),
     cv_packs = remdups (concat (map (\<lambda>x. case x of None \<Rightarrow> [] | Some (p, _) \<Rightarrow> [p]) xs)),
     cv_rank = fold (\<lambda>x m. min (role_rank x) m) xs 2\<rparr>"

definition whole_batch :: "cover \<Rightarrow> bool" where
  "whole_batch cv \<longleftrightarrow> length (cv_packs cv) = 1 \<and> cv_covered cv = cv_files cv"

definition rank_role :: "int \<Rightarrow> role" where
  "rank_role n = (if n = 0 then Primary else if n = 1 then Source else Absorbed)"

definition batch_rows :: "assign_rows \<Rightarrow> (int \<times> nat) list \<Rightarrow> (nat, nat list) dict \<Rightarrow> (int \<times> nat \<times> role) list" where
  "batch_rows arows sources batches = concat (map (\<lambda>(cid, fids).
     let cv = batch_cover (cover_rows arows sources fids) in
     if 0 < cv_covered cv \<and> whole_batch cv then [(hd (cv_packs cv), cid, rank_role (cv_rank cv))] else []) batches)"

definition archive_rows :: "assign_rows \<Rightarrow> punits \<Rightarrow> (int \<times> nat \<times> role) list" where
  "archive_rows arows units = concat (map (\<lambda>(u, p, r). case Option.bind (map_of units u) pu_container of
     None \<Rightarrow> [] | Some cid \<Rightarrow> [(p, cid, r)]) arows)"

text \<open>The primary key of \<open>pack_containers\<close> refuses a second row for a pack and a container.\<close>

definition insert_pack_containers :: "(int \<times> nat \<times> role) list \<Rightarrow> pack_db \<Rightarrow> pack_db py" where
  "insert_pack_containers new d =
     (if distinct (map (\<lambda>(p, c, _). (p, c)) (pd_containers d @ new))
      then py_ret (d\<lparr>pd_containers := pd_containers d @ new\<rparr>) else py_raise ValueError)"

definition fresh_pack :: pack_row where
  "fresh_pack = \<lparr>pk_status = Resolved, pk_units = 0, pk_meshes = 0, pk_bytes = 0, pk_reasons = [], pk_needs_review = False\<rparr>"

definition insert_packs :: "int list \<Rightarrow> pack_db \<Rightarrow> pack_db" where
  "insert_packs fresh d = d\<lparr>pd_packs := pd_packs d @ map (\<lambda>p. (p, fresh_pack)) fresh, pd_next := pd_next d + int (length fresh)\<rparr>"

definition clear_containers :: "assign_rows \<Rightarrow> pack_db \<Rightarrow> pack_db" where
  "clear_containers arows d = d\<lparr>pd_containers := filter (\<lambda>(p, _, _). p \<notin> assigned_ids arows) (pd_containers d)\<rparr>"

definition write_packs :: "punits \<Rightarrow> mesh_rows \<Rightarrow> (string \<Rightarrow> int) \<Rightarrow> (int \<times> nat) list \<Rightarrow> (nat, nat list) dict \<Rightarrow> resolver \<Rightarrow>
    pack_db \<Rightarrow> (assign_rows \<times> pack_db) py" where
  "write_packs units meshes sz sources batches s d =
     py_bind (uf_components (rv_uf s)) (\<lambda>comps.
     case assign_packs comps (existing_packs d) (pd_next d) of (assign, fresh) \<Rightarrow>
     let arows = unit_rows units (rv_absorbed s) assign comps;
         d = insert_packs fresh d;
         d = update_packs arows meshes sz (rv_review s) (delete_packs arows (update_units arows d)) in
     py_bind (insert_pack_containers (archive_rows arows units @ batch_rows arows sources batches) (clear_containers arows d)) (\<lambda>d.
     py_ret (arows, d\<lparr>pd_decisions := rv_decisions s\<rparr>)))"

end
