(* ===== verification/PackResolveProps.thy ===== *)
theory PackResolveProps
  imports PackResolve "HOL-Library.Multiset"
begin

text \<open>
  Every tier is a sequence of joins of the union-find, so what its contract promises for joins holds of a whole
  resolve run: it returns, and units a human separated are never in one pack. The subset candidates, which
  the code finds by counting blobs of low degree, are exactly the strict subsets with such a blob.
\<close>

subsection \<open>Computations that only join\<close>

lemma advances_equiv: "uf_equiv u v \<Longrightarrow> uf_inv v \<Longrightarrow> ufp.advances u v"
  by (simp add: ufp.advances_def uf_equiv_items uf_equiv_same uf_apart_equiv)

lemma comp_of_total: "uf_inv u \<Longrightarrow> \<exists>m. uf_comp_of u = py_ret m"
  using uf_comp_of_spec by blast

lemma comp_of_range:
  assumes "uf_inv u" and "uf_comp_of u = py_ret m" and "map_of m x = Some c"
  shows "c \<in> uf_items u" "x \<in> uf_items u"
proof -
  from uf_comp_of_spec [OF assms(1)] assms(2,3) have m: "x \<in> uf_items u" "c = Min {z. uf_same u z x}"
    by (auto split: if_splits)
  have "{z. uf_same u z x} \<noteq> {}" using uf_same_refl [OF assms(1) m(1)] by blast
  with Min_in [OF uf_class_finite] m(2) have "uf_same u c x" by blast
  then show "c \<in> uf_items u" "x \<in> uf_items u" using uf_same_items by blast+
qed

lemma uf_frame [simp]:
  "rv_uf (bump k n s) = rv_uf s" "rv_uf (bump_by k n s) = rv_uf s" "rv_uf (decide v a b why s) = rv_uf s"
  "rv_uf (absorb_units us s) = rv_uf s" "rv_uf (add_reason txt i s) = rv_uf s"
  by (simp_all add: bump_def bump_by_def decide_def absorb_units_def add_reason_def)

lemma uf_flag [simp]: "rv_uf (flag comp1 p why s) = rv_uf s"
proof -
  have "rv_uf (fold (add_reason why) xs s) = rv_uf s" for xs s by (induction xs arbitrary: s) simp_all
  then show ?thesis by (simp add: flag_def)
qed

text \<open>A relation between states of the union-find that every join with an allowed size cap establishes.\<close>

locale joins =
  fixes rel :: "uf \<Rightarrow> uf \<Rightarrow> bool" and caps :: "nat option set"
  assumes rel_trans: "rel u v \<Longrightarrow> rel v w \<Longrightarrow> rel u w"
    and rel_advances: "rel u v \<Longrightarrow> ufp.advances u v"
    and rel_equiv: "uf_equiv u v \<Longrightarrow> uf_inv v \<Longrightarrow> rel u v"
    and rel_refl: "rel u u"
    and rel_union: "uf_inv u \<Longrightarrow> a \<in> uf_items u \<Longrightarrow> b \<in> uf_items u \<Longrightarrow> ms \<in> caps \<Longrightarrow>
      uf_union u a b ms = py_ret (ok, v) \<Longrightarrow> rel u v"
begin

definition goes :: "int set \<Rightarrow> uf \<Rightarrow> ('a \<Rightarrow> uf) \<Rightarrow> 'a py \<Rightarrow> bool" where
  "goes I u get m \<longleftrightarrow> (uf_inv u \<and> uf_items u = I \<longrightarrow> (\<exists>v. m = py_ret v \<and> rel u (get v)))"

lemma goes_ret: "get v = u \<Longrightarrow> goes I u get (py_ret v)"
  by (auto simp: goes_def rel_refl)

lemma goes_bind:
  assumes "goes I u g m"
    and "\<And>v. uf_inv u \<Longrightarrow> uf_items u = I \<Longrightarrow> m = py_ret v \<Longrightarrow> goes I (g v) h (f v)"
  shows "goes I u h (py_bind m f)"
  unfolding goes_def
proof
  assume u: "uf_inv u \<and> uf_items u = I"
  with assms(1) obtain v where v: "m = py_ret v" "rel u (g v)" by (auto simp: goes_def)
  with u have "uf_inv (g v) \<and> uf_items (g v) = I" using rel_advances by (auto simp: ufp.advances_def)
  with assms(2) [of v] u v(1) obtain w where "f v = py_ret w" "rel (g v) (h w)" by (auto simp: goes_def)
  with v show "\<exists>w. py_bind m f = py_ret w \<and> rel u (h w)" by (auto intro: rel_trans)
qed

lemma goes_bind_pair:
  assumes "goes I u g m"
    and "\<And>a b. uf_inv u \<Longrightarrow> uf_items u = I \<Longrightarrow> m = py_ret (a, b) \<Longrightarrow> goes I (g (a, b)) h (f a b)"
  shows "goes I u h (py_bind m (\<lambda>(a, b). f a b))"
  by (rule goes_bind [OF assms(1)]) (simp add: assms(2) split: prod.split)

lemma goes_bind_snd:
  assumes "goes I u snd m" and "\<And>a b. goes I b h (f a b)"
  shows "goes I u h (py_bind m (\<lambda>(a, b). f a b))"
  by (rule goes_bind_pair [OF assms(1)]) (simp add: assms(2))

lemma goes_fold:
  assumes "\<And>x s. x \<in> set xs \<Longrightarrow> goes I (g s) g (f x s)"
  shows "goes I (g s) g (py_fold f xs s)"
  using assms
proof (induction xs arbitrary: s)
  case (Cons x xs)
  have "goes I (g s) g (f x s)" using Cons.prems by simp
  moreover have "goes I (g v) g (py_fold f xs v)" for v by (rule Cons.IH) (use Cons.prems in simp)
  ultimately show ?case unfolding py_fold.simps by (rule goes_bind)
qed (simp add: goes_ret)

lemma goes_union: "a \<in> I \<Longrightarrow> b \<in> I \<Longrightarrow> ms \<in> caps \<Longrightarrow> goes I u snd (uf_union u a b ms)"
  unfolding goes_def by (metis snd_conv ufp.join_returns rel_union)

lemma goes_can: "a \<in> I \<Longrightarrow> b \<in> I \<Longrightarrow> goes I u snd (uf_can_union u a b)"
  unfolding goes_def by (metis snd_conv uf_can_union_spec rel_equiv)

lemma goes_find: "a \<in> I \<Longrightarrow> goes I u snd (uf_find u a)"
  unfolding goes_def by (metis snd_conv uf_inv_root uf_find_spec rel_equiv)

lemma goes_comp_of: "goes I u (\<lambda>_. u) (uf_comp_of u)"
  unfolding goes_def using comp_of_total rel_refl by auto

lemma goes_join:
  assumes "a \<in> I" and "b \<in> I" and "ms \<in> caps" and "\<And>s. rv_uf (yes s) = rv_uf s" and "\<And>s. rv_uf (no s) = rv_uf s"
  shows "goes I (rv_uf s) rv_uf (join_then a b ms yes no s)"
  unfolding join_then_def
  by (rule goes_bind [OF goes_union [OF assms(1-3)]]) (auto simp: assms(4,5) intro: goes_ret)

lemma goes_same: "goes I (g s) g m \<Longrightarrow> g t = g s \<Longrightarrow> goes I (g t) g m"
  by simp

end

interpretation adv: joins ufp.advances UNIV
proof
  show "ufp.advances u v" if "uf_equiv u v" "uf_inv v" for u v using that by (rule advances_equiv)
  show "ufp.advances u v" if "uf_inv u" "a \<in> uf_items u" "b \<in> uf_items u" "uf_union u a b ms = py_ret (ok, v)" for u a b ms ok v
    using that by (rule ufp.joined_advances)
qed (auto intro: ufp.advances_trans)

subsection \<open>The tiers\<close>

definition units_wf :: "punits \<Rightarrow> bool" where
  "units_wf units \<longleftrightarrow> (\<forall>(i, u) \<in> set units. pu_id u = i)"

abbreviation unit_ids :: "punits \<Rightarrow> int set" where
  "unit_ids units \<equiv> fst ` set units"

lemma key_ids_range: "units_wf units \<Longrightarrow> map_of (key_ids units) k = Some i \<Longrightarrow> i \<in> unit_ids units"
proof -
  assume wf: "units_wf units"
  have "\<forall>k i. map_of (fold (\<lambda>(_, u). AList.update (pu_key u) (pu_id u)) us d) k = Some i \<longrightarrow> i \<in> unit_ids units"
    if "set us \<subseteq> set units" "\<forall>k i. map_of d k = Some i \<longrightarrow> i \<in> unit_ids units" for us d
    using that
  proof (induction us arbitrary: d)
    case (Cons x us)
    obtain j u where x: "x = (j, u)" by (cases x)
    have "pu_id u \<in> unit_ids units" using Cons.prems(1) wf x by (auto simp: units_wf_def image_iff intro!: bexI [of _ x])
    then have "\<forall>k i. map_of (AList.update (pu_key u) (pu_id u) d) k = Some i \<longrightarrow> i \<in> unit_ids units"
      using Cons.prems(2) by simp
    from Cons.IH [OF _ this] Cons.prems(1) show ?case by (simp add: x)
  qed simp
  from this [of units "[]"] show "map_of (key_ids units) k = Some i \<Longrightarrow> i \<in> unit_ids units" by (simp add: key_ids_def)
qed

lemma set_update: "x \<in> set (AList.update k v d) \<Longrightarrow> x = (k, v) \<or> x \<in> set d"
  by (induction d) (auto split: if_splits)

lemma overrides_fold:
  fixes ids :: "(string, int) dict"
  assumes ids: "\<And>k i. map_of ids k = Some i \<Longrightarrow> i \<in> I"
  shows "fold (override_step ids) rws (m, c, n) = (m', c', n') \<Longrightarrow> set m \<subseteq> I \<times> I \<Longrightarrow>
    set m' \<subseteq> I \<times> I \<and> set c \<subseteq> set c' \<and>
    (\<forall>ka kb a b. (ka, kb, ''separate'') \<in> set rws \<longrightarrow> map_of ids ka = Some a \<longrightarrow> map_of ids kb = Some b \<longrightarrow> (a, b) \<in> set c')"
proof (induction rws arbitrary: m c n)
  case (Cons r rws)
  obtain ka kb v where r: "r = (ka, kb, v)" by (cases r)
  obtain m1 c1 n1 where st: "override_step ids r (m, c, n) = (m1, c1, n1)" by (cases "override_step ids r (m, c, n)")
  have one: "set m1 \<subseteq> I \<times> I" "set c \<subseteq> set c1"
      "v = ''separate'' \<Longrightarrow> map_of ids ka = Some a \<Longrightarrow> map_of ids kb = Some b \<Longrightarrow> (a, b) \<in> set c1" for a b
    using st Cons.prems(2) ids by (auto simp: override_step_def r split: option.splits if_splits)
  from Cons.IH [of m1 c1 n1] Cons.prems(1) st one(1) have rest: "set m' \<subseteq> I \<times> I" "set c1 \<subseteq> set c'"
      "(ka', kb', ''separate'') \<in> set rws \<Longrightarrow> map_of ids ka' = Some a \<Longrightarrow> map_of ids kb' = Some b \<Longrightarrow> (a, b) \<in> set c'" for ka' kb' a b
    by auto
  show ?case
  proof (intro conjI allI impI)
    fix ka' kb' a b assume h: "(ka', kb', ''separate'') \<in> set (r # rws)" "map_of ids ka' = Some a" "map_of ids kb' = Some b"
    then show "(a, b) \<in> set c'" using rest(2,3) one(3) [of a b] r by auto
  qed (use rest one in auto)
qed simp

lemma goes_must: "set must \<subseteq> I \<times> I \<Longrightarrow> adv.goes I (rv_uf s) rv_uf (apply_must must s)"
  unfolding apply_must_def by (rule adv.goes_fold) (auto intro!: adv.goes_join)

lemma split_meshy_total:
  assumes "set is \<subseteq> dom (map_of units)"
  shows "\<exists>meshy bare. split_meshy units is = py_ret (meshy, bare) \<and> set meshy \<subseteq> set is \<and> set bare \<subseteq> set is"
  using assms
proof (induction "is")
  case (Cons i "is")
  then obtain u where "map_of units i = Some u" by auto
  with Cons show ?case by (auto simp: mesh_count_def dict_index_Some)
qed simp

lemma coloc_groups_range:
  assumes wf: "units_wf units" and g: "(rt, ids) \<in> set (coloc_groups units coloc)"
  shows "ids \<noteq> [] \<and> set ids \<subseteq> unit_ids units"
proof -
  let ?f = "\<lambda>(_, u) groups. case dict_get coloc (pu_key u) None of None \<Rightarrow> groups | Some rt \<Rightarrow> dict_push rt (pu_id u) groups"
  let ?P = "\<lambda>d. distinct (map fst d) \<and> (\<forall>(rt, ids) \<in> set d. ids \<noteq> [] \<and> set ids \<subseteq> unit_ids units)"
  have push: "?P (dict_push r i d)" if "?P d" "i \<in> unit_ids units" for r i and d :: "(string, int list) dict"
  proof -
    have "dict_get d r [] = [] \<or> (r, dict_get d r []) \<in> set d" by (cases "map_of d r") (auto simp: dict_get_def dest: map_of_SomeD)
    then have "set (dict_get d r [] @ [i]) \<subseteq> unit_ids units" using that by auto
    then have new: "case (r, dict_get d r [] @ [i]) of (rt, ids) \<Rightarrow> ids \<noteq> [] \<and> set ids \<subseteq> unit_ids units" by simp
    have "case x of (rt, ids) \<Rightarrow> ids \<noteq> [] \<and> set ids \<subseteq> unit_ids units" if x: "x \<in> set (dict_push r i d)" for x
      using set_update [OF x [unfolded dict_push_def]]
    proof
      assume "x = (r, dict_get d r [] @ [i])" then show ?thesis using new by simp
    next
      assume "x \<in> set d" then show ?thesis using \<open>?P d\<close> by blast
    qed
    then show ?thesis using \<open>?P d\<close> by simp
  qed
  have "?P (fold ?f us d)" if "set us \<subseteq> set units" "?P d" for us d
    using that
  proof (induction us arbitrary: d)
    case (Cons x us)
    obtain j u where x: "x = (j, u)" by (cases x)
    have "pu_id u \<in> unit_ids units" using Cons.prems(1) wf x by (auto simp: units_wf_def image_iff intro!: bexI [of _ x])
    then have "?P (?f x d)" using Cons.prems(2) push by (simp add: x split: option.split)
    with Cons show ?case by simp
  qed simp
  from this [of units "[]"] g show ?thesis by (auto simp: coloc_groups_def)
qed

lemma goes_coloc:
  assumes wf: "units_wf units"
  shows "adv.goes (unit_ids units) (rv_uf s) rv_uf (colocate st units coloc s)"
proof (cases "ps_colocate st = ''off''")
  case False
  have "adv.goes (unit_ids units) (rv_uf t) rv_uf (coloc_group units (ps_colocate st) g t)"
    if "g \<in> set (coloc_groups units coloc)" for g t
  proof -
    obtain rt ids where g: "g = (rt, ids)" by (cases g)
    from coloc_groups_range [OF wf] that have ids: "ids \<noteq> []" "set ids \<subseteq> unit_ids units" unfolding g by auto
    then have "set (sort ids) \<subseteq> dom (map_of units)" by (simp add: dom_map_of_conv_image_fst)
    from split_meshy_total [OF this] obtain meshy bare where
      sm: "split_meshy units (sort ids) = py_ret (meshy, bare)" "set meshy \<subseteq> set ids" "set bare \<subseteq> set ids" by auto
    define sel where "sel = (if ps_colocate st = ''all'' \<or> meshy = [] then (hd (sort ids), tl (sort ids), Colocated rt)
      else (arg_min_list (bytes_rank units) meshy, bare, Meshless_Attached rt))"
    obtain anchor joiners why where sel3: "sel = (anchor, joiners, why)" by (cases sel)
    have s0: "sort ids \<noteq> []" using ids(1) by (metis length_0_conv length_sort)
    have "hd (sort ids) \<in> set ids" "set (tl (sort ids)) \<subseteq> set ids"
      using hd_in_set [OF s0] list.set_sel(2) [OF s0] by auto
    moreover have "arg_min_list (bytes_rank units) meshy \<in> set ids" if "meshy \<noteq> []"
      using arg_min_list_in [OF that] sm(2) by blast
    ultimately have "anchor \<in> set ids" "set joiners \<subseteq> set ids"
      using sel3 sm(3) unfolding sel_def by (auto split: if_splits)
    then have a: "anchor \<in> unit_ids units" and j: "x \<in> set joiners \<Longrightarrow> x \<in> unit_ids units" for x using ids(2) by auto
    show ?thesis
      unfolding coloc_group_def g prod.case Let_def sm(1) py_bind_ret sel_def [symmetric] sel3
      by (rule adv.goes_fold) (intro adv.goes_join a j, simp_all)
  qed
  with False show ?thesis unfolding colocate_def by (simp add: adv.goes_fold)
qed (simp add: colocate_def adv.goes_ret)

lemma get_push_fold:
  "dict_get (fold (\<lambda>x d. if P x then dict_push (f x) (g x) d else d) xs d) k [] =
     dict_get d k [] @ map g (filter (\<lambda>x. P x \<and> f x = k) xs)"
  by (induction xs arbitrary: d) (auto simp: dict_get_push)

lemma mem_push_fold:
  "(k, vs) \<in> set (fold (\<lambda>x d. if P x then dict_push (f x) (g x) d else d) xs []) \<longleftrightarrow>
     vs = map g (filter (\<lambda>x. P x \<and> f x = k) xs) \<and> vs \<noteq> []"
proof -
  let ?F = "\<lambda>x d. if P x then dict_push (f x) (g x) d else d"
  have inv: "distinct (map fst (fold ?F xs d)) \<and> (\<forall>k. map_of (fold ?F xs d) k \<noteq> Some [])"
    if "distinct (map fst d)" "\<forall>k. map_of d k \<noteq> Some []" for d
    using that
  proof (induction xs arbitrary: d)
    case (Cons x xs)
    have "\<forall>k. map_of (dict_push (f x) (g x) d) k \<noteq> Some []" using Cons.prems(2) by (simp add: dict_push_def)
    with Cons.IH [of "if P x then dict_push (f x) (g x) d else d"] Cons.prems show ?case by (simp only: fold_simps distinct_keys_push if_True if_False simp_thms split: if_split)
  qed simp
  have d: "distinct (map fst (fold ?F xs []))" "map_of (fold ?F xs []) k \<noteq> Some []" using inv [of "[]"] by auto
  have "(k, vs) \<in> set (fold ?F xs []) \<longleftrightarrow> map_of (fold ?F xs []) k = Some vs" using d(1) by simp
  also have "\<dots> \<longleftrightarrow> vs = dict_get (fold ?F xs []) k [] \<and> vs \<noteq> []"
    using d(2) by (auto simp: dict_get_def split: option.splits)
  finally show ?thesis by (simp add: get_push_fold) (simp add: dict_get_def)
qed

lemma in_keys: "k \<in> fst ` set d \<longleftrightarrow> (\<exists>vs. (k, vs) \<in> set d)"
  by force

lemma keys_push_fold:
  "k \<in> fst ` set (fold (\<lambda>x d. if P x then dict_push (f x) (g x) d else d) xs []) \<longleftrightarrow> (\<exists>x \<in> set xs. P x \<and> f x = k)"
  unfolding in_keys mem_push_fold by (auto simp: filter_empty_conv)

lemma by_hash_fold: "by_hash rws = fold (\<lambda>x d. if True then dict_push (fst (snd x)) (fst x) d else d) rws []"
  by (simp add: by_hash_def split_def)

lemma supersets_fold: "supersets k cap gm maybe = fold (\<lambda>x d. if gs_high (group_stats k cap gm (fst x)) = 0 \<or> x \<in> high_ok k cap gm maybe
    then dict_push (fst x) (snd x) d else d) maybe []"
  by (simp add: supersets_def split_def)

lemma goes_exact:
  assumes "\<And>c h n. (c, h, n) \<in> set rws \<Longrightarrow> c \<in> I"
  shows "adv.goes I (rv_uf s) (rv_uf \<circ> fst) (exact_tier rws s)"
proof -
  have "adv.goes I ((rv_uf \<circ> fst) acc) (rv_uf \<circ> fst) (exact_group (comp_sizes rws) g acc)" if "g \<in> set (by_hash rws)" for g acc
  proof -
    obtain h comps where g: "g = (h, comps)" by (cases g)
    obtain t eg where acc: "acc = (t, eg)" by (cases acc)
    have c: "comps \<noteq> []" "set comps \<subseteq> I" using that assms unfolding g by_hash_fold mem_push_fold by auto
    have s0: "sort comps \<noteq> []" using c(1) by (metis length_0_conv length_sort)
    have hd: "hd (sort comps) \<in> I" and tl: "x \<in> set (tl (sort comps)) \<Longrightarrow> x \<in> I" for x
      using hd_in_set [OF s0] list.set_sel(2) [OF s0] c(2) by auto
    have join: "adv.goes I (rv_uf t) rv_uf (py_fold (\<lambda>c. join_then (hd (sort comps)) c None
         (decide Same_Pack (hd (sort comps)) c (Identical_Sets (dict_get (comp_sizes rws) c 0)) \<circ> bump ''exact_joined'' 1) (bump ''exact_blocked'' 1))
       (tl (sort comps)) t)"
      by (rule adv.goes_fold) (intro adv.goes_join hd tl, simp_all)
    show ?thesis unfolding exact_group_def g acc prod.case Let_def
      using join by (auto intro!: adv.goes_bind [where g = rv_uf] adv.goes_ret)
  qed
  then have "adv.goes I ((rv_uf \<circ> fst) (s, [] :: (int, int) dict)) (rv_uf \<circ> fst) (exact_tier rws s)"
    unfolding exact_tier_def by (rule adv.goes_fold)
  then show ?thesis by simp
qed

lemma comp_meshes_range:
  assumes "uf_inv u" and "uf_comp_of u = py_ret cof" and "(c, sha) \<in> set (comp_meshes cof meshes)"
  shows "c \<in> uf_items u"
  using assms(3) comp_of_range(1) [OF assms(1,2)] by (auto simp: comp_meshes_def split: option.splits)

lemma set_rows_comps: "(c, h, n) \<in> set (set_rows md5 cm) \<Longrightarrow> \<exists>sha. (c, sha) \<in> set cm"
  by (auto simp: set_rows_def)

lemma maybe_groups:
  assumes "(a, b) \<in> set (maybe_pairs k cap gm)"
  shows "\<exists>x. (a, x) \<in> set gm" "\<exists>x. (b, x) \<in> set gm"
  using assms by (auto simp: maybe_pairs_def Let_def)

definition sql_ok :: "sql_answers \<Rightarrow> bool" where
  "sql_ok sql \<longleftrightarrow> (\<forall>cm. mset (sa_sets sql cm) = mset (set_rows (sa_md5 sql) cm)) \<and> (\<forall>ps. mset (sa_pairs sql ps) = mset ps) \<and>
     (\<forall>xs. mset (sa_overlaps sql xs) = mset xs)"

lemma goes_exact_and_subset:
  assumes sets: "\<And>cm. mset (set_query cm) = mset (set_rows md5 cm)" and pairs: "\<And>ps. mset (order_pairs ps) = mset ps"
  shows "adv.goes I (rv_uf s) rv_uf (exact_and_subset st meshes set_query order_pairs s)"
  unfolding exact_and_subset_def
proof (rule adv.goes_bind [OF adv.goes_comp_of])
  fix comp0 assume u: "uf_inv (rv_uf s)" "uf_items (rv_uf s) = I" "uf_comp_of (rv_uf s) = py_ret comp0"
  let ?cm = "comp_meshes comp0 meshes" and ?k = "ps_commons_k st" and ?cap = "ps_candidate_cap st"
  have cm: "c \<in> I" if "(c, sha) \<in> set ?cm" for c sha using comp_meshes_range [OF u(1,3) that] u(2) by simp
  have ex: "adv.goes I (rv_uf s) (rv_uf \<circ> fst) (exact_tier (set_query ?cm) s)"
  proof (rule goes_exact)
    fix c h n assume "(c, h, n) \<in> set (set_query ?cm)"
    then have "(c, h, n) \<in> set (set_rows md5 ?cm)" using sets [of ?cm] by (metis set_mset_mset)
    then show "c \<in> I" using set_rows_comps cm by blast
  qed
  show "adv.goes I (rv_uf s) rv_uf (let cm = ?cm in py_bind (exact_tier (set_query cm) s) (\<lambda>(s, eg).
      let gm = group_meshes eg cm; k = ?k; cap = ?cap; maybe = order_pairs (maybe_pairs k cap gm); sups = supersets k cap gm maybe in
      py_fold (subset_step (group_stats k cap gm) sups (members_of_eg eg) comp0) (sort (dict_keys sups))
        (bump ''subset_pairs'' (int (length maybe)) s)))"
    unfolding Let_def
  proof (rule adv.goes_bind_pair [OF ex])
    fix t eg
    let ?gm = "group_meshes eg ?cm"
    let ?maybe = "order_pairs (maybe_pairs ?k ?cap ?gm)"
    let ?sups = "supersets ?k ?cap ?gm ?maybe"
    have in_maybe: "a \<in> I \<and> b \<in> I" if "(a, b) \<in> set ?maybe" for a b
    proof -
      have "(a, b) \<in> set (maybe_pairs ?k ?cap ?gm)" using that pairs by (metis set_mset_mset)
      from maybe_groups [OF this] show ?thesis using cm by (auto simp: group_meshes_def)
    qed
    have step: "adv.goes I (rv_uf v) rv_uf (subset_step (group_stats ?k ?cap ?gm) ?sups (members_of_eg eg) comp0 a v)"
      if a: "a \<in> set (sort (dict_keys ?sups))" for a v
    proof -
      have "a \<in> fst ` set ?sups" using a by (simp add: dict_keys_def)
      then obtain x where x: "x \<in> set ?maybe" "fst x = a"
        unfolding supersets_fold keys_push_fold by blast
      have g: "dict_get ?sups a [] = map snd (filter (\<lambda>x. (gs_high (group_stats ?k ?cap ?gm (fst x)) = 0 \<or> x \<in> high_ok ?k ?cap ?gm ?maybe) \<and> fst x = a) ?maybe)"
        unfolding supersets_fold get_push_fold by (simp add: dict_get_def)
      obtain vs where "(a, vs) \<in> set ?sups" using \<open>a \<in> fst ` set ?sups\<close> by force
      then have ne: "dict_get ?sups a [] \<noteq> []" unfolding g unfolding supersets_fold mem_push_fold by blast
      define best where "best = arg_min_list (\<lambda>g. (- gs_n (group_stats ?k ?cap ?gm g), g)) (dict_get ?sups a [])"
      have "best \<in> set (dict_get ?sups a [])" unfolding best_def by (rule arg_min_list_in [OF ne])
      then have "(a, best) \<in> set ?maybe" unfolding g by auto
      then have "a \<in> I" "best \<in> I" using in_maybe by auto
      then show ?thesis unfolding subset_step_def Let_def best_def [symmetric] by (auto intro!: adv.goes_ret adv.goes_join)
    qed
    have "adv.goes I (rv_uf (bump ''subset_pairs'' (int (length ?maybe)) t)) rv_uf
        (py_fold (subset_step (group_stats ?k ?cap ?gm) ?sups (members_of_eg eg) comp0) (sort (dict_keys ?sups))
          (bump ''subset_pairs'' (int (length ?maybe)) t))"
      by (rule adv.goes_fold) (rule step)
    then show "adv.goes I ((rv_uf \<circ> fst) (t, eg)) rv_uf
        (py_fold (subset_step (group_stats ?k ?cap ?gm) ?sups (members_of_eg eg) comp0) (sort (dict_keys ?sups))
          (bump ''subset_pairs'' (int (length ?maybe)) t))" by simp
  qed
qed

definition pairs_in :: "int set \<Rightarrow> pair list \<Rightarrow> bool" where
  "pairs_in I ps \<longleftrightarrow> (\<forall>p \<in> set ps. pr_a p \<in> I \<and> pr_b p \<in> I)"

lemma join_then_ret: "join_then a b ms yes no s = py_ret t \<Longrightarrow> \<exists>ok u. uf_union (rv_uf s) a b ms = py_ret (ok, u)"
  by (auto simp: join_then_def py_bind_eq_ret_iff)

lemma overlap_pairs_in:
  assumes "py_fold (overlap_step fl st cs) rws (s, ps) = py_ret (t, qs)" and "\<forall>(a, b, n, sz) \<in> set rws. a \<in> I \<and> b \<in> I" and "pairs_in I ps"
  shows "pairs_in I qs"
  using assms
proof (induction rws arbitrary: s ps)
  case (Cons r rws)
  obtain a b n sz where r: "r = (a, b, n, sz)" by (cases r)
  from Cons.prems(1) obtain t1 ps1 where st1: "overlap_step fl st cs r (s, ps) = py_ret (t1, ps1)"
    "py_fold (overlap_step fl st cs) rws (t1, ps1) = py_ret (t, qs)" by (auto simp: py_bind_eq_ret_iff)
  have "pairs_in I ps1" using st1(1) Cons.prems(2,3)
    by (auto simp: overlap_step_def r Let_def pairs_in_def py_bind_eq_ret_iff split: if_splits)
  with Cons.IH [OF st1(2)] Cons.prems(2) show ?case by simp
qed simp

lemma goes_overlap:
  assumes ord: "\<And>xs. mset (order_rows xs) = mset xs"
  shows "adv.goes I (rv_uf s) (\<lambda>(_, t, _). rv_uf t) (partial_overlap fl st sz meshes order_rows s)"
    and "uf_inv (rv_uf s) \<Longrightarrow> uf_items (rv_uf s) = I \<Longrightarrow> partial_overlap fl st sz meshes order_rows s = py_ret (comp1, t, pairs) \<Longrightarrow> pairs_in I pairs"
proof -
  have rws: "a \<in> I \<and> b \<in> I" if "uf_inv (rv_uf s)" "uf_items (rv_uf s) = I" "uf_comp_of (rv_uf s) = py_ret comp1"
    "(a, b, n, w) \<in> set (order_rows (overlap_rows sz k (comp_meshes comp1 meshes)))" for comp1 a b n w k
  proof -
    have "(a, b, n, w) \<in> set (overlap_rows sz k (comp_meshes comp1 meshes))" using that(4) ord by (metis set_mset_mset)
    then have "\<exists>x. (a, x) \<in> set (comp_meshes comp1 meshes)" "\<exists>x. (b, x) \<in> set (comp_meshes comp1 meshes)"
      by (auto simp: overlap_rows_def Let_def)
    then show ?thesis using comp_meshes_range [OF that(1,3)] that(2) by blast
  qed
  show "adv.goes I (rv_uf s) (\<lambda>(_, t, _). rv_uf t) (partial_overlap fl st sz meshes order_rows s)"
    unfolding partial_overlap_def
  proof (rule adv.goes_bind [OF adv.goes_comp_of])
    fix comp1 assume u: "uf_inv (rv_uf s)" "uf_items (rv_uf s) = I" "uf_comp_of (rv_uf s) = py_ret comp1"
    let ?k = "ps_commons_k st" and ?cm = "comp_meshes comp1 meshes"
    let ?rws = "order_rows (overlap_rows sz ?k ?cm)"
    let ?s = "bump ''overlap_pairs'' (int (length ?rws)) (bump ''commons_blobs''
      (int (length (filter (\<lambda>x. ?k \<le> degree ?cm x) (remdups (map snd ?cm))))) s)"
    have step: "adv.goes I ((rv_uf \<circ> fst) acc) (rv_uf \<circ> fst) (overlap_step fl st (comp_stats sz ?k ?cm) r acc)" if "r \<in> set ?rws" for r acc
    proof -
      obtain a b n w where r: "r = (a, b, n, w)" by (cases r)
      obtain v ps where acc: "acc = (v, ps)" by (cases acc)
      have ab: "a \<in> I" "b \<in> I" using rws [OF u] that r by blast+
      have j: "adv.goes I (rv_uf (bump ''band_above'' 1 v)) rv_uf (join_then a b None (decide Same_Pack a b why) id (bump ''band_above'' 1 v))" for why
        by (intro adv.goes_join ab) simp_all
      show ?thesis unfolding overlap_step_def r acc prod.case Let_def
        by (auto intro!: adv.goes_ret adv.goes_bind [OF j [simplified]])
    qed
    have "adv.goes I ((rv_uf \<circ> fst) (?s, [] :: pair list)) (rv_uf \<circ> fst) (py_fold (overlap_step fl st (comp_stats sz ?k ?cm)) ?rws (?s, []))"
      by (rule adv.goes_fold) (rule step)
    then have f: "adv.goes I (rv_uf s) (rv_uf \<circ> fst) (py_fold (overlap_step fl st (comp_stats sz ?k ?cm)) ?rws (?s, []))" by simp
    show "adv.goes I (rv_uf s) (\<lambda>(_, t, _). rv_uf t) (let k = ?k; cm = ?cm; rws = order_rows (overlap_rows sz k cm);
         commons = filter (\<lambda>x. k \<le> degree cm x) (remdups (map snd cm)) in
       py_bind (py_fold (overlap_step fl st (comp_stats sz k cm)) rws
         (bump ''overlap_pairs'' (int (length rws)) (bump ''commons_blobs'' (int (length commons)) s), [])) (\<lambda>(s, pairs).
       py_ret (comp1, bump ''band_llm_pairs'' (int (length pairs)) s, sort_key pair_rank pairs)))"
      unfolding Let_def by (rule adv.goes_bind [OF f]) (auto intro: adv.goes_ret)
  qed
  assume u: "uf_inv (rv_uf s)" "uf_items (rv_uf s) = I" and run: "partial_overlap fl st sz meshes order_rows s = py_ret (comp1, t, pairs)"
  from run obtain c1 where c1: "uf_comp_of (rv_uf s) = py_ret c1" by (auto simp: partial_overlap_def py_bind_eq_ret_iff)
  let ?k = "ps_commons_k st" and ?cm = "comp_meshes c1 meshes"
  let ?rws = "order_rows (overlap_rows sz ?k ?cm)"
  from run c1 obtain v qs where f: "py_fold (overlap_step fl st (comp_stats sz ?k ?cm)) ?rws (bump ''overlap_pairs'' (int (length ?rws))
      (bump ''commons_blobs'' (int (length (filter (\<lambda>x. ?k \<le> degree ?cm x) (remdups (map snd ?cm))))) s), []) = py_ret (v, qs)"
    "pairs = sort_key pair_rank qs" by (auto simp: partial_overlap_def Let_def py_bind_eq_ret_iff)
  have "pairs_in I qs" by (rule overlap_pairs_in [OF f(1)]) (use rws [OF u c1] in \<open>auto simp: pairs_in_def\<close>)
  then show "pairs_in I pairs" unfolding f(2) by (simp add: pairs_in_def)
qed

subsection \<open>The judge's tier\<close>

lemma scan_pairs:
  assumes "py_fold (llm_scan_step fp cache) ps (s, todo, res) = py_ret (t, todo', res')"
  shows "set todo' \<subseteq> set todo \<union> (\<lambda>p. (p, fp p)) ` set ps \<and> fst ` set res' \<subseteq> fst ` set res \<union> set ps"
  using assms
proof (induction ps arbitrary: s todo res)
  case (Cons p ps)
  from Cons.prems obtain s1 todo1 res1 where st: "llm_scan_step fp cache p (s, todo, res) = py_ret (s1, todo1, res1)"
    "py_fold (llm_scan_step fp cache) ps (s1, todo1, res1) = py_ret (t, todo', res')" by (auto simp: py_bind_eq_ret_iff)
  have "(todo1 = todo \<or> todo1 = todo @ [(p, fp p)]) \<and> (res1 = res \<or> (\<exists>v. res1 = res @ [(p, v)]))"
    using st(1) by (auto simp: llm_scan_step_def Let_def py_bind_eq_ret_iff split: if_splits option.splits)
  then have "set todo1 \<subseteq> insert (p, fp p) (set todo)" "fst ` set res1 \<subseteq> insert p (fst ` set res)" by auto
  moreover have "set todo' \<subseteq> set todo1 \<union> (\<lambda>p. (p, fp p)) ` set ps" "fst ` set res' \<subseteq> fst ` set res1 \<union> set ps"
    using Cons.IH [OF st(2)] by auto
  ultimately show ?case unfolding list.set image_insert by blast
qed simp

context joins
begin

lemma goes_scan:
  assumes "pr_a p \<in> I" and "pr_b p \<in> I"
  shows "goes I ((rv_uf \<circ> fst) acc) (rv_uf \<circ> fst) (llm_scan_step fp cache p acc)"
proof -
  obtain s todo res where acc: "acc = (s, todo, res)" by (cases acc)
  have init: "(rv_uf \<circ> fst) (s, todo, res) = rv_uf s" by simp
  show ?thesis unfolding llm_scan_step_def acc prod.case init
  proof (rule goes_bind_pair [OF goes_can [OF assms]])
    fix ok u
    have "goes I u (rv_uf \<circ> fst) (py_bind (uf_find u (pr_a p)) (\<lambda>(ra, u). py_bind (uf_find u (pr_b p)) (\<lambda>(rb, u).
       let s = s\<lparr>rv_uf := u\<rparr> in
       if ra = rb then py_ret (bump ''llm_skipped_already_joined'' 1 s, todo, res)
       else (case map_of cache (fp p) of
           Some v \<Rightarrow> py_ret (bump ''llm_cached'' 1 s, todo, res @ [(p, v)])
         | None \<Rightarrow> py_ret (s, todo @ [(p, fp p)], res)))))"
      by (rule goes_bind_snd [OF goes_find [OF assms(1)]], rule goes_bind_snd [OF goes_find [OF assms(2)]])
         (auto simp: Let_def intro!: goes_ret split: option.split)
    then show "goes I (snd (ok, u)) (rv_uf \<circ> fst) (if \<not> ok then py_ret (bump ''llm_skipped_human_separate'' 1 (s\<lparr>rv_uf := u\<rparr>), todo, res)
     else py_bind (uf_find u (pr_a p)) (\<lambda>(ra, u). py_bind (uf_find u (pr_b p)) (\<lambda>(rb, u).
       let s = s\<lparr>rv_uf := u\<rparr> in
       if ra = rb then py_ret (bump ''llm_skipped_already_joined'' 1 s, todo, res)
       else (case map_of cache (fp p) of
           Some v \<Rightarrow> py_ret (bump ''llm_cached'' 1 s, todo, res @ [(p, v)])
         | None \<Rightarrow> py_ret (s, todo @ [(p, fp p)], res)))))"
      by (cases ok) (simp_all add: goes_ret)
  qed
qed

lemma goes_apply:
  assumes "pr_a p \<in> I" and "pr_b p \<in> I" and ms: "Some (ps_max_llm_units st) \<in> caps"
  shows "goes I (rv_uf s) rv_uf (llm_apply_step st comp1 (p, v) s)"
proof (cases "vd_verdict v = Same_Pack \<and> ps_min_confidence st \<le> vd_confidence v")
  case True
  let ?s = "bump (verdict_name (vd_verdict v)) 1 s"
  have "goes I u rv_uf (join_then (pr_a p) (pr_b p) (Some (ps_max_llm_units st)) (bump ''llm_joined'' 1)
      (flag comp1 p ''chain_guard'' \<circ> bump ''llm_chain_guard'' 1) (?s\<lparr>rv_uf := u\<rparr>))" for u
    using goes_join [OF assms, of "bump ''llm_joined'' 1" "flag comp1 p ''chain_guard'' \<circ> bump ''llm_chain_guard'' 1" "?s\<lparr>rv_uf := u\<rparr>"] by simp
  then have "goes I (rv_uf ?s) rv_uf (py_bind (uf_can_union (rv_uf ?s) (pr_a p) (pr_b p)) (\<lambda>(ok, u).
       if \<not> ok then py_ret (flag comp1 p ''human_separate_blocks_llm'' (?s\<lparr>rv_uf := u\<rparr>))
       else join_then (pr_a p) (pr_b p) (Some (ps_max_llm_units st)) (bump ''llm_joined'' 1)
         (flag comp1 p ''chain_guard'' \<circ> bump ''llm_chain_guard'' 1) (?s\<lparr>rv_uf := u\<rparr>)))"
    by (intro goes_bind_pair [OF goes_can [OF assms(1,2)]]) (simp add: goes_ret)
  then show ?thesis using True by (simp add: llm_apply_step_def Let_def)
qed (auto simp: llm_apply_step_def Let_def goes_ret)

lemma goes_llm:
  assumes arrive: "\<And>xs. mset (arrive xs) = mset xs" and ps: "pairs_in I pairs" and ms: "Some (ps_max_llm_units st) \<in> caps"
  shows "goes I (rv_uf s) (rv_uf \<circ> snd) (llm_tier st asks limit fp judge arrive cache comp1 pairs s)"
  unfolding llm_tier_def
proof (rule goes_bind)
  have "goes I ((rv_uf \<circ> fst) (s, [] :: (pair \<times> string) list, [] :: (pair \<times> verdict) list)) (rv_uf \<circ> fst)
      (py_fold (llm_scan_step fp (cached cache)) pairs (s, [], []))"
    by (rule goes_fold) (use ps in \<open>auto simp: pairs_in_def intro!: goes_scan simp del: comp_apply\<close>)
  then show "goes I (rv_uf s) (rv_uf \<circ> fst) (py_fold (llm_scan_step fp (cached cache)) pairs (s, [], []))" by simp
next
  fix acc assume run: "py_fold (llm_scan_step fp (cached cache)) pairs (s, [], []) = py_ret acc"
  obtain t todo res where acc: "acc = (t, todo, res)" by (cases acc)
  have in_ps: "set todo \<subseteq> (\<lambda>p. (p, fp p)) ` set pairs" "fst ` set res \<subseteq> set pairs" using scan_pairs [OF run [unfolded acc]] by auto
  define choice where "choice = (if \<not> asks then ([], bump ''llm_deferred'' (int (length todo)) (bump ''llm_needed'' (int (length todo)) t))
           else case limit of None \<Rightarrow> (todo, bump ''llm_needed'' (int (length todo)) t)
             | Some n \<Rightarrow> if n < int (length todo)
                 then (if 0 \<le> n then take (nat n) todo else take (length todo - nat (- n)) todo,
                       bump ''llm_deferred'' (int (length todo) - n) (bump ''llm_needed'' (int (length todo)) t))
                 else (todo, bump ''llm_needed'' (int (length todo)) t))"
  obtain todo2 t2 where c: "choice = (todo2, t2)" by (cases choice)
  have t2: "rv_uf t2 = rv_uf t" "set todo2 \<subseteq> set todo"
    using c unfolding choice_def by (auto split: if_splits option.splits dest: in_set_takeD)
  let ?answers = "map (\<lambda>(p, f). (p, f, judge p)) (arrive todo2)"
  let ?all = "sort_key (pair_rank \<circ> fst) (res @ map (\<lambda>(p, f, v). (p, v)) ?answers)"
  have "set (arrive todo2) = set todo2" using arrive by (metis set_mset_mset)
  then have "fst ` set ?all \<subseteq> set pairs" using in_ps t2(2) by force
  have step: "goes I (rv_uf v) rv_uf (llm_apply_step st comp1 pv v)" if "pv \<in> set ?all" for pv v
  proof -
    have "fst pv \<in> set pairs" using that \<open>fst ` set ?all \<subseteq> set pairs\<close> by blast
    then show ?thesis using ps goes_apply [of "fst pv" I st v comp1 "snd pv", OF _ _ ms] by (simp add: pairs_in_def)
  qed
  let ?t3 = "bump_by ''llm_called'' (int (length ?answers)) t2"
  have "goes I (rv_uf ?t3) rv_uf (py_fold (llm_apply_step st comp1) ?all ?t3)" by (rule goes_fold) (rule step)
  then have "goes I (rv_uf t) rv_uf (py_fold (llm_apply_step st comp1) ?all ?t3)" by (simp add: t2)
  then have "goes I ((rv_uf \<circ> fst) acc) (rv_uf \<circ> snd) (py_bind (py_fold (llm_apply_step st comp1) ?all ?t3) (\<lambda>v.
      py_ret (map (\<lambda>(p, f, v). llm_row_of st p f v) ?answers, v)))"
    unfolding acc by (intro goes_bind [where g = rv_uf]) (simp_all add: goes_ret)
  then show "goes I ((rv_uf \<circ> fst) acc) (rv_uf \<circ> snd) (case acc of (s, todo, resolved) \<Rightarrow>
     let s = bump ''llm_needed'' (int (length todo)) s;
         (todo, s) = (if \<not> asks then ([], bump ''llm_deferred'' (int (length todo)) s)
           else case limit of None \<Rightarrow> (todo, s)
             | Some n \<Rightarrow> if n < int (length todo)
                 then (if 0 \<le> n then take (nat n) todo else take (length todo - nat (- n)) todo,
                       bump ''llm_deferred'' (int (length todo) - n) s)
                 else (todo, s));
         answers = map (\<lambda>(p, fp). (p, fp, judge p)) (arrive todo);
         s = bump_by ''llm_called'' (int (length answers)) s;
         resolved = sort_key (pair_rank \<circ> fst) (resolved @ map (\<lambda>(p, fp, v). (p, v)) answers) in
     py_bind (py_fold (llm_apply_step st comp1) resolved s) (\<lambda>s.
     py_ret (map (\<lambda>(p, fp, v). llm_row_of st p fp v) answers, s)))"
    unfolding acc prod.case Let_def choice_def [symmetric] c by simp
qed

end

subsection \<open>A whole run\<close>

lemma goes_run:
  assumes wf: "units_wf units" and sql: "sql_ok sql" and arrive: "\<And>xs. mset (ll_arrive llm xs) = mset xs"
    and ov: "human_overrides units (sa_overrides sql) = (must, cannot, n)"
  shows "\<exists>u rws s. uf_init (sort (dict_keys units)) cannot = py_ret u \<and> run_tiers fl st units coloc sql llm = py_ret (rws, s) \<and>
    ufp.advances u (rv_uf s) \<and> uf_inv u \<and> uf_items u = unit_ids units \<and> uf_apart (effective (sort (dict_keys units)) cannot) u"
proof -
  let ?I = "unit_ids units"
  from uf_init_spec [of "sort (dict_keys units)" cannot] obtain u where
    u: "uf_init (sort (dict_keys units)) cannot = py_ret u" "uf_inv u" "uf_items u = ?I"
      "uf_apart (effective (sort (dict_keys units)) cannot) u" by (auto simp: dict_keys_def)
  have must: "set must \<subseteq> ?I \<times> ?I"
    using overrides_fold [of "key_ids units" ?I, OF key_ids_range [OF wf]] ov unfolding human_overrides_def by fastforce
  have sets: "\<And>cm. mset (sa_sets sql cm) = mset (set_rows (sa_md5 sql) cm)" and prs: "\<And>ps. mset (sa_pairs sql ps) = mset ps"
    and ovl: "\<And>xs. mset (sa_overlaps sql xs) = mset xs" using sql by (simp_all add: sql_ok_def)
  let ?s0 = "bump_by ''human_unmatched'' n (resolver_init u)"
  have last: "adv.goes ?I (rv_uf s) (rv_uf \<circ> snd) (py_bind (partial_overlap fl st (sa_size sql) (sa_meshes sql) (sa_overlaps sql) s)
      (\<lambda>(comp1, s, pairs). llm_tier st (ll_asks llm) (ll_limit llm) (ll_fingerprint llm) (ll_judge llm) (ll_arrive llm) (sa_cache sql) comp1 pairs s))" for s
  proof (rule adv.goes_bind [OF goes_overlap(1) [OF ovl]])
    fix v assume h: "uf_inv (rv_uf s)" "uf_items (rv_uf s) = ?I" "partial_overlap fl st (sa_size sql) (sa_meshes sql) (sa_overlaps sql) s = py_ret v"
    obtain comp1 t pairs where v: "v = (comp1, t, pairs)" by (cases v)
    from goes_overlap(2) [OF ovl h(1,2) h(3) [unfolded v]] have "pairs_in ?I pairs" .
    from adv.goes_llm [OF arrive this] show "adv.goes ?I ((\<lambda>(_, t, _). rv_uf t) v) (rv_uf \<circ> snd) (case v of (comp1, s, pairs) \<Rightarrow>
        llm_tier st (ll_asks llm) (ll_limit llm) (ll_fingerprint llm) (ll_judge llm) (ll_arrive llm) (sa_cache sql) comp1 pairs s)"
      by (simp add: v)
  qed
  have "adv.goes ?I (rv_uf ?s0) (rv_uf \<circ> snd) (py_bind (apply_must must ?s0) (\<lambda>s.
      py_bind (colocate st units coloc (bump ''human_separate_applied'' (int (length cannot)) s)) (\<lambda>s.
      py_bind (exact_and_subset st (sa_meshes sql) (sa_sets sql) (sa_pairs sql) s) (\<lambda>s.
      py_bind (partial_overlap fl st (sa_size sql) (sa_meshes sql) (sa_overlaps sql) s) (\<lambda>(comp1, s, pairs).
      llm_tier st (ll_asks llm) (ll_limit llm) (ll_fingerprint llm) (ll_judge llm) (ll_arrive llm) (sa_cache sql) comp1 pairs s)))))"
  proof (rule adv.goes_bind [OF goes_must [OF must]])
    fix s
    let ?s = "bump ''human_separate_applied'' (int (length cannot)) s"
    have "adv.goes ?I (rv_uf ?s) rv_uf (colocate st units coloc ?s)" by (rule goes_coloc [OF wf])
    then have "adv.goes ?I (rv_uf s) rv_uf (colocate st units coloc ?s)" by simp
    then show "adv.goes ?I (rv_uf s) (rv_uf \<circ> snd) (py_bind (colocate st units coloc ?s) (\<lambda>s.
      py_bind (exact_and_subset st (sa_meshes sql) (sa_sets sql) (sa_pairs sql) s) (\<lambda>s.
      py_bind (partial_overlap fl st (sa_size sql) (sa_meshes sql) (sa_overlaps sql) s) (\<lambda>(comp1, s, pairs).
      llm_tier st (ll_asks llm) (ll_limit llm) (ll_fingerprint llm) (ll_judge llm) (ll_arrive llm) (sa_cache sql) comp1 pairs s))))"
      by (rule adv.goes_bind) (rule adv.goes_bind [OF goes_exact_and_subset [OF sets prs]], rule last)
  qed
  moreover have "rv_uf ?s0 = u" by (simp add: resolver_init_def)
  ultimately obtain v where "run_tiers fl st units coloc sql llm = py_ret v" "ufp.advances u (rv_uf (snd v))"
    using u(1-3) by (auto simp: adv.goes_def run_tiers_def ov)
  with u show ?thesis by (intro exI [of _ u] exI [of _ "fst v"] exI [of _ "snd v"]) simp
qed

text \<open>
  C28. A human \<open>separate\<close> always wins: whatever the meshes, the settings, the order of the rows, the cached and the
  new verdicts of the judge and the other overrides, the resolve run returns, and two units that the latest
  human decision separated end in different packs.
\<close>

theorem human_separate_wins:
  assumes "units_wf units" and "sql_ok sql" and "\<And>xs. mset (ll_arrive llm xs) = mset xs"
    and "(ka, kb, ''separate'') \<in> set (sa_overrides sql)"
    and "map_of (key_ids units) ka = Some a" and "map_of (key_ids units) kb = Some b" and "a \<noteq> b"
  shows "\<exists>rws s cof. run_tiers fl st units coloc sql llm = py_ret (rws, s) \<and> uf_comp_of (rv_uf s) = py_ret cof \<and>
    a \<in> dom (map_of cof) \<and> b \<in> dom (map_of cof) \<and> map_of cof a \<noteq> map_of cof b"
proof -
  obtain must cannot n where ov: "human_overrides units (sa_overrides sql) = (must, cannot, n)" by (cases "human_overrides units (sa_overrides sql)")
  have ab: "a \<in> unit_ids units" "b \<in> unit_ids units" using key_ids_range [OF assms(1)] assms(5,6) by auto
  have "(a, b) \<in> set cannot"
    using overrides_fold [of "key_ids units" "unit_ids units", OF key_ids_range [OF assms(1)]] ov assms(4-6)
    unfolding human_overrides_def by fastforce
  then have eff: "(a, b) \<in> effective (sort (dict_keys units)) cannot" using ab assms(7) by (auto simp: effective_def dict_keys_def)
  obtain u rws s where r: "run_tiers fl st units coloc sql llm = py_ret (rws, s)" "ufp.advances u (rv_uf s)" "uf_inv u"
      "uf_items u = unit_ids units" "uf_apart (effective (sort (dict_keys units)) cannot) u"
    using goes_run [OF assms(1,2,3) ov, of fl st coloc] by blast
  have sep: "\<not> uf_same (rv_uf s) a b" by (rule ufp.advances_separate [OF r(2,3,5) eff])
  have inv: "uf_inv (rv_uf s)" "uf_items (rv_uf s) = unit_ids units" using r(2-4) by (auto simp: ufp.advances_def)
  obtain cof where c: "uf_comp_of (rv_uf s) = py_ret cof" "\<And>x. map_of cof x = (if x \<in> uf_items (rv_uf s) then Some (Min {z. uf_same (rv_uf s) z x}) else None)"
    using uf_comp_of_spec [OF inv(1)] by blast
  have "Min {z. uf_same (rv_uf s) z a} \<noteq> Min {z. uf_same (rv_uf s) z b}"
  proof
    assume m: "Min {z. uf_same (rv_uf s) z a} = Min {z. uf_same (rv_uf s) z b}"
    have "uf_same (rv_uf s) (Min {z. uf_same (rv_uf s) z x}) x" if "x \<in> unit_ids units" for x
      using Min_in [OF uf_class_finite, of "rv_uf s" x] uf_same_refl [OF inv(1)] that inv(2) by blast
    from this [OF ab(1)] this [OF ab(2)] m sep show False by (metis uf_same_sym uf_same_trans)
  qed
  moreover have "map_of cof a = Some (Min {z. uf_same (rv_uf s) z a})" "map_of cof b = Some (Min {z. uf_same (rv_uf s) z b})"
    using c(2) ab inv(2) by simp_all
  ultimately show ?thesis using r(1) c(1) by (intro exI [of _ rws] exI [of _ s] exI [of _ cof]) (simp add: domIff)
qed

text \<open>Two units with the same mesh, separated by a human.\<close>

definition demo_unit :: "int \<Rightarrow> string \<Rightarrow> punit" where
  "demo_unit i k = \<lparr>pu_id = i, pu_key = k, pu_kind = ''archive'', pu_path = k, pu_model_root = None, pu_container = Some (nat i),
     pu_mesh_count = 1, pu_mesh_bytes = 10, pu_tri_sum = 0\<rparr>"

definition demo_sql :: sql_answers where
  "demo_sql = \<lparr>sa_md5 = id, sa_sets = set_rows id, sa_pairs = id, sa_overlaps = id,
     sa_overrides = [(''a'', ''b'', ''separate'')], sa_cache = [], sa_meshes = [(1, ''x''), (2, ''x'')], sa_size = (\<lambda>_. 10)\<rparr>"

definition demo_llm :: llm_side where
  "demo_llm = \<lparr>ll_asks = True, ll_limit = None, ll_fingerprint = (\<lambda>_. ''f''),
     ll_judge = (\<lambda>_. \<lparr>vd_verdict = Same_Pack, vd_confidence = 1, vd_reason = [], vd_error = None\<rparr>), ll_arrive = id\<rparr>"

theorem human_separate_wins_witness:
  "\<exists>rws s cof. run_tiers id (default_settings id) [(1, demo_unit 1 ''a''), (2, demo_unit 2 ''b'')] [] demo_sql demo_llm = py_ret (rws, s) \<and>
     uf_comp_of (rv_uf s) = py_ret cof \<and> map_of cof 1 \<noteq> map_of cof 2"
proof -
  let ?units = "[(1, demo_unit 1 ''a''), (2, demo_unit 2 ''b'')]"
  have "units_wf ?units" "sql_ok demo_sql" "\<And>xs. mset (ll_arrive demo_llm xs) = mset xs"
    "(''a'', ''b'', ''separate'') \<in> set (sa_overrides demo_sql)"
    "map_of (key_ids ?units) ''a'' = Some 1" "map_of (key_ids ?units) ''b'' = Some 2" "(1::int) \<noteq> 2"
    by (simp_all add: units_wf_def demo_unit_def sql_ok_def demo_sql_def demo_llm_def key_ids_def)
  from human_separate_wins [OF this, of id "default_settings id" "[]"] show ?thesis by blast
qed

subsection \<open>Strict subsets\<close>

lemma filter_all_eq: "length (filter (\<lambda>x. P x \<and> Q x) xs) = length (filter P xs) \<longleftrightarrow> (\<forall>x \<in> set xs. P x \<longrightarrow> Q x)"
proof (induction xs)
  case (Cons x xs)
  have "length (filter (\<lambda>x. P x \<and> Q x) xs) \<le> length (filter P xs)" by (induction xs) auto
  with Cons show ?case by auto
qed simp

lemma mem_shas: "x \<in> set (shas_of gm a) \<longleftrightarrow> (a, x) \<in> set gm"
  by (force simp: shas_of_def)

lemma degree_pos: "(a, x) \<in> set gm \<Longrightarrow> 1 \<le> degree gm x"
proof -
  assume "(a, x) \<in> set gm"
  then have "filter (\<lambda>(_, y). y = x) gm \<noteq> []" by (auto simp: filter_empty_conv)
  then show ?thesis by (simp add: degree_def Suc_leI)
qed

lemma degree_two:
  assumes "(a, x) \<in> set gm" and "(b, x) \<in> set gm" and "a \<noteq> b"
  shows "2 \<le> degree gm x"
proof -
  let ?f = "filter (\<lambda>(_, y). y = x) gm"
  have "card {(a, x), (b, x)} \<le> card (set ?f)" by (rule card_mono) (use assms in auto)
  also have "\<dots> \<le> length ?f" by (rule card_length)
  finally show ?thesis using assms(3) by (simp add: degree_def)
qed

text \<open>
  C29. The subset candidates, found by counting shared blobs of degree 2 to the cap and then checking the blobs
  above it, are exactly right: \<open>b\<close> is a superset recorded for \<open>a\<close> if and only if the meshes of \<open>a\<close> are a
  strict subset of those of \<open>b\<close> and one of them is below the cap.
\<close>

theorem subset_candidates_exact:
  assumes "distinct gm" and "mset maybe = mset (maybe_pairs k cap gm)"
  shows "b \<in> set (dict_get (supersets k cap gm maybe) a []) \<longleftrightarrow>
    set (shas_of gm a) \<subset> set (shas_of gm b) \<and> (\<exists>x \<in> set (shas_of gm a). degree gm x \<le> cap)"
proof -
  let ?A = "shas_of gm a" and ?B = "shas_of gm b" and ?st = "group_stats k cap gm"
  let ?low = "\<lambda>x. 2 \<le> degree gm x \<and> degree gm x \<le> cap" and ?high = "\<lambda>x. cap < degree gm x"
  have dist: "distinct (shas_of gm c)" for c
    using assms(1) by (auto simp: shas_of_def distinct_map inj_on_def)
  have sm: "set maybe = set (maybe_pairs k cap gm)" using assms(2) by (metis set_mset_mset)
  have n: "gs_n (?st c) = int (card (set (shas_of gm c)))" for c
    using distinct_card [OF dist, of c] by (simp add: group_stats_def count_shas_def)
  have u1: "gs_u1 (?st a) = 0 \<longleftrightarrow> (\<forall>x \<in> set ?A. degree gm x \<noteq> 1)"
    by (auto simp: group_stats_def count_shas_def filter_empty_conv)
  have lo: "shared ?low gm a b = gs_low (?st a) \<longleftrightarrow> (\<forall>x \<in> set ?A. ?low x \<longrightarrow> x \<in> set ?B)"
    using filter_all_eq [of ?low "\<lambda>x. x \<in> set ?B" ?A] by (simp add: shared_def group_stats_def count_shas_def)
  have lo0: "0 < shared ?low gm a b \<longleftrightarrow> (\<exists>x \<in> set ?A. ?low x \<and> x \<in> set ?B)"
    by (auto simp: shared_def filter_empty_conv)
  have hi: "shared ?high gm a b = gs_high (?st a) \<longleftrightarrow> (\<forall>x \<in> set ?A. ?high x \<longrightarrow> x \<in> set ?B)"
    using filter_all_eq [of ?high "\<lambda>x. x \<in> set ?B" ?A] by (simp add: shared_def group_stats_def count_shas_def)
  have hi0: "gs_high (?st a) = 0 \<longleftrightarrow> (\<forall>x \<in> set ?A. \<not> ?high x)" "0 \<le> gs_high (?st a)"
    by (auto simp: group_stats_def count_shas_def filter_empty_conv)
  have groups: "c \<in> fst ` set gm \<longleftrightarrow> set (shas_of gm c) \<noteq> {}" for c
    unfolding in_keys mem_shas [symmetric] by (simp only: ex_in_conv) 
  have mb: "(a, b) \<in> set maybe \<longleftrightarrow> b \<noteq> a \<and> 0 < shared ?low gm a b \<and> gs_n (?st a) < gs_n (?st b) \<and> gs_u1 (?st a) = 0 \<and>
      shared ?low gm a b = gs_low (?st a)"
  proof -
    have "set ?A \<noteq> {} \<and> set ?B \<noteq> {}" if "0 < shared ?low gm a b" using that lo0 by auto
    moreover have "(a, b) \<in> set maybe \<longleftrightarrow> a \<in> fst ` set gm \<and> b \<in> fst ` set gm \<and> b \<noteq> a \<and> 0 < shared ?low gm a b \<and>
        gs_n (?st a) < gs_n (?st b) \<and> gs_u1 (?st a) = 0 \<and> shared ?low gm a b = gs_low (?st a)"
      unfolding sm by (auto simp: maybe_pairs_def Let_def)
    ultimately show ?thesis unfolding groups by blast
  qed
  have sup: "b \<in> set (dict_get (supersets k cap gm maybe) a []) \<longleftrightarrow> (a, b) \<in> set maybe \<and> (gs_high (?st a) = 0 \<or> (a, b) \<in> high_ok k cap gm maybe)"
    unfolding supersets_fold get_push_fold by (force simp: dict_get_def)
  have ho: "gs_high (?st a) = 0 \<or> (a, b) \<in> high_ok k cap gm maybe \<longleftrightarrow> (\<forall>x \<in> set ?A. ?high x \<longrightarrow> x \<in> set ?B)" if "(a, b) \<in> set maybe"
    using that hi hi0 by (auto simp: high_ok_def)
  have "b \<in> set (dict_get (supersets k cap gm maybe) a []) \<longleftrightarrow> b \<noteq> a \<and> (\<exists>x \<in> set ?A. ?low x \<and> x \<in> set ?B) \<and>
      card (set ?A) < card (set ?B) \<and> (\<forall>x \<in> set ?A. degree gm x \<noteq> 1) \<and> (\<forall>x \<in> set ?A. ?low x \<longrightarrow> x \<in> set ?B) \<and>
      (\<forall>x \<in> set ?A. ?high x \<longrightarrow> x \<in> set ?B)"
    unfolding sup using ho unfolding mb lo0 lo u1 n by auto
  also have "\<dots> \<longleftrightarrow> set ?A \<subset> set ?B \<and> (\<exists>x \<in> set ?A. degree gm x \<le> cap)"
  proof
    assume h: "b \<noteq> a \<and> (\<exists>x \<in> set ?A. ?low x \<and> x \<in> set ?B) \<and>
      card (set ?A) < card (set ?B) \<and> (\<forall>x \<in> set ?A. degree gm x \<noteq> 1) \<and> (\<forall>x \<in> set ?A. ?low x \<longrightarrow> x \<in> set ?B) \<and>
      (\<forall>x \<in> set ?A. ?high x \<longrightarrow> x \<in> set ?B)"
    have "x \<in> set ?B" if x: "x \<in> set ?A" for x
    proof -
      have "1 \<le> degree gm x" using degree_pos x mem_shas by metis
      then have "?low x \<or> ?high x" using h x by fastforce
      then show ?thesis using h x by blast
    qed
    with h show "set ?A \<subset> set ?B \<and> (\<exists>x \<in> set ?A. degree gm x \<le> cap)" by auto
  next
    assume h: "set ?A \<subset> set ?B \<and> (\<exists>x \<in> set ?A. degree gm x \<le> cap)"
    then have "a \<noteq> b" by auto
    then have d: "2 \<le> degree gm x" if "x \<in> set ?A" for x using that h degree_two [of a x gm b] mem_shas [of x gm] by blast
    have "card (set ?A) < card (set ?B)" using h by (simp add: psubset_card_mono)
    with h d \<open>a \<noteq> b\<close> show "b \<noteq> a \<and> (\<exists>x \<in> set ?A. ?low x \<and> x \<in> set ?B) \<and>
      card (set ?A) < card (set ?B) \<and> (\<forall>x \<in> set ?A. degree gm x \<noteq> 1) \<and> (\<forall>x \<in> set ?A. ?low x \<longrightarrow> x \<in> set ?B) \<and>
      (\<forall>x \<in> set ?A. ?high x \<longrightarrow> x \<in> set ?B)" by fastforce
  qed
  finally show ?thesis .
qed

theorem subset_candidates_exact_witness:
  "2 \<in> set (dict_get (supersets 5 50 [(1, ''x''), (2, ''x''), (2, ''y'')] (maybe_pairs 5 50 [(1, ''x''), (2, ''x''), (2, ''y'')])) 1 [])"
  using subset_candidates_exact [of "[(1, ''x''), (2, ''x''), (2, ''y'')]" "maybe_pairs 5 50 [(1, ''x''), (2, ''x''), (2, ''y'')]" 5 50 2 1]
  by (auto simp: shas_of_def degree_def)

subsection \<open>The chain guard\<close>

definition guarded :: "nat \<Rightarrow> uf \<Rightarrow> uf \<Rightarrow> bool" where
  "guarded n u v \<longleftrightarrow> ufp.advances u v \<and>
     (uf_inv u \<longrightarrow> (\<forall>x. {z. uf_same v z x} = {z. uf_same u z x} \<or> card {z. uf_same v z x} \<le> n))"

lemma guarded_equiv: "uf_equiv u v \<Longrightarrow> uf_inv v \<Longrightarrow> guarded n u v"
  by (simp add: guarded_def advances_equiv uf_equiv_same)

lemma guarded_trans:
  assumes "guarded n u v" and "guarded n v w"
  shows "guarded n u w"
  unfolding guarded_def
proof (intro conjI impI allI)
  show "ufp.advances u w" using assms ufp.advances_trans by (auto simp: guarded_def)
  fix x assume "uf_inv u"
  moreover from this assms(1) have "uf_inv v" by (simp add: guarded_def ufp.advances_def)
  ultimately show "{z. uf_same w z x} = {z. uf_same u z x} \<or> card {z. uf_same w z x} \<le> n"
    using assms unfolding guarded_def by metis
qed

lemma guarded_union:
  assumes u: "uf_inv u" "a \<in> uf_items u" "b \<in> uf_items u" and r: "uf_union u a b (Some n) = py_ret (ok, v)"
  shows "guarded n u v"
  unfolding guarded_def
proof (intro conjI impI allI)
  show "ufp.advances u v" by (rule ufp.joined_advances [OF u r])
  fix x
  note same = uf_unionD(4) [OF u r]
  show "{z. uf_same v z x} = {z. uf_same u z x} \<or> card {z. uf_same v z x} \<le> n"
  proof (cases "ok \<and> \<not> uf_same u a b \<and> (uf_same u a x \<or> uf_same u b x)")
    case True
    then have fits: "card {z. uf_same u z a} + card {z. uf_same u z b} \<le> n"
      using uf_unionD(3) [OF u r] by (auto simp: uf_fits_def)
    have "{z. uf_same v z x} \<subseteq> {z. uf_same u z a} \<union> {z. uf_same u z b}"
      using True same [of _ x] uf_same_trans uf_same_sym by blast
    then have "card {z. uf_same v z x} \<le> card ({z. uf_same u z a} \<union> {z. uf_same u z b})"
      by (rule card_mono [rotated]) (simp add: uf_class_finite)
    also have "\<dots> \<le> card {z. uf_same u z a} + card {z. uf_same u z b}" by (rule card_Un_le)
    finally show ?thesis using fits by simp
  next
    case False
    then have "uf_same v z x \<longleftrightarrow> uf_same u z x" for z
      using same [of z x] uf_same_trans uf_same_sym by blast
    then show ?thesis by simp
  qed
qed

interpretation grd: joins "guarded n" "{Some n}" for n
proof
  show "guarded n u w" if "guarded n u v" "guarded n v w" for u v w using that by (rule guarded_trans)
  show "guarded n u v" if "uf_equiv u v" "uf_inv v" for u v using that by (rule guarded_equiv)
  show "guarded n u v" if "uf_inv u" "a \<in> uf_items u" "b \<in> uf_items u" "ms \<in> {Some n}" "uf_union u a b ms = py_ret (ok, v)" for u a b ms ok v
    using that guarded_union by simp
qed (simp_all add: guarded_def)

text \<open>
  C30. The judge never grows a pack beyond \<open>max_llm_units\<close>: after its tier every pack is one that was there before
  the tier or has at most that many units, whatever the verdicts, their order and the cache.
\<close>

theorem llm_chain_guard:
  assumes "uf_inv (rv_uf s)" and "\<forall>p \<in> set pairs. pr_a p \<in> uf_items (rv_uf s) \<and> pr_b p \<in> uf_items (rv_uf s)"
    and "\<And>xs. mset (arrive xs) = mset xs"
  shows "\<exists>rws t. llm_tier st asks limit fingerprint judge arrive cache comp1 pairs s = py_ret (rws, t) \<and>
    (\<forall>x. {z. uf_same (rv_uf t) z x} = {z. uf_same (rv_uf s) z x} \<or> card {z. uf_same (rv_uf t) z x} \<le> ps_max_llm_units st)"
proof -
  have "pairs_in (uf_items (rv_uf s)) pairs" using assms(2) by (simp add: pairs_in_def)
  from grd.goes_llm [where arrive = arrive and st = st and n = "ps_max_llm_units st", OF assms(3) this]
  have "grd.goes (ps_max_llm_units st) (uf_items (rv_uf s)) (rv_uf s) (rv_uf \<circ> snd)
      (llm_tier st asks limit fingerprint judge arrive cache comp1 pairs s)" by simp
  then show ?thesis using assms(1) by (auto simp: grd.goes_def guarded_def)
qed

theorem llm_chain_guard_witness:
  "\<exists>u rws t. uf_init [1, 2] [] = py_ret u \<and>
     llm_tier (default_settings id) True None (\<lambda>_. ''f'') (ll_judge demo_llm) id [] []
       [\<lparr>pr_a = 1, pr_b = 2, pr_shared = 1, pr_bytes = 10, pr_ratio = 1\<rparr>] (resolver_init u) = py_ret (rws, t) \<and>
     ({z. uf_same (rv_uf t) z 1} = {1} \<or> card {z. uf_same (rv_uf t) z 1} \<le> 40)"
proof -
  let ?ps = "[\<lparr>pr_a = 1, pr_b = 2, pr_shared = 1, pr_bytes = 10, pr_ratio = 1\<rparr>]"
  from uf_init_spec [of "[1, 2]" "[]"] obtain u where
    u: "uf_init [1, 2] [] = py_ret u" "uf_inv u" "uf_items u = {1, 2}" "\<And>x y. uf_same u x y \<longleftrightarrow> x = y \<and> x \<in> {1, 2}" by auto
  have "uf_inv (rv_uf (resolver_init u))" "\<forall>p \<in> set ?ps. pr_a p \<in> uf_items (rv_uf (resolver_init u)) \<and> pr_b p \<in> uf_items (rv_uf (resolver_init u))"
    using u by (simp_all add: resolver_init_def)
  from llm_chain_guard [where arrive = id, OF this, of "default_settings id" True None "\<lambda>_. ''f''" "ll_judge demo_llm" "[]" "[]"] obtain rws t where
    t: "llm_tier (default_settings id) True None (\<lambda>_. ''f'') (ll_judge demo_llm) id [] [] ?ps (resolver_init u) = py_ret (rws, t)"
      "{z. uf_same (rv_uf t) z 1} = {z. uf_same u z 1} \<or> card {z. uf_same (rv_uf t) z 1} \<le> 40"
    by (auto simp: default_settings_def resolver_init_def)
  have "{z. uf_same u z 1} = {1}" using u(4) by auto
  with t u(1) show ?thesis by blast
qed

end
