(* ===== verification/PackWriteProps.thy ===== *)
theory PackWriteProps
  imports PackWrite PackResolveProps
begin

text \<open>
  What \<open>_write\<close> stores is the partition of the union-find: two units get the same pack id if and only if they
  are joined, every pack has exactly one primary unit, and a loose batch is attached to a pack exactly when
  all its files belong to it.
\<close>

subsection \<open>Pack ids\<close>

definition ids_of :: "(int, int option) dict \<Rightarrow> int list" where
  "ids_of assign = concat (map (\<lambda>(c, x). case x of None \<Rightarrow> [] | Some p \<Rightarrow> [p]) assign)"

lemma votes_voted:
  "p \<in> fst ` set (votes existing ms) \<Longrightarrow> \<exists>u \<in> set ms. map_of existing u = Some p"
proof -
  have "p \<in> fst ` set (fold (\<lambda>u v. case map_of existing u of None \<Rightarrow> v | Some p \<Rightarrow> AList.update p (dict_get v p 0 + 1) v) ms v) \<Longrightarrow>
      p \<in> fst ` set v \<or> (\<exists>u \<in> set ms. map_of existing u = Some p)" for v
  proof (induction ms arbitrary: v)
    case (Cons u ms)
    let ?v = "case map_of existing u of None \<Rightarrow> v | Some p \<Rightarrow> AList.update p (dict_get v p 0 + 1) v"
    from Cons.IH [of ?v] Cons.prems have "p \<in> fst ` set ?v \<or> (\<exists>u \<in> set ms. map_of existing u = Some p)" by simp
    then show ?case by (cases "map_of existing u") (auto simp: dom_update)
  qed simp
  from this [of "[]"] show "p \<in> fst ` set (votes existing ms) \<Longrightarrow> \<exists>u \<in> set ms. map_of existing u = Some p"
    by (simp add: votes_def)
qed

lemma find_SomeD: "find P xs = Some x \<Longrightarrow> P x \<and> x \<in> set xs"
  by (induction xs) (auto split: if_splits)

lemma choose_pack_Some: "choose_pack taken v = Some p \<Longrightarrow> p \<notin> taken \<and> p \<in> fst ` set v"
  unfolding choose_pack_def by (drule find_SomeD) simp

definition assign_inv :: "(int, int) dict \<Rightarrow> (int, int list) dict \<Rightarrow> int set \<times> (int, int option) dict \<Rightarrow> bool" where
  "assign_inv existing seen acc = (case acc of (taken, assign) \<Rightarrow>
     map fst assign = map fst seen \<and> set (ids_of assign) = taken \<and> distinct (ids_of assign) \<and>
     (\<forall>c p. (c, Some p) \<in> set assign \<longrightarrow> (\<exists>ms. (c, ms) \<in> set seen \<and> (\<exists>u \<in> set ms. map_of existing u = Some p))))"

lemma assign_fold:
  assumes "distinct (map fst (seen @ cs))" and "assign_inv existing seen acc"
  shows "assign_inv existing (seen @ cs) (fold (assign_step existing) cs acc)"
  using assms
proof (induction cs arbitrary: seen acc)
  case (Cons x cs)
  obtain c ms where x: "x = (c, ms)" by (cases x)
  obtain taken assign where acc: "acc = (taken, assign)" by (cases acc)
  let ?choice = "choose_pack taken (votes existing ms)"
  have inv: "map fst assign = map fst seen" "set (ids_of assign) = taken" "distinct (ids_of assign)"
    "\<forall>c p. (c, Some p) \<in> set assign \<longrightarrow> (\<exists>ms. (c, ms) \<in> set seen \<and> (\<exists>u \<in> set ms. map_of existing u = Some p))"
    using Cons.prems(2) by (auto simp: assign_inv_def acc)
  have "c \<notin> fst ` set assign" using Cons.prems(1) inv(1) by (auto simp: x simp flip: set_map)
  then have step: "assign_step existing x acc = (case ?choice of None \<Rightarrow> taken | Some p \<Rightarrow> insert p taken, assign @ [(c, ?choice)])"
    by (simp add: assign_step_def x acc Let_def update_fresh)
  have "assign_inv existing (seen @ [x]) (assign_step existing x acc)"
  proof (cases ?choice)
    case None
    have ids: "ids_of (assign @ [(c, None)]) = ids_of assign" by (simp add: ids_of_def)
    show ?thesis unfolding step None assign_inv_def prod.case option.case ids using inv by (auto simp: x) blast
  next
    case (Some p)
    from choose_pack_Some [OF Some] votes_voted have p: "p \<notin> taken" "\<exists>u \<in> set ms. map_of existing u = Some p" by blast+
    have ids: "ids_of (assign @ [(c, Some p)]) = ids_of assign @ [p]" by (simp add: ids_of_def)
    show ?thesis unfolding step Some assign_inv_def prod.case option.case ids using inv p by (auto simp: x) blast
  qed
  with Cons.IH [of "seen @ [x]" "assign_step existing x acc"] Cons.prems(1) show ?case by simp
qed simp

lemma map_of_fill:
  "distinct (map fst zs) \<Longrightarrow> map_of (fold (\<lambda>(c, p). AList.update c (Some p)) zs assign) c =
    (case map_of zs c of Some p \<Rightarrow> Some (Some p) | None \<Rightarrow> map_of assign c)"
proof (induction zs arbitrary: assign)
  case (Cons z zs)
  obtain e p where z: "z = (e, p)" by (cases z)
  show ?case
  proof (cases "c = e")
    case True
    then have "map_of zs c = None" using Cons.prems by (simp add: z map_of_eq_None_iff)
    then show ?thesis using Cons True by (simp add: z)
  next
    case False
    then show ?thesis using Cons by (simp add: z split: option.split)
  qed
qed simp

lemma fill_keys:
  "fst ` set zs \<subseteq> fst ` set assign \<Longrightarrow> map fst (fold (\<lambda>(c, p). AList.update c (Some p)) zs assign) = map fst assign"
proof (induction zs arbitrary: assign)
  case (Cons z zs)
  obtain e p where z: "z = (e, p)" by (cases z)
  have k: "map fst (AList.update e (Some p) assign) = map fst assign" using Cons.prems by (simp add: z update_keys)
  then have "fst ` set (AList.update e (Some p) assign) = fst ` set assign" by (metis set_map)
  with Cons.IH [of "AList.update e (Some p) assign"] Cons.prems k show ?case by (simp add: z)
qed simp

lemma new_ids: "length (new_ids next n) = n" "distinct (new_ids next n)" "p \<in> set (new_ids next n) \<longleftrightarrow> next \<le> p \<and> p < next + int n"
proof -
  show "p \<in> set (new_ids next n) \<longleftrightarrow> next \<le> p \<and> p < next + int n"
    by (auto simp: new_ids_def image_iff intro!: bexI [of _ "nat (p - next)"])
qed (simp_all add: new_ids_def distinct_map inj_on_def)

lemma ids_of_mem: "p \<in> set (ids_of assign) \<longleftrightarrow> (\<exists>c. (c, Some p) \<in> set assign)"
  by (force simp: ids_of_def split: option.splits)

lemma ids_of_inj:
  "distinct (ids_of assign) \<Longrightarrow> distinct (map fst assign) \<Longrightarrow> (c, Some p) \<in> set assign \<Longrightarrow> (c', Some p) \<in> set assign \<Longrightarrow> c = c'"
proof (induction assign)
  case (Cons x assign)
  obtain e v where x: "x = (e, v)" by (cases x)
  have ids: "ids_of (x # assign) = (case v of None \<Rightarrow> [] | Some q \<Rightarrow> [q]) @ ids_of assign" by (simp add: ids_of_def x)
  show ?case
  proof (cases v)
    case None
    then show ?thesis using Cons ids x by auto
  next
    case (Some q)
    then have "q \<notin> set (ids_of assign)" "distinct (ids_of assign)" using Cons.prems(1) ids by auto
    then show ?thesis using Cons x Some ids_of_mem by auto
  qed
qed simp

lemma map_of_somes:
  "distinct (map fst d) \<Longrightarrow> map_of (concat (map (\<lambda>(c, x). case x of None \<Rightarrow> [] | Some p \<Rightarrow> [(c, p)]) d)) c =
     (case map_of d c of Some (Some p) \<Rightarrow> Some p | _ \<Rightarrow> None)"
proof (induction d)
  case (Cons x d)
  obtain e v where x: "x = (e, v)" by (cases x)
  show ?case
  proof (cases "c = e")
    case True
    then have "map_of d c = None" using Cons.prems by (simp add: x map_of_eq_None_iff)
    then show ?thesis using Cons True by (cases v) (simp_all add: x)
  next
    case False
    then show ?thesis using Cons by (cases v) (simp_all add: x)
  qed
qed simp

lemma assign_packs_ok:
  assumes keys: "distinct (map fst comps)" and old: "\<forall>u p. map_of existing u = Some p \<longrightarrow> p < next"
    and run: "assign_packs comps existing next = (assign, fresh)"
  shows "(\<forall>c \<in> fst ` set comps. \<exists>p. map_of assign c = Some p) \<and>
    (\<forall>c c' p. map_of assign c = Some p \<longrightarrow> map_of assign c' = Some p \<longrightarrow> c = c') \<and>
    (\<forall>c p. map_of assign c = Some p \<longrightarrow> p \<in> set fresh \<or>
      (\<exists>ms. (c, ms) \<in> set comps \<and> (\<exists>u \<in> set ms. map_of existing u = Some p))) \<and> (\<exists>n. fresh = new_ids next n)"
proof -
  let ?order = "comp_order comps"
  have set_order: "set ?order = set comps" by (simp add: comp_order_def)
  have dist_order: "distinct (map fst ?order)"
  proof -
    have "mset (map fst ?order) = mset (map fst comps)" by (simp add: comp_order_def)
    with keys show ?thesis by (metis mset_eq_imp_distinct_iff)
  qed
  obtain taken asg where f: "fold (assign_step existing) ?order ({}, []) = (taken, asg)" by (cases "fold (assign_step existing) ?order ({}, [])")
  have "assign_inv existing [] ({}, [])" by (simp add: assign_inv_def ids_of_def)
  from assign_fold [of "[]" ?order, OF _ this] dist_order f have inv: "map fst asg = map fst ?order" "distinct (ids_of asg)"
    "\<And>c p. (c, Some p) \<in> set asg \<Longrightarrow> \<exists>ms. (c, ms) \<in> set comps \<and> (\<exists>u \<in> set ms. map_of existing u = Some p)"
    by (auto simp: assign_inv_def set_order)
  have dk: "distinct (map fst asg)" using inv(1) dist_order by simp
  define need where "need = map fst (filter (\<lambda>(c, _). dict_get asg c None = None) ?order)"
  define fin where "fin = fold (\<lambda>(c, p). AList.update c (Some p)) (zip need (new_ids next (length need))) asg"
  have "(concat (map (\<lambda>(c, x). case x of None \<Rightarrow> [] | Some p \<Rightarrow> [(c, p)]) fin), new_ids next (length need)) = (assign, fresh)"
    using run unfolding assign_packs_def Let_def f prod.case need_def [symmetric] fin_def [symmetric] .
  then have fresh: "fresh = new_ids next (length need)"
    and res: "assign = concat (map (\<lambda>(c, x). case x of None \<Rightarrow> [] | Some p \<Rightarrow> [(c, p)]) fin)" by auto
  have dn: "distinct need" using dist_order unfolding need_def by (rule distinct_map_filter)
  have len: "length fresh = length need" by (simp add: fresh new_ids(1))
  have "set need \<subseteq> set (map fst ?order)" by (auto simp: need_def)
  then have "set need \<subseteq> fst ` set asg" using inv(1) by (metis set_map)
  then have kf: "map fst fin = map fst ?order" 
    using fill_keys [of "zip need fresh" asg] len inv(1) by (fastforce simp: fin_def fresh dest: set_zip_leftD)
  have mf: "map_of fin c = (case map_of (zip need fresh) c of Some p \<Rightarrow> Some (Some p) | None \<Rightarrow> map_of asg c)" for c
    using map_of_fill [of "zip need fresh" asg c] dn len by (simp add: fin_def fresh)
  have ma: "map_of assign c = (case map_of fin c of Some (Some p) \<Rightarrow> Some p | _ \<Rightarrow> None)" for c
    unfolding res by (rule map_of_somes) (use kf dist_order in simp)
  have zneed: "c \<in> set need \<longleftrightarrow> (\<exists>p. map_of (zip need fresh) c = Some p)" for c
    using map_of_zip_is_None [of need fresh c] len by (cases "map_of (zip need fresh) c") auto
  have zfresh: "map_of (zip need fresh) c = Some p \<Longrightarrow> p \<in> set fresh" for c p
    by (auto dest: map_of_SomeD set_zip_rightD)
  have zinj: "map_of (zip need fresh) c = Some p \<Longrightarrow> map_of (zip need fresh) c' = Some p \<Longrightarrow> c = c'" for c c' p
    using new_ids(2) [of "next" "length need"] len dn by (auto simp: fresh in_set_zip dest!: map_of_SomeD) (metis nth_eq_iff_index_eq)
  have cases: "map_of assign c = Some p \<longleftrightarrow> map_of (zip need fresh) c = Some p \<or> c \<notin> set need \<and> (c, Some p) \<in> set asg" for c p
  proof -
    have da: "(c, Some p) \<in> set asg \<longleftrightarrow> map_of asg c = Some (Some p)" using dk by simp
    show ?thesis unfolding da ma mf using zneed [of c] by (auto split: option.splits)
  qed
  have small: "p < next" if "(c, Some p) \<in> set asg" for c p using inv(3) [OF that] old by blast
  have big: "next \<le> p" if "p \<in> set fresh" for p using that by (simp add: fresh new_ids(3))
  have tot: "\<exists>p. map_of assign c = Some p" if "c \<in> fst ` set comps" for c
  proof (cases "c \<in> set need")
    case True
    then show ?thesis using zneed cases by blast
  next
    case False
    have "c \<in> fst ` set asg" using that inv(1) set_order by (metis set_map)
    then obtain v where v: "map_of asg c = Some v" by (metis domD dom_map_of_conv_image_fst)
    have "v \<noteq> None" using False that v set_order by (auto simp: need_def dict_get_def)
    then show ?thesis using cases False v by (auto dest: map_of_SomeD)
  qed
  have "c = c'" if "map_of assign c = Some p" "map_of assign c' = Some p" for c c' p
    using that cases zinj zfresh small big ids_of_inj [OF inv(2) dk] by (metis linorder_not_less)
  then show ?thesis using tot cases zfresh inv(3) fresh by blast
qed

lemma distinct_mapI: "distinct (map f xs) \<Longrightarrow> distinct xs"
  by (simp add: distinct_map)

subsection \<open>Units and roles\<close>

definition comps_ok :: "uf \<Rightarrow> (int, int list) dict \<Rightarrow> bool" where
  "comps_ok u comps \<longleftrightarrow> distinct (map fst comps) \<and>
     (\<forall>c ms. (c, ms) \<in> set comps \<longleftrightarrow> c \<in> uf_items u \<and> c = Min {z. uf_same u z c} \<and> ms = sorted_list_of_set {z. uf_same u z c})"

lemma comps_okD:
  assumes "uf_inv u" and "comps_ok u comps" and "(c, ms) \<in> set comps"
  shows "x \<in> set ms \<longleftrightarrow> uf_same u x c" "distinct ms" "ms \<noteq> []" "uf_same u c c"
proof -
  have m: "ms = sorted_list_of_set {z. uf_same u z c}" and c: "c \<in> uf_items u" using assms(2,3) by (simp_all add: comps_ok_def)
  show mem: "x \<in> set ms \<longleftrightarrow> uf_same u x c" for x unfolding m using uf_class_finite [of u c] by simp
  show "distinct ms" unfolding m by simp
  show s: "uf_same u c c" using uf_same_refl [OF assms(1) c] .
  show "ms \<noteq> []" using mem [of c] s by auto
qed

lemma comps_cover:
  assumes "uf_inv u" and "comps_ok u comps" and "x \<in> uf_items u"
  shows "\<exists>c ms. (c, ms) \<in> set comps \<and> x \<in> set ms"
proof -
  let ?c = "Min {z. uf_same u z x}"
  have "?c \<in> {z. uf_same u z x}" using Min_in [OF uf_class_finite] uf_same_refl [OF assms(1,3)] by blast
  then have cx: "uf_same u ?c x" by simp
  then have "{z. uf_same u z ?c} = {z. uf_same u z x}" using uf_same_trans uf_same_sym by blast
  then have "(?c, sorted_list_of_set {z. uf_same u z ?c}) \<in> set comps"
    using assms(2) cx uf_same_items unfolding comps_ok_def by metis
  moreover have "uf_same u x ?c" using uf_same_sym [OF cx] .
  ultimately show ?thesis using comps_okD(1) [OF assms(1,2)] by blast
qed

lemma unit_rows_mem:
  "(u, p, r) \<in> set (unit_rows units absorbed assign comps) \<longleftrightarrow>
     (\<exists>c ms. (c, ms) \<in> set comps \<and> u \<in> set ms \<and> p = dict_get assign c 0 \<and> r = role_of units absorbed ms u)"
  by (auto simp: unit_rows_def)

lemma unit_rows_fst: "map fst (unit_rows units absorbed assign comps) = concat (map snd comps)"
  by (simp add: unit_rows_def map_concat comp_def split_def)

lemma comps_disjoint:
  assumes "uf_inv u" and "comps_ok u comps" and "(c, ms) \<in> set comps" and "(d, ns) \<in> set comps" and "x \<in> set ms" and "x \<in> set ns"
  shows "c = d \<and> ms = ns"
proof -
  have "uf_same u x c" "uf_same u x d" using comps_okD(1) [OF assms(1,2,3)] comps_okD(1) [OF assms(1,2,4)] assms(5,6) by auto
  then have "uf_same u z c \<longleftrightarrow> uf_same u z d" for z using uf_same_trans uf_same_sym by blast
  then have e: "{z. uf_same u z c} = {z. uf_same u z d}" by simp
  have "c = Min {z. uf_same u z c}" "d = Min {z. uf_same u z d}" using assms(2-4) unfolding comps_ok_def by blast+
  then have "c = d" using e by simp
  then show ?thesis using assms(2-4) unfolding comps_ok_def by (metis)
qed

lemma distinct_units:
  assumes "uf_inv u" and "comps_ok u comps"
  shows "distinct (concat (map snd comps))"
proof (rule distinct_concat)
  have keys: "distinct (map fst comps)" using assms(2) by (simp add: comps_ok_def)
  have "inj_on snd (set comps)"
  proof (rule inj_onI)
    fix a b assume ab: "a \<in> set comps" "b \<in> set comps" "snd a = snd b"
    obtain c ms d ns where e: "a = (c, ms)" "b = (d, ns)" by (cases a, cases b)
    have "ms \<noteq> []" using comps_okD(3) [OF assms] ab(1) e by blast
    then obtain x where "x \<in> set ms" by (cases ms) auto
    with comps_disjoint [OF assms, of c ms d ns x] ab e show "a = b" by simp
  qed
  with keys show "distinct (map snd comps)" by (simp add: distinct_map)
  show "distinct ms" if "ms \<in> set (map snd comps)" for ms using that comps_okD(2) [OF assms] by auto
  show "set ms \<inter> set ns = {}" if "ms \<in> set (map snd comps)" "ns \<in> set (map snd comps)" "ms \<noteq> ns" for ms ns
    using that comps_disjoint [OF assms] by fastforce
qed

lemma primary_in: "ms \<noteq> [] \<Longrightarrow> primary_of units absorbed ms \<in> set ms"
proof -
  assume ms: "ms \<noteq> []"
  let ?rest = "filter (\<lambda>u. u \<notin> absorbed) ms"
  have "(if ?rest = [] then ms else ?rest) \<noteq> []" using ms by simp
  from arg_min_list_in [OF this, of "mesh_rank units"] show ?thesis by (auto simp: primary_of_def Let_def split: if_splits)
qed

lemma role_primary: "role_of units absorbed ms u = Primary \<longleftrightarrow> u = primary_of units absorbed ms"
  by (simp add: role_of_def)

lemma pack_of_rows:
  assumes "distinct (map fst arows)"
  shows "pack_of arows u = Some (p, r) \<longleftrightarrow> (u, p, r) \<in> set arows"
proof -
  have "distinct (map fst (map (\<lambda>(u, p, r). (u, (p, r))) arows))" using assms by (simp add: comp_def split_def)
  then show ?thesis by (auto simp: pack_of_def)
qed

text \<open>Keys and foreign keys of the pack tables.\<close>

definition pack_db_ok :: "pack_db \<Rightarrow> bool" where
  "pack_db_ok d \<longleftrightarrow> distinct (map fst (pd_packs d)) \<and> (\<forall>p \<in> fst ` set (pd_packs d). p < pd_next d) \<and>
     (\<forall>u p r. (u, Some (p, r)) \<in> set (pd_units d) \<longrightarrow> p \<in> fst ` set (pd_packs d)) \<and>
     (\<forall>(p, c, r) \<in> set (pd_containers d). p \<in> fst ` set (pd_packs d)) \<and>
     distinct (map (\<lambda>(p, c, _). (p, c)) (pd_containers d))"

lemma pack_db_okD:
  assumes "pack_db_ok d"
  shows "distinct (map fst (pd_packs d))" "p \<in> fst ` set (pd_packs d) \<Longrightarrow> p < pd_next d"
    "(u, Some (p, r)) \<in> set (pd_units d) \<Longrightarrow> p \<in> fst ` set (pd_packs d)"
    "(p, c, ro) \<in> set (pd_containers d) \<Longrightarrow> p \<in> fst ` set (pd_packs d)"
    "distinct (map (\<lambda>(p, c, _). (p, c)) (pd_containers d))"
  using assms unfolding pack_db_ok_def by blast+

definition containers_ok :: "punits \<Rightarrow> (nat, nat list) dict \<Rightarrow> bool" where
  "containers_ok units batches \<longleftrightarrow> distinct (map fst batches) \<and>
     (\<forall>u v x y c. map_of units u = Some x \<longrightarrow> map_of units v = Some y \<longrightarrow> pu_container x = Some c \<longrightarrow> pu_container y = Some c \<longrightarrow> u = v) \<and>
     (\<forall>u x c. map_of units u = Some x \<longrightarrow> pu_container x = Some c \<longrightarrow> c \<notin> fst ` set batches)"

lemma existing_in_packs: "pack_db_ok d \<Longrightarrow> map_of (existing_packs d) u = Some p \<Longrightarrow> p \<in> fst ` set (pd_packs d)"
proof -
  assume ok: "pack_db_ok d" and m: "map_of (existing_packs d) u = Some p"
  from map_of_SomeD [OF m] obtain r where "(u, Some (p, r)) \<in> set (pd_units d)"
    by (auto simp: existing_packs_def split: option.splits)
  then show ?thesis by (rule pack_db_okD(3) [OF ok])
qed

lemma archive_row: "(p, c, r) \<in> set (archive_rows arows units) \<longleftrightarrow>
    (\<exists>u x. (u, p, r) \<in> set arows \<and> map_of units u = Some x \<and> pu_container x = Some c)"
proof -
  have one: "y \<in> set (case Option.bind (map_of units u) pu_container of None \<Rightarrow> [] | Some cid \<Rightarrow> [(p, cid, r)]) \<longleftrightarrow>
      (\<exists>x c. map_of units u = Some x \<and> pu_container x = Some c \<and> y = (p, c, r))" for y u p r
    by (cases "map_of units u") (auto split: option.splits)
  have "x \<in> set (archive_rows arows units) \<longleftrightarrow> (\<exists>(u, p, r) \<in> set arows. x \<in> set (case Option.bind (map_of units u) pu_container of
      None \<Rightarrow> [] | Some cid \<Rightarrow> [(p, cid, r)]))" for x
    by (simp add: archive_rows_def split_def)
  then show ?thesis unfolding one by fast
qed

lemma batch_row: "(p, c, r) \<in> set (batch_rows arows sources batches) \<longleftrightarrow>
    (\<exists>fids. (c, fids) \<in> set batches \<and> 0 < cv_covered (batch_cover (cover_rows arows sources fids)) \<and>
      whole_batch (batch_cover (cover_rows arows sources fids)) \<and> p = hd (cv_packs (batch_cover (cover_rows arows sources fids))) \<and>
      r = rank_role (cv_rank (batch_cover (cover_rows arows sources fids))))"
  by (auto simp: batch_rows_def Let_def split: if_splits)

lemma archive_rows_distinct:
  assumes rws: "distinct (map fst arows)" and ok: "containers_ok units batches"
  shows "distinct (map (\<lambda>(_, c, _). c) (archive_rows arows units))"
  using rws
proof (induction arows)
  case (Cons a arows)
  obtain u p r where a: "a = (u, p, r)" by (cases a)
  have split: "archive_rows (a # arows) units = (case Option.bind (map_of units u) pu_container of None \<Rightarrow> [] | Some cid \<Rightarrow> [(p, cid, r)]) @
      archive_rows arows units" by (simp add: archive_rows_def a)
  show ?case
  proof (cases "Option.bind (map_of units u) pu_container")
    case (Some c)
    then obtain x where x: "map_of units u = Some x" "pu_container x = Some c" by (cases "map_of units u") auto
    have "c \<notin> set (map (\<lambda>(_, c, _). c) (archive_rows arows units))"
    proof
      assume "c \<in> set (map (\<lambda>(_, c, _). c) (archive_rows arows units))"
      then obtain q ro where "(q, c, ro) \<in> set (archive_rows arows units)" by auto
      then obtain v y where v: "(v, q, ro) \<in> set arows" "map_of units v = Some y" "pu_container y = Some c" by (auto simp: archive_row)
      then have "u = v" using ok x unfolding containers_ok_def by blast
      with v(1) Cons.prems show False by (force simp: a)
    qed
    with Cons split Some show ?thesis by simp
  qed (use Cons split in simp)
qed (simp add: archive_rows_def)

lemma batch_rows_distinct:
  "distinct (map fst batches) \<Longrightarrow> distinct (map (\<lambda>(_, c, _). c) (batch_rows arows sources batches)) \<and>
   set (map (\<lambda>(_, c, _). c) (batch_rows arows sources batches)) \<subseteq> fst ` set batches"
proof (induction batches)
  case (Cons x batches)
  obtain cid fids where x: "x = (cid, fids)" by (cases x)
  let ?m = "map (\<lambda>(_, c, _). c)" and ?b = "batch_rows arows sources"
  have "?m (?b (x # batches)) = ?m (?b batches) \<or> ?m (?b (x # batches)) = cid # ?m (?b batches)"
    by (simp add: batch_rows_def x Let_def)
  moreover have "distinct (?m (?b batches))" "set (?m (?b batches)) \<subseteq> fst ` set batches" using Cons by auto
  moreover have "cid \<notin> fst ` set batches" using Cons.prems by (simp add: x)
  ultimately show ?case unfolding x list.set fst_conv image_insert by (elim disjE) auto
qed (simp add: batch_rows_def)

lemma new_rows_distinct:
  assumes "distinct (map fst arows)" and ok: "containers_ok units batches"
  shows "distinct (map (\<lambda>(p, c, _). (p, c)) (archive_rows arows units @ batch_rows arows sources batches))"
proof -
  let ?new = "archive_rows arows units @ batch_rows arows sources batches"
  have b: "distinct (map (\<lambda>(_, c, _). c) (batch_rows arows sources batches))"
    "set (map (\<lambda>(_, c, _). c) (batch_rows arows sources batches)) \<subseteq> fst ` set batches"
    using batch_rows_distinct ok by (auto simp: containers_ok_def)
  have "c \<notin> fst ` set batches" if "c \<in> set (map (\<lambda>(_, c, _). c) (archive_rows arows units))" for c
  proof -
    from that obtain p r where "(p, c, r) \<in> set (archive_rows arows units)" by auto
    then show ?thesis using ok unfolding archive_row containers_ok_def by blast
  qed
  then have "distinct (map (\<lambda>(_, c, _). c) ?new)"
    using archive_rows_distinct [OF assms] b by (simp only: map_append distinct_append) blast
  then have "distinct (map snd (map (\<lambda>(p, c, _). (p, c)) ?new))" by (simp add: comp_def split_def)
  then show ?thesis by (rule distinct_mapI)
qed

lemma assigned_of_rows: "p \<in> assigned_ids arows \<longleftrightarrow> (\<exists>u r. (u, p, r) \<in> set arows)"
  by (force simp: assigned_ids_def)

definition gone_packs :: "assign_rows \<Rightarrow> pack_db \<Rightarrow> int set" where
  "gone_packs arows d = set (map fst (filter (\<lambda>(p, r). pk_status r \<noteq> Provisional \<and> p \<notin> assigned_ids arows) (pd_packs d)))"

lemma pd_fields:
  "pd_containers (clear_containers arows d) = filter (\<lambda>x. fst x \<notin> assigned_ids arows) (pd_containers d)"
  "pd_packs (clear_containers arows d) = pd_packs d" "pd_units (clear_containers arows d) = pd_units d" "pd_next (clear_containers arows d) = pd_next d"
  "pd_containers (update_packs arows meshes sz review d) = pd_containers d" "map fst (pd_packs (update_packs arows meshes sz review d)) = map fst (pd_packs d)"
  "pd_units (update_packs arows meshes sz review d) = pd_units d" "pd_next (update_packs arows meshes sz review d) = pd_next d"
  "pd_containers (delete_packs arows d) = filter (\<lambda>x. fst x \<notin> gone_packs arows d) (pd_containers d)"
  "map fst (pd_packs (delete_packs arows d)) = filter (\<lambda>p. p \<notin> gone_packs arows d) (map fst (pd_packs d))"
  "pd_units (delete_packs arows d) = pd_units d" "pd_next (delete_packs arows d) = pd_next d"
  "pd_containers (update_units arows d) = pd_containers d" "pd_packs (update_units arows d) = pd_packs d" "pd_next (update_units arows d) = pd_next d"
  "pd_units (update_units arows d) = map (\<lambda>(u, x). (u, pack_of arows u)) (pd_units d)"
  "pd_containers (insert_packs fresh d) = pd_containers d" "map fst (pd_packs (insert_packs fresh d)) = map fst (pd_packs d) @ fresh"
  "pd_units (insert_packs fresh d) = pd_units d" "pd_next (insert_packs fresh d) = pd_next d + int (length fresh)"
  "gone_packs arows (update_units arows d) = gone_packs arows d"
  by (simp_all add: clear_containers_def update_packs_def delete_packs_def update_units_def insert_packs_def gone_packs_def Let_def
    split_def comp_def filter_map)

lemma gone_unassigned: "p \<in> gone_packs arows d \<Longrightarrow> p \<notin> assigned_ids arows"
  by (auto simp: gone_packs_def)

lemma tables_ok:
  fixes sources :: "(int \<times> nat) list" and meshes :: mesh_rows and sz :: "string \<Rightarrow> int" and review :: "(int, string set) dict"
  assumes ok: "pack_db_ok d" and fresh: "fresh = new_ids (pd_next d) n"
    and rws: "distinct (map fst arows)" and assigned: "\<And>p. p \<in> assigned_ids arows \<Longrightarrow> p \<in> fst ` set (pd_packs d) \<or> p \<in> set fresh"
    and cok: "containers_ok units batches"
  defines "new \<equiv> archive_rows arows units @ batch_rows arows sources batches"
    and "mid \<equiv> clear_containers arows (update_packs arows meshes sz review (delete_packs arows (update_units arows (insert_packs fresh d))))"
  assumes new_packs: "\<And>p c r. (p, c, r) \<in> set new \<Longrightarrow> p \<in> assigned_ids arows"
  shows "insert_pack_containers new mid = py_ret (mid\<lparr>pd_containers := pd_containers mid @ new\<rparr>)"
    and "pack_db_ok (mid\<lparr>pd_containers := pd_containers mid @ new\<rparr>)"
proof -
  let ?ins = "insert_packs fresh d"
  let ?gone = "gone_packs arows ?ins"
  have packs: "map fst (pd_packs mid) = filter (\<lambda>p. p \<notin> ?gone) (map fst (pd_packs ?ins))"
    unfolding mid_def pd_fields ..
  have keys: "fst ` set (pd_packs mid) = fst ` set (pd_packs ?ins) - ?gone"
    unfolding set_map [symmetric] packs by auto
  have ikeys: "map fst (pd_packs ?ins) = map fst (pd_packs d) @ fresh" by (rule pd_fields)
  have nx: "pd_next mid = pd_next d + int n"
    unfolding mid_def pd_fields by (simp add: fresh new_ids(1))
  note gone = gone_unassigned [of _ arows ?ins]
  have akeys: "p \<in> fst ` set (pd_packs mid)" if "p \<in> assigned_ids arows" for p
  proof -
    have "p \<in> set (map fst (pd_packs ?ins))" unfolding ikeys using assigned [OF that] by auto
    then show ?thesis unfolding keys using gone that by auto
  qed
  have cl: "pd_containers mid = filter (\<lambda>x. fst x \<notin> assigned_ids arows) (filter (\<lambda>x. fst x \<notin> ?gone) (pd_containers d))"
    unfolding mid_def pd_fields ..
  have cmid: "set (pd_containers mid) = {x \<in> set (pd_containers d). fst x \<notin> ?gone \<and> fst x \<notin> assigned_ids arows}"
    unfolding cl by auto
  have cdist: "distinct (map (\<lambda>(p, c, _). (p, c)) (pd_containers mid))"
    unfolding cl by (intro distinct_map_filter pack_db_okD(5) [OF ok])
  have disj: "set (map (\<lambda>(p, c, _). (p, c)) (pd_containers mid)) \<inter> set (map (\<lambda>(p, c, _). (p, c)) new) = {}"
  proof (rule equals0I)
    fix y assume y: "y \<in> set (map (\<lambda>(p, c, _). (p, c)) (pd_containers mid)) \<inter> set (map (\<lambda>(p, c, _). (p, c)) new)"
    obtain p c where yp: "y = (p, c)" by (cases y)
    from y yp obtain r r' where "(p, c, r) \<in> set (pd_containers mid)" "(p, c, r') \<in> set new" by auto
    then show False using new_packs cmid by auto
  qed
  have dn: "distinct (map (\<lambda>(p, c, _). (p, c)) (pd_containers mid @ new))"
    using cdist disj new_rows_distinct [OF rws cok] by (simp only: map_append distinct_append new_def)
  then show "insert_pack_containers new mid = py_ret (mid\<lparr>pd_containers := pd_containers mid @ new\<rparr>)"
    by (simp add: insert_pack_containers_def del: map_append)
  show "pack_db_ok (mid\<lparr>pd_containers := pd_containers mid @ new\<rparr>)"
    unfolding pack_db_ok_def
  proof (intro conjI)
    have "distinct (map fst (pd_packs ?ins))" unfolding ikeys
      using pack_db_okD(1,2) [OF ok] new_ids(2,3) by (fastforce simp: fresh)
    then show "distinct (map fst (pd_packs (mid\<lparr>pd_containers := pd_containers mid @ new\<rparr>)))" by (simp add: packs)
    have "p < pd_next d + int n" if "p \<in> set (map fst (pd_packs ?ins))" for p
      using that pack_db_okD(2) [OF ok] unfolding ikeys by (fastforce simp: fresh new_ids(3))
    then show "\<forall>p \<in> fst ` set (pd_packs (mid\<lparr>pd_containers := pd_containers mid @ new\<rparr>)). p < pd_next (mid\<lparr>pd_containers := pd_containers mid @ new\<rparr>)"
      by (auto simp: nx keys)
    have "p \<in> assigned_ids arows" if "(u, Some (p, r)) \<in> set (pd_units mid)" for u p r
    proof -
      have "pack_of arows u = Some (p, r)" using that unfolding mid_def pd_fields by auto
      then show ?thesis using pack_of_rows [OF rws] assigned_of_rows by blast
    qed
    then show "\<forall>u p r. (u, Some (p, r)) \<in> set (pd_units (mid\<lparr>pd_containers := pd_containers mid @ new\<rparr>)) \<longrightarrow>
        p \<in> fst ` set (pd_packs (mid\<lparr>pd_containers := pd_containers mid @ new\<rparr>))"
      using akeys by simp
    have "p \<in> fst ` set (pd_packs mid)" if "(p, c, r) \<in> set (pd_containers mid)" for p c r
    proof -
      from that have "(p, c, r) \<in> set (pd_containers d)" "p \<notin> ?gone" unfolding cmid by auto
      then have "p \<in> set (map fst (pd_packs ?ins))" unfolding ikeys using pack_db_okD(4) [OF ok] by auto
      with \<open>p \<notin> ?gone\<close> show ?thesis unfolding keys by auto
    qed
    then show "\<forall>(p, c, r) \<in> set (pd_containers (mid\<lparr>pd_containers := pd_containers mid @ new\<rparr>)).
        p \<in> fst ` set (pd_packs (mid\<lparr>pd_containers := pd_containers mid @ new\<rparr>))"
      using new_packs akeys by auto
    show "distinct (map (\<lambda>(p, c, _). (p, c)) (pd_containers (mid\<lparr>pd_containers := pd_containers mid @ new\<rparr>)))"
      using dn by simp
  qed
qed

lemma cover_packs:
  assumes "0 < cv_covered (batch_cover xs)"
  shows "\<exists>p r. Some (p, r) \<in> set xs \<and> hd (cv_packs (batch_cover xs)) = p"
proof -
  let ?ps = "concat (map (\<lambda>x. case x of None \<Rightarrow> [] | Some (p, r) \<Rightarrow> [p]) xs)"
  have mem: "q \<in> set ?ps \<longleftrightarrow> (\<exists>r. Some (q, r) \<in> set xs)" for q by (induction xs) (auto split: option.splits)
  from assms obtain y where "Some y \<in> set xs" by (auto simp: batch_cover_def filter_empty_conv)
  then have "Some (fst y, snd y) \<in> set xs" by simp
  then have "fst y \<in> set ?ps" using mem by blast
  then have "remdups ?ps \<noteq> []" by (metis empty_iff empty_set set_remdups)
  then have "hd (remdups ?ps) \<in> set ?ps" by (metis hd_in_set set_remdups)
  then show ?thesis using mem by (auto simp: batch_cover_def)
qed

lemma cover_rows_in:
  "x \<in> set (cover_rows arows sources fids) \<longleftrightarrow> (\<exists>sid \<in> set fids. (\<exists>u. (u, sid) \<in> set sources \<and> x = pack_of arows u) \<or>
     x = None \<and> (\<nexists>u. (u, sid) \<in> set sources))"
proof -
  have one: "x \<in> set (let us = map fst (filter (\<lambda>(_, s). s = sid) sources) in if us = [] then [None] else map (pack_of arows) us) \<longleftrightarrow>
      (\<exists>u. (u, sid) \<in> set sources \<and> x = pack_of arows u) \<or> x = None \<and> (\<nexists>u. (u, sid) \<in> set sources)" for x sid
    by (auto simp: Let_def filter_empty_conv) force+
  show ?thesis unfolding cover_rows_def set_concat set_map UN_iff bex_simps one ..
qed

lemma cover_rows_empty: "cover_rows arows sources fids = [] \<longleftrightarrow> fids = []"
proof (cases fids)
  case (Cons sid rest)
  then have "\<exists>x. x \<in> set (cover_rows arows sources fids)" unfolding cover_rows_in by (metis list.set_intros(1))
  then show ?thesis using Cons by auto
qed (simp add: cover_rows_def)

lemma all_bex_swap: "(\<forall>x. (\<exists>s \<in> S. B s x) \<longrightarrow> P x) \<longleftrightarrow> (\<forall>s \<in> S. \<forall>x. B s x \<longrightarrow> P x)"
  by blast

lemma cover_rows_whole:
  "(\<forall>x \<in> set (cover_rows arows sources fids). \<exists>r. x = Some (p, r)) \<longleftrightarrow> (\<forall>sid \<in> set fids. (\<exists>u. (u, sid) \<in> set sources) \<and>
     (\<forall>u. (u, sid) \<in> set sources \<longrightarrow> (\<exists>r. pack_of arows u = Some (p, r))))"
proof -
  have one: "(\<forall>x. (\<exists>u. (u, sid) \<in> set sources \<and> x = pack_of arows u) \<or> x = None \<and> (\<nexists>u. (u, sid) \<in> set sources) \<longrightarrow> (\<exists>r. x = Some (p, r)))
      \<longleftrightarrow> (\<exists>u. (u, sid) \<in> set sources) \<and> (\<forall>u. (u, sid) \<in> set sources \<longrightarrow> (\<exists>r. pack_of arows u = Some (p, r)))" for sid
    by (cases "\<exists>u. (u, sid) \<in> set sources") auto
  have "(\<forall>x \<in> set (cover_rows arows sources fids). \<exists>r. x = Some (p, r)) \<longleftrightarrow> (\<forall>sid \<in> set fids. \<forall>x.
      (\<exists>u. (u, sid) \<in> set sources \<and> x = pack_of arows u) \<or> x = None \<and> (\<nexists>u. (u, sid) \<in> set sources) \<longrightarrow> (\<exists>r. x = Some (p, r)))"
    unfolding Ball_def cover_rows_in by (rule all_bex_swap [unfolded Ball_def])
  then show ?thesis unfolding one .
qed

lemma cover_rows_mem:
  "Some (p, r) \<in> set (cover_rows arows sources fids) \<longleftrightarrow> (\<exists>sid \<in> set fids. \<exists>u. (u, sid) \<in> set sources \<and> pack_of arows u = Some (p, r))"
  unfolding cover_rows_in by (metis option.distinct(1))

lemma whole_iff:
  "0 < cv_covered (batch_cover xs) \<and> whole_batch (batch_cover xs) \<and> p = hd (cv_packs (batch_cover xs)) \<longleftrightarrow>
     xs \<noteq> [] \<and> (\<forall>x \<in> set xs. \<exists>r. x = Some (p, r))"
proof -
  let ?ps = "concat (map (\<lambda>x. case x of None \<Rightarrow> [] | Some (p, r) \<Rightarrow> [p]) xs)"
  have mem: "q \<in> set ?ps \<longleftrightarrow> (\<exists>r. Some (q, r) \<in> set xs)" for q by (induction xs) (auto split: option.splits)
  have all: "cv_covered (batch_cover xs) = cv_files (batch_cover xs) \<longleftrightarrow> (\<forall>x \<in> set xs. x \<noteq> None)"
    using filter_all_eq [of "\<lambda>_. True" "\<lambda>x. x \<noteq> None" xs] by (simp add: batch_cover_def)
  have packs: "cv_packs (batch_cover xs) = remdups ?ps" by (simp add: batch_cover_def)
  show ?thesis
  proof
    assume h: "0 < cv_covered (batch_cover xs) \<and> whole_batch (batch_cover xs) \<and> p = hd (cv_packs (batch_cover xs))"
    then have "length (remdups ?ps) = 1" by (simp add: whole_batch_def packs)
    then obtain q where q: "remdups ?ps = [q]" by (cases "remdups ?ps") auto
    then have qs: "set ?ps = {q}" by (metis set_remdups list.simps(15) list.set(1))
    have "p = q" using h q by (simp add: packs)
    have "xs \<noteq> []" using h by (auto simp: batch_cover_def)
    moreover have "\<exists>r. x = Some (p, r)" if x: "x \<in> set xs" for x
    proof -
      have "x \<noteq> None" using h all x by (simp add: whole_batch_def)
      then obtain a r where a: "x = Some (a, r)" by (cases x) auto
      then have "a \<in> set ?ps" using mem x by blast
      then have "a = p" unfolding qs using \<open>p = q\<close> by blast
      then show ?thesis using a by blast
    qed
    ultimately show "xs \<noteq> [] \<and> (\<forall>x \<in> set xs. \<exists>r. x = Some (p, r))" by blast
  next
    assume h: "xs \<noteq> [] \<and> (\<forall>x \<in> set xs. \<exists>r. x = Some (p, r))"
    then obtain r where "Some (p, r) \<in> set xs" by (metis list.set_intros(1) neq_Nil_conv)
    then have "set ?ps = {p}" using h mem by fastforce
    then have "set (remdups ?ps) = {p}" by simp
    moreover from this have "length (remdups ?ps) = 1" by (metis card.empty card_insert_disjoint distinct_card distinct_remdups empty_iff finite.emptyI One_nat_def)
    ultimately have "remdups ?ps = [p]" by (cases "remdups ?ps") auto
    moreover have "\<forall>x \<in> set xs. x \<noteq> None" using h by blast
    moreover have "0 < cv_covered (batch_cover xs)" using h by (cases xs) (auto simp: batch_cover_def)
    ultimately show "0 < cv_covered (batch_cover xs) \<and> whole_batch (batch_cover xs) \<and> p = hd (cv_packs (batch_cover xs))"
      using all by (simp add: whole_batch_def packs)
  qed
qed

subsection \<open>Properties\<close>

definition written :: "punits \<Rightarrow> (int \<times> nat) list \<Rightarrow> (nat, nat list) dict \<Rightarrow> resolver \<Rightarrow> pack_db \<Rightarrow> (int, int list) dict \<Rightarrow>
    (int, int) dict \<Rightarrow> assign_rows \<Rightarrow> pack_db \<Rightarrow> bool" where
  "written units sources batches s d comps assign arows d2 \<longleftrightarrow> comps_ok (rv_uf s) comps \<and>
     arows = unit_rows units (rv_absorbed s) assign comps \<and> pack_db_ok d2 \<and>
     (\<forall>c ms c' ms'. (c, ms) \<in> set comps \<longrightarrow> (c', ms') \<in> set comps \<longrightarrow> dict_get assign c 0 = dict_get assign c' 0 \<longrightarrow> c = c') \<and>
     pd_units d2 = map (\<lambda>(u, x). (u, pack_of arows u)) (pd_units d) \<and>
     (\<forall>x. x \<in> set (batch_rows arows sources batches) \<longrightarrow> x \<in> set (pd_containers d2)) \<and>
     (\<forall>p c r. (p, c, r) \<in> set (pd_containers d2) \<longrightarrow> p \<in> assigned_ids arows \<longrightarrow> c \<in> fst ` set batches \<longrightarrow> (p, c, r) \<in> set (batch_rows arows sources batches))"

lemma writtenD:
  assumes "written units sources batches s d comps assign arows d2"
  shows "comps_ok (rv_uf s) comps" "arows = unit_rows units (rv_absorbed s) assign comps" "pack_db_ok d2"
    "(c, ms) \<in> set comps \<Longrightarrow> (c', ms') \<in> set comps \<Longrightarrow> dict_get assign c 0 = dict_get assign c' 0 \<Longrightarrow> c = c'"
    "pd_units d2 = map (\<lambda>(u, x). (u, pack_of arows u)) (pd_units d)"
    "x \<in> set (batch_rows arows sources batches) \<Longrightarrow> x \<in> set (pd_containers d2)"
    "(p, e, r) \<in> set (pd_containers d2) \<Longrightarrow> p \<in> assigned_ids arows \<Longrightarrow> e \<in> fst ` set batches \<Longrightarrow> (p, e, r) \<in> set (batch_rows arows sources batches)"
  using assms unfolding written_def by blast+

lemma write_run:
  assumes inv: "uf_inv (rv_uf s)" and db: "pack_db_ok d" and cok: "containers_ok units batches"
  shows "\<exists>comps assign arows d2. write_packs units meshes sz sources batches s d = py_ret (arows, d2) \<and>
    written units sources batches s d comps assign arows d2"
proof -
  from uf_components_spec [OF inv] obtain comps where
    comps: "uf_components (rv_uf s) = py_ret comps" "comps_ok (rv_uf s) comps" unfolding comps_ok_def by blast
  obtain assign fresh where asg: "assign_packs comps (existing_packs d) (pd_next d) = (assign, fresh)" by (cases "assign_packs comps (existing_packs d) (pd_next d)")
  have old: "\<forall>u p. map_of (existing_packs d) u = Some p \<longrightarrow> p < pd_next d" using existing_in_packs [OF db] pack_db_okD(2) [OF db] by blast
  have dc: "distinct (map fst comps)" using comps(2) by (simp add: comps_ok_def)
  note apo = assign_packs_ok [OF dc old asg]
  obtain n where fresh: "fresh = new_ids (pd_next d) n" using apo by blast
  define arows where "arows = unit_rows units (rv_absorbed s) assign comps"
  have rws: "distinct (map fst arows)" unfolding arows_def unit_rows_fst by (rule distinct_units [OF inv comps(2)])
  have get: "map_of assign c = Some (dict_get assign c 0)" if "(c, ms) \<in> set comps" for c ms
    using apo that by (auto simp: dict_get_def image_iff split: option.splits)
  have assigned: "p \<in> fst ` set (pd_packs d) \<or> p \<in> set fresh" if "p \<in> assigned_ids arows" for p
  proof -
    from that obtain u r where "(u, p, r) \<in> set arows" unfolding assigned_of_rows by blast
    then obtain c ms where "(c, ms) \<in> set comps" "p = dict_get assign c 0" unfolding arows_def unit_rows_mem by blast
    then have "map_of assign c = Some p" using get by simp
    then have "p \<in> set fresh \<or> (\<exists>u. map_of (existing_packs d) u = Some p)" using apo by blast
    then show ?thesis using existing_in_packs [OF db] by blast
  qed
  let ?new = "archive_rows arows units @ batch_rows arows sources batches"
  let ?mid = "clear_containers arows (update_packs arows meshes sz (rv_review s) (delete_packs arows (update_units arows (insert_packs fresh d))))"
  have new: "p \<in> assigned_ids arows" if mem: "(p, c, r) \<in> set ?new" for p c r
  proof -
    consider "(p, c, r) \<in> set (archive_rows arows units)" | "(p, c, r) \<in> set (batch_rows arows sources batches)" using mem by auto
    then show ?thesis
    proof cases
      case 1
      then show ?thesis unfolding archive_row assigned_of_rows by blast
    next
      case 2
      then obtain fids where f: "0 < cv_covered (batch_cover (cover_rows arows sources fids))"
        "p = hd (cv_packs (batch_cover (cover_rows arows sources fids)))" unfolding batch_row by blast
      from cover_packs [OF f(1)] f(2) obtain ro where "Some (p, ro) \<in> set (cover_rows arows sources fids)" by auto
      then obtain u where "pack_of arows u = Some (p, ro)" unfolding cover_rows_mem by blast
      then show ?thesis using pack_of_rows [OF rws] assigned_of_rows by blast
    qed
  qed
  note tab = tables_ok [where sources = sources and meshes = meshes and sz = sz and review = "rv_review s", OF db fresh rws assigned cok new]
  let ?d2 = "?mid\<lparr>pd_containers := pd_containers ?mid @ ?new, pd_decisions := rv_decisions s\<rparr>"
  have run: "write_packs units meshes sz sources batches s d = py_ret (arows, ?d2)"
    unfolding write_packs_def comps(1) py_bind_ret asg prod.case Let_def arows_def [symmetric]
    using tab(1) by simp
  have ok: "pack_db_ok ?d2" using tab(2) by (simp add: pack_db_ok_def)
  have inj: "c = c'" if "(c, ms) \<in> set comps" "(c', ms') \<in> set comps" "dict_get assign c 0 = dict_get assign c' 0" for c ms c' ms'
    using get [OF that(1)] get [OF that(2)] that(3) apo by auto
  have pu: "pd_units ?d2 = map (\<lambda>(u, x). (u, pack_of arows u)) (pd_units d)" by (simp add: pd_fields)
  have "(p, c, r) \<in> set (batch_rows arows sources batches)" if "(p, c, r) \<in> set (pd_containers ?d2)" "p \<in> assigned_ids arows" "c \<in> fst ` set batches" for p c r
  proof -
    have "(p, c, r) \<notin> set (pd_containers ?mid)" using that(2) by (simp add: pd_fields)
    moreover have "(p, c, r) \<notin> set (archive_rows arows units)" using that(3) cok unfolding archive_row containers_ok_def by blast
    ultimately show ?thesis using that(1) by simp
  qed
  moreover have "x \<in> set (pd_containers ?d2)" if "x \<in> set (batch_rows arows sources batches)" for x using that by simp
  ultimately have "written units sources batches s d comps assign arows ?d2"
    unfolding written_def using comps(2) ok inj pu arows_def by blast
  with run show ?thesis by blast
qed

lemma written_assigned:
  assumes "uf_inv (rv_uf s)" and "written units sources batches s d comps assign arows d2" and "x \<in> uf_items (rv_uf s)"
  shows "\<exists>p r. pack_of arows x = Some (p, r) \<and> p \<in> assigned_ids arows"
proof -
  note w = writtenD(1,2) [OF assms(2)]
  have rws: "distinct (map fst arows)" unfolding w(2) unit_rows_fst by (rule distinct_units [OF assms(1) w(1)])
  from comps_cover [OF assms(1) w(1) assms(3)] obtain c ms where "(c, ms) \<in> set comps" "x \<in> set ms" by blast
  then have m: "(x, dict_get assign c 0, role_of units (rv_absorbed s) ms x) \<in> set arows" unfolding w(2) unit_rows_mem by blast
  then have "dict_get assign c 0 \<in> assigned_ids arows" by (force simp: assigned_ids_def)
  with m show ?thesis unfolding pack_of_rows [OF rws] by blast
qed

text \<open>
  C27. The write returns and stores the partition: the keys and foreign keys of the tables still hold, every unit of
  the run has a pack, two units have the same pack exactly when they are joined, and every pack has exactly
  one primary unit.
\<close>

theorem write_stores_partition:
  assumes "uf_inv (rv_uf s)" and "pack_db_ok d" and "containers_ok units batches"
  shows "\<exists>arows d2. write_packs units meshes sz sources batches s d = py_ret (arows, d2) \<and> pack_db_ok d2 \<and>
    pd_units d2 = map (\<lambda>(u, x). (u, pack_of arows u)) (pd_units d) \<and>
    (\<forall>x y. x \<in> uf_items (rv_uf s) \<longrightarrow> y \<in> uf_items (rv_uf s) \<longrightarrow> (\<exists>p r q r'. pack_of arows x = Some (p, r) \<and> pack_of arows y = Some (q, r') \<and>
      (p = q \<longleftrightarrow> uf_same (rv_uf s) x y))) \<and>
    (\<forall>p \<in> assigned_ids arows. \<exists>!u. pack_of arows u = Some (p, Primary))"
proof -
  let ?u = "rv_uf s"
  from write_run [OF assms, of meshes sz sources] obtain comps assign arows d2 where
    run: "write_packs units meshes sz sources batches s d = py_ret (arows, d2)" and wr: "written units sources batches s d comps assign arows d2"
    by blast
  note w = writtenD(1,2) [OF wr] and inj = writtenD(4) [OF wr]
  have rws: "distinct (map fst arows)" unfolding w(2) unit_rows_fst by (rule distinct_units [OF assms(1) w(1)])
  have row: "pack_of arows x = Some (dict_get assign c 0, role_of units (rv_absorbed s) ms x)" if "(c, ms) \<in> set comps" "x \<in> set ms" for x c ms
    unfolding pack_of_rows [OF rws] unfolding w(2) unit_rows_mem using that by blast
  have parts: "\<exists>p r q r'. pack_of arows x = Some (p, r) \<and> pack_of arows y = Some (q, r') \<and> (p = q \<longleftrightarrow> uf_same ?u x y)"
    if xy: "x \<in> uf_items ?u" "y \<in> uf_items ?u" for x y
  proof -
    from comps_cover [OF assms(1) w(1)] xy obtain c ms c' ms' where
      c: "(c, ms) \<in> set comps" "x \<in> set ms" "(c', ms') \<in> set comps" "y \<in> set ms'" by blast
    have "c = c' \<longleftrightarrow> uf_same ?u x y"
    proof
      assume "c = c'"
      then show "uf_same ?u x y" using comps_okD(1) [OF assms(1) w(1)] c uf_same_trans uf_same_sym by blast
    next
      assume "uf_same ?u x y"
      then have "uf_same ?u x c'" using comps_okD(1) [OF assms(1) w(1) c(3)] c(4) uf_same_trans by blast
      then have "x \<in> set ms'" using comps_okD(1) [OF assms(1) w(1) c(3)] by blast
      then show "c = c'" using comps_disjoint [OF assms(1) w(1) c(1,3,2)] by blast
    qed
    moreover have "dict_get assign c 0 = dict_get assign c' 0 \<longleftrightarrow> c = c'" using inj c by blast
    ultimately show ?thesis using row [OF c(1,2)] row [OF c(3,4)] by simp
  qed
  have prim: "\<exists>!u. pack_of arows u = Some (p, Primary)" if "p \<in> assigned_ids arows" for p
  proof -
    from that obtain c ms where c: "(c, ms) \<in> set comps" "p = dict_get assign c 0"
      unfolding assigned_of_rows unfolding w(2) unit_rows_mem by blast
    let ?v = "primary_of units (rv_absorbed s) ms"
    have "?v \<in> set ms" using primary_in comps_okD(3) [OF assms(1) w(1) c(1)] by blast
    then have "pack_of arows ?v = Some (p, Primary)" using row [OF c(1)] c(2) by (simp add: role_primary)
    moreover have "v = ?v" if v: "pack_of arows v = Some (p, Primary)" for v
    proof -
      from v obtain d ns where d: "(d, ns) \<in> set comps" "v \<in> set ns" "p = dict_get assign d 0" "role_of units (rv_absorbed s) ns v = Primary"
        unfolding pack_of_rows [OF rws] unfolding w(2) unit_rows_mem by metis
      have "c = d" using inj c d by metis
      then have "ms = ns" using w(1) c(1) d(1) unfolding comps_ok_def by metis
      then show ?thesis using d(4) by (simp add: role_primary)
    qed
    ultimately show ?thesis by blast
  qed
  show ?thesis using run writtenD(3,5) [OF wr] parts prim by blast
qed

text \<open>
  C32. \<open>pack_containers\<close> lists a loose batch for a pack only when the whole batch belongs to it: the row exists
  exactly when every file of the batch is in a unit and every unit that has one of its files has that pack.
\<close>

theorem loose_batch_attached_whole:
  assumes "uf_inv (rv_uf s)" and "pack_db_ok d" and "containers_ok units batches" and "(cid, fids) \<in> set batches"
  shows "\<exists>arows d2. write_packs units meshes sz sources batches s d = py_ret (arows, d2) \<and>
    (\<forall>p \<in> assigned_ids arows. (\<exists>r. (p, cid, r) \<in> set (pd_containers d2)) \<longleftrightarrow>
      fids \<noteq> [] \<and> (\<forall>sid \<in> set fids. (\<exists>u. (u, sid) \<in> set sources) \<and>
        (\<forall>u. (u, sid) \<in> set sources \<longrightarrow> (\<exists>r. pack_of arows u = Some (p, r)))))"
proof -
  from write_run [OF assms(1-3), of meshes sz sources] obtain comps assign arows d2 where
    run: "write_packs units meshes sz sources batches s d = py_ret (arows, d2)" and wr: "written units sources batches s d comps assign arows d2"
    by blast
  let ?xs = "cover_rows arows sources fids"
  have key: "(cid, fids') \<in> set batches \<longleftrightarrow> fids' = fids" for fids'
    using assms(3,4) unfolding containers_ok_def by (metis eq_key_imp_eq_value)
  have ne: "?xs = [] \<longleftrightarrow> fids = []" by (rule cover_rows_empty)
  have "(\<exists>r. (p, cid, r) \<in> set (pd_containers d2)) \<longleftrightarrow> fids \<noteq> [] \<and> (\<forall>sid \<in> set fids. (\<exists>u. (u, sid) \<in> set sources) \<and>
        (\<forall>u. (u, sid) \<in> set sources \<longrightarrow> (\<exists>r. pack_of arows u = Some (p, r))))" if p: "p \<in> assigned_ids arows" for p
  proof -
    have "cid \<in> fst ` set batches" using assms(4) by force
    then have "(\<exists>r. (p, cid, r) \<in> set (pd_containers d2)) \<longleftrightarrow> (\<exists>r. (p, cid, r) \<in> set (batch_rows arows sources batches))"
      using writtenD(6,7) [OF wr] p by blast
    also have "\<dots> \<longleftrightarrow> 0 < cv_covered (batch_cover ?xs) \<and> whole_batch (batch_cover ?xs) \<and> p = hd (cv_packs (batch_cover ?xs))"
      unfolding batch_row key by blast
    also have "\<dots> \<longleftrightarrow> ?xs \<noteq> [] \<and> (\<forall>x \<in> set ?xs. \<exists>r. x = Some (p, r))" by (rule whole_iff)
    also have "\<dots> \<longleftrightarrow> fids \<noteq> [] \<and> (\<forall>sid \<in> set fids. (\<exists>u. (u, sid) \<in> set sources) \<and>
        (\<forall>u. (u, sid) \<in> set sources \<longrightarrow> (\<exists>r. pack_of arows u = Some (p, r))))"
      unfolding ne cover_rows_whole ..
    finally show ?thesis .
  qed
  with run show ?thesis by blast
qed

definition demo_tables :: pack_db where
  "demo_tables = \<lparr>pd_units = [(1, None), (2, None)], pd_packs = [], pd_next = 1, pd_containers = [], pd_decisions = []\<rparr>"

definition demo_unit :: "int \<Rightarrow> string \<Rightarrow> punit" where
  "demo_unit i path = \<lparr>pu_id = i, pu_key = ''loose:'' @ path, pu_kind = ''loose'', pu_path = path, pu_model_root = None,
     pu_container = None, pu_mesh_count = 1, pu_mesh_bytes = 84, pu_tri_sum = 0\<rparr>"

definition demo_punits :: punits where
  "demo_punits = [(1, demo_unit 1 ''x''), (2, demo_unit 2 ''y'')]"

lemma demo_tables_ok: "pack_db_ok demo_tables" "containers_ok demo_punits []" "containers_ok demo_punits [(7, [10])]"
  by (auto simp: pack_db_ok_def demo_tables_def containers_ok_def demo_punits_def demo_unit_def split: if_splits)

lemma demo_uf:
  "\<exists>u. uf_init [1, 2] [] = py_ret u \<and> uf_inv (rv_uf (resolver_init u)) \<and> uf_items u = {1, 2} \<and> \<not> uf_same u 1 2"
  using uf_init_spec [of "[1, 2]" "[]"] by (auto simp: resolver_init_def)

theorem write_stores_partition_witness:
  "\<exists>u arows d2 p q. uf_init [1, 2] [] = py_ret u \<and>
    write_packs demo_punits [] (\<lambda>_. 0) [] [] (resolver_init u) demo_tables = py_ret (arows, d2) \<and> pack_db_ok d2 \<and>
    pd_units d2 = [(1, pack_of arows 1), (2, pack_of arows 2)] \<and>
    map_option fst (pack_of arows 1) = Some p \<and> map_option fst (pack_of arows 2) = Some q \<and> p \<noteq> q"
proof -
  from demo_uf obtain u where u: "uf_init [1, 2] [] = py_ret u" "uf_inv (rv_uf (resolver_init u))" "uf_items u = {1, 2}" "\<not> uf_same u 1 2"
    by blast
  from write_stores_partition [OF u(2) demo_tables_ok(1,2), of "[]" "\<lambda>_. 0" "[]"] obtain arows d2 where
    w: "write_packs demo_punits [] (\<lambda>_. 0) [] [] (resolver_init u) demo_tables = py_ret (arows, d2)" "pack_db_ok d2"
      "pd_units d2 = map (\<lambda>(u, x). (u, pack_of arows u)) (pd_units demo_tables)" and
    same: "\<And>x y. x \<in> uf_items u \<Longrightarrow> y \<in> uf_items u \<Longrightarrow>
      \<exists>p r q r'. pack_of arows x = Some (p, r) \<and> pack_of arows y = Some (q, r') \<and> (p = q \<longleftrightarrow> uf_same u x y)"
    by (auto simp: resolver_init_def)
  from same [of 1 2] obtain p r q r' where "pack_of arows 1 = Some (p, r)" "pack_of arows 2 = Some (q, r')" "p \<noteq> q"
    using u(3,4) by auto
  with u(1) w show ?thesis by (auto simp: demo_tables_def)
qed

theorem loose_batch_attached_whole_witness:
  "\<exists>u arows d2 p r s. uf_init [1, 2] [] = py_ret u \<and>
    write_packs demo_punits [] (\<lambda>_. 0) [(1, 10)] [(7, [10])] (resolver_init u) demo_tables = py_ret (arows, d2) \<and>
    pack_of arows 1 = Some (p, r) \<and> (p, 7, s) \<in> set (pd_containers d2)"
proof -
  from demo_uf obtain u where u: "uf_init [1, 2] [] = py_ret u" "uf_inv (rv_uf (resolver_init u))" "uf_items u = {1, 2}" by blast
  from loose_batch_attached_whole [OF u(2) demo_tables_ok(1,3), of 7 "[10]" "[]" "\<lambda>_. 0" "[(1, 10)]"] obtain arows d2 where
    w: "write_packs demo_punits [] (\<lambda>_. 0) [(1, 10)] [(7, [10])] (resolver_init u) demo_tables = py_ret (arows, d2)" and
    row: "\<And>p. p \<in> assigned_ids arows \<Longrightarrow> (\<exists>r. (p, 7, r) \<in> set (pd_containers d2)) \<longleftrightarrow> (\<exists>r. pack_of arows 1 = Some (p, r))"
    by auto
  from write_run [OF u(2) demo_tables_ok(1,3), of "[]" "\<lambda>_. 0" "[(1, 10)]"] w obtain comps assign where
    wr: "written demo_punits [(1, 10)] [(7, [10])] (resolver_init u) demo_tables comps assign arows d2" by auto
  have "\<exists>p r. pack_of arows 1 = Some (p, r) \<and> p \<in> assigned_ids arows"
    by (rule written_assigned [OF u(2) wr]) (simp add: resolver_init_def u(3))
  with row u(1) w show ?thesis by metis
qed

end
