(* ===== verification/MatPaths.thy ===== *)
theory MatPaths
  imports PackUnits
begin

text \<open>
  \<^verbatim>\<open>materialize/paths.py\<close> and \<^verbatim>\<open>materialize/keywords.py\<close>: names of the new tree. Strings are code points below 256,
  where every string is in normal form C and has no lone surrogate; \<open>casefold\<close> is written out for that range
  (without the micro sign, whose folding lies outside it). SHA-256 of a name is the parameter \<open>digest\<close>.
\<close>

subsection \<open>Bytes and extensions\<close>

definition MAX_COMPONENT_BYTES :: nat where "MAX_COMPONENT_BYTES = 255"
definition MAX_REL_PATH_BYTES :: int where "MAX_REL_PATH_BYTES = 3800"
definition DATAPACKAGE :: string where "DATAPACKAGE = ''datapackage.json''"
definition FALLBACK_CATEGORY :: string where "FALLBACK_CATEGORY = ''Misc''"

definition utf8_size :: "char \<Rightarrow> nat" where
  "utf8_size c = (if (of_char c :: nat) < 128 then 1 else 2)"

definition utf8_len :: "string \<Rightarrow> nat" where
  "utf8_len s = sum_list (map utf8_size s)"

text \<open>The first bytes of the encoding, without a character that is cut in two.\<close>

fun truncate_utf8 :: "string \<Rightarrow> nat \<Rightarrow> string" where
  "truncate_utf8 [] limit = []"
| "truncate_utf8 (c # cs) limit = (if utf8_size c \<le> limit then c # truncate_utf8 cs (limit - utf8_size c) else [])"

text \<open>\<open>posixpath.splitext\<close> of a name without a slash, and \<open>split_ext\<close>.\<close>

definition splitext :: "string \<Rightarrow> string \<times> string" where
  "splitext name = (chop (splitext_ext name) name, splitext_ext name)"

definition split_ext :: "string \<Rightarrow> string \<times> string" where
  "split_ext name = (case splitext name of (stem, ext) \<Rightarrow> if stem = [] \<or> 17 < length ext then (name, []) else (stem, ext))"

subsection \<open>One component\<close>

definition is_control :: "char \<Rightarrow> bool" where
  "is_control c \<longleftrightarrow> (let n = of_char c :: nat in n < 32 \<or> n = 127)"

definition str_rstrip :: "string \<Rightarrow> string" where
  "str_rstrip s = rev (dropWhile is_space (rev s))"

definition clean_chars :: "string \<Rightarrow> string" where
  "clean_chars name = replace_char CHR 0x5C (CHR ''_'') (replace_char (CHR ''/'') (CHR ''_'')
     (map (\<lambda>c. if is_control c then CHR ''_'' else c) name))"

definition undot :: "string \<Rightarrow> string" where
  "undot s = (let s = (if s \<in> {[], ''.'', ''..''} then (if s = [] then ''_'' else replicate (length s) (CHR ''_'')) else s) in
     if prefix ''.'' s then ''_'' @ tl s else s)"

definition shorten :: "(string \<Rightarrow> string) \<Rightarrow> string \<Rightarrow> string \<Rightarrow> string" where
  "shorten digest name s =
     (if MAX_COMPONENT_BYTES < utf8_len s then
        let tag = ''~'' @ take 8 (digest name);
            (stem, ext) = split_ext s;
            (stem, ext) = (if 32 < utf8_len ext then (s, []) else (stem, ext));
            room = MAX_COMPONENT_BYTES - utf8_len tag - utf8_len ext
        in str_rstrip (truncate_utf8 stem room) @ tag @ ext
      else s)"

definition sanitize_component :: "(string \<Rightarrow> string) \<Rightarrow> string \<Rightarrow> string" where
  "sanitize_component digest name = shorten digest name (undot (str_strip (clean_chars name)))"

definition sanitize_components :: "(string \<Rightarrow> string) \<Rightarrow> string list \<Rightarrow> string list" where
  "sanitize_components digest comps = map (sanitize_component digest) comps"

subsection \<open>Pack folders\<close>

definition PACK_CATEGORIES :: "string list" where
  "PACK_CATEGORIES = [''Anime'', ''Cartoons'', ''Cosplay'', ''DC'', ''D&D'', ''Games'', ''Movie TV'', ''Comics'', ''Vehicles'',
     ''Terrain'', ''Tabletop'', ''Art'', ''Tools'', ''Misc'']"

definition category_dir :: "string option \<Rightarrow> string" where
  "category_dir category = (case category of None \<Rightarrow> FALLBACK_CATEGORY
     | Some c \<Rightarrow> if c \<in> set PACK_CATEGORIES then c else FALLBACK_CATEGORY)"

definition pack_folder_name :: "(string \<Rightarrow> string) \<Rightarrow> string option \<Rightarrow> nat \<Rightarrow> string" where
  "pack_folder_name digest name pack_id =
     (let base = str_strip (case name of None \<Rightarrow> [] | Some n \<Rightarrow> n) in
      sanitize_component digest (if base \<noteq> [] then base else ''pack-'' @ nat_str pack_id))"

subsection \<open>Member chains\<close>

definition ARCHIVE_SUFFIX :: rx where
  "ARCHIVE_SUFFIX = rx_seq [Alt (Seq (rx_ilit ''.part'') (Rep True 1 None is_digit)) Eps, rx_lit ''.'',
     rx_alts (map rx_ilit [''zip'', ''rar'', ''7z'', ''tar'', ''tgz''] @
       [Seq (rx_ilit ''tbz'') (Rep True 0 (Some 1) (\<lambda>c. c = CHR ''2''))] @
       map rx_ilit [''txz'', ''gz'', ''bz2'', ''xz'', ''zst'', ''lz4'', ''cab'', ''cbz'', ''cbr'', ''iso''] @
       [Seq (rx_ilit ''r'') (Rep True 2 (Some 2) is_digit), Rep True 3 (Some 3) is_digit]), Eol]"

definition TAR_INNER :: rx where
  "TAR_INNER = Seq (rx_ilit ''.tar'') Eol"

text \<open>Both patterns end in \<open>$\<close> and match at most once, so \<open>re.sub\<close> replaces at most one match.\<close>

definition strip_archive_suffix :: "string \<Rightarrow> string" where
  "strip_archive_suffix name = (let out = rx_sub1 TAR_INNER [] (rx_sub1 ARCHIVE_SUFFIX [] name) in if out \<noteq> [] then out else name)"

definition element_parts :: "string \<Rightarrow> string list" where
  "element_parts element =
     (let e = (case str_partition ''//'' element of None \<Rightarrow> element | Some (a, _) \<Rightarrow> a);
          parts = filter (\<lambda>p. p \<noteq> [] \<and> p \<noteq> ''.'') (split_on (CHR ''/'') (replace_char CHR 0x5C (CHR ''/'') e))
      in if parts = [] then [''_''] else parts)"

fun chain_components :: "string list \<Rightarrow> string list" where
  "chain_components [] = []"
| "chain_components [e] = element_parts e"
| "chain_components (e # f # rest) =
     butlast (element_parts e) @ [strip_archive_suffix (List.last (element_parts e))] @ chain_components (f # rest)"

definition is_junk :: "string list \<Rightarrow> bool" where
  "is_junk comps \<longleftrightarrow> ''__MACOSX'' \<in> set comps \<or> comps \<noteq> [] \<and> prefix ''._'' (List.last comps)"

subsection \<open>Collisions\<close>

text \<open>\<open>posixpath.join\<close>; \<open>posixpath.split\<close> is \<open>dir_name\<close> with \<open>base_name\<close>.\<close>

definition posix_join :: "string \<Rightarrow> string \<Rightarrow> string" where
  "posix_join a b = (if prefix ''/'' b then b else if a = [] \<or> suffix ''/'' a then a @ b else a @ ''/'' @ b)"

definition with_tag :: "(string \<Rightarrow> string) \<Rightarrow> string \<Rightarrow> string \<Rightarrow> nat \<Rightarrow> string" where
  "with_tag digest rel sha n =
     (let head = dir_name rel; (stem, ext) = split_ext (base_name rel);
          tagged = sanitize_component digest (stem @ ''~'' @ take n sha @ ext)
      in if head \<noteq> [] then posix_join head tagged else tagged)"

definition fold_char :: "char \<Rightarrow> string" where
  "fold_char c = (let n = of_char c :: nat in
     if 65 \<le> n \<and> n \<le> 90 \<or> 192 \<le> n \<and> n \<le> 222 \<and> n \<noteq> 215 then [char_of (n + 32)] else if n = 223 then ''ss'' else [c])"

definition path_key :: "string \<Rightarrow> string" where
  "path_key rel = concat (map fold_char rel)"

record candidate =
  cd_rel :: string
  cd_sha :: string

type_synonym taken = "string set \<times> string set"

definition parents_of :: "string \<Rightarrow> string list" where
  "parents_of k = (let parts = split_on (CHR ''/'') k in map (\<lambda>i. join_on (CHR ''/'') (take i parts)) [1..<length parts])"

definition clashes :: "taken \<Rightarrow> string \<Rightarrow> bool" where
  "clashes t rel = (case t of (files, dirs) \<Rightarrow> let k = path_key rel in
     k \<in> files \<or> k \<in> dirs \<or> (\<exists>d \<in> set (parents_of k). d \<in> files))"

definition long_name :: "int \<Rightarrow> candidate \<Rightarrow> string" where
  "long_name budget c = (if budget < int (utf8_len (cd_rel c))
     then ''_long/'' @ take 16 (cd_sha c) @ snd (split_ext (base_name (cd_rel c))) else cd_rel c)"

definition trials :: "(string \<Rightarrow> string) \<Rightarrow> string \<Rightarrow> string \<Rightarrow> string list" where
  "trials digest rel sha = (let ext = snd (split_ext (base_name rel)) in
     rel # map (with_tag digest rel sha) [8, 16, 64] @
       [sanitize_component digest (''_conflict~'' @ take 16 sha @ ext), sanitize_component digest (''_conflict~'' @ sha @ ext)])"

definition collision_step :: "(string \<Rightarrow> string) \<Rightarrow> int \<Rightarrow> candidate \<Rightarrow> taken \<times> (string, string) dict \<Rightarrow>
    (taken \<times> (string, string) dict) py" where
  "collision_step digest budget c acc = (case acc of ((files, dirs), out) \<Rightarrow>
     case find (\<lambda>t. \<not> clashes (files, dirs) t) (trials digest (long_name budget c) (cd_sha c)) of
       None \<Rightarrow> py_raise ValueError
     | Some rel \<Rightarrow> py_ret ((insert (path_key rel) files, dirs \<union> set (parents_of (path_key rel))), AList.update (cd_sha c) rel out))"

definition resolve_collisions :: "(string \<Rightarrow> string) \<Rightarrow> candidate list \<Rightarrow> string \<Rightarrow> (string, string) dict py" where
  "resolve_collisions digest cands pack_dir =
     (let budget = MAX_REL_PATH_BYTES - int (utf8_len pack_dir) - 1 in
      py_bind (py_fold (collision_step digest budget) cands (({path_key DATAPACKAGE}, {}), [])) (\<lambda>(_, out). py_ret out))"

subsection \<open>Keywords\<close>

definition keyword_step :: "string option \<Rightarrow> string set \<times> string list \<Rightarrow> string set \<times> string list" where
  "keyword_step item acc = (case acc of (seen, out) \<Rightarrow> case item of
     None \<Rightarrow> acc
   | Some w \<Rightarrow> if w = [] \<or> path_key w \<in> seen then acc else (insert (path_key w) seen, out @ [w]))"

definition pack_keywords :: "string option \<Rightarrow> string option \<Rightarrow> string option \<Rightarrow> string list option \<Rightarrow> bool \<Rightarrow> string list" where
  "pack_keywords category source_tag creator tags tagged =
     snd (fold keyword_step
       (if tagged then map Some (case tags of None \<Rightarrow> [] | Some ts \<Rightarrow> ts) else [category, source_tag, creator]) ({}, []))"

end
