(* ===== verification/MatGuard.thy ===== *)
theory MatGuard
  imports Effects MatPaths
begin

text \<open>
  \<^verbatim>\<open>materialize/guard.py\<close>: the write guard, over a file system of names and inodes. A name is an absolute path
  without symbolic links; a path given to the kernel is resolved with \<open>os_real\<close> (\<open>os.path.realpath\<close>) on its parent and
  its last component is taken as it is, as the guarded calls do. Calls may fail for any reason
  (\<open>os_fail\<close>; \<open>os_empty\<close> tells an empty directory, \<open>os_list\<close> is \<open>os.listdir\<close>), and one check with the call that follows it is one step: a concurrent process that swaps a directory
  for a symbolic link in between is the residual risk the module documents.
\<close>

subsection \<open>Files\<close>

datatype os_err = EEXIST | ENOENT | EXDEV | EPERM | ENOTSUP | EMLINK | EACCES | ENOTDIR | EISDIR | EINVAL | ENOTEMPTY | EIO

datatype node = N_Dir | N_File nat | N_Link string

record fs =
  fs_names :: "string \<Rightarrow> node option"
  fs_data :: "nat \<Rightarrow> string"
  fs_next :: nat
  fs_fds :: "nat set"
  fs_writes :: nat

datatype sysop = Mkdir string | Creat string | Link string string | Symlink string string | Rename string string |
  Unlink string | Rmdir string | Fsync nat

record os =
  os_real :: "fs \<Rightarrow> string \<Rightarrow> string"
  os_fail :: "sysop \<Rightarrow> fs \<Rightarrow> os_err option"
  os_removed :: "fs \<Rightarrow> string set"
  os_empty :: "fs \<Rightarrow> string \<Rightarrow> bool"
  os_list :: "fs \<Rightarrow> string \<Rightarrow> os_err + string list"
  os_token :: "fs \<Rightarrow> nat \<Rightarrow> string"
  os_dev :: "fs \<Rightarrow> string \<Rightarrow> nat"
  os_readonly :: "string \<Rightarrow> bool"
  os_writable :: "string \<Rightarrow> bool"
  os_mounts :: "string list option"

datatype gexn = GuardError | StartupError | OSErr os_err | Hang | ShaMismatch | CopyDisabled | StoreCorrupt | Bad_Sha

type_synonym 'a fs_act = "(fs, gexn, 'a) act"

definition loc :: "os \<Rightarrow> fs \<Rightarrow> string \<Rightarrow> string" where
  "loc os s p = posix_join (os_real os s (dir_name p)) (base_name p)"

definition is_dir :: "os \<Rightarrow> fs \<Rightarrow> string \<Rightarrow> bool" where
  "is_dir os s p \<longleftrightarrow> fs_names s (os_real os s p) = Some N_Dir"

definition lstat :: "os \<Rightarrow> fs \<Rightarrow> string \<Rightarrow> node option" where
  "lstat os s p = fs_names s (loc os s p)"

definition is_under :: "string \<Rightarrow> string \<Rightarrow> bool" where
  "is_under path rt \<longleftrightarrow> path \<noteq> rt \<and> prefix (rev (dropWhile (\<lambda>c. c = CHR ''/'') (rev rt)) @ ''/'') path"

definition is_under_or_equal :: "string \<Rightarrow> string \<Rightarrow> bool" where
  "is_under_or_equal path rt \<longleftrightarrow> path = rt \<or> is_under path rt"

subsection \<open>System calls\<close>

definition sys :: "os \<Rightarrow> sysop \<Rightarrow> (fs \<Rightarrow> os_err + ('a \<times> fs)) \<Rightarrow> 'a fs_act" where
  "sys os op f = (\<lambda>s. case os_fail os op s of Some e \<Rightarrow> (Inl (OSErr e), s)
     | None \<Rightarrow> (case f s of Inl e \<Rightarrow> (Inl (OSErr e), s) | Inr (v, t) \<Rightarrow> (Inr v, t)))"

definition new_name :: "os \<Rightarrow> fs \<Rightarrow> string \<Rightarrow> node \<Rightarrow> os_err + fs" where
  "new_name os s p n =
     (if fs_names s (os_real os s (dir_name p)) \<noteq> Some N_Dir then Inl ENOENT
      else if fs_names s (loc os s p) \<noteq> None then Inl EEXIST
      else Inr (s\<lparr>fs_names := (fs_names s)(loc os s p \<mapsto> n)\<rparr>))"

definition unit_sys :: "(os_err + fs) \<Rightarrow> os_err + (unit \<times> fs)" where
  "unit_sys r = (case r of Inl e \<Rightarrow> Inl e | Inr t \<Rightarrow> Inr ((), t))"

definition sys_mkdir :: "os \<Rightarrow> string \<Rightarrow> unit fs_act" where
  "sys_mkdir os p = sys os (Mkdir p) (\<lambda>s. unit_sys (new_name os s p N_Dir))"

text \<open>\<open>O_CREAT | O_EXCL | O_NOFOLLOW\<close>: a new inode, whose number is the file descriptor.\<close>

definition sys_creat :: "os \<Rightarrow> string \<Rightarrow> nat fs_act" where
  "sys_creat os p = sys os (Creat p) (\<lambda>s. case new_name os s p (N_File (fs_next s)) of Inl e \<Rightarrow> Inl e
     | Inr t \<Rightarrow> Inr (fs_next s, t\<lparr>fs_data := (fs_data t)(fs_next s := []), fs_next := fs_next s + 1,
         fs_fds := insert (fs_next s) (fs_fds t)\<rparr>))"

definition sys_link :: "os \<Rightarrow> string \<Rightarrow> string \<Rightarrow> unit fs_act" where
  "sys_link os src dst = sys os (Link src dst) (\<lambda>s. case lstat os s src of
     None \<Rightarrow> Inl ENOENT | Some N_Dir \<Rightarrow> Inl EPERM | Some n \<Rightarrow> unit_sys (new_name os s dst n))"

definition sys_symlink :: "os \<Rightarrow> string \<Rightarrow> string \<Rightarrow> unit fs_act" where
  "sys_symlink os target p = sys os (Symlink target p) (\<lambda>s. unit_sys (new_name os s p (N_Link target)))"

text \<open>A directory is renamed with everything below it.\<close>

definition moved :: "string \<Rightarrow> string \<Rightarrow> (string \<Rightarrow> node option) \<Rightarrow> string \<Rightarrow> node option" where
  "moved a b names q =
     (if q = b then names a
      else if is_under q b \<and> names a = Some N_Dir then names (a @ drop (length b) q)
      else if q = a \<or> is_under q a \<and> names a = Some N_Dir then None
      else names q)"

definition rename_to :: "os \<Rightarrow> fs \<Rightarrow> string \<Rightarrow> string \<Rightarrow> os_err + fs" where
  "rename_to os s src dst = (let a = loc os s src; b = loc os s dst in
     case fs_names s a of
       None \<Rightarrow> Inl ENOENT
     | Some n \<Rightarrow>
         if a = b then Inr s
         else if fs_names s (os_real os s (dir_name dst)) \<noteq> Some N_Dir then Inl ENOENT
         else if is_under b a then Inl EINVAL
         else if fs_names s b = Some N_Dir \<and> n \<noteq> N_Dir then Inl EISDIR
         else if n = N_Dir \<and> fs_names s b \<notin> {None, Some N_Dir} then Inl ENOTDIR
         else if n = N_Dir \<and> \<not> os_empty os s b then Inl ENOTEMPTY
         else Inr (s\<lparr>fs_names := moved a b (fs_names s)\<rparr>))"

definition sys_rename :: "os \<Rightarrow> string \<Rightarrow> string \<Rightarrow> unit fs_act" where
  "sys_rename os src dst = sys os (Rename src dst) (\<lambda>s. unit_sys (rename_to os s src dst))"

definition sys_unlink :: "os \<Rightarrow> string \<Rightarrow> unit fs_act" where
  "sys_unlink os p = sys os (Unlink p) (\<lambda>s. case lstat os s p of
     None \<Rightarrow> Inl ENOENT | Some N_Dir \<Rightarrow> Inl EISDIR
   | Some _ \<Rightarrow> Inr ((), s\<lparr>fs_names := (fs_names s)(loc os s p := None)\<rparr>))"

definition sys_rmdir :: "os \<Rightarrow> string \<Rightarrow> unit fs_act" where
  "sys_rmdir os p = sys os (Rmdir p) (\<lambda>s. case lstat os s p of
     None \<Rightarrow> Inl ENOENT
   | Some n \<Rightarrow> if n \<noteq> N_Dir then Inl ENOTDIR
       else if \<not> os_empty os s (loc os s p) then Inl ENOTEMPTY
       else Inr ((), s\<lparr>fs_names := (fs_names s)(loc os s p := None)\<rparr>))"

text \<open>\<open>shutil.rmtree(..., ignore_errors=True)\<close> removes some of the names of the tree and follows no symbolic link.\<close>

definition sys_rmtree :: "os \<Rightarrow> string \<Rightarrow> unit fs_act" where
  "sys_rmtree os p = act_mod (\<lambda>s. s\<lparr>fs_names := (\<lambda>q.
     if q \<in> os_removed os s \<and> is_under_or_equal q (loc os s p) then None else fs_names s q)\<rparr>)"

text \<open>A write goes through a descriptor that \<open>open_new\<close> returned and is still open.\<close>

definition sys_write :: "nat \<Rightarrow> string \<Rightarrow> unit fs_act" where
  "sys_write fd data = (\<lambda>s. if fd \<in> fs_fds s then (Inr (), s\<lparr>fs_data := (fs_data s)(fd := fs_data s fd @ data)\<rparr>)
     else (Inl (OSErr EIO), s))"

definition sys_close :: "nat \<Rightarrow> unit fs_act" where
  "sys_close fd = act_mod (\<lambda>s. s\<lparr>fs_fds := fs_fds s - {fd}\<rparr>)"

subsection \<open>Checking\<close>

record guard =
  g_v2 :: string
  g_source :: string
  g_scratch :: "string option"

datatype area = V2 | Scratch

definition root_of :: "guard \<Rightarrow> area \<Rightarrow> string fs_act" where
  "root_of g a = (case a of V2 \<Rightarrow> act_ret (g_v2 g)
     | Scratch \<Rightarrow> (case g_scratch g of None \<Rightarrow> act_raise GuardError | Some r \<Rightarrow> act_ret r))"

definition rstrip_slash :: "string \<Rightarrow> string" where
  "rstrip_slash p = rev (dropWhile (\<lambda>c. c = CHR ''/'') (rev p))"

definition check_path :: "os \<Rightarrow> guard \<Rightarrow> string \<Rightarrow> area \<Rightarrow> string fs_act" where
  "check_path os g p a =
     (if CHR 0x00 \<in> set p then act_raise GuardError
      else if \<not> prefix ''/'' p then act_raise GuardError
      else
        let q = (if p \<noteq> ''/'' then rstrip_slash p else p); name = base_name q in
        if name \<in> {[], ''.'', ''..''} then act_raise GuardError
        else act_bind (act_get (\<lambda>s. posix_join (os_real os s (dir_name q)) name)) (\<lambda>resolved.
          if is_under_or_equal resolved (g_source g) then act_raise GuardError
          else act_bind (root_of g a) (\<lambda>rt.
            if \<not> is_under resolved rt then act_raise GuardError else act_ret resolved)))"

definition check_link_source :: "os \<Rightarrow> guard \<Rightarrow> string \<Rightarrow> string fs_act" where
  "check_link_source os g p =
     (if CHR 0x00 \<in> set p \<or> \<not> prefix ''/'' p then act_raise GuardError
      else if base_name p \<in> {[], ''.'', ''..''} then act_raise GuardError
      else act_bind (act_get (\<lambda>s. loc os s p)) (\<lambda>resolved.
        if \<not> (is_under resolved (g_source g) \<or> is_under resolved (g_v2 g)) then act_raise GuardError
        else act_ret resolved))"

subsection \<open>Write primitives\<close>

definition count_write :: "unit fs_act" where
  "count_write = act_mod (\<lambda>s. s\<lparr>fs_writes := fs_writes s + 1\<rparr>)"

text \<open>The directories \<open>mkdirs\<close> has to create, innermost first.\<close>

partial_function (option) missing_dirs :: "os \<Rightarrow> fs \<Rightarrow> string \<Rightarrow> string \<Rightarrow> string list \<Rightarrow> (gexn + string list) option" where
  "missing_dirs os s rt cur missing =
     (if is_dir os s cur then Some (Inr missing)
      else if lstat os s cur \<noteq> None then Some (Inl (OSErr EEXIST))
      else if \<not> is_under (dir_name cur) rt \<and> dir_name cur \<noteq> rt then Some (Inl GuardError)
      else missing_dirs os s rt (dir_name cur) (missing @ [cur]))"

definition make_dir :: "os \<Rightarrow> guard \<Rightarrow> area \<Rightarrow> string \<Rightarrow> unit fs_act" where
  "make_dir os g a d =
     act_bind (check_path os g d a) (\<lambda>checked.
     act_catch (act_seq (sys_mkdir os checked) count_write)
       (\<lambda>e. if e \<noteq> OSErr EEXIST then act_raise e
         else act_bind (act_get (\<lambda>s. is_dir os s checked)) (\<lambda>ok. if ok then act_ret () else act_raise e)))"

definition mkdirs :: "os \<Rightarrow> guard \<Rightarrow> string \<Rightarrow> area \<Rightarrow> string fs_act" where
  "mkdirs os g p a =
     act_bind (check_path os g p a) (\<lambda>target.
     act_bind (root_of g a) (\<lambda>rt.
     act_bind (act_get (\<lambda>s. missing_dirs os s rt target [])) (\<lambda>m. case m of
       None \<Rightarrow> act_raise Hang
     | Some (Inl e) \<Rightarrow> act_raise e
     | Some (Inr missing) \<Rightarrow> act_seq (act_for (rev missing) (make_dir os g a)) (act_ret target))))"

definition open_new :: "os \<Rightarrow> guard \<Rightarrow> string \<Rightarrow> area \<Rightarrow> nat fs_act" where
  "open_new os g p a =
     act_bind (check_path os g p a) (\<lambda>target.
     act_bind (sys_creat os target) (\<lambda>fd. act_seq count_write (act_ret fd)))"

definition new_temp_name :: "os \<Rightarrow> guard \<Rightarrow> string \<Rightarrow> string \<Rightarrow> area \<Rightarrow> nat \<Rightarrow> string fs_act" where
  "new_temp_name os g directory pre a i =
     act_bind (act_get (\<lambda>s. os_token os s i)) (\<lambda>token. check_path os g (posix_join directory (pre @ token)) a)"

fun mkdtemp_from :: "os \<Rightarrow> guard \<Rightarrow> string \<Rightarrow> string \<Rightarrow> area \<Rightarrow> nat list \<Rightarrow> string fs_act" where
  "mkdtemp_from os g directory pre a [] = act_raise (OSErr EEXIST)"
| "mkdtemp_from os g directory pre a (i # is) =
     act_bind (new_temp_name os g directory pre a i) (\<lambda>target.
     act_bind (act_catch (act_seq (sys_mkdir os target) (act_ret True))
         (\<lambda>e. if e = OSErr EEXIST then act_ret False else act_raise e)) (\<lambda>ok.
     if ok then act_seq count_write (act_ret target) else mkdtemp_from os g directory pre a is))"

definition mkdtemp :: "os \<Rightarrow> guard \<Rightarrow> string \<Rightarrow> string \<Rightarrow> area \<Rightarrow> string fs_act" where
  "mkdtemp os g directory pre a = mkdtemp_from os g directory pre a [0..<16]"

definition guard_link :: "os \<Rightarrow> guard \<Rightarrow> string \<Rightarrow> string \<Rightarrow> string fs_act" where
  "guard_link os g src dst =
     act_bind (check_path os g dst V2) (\<lambda>target.
     act_bind (check_link_source os g src) (\<lambda>source.
     act_bind (act_get (\<lambda>s. lstat os s source)) (\<lambda>st. case st of
       None \<Rightarrow> act_raise (OSErr ENOENT)
     | Some (N_File i) \<Rightarrow> act_seq (sys_link os source target) (act_seq count_write (act_ret target))
     | Some _ \<Rightarrow> act_raise GuardError)))"

definition symlink_in_scratch :: "os \<Rightarrow> guard \<Rightarrow> string \<Rightarrow> string \<Rightarrow> string fs_act" where
  "symlink_in_scratch os g src dst =
     act_bind (check_path os g dst Scratch) (\<lambda>target.
     act_seq (sys_symlink os src target) (act_seq count_write (act_ret target)))"

definition guard_rename :: "os \<Rightarrow> guard \<Rightarrow> string \<Rightarrow> string \<Rightarrow> area \<Rightarrow> string fs_act" where
  "guard_rename os g src dst a =
     act_bind (check_path os g src a) (\<lambda>source.
     act_bind (check_path os g dst a) (\<lambda>target.
     act_seq (sys_rename os source target) (act_seq count_write (act_ret target))))"

definition guard_unlink :: "os \<Rightarrow> guard \<Rightarrow> string \<Rightarrow> area \<Rightarrow> unit fs_act" where
  "guard_unlink os g p a =
     act_bind (check_path os g p a) (\<lambda>target.
     act_bind (act_get (\<lambda>s. lstat os s target)) (\<lambda>st. case st of
       None \<Rightarrow> act_raise (OSErr ENOENT)
     | Some N_Dir \<Rightarrow> act_raise (OSErr EISDIR)
     | Some _ \<Rightarrow> act_seq (sys_unlink os target) count_write))"

definition guard_rmdir :: "os \<Rightarrow> guard \<Rightarrow> string \<Rightarrow> area \<Rightarrow> unit fs_act" where
  "guard_rmdir os g p a = act_bind (check_path os g p a) (\<lambda>target. act_seq (sys_rmdir os target) count_write)"

definition rmtree_scratch :: "os \<Rightarrow> guard \<Rightarrow> string \<Rightarrow> unit fs_act" where
  "rmtree_scratch os g p = act_bind (check_path os g p Scratch) (\<lambda>target. act_seq (sys_rmtree os target) count_write)"

text \<open>\<open>open_read\<close> follows no symbolic link in the last component.\<close>

definition open_read :: "os \<Rightarrow> string \<Rightarrow> nat fs_act" where
  "open_read os p = act_bind (act_get (\<lambda>s. lstat os s p)) (\<lambda>st. case st of
     Some (N_File i) \<Rightarrow> act_ret i | None \<Rightarrow> act_raise (OSErr ENOENT) | Some _ \<Rightarrow> act_raise (OSErr EIO))"

subsection \<open>Start-up\<close>

definition NETWORK_FS :: "string list" where
  "NETWORK_FS = [''nfs'', ''nfs4'', ''cifs'', ''smb3'', ''smbfs'', ''fuse.sshfs'', ''9p'', ''ceph'', ''glusterfs'']"

text \<open>\<open>parts[1].replace("\\040", " ")\<close>, and the longest mount point above a path.\<close>

fun unescape_blank :: "string \<Rightarrow> string" where
  "unescape_blank [] = []"
| "unescape_blank (c # cs) = (if prefix [CHR 0x5C, CHR ''0'', CHR ''4'', CHR ''0''] (c # cs)
     then CHR '' '' # unescape_blank (drop 3 cs) else c # unescape_blank cs)"

definition mount_step :: "string \<Rightarrow> string \<Rightarrow> string \<times> string \<Rightarrow> string \<times> string" where
  "mount_step path line acc = (case str_words line of
     _ # m # t # _ \<Rightarrow> (let mnt = unescape_blank m in
       if is_under_or_equal path mnt \<and> length (fst acc) < length mnt then (mnt, t) else acc)
   | _ \<Rightarrow> acc)"

definition mount_fstype :: "string list option \<Rightarrow> string \<Rightarrow> string" where
  "mount_fstype mounts path = (case mounts of None \<Rightarrow> [] | Some ls \<Rightarrow> snd (fold (mount_step path) ls ([], [])))"

record startup_report =
  sp_v2 :: string
  sp_source :: string
  sp_scratch :: "string option"
  sp_same_device :: bool
  sp_source_readonly :: bool
  sp_acknowledged :: bool
  sp_source_writable :: bool
  sp_scratch_fstype :: "string option"

definition refuse_if :: "bool \<Rightarrow> gexn \<Rightarrow> unit fs_act" where
  "refuse_if b e = (if b then act_raise e else act_ret ())"

definition overlap :: "string \<times> string \<Rightarrow> bool" where
  "overlap ab \<longleftrightarrow> (case ab of (a, b) \<Rightarrow> is_under_or_equal a b \<or> is_under_or_equal b a)"

definition probe_refused :: "os \<Rightarrow> guard \<Rightarrow> string \<Rightarrow> unit fs_act" where
  "probe_refused os g p = act_bind (act_catch (act_seq (check_path os g p V2) (act_ret False))
     (\<lambda>e. if e = GuardError then act_ret True else act_raise e)) (\<lambda>refused. refuse_if (\<not> refused) StartupError)"

definition open_guard :: "os \<Rightarrow> string \<Rightarrow> string \<Rightarrow> string option \<Rightarrow> bool \<Rightarrow> bool \<Rightarrow> (guard \<times> startup_report) fs_act" where
  "open_guard os v2_root source_root scratch_root ack require_v2 =
     act_seq (refuse_if (\<exists>r \<in> {v2_root, source_root} \<union> set_option scratch_root. \<not> prefix ''/'' r) StartupError)
     (act_bind (act_get (\<lambda>s. (os_real os s v2_root, os_real os s source_root, map_option (os_real os s) scratch_root))) (\<lambda>(v2, src, scr).
     act_bind (act_get (\<lambda>s. (is_dir os s src, is_dir os s v2, \<forall>r \<in> set_option scr. is_dir os s r))) (\<lambda>(src_dir, v2_dir, scr_dir).
     act_bind (act_get (\<lambda>s. require_v2 \<and> os_dev os s src = os_dev os s v2)) (\<lambda>same_dev.
     act_seq (refuse_if (\<not> src_dir) StartupError)
     (act_seq (refuse_if (require_v2 \<and> \<not> v2_dir) StartupError)
     (act_seq (refuse_if (\<exists>ab \<in> {(v2, src)} \<union> (case scr of None \<Rightarrow> {} | Some r \<Rightarrow> {(r, src), (r, v2)}). overlap ab) StartupError)
     (act_seq (refuse_if (\<not> scr_dir) StartupError)
     (let fstype = map_option (mount_fstype (os_mounts os)) scr;
          g = \<lparr>g_v2 = v2, g_source = src, g_scratch = scr\<rparr> in
      act_seq (refuse_if (\<exists>t \<in> set_option fstype. t \<in> set NETWORK_FS \<or> prefix ''nfs'' t) StartupError)
      (act_seq (refuse_if (\<not> os_readonly os src \<and> (\<not> same_dev \<or> \<not> ack)) StartupError)
      (act_seq (act_for [src, posix_join src ''forge-guard-probe''] (probe_refused os g))
      (act_seq (check_path os g (posix_join v2 ''forge-guard-probe'') V2)
      (act_ret (g, \<lparr>sp_v2 = v2, sp_source = src, sp_scratch = scr, sp_same_device = same_dev, sp_source_readonly = os_readonly os src,
        sp_acknowledged = ack, sp_source_writable = os_writable os src, sp_scratch_fstype = fstype\<rparr>)))))))))))))"

subsection \<open>Plan paths\<close>

definition is_v2_relative_safe :: "string \<Rightarrow> bool" where
  "is_v2_relative_safe rel \<longleftrightarrow> rel \<noteq> [] \<and> \<not> prefix ''/'' rel \<and> CHR 0x00 \<notin> set rel \<and>
     (\<forall>part \<in> set (split_on (CHR ''/'') rel). part \<notin> {[], ''.'', ''..''})"

definition join_v2 :: "guard \<Rightarrow> string \<Rightarrow> string fs_act" where
  "join_v2 g rel = (if \<not> is_v2_relative_safe rel then act_raise GuardError else act_ret (posix_join (g_v2 g) rel))"

end
