(* ===== verification/MatGuardProps.thy ===== *)
theory MatGuardProps
  imports MatGuard
begin

text \<open>
  The write guard is the enforcement of the rule that nothing under the source root changes: whatever sequence of
  its operations runs, with whatever arguments and failures, only names strictly under the new tree or the
  scratch directory change, and no inode that existed before is written to.
\<close>

subsection \<open>Paths\<close>

definition canonical :: "string \<Rightarrow> bool" where
  "canonical q \<longleftrightarrow> prefix ''/'' q \<and> (q = ''/'' \<or> \<not> suffix ''/'' q)"

text \<open>What is used of \<open>os.path.realpath\<close>: its result is an absolute path without a trailing slash, and resolving it
  again changes nothing.\<close>

definition realpath_ok :: "os \<Rightarrow> bool" where
  "realpath_ok os \<longleftrightarrow> (\<forall>s p. canonical (os_real os s p) \<and> os_real os s (os_real os s p) = os_real os s p)"

lemma rstrip_slash_id: "\<not> suffix ''/'' q \<Longrightarrow> rstrip_slash q = q"
  by (cases q rule: rev_cases) (auto simp: rstrip_slash_def suffix_def)

lemma rstrip_slash_root [simp]: "rstrip_slash ''/'' = []"
  by (simp add: rstrip_slash_def)

lemma rstrip_slash_split: "\<exists>k. r = rstrip_slash r @ replicate k (CHR ''/'')"
proof (induction r rule: rev_induct)
  case (snoc c r)
  then obtain k where k: "r = rstrip_slash r @ replicate k (CHR ''/'')" by blast
  show ?case
  proof (cases "c = CHR ''/''")
    case True
    then have "rstrip_slash (r @ [c]) = rstrip_slash r" by (simp add: rstrip_slash_def)
    then have "r @ [c] = rstrip_slash (r @ [c]) @ replicate (Suc k) (CHR ''/'')" using k True by (metis append.assoc replicate_Suc replicate_append_same)
    then show ?thesis by blast
  next
    case False
    then have "rstrip_slash (r @ [c]) = r @ [c]" by (simp add: rstrip_slash_def)
    then show ?thesis by (intro exI [of _ 0]) simp
  qed
qed (simp add: rstrip_slash_def)

lemma is_under_iff: "is_under q r \<longleftrightarrow> q \<noteq> r \<and> (\<exists>y. q = rstrip_slash r @ CHR ''/'' # y)"
  by (auto simp: is_under_def rstrip_slash_def prefix_def)

lemma is_under_trans:
  assumes "is_under q b" and "is_under b r" and "\<not> suffix ''/'' b"
  shows "is_under q r"
proof -
  from assms(2) obtain x where x: "b = rstrip_slash r @ CHR ''/'' # x" "b \<noteq> r" by (auto simp: is_under_iff)
  from assms(1) rstrip_slash_id [OF assms(3)] obtain y where y: "q = b @ CHR ''/'' # y" by (auto simp: is_under_iff)
  have "x \<noteq> []" using assms(3) x(1) by (auto simp: suffix_def)
  then have "last x \<noteq> CHR ''/''" using assms(3) x(1) by (cases x rule: rev_cases) (auto simp: suffix_def)
  then have lx: "last x \<in> set x \<and> last x \<noteq> CHR ''/''" using \<open>x \<noteq> []\<close> by simp
  have "q \<noteq> r"
  proof
    assume "q = r"
    obtain k where "r = rstrip_slash r @ replicate k (CHR ''/'')" using rstrip_slash_split by blast
    moreover have "r = rstrip_slash r @ CHR ''/'' # x @ CHR ''/'' # y" using y x(1) \<open>q = r\<close> by simp
    ultimately have e: "CHR ''/'' # x @ CHR ''/'' # y = replicate k (CHR ''/'')" by (metis same_append_eq)
    have "last x \<in> set (CHR ''/'' # x @ CHR ''/'' # y)" using lx by simp
    then show False unfolding e using lx by (simp add: in_set_replicate)
  qed
  with x y show ?thesis by (auto simp: is_under_iff)
qed

lemma dir_base_join:
  assumes "canonical q" and "name \<noteq> []" and "CHR ''/'' \<notin> set name"
  shows "dir_name (posix_join q name) = q" and "base_name (posix_join q name) = name" and "\<not> suffix ''/'' (posix_join q name)"
proof -
  have pn: "\<not> prefix ''/'' name" using assms(2,3) by (cases name) (auto simp: prefix_def)
  have nm: "rev name \<noteq> []" "\<forall>x \<in> set (rev name). x \<noteq> CHR ''/''" using assms(2,3) by auto
  have bn: "base_name (w @ CHR ''/'' # name) = name" for w
    using after_last_append [of "CHR ''/''" w name] after_last_id [OF assms(3)] by (simp add: base_name_def)
  have head: "rev (dropWhile (\<lambda>x. x \<noteq> CHR ''/'') (rev (w @ CHR ''/'' # name))) = w @ ''/''" for w
    using nm(2) dropWhile_append2 [of "rev name" "\<lambda>x. x \<noteq> CHR ''/''" "CHR ''/'' # rev w"] by simp
  have sx: "\<not> suffix ''/'' (w @ name)" for w
    using assms(2,3) by (cases name rule: rev_cases) (auto simp: suffix_def)
  show "dir_name (posix_join q name) = q" "base_name (posix_join q name) = name" "\<not> suffix ''/'' (posix_join q name)"
  proof -
    show "dir_name (posix_join q name) = q"
    proof (cases "q = ''/''")
      case True
      then have "posix_join q name = [] @ CHR ''/'' # name" using pn by (simp add: posix_join_def)
      then show ?thesis using head [of "[]"] True by (simp add: dir_name_def Let_def)
    next
      case False
      with assms(1) have ns: "\<not> suffix ''/'' q" "prefix ''/'' q" by (auto simp: canonical_def)
      then obtain z where "q = CHR ''/'' # z" by (auto simp: prefix_def)
      then have j: "posix_join q name = q @ CHR ''/'' # name" using pn ns by (simp add: posix_join_def)
      have "\<not> list_all (\<lambda>x. x = CHR ''/'') (q @ ''/'')"
      proof
        assume "list_all (\<lambda>x. x = CHR ''/'') (q @ ''/'')"
        then have "\<forall>x \<in> set q. x = CHR ''/''" by (simp add: list_all_iff)
        then have "last q = CHR ''/''" using last_in_set [of q] \<open>q = CHR ''/'' # z\<close> by blast
        then show False using ns(1) \<open>q = CHR ''/'' # z\<close> by (metis append_butlast_last_id list.discI suffix_def)
      qed
      moreover have "rev (dropWhile (\<lambda>x. x = CHR ''/'') (rev (q @ ''/''))) = q"
        using rstrip_slash_id [OF ns(1)] by (simp add: rstrip_slash_def)
      ultimately show ?thesis unfolding j dir_name_def Let_def head by simp
    qed
    show "base_name (posix_join q name) = name"
    proof (cases "q = [] \<or> suffix ''/'' q")
      case True
      with assms(1) have "q = ''/''" by (auto simp: canonical_def prefix_def)
      then show ?thesis using bn [of "[]"] pn by (simp add: posix_join_def)
    next
      case False
      then show ?thesis using bn pn by (simp add: posix_join_def)
    qed
    show "\<not> suffix ''/'' (posix_join q name)"
      using sx [of q] sx [of "q @ ''/''"] pn by (auto simp: posix_join_def)
  qed
qed

lemma base_name_no_slash: "CHR ''/'' \<notin> set (base_name p)"
  unfolding base_name_def by (rule after_last_no)

subsection \<open>Confinement\<close>

definition permitted :: "guard \<Rightarrow> string \<Rightarrow> bool" where
  "permitted g q \<longleftrightarrow> is_under q (g_v2 g) \<or> (\<exists>r \<in> set_option (g_scratch g). is_under q r)"

definition confined :: "guard \<Rightarrow> fs \<Rightarrow> fs \<Rightarrow> bool" where
  "confined g s0 s \<longleftrightarrow> (\<forall>q. fs_names s q \<noteq> fs_names s0 q \<longrightarrow> permitted g q) \<and> (\<forall>i < fs_next s0. fs_data s i = fs_data s0 i) \<and>
     fs_next s0 \<le> fs_next s \<and> (\<forall>i \<in> fs_fds s. fs_next s0 \<le> i)"

text \<open>A path the guard has accepted in a state: permitted, and resolved to itself by the kernel.\<close>

definition fine :: "os \<Rightarrow> guard \<Rightarrow> string \<Rightarrow> fs \<Rightarrow> bool" where
  "fine os g v s \<longleftrightarrow> permitted g v \<and> loc os s v = v \<and> \<not> suffix ''/'' v"

lemma permitted_below: "is_under q b \<Longrightarrow> permitted g b \<Longrightarrow> \<not> suffix ''/'' b \<Longrightarrow> permitted g q"
  unfolding permitted_def using is_under_trans by blast

lemma check_path_run:
  assumes "realpath_ok os" and "check_path os g p a s = (r, t)"
  shows "t = s" and "r = Inr v \<Longrightarrow> fine os g v s"
proof -
  let ?q = "if p \<noteq> ''/'' then rstrip_slash p else p"
  let ?v = "posix_join (os_real os s (dir_name ?q)) (base_name ?q)"
  have can: "canonical (os_real os s (dir_name ?q))" "os_real os s (os_real os s (dir_name ?q)) = os_real os s (dir_name ?q)"
    using assms(1) by (simp_all add: realpath_ok_def)
  have root: "root_of g a s = (Inr rt, t') \<Longrightarrow> t' = s \<and> (is_under ?v rt \<longrightarrow> permitted g ?v)" for rt t'
    by (cases a) (auto simp: root_of_def permitted_def act_run split: option.splits)
  have rs: "snd (root_of g a s) = s" by (cases a) (auto simp: root_of_def act_run split: option.splits)
  have fin: "fine os g ?v s" if "permitted g ?v" "base_name ?q \<noteq> []"
    using that dir_base_join [OF can(1) that(2) base_name_no_slash] can(2) by (simp add: fine_def loc_def)
  show "t = s" using assms(2) rs
    by (auto simp: check_path_def Let_def act_bind_def act_run split: if_splits sum.splits prod.splits)
  show "fine os g v s" if "r = Inr v"
    using assms(2) that root fin
    by (auto simp: check_path_def Let_def act_bind_def act_run split: if_splits sum.splits prod.splits)
qed

lemma check_path_triple:
  assumes "realpath_ok os"
  shows "triple I (check_path os g p a) (\<lambda>v s. I s \<and> fine os g v s) (\<lambda>_. I)"
  unfolding triple_def
proof (intro allI impI)
  fix s assume "I s"
  then show "case check_path os g p a s of (Inl e, t) \<Rightarrow> I t | (Inr v, t) \<Rightarrow> I t \<and> fine os g v t"
    using check_path_run [OF assms] by (cases "check_path os g p a s") (fastforce split: sum.splits)
qed

text \<open>The rule for an operation that checks one path and then calls the kernel.\<close>

lemma keeps_checked:
  assumes "realpath_ok os" and "\<And>v. triple (\<lambda>s. I s \<and> fine os g v s) (k v) (\<lambda>_. I) (\<lambda>_. I)"
  shows "keeps I (act_bind (check_path os g p a) k)"
  unfolding keeps_def by (rule triple_bind [OF check_path_triple [OF assms(1)] assms(2)])

lemma triple_keeps: "triple (\<lambda>s. I s \<and> P s) m (\<lambda>_. I) (\<lambda>_. I) \<Longrightarrow> keeps I n \<Longrightarrow>
    triple (\<lambda>s. I s \<and> P s) (act_seq m n) (\<lambda>_. I) (\<lambda>_. I)"
  unfolding keeps_def by (rule triple_seq)

lemma triple_weak: "keeps I m \<Longrightarrow> triple (\<lambda>s. I s \<and> P s) m (\<lambda>_. I) (\<lambda>_. I)"
  unfolding keeps_def by (erule triple_conseq) auto

lemma sys_triple:
  assumes "\<And>s v t. I s \<Longrightarrow> P s \<Longrightarrow> f s = Inr (v, t) \<Longrightarrow> I t"
  shows "triple (\<lambda>s. I s \<and> P s) (sys os op f) (\<lambda>_. I) (\<lambda>_. I)"
  using assms unfolding triple_def sys_def by (fastforce split: option.splits sum.splits prod.splits)

lemma confined_names:
  assumes "confined g s0 s" and "\<And>q. f q \<noteq> fs_names s q \<Longrightarrow> permitted g q"
  shows "confined g s0 (s\<lparr>fs_names := f\<rparr>)"
  using assms unfolding confined_def by simp metis

lemma new_name_confined:
  assumes "confined g s0 s" and "fine os g v s" and "new_name os s v n = Inr t"
  shows "confined g s0 t"
proof -
  have "t = s\<lparr>fs_names := (fs_names s)(v \<mapsto> n)\<rparr>" using assms(2,3) by (auto simp: new_name_def fine_def split: if_splits)
  moreover have "permitted g v" using assms(2) by (simp add: fine_def)
  moreover have "((fs_names s)(v \<mapsto> n)) q \<noteq> fs_names s q \<Longrightarrow> permitted g q" for q
    using \<open>permitted g v\<close> by (cases "q = v") simp_all
  ultimately show ?thesis using confined_names [OF assms(1), of "(fs_names s)(v \<mapsto> n)"] by metis
qed

lemma count_write_keeps [keeps_rules]: "keeps (confined g s0) count_write"
  unfolding count_write_def by (rule keeps_mod) (simp add: confined_def)

lemma count_unit [keeps_rules]: "keeps (confined g s0) (act_seq count_write (act_ret v))"
  by (intro keeps_rules)

lemma triple_bind_keeps:
  assumes "triple (\<lambda>s. I s \<and> P s) m (\<lambda>_. I) (\<lambda>_. I)" and "\<And>v. keeps I (f v)"
  shows "triple (\<lambda>s. I s \<and> P s) (act_bind m f) (\<lambda>_. I) (\<lambda>_. I)"
  using triple_bind [OF assms(1)] assms(2) unfolding keeps_def by blast

lemma keeps_check [keeps_rules]: "realpath_ok os \<Longrightarrow> keeps I (check_path os g p a)"
  unfolding keeps_def by (rule triple_conseq [OF check_path_triple [where I = I]]) auto

lemma keeps_root [keeps_rules]: "keeps I (root_of g a)"
  by (cases a) (auto simp: root_of_def intro!: keeps_rules)

subsection \<open>System calls on accepted paths\<close>

lemma unit_sys_Inr: "unit_sys r = Inr (v, t) \<longleftrightarrow> r = Inr t"
  by (auto simp: unit_sys_def split: sum.splits)

lemma mkdir_fine: "triple (\<lambda>s. confined g s0 s \<and> fine os g v s) (sys_mkdir os v) (\<lambda>_. confined g s0) (\<lambda>_. confined g s0)"
  unfolding sys_mkdir_def by (rule sys_triple) (auto simp: unit_sys_Inr intro: new_name_confined)

lemma symlink_fine: "triple (\<lambda>s. confined g s0 s \<and> fine os g v s) (sys_symlink os to v) (\<lambda>_. confined g s0) (\<lambda>_. confined g s0)"
  unfolding sys_symlink_def by (rule sys_triple) (auto simp: unit_sys_Inr intro: new_name_confined)

lemma link_fine: "triple (\<lambda>s. confined g s0 s \<and> fine os g v s) (sys_link os src v) (\<lambda>_. confined g s0) (\<lambda>_. confined g s0)"
  unfolding sys_link_def
  by (rule sys_triple) (auto simp: unit_sys_Inr split: option.splits node.splits intro: new_name_confined)

lemma creat_fine: "triple (\<lambda>s. confined g s0 s \<and> fine os g v s) (sys_creat os v) (\<lambda>_. confined g s0) (\<lambda>_. confined g s0)"
  unfolding sys_creat_def
proof (rule sys_triple)
  fix s :: fs and fd :: nat and t :: fs
  assume s: "confined g s0 s" "fine os g v s" and f: "(case new_name os s v (N_File (fs_next s)) of Inl e \<Rightarrow> Inl e
     | Inr t \<Rightarrow> Inr (fs_next s, t\<lparr>fs_data := (fs_data t)(fs_next s := []), fs_next := fs_next s + 1,
         fs_fds := insert (fs_next s) (fs_fds t)\<rparr>)) = Inr (fd, t)"
  then obtain m where m: "new_name os s v (N_File (fs_next s)) = Inr m"
    "t = m\<lparr>fs_data := (fs_data m)(fs_next s := []), fs_next := fs_next s + 1, fs_fds := insert (fs_next s) (fs_fds m)\<rparr>"
    by (auto split: sum.splits)
  have "confined g s0 m" using new_name_confined [OF s m(1)] .
  moreover have "fs_next s0 \<le> fs_next s" using s(1) by (simp add: confined_def)
  ultimately show "confined g s0 t" unfolding m(2) by (auto simp: confined_def)
qed

lemma unlink_fine: "triple (\<lambda>s. confined g s0 s \<and> fine os g v s) (sys_unlink os v) (\<lambda>_. confined g s0) (\<lambda>_. confined g s0)"
  unfolding sys_unlink_def
proof (rule sys_triple)
  fix s :: fs and u :: unit and t :: fs
  assume s: "confined g s0 s" "fine os g v s" and f: "(case lstat os s v of None \<Rightarrow> Inl ENOENT | Some N_Dir \<Rightarrow> Inl EISDIR
   | Some _ \<Rightarrow> Inr ((), s\<lparr>fs_names := (fs_names s)(loc os s v := None)\<rparr>)) = Inr (u, t)"
  then have t: "t = s\<lparr>fs_names := (fs_names s)(v := None)\<rparr>" by (auto simp: fine_def split: option.splits node.splits)
  show "confined g s0 t" unfolding t by (rule confined_names [OF s(1)]) (use s(2) in \<open>auto simp: fine_def split: if_splits\<close>)
qed

lemma rmdir_fine: "triple (\<lambda>s. confined g s0 s \<and> fine os g v s) (sys_rmdir os v) (\<lambda>_. confined g s0) (\<lambda>_. confined g s0)"
  unfolding sys_rmdir_def
proof (rule sys_triple)
  fix s :: fs and u :: unit and t :: fs
  assume s: "confined g s0 s" "fine os g v s" and f: "(case lstat os s v of None \<Rightarrow> Inl ENOENT
   | Some n \<Rightarrow> if n \<noteq> N_Dir then Inl ENOTDIR else if \<not> os_empty os s (loc os s v) then Inl ENOTEMPTY
       else Inr ((), s\<lparr>fs_names := (fs_names s)(loc os s v := None)\<rparr>)) = Inr (u, t)"
  then have t: "t = s\<lparr>fs_names := (fs_names s)(v := None)\<rparr>" by (auto simp: fine_def split: option.splits if_splits)
  show "confined g s0 t" unfolding t by (rule confined_names [OF s(1)]) (use s(2) in \<open>auto simp: fine_def split: if_splits\<close>)
qed

lemma rmtree_fine: "triple (\<lambda>s. confined g s0 s \<and> fine os g v s) (sys_rmtree os v) (\<lambda>_. confined g s0) (\<lambda>_. confined g s0)"
  unfolding sys_rmtree_def
proof (rule triple_mod)
  fix s assume s: "confined g s0 s \<and> fine os g v s"
  have "permitted g q" if "is_under_or_equal q v" for q
    using that s permitted_below [of q v g] by (auto simp: is_under_or_equal_def fine_def)
  then show "confined g s0 (s\<lparr>fs_names := \<lambda>q. if q \<in> os_removed os s \<and> is_under_or_equal q (loc os s v) then None else fs_names s q\<rparr>)"
    using s by (intro confined_names) (auto simp: fine_def split: if_splits)
qed

lemma moved_permitted:
  assumes "permitted g a" and "permitted g b" and "\<not> suffix ''/'' a" and "\<not> suffix ''/'' b" and "moved a b names q \<noteq> names q"
  shows "permitted g q"
proof -
  have "q = b \<or> is_under q b \<or> q = a \<or> is_under q a" using assms(5) by (auto simp: moved_def split: if_splits)
  with assms(1-4) show ?thesis using permitted_below by blast
qed

lemma rename_fine:
  "triple (\<lambda>s. confined g s0 s \<and> fine os g a s \<and> fine os g b s) (sys_rename os a b) (\<lambda>_. confined g s0) (\<lambda>_. confined g s0)"
  unfolding sys_rename_def
proof (rule sys_triple)
  fix s :: fs and u :: unit and t :: fs
  assume s: "confined g s0 s" "fine os g a s \<and> fine os g b s" and f: "unit_sys (rename_to os s a b) = Inr (u, t)"
  then have "t = s \<or> t = s\<lparr>fs_names := moved a b (fs_names s)\<rparr>"
    unfolding unit_sys_Inr rename_to_def Let_def fine_def by (auto split: option.splits if_splits)
  moreover have "confined g s0 (s\<lparr>fs_names := moved a b (fs_names s)\<rparr>)"
    by (rule confined_names [OF s(1)]) (rule moved_permitted, use s(2) in \<open>auto simp: fine_def\<close>)
  ultimately show "confined g s0 t" using s(1) by blast
qed

subsection \<open>The primitives\<close>

lemma keeps_make_dir [keeps_rules]: "realpath_ok os \<Longrightarrow> keeps (confined g s0) (make_dir os g a d)"
  unfolding make_dir_def
proof (rule keeps_checked)
  fix v
  let ?I = "confined g s0" and ?h = "\<lambda>e. if e \<noteq> OSErr EEXIST then act_raise e
     else act_bind (act_get (\<lambda>s. is_dir os s v)) (\<lambda>ok. if ok then act_ret () else act_raise e)"
  have h: "keeps ?I (?h e)" for e by (auto intro!: keeps_rules)
  show "triple (\<lambda>s. ?I s \<and> fine os g v s) (act_catch (act_seq (sys_mkdir os v) count_write) ?h) (\<lambda>_. ?I) (\<lambda>_. ?I)"
    by (rule triple_catch [OF triple_keeps [OF mkdir_fine count_write_keeps]]) (rule h [unfolded keeps_def])
qed

lemma keeps_mkdirs [keeps_rules]: "realpath_ok os \<Longrightarrow> keeps (confined g s0) (mkdirs os g p a)"
  unfolding mkdirs_def by (intro keeps_rules) (auto split: option.splits sum.splits intro!: keeps_rules)

lemma keeps_open_new [keeps_rules]: "realpath_ok os \<Longrightarrow> keeps (confined g s0) (open_new os g p a)"
  unfolding open_new_def by (rule keeps_checked, assumption, rule triple_bind_keeps [OF creat_fine]) (intro keeps_rules)

lemma triple_query: "(\<And>v. triple P (k v) Q E) \<Longrightarrow> triple P (act_bind (act_get f) k) Q E"
  by (auto simp: triple_def act_bind_def act_run)

lemma triple_new_temp_name:
  "realpath_ok os \<Longrightarrow> triple I (new_temp_name os g d pre a i) (\<lambda>v s. I s \<and> fine os g v s) (\<lambda>_. I)"
  unfolding new_temp_name_def
  by (rule triple_query) (rule check_path_triple)

lemma keeps_mkdtemp_from: "realpath_ok os \<Longrightarrow> keeps (confined g s0) (mkdtemp_from os g d pre a is)"
proof (induction "is")
  case (Cons i "is")
  let ?I = "confined g s0"
  show ?case unfolding mkdtemp_from.simps keeps_def
  proof (rule triple_bind [OF triple_new_temp_name [OF Cons.prems]], rule triple_bind_keeps)
    fix v
    show "triple (\<lambda>s. ?I s \<and> fine os g v s) (act_catch (act_seq (sys_mkdir os v) (act_ret True))
        (\<lambda>e. if e = OSErr EEXIST then act_ret False else act_raise e)) (\<lambda>_. ?I) (\<lambda>_. ?I)"
      by (rule triple_catch [OF triple_keeps [OF mkdir_fine keeps_basic(1)]]) (auto simp: triple_def act_run)
    show "keeps ?I (if ok then act_seq count_write (act_ret v) else mkdtemp_from os g d pre a is)" for ok
      using Cons by (auto intro!: keeps_rules)
  qed
qed (simp add: keeps_rules)

lemma keeps_mkdtemp [keeps_rules]: "realpath_ok os \<Longrightarrow> keeps (confined g s0) (mkdtemp os g d pre a)"
  unfolding mkdtemp_def by (rule keeps_mkdtemp_from)

lemma check_link_source_triple: "triple P (check_link_source os g p) (\<lambda>_. P) (\<lambda>_. P)"
  by (auto simp: triple_def check_link_source_def Let_def act_bind_def act_run split: if_splits)

lemma keeps_guard_link [keeps_rules]: "realpath_ok os \<Longrightarrow> keeps (confined g s0) (guard_link os g src dst)"
  unfolding guard_link_def
proof (rule keeps_checked)
  fix v
  let ?I = "confined g s0" and ?P = "\<lambda>s. confined g s0 s \<and> fine os g v s"
  have k: "triple ?P (case st of None \<Rightarrow> act_raise (OSErr ENOENT)
      | Some (N_File i) \<Rightarrow> act_seq (sys_link os source v) (act_seq count_write (act_ret v)) | Some _ \<Rightarrow> act_raise GuardError) (\<lambda>_. ?I) (\<lambda>_. ?I)" for st source
    by (auto split: option.splits node.splits intro!: triple_raise triple_keeps [OF link_fine] keeps_rules)
  show "triple ?P (act_bind (check_link_source os g src) (\<lambda>source. act_bind (act_get (\<lambda>s. lstat os s source)) (\<lambda>st. case st of
       None \<Rightarrow> act_raise (OSErr ENOENT) | Some (N_File i) \<Rightarrow> act_seq (sys_link os source v) (act_seq count_write (act_ret v))
     | Some _ \<Rightarrow> act_raise GuardError))) (\<lambda>_. ?I) (\<lambda>_. ?I)"
  proof (rule triple_bind [where R = "\<lambda>_. ?P"])
    show "triple ?P (check_link_source os g src) (\<lambda>_. ?P) (\<lambda>_. ?I)"
      by (rule triple_conseq [OF check_link_source_triple [where P = ?P]]) blast+
  qed (rule triple_query, rule k)
qed

lemma keeps_symlink [keeps_rules]: "realpath_ok os \<Longrightarrow> keeps (confined g s0) (symlink_in_scratch os g src dst)"
  unfolding symlink_in_scratch_def by (rule keeps_checked, assumption, rule triple_keeps [OF symlink_fine]) (intro keeps_rules)

lemma keeps_guard_rename [keeps_rules]: "realpath_ok os \<Longrightarrow> keeps (confined g s0) (guard_rename os g src dst a)"
  unfolding guard_rename_def
proof (rule keeps_checked)
  fix v assume ok: "realpath_ok os"
  let ?I = "confined g s0"
  show "triple (\<lambda>s. ?I s \<and> fine os g v s) (act_bind (check_path os g dst a) (\<lambda>w. act_seq (sys_rename os v w) (act_seq count_write (act_ret w)))) (\<lambda>_. ?I) (\<lambda>_. ?I)"
  proof (rule triple_bind)
    show "triple (\<lambda>s. ?I s \<and> fine os g v s) (check_path os g dst a) (\<lambda>w s. (?I s \<and> fine os g v s) \<and> fine os g w s) (\<lambda>_. ?I)"
      by (rule triple_conseq [OF check_path_triple [OF ok, where I = "\<lambda>s. ?I s \<and> fine os g v s"]]) auto
    show "triple (\<lambda>s. (?I s \<and> fine os g v s) \<and> fine os g w s) (act_seq (sys_rename os v w) (act_seq count_write (act_ret w))) (\<lambda>_. ?I) (\<lambda>_. ?I)" for w
      unfolding conj_assoc by (rule triple_keeps [OF rename_fine]) (intro keeps_rules)
  qed
qed

lemma keeps_guard_unlink [keeps_rules]: "realpath_ok os \<Longrightarrow> keeps (confined g s0) (guard_unlink os g p a)"
  unfolding guard_unlink_def
proof (rule keeps_checked)
  fix v
  let ?I = "confined g s0" and ?P = "\<lambda>s. confined g s0 s \<and> fine os g v s"
  have k: "triple ?P (case st of None \<Rightarrow> act_raise (OSErr ENOENT) | Some N_Dir \<Rightarrow> act_raise (OSErr EISDIR)
      | Some _ \<Rightarrow> act_seq (sys_unlink os v) count_write) (\<lambda>_. ?I) (\<lambda>_. ?I)" for st
    by (auto split: option.splits node.splits intro!: triple_raise triple_keeps [OF unlink_fine] keeps_rules)
  show "triple ?P (act_bind (act_get (\<lambda>s. lstat os s v)) (\<lambda>st. case st of None \<Rightarrow> act_raise (OSErr ENOENT) | Some N_Dir \<Rightarrow> act_raise (OSErr EISDIR)
      | Some _ \<Rightarrow> act_seq (sys_unlink os v) count_write)) (\<lambda>_. ?I) (\<lambda>_. ?I)"
    by (rule triple_query) (rule k)
qed

lemma keeps_guard_rmdir [keeps_rules]: "realpath_ok os \<Longrightarrow> keeps (confined g s0) (guard_rmdir os g p a)"
  unfolding guard_rmdir_def by (rule keeps_checked) (auto intro!: triple_keeps [OF rmdir_fine] keeps_rules)

lemma keeps_rmtree [keeps_rules]: "realpath_ok os \<Longrightarrow> keeps (confined g s0) (rmtree_scratch os g p)"
  unfolding rmtree_scratch_def by (rule keeps_checked) (auto intro!: triple_keeps [OF rmtree_fine] keeps_rules)

lemma keeps_write [keeps_rules]: "keeps (confined g s0) (sys_write fd data)"
  by (auto simp: keeps_iff sys_write_def confined_def)

lemma keeps_close [keeps_rules]: "keeps (confined g s0) (sys_close fd)"
  unfolding sys_close_def by (rule keeps_mod) (auto simp: confined_def)

subsection \<open>Programs over the guard\<close>

datatype guard_op = Op_Mkdirs string area | Op_Open string area | Op_Write nat string | Op_Close nat | Op_Mkdtemp string string area |
  Op_Link string string | Op_Symlink string string | Op_Rename string string area | Op_Unlink string area | Op_Rmdir string area |
  Op_Rmtree string

definition drop_result :: "'a fs_act \<Rightarrow> unit fs_act" where
  "drop_result m = act_bind m (\<lambda>_. act_ret ())"

definition guard_run :: "os \<Rightarrow> guard \<Rightarrow> guard_op \<Rightarrow> unit fs_act" where
  "guard_run os g op = (case op of
     Op_Mkdirs p a \<Rightarrow> drop_result (mkdirs os g p a)
   | Op_Open p a \<Rightarrow> drop_result (open_new os g p a)
   | Op_Write fd data \<Rightarrow> sys_write fd data
   | Op_Close fd \<Rightarrow> sys_close fd
   | Op_Mkdtemp d pre a \<Rightarrow> drop_result (mkdtemp os g d pre a)
   | Op_Link src dst \<Rightarrow> drop_result (guard_link os g src dst)
   | Op_Symlink src dst \<Rightarrow> drop_result (symlink_in_scratch os g src dst)
   | Op_Rename src dst a \<Rightarrow> drop_result (guard_rename os g src dst a)
   | Op_Unlink p a \<Rightarrow> guard_unlink os g p a
   | Op_Rmdir p a \<Rightarrow> guard_rmdir os g p a
   | Op_Rmtree p \<Rightarrow> rmtree_scratch os g p)"

text \<open>A caller may catch what an operation raises and go on.\<close>

definition guard_program :: "os \<Rightarrow> guard \<Rightarrow> guard_op list \<Rightarrow> fs \<Rightarrow> fs" where
  "guard_program os g ops s = fold (\<lambda>op s. snd (guard_run os g op s)) ops s"

lemma keeps_drop [keeps_rules]: "keeps I m \<Longrightarrow> keeps I (drop_result m)"
  unfolding drop_result_def by (intro keeps_rules)

lemma keeps_run: "realpath_ok os \<Longrightarrow> keeps (confined g s0) (guard_run os g op)"
  by (cases op) (auto simp: guard_run_def intro!: keeps_rules)

lemma program_confined: "realpath_ok os \<Longrightarrow> confined g s0 s \<Longrightarrow> confined g s0 (guard_program os g ops s)"
proof (induction ops arbitrary: s)
  case (Cons op ops)
  have "confined g s0 (snd (guard_run os g op s))" using keeps_run [OF Cons.prems(1)] Cons.prems(2) by (simp add: keeps_iff)
  then show ?case using Cons.IH [OF Cons.prems(1)] by (simp add: guard_program_def)
qed (simp add: guard_program_def)

subsection \<open>Start-up\<close>

lemma under_both:
  assumes "canonical a" and "canonical b" and "is_under_or_equal q a" and "is_under_or_equal q b"
  shows "overlap (a, b)"
proof -
  have *: "is_under_or_equal b a" if c: "canonical a" "canonical b" "is_under_or_equal q a" "is_under q b" "length a \<le> length b" for a b
  proof (cases "q = a")
    case True
    with c(4,5) have "length q \<le> length b" by simp
    moreover from c(4) obtain y where y: "q = rstrip_slash b @ CHR ''/'' # y" "q \<noteq> b" by (auto simp: is_under_iff)
    ultimately show ?thesis
    proof (cases "b = ''/''")
      case True
      then show ?thesis using \<open>length q \<le> length b\<close> y by (cases y) simp_all
    next
      case False
      then have "rstrip_slash b = b" using c(2) rstrip_slash_id by (auto simp: canonical_def)
      then show ?thesis using \<open>length q \<le> length b\<close> y by simp
    qed
  next
    case False
    with c(3) obtain x where x: "q = rstrip_slash a @ CHR ''/'' # x" by (auto simp: is_under_or_equal_def is_under_iff)
    from c(4) obtain y where y: "q = rstrip_slash b @ CHR ''/'' # y" by (auto simp: is_under_iff)
    show ?thesis
    proof (cases "a = ''/'' \<or> b = ''/''")
      case True
      then have "a = ''/''" using c(1,5) by (auto simp: canonical_def prefix_def)
      moreover from c(2) obtain z where "b = CHR ''/'' # z" by (auto simp: canonical_def prefix_def)
      ultimately show ?thesis by (auto simp: is_under_or_equal_def is_under_iff)
    next
      case False
      then have r: "rstrip_slash a = a" "rstrip_slash b = b" using c(1,2) rstrip_slash_id by (auto simp: canonical_def)
      from x y r have "a @ CHR ''/'' # x = b @ CHR ''/'' # y" by simp
      then obtain z where "a @ z = b \<and> CHR ''/'' # x = z @ CHR ''/'' # y" using c(5) by (auto simp: append_eq_append_conv2)
      then have "a = b \<or> (\<exists>w. b = a @ CHR ''/'' # w)" by (cases z) auto
      then show ?thesis using r by (auto simp: is_under_or_equal_def is_under_iff)
    qed
  qed
  show ?thesis
  proof (cases "q = a \<or> q = b")
    case True
    then show ?thesis using assms(3,4) by (auto simp: overlap_def)
  next
    case False
    then have "is_under q a" "is_under q b" using assms(3,4) by (auto simp: is_under_or_equal_def)
    then show ?thesis using * [of a b] * [of b a] assms by (cases "length a \<le> length b") (auto simp: overlap_def)
  qed
qed

lemma refuse_if_run: "refuse_if b e s = (Inr w, t) \<longleftrightarrow> \<not> b \<and> t = s"
  by (auto simp: refuse_if_def act_run)

lemma keeps_refuse [keeps_rules]: "keeps I (refuse_if b e)"
  by (simp add: refuse_if_def keeps_rules)

lemma keeps_probe [keeps_rules]: "realpath_ok os \<Longrightarrow> keeps I (probe_refused os g p)"
  unfolding probe_refused_def by (intro keeps_rules)

lemma keeps_open_guard: "realpath_ok os \<Longrightarrow> keeps I (open_guard os v2 src scr ack req)"
  unfolding open_guard_def Let_def by (intro keeps_rules)

lemma open_guard_sound:
  assumes "realpath_ok os" and "open_guard os v2 src scr ack req s = (Inr (g, rep), t)"
  shows "t = s" and "canonical (g_v2 g)" and "canonical (g_source g)" and "\<forall>r \<in> set_option (g_scratch g). canonical r"
    and "\<not> overlap (g_v2 g, g_source g)" and "\<forall>r \<in> set_option (g_scratch g). \<not> overlap (r, g_source g)"
proof -
  show "t = s" using keepsD [OF keeps_open_guard [OF assms(1), where I = "\<lambda>x. x = s"] refl assms(2)] .
  let ?scr = "map_option (os_real os s) scr"
  let ?no = "\<forall>ab \<in> {(os_real os s v2, os_real os s src)} \<union> (case ?scr of None \<Rightarrow> {} | Some r \<Rightarrow> {(r, os_real os s src), (r, os_real os s v2)}). \<not> overlap ab"
  have "g = \<lparr>g_v2 = os_real os s v2, g_source = os_real os s src, g_scratch = ?scr\<rparr> \<and> ?no"
    using assms(2) unfolding open_guard_def Let_def act_seq_Inr act_bind_get_Inr refuse_if_run prod.case act_run by auto
  then have g: "g = \<lparr>g_v2 = os_real os s v2, g_source = os_real os s src, g_scratch = ?scr\<rparr>" ?no by blast+
  have can: "canonical (os_real os s p)" for p using assms(1) by (simp add: realpath_ok_def)
  show "canonical (g_v2 g)" "canonical (g_source g)" "\<forall>r \<in> set_option (g_scratch g). canonical r" by (auto simp: g(1) can)
  show "\<not> overlap (g_v2 g, g_source g)" "\<forall>r \<in> set_option (g_scratch g). \<not> overlap (r, g_source g)" using g(2) by (auto simp: g(1))
qed

text \<open>
  C33. Nothing under the source root ever changes: start the guard on any roots it accepts and run any sequence of its
  operations with any arguments. Only names strictly under the new tree or the scratch directory can differ
  afterwards, every name at or under the source root denotes what it did, and no inode that existed before,
  hardlinked or not, has other bytes.
\<close>

theorem guard_protects_source:
  assumes "realpath_ok os" and "open_guard os v2 src scr ack req s0 = (Inr (g, rep), s1)" and "fs_fds s0 = {}"
  shows "let s = guard_program os g ops s1 in
    (\<forall>q. is_under_or_equal q (g_source g) \<longrightarrow> fs_names s q = fs_names s0 q) \<and>
    (\<forall>q. fs_names s q \<noteq> fs_names s0 q \<longrightarrow> is_under q (g_v2 g) \<or> (\<exists>r \<in> set_option (g_scratch g). is_under q r)) \<and>
    (\<forall>i < fs_next s0. fs_data s i = fs_data s0 i)"
proof -
  note g = open_guard_sound [OF assms(1,2)]
  have "confined g s0 s0" using assms(3) by (simp add: confined_def)
  then have c: "confined g s0 (guard_program os g ops s1)" using program_confined [OF assms(1)] g(1) by blast
  have "\<not> permitted g q" if "is_under_or_equal q (g_source g)" for q
    using under_both [OF _ g(3) _ that] g(2,4,5,6) unfolding permitted_def is_under_or_equal_def by blast
  with c show ?thesis unfolding Let_def confined_def permitted_def by blast
qed

definition demo_os :: os where
  "demo_os = \<lparr>os_real = \<lambda>s p. if p \<in> {''/v2'', ''/src''} then p else ''/'', os_fail = \<lambda>_ _. None, os_removed = \<lambda>_. {}, os_empty = \<lambda>_ _. True, os_list = \<lambda>_ _. Inr [],
     os_token = \<lambda>_ i. nat_str i, os_dev = \<lambda>_ _. 0, os_readonly = \<lambda>_. False, os_writable = \<lambda>_. False, os_mounts = None\<rparr>"

definition demo_fs :: fs where
  "demo_fs = \<lparr>fs_names = [''/'' \<mapsto> N_Dir, ''/v2'' \<mapsto> N_Dir, ''/src'' \<mapsto> N_Dir, ''/src/a.stl'' \<mapsto> N_File 0],
     fs_data = \<lambda>_. ''solid'', fs_next = 1, fs_fds = {}, fs_writes = 0\<rparr>"

lemma demo_real: "realpath_ok demo_os"
  by (auto simp: realpath_ok_def canonical_def demo_os_def prefix_def suffix_def)

lemma demo_start: "fst (open_guard demo_os ''/v2'' ''/src'' None True True demo_fs) =
    Inr (\<lparr>g_v2 = ''/v2'', g_source = ''/src'', g_scratch = None\<rparr>, \<lparr>sp_v2 = ''/v2'', sp_source = ''/src'', sp_scratch = None,
      sp_same_device = True, sp_source_readonly = False, sp_acknowledged = True, sp_source_writable = False, sp_scratch_fstype = None\<rparr>)"
  by code_simp

theorem guard_protects_source_witness:
  "let s = guard_program demo_os \<lparr>g_v2 = ''/v2'', g_source = ''/src'', g_scratch = None\<rparr>
      [Op_Link ''/src/a.stl'' ''/v2/a.stl'', Op_Unlink ''/src/a.stl'' V2] demo_fs in
    fs_names s ''/v2/a.stl'' = Some (N_File 0) \<and> fs_names s ''/src/a.stl'' = Some (N_File 0) \<and> fs_data s 0 = ''solid''"
proof -
  let ?g = "\<lparr>g_v2 = ''/v2'', g_source = ''/src'', g_scratch = None\<rparr>" and ?ops = "[Op_Link ''/src/a.stl'' ''/v2/a.stl'', Op_Unlink ''/src/a.stl'' V2]"
  obtain rep s1 where o: "open_guard demo_os ''/v2'' ''/src'' None True True demo_fs = (Inr (?g, rep), s1)"
    using demo_start by (cases "open_guard demo_os ''/v2'' ''/src'' None True True demo_fs") auto
  have s1: "s1 = demo_fs" using open_guard_sound(1) [OF demo_real o] .
  have "fs_names (guard_program demo_os ?g ?ops demo_fs) ''/v2/a.stl'' = Some (N_File 0)" by code_simp
  moreover have "is_under_or_equal ''/src/a.stl'' ''/src''" by code_simp
  ultimately show ?thesis
    using guard_protects_source [OF demo_real o, of ?ops] unfolding s1 Let_def by (auto simp: demo_fs_def)
qed

end
