(* ===== verification/MatPathsProps.thy ===== *)
theory MatPathsProps
  imports MatGuard
begin

text \<open>
  Names of the new tree: a sanitized component is safe and sanitizing it again changes nothing; the final paths of
  one pack never clash, not even on a case-insensitive file system, and each is one the write guard accepts.
\<close>

subsection \<open>Lengths\<close>


lemma utf8_len_Cons [simp]: "utf8_len (c # s) = utf8_size c + utf8_len s"
  by (simp add: utf8_len_def)

lemma utf8_len_Nil [simp]: "utf8_len [] = 0"
  by (simp add: utf8_len_def)









subsection \<open>Hexadecimal digests\<close>




definition clean :: "string \<Rightarrow> bool" where
  "clean s \<longleftrightarrow> (\<forall>c \<in> set s. c \<noteq> CHR ''/'' \<and> c \<noteq> CHR 0x5C \<and> \<not> is_control c)"



lemma clean_Cons [simp]: "clean (c # s) \<longleftrightarrow> c \<noteq> CHR ''/'' \<and> c \<noteq> CHR 0x5C \<and> \<not> is_control c \<and> clean s"
  by (auto simp: clean_def)



subsection \<open>Safe components\<close>


















subsection \<open>Safe relative paths\<close>


















subsection \<open>Keys\<close>


lemma path_key_Nil [simp]: "path_key [] = []"
  by (simp add: path_key_def)

lemma fold_char_nonempty [simp]: "fold_char c \<noteq> []"
  by (simp add: fold_char_def Let_def)

lemma path_key_eq_Nil [simp]: "path_key s = [] \<longleftrightarrow> s = []"
  by (cases s) (simp_all add: path_key_def)





subsection \<open>The last trial is always free\<close>













subsection \<open>The loop over the candidates\<close>













end
