(* ===== verification/MatPlan.thy ===== *)
theory MatPlan
  imports PackWrite MatPaths
begin

text \<open>
  \<^verbatim>\<open>materialize/plan.py\<close>: which files a pack gets and where, which source each blob is taken from, and the work
  units. The catalog is \<open>cat\<close>; the queries are list functions over its tables, and where a query leaves the order of
  rows open it is the parameter \<open>arrange\<close>. \<open>cwd\<close> is the working directory \<open>posixpath.relpath\<close> consults.
\<close>

subsection \<open>Rows\<close>

definition KINDS :: "kind list" where
  "KINDS = [Mesh, Image, Doc]"

definition LOOSE_UNIT_MAX_BLOBS :: nat where
  "LOOSE_UNIT_MAX_BLOBS = 2000"

definition role_priority :: "role \<Rightarrow> int" where
  "role_priority r = (case r of Primary \<Rightarrow> 0 | Source \<Rightarrow> 1 | Absorbed \<Rightarrow> 2)"

record plan_pack =
  pp_id :: int
  pp_name :: "string option"
  pp_category :: "string option"
  pp_creator :: "string option"
  pp_source_tag :: "string option"
  pp_tags :: "string list"
  pp_tagged :: bool
  pp_status :: pack_status
  pp_needs_review :: bool

record unit_row =
  ur_id :: int
  ur_key :: string
  ur_path :: string
  ur_loose :: bool
  ur_present :: bool
  ur_pack :: "(int \<times> role) option"
  ur_files :: "nat list"

record mat_db =
  md_cat :: cat
  md_packs :: "plan_pack list"
  md_containers :: "(int \<times> nat \<times> role) list"
  md_units :: "unit_row list"

record scope_row =
  or_pack :: int
  or_role :: role
  or_sha :: string
  or_size :: int
  or_kind :: kind
  or_container :: nat
  or_chain :: "string list"
  or_path :: string
  or_depth :: int
  or_root :: nat

record root_info =
  ri_kind :: ct_kind
  ri_status :: ct_status
  ri_bytes :: int
  ri_first :: "string option"

record planned_file =
  pf_rel :: string
  pf_sha :: string
  pf_size :: int
  pf_kind :: kind
  pf_container :: nat
  pf_anchor :: string
  pf_chain :: "string list"

subsection \<open>The queries\<close>

text \<open>\<open>_ROOTS\<close>: the top-level container above a container. A child has a larger id than its parent, so the number
  of ids bounds the way up.\<close>

fun root_up :: "nat \<Rightarrow> cat \<Rightarrow> nat \<Rightarrow> nat option" where
  "root_up 0 d i = None"
| "root_up (Suc n) d i = (case rows d i of None \<Rightarrow> None
     | Some r \<Rightarrow> (case ct_parent r of None \<Rightarrow> Some i | Some p \<Rightarrow> root_up n d p))"

definition root_of_row :: "cat \<Rightarrow> nat \<Rightarrow> nat option" where
  "root_of_row d i = root_up (next_row d) d i"

fun subtree_levels :: "nat \<Rightarrow> cat \<Rightarrow> nat list \<Rightarrow> nat list" where
  "subtree_levels 0 d front = []"
| "subtree_levels (Suc n) d front =
     (let kids = rows_where (\<lambda>r. \<exists>p \<in> set front. ct_parent r = Some p) d in
      if kids = [] then [] else kids @ subtree_levels n d kids)"

definition scope_row_of :: "cat \<Rightarrow> int \<Rightarrow> role \<Rightarrow> occ \<Rightarrow> scope_row list" where
  "scope_row_of d p role x = (case (map_of (blobs d) (oc_blob x), root_of_row d (oc_container x)) of
     (Some b, Some rt) \<Rightarrow> if bl_kind b \<in> set KINDS then
       [\<lparr>or_pack = p, or_role = role, or_sha = oc_blob x, or_size = bl_size b, or_kind = bl_kind b, or_container = oc_container x,
         or_chain = oc_chain x, or_path = oc_path x, or_depth = oc_depth x, or_root = rt\<rparr>] else []
   | _ \<Rightarrow> [])"

definition container_scope :: "mat_db \<Rightarrow> int list \<Rightarrow> scope_row list" where
  "container_scope m packs = (let d = md_cat m;
     s = remdups (concat (map (\<lambda>(p, c, role). map (\<lambda>i. (p, role, i)) (c # subtree_levels (next_row d) d [c]))
       (filter (\<lambda>(p, _, _). p \<in> set packs) (md_containers m)))) in
     concat (map (\<lambda>(p, role, i). concat (map (scope_row_of d p role) (filter (\<lambda>x. oc_container x = i) (occs d)))) s))"

definition loose_row :: "cat \<Rightarrow> nat \<Rightarrow> bool" where
  "loose_row d i \<longleftrightarrow> (case rows d i of None \<Rightarrow> False | Some r \<Rightarrow> ct_kind r = Ct_Loose)"

definition unit_scope :: "mat_db \<Rightarrow> int list \<Rightarrow> scope_row list" where
  "unit_scope m packs = (let d = md_cat m in
     concat (map (\<lambda>u. case ur_pack u of
       None \<Rightarrow> []
     | Some (p, role) \<Rightarrow> if p \<in> set packs \<and> ur_loose u \<and> ur_present u then
         concat (map (\<lambda>sid. case sfiles d sid of None \<Rightarrow> [] | Some sf \<Rightarrow>
           concat (map (scope_row_of d p role) (filter (\<lambda>x. oc_chain x = [sf_path sf] \<and> loose_row d (oc_container x) \<and>
             (\<forall>(q, c, _) \<in> set (md_containers m). \<not> (q = p \<and> c = oc_container x))) (occs d)))) (ur_files u))
         else []) (md_units m)))"

definition root_infos :: "cat \<Rightarrow> (nat, root_info) dict" where
  "root_infos d = map (\<lambda>i. case the (rows d i) of r \<Rightarrow>
     (i, \<lparr>ri_kind = ct_kind r, ri_status = ct_status r, ri_bytes = (case ct_source_bytes r of None \<Rightarrow> 0 | Some b \<Rightarrow> b),
       ri_first = (case filter (\<lambda>(c, _, n). c = i \<and> n = 1) (cfiles d) of [] \<Rightarrow> None | (_, s, _) # _ \<Rightarrow> map_option sf_path (sfiles d s))\<rparr>))
     (rows_where (\<lambda>r. ct_parent r = None) d)"

subsection \<open>Path arithmetic\<close>

definition real_parts :: "string \<Rightarrow> string list" where
  "real_parts p = filter (\<lambda>c. c \<noteq> [] \<and> c \<noteq> ''.'') (split_on (CHR ''/'') p)"

fun common_prefix :: "string list \<Rightarrow> string list \<Rightarrow> string list" where
  "common_prefix (x # xs) (y # ys) = (if x = y then x # common_prefix xs ys else [])"
| "common_prefix _ _ = []"

text \<open>\<open>posixpath.commonpath\<close>, \<open>None\<close> where it raises \<open>ValueError\<close>.\<close>

definition commonpath :: "string list \<Rightarrow> string option" where
  "commonpath ps =
     (if ps = [] \<or> (\<exists>p \<in> set ps. \<exists>q \<in> set ps. prefix ''/'' p \<and> \<not> prefix ''/'' q) then None
      else let parts = map real_parts ps; lo = Min (set parts); hi = Max (set parts) in
        Some ((if prefix ''/'' (hd ps) then ''/'' else []) @ join_on (CHR ''/'') (common_prefix lo hi)))"

definition abs_step :: "string \<Rightarrow> string list \<Rightarrow> string list" where
  "abs_step c st = (if c = [] \<or> c = ''.'' then st else if c = ''..'' then butlast st else st @ [c])"

definition abs_parts :: "string list \<Rightarrow> string \<Rightarrow> string list" where
  "abs_parts cwd p = fold abs_step (split_on (CHR ''/'') p) (if prefix ''/'' p then [] else cwd)"

definition relpath :: "string list \<Rightarrow> string \<Rightarrow> string \<Rightarrow> string py" where
  "relpath cwd path start =
     (if path = [] then py_raise ValueError
      else let s = abs_parts cwd start; p = abs_parts cwd path; i = length (common_prefix s p);
               rel = replicate (length s - i) ''..'' @ drop i p in
        py_ret (if rel = [] then ''.'' else join_on (CHR ''/'') rel))"

subsection \<open>One pack\<close>

definition occ_rank :: "scope_row \<Rightarrow> int \<times> int \<times> string \<times> nat" where
  "occ_rank r = (role_priority (or_role r), or_depth r, or_path r, or_container r)"

definition choose_step :: "scope_row \<Rightarrow> scope_row option \<Rightarrow> scope_row option" where
  "choose_step r best = (if is_junk (chain_components (or_chain r)) then best
     else (case best of None \<Rightarrow> Some r | Some b \<Rightarrow> if occ_rank r < occ_rank b then Some r else best))"

definition choose_occurrence :: "scope_row list \<Rightarrow> scope_row option" where
  "choose_occurrence rs = fold choose_step rs None"

definition by_sha :: "scope_row list \<Rightarrow> (string, scope_row list) dict" where
  "by_sha rs = fold (\<lambda>r. dict_push (or_sha r) r) rs []"

definition chosen_rows :: "scope_row list \<Rightarrow> scope_row list" where
  "chosen_rows rs = concat (map (\<lambda>sha. case choose_occurrence (dict_get (by_sha rs) sha []) of None \<Rightarrow> [] | Some r \<Rightarrow> [r])
     (sort (dict_keys (by_sha rs))))"

definition junk_count :: "scope_row list \<Rightarrow> int" where
  "junk_count rs = int (length (filter (\<lambda>sha. choose_occurrence (dict_get (by_sha rs) sha []) = None) (dict_keys (by_sha rs))))"

definition anchor :: "(nat, root_info) dict \<Rightarrow> scope_row \<Rightarrow> string py" where
  "anchor roots r = py_bind (dict_index roots (or_root r)) (\<lambda>ri.
     if ri_kind ri = Ct_Loose then (case or_chain r of [] \<Rightarrow> py_raise IndexError | c # _ \<Rightarrow> py_ret c)
     else py_ret (case ri_first ri of Some p \<Rightarrow> if p \<noteq> [] then p else ''container-'' @ nat_str (or_root r)
       | None \<Rightarrow> ''container-'' @ nat_str (or_root r)))"

fun py_map :: "('x \<Rightarrow> 'y py) \<Rightarrow> 'x list \<Rightarrow> 'y list py" where
  "py_map f [] = py_ret []"
| "py_map f (x # xs) = py_bind (f x) (\<lambda>y. py_bind (py_map f xs) (\<lambda>ys. py_ret (y # ys)))"

definition base_dir :: "string list \<Rightarrow> string" where
  "base_dir anchors = (let dirs = map dir_name anchors in
     if list_all (\<lambda>d. d \<noteq> []) dirs then (case commonpath dirs of None \<Rightarrow> [] | Some b \<Rightarrow> b) else [])"

definition or_dot :: "string \<Rightarrow> string" where
  "or_dot p = (if p \<noteq> [] then p else ''.'')"

definition archive_roots :: "(nat, root_info) dict \<Rightarrow> scope_row list \<Rightarrow> nat set" where
  "archive_roots roots rs = {i \<in> set (map or_root rs). (case map_of roots i of None \<Rightarrow> False | Some ri \<Rightarrow> ri_kind ri \<noteq> Ct_Loose)}"

definition row_components :: "string list \<Rightarrow> (nat, root_info) dict \<Rightarrow> bool \<Rightarrow> string \<Rightarrow> scope_row \<times> string \<Rightarrow> string list py" where
  "row_components cwd roots multi base ra = (case ra of (r, a) \<Rightarrow>
     py_bind (dict_index roots (or_root r)) (\<lambda>ri.
     if ri_kind ri = Ct_Loose then
       py_bind (relpath cwd a (or_dot base)) (\<lambda>rel. py_ret (split_on (CHR ''/'') rel))
     else py_bind (relpath cwd (or_dot (dir_name a)) (or_dot base)) (\<lambda>rel.
       py_ret (real_parts rel @ (if multi then [strip_archive_suffix (base_name a)] else []) @ chain_components (or_chain r)))))"

datatype layout = Tree | Flat

type_synonym ranked = "(int \<times> int \<times> string \<times> string) \<times> candidate \<times> scope_row \<times> string"

definition rank_row :: "(string \<Rightarrow> string) \<Rightarrow> string list \<Rightarrow> (nat, root_info) dict \<Rightarrow> layout \<Rightarrow> bool \<Rightarrow> string \<Rightarrow> scope_row \<times> string \<Rightarrow> ranked py" where
  "rank_row digest cwd roots lay multi base ra = py_bind (row_components cwd roots multi base ra) (\<lambda>comps.
     let comps = (if lay = Flat then drop (length comps - 1) comps else comps);
         rel = join_on (CHR ''/'') (sanitize_components digest comps); r = fst ra in
     py_ret ((role_priority (or_role r), or_depth r, rel, or_sha r), \<lparr>cd_rel = rel, cd_sha = or_sha r\<rparr>, r, snd ra))"

definition layout_cands :: "(string \<Rightarrow> string) \<Rightarrow> string list \<Rightarrow> (nat, root_info) dict \<Rightarrow> layout \<Rightarrow> scope_row list \<Rightarrow> ranked list py" where
  "layout_cands digest cwd roots lay rs =
     (let chosen = chosen_rows rs in
      py_bind (py_map (anchor roots) chosen) (\<lambda>anchors.
      let base = base_dir anchors; multi = 1 < card (archive_roots roots chosen) in
      py_bind (py_map (rank_row digest cwd roots lay multi base) (zip chosen anchors)) (\<lambda>cands. py_ret (sort_key fst cands))))"

definition final_file :: "(string, string) dict \<Rightarrow> ranked \<Rightarrow> planned_file py" where
  "final_file final x = (case x of (_, c, r, a) \<Rightarrow> py_bind (dict_index final (cd_sha c)) (\<lambda>rel.
     py_ret \<lparr>pf_rel = rel, pf_sha = cd_sha c, pf_size = or_size r, pf_kind = or_kind r, pf_container = or_container r,
       pf_anchor = a, pf_chain = or_chain r\<rparr>))"

definition layout_pack :: "(string \<Rightarrow> string) \<Rightarrow> string list \<Rightarrow> (nat, root_info) dict \<Rightarrow> layout \<Rightarrow> string \<Rightarrow> scope_row list \<Rightarrow>
    (planned_file list \<times> int) py" where
  "layout_pack digest cwd roots lay pack_dir rs =
     (if chosen_rows rs = [] then py_ret ([], junk_count rs)
      else py_bind (layout_cands digest cwd roots lay rs) (\<lambda>cands.
        py_bind (resolve_collisions digest (map (\<lambda>(_, c, _). c) cands) pack_dir) (\<lambda>final.
        py_bind (py_map (final_file final) cands) (\<lambda>files. py_ret (sort_key pf_rel files, junk_count rs)))))"

subsection \<open>All packs\<close>

record plan_options =
  po_layout :: layout
  po_provisional :: bool
  po_packs :: "int list option"
  po_free :: "int option"
  po_force :: bool

record container_meta =
  cm_container :: nat
  cm_role :: role
  cm_kind :: ct_kind
  cm_paths :: "string list"

text \<open>\<open>meta\<close> is made of the pack's row with \<open>pl_containers\<close> and \<open>pl_units\<close>.\<close>

record planned_pack =
  pl_id :: int
  pl_category :: string
  pl_name :: "string option"
  pl_dir :: string
  pl_files :: "planned_file list"
  pl_containers :: "container_meta list"
  pl_units :: "(int \<times> string \<times> string \<times> role) list"
  pl_row :: plan_pack

definition selected_packs :: "plan_options \<Rightarrow> mat_db \<Rightarrow> plan_pack list" where
  "selected_packs opts m = sort_key pp_id (filter (\<lambda>p. (pp_status p \<in> {Resolved, Materialized} \<or> po_provisional opts \<and> pp_status p = Provisional) \<and>
     (case po_packs opts of None \<Rightarrow> True | Some ids \<Rightarrow> pp_id p \<in> set ids)) (md_packs m))"

definition tagged_dir :: "string \<Rightarrow> int \<Rightarrow> string" where
  "tagged_dir folder pid = folder @ '' ['' @ nat_str (nat pid) @ '']''"

definition worst_dir :: "(string \<Rightarrow> string) \<Rightarrow> plan_pack \<Rightarrow> string" where
  "worst_dir digest p = tagged_dir (category_dir (pp_category p) @ ''/'' @ pack_folder_name digest (pp_name p) (nat (pp_id p))) (pp_id p)"

text \<open>The rows come \<open>ORDER BY pack_id\<close> and are laid out pack by pack.\<close>

definition lay_out :: "(string \<Rightarrow> string) \<Rightarrow> string list \<Rightarrow> (nat, root_info) dict \<Rightarrow> layout \<Rightarrow> plan_pack list \<Rightarrow> scope_row list \<Rightarrow> int \<Rightarrow>
    (int, planned_file list) dict \<times> int \<Rightarrow> ((int, planned_file list) dict \<times> int) py" where
  "lay_out digest cwd roots lay packs rs pid acc = (case acc of (files, junk) \<Rightarrow>
     py_bind (dict_index (by_id pp_id packs) pid) (\<lambda>p.
     py_bind (layout_pack digest cwd roots lay (worst_dir digest p) (filter (\<lambda>r. or_pack r = pid) rs)) (\<lambda>(fs, n).
     py_ret (AList.update pid fs files, junk + n))))"

definition container_metas :: "mat_db \<Rightarrow> int \<Rightarrow> planned_file list \<Rightarrow> container_meta list" where
  "container_metas m pid files = (let d = md_cat m in
     map (\<lambda>(_, cid, role). case the (rows d cid) of r \<Rightarrow>
       \<lparr>cm_container = cid, cm_role = role, cm_kind = ct_kind r,
        cm_paths = (if ct_kind r = Ct_Loose
          then sorted_list_of_set (set (map pf_anchor (filter (\<lambda>f. pf_chain f \<noteq> [] \<and> hd (pf_chain f) = pf_anchor f \<and> pf_container f = cid) files)))
          else map (\<lambda>s. case sfiles d s of None \<Rightarrow> [] | Some sf \<Rightarrow> sf_path sf) (files_of d cid))\<rparr>)
       (sort_key (\<lambda>(_, cid, _). cid) (filter (\<lambda>(p, cid, _). p = pid \<and> rows d cid \<noteq> None) (md_containers m))))"

definition unit_metas :: "mat_db \<Rightarrow> int \<Rightarrow> (int \<times> string \<times> string \<times> role) list" where
  "unit_metas m pid = concat (map (\<lambda>u. case ur_pack u of Some (p, role) \<Rightarrow>
       if p = pid \<and> ur_loose u \<and> ur_present u \<and> ur_files u \<noteq> [] then [(ur_id u, ur_key u, ur_path u, role)] else []
     | None \<Rightarrow> []) (sort_key ur_id (md_units m)))"

record plan_state =
  st_planned :: "planned_pack list"
  st_taken :: "string set"
  st_empty :: int
  st_uncategorized :: int

definition choose_dir :: "(string \<Rightarrow> string) \<Rightarrow> plan_pack \<Rightarrow> string set \<Rightarrow> string" where
  "choose_dir digest p taken =
     (let cat = category_dir (pp_category p); folder = pack_folder_name digest (pp_name p) (nat (pp_id p)); pdir = cat @ ''/'' @ folder in
      if path_key pdir \<in> taken then cat @ ''/'' @ sanitize_component digest (tagged_dir folder (pp_id p)) else pdir)"

definition pack_step :: "(string \<Rightarrow> string) \<Rightarrow> mat_db \<Rightarrow> (int, planned_file list) dict \<Rightarrow> plan_pack \<Rightarrow> plan_state \<Rightarrow> plan_state" where
  "pack_step digest m files p s =
     (let pdir = choose_dir digest p (st_taken s); fs = dict_get files (pp_id p) [];
          s = (if pp_category p = None then s\<lparr>st_uncategorized := st_uncategorized s + 1\<rparr> else s) in
      if fs = [] then s\<lparr>st_empty := st_empty s + 1\<rparr>
      else s\<lparr>st_taken := insert (path_key pdir) (st_taken s),
        st_planned := st_planned s @ [\<lparr>pl_id = pp_id p, pl_category = category_dir (pp_category p), pl_name = pp_name p, pl_dir = pdir,
          pl_files = fs, pl_containers = container_metas m (pp_id p) fs, pl_units = unit_metas m (pp_id p), pl_row = p\<rparr>]\<rparr>)"

subsection \<open>One source for every blob\<close>

datatype blob_source = Src_Loose string int int | Src_Archive nat "string list" ct_status int | Src_Missing

record need =
  nd_sha :: string
  nd_size :: int
  nd_kind :: kind
  nd_source :: blob_source

definition needed :: "planned_pack list \<Rightarrow> (string, int \<times> kind) dict" where
  "needed planned = fold (\<lambda>f. dict_setdefault (pf_sha f) (pf_size f, pf_kind f)) (concat (map pl_files planned)) []"

text \<open>\<open>_LOOSE_SOURCES\<close>: the first path of a present file of that size whose blob a loose batch recorded.\<close>

definition loose_sources :: "cat \<Rightarrow> string \<Rightarrow> int \<Rightarrow> blob_source list" where
  "loose_sources d sha sz = (let ps = concat (map (\<lambda>i. case sfiles d i of None \<Rightarrow> []
       | Some sf \<Rightarrow> if sf_present sf \<and> sf_size sf = sz \<and>
           (\<exists>x \<in> set (occs d). oc_blob x = sha \<and> oc_chain x = [sf_path sf] \<and> loose_row d (oc_container x)) then [sf] else []) [1..<next_sfile d]) in
     map (\<lambda>sf. Src_Loose (sf_path sf) (sf_size sf) (sf_mtime sf)) (take 1 (sort_key sf_path ps)))"

definition all_present :: "cat \<Rightarrow> nat \<Rightarrow> bool" where
  "all_present d cid \<longleftrightarrow> (\<forall>(c, s, _) \<in> set (cfiles d). c = cid \<longrightarrow> (case sfiles d s of None \<Rightarrow> True | Some sf \<Rightarrow> sf_present sf))"

definition archive_rank :: "occ \<times> nat \<times> crow \<Rightarrow> int \<times> int \<times> int \<times> int \<times> nat \<times> string" where
  "archive_rank x = (case x of (o', rt, r) \<Rightarrow> (if ct_status r = St_Done then 0 else 1, oc_depth o',
     (case ct_source_bytes r of None \<Rightarrow> 1 | Some _ \<Rightarrow> 0), (case ct_source_bytes r of None \<Rightarrow> 0 | Some b \<Rightarrow> b), rt, oc_path o'))"

definition archive_sources :: "cat \<Rightarrow> string \<Rightarrow> blob_source list" where
  "archive_sources d sha = (let xs = concat (map (\<lambda>x. case root_of_row d (oc_container x) of None \<Rightarrow> []
       | Some rt \<Rightarrow> (case rows d rt of None \<Rightarrow> [] | Some r \<Rightarrow>
           if oc_blob x = sha \<and> ct_kind r = Ct_Archive \<and> all_present d rt then [(x, rt, r)] else [])) (occs d)) in
     map (\<lambda>(x, rt, r). Src_Archive rt (oc_chain x) (ct_status r) (case ct_source_bytes r of None \<Rightarrow> 0 | Some b \<Rightarrow> b)) (take 1 (sort_key archive_rank xs)))"

definition blob_source_of :: "cat \<Rightarrow> string \<Rightarrow> int \<Rightarrow> blob_source" where
  "blob_source_of d sha sz = (case loose_sources d sha sz @ archive_sources d sha of [] \<Rightarrow> Src_Missing | s # _ \<Rightarrow> s)"

definition need_blobs :: "cat \<Rightarrow> planned_pack list \<Rightarrow> need list" where
  "need_blobs d planned = map (\<lambda>(sha, sz, k). \<lparr>nd_sha = sha, nd_size = sz, nd_kind = k, nd_source = blob_source_of d sha sz\<rparr>) (needed planned)"

definition compute :: "(string \<Rightarrow> string) \<Rightarrow> string list \<Rightarrow> (scope_row list \<Rightarrow> scope_row list) \<Rightarrow> plan_options \<Rightarrow> mat_db \<Rightarrow>
    (planned_pack list \<times> need list \<times> plan_state \<times> int) py" where
  "compute digest cwd arrange opts m =
     (let packs = selected_packs opts m; ids = map pp_id packs; roots = root_infos (md_cat m);
          rs = sort_key or_pack (arrange (container_scope m ids @ unit_scope m ids)) in
      py_bind (py_fold (lay_out digest cwd roots (po_layout opts) packs rs) (remdups (map or_pack rs)) ([], 0)) (\<lambda>(files, junk).
      let s = fold (pack_step digest m files) packs \<lparr>st_planned = [], st_taken = {}, st_empty = 0, st_uncategorized = 0\<rparr> in
      py_ret (st_planned s, need_blobs (md_cat m) (st_planned s), s, junk)))"

subsection \<open>Totals\<close>

record plan_totals =
  tt_packs :: int
  tt_empty :: int
  tt_uncategorized :: int
  tt_needs_review :: int
  tt_files :: int
  tt_blobs :: int
  tt_unique_bytes :: int
  tt_linked_bytes :: int
  tt_dedup_saved :: int
  tt_loose :: "int \<times> int"
  tt_archive :: "int \<times> int"
  tt_missing :: "int \<times> int"
  tt_archive_units :: int
  tt_read_bytes :: int
  tt_junk :: int
  tt_unassigned :: "int \<times> int"
  tt_write_bytes :: int
  tt_copy_bytes :: int
  tt_fits :: "(bool \<times> bool) option"

definition kind_total :: "(blob_source \<Rightarrow> bool) \<Rightarrow> need list \<Rightarrow> int \<times> int" where
  "kind_total P ns = (let xs = filter (\<lambda>n. P (nd_source n)) ns in (int (length xs), sum_list (map nd_size xs)))"

definition is_archive_source :: "blob_source \<Rightarrow> bool" where
  "is_archive_source s = (case s of Src_Archive _ _ _ _ \<Rightarrow> True | _ \<Rightarrow> False)"

definition is_loose_source :: "blob_source \<Rightarrow> bool" where
  "is_loose_source s = (case s of Src_Loose _ _ _ \<Rightarrow> True | _ \<Rightarrow> False)"

definition unit_roots :: "need list \<Rightarrow> (nat, int) dict" where
  "unit_roots ns = fold (\<lambda>n rs. case nd_source n of Src_Archive rt _ _ b \<Rightarrow> AList.update rt b rs | _ \<Rightarrow> rs) ns []"

definition unassigned_units :: "mat_db \<Rightarrow> unit_row list" where
  "unassigned_units m = filter (\<lambda>u. ur_loose u \<and> ur_present u \<and> ur_pack u = None \<and> ur_files u \<noteq> []) (md_units m)"

text \<open>\<open>free > bytes * 1.05\<close>, where \<open>fl\<close> rounds to the nearest double.\<close>

definition fits_in :: "(rat \<Rightarrow> rat) \<Rightarrow> int \<Rightarrow> int \<Rightarrow> bool" where
  "fits_in fl free bytes \<longleftrightarrow> fl (of_int bytes * fl (105 / 100)) < of_int free"

definition plan_totals_of :: "(rat \<Rightarrow> rat) \<Rightarrow> plan_options \<Rightarrow> mat_db \<Rightarrow> planned_pack list \<Rightarrow> need list \<Rightarrow> plan_state \<Rightarrow> int \<Rightarrow> plan_totals" where
  "plan_totals_of fl opts m planned ns s junk =
     (let fs = concat (map pl_files planned); linked = sum_list (map pf_size fs); unique = sum_list (map nd_size ns);
          arch = kind_total is_archive_source ns; un = unassigned_units m in
      \<lparr>tt_packs = int (length planned), tt_empty = st_empty s, tt_uncategorized = st_uncategorized s,
       tt_needs_review = int (length (filter (pp_needs_review \<circ> pl_row) planned)), tt_files = int (length fs), tt_blobs = int (length ns),
       tt_unique_bytes = unique, tt_linked_bytes = linked, tt_dedup_saved = linked - unique,
       tt_loose = kind_total is_loose_source ns, tt_archive = arch, tt_missing = kind_total (\<lambda>x. x = Src_Missing) ns,
       tt_archive_units = int (length (unit_roots ns)), tt_read_bytes = sum_list (map snd (unit_roots ns)), tt_junk = junk,
       tt_unassigned = (int (length un), sum_list (map (int \<circ> length \<circ> ur_files) un)),
       tt_write_bytes = snd arch, tt_copy_bytes = unique + linked,
       tt_fits = map_option (\<lambda>free. (fits_in fl free (snd arch), fits_in fl free (unique + linked))) (po_free opts)\<rparr>)"

subsection \<open>The plan tables\<close>

text \<open>
  What \<^verbatim>\<open>materialize_units\<close> and \<^verbatim>\<open>materialize_packs\<close> share as claim tables is the record \<open>job\<close>; a unit of kind
  \<^verbatim>\<open>loose\<close> has no root container. Times are seconds.
\<close>

datatype job_status = Job_Pending | Job_Claimed | Job_Done | Job_Incomplete | Job_Failed

record job =
  jb_status :: job_status
  jb_by :: "string option"
  jb_at :: "int option"
  jb_attempts :: int
  jb_error :: "string option"

definition new_job :: job where
  "new_job = \<lparr>jb_status = Job_Pending, jb_by = None, jb_at = None, jb_attempts = 0, jb_error = None\<rparr>"

record mat_unit =
  mu_id :: nat
  mu_plan :: nat
  mu_root :: "nat option"
  mu_blobs :: int
  mu_bytes :: int
  mu_source_bytes :: int
  mu_job :: job

datatype blob_state = B_Pending | B_Done | B_Failed | B_Missing

record mat_blob =
  mb_plan :: nat
  mb_sha :: string
  mb_size :: int
  mb_kind :: kind
  mb_source :: blob_source
  mb_unit :: "nat option"
  mb_state :: blob_state
  mb_method :: "string option"
  mb_error :: "string option"

record mat_pack =
  mk_plan :: nat
  mk_pack :: int
  mk_planned :: planned_pack
  mk_dir :: string
  mk_files :: int
  mk_bytes :: int
  mk_missing :: int
  mk_counts :: "(string, nat) dict"
  mk_job :: job

record mat_file =
  mf_plan :: nat
  mf_pack :: int
  mf_file :: planned_file

record plan_row =
  pr_id :: nat
  pr_active :: bool
  pr_layout :: layout
  pr_totals :: plan_totals

record mdb =
  m_plans :: "plan_row list"
  m_units :: "mat_unit list"
  m_blobs :: "mat_blob list"
  m_packs :: "mat_pack list"
  m_files :: "mat_file list"
  m_next_unit :: nat

subsection \<open>Writing a plan\<close>

definition active_plan :: "mdb \<Rightarrow> nat \<Rightarrow> bool" where
  "active_plan m p \<longleftrightarrow> (\<exists>r \<in> set (m_plans m). pr_id r = p \<and> pr_active r)"

definition active_claims :: "mdb \<Rightarrow> nat" where
  "active_claims m =
     length (filter (\<lambda>u. active_plan m (mu_plan u) \<and> jb_status (mu_job u) = Job_Claimed) (m_units m))
     + length (filter (\<lambda>k. active_plan m (mk_plan k) \<and> jb_status (mk_job k) = Job_Claimed) (m_packs m))"

definition insert_unit :: "nat \<Rightarrow> nat option \<Rightarrow> need list \<Rightarrow> mat_unit list \<times> (string, nat) dict \<times> nat \<Rightarrow>
    mat_unit list \<times> (string, nat) dict \<times> nat" where
  "insert_unit plan rt ns acc = (case acc of (us, uid_of, next) \<Rightarrow>
     (us @ [\<lparr>mu_id = next, mu_plan = plan, mu_root = rt, mu_blobs = int (length ns), mu_bytes = sum_list (map nd_size ns),
        mu_source_bytes = (case rt of None \<Rightarrow> sum_list (map nd_size ns)
          | Some _ \<Rightarrow> (case ns of n # _ \<Rightarrow> (case nd_source n of Src_Archive _ _ _ b \<Rightarrow> b | _ \<Rightarrow> 0) | [] \<Rightarrow> 0)),
        mu_job = new_job\<rparr>],
      fold (\<lambda>n. AList.update (nd_sha n) next) ns uid_of, next + 1))"

definition source_path :: "need \<Rightarrow> string" where
  "source_path n = (case nd_source n of Src_Loose p _ _ \<Rightarrow> p | _ \<Rightarrow> [])"

text \<open>\<open>xs[i : i + n] for i in range(0, len(xs), n)\<close>.\<close>

definition chunks :: "nat \<Rightarrow> 'x list \<Rightarrow> 'x list list" where
  "chunks n xs = map (\<lambda>i. take n (drop (i * n) xs)) [0..<(length xs + n - 1) div n]"

definition loose_needs :: "need list \<Rightarrow> need list" where
  "loose_needs ns = sort_key source_path (filter (\<lambda>n. is_loose_source (nd_source n)) ns)"

definition by_root :: "need list \<Rightarrow> (nat, need list) dict" where
  "by_root ns = fold (\<lambda>n d. case nd_source n of Src_Archive rt _ _ _ \<Rightarrow> dict_push rt n d | _ \<Rightarrow> d) ns []"

definition plan_units :: "nat \<Rightarrow> nat \<Rightarrow> need list \<Rightarrow> mat_unit list \<times> (string, nat) dict \<times> nat" where
  "plan_units plan next ns =
     fold (\<lambda>rt. insert_unit plan (Some rt) (dict_get (by_root ns) rt [])) (sort (dict_keys (by_root ns)))
       (fold (insert_unit plan None) (chunks LOOSE_UNIT_MAX_BLOBS (loose_needs ns)) ([], [], next))"

definition blob_row :: "nat \<Rightarrow> (string, nat) dict \<Rightarrow> need \<Rightarrow> mat_blob" where
  "blob_row plan uid_of n =
     \<lparr>mb_plan = plan, mb_sha = nd_sha n, mb_size = nd_size n, mb_kind = nd_kind n, mb_source = nd_source n,
      mb_unit = map_of uid_of (nd_sha n), mb_state = (if nd_source n = Src_Missing then B_Missing else B_Pending),
      mb_method = None, mb_error = (if nd_source n = Src_Missing then Some ''no_readable_source'' else None)\<rparr>"

definition write_units_and_blobs :: "nat \<Rightarrow> need list \<Rightarrow> mdb \<Rightarrow> mdb" where
  "write_units_and_blobs plan ns m = (case plan_units plan (m_next_unit m) ns of (us, uid_of, next) \<Rightarrow>
     m\<lparr>m_units := m_units m @ us, m_blobs := m_blobs m @ map (blob_row plan uid_of) ns, m_next_unit := next\<rparr>)"

datatype plan_exn = PlanError | IntegrityError | Py_Exn py_exn | Diverges

definition pack_row :: "nat \<Rightarrow> planned_pack \<Rightarrow> mat_pack" where
  "pack_row plan pk =
     \<lparr>mk_plan = plan, mk_pack = pl_id pk, mk_planned = pk, mk_dir = pl_dir pk, mk_files = int (length (pl_files pk)),
      mk_bytes = sum_list (map pf_size (pl_files pk)), mk_missing = 0, mk_counts = [], mk_job = new_job\<rparr>"

text \<open>The keys of \<^verbatim>\<open>materialize_packs\<close> are \<open>(plan_id, pack_id)\<close> and \<open>(plan_id, dir)\<close>.\<close>

definition write_packs :: "nat \<Rightarrow> planned_pack list \<Rightarrow> (mdb, plan_exn, unit) act" where
  "write_packs plan planned = (\<lambda>m.
     if \<not> distinct (map pl_dir planned) \<or> \<not> distinct (map pl_id planned) then (Inl IntegrityError, m)
     else (Inr (), m\<lparr>m_packs := m_packs m @ map (pack_row plan) planned,
       m_files := m_files m @ concat (map (\<lambda>pk. map (\<lambda>f. \<lparr>mf_plan = plan, mf_pack = pl_id pk, mf_file = f\<rparr>) (pl_files pk)) planned)\<rparr>))"

definition next_plan :: "mdb \<Rightarrow> nat" where
  "next_plan m = Suc (fold max (map pr_id (m_plans m)) 0)"

text \<open>One transaction: an exception leaves the tables as they were.\<close>

definition build_plan :: "(string \<Rightarrow> string) \<Rightarrow> string list \<Rightarrow> (scope_row list \<Rightarrow> scope_row list) \<Rightarrow> (rat \<Rightarrow> rat) \<Rightarrow> plan_options \<Rightarrow> mat_db \<Rightarrow>
    (mdb, plan_exn, nat) act" where
  "build_plan digest cwd arrange fl opts db = (\<lambda>m.
     if \<not> po_force opts \<and> 0 < active_claims m then (Inl PlanError, m)
     else (case compute digest cwd arrange opts db of
       None \<Rightarrow> (Inl Diverges, m)
     | Some (Inl e) \<Rightarrow> (Inl (Py_Exn e), m)
     | Some (Inr (planned, ns, st, junk)) \<Rightarrow>
         let p = next_plan m;
             t = m\<lparr>m_plans := map (\<lambda>r. r\<lparr>pr_active := False\<rparr>) (m_plans m) @
               [\<lparr>pr_id = p, pr_active = True, pr_layout = po_layout opts, pr_totals = plan_totals_of fl opts db planned ns st junk\<rparr>]\<rparr> in
         (case write_packs p planned (write_units_and_blobs p ns t) of
            (Inl e, _) \<Rightarrow> (Inl e, m)
          | (Inr _, t) \<Rightarrow> (Inr p, t))))"

end
