(* ===== verification/MatPlanProps.thy ===== *)
theory MatPlanProps
  imports MatPlan
begin

text \<open>
  A defect of the planner's folder names: \<open>choose_dir\<close> renames a pack whose folder is taken and does not look at the new name.
\<close>

definition named_pack :: "int \<Rightarrow> string \<Rightarrow> plan_pack" where
  "named_pack i n = \<lparr>pp_id = i, pp_name = Some n, pp_category = None, pp_creator = None, pp_source_tag = None, pp_tags = [], pp_tagged = False,
     pp_status = Resolved, pp_needs_review = False\<rparr>"

definition clash_packs :: "plan_pack list" where
  "clash_packs = [named_pack 3 ''X [5]'', named_pack 4 ''X'', named_pack 5 ''X'']"

definition no_plan :: plan_state where
  "no_plan = \<lparr>st_planned = [], st_taken = {}, st_empty = 0, st_uncategorized = 0\<rparr>"

lemma clash_folders:
  "pack_folder_name digest (Some ''X [5]'') 3 = ''X [5]''" "pack_folder_name digest (Some ''X'') 4 = ''X''" "pack_folder_name digest (Some ''X'') 5 = ''X''"
  by code_simp+

lemma clash_renamed: "sanitize_component digest (tagged_dir ''X'' 5) = ''X [5]''"
  by code_simp

lemma clash_dirs:
  "choose_dir digest (named_pack 3 ''X [5]'') {} = ''Misc/X [5]''"
  "choose_dir digest (named_pack 4 ''X'') {''misc/x [5]''} = ''Misc/X''"
  "choose_dir digest (named_pack 5 ''X'') {''misc/x'', ''misc/x [5]''} = ''Misc/X [5]''"
  by code_simp+

lemma pack_step_dir:
  assumes "dict_get files (pp_id p) [] = f # fs"
  shows "st_taken (pack_step digest db files p s) = insert (path_key (choose_dir digest p (st_taken s))) (st_taken s)"
    and "\<exists>x. st_planned (pack_step digest db files p s) = st_planned s @ [x] \<and> pl_dir x = choose_dir digest p (st_taken s)"
  using assms by (simp_all add: pack_step_def Let_def)

text \<open>
  C40. Two packs can be planned into one folder, and then no plan can be written at all: with packs "X [5]", "X" and "X" of ids 3, 4
  and 5, all with files, the last is renamed to "X [5]", the folder of the first, and the insert into \<^verbatim>\<open>materialize_packs\<close> breaks its
  unique key on the folder, which rolls the whole plan back.
\<close>

theorem renamed_folder_collides:
  "let st = fold (pack_step digest db [(3, f # fs), (4, g # gs), (5, h # hs)]) clash_packs no_plan in
    map pl_dir (st_planned st) = [''Misc/X [5]'', ''Misc/X'', ''Misc/X [5]''] \<and> write_packs p (st_planned st) m = (Inl IntegrityError, m)"
proof -
  let ?files = "[(3, f # fs), (4, g # gs), (5, h # hs)]"
  define s1 where "s1 = pack_step digest db ?files (named_pack 3 ''X [5]'') no_plan"
  define s2 where "s2 = pack_step digest db ?files (named_pack 4 ''X'') s1"
  define s3 where "s3 = pack_step digest db ?files (named_pack 5 ''X'') s2"
  have id: "pp_id (named_pack i n) = i" for i n by (simp add: named_pack_def)
  have get: "dict_get ?files (3 :: int) [] = f # fs" "dict_get ?files (4 :: int) [] = g # gs" "dict_get ?files (5 :: int) [] = h # hs" by (simp_all add: dict_get_def)
  have key: "path_key ''Misc/X [5]'' = ''misc/x [5]''" "path_key ''Misc/X'' = ''misc/x''" by code_simp+
  have t1: "st_taken s1 = {''misc/x [5]''}" and t2: "st_taken s2 = {''misc/x'', ''misc/x [5]''}"
    by (simp_all add: s1_def s2_def pack_step_dir(1) id get no_plan_def clash_dirs key)
  obtain x where x: "st_planned s1 = [x]" "pl_dir x = ''Misc/X [5]''"
    using pack_step_dir(2) [of ?files "named_pack 3 ''X [5]''" f fs digest db no_plan] by (auto simp: s1_def id get no_plan_def clash_dirs)
  obtain y where y: "st_planned s2 = [x, y]" "pl_dir y = ''Misc/X''"
    using pack_step_dir(2) [of ?files "named_pack 4 ''X''" g gs digest db s1] by (auto simp: s2_def id get x t1 clash_dirs)
  obtain z where z: "st_planned s3 = [x, y, z]" "pl_dir z = ''Misc/X [5]''"
    using pack_step_dir(2) [of ?files "named_pack 5 ''X''" h hs digest db s2] by (auto simp: s3_def id get y t2 clash_dirs)
  have "fold (pack_step digest db ?files) clash_packs no_plan = s3" by (simp add: clash_packs_def s1_def s2_def s3_def)
  then show ?thesis using z x(2) y(2) by (simp add: Let_def write_packs_def)
qed

end
