(* ===== verification/MatStore.thy ===== *)
theory MatStore
  imports MatGuard
begin

text \<open>
  \<^verbatim>\<open>materialize/store.py\<close>: the content-addressed blob store, on the write guard. \<open>digest\<close> is the hexadecimal SHA-256 of
  a byte string. The counters of the store, which are only logged, and the throttle are left out, and a file is
  read in one piece: both its hash and its copy are those of the blocks one after the other.
\<close>

text \<open>\<open>try: m finally: c\<close> where \<open>c\<close> may raise too.\<close>

definition act_after :: "('s, 'e, 'a) act \<Rightarrow> ('s, 'e, unit) act \<Rightarrow> ('s, 'e, 'a) act" where
  "act_after m c = (\<lambda>s. case m s of (r, t) \<Rightarrow> (case c t of (Inl e, u) \<Rightarrow> (Inl e, u) | (Inr _, u) \<Rightarrow> (r, u)))"

definition ignore_missing :: "unit fs_act \<Rightarrow> unit fs_act" where
  "ignore_missing m = act_catch m (\<lambda>e. if e = OSErr ENOENT then act_ret () else act_raise e)"

definition COPY_FALLBACK_ERRNOS :: "os_err list" where
  "COPY_FALLBACK_ERRNOS = [EXDEV, EPERM, ENOTSUP, EMLINK, EACCES]"

definition falls_back :: "gexn \<Rightarrow> bool" where
  "falls_back e \<longleftrightarrow> (case e of OSErr n \<Rightarrow> n \<in> set COPY_FALLBACK_ERRNOS | _ \<Rightarrow> False)"

definition hash_path :: "(string \<Rightarrow> string) \<Rightarrow> os \<Rightarrow> string \<Rightarrow> (string \<times> int) fs_act" where
  "hash_path digest os p = act_bind (open_read os p) (\<lambda>i.
     act_get (\<lambda>s. (digest (fs_data s i), int (length (fs_data s i)))))"

subsection \<open>TempWriter\<close>

text \<open>\<open>tw_fed\<close> is what the hash object of the writer has been given.\<close>

record temp_writer =
  tw_path :: string
  tw_area :: area
  tw_durable :: bool
  tw_fd :: "nat option"
  tw_fed :: string

definition tw_new :: "os \<Rightarrow> guard \<Rightarrow> string \<Rightarrow> area \<Rightarrow> bool \<Rightarrow> temp_writer fs_act" where
  "tw_new os g tmp a durable = act_bind (open_new os g tmp a) (\<lambda>fd.
     act_ret \<lparr>tw_path = tmp, tw_area = a, tw_durable = durable, tw_fd = Some fd, tw_fed = []\<rparr>)"

definition tw_write :: "temp_writer \<Rightarrow> string \<Rightarrow> temp_writer fs_act" where
  "tw_write w data = (case tw_fd w of
     None \<Rightarrow> act_raise (OSErr EINVAL)
   | Some fd \<Rightarrow> act_seq (sys_write fd data) (act_ret (w\<lparr>tw_fed := tw_fed w @ data\<rparr>)))"

definition tw_close :: "os \<Rightarrow> temp_writer \<Rightarrow> temp_writer fs_act" where
  "tw_close os w = (case tw_fd w of
     None \<Rightarrow> act_ret w
   | Some fd \<Rightarrow> act_seq (act_after (if tw_durable w then sys os (Fsync fd) (\<lambda>s. Inr ((), s)) else act_ret ()) (sys_close fd))
       (act_ret (w\<lparr>tw_fd := None\<rparr>)))"

definition tw_verify :: "(string \<Rightarrow> string) \<Rightarrow> os \<Rightarrow> temp_writer \<Rightarrow> string \<Rightarrow> int \<Rightarrow> temp_writer fs_act" where
  "tw_verify digest os w sha sz = act_bind (tw_close os w) (\<lambda>w.
     if digest (tw_fed w) \<noteq> sha \<or> int (length (tw_fed w)) \<noteq> sz then act_raise ShaMismatch else act_ret w)"

definition tw_abort :: "os \<Rightarrow> guard \<Rightarrow> temp_writer \<Rightarrow> unit fs_act" where
  "tw_abort os g w = act_seq (case tw_fd w of None \<Rightarrow> act_ret () | Some fd \<Rightarrow> sys_close fd)
     (ignore_missing (guard_unlink os g (tw_path w) (tw_area w)))"

text \<open>\<open>try: m except BaseException: w.abort(); raise\<close>.\<close>

definition aborting :: "os \<Rightarrow> guard \<Rightarrow> temp_writer \<Rightarrow> 'a fs_act \<Rightarrow> 'a fs_act" where
  "aborting os g w m = act_catch m (\<lambda>e. act_seq (tw_abort os g w) (act_raise e))"

subsection \<open>Names\<close>

definition is_hex :: "char \<Rightarrow> bool" where
  "is_hex c \<longleftrightarrow> c \<in> set ''0123456789abcdef''"

text \<open>\<open>_SHA.match\<close>: \<open>$\<close> also matches before a final newline.\<close>

definition sha_ok :: "string \<Rightarrow> bool" where
  "sha_ok sha \<longleftrightarrow> 64 \<le> length sha \<and> list_all is_hex (take 64 sha) \<and> drop 64 sha \<in> {[], [CHR 0x0A]}"

definition BLOB_DIR :: string where "BLOB_DIR = ''.forge-blobs''"

definition blob_dir :: "guard \<Rightarrow> string \<Rightarrow> string" where
  "blob_dir g sha = posix_join (posix_join (posix_join (g_v2 g) BLOB_DIR) (take 2 sha)) (take 2 (drop 2 sha))"

definition blob_path :: "guard \<Rightarrow> string \<Rightarrow> string fs_act" where
  "blob_path g sha = (if sha_ok sha then act_ret (posix_join (blob_dir g sha) sha) else act_raise Bad_Sha)"

definition temp_prefix :: "string \<Rightarrow> string" where
  "temp_prefix tag = ''tmp-'' @ tag @ ''-''"

definition file_of_size :: "fs \<Rightarrow> node option \<Rightarrow> int \<Rightarrow> bool" where
  "file_of_size s n sz \<longleftrightarrow> (case n of Some (N_File i) \<Rightarrow> int (length (fs_data s i)) = sz | _ \<Rightarrow> False)"

definition has :: "os \<Rightarrow> guard \<Rightarrow> string \<Rightarrow> int \<Rightarrow> bool fs_act" where
  "has os g sha sz = act_bind (blob_path g sha) (\<lambda>p. act_get (\<lambda>s. file_of_size s (lstat os s p) sz))"

definition clean_name :: "os \<Rightarrow> guard \<Rightarrow> string \<Rightarrow> string \<Rightarrow> string \<Rightarrow> unit fs_act" where
  "clean_name os g pre d name = (if prefix pre name then ignore_missing (guard_unlink os g (posix_join d name) V2) else act_ret ())"

text \<open>The names below a directory that start so; a directory that is not there has none.\<close>

definition clean_dir :: "os \<Rightarrow> guard \<Rightarrow> string \<Rightarrow> string \<Rightarrow> unit fs_act" where
  "clean_dir os g pre d = act_bind (act_get (\<lambda>s. os_list os s d)) (\<lambda>r. case r of
     Inl e \<Rightarrow> if e = ENOENT then act_ret () else act_raise (OSErr e)
   | Inr names \<Rightarrow> act_for names (clean_name os g pre d))"

definition clean_temps :: "os \<Rightarrow> guard \<Rightarrow> string list \<Rightarrow> string \<Rightarrow> unit fs_act" where
  "clean_temps os g shas tag =
     (if list_all sha_ok shas then act_for (sorted_list_of_set (set (map (blob_dir g) shas))) (clean_dir os g (temp_prefix tag))
      else act_raise Bad_Sha)"

subsection \<open>Publishing\<close>

definition begin_blob :: "os \<Rightarrow> guard \<Rightarrow> string \<Rightarrow> string \<Rightarrow> temp_writer fs_act" where
  "begin_blob os g sha tag =
     act_bind (blob_path g sha) (\<lambda>final.
     act_seq (mkdirs os g (dir_name final) V2)
     (act_bind (new_temp_name os g (dir_name final) (temp_prefix tag) V2 0) (\<lambda>tmp. tw_new os g tmp V2 True)))"

definition publish :: "os \<Rightarrow> guard \<Rightarrow> string \<Rightarrow> string \<Rightarrow> unit fs_act" where
  "publish os g tmp final = act_catch (act_seq (guard_link os g tmp final) (act_ret ()))
     (\<lambda>e. if e = OSErr EEXIST \<or> \<not> falls_back e then act_raise e
       else act_bind (act_get (\<lambda>s. lstat os s final \<noteq> None)) (\<lambda>there.
         if there then act_raise (OSErr EEXIST) else act_seq (guard_rename os g tmp final V2) (act_ret ())))"

text \<open>What an entry that is already there means.\<close>

definition keep_existing :: "os \<Rightarrow> guard \<Rightarrow> string \<Rightarrow> int \<Rightarrow> string fs_act" where
  "keep_existing os g sha sz = act_bind (has os g sha sz) (\<lambda>ok. if ok then act_ret ''existing'' else act_raise StoreCorrupt)"

definition commit :: "(string \<Rightarrow> string) \<Rightarrow> os \<Rightarrow> guard \<Rightarrow> temp_writer \<Rightarrow> string \<Rightarrow> int \<Rightarrow> string fs_act" where
  "commit digest os g w sha sz =
     act_bind (aborting os g w (tw_verify digest os w sha sz)) (\<lambda>w.
     act_bind (blob_path g sha) (\<lambda>final.
     act_after
       (act_catch (act_seq (publish os g (tw_path w) final) (act_ret ''extracted''))
         (\<lambda>e. if e = OSErr EEXIST then keep_existing os g sha sz else act_raise e))
       (ignore_missing (guard_unlink os g (tw_path w) V2))))"

text \<open>\<open>data\<close> of an open file appended to a writer.\<close>

definition pour :: "os \<Rightarrow> string \<Rightarrow> temp_writer \<Rightarrow> temp_writer fs_act" where
  "pour os src w = act_bind (open_read os src) (\<lambda>i. act_bind (act_get (\<lambda>s. fs_data s i)) (tw_write w))"

definition copy_into :: "(string \<Rightarrow> string) \<Rightarrow> os \<Rightarrow> guard \<Rightarrow> string \<Rightarrow> string \<Rightarrow> int \<Rightarrow> string \<Rightarrow> string fs_act" where
  "copy_into digest os g src sha sz tag =
     act_bind (begin_blob os g sha tag) (\<lambda>w.
     act_bind (aborting os g w (pour os src w)) (\<lambda>w. commit digest os g w sha sz))"

definition link_from_source :: "(string \<Rightarrow> string) \<Rightarrow> os \<Rightarrow> guard \<Rightarrow> bool \<Rightarrow> string \<Rightarrow> string \<Rightarrow> int \<Rightarrow> string \<Rightarrow> string fs_act" where
  "link_from_source digest os g allow_copy src sha sz tag =
     act_bind (blob_path g sha) (\<lambda>final.
     act_seq (mkdirs os g (dir_name final) V2)
     (act_catch (act_seq (guard_link os g src final) (act_ret ''linked''))
       (\<lambda>e. if e = OSErr EEXIST then keep_existing os g sha sz
         else if \<not> falls_back e then act_raise e
         else if \<not> allow_copy then act_raise CopyDisabled
         else act_bind (copy_into digest os g src sha sz tag) (\<lambda>how.
           act_ret (if how = ''extracted'' then ''copied'' else how)))))"

subsection \<open>Pack files\<close>

definition link_or_copy :: "(string \<Rightarrow> string) \<Rightarrow> os \<Rightarrow> guard \<Rightarrow> bool \<Rightarrow> string \<Rightarrow> string \<Rightarrow> string \<Rightarrow> int \<Rightarrow> string fs_act" where
  "link_or_copy digest os g allow_copy src dst sha sz =
     act_catch (act_seq (guard_link os g src dst) (act_ret ''linked''))
       (\<lambda>e. if \<not> falls_back e then act_raise e
         else if \<not> allow_copy then act_raise CopyDisabled
         else act_bind (new_temp_name os g (dir_name dst) ''.forge-tmp-'' V2 0) (\<lambda>tmp.
           act_bind (tw_new os g tmp V2 True) (\<lambda>w.
           act_seq (aborting os g w (act_bind (pour os src w) (\<lambda>w. tw_verify digest os w sha sz)))
           (act_seq (guard_rename os g tmp dst V2) (act_ret ''copied'')))))"

definition same_inode :: "node \<Rightarrow> node \<Rightarrow> bool" where
  "same_inode a b \<longleftrightarrow> (case a of N_File i \<Rightarrow> b = N_File i | _ \<Rightarrow> False)"

text \<open>An identical file of its own is kept when \<open>verify_existing\<close> asks for its hash.\<close>

definition same_content :: "(string \<Rightarrow> string) \<Rightarrow> os \<Rightarrow> bool \<Rightarrow> string \<Rightarrow> node \<Rightarrow> string \<Rightarrow> int \<Rightarrow> bool fs_act" where
  "same_content digest os verify_existing target tst sha sz =
     act_bind (act_get (\<lambda>s. file_of_size s (Some tst) sz \<and> verify_existing)) (\<lambda>b.
       if b then act_bind (hash_path digest os target) (\<lambda>(got, _). act_ret (got = sha)) else act_ret False)"

definition place :: "(string \<Rightarrow> string) \<Rightarrow> os \<Rightarrow> guard \<Rightarrow> bool \<Rightarrow> string \<Rightarrow> int \<Rightarrow> string \<Rightarrow> bool \<Rightarrow> string fs_act" where
  "place digest os g allow_copy sha sz target verify_existing =
     act_bind (blob_path g sha) (\<lambda>src.
     act_bind (act_get (\<lambda>s. (lstat os s src, lstat os s target))) (\<lambda>(bst, tst).
     case (bst, tst) of
       (None, _) \<Rightarrow> act_raise (OSErr ENOENT)
     | (Some _, None) \<Rightarrow> act_seq (mkdirs os g (dir_name target) V2) (link_or_copy digest os g allow_copy src target sha sz)
     | (Some b, Some t) \<Rightarrow>
         if t = N_Dir then act_raise (OSErr EISDIR)
         else if same_inode t b then act_ret ''skipped''
         else act_bind (same_content digest os verify_existing target t sha sz) (\<lambda>same.
           if same then act_ret ''skipped''
           else act_bind (new_temp_name os g (dir_name target) ''.forge-tmp-'' V2 0) (\<lambda>tmp.
             act_bind (link_or_copy digest os g allow_copy src tmp sha sz) (\<lambda>how.
             act_seq (guard_rename os g tmp target V2)
             (act_ret (if how = ''linked'' then ''replaced'' else ''replaced_copy''))))))) "

end
