(* ===== verification/MatExtract.thy ===== *)
theory MatExtract
  imports Engine MatStore
begin

text \<open>
  \<^verbatim>\<open>materialize/extract.py\<close>: one pass over a source container that takes the wanted members into the blob store.
  Containers are read with the same \<open>env\<close> as in Engine; files are on the file system of MatGuard. An exception
  is one of the engine or one of the guarded file system. The texts that follow the reason of a failure, the log and the
  throttle are left out; what 7zz extracts is the \<open>extracted\<close> of \<open>env\<close>, not files of the model's file system.
\<close>

subsection \<open>State\<close>

datatype xexn = X_Guard gexn | X_Eng engine_exn

record want =
  wt_sha :: string
  wt_size :: int

record outcome =
  xo_done :: bool
  xo_method :: "string option"
  xo_error :: "string option"

record ext =
  x_fs :: fs
  x_bud :: budget
  x_pending :: "(chain, want) dict"
  x_remaining :: "(chain, int) dict"
  x_prefixes :: "chain list"
  x_outcomes :: "(string, outcome) dict"
  x_nested :: "(chain, string) dict"
  x_rundir :: string
  x_bytes_read :: int
  x_writer :: "temp_writer option"
  x_spool :: "temp_writer option"
  x_spooled :: int
  x_size :: int

record xcfg =
  xc_env :: env
  xc_os :: os
  xc_guard :: guard
  xc_scratch :: string
  xc_tag :: string

type_synonym 'a xact = "(ext, xexn, 'a) act"
type_synonym xopener = "string list \<Rightarrow> chain \<Rightarrow> int \<Rightarrow> string \<Rightarrow> unit xact"

definition on_fs :: "'a fs_act \<Rightarrow> 'a xact" where
  "on_fs m = (\<lambda>s. case m (x_fs s) of (Inl e, t) \<Rightarrow> (Inl (X_Guard e), s\<lparr>x_fs := t\<rparr>) | (Inr v, t) \<Rightarrow> (Inr v, s\<lparr>x_fs := t\<rparr>))"

definition on_bud :: "'a budget_act \<Rightarrow> 'a xact" where
  "on_bud m = (\<lambda>s. case m (x_bud s) of (Inl e, b) \<Rightarrow> (Inl (X_Eng e), s\<lparr>x_bud := b\<rparr>) | (Inr v, b) \<Rightarrow> (Inr v, s\<lparr>x_bud := b\<rparr>))"

definition x_raise :: "engine_exn \<Rightarrow> 'a xact" where
  "x_raise e = act_raise (X_Eng e)"

definition x_time :: "xcfg \<Rightarrow> unit xact" where
  "x_time c = on_bud (check_time (e_caps (xc_env c)) (e_clock (xc_env c)))"

definition x_reserve :: "xcfg \<Rightarrow> int \<Rightarrow> bool xact" where
  "x_reserve c n = (\<lambda>s. case reserve_spool (e_caps (xc_env c)) n (x_bud s) of (ok, b) \<Rightarrow> (Inr ok, s\<lparr>x_bud := b\<rparr>))"

definition x_release :: "int \<Rightarrow> unit xact" where
  "x_release n = act_mod (\<lambda>s. s\<lparr>x_bud := release_spool n (x_bud s)\<rparr>)"

subsection \<open>Bookkeeping\<close>

definition counter_add :: "int \<Rightarrow> chain \<Rightarrow> (chain, int) dict \<Rightarrow> (chain, int) dict" where
  "counter_add n k c = AList.update k (dict_get c k 0 + n) c"

text \<open>The proper prefixes of a chain, the empty one first.\<close>

definition starts :: "chain \<Rightarrow> chain list" where
  "starts chain = map (\<lambda>i. take i chain) [0..<length chain]"

definition resolve :: "chain \<Rightarrow> outcome \<Rightarrow> ext \<Rightarrow> ext" where
  "resolve chain out s = (case map_of (x_pending s) chain of
     None \<Rightarrow> s
   | Some w \<Rightarrow>
       let s = s\<lparr>x_pending := AList.delete chain (x_pending s),
                 x_remaining := fold (counter_add (-1)) (starts chain) (x_remaining s)\<rparr> in
       (case map_of (x_outcomes s) (wt_sha w) of
          None \<Rightarrow> s\<lparr>x_outcomes := AList.update (wt_sha w) out (x_outcomes s)\<rparr>
        | Some p \<Rightarrow> if \<not> xo_done p \<and> xo_done out then s\<lparr>x_outcomes := AList.update (wt_sha w) out (x_outcomes s)\<rparr> else s))"

definition out_done :: "string \<Rightarrow> outcome" where
  "out_done how = \<lparr>xo_done = True, xo_method = Some how, xo_error = None\<rparr>"

definition out_failed :: "string \<Rightarrow> outcome" where
  "out_failed why = \<lparr>xo_done = False, xo_method = None, xo_error = Some why\<rparr>"

definition remaining_under :: "chain \<Rightarrow> ext \<Rightarrow> bool" where
  "remaining_under pre s \<longleftrightarrow> 0 < dict_get (x_remaining s) pre 0"

definition fail_under :: "chain \<Rightarrow> string \<Rightarrow> ext \<Rightarrow> ext" where
  "fail_under pre why s =
     fold (\<lambda>chain. resolve chain (out_failed why)) (filter (\<lambda>chain. take (length pre) chain = pre) (dict_keys (x_pending s))) s"

definition x_resolve :: "chain \<Rightarrow> outcome \<Rightarrow> unit xact" where
  "x_resolve chain out = act_mod (resolve chain out)"

definition x_fail :: "chain \<Rightarrow> string \<Rightarrow> unit xact" where
  "x_fail pre why = act_mod (fail_under pre why)"

subsection \<open>One member\<close>

text \<open>What reading a member yields: its blocks, and how the reader ends after them; an empty block ends it at once.\<close>

type_synonym script = "string list \<times> xexn option"

definition x_store :: "(temp_writer option \<Rightarrow> ext \<Rightarrow> ext) \<Rightarrow> (ext \<Rightarrow> temp_writer option) \<Rightarrow> string \<Rightarrow> unit xact" where
  "x_store put get data = act_bind (act_get get) (\<lambda>w. case w of
     None \<Rightarrow> act_ret ()
   | Some w \<Rightarrow> act_bind (on_fs (tw_write w data)) (\<lambda>w. act_mod (put (Some w))))"

definition set_writer :: "temp_writer option \<Rightarrow> ext \<Rightarrow> ext" where
  "set_writer w s = s\<lparr>x_writer := w\<rparr>"

definition set_spool :: "temp_writer option \<Rightarrow> ext \<Rightarrow> ext" where
  "set_spool w s = s\<lparr>x_spool := w\<rparr>"

definition take_chunk :: "xcfg \<Rightarrow> string \<Rightarrow> unit xact" where
  "take_chunk c data = (let n = int (length data) in
     act_seq (act_mod (\<lambda>s. s\<lparr>x_size := x_size s + n\<rparr>))
    (act_seq (x_time c)
    (act_seq (act_bind (act_get x_size) (\<lambda>sz. on_bud (check_member (e_caps (xc_env c)) sz None)))
    (act_seq (x_store set_writer x_writer data)
    (act_bind (act_get (\<lambda>s. x_spool s \<noteq> None)) (\<lambda>spooling.
      if \<not> spooling then act_ret ()
      else act_bind (x_reserve c n) (\<lambda>ok.
        if \<not> ok then x_raise (Local ''spool_exceeded'')
        else act_seq (act_mod (\<lambda>s. s\<lparr>x_spooled := x_spooled s + n\<rparr>)) (x_store set_spool x_spool data))))))))"

fun take_chunks :: "xcfg \<Rightarrow> string list \<Rightarrow> xexn option \<Rightarrow> unit xact" where
  "take_chunks c [] e = (case e of None \<Rightarrow> act_ret () | Some x \<Rightarrow> act_raise x)"
| "take_chunks c (b # bs) e = (if b = [] then act_ret () else act_seq (take_chunk c b) (take_chunks c bs e))"

definition x_abort :: "xcfg \<Rightarrow> temp_writer option \<Rightarrow> unit xact" where
  "x_abort c w = (case w of None \<Rightarrow> act_ret () | Some w \<Rightarrow> on_fs (tw_abort (xc_os c) (xc_guard c) w))"

definition drop_take :: "xcfg \<Rightarrow> xexn \<Rightarrow> unit xact" where
  "drop_take c e =
     act_bind (act_get (\<lambda>s. (x_writer s, x_spool s, x_spooled s))) (\<lambda>(w, sp, n).
     act_seq (x_abort c w) (act_seq (case sp of None \<Rightarrow> act_ret () | Some _ \<Rightarrow> act_seq (x_abort c sp) (x_release n)) (act_raise e)))"

definition read_all :: "xcfg \<Rightarrow> script \<Rightarrow> int option \<Rightarrow> unit xact" where
  "read_all c scr declared = act_catch
     (act_seq (take_chunks c (fst scr) (snd scr))
       (act_bind (act_get x_size) (\<lambda>got.
         if declared \<noteq> None \<and> declared \<noteq> Some got then x_raise (Local ''reader_error'') else act_ret ())))
     (drop_take c)"

definition x_commit :: "xcfg \<Rightarrow> chain \<Rightarrow> want \<Rightarrow> temp_writer \<Rightarrow> unit xact" where
  "x_commit c chain w tw = act_catch
     (act_bind (on_fs (commit (e_sha (xc_env c)) (xc_os c) (xc_guard c) tw (wt_sha w) (wt_size w))) (\<lambda>how. x_resolve chain (out_done how)))
     (\<lambda>e. if e = X_Guard ShaMismatch then x_resolve chain (out_failed ''sha_mismatch'')
       else if e = X_Guard StoreCorrupt then x_resolve chain (out_failed ''store_corrupt'')
       else act_raise e)"

fun before_sub :: "string \<Rightarrow> string" where
  "before_sub [] = []"
| "before_sub (a # cs) = (if prefix ''//'' (a # cs) then [] else a # before_sub cs)"

definition open_spool :: "xcfg \<Rightarrow> xopener \<Rightarrow> chain \<Rightarrow> int \<Rightarrow> temp_writer \<Rightarrow> unit xact" where
  "open_spool c child chain depth sp =
     act_bind (on_fs (tw_close (xc_os c) sp)) (\<lambda>sp.
     act_bind (act_get (\<lambda>s. map_of (x_nested s) chain)) (\<lambda>sha.
     if (case sha of None \<Rightarrow> False | Some h \<Rightarrow> h \<noteq> [] \<and> e_sha (xc_env c) (tw_fed sp) \<noteq> h) then x_fail chain ''sha_mismatch''
     else if depth + 1 > cap_depth (e_caps (xc_env c)) then x_fail chain ''depth_exceeded''
     else child [tw_path sp] chain (depth + 1) (after_last (CHR ''/'') (before_sub (last chain)))))"

definition in_take :: "'a xact \<Rightarrow> 'a xact" where
  "in_take m = (\<lambda>s. case m (s\<lparr>x_writer := None, x_spool := None, x_spooled := 0, x_size := 0\<rparr>) of
     (r, t) \<Rightarrow> (r, t\<lparr>x_writer := x_writer s, x_spool := x_spool s, x_spooled := x_spooled s, x_size := x_size s\<rparr>))"

definition still_wanted :: "xcfg \<Rightarrow> chain \<Rightarrow> want option xact" where
  "still_wanted c chain = act_bind (act_get (\<lambda>s. map_of (x_pending s) chain)) (\<lambda>want. case want of
     None \<Rightarrow> act_ret None
   | Some w \<Rightarrow> act_bind (on_fs (has (xc_os c) (xc_guard c) (wt_sha w) (wt_size w))) (\<lambda>there.
       if there then act_seq (x_resolve chain (out_done ''existing'')) (act_ret None) else act_ret (Some w)))"

definition new_spool :: "xcfg \<Rightarrow> unit xact" where
  "new_spool c = act_bind (act_get x_rundir) (\<lambda>rundir.
     act_bind (on_fs (new_temp_name (xc_os c) (xc_guard c) rundir ''spool-'' Scratch 0)) (\<lambda>p.
     act_bind (on_fs (tw_new (xc_os c) (xc_guard c) p Scratch False)) (\<lambda>w. act_mod (set_spool (Some w)))))"

definition take_body :: "xcfg \<Rightarrow> xopener \<Rightarrow> chain \<Rightarrow> int \<Rightarrow> script \<Rightarrow> int option \<Rightarrow> want option \<Rightarrow> bool \<Rightarrow> unit xact" where
  "take_body c child chain depth scr declared want opener =
     act_seq (case want of None \<Rightarrow> act_ret ()
       | Some w \<Rightarrow> act_bind (on_fs (begin_blob (xc_os c) (xc_guard c) (wt_sha w) (xc_tag c))) (\<lambda>tw. act_mod (set_writer (Some tw))))
    (act_seq (if opener then new_spool c else act_ret ())
    (act_seq (read_all c scr declared)
    (act_seq (act_mod (\<lambda>s. s\<lparr>x_bytes_read := x_bytes_read s + x_size s\<rparr>))
    (act_bind (act_get (\<lambda>s. (x_writer s, x_spool s, x_spooled s))) (\<lambda>(tw, sp, n).
     act_seq (case (want, tw) of (Some w, Some tw) \<Rightarrow> x_commit c chain w tw | _ \<Rightarrow> act_ret ())
       (case sp of
          None \<Rightarrow> act_ret ()
        | Some sp \<Rightarrow> act_after (open_spool c child chain depth sp) (act_seq (x_abort c (Some sp)) (x_release n))))))))"

definition take_member :: "xcfg \<Rightarrow> xopener \<Rightarrow> chain \<Rightarrow> int \<Rightarrow> script \<Rightarrow> int option \<Rightarrow> unit xact" where
  "take_member c child chain depth scr declared = in_take
     (act_bind (still_wanted c chain) (\<lambda>want.
      act_bind (act_get (\<lambda>s. chain \<in> set (x_prefixes s) \<and> remaining_under chain s)) (\<lambda>opener.
      if want = None \<and> \<not> opener then act_ret ()
      else take_body c child chain depth scr declared want opener)))"

definition is_target :: "chain \<Rightarrow> ext \<Rightarrow> bool" where
  "is_target chain s \<longleftrightarrow> map_of (x_pending s) chain \<noteq> None \<or> chain \<in> set (x_prefixes s)"

subsection \<open>Reading a container\<close>

definition next_chain :: "chain \<Rightarrow> string \<Rightarrow> counter \<Rightarrow> chain" where
  "next_chain pre norm seen = pre @ [chain_name norm (dict_get seen norm 0)]"

definition la_chunks :: "la_entry \<Rightarrow> script" where
  "la_chunks e = (if le_size e = Some 0 then ([], None)
     else (map fst (le_blocks e), case le_end e of Read_Eof \<Rightarrow> None | Read_Error msg \<Rightarrow> Some (X_Eng (Libarchive_Error msg))))"

text \<open>One entry of libarchive; the result is the updated counter of names.\<close>

definition lib_entry :: "xcfg \<Rightarrow> xopener \<Rightarrow> chain \<Rightarrow> int \<Rightarrow> la_entry \<Rightarrow> counter \<Rightarrow> counter xact" where
  "lib_entry c child pre depth e seen =
     (let name = e_decode (xc_env c) (le_name e) in
      if le_filetype e = AE_IFDIR \<and> \<not> (le_symlink e \<or> le_hardlink e) then act_ret seen
      else (case check_name name of (norm, why) \<Rightarrow>
        let why = (if why = None then check_filetype (le_filetype e) (le_hardlink e) (le_symlink e) else why) in
        if why \<noteq> None then act_ret seen
        else
          let chain = next_chain pre (the norm) seen; seen = counter_inc (the norm) seen in
          act_bind (act_get (is_target chain)) (\<lambda>target.
            if \<not> target then act_ret seen
            else if le_encrypted e then act_seq (x_fail chain ''encrypted'') (act_ret seen)
            else act_seq (case le_size e of None \<Rightarrow> act_ret () | Some n \<Rightarrow> on_bud (check_member (e_caps (xc_env c)) n None))
              (act_seq (take_member c child chain depth (la_chunks e) (le_size e)) (act_ret seen)))))"

definition la_stop :: "read_end \<Rightarrow> unit xact" where
  "la_stop fin = (case fin of Read_Eof \<Rightarrow> act_ret () | Read_Error msg \<Rightarrow> x_raise (Libarchive_Error msg))"

fun lib_entries :: "xcfg \<Rightarrow> xopener \<Rightarrow> chain \<Rightarrow> int \<Rightarrow> counter \<Rightarrow> la_entry list \<Rightarrow> read_end \<Rightarrow> unit xact" where
  "lib_entries c child pre depth seen [] fin =
     act_bind (act_get (remaining_under pre)) (\<lambda>more. if \<not> more then act_ret () else act_seq (x_time c) (la_stop fin))"
| "lib_entries c child pre depth seen (e # es) fin =
     act_bind (act_get (remaining_under pre)) (\<lambda>more. if \<not> more then act_ret () else
       act_seq (x_time c) (act_bind (lib_entry c child pre depth e seen) (\<lambda>seen. lib_entries c child pre depth seen es fin)))"

definition files_at :: "xcfg \<Rightarrow> string list \<Rightarrow> ext \<Rightarrow> sfile list" where
  "files_at c paths s = map (\<lambda>p. (base_name p, case lstat (xc_os c) (x_fs s) p of Some (N_File i) \<Rightarrow> Some (fs_data (x_fs s) i) | _ \<Rightarrow> None)) paths"

definition read_lib :: "xcfg \<Rightarrow> xopener \<Rightarrow> sfile list \<Rightarrow> chain \<Rightarrow> int \<Rightarrow> unit xact" where
  "read_lib c child files pre depth = act_catch
     (case e_libarchive (xc_env c) files of
        La_Open_Error msg \<Rightarrow> x_raise (Libarchive_Error msg)
      | La_No_Memory \<Rightarrow> x_raise Memory_Error
      | La_Script es fin \<Rightarrow> lib_entries c child pre depth [] es fin)
     (\<lambda>x. case x of X_Eng (Libarchive_Error msg) \<Rightarrow> x_raise (Local (map_error msg)) | _ \<Rightarrow> act_raise x)"

text \<open>\<open>except (EOFError, OSError, lzma.LZMAError, zlib.error, ValueError)\<close>: a \<open>GuardError\<close> is an \<open>OSError\<close>.\<close>

definition stream_caught :: "xexn \<Rightarrow> bool" where
  "stream_caught x \<longleftrightarrow> (case x of
     X_Eng e \<Rightarrow> e \<in> {Stream_Error, Os_Error, Py ValueError}
   | X_Guard e \<Rightarrow> (case e of GuardError \<Rightarrow> True | Bad_Sha \<Rightarrow> True | OSErr _ \<Rightarrow> True | _ \<Rightarrow> False))"

definition read_stream_x :: "xcfg \<Rightarrow> xopener \<Rightarrow> sfile list \<Rightarrow> chain \<Rightarrow> int \<Rightarrow> string \<Rightarrow> string \<Rightarrow> unit xact" where
  "read_stream_x c child files pre depth fmt hint =
     (let norm = (case check_name (stream_member_name hint fmt) of (norm, why) \<Rightarrow> if why \<noteq> None then ''data'' else the norm);
          chain = pre @ [norm] in
      act_bind (act_get (is_target chain)) (\<lambda>target.
        if \<not> target then act_ret ()
        else act_catch
          (case e_stream (xc_env c) files fmt of (bs, ok) \<Rightarrow>
             take_member c child chain depth (map fst bs, if ok then None else Some (X_Eng Stream_Error)) None)
          (\<lambda>x. if stream_caught x then x_raise (Local ''reader_error'') else act_raise x)))"

subsection \<open>Reading with 7zz\<close>

definition include_path_is_canonical :: "string \<Rightarrow> string option \<Rightarrow> bool" where
  "include_path_is_canonical raw norm \<longleftrightarrow>
     norm = Some raw \<and> CHR 0x5C \<notin> set raw \<and> (case raw of [] \<Rightarrow> True | a # _ \<Rightarrow> a \<notin> {CHR ''/'', CHR ''@'', CHR ''!'', CHR ''-''}) \<and>
     (\<forall>seg \<in> set (split_on (CHR ''/'') raw). seg \<notin> {[], ''.'', ''..''})"

type_synonym zz_pick = "slt_entry \<times> string \<times> chain"

fun zz_select :: "chain \<Rightarrow> counter \<Rightarrow> slt_entry list \<Rightarrow> zz_pick list xact" where
  "zz_select pre seen [] = act_ret []"
| "zz_select pre seen (e # es) =
     (let kind = entry_type e in
      if kind = ''dir'' then zz_select pre seen es
      else (case check_name (entry_path e) of (norm, why) \<Rightarrow>
        let why = (if why = None \<and> kind \<noteq> ''file'' then Some kind else why);
            why = (if why = None \<and> \<not> include_path_is_canonical (entry_path e) norm then Some ''non_canonical_path'' else why) in
        if why \<noteq> None then zz_select pre seen es
        else
          let chain = next_chain pre (the norm) seen; seen = counter_inc (the norm) seen in
          act_bind (act_get (is_target chain)) (\<lambda>target.
            if \<not> target then zz_select pre seen es
            else if map_of e ''Encrypted'' = Some ''+'' then act_seq (x_fail chain ''encrypted'') (zz_select pre seen es)
            else act_bind (zz_select pre seen es) (\<lambda>rest. act_ret ((e, the norm, chain) # rest)))))"

definition x_value :: "int option \<Rightarrow> int xact" where
  "x_value v = (case v of None \<Rightarrow> x_raise (Py ValueError) | Some n \<Rightarrow> act_ret n)"

definition listed_size :: "slt_entry \<Rightarrow> int option" where
  "listed_size e = (if has_value e ''Size'' then py_int (dict_get e ''Size'' []) else Some 0)"

fun zz_total :: "zz_pick list \<Rightarrow> int xact" where
  "zz_total [] = act_ret 0"
| "zz_total ((e, _, _) # ps) = act_bind (x_value (listed_size e)) (\<lambda>n. act_bind (zz_total ps) (\<lambda>m. act_ret (n + m)))"

definition zz_take :: "xcfg \<Rightarrow> xopener \<Rightarrow> int \<Rightarrow> (string \<Rightarrow> extracted) \<Rightarrow> string \<Rightarrow> zz_pick \<Rightarrow> unit xact" where
  "zz_take c child depth content outdir p = (case p of (e, norm, chain) \<Rightarrow>
     (case content norm of
        X_Absent \<Rightarrow> act_ret ()
      | X_File regular blocks \<Rightarrow>
          if \<not> regular then act_ret ()
          else act_bind (if has_value e ''Size'' then act_bind (x_value (listed_size e)) (\<lambda>n. act_ret (Some n)) else act_ret None) (\<lambda>declared.
            act_after
              (act_catch (take_member c child chain depth (blocks, None) declared)
                (\<lambda>x. case x of X_Eng (Local why) \<Rightarrow> x_fail chain why | _ \<Rightarrow> act_raise x))
              (on_fs (ignore_missing (guard_unlink (xc_os c) (xc_guard c) (posix_join outdir norm) Scratch))))))"

definition x_seconds :: "xcfg \<Rightarrow> int xact" where
  "x_seconds c = on_bud (remaining_seconds (e_caps (xc_env c)) (e_clock (xc_env c)))"

definition zz_links :: "xcfg \<Rightarrow> string list \<Rightarrow> string \<Rightarrow> string \<Rightarrow> unit xact" where
  "zz_links c paths hint linkdir = act_for (zip paths (link_names hint (map (\<lambda>p. (base_name p, None)) paths)))
     (\<lambda>(p, name). act_seq (on_fs (symlink_in_scratch (xc_os c) (xc_guard c) p (posix_join linkdir name))) (act_ret ()))"

definition zz_include :: "xcfg \<Rightarrow> string \<Rightarrow> string list \<Rightarrow> unit xact" where
  "zz_include c linkdir names = on_fs
     (act_bind (tw_new (xc_os c) (xc_guard c) (posix_join linkdir ''.include'') Scratch False) (\<lambda>w.
      act_bind (tw_write w (concat (map (\<lambda>n. n @ [LF]) names))) (\<lambda>w. act_seq (tw_close (xc_os c) w) (act_ret ()))))"

definition zz_extract_x :: "xcfg \<Rightarrow> xopener \<Rightarrow> sfile list \<Rightarrow> chain \<Rightarrow> int \<Rightarrow> string \<Rightarrow> string \<Rightarrow> zz_pick list \<Rightarrow> unit xact" where
  "zz_extract_x c child files pre depth linkdir outdir picks =
     act_seq (zz_include c linkdir (map (\<lambda>(e, _, _). entry_path e) picks))
    (act_bind (x_seconds c) (\<lambda>t.
     case e_zz_extract (xc_env c) files (map (\<lambda>(e, _, _). entry_path e) picks) t of
       (Zz_Timeout, _) \<Rightarrow> x_raise (Fatal ''timeout'')
     | (Zz_Done rc out err, content) \<Rightarrow>
         act_seq (act_for picks (zz_take c child depth content outdir))
           (act_bind (act_get (remaining_under pre)) (\<lambda>more. if more then x_fail pre (seven_zip_reason rc err) else act_ret ()))))"

text \<open>The bytes reserved for the extraction are given back whatever happens after the reservation.\<close>

definition zz_picked :: "xcfg \<Rightarrow> xopener \<Rightarrow> sfile list \<Rightarrow> chain \<Rightarrow> int \<Rightarrow> string \<Rightarrow> string \<Rightarrow> zz_pick list \<Rightarrow> unit xact" where
  "zz_picked c child files pre depth linkdir outdir picks =
     (if picks = [] then act_ret ()
      else act_bind (zz_total picks) (\<lambda>total.
        act_bind (x_reserve c total) (\<lambda>ok.
          if \<not> ok then x_raise (Local ''spool_exceeded'')
          else act_after (zz_extract_x c child files pre depth linkdir outdir picks) (x_release total))))"

definition zz_listing :: "xcfg \<Rightarrow> xopener \<Rightarrow> string list \<Rightarrow> chain \<Rightarrow> int \<Rightarrow> string \<Rightarrow> string \<Rightarrow> string \<Rightarrow> unit xact" where
  "zz_listing c child paths pre depth hint linkdir outdir =
     act_seq (zz_links c paths hint linkdir)
    (act_bind (act_get (files_at c paths)) (\<lambda>files.
     act_bind (x_seconds c) (\<lambda>t.
     case e_zz_list (xc_env c) files t of
       Zz_Timeout \<Rightarrow> x_raise (Fatal ''timeout'')
     | Zz_Done rc out err \<Rightarrow>
         if rc \<noteq> 0 then x_raise (Local (seven_zip_reason rc err))
         else act_bind (zz_select pre [] (parse_slt out)) (zz_picked c child files pre depth linkdir outdir))))"

definition read_7zz_x :: "xcfg \<Rightarrow> xopener \<Rightarrow> string list \<Rightarrow> chain \<Rightarrow> int \<Rightarrow> string \<Rightarrow> unit xact" where
  "read_7zz_x c child paths pre depth hint =
     act_bind (act_get x_rundir) (\<lambda>rundir.
     act_bind (on_fs (mkdtemp (xc_os c) (xc_guard c) rundir ''vol-'' Scratch)) (\<lambda>linkdir.
     act_bind (on_fs (mkdtemp (xc_os c) (xc_guard c) rundir ''x-'' Scratch)) (\<lambda>outdir.
     act_after (zz_listing c child paths pre depth hint linkdir outdir)
       (act_seq (on_fs (rmtree_scratch (xc_os c) (xc_guard c) outdir)) (on_fs (rmtree_scratch (xc_os c) (xc_guard c) linkdir))))))"

subsection \<open>Opening a container\<close>

definition x_local :: "'a xact \<Rightarrow> (string \<Rightarrow> 'a xact) \<Rightarrow> 'a xact" where
  "x_local m h = act_catch m (\<lambda>x. case x of X_Eng (Local why) \<Rightarrow> h why | _ \<Rightarrow> act_raise x)"

definition read_lib_or_7zz :: "xcfg \<Rightarrow> xopener \<Rightarrow> string list \<Rightarrow> chain \<Rightarrow> int \<Rightarrow> string \<Rightarrow> string option \<Rightarrow> unit xact" where
  "read_lib_or_7zz c child paths pre depth hint fmt =
     x_local (act_bind (act_get (files_at c paths)) (\<lambda>files. read_lib c child files pre depth))
       (\<lambda>first. act_bind (act_get (remaining_under pre)) (\<lambda>more.
          if more \<and> first \<in> {''reader_error'', ''unsupported_format'', ''missing_volume''} \<and>
             (case fmt of None \<Rightarrow> False | Some f \<Rightarrow> f \<in> set FALLBACK_FORMATS) \<and> e_sevenzip (xc_env c)
          then x_local (read_7zz_x c child paths pre depth hint) (x_fail pre)
          else x_fail pre first))"

definition sniff_x :: "xcfg \<Rightarrow> string list \<Rightarrow> (string + string) xact" where
  "sniff_x c paths = (case paths of
     [] \<Rightarrow> x_raise (Py IndexError)
   | p # _ \<Rightarrow> act_get (\<lambda>s. case lstat (xc_os c) (x_fs s) p of
       Some (N_File i) \<Rightarrow> Inr (take MAGIC_BYTES (fs_data (x_fs s) i)) | _ \<Rightarrow> Inl ''reader_error''))"

definition x_open_with :: "xcfg \<Rightarrow> xopener \<Rightarrow> xopener" where
  "x_open_with c child paths pre depth hint =
     act_bind (act_get (remaining_under pre)) (\<lambda>more.
     if \<not> more then act_ret ()
     else act_bind (sniff_x c paths) (\<lambda>r. case r of
       Inl why \<Rightarrow> x_fail pre why
     | Inr head \<Rightarrow>
         let fmt = magic_format head in
         act_bind (act_get (files_at c paths)) (\<lambda>files.
         case fmt of
           Some f \<Rightarrow>
             if f \<in> set STREAM_FORMATS \<and>
                (case e_peek (xc_env c) files f MAGIC_BYTES of None \<Rightarrow> True | Some inner \<Rightarrow> magic_format inner = None)
             then x_local (read_stream_x c child files pre depth f hint) (x_fail pre)
             else read_lib_or_7zz c child paths pre depth hint fmt
         | None \<Rightarrow> read_lib_or_7zz c child paths pre depth hint fmt)))"

fun x_level :: "xcfg \<Rightarrow> nat \<Rightarrow> xopener" where
  "x_level c 0 = (\<lambda>paths pre depth hint. x_raise Recursion_Error)"
| "x_level c (Suc n) = x_open_with c (x_level c n)"

subsection \<open>The run\<close>

definition count_starts :: "chain list \<Rightarrow> (chain, int) dict" where
  "count_starts cs = fold (counter_add 1) (concat (map starts cs)) []"

definition ext_init :: "xcfg \<Rightarrow> fs \<Rightarrow> (chain, want) dict \<Rightarrow> (chain, string) dict \<Rightarrow> int \<Rightarrow> ext" where
  "ext_init c s wants nested compressed =
     \<lparr>x_fs = s, x_bud = (budget_init compressed (e_clock (xc_env c) 0))\<lparr>readings := 1\<rparr>,
      x_pending = wants, x_remaining = count_starts (map fst wants),
      x_prefixes = concat (map (drop 1 \<circ> starts) (map fst wants)),
      x_outcomes = [], x_nested = nested, x_rundir = [], x_bytes_read = 0, x_writer = None, x_spool = None, x_spooled = 0, x_size = 0\<rparr>"

definition x_pass :: "xcfg \<Rightarrow> string list \<Rightarrow> unit xact" where
  "x_pass c volumes =
     act_bind (on_fs (mkdtemp (xc_os c) (xc_guard c) (xc_scratch c) ''mat-run-'' Scratch)) (\<lambda>rundir.
     act_seq (act_mod (\<lambda>s. s\<lparr>x_rundir := rundir\<rparr>))
     (act_after
       (act_catch (case volumes of
           [] \<Rightarrow> x_raise (Py IndexError)
         | v # _ \<Rightarrow> x_level c (levels (xc_env c) 1) volumes [] 1 (base_name v))
         (\<lambda>x. case x of X_Eng (Fatal why) \<Rightarrow> x_fail [] why | _ \<Rightarrow> act_raise x))
       (act_seq (on_fs (rmtree_scratch (xc_os c) (xc_guard c) rundir)) (act_mod (\<lambda>s. s\<lparr>x_rundir := []\<rparr>)))))"

definition x_body :: "xcfg \<Rightarrow> string list \<Rightarrow> unit xact" where
  "x_body c volumes = act_seq (x_pass c volumes) (x_fail [] ''not_found'')"

definition volume_size :: "os \<Rightarrow> fs \<Rightarrow> string \<Rightarrow> int option" where
  "volume_size os s p = (case fs_names s (os_real os s p) of Some (N_File i) \<Rightarrow> Some (int (length (fs_data s i))) | _ \<Rightarrow> None)"

definition extract_run :: "xcfg \<Rightarrow> string list \<Rightarrow> (chain, want) dict \<Rightarrow> (chain, string) dict \<Rightarrow> fs \<Rightarrow> (xexn + (string, outcome) dict) \<times> fs" where
  "extract_run c volumes wants nested s =
     (if \<exists>p \<in> set volumes. volume_size (xc_os c) s p = None then (Inl (X_Guard (OSErr ENOENT)), s)
      else case x_body c volumes (ext_init c s wants nested (sum_list (map (\<lambda>p. the (volume_size (xc_os c) s p)) volumes))) of
        (Inl e, t) \<Rightarrow> (Inl e, x_fs t)
      | (Inr _, t) \<Rightarrow> (Inr (x_outcomes t), x_fs t))"

end
