(* ===== verification/MatStoreProps.thy ===== *)
theory MatStoreProps
  imports MatStore MatGuardProps
begin

text \<open>
  Every operation of the blob store stays within what the write guard permits.
\<close>

lemma keeps_after [keeps_rules]: "keeps I m \<Longrightarrow> keeps I n \<Longrightarrow> keeps I (act_after m n)"
  unfolding keeps_iff act_after_def by (fastforce split: prod.splits sum.splits)

lemma keeps_let [keeps_rules]: "(\<And>x. keeps I (f x)) \<Longrightarrow> keeps I (Let x f)"
  by simp

lemma keeps_sum [keeps_rules]:
  "(\<And>y. x = Inl y \<Longrightarrow> keeps I (f y)) \<Longrightarrow> (\<And>y. x = Inr y \<Longrightarrow> keeps I (h y)) \<Longrightarrow>
   keeps I (case x of Inl y \<Rightarrow> f y | Inr y \<Rightarrow> h y)"
  by (cases x) auto

lemma keeps_fsync [keeps_rules]: "keeps I (sys os op (\<lambda>s. Inr ((), s)))"
  by (auto simp: keeps_iff sys_def split: option.splits)

lemma keeps_ignore [keeps_rules]: "keeps I m \<Longrightarrow> keeps I (ignore_missing m)"
  unfolding ignore_missing_def by (intro keeps_rules)

lemma keeps_blob_path [keeps_rules]: "keeps I (blob_path g sha)"
  unfolding blob_path_def by (intro keeps_rules)

lemma keeps_has [keeps_rules]: "keeps I (has os g sha sz)"
  unfolding has_def by (intro keeps_rules)

lemma keeps_open_read [keeps_rules]: "keeps I (open_read os p)"
proof -
  have "keeps I (case st of Some (N_File i) \<Rightarrow> act_ret i | None \<Rightarrow> act_raise (OSErr ENOENT) | Some _ \<Rightarrow> act_raise (OSErr EIO))" for st
    by (auto split: option.splits node.splits intro!: keeps_rules)
  then show ?thesis unfolding open_read_def by (intro keeps_bind keeps_basic)
qed

lemma keeps_hash_path [keeps_rules]: "keeps I (hash_path digest os p)"
  unfolding hash_path_def by (intro keeps_rules)


lemma keeps_temp_name [keeps_rules]: "realpath_ok os \<Longrightarrow> keeps (confined g s0) (new_temp_name os g d pre a i)"
  unfolding new_temp_name_def by (intro keeps_rules)

lemma keeps_tw_new [keeps_rules]: "realpath_ok os \<Longrightarrow> keeps (confined g s0) (tw_new os g p a d)"
  unfolding tw_new_def by (intro keeps_rules)

lemma keeps_tw_write [keeps_rules]: "keeps (confined g s0) (tw_write w data)"
  unfolding tw_write_def by (intro keeps_rules)

lemma keeps_tw_close [keeps_rules]: "keeps (confined g s0) (tw_close os w)"
  unfolding tw_close_def by (intro keeps_rules)

lemma keeps_tw_verify [keeps_rules]: "keeps (confined g s0) (tw_verify digest os w sha sz)"
  unfolding tw_verify_def by (intro keeps_rules)

lemma keeps_tw_abort [keeps_rules]: "realpath_ok os \<Longrightarrow> keeps (confined g s0) (tw_abort os g w)"
  unfolding tw_abort_def by (intro keeps_rules)

lemma keeps_aborting [keeps_rules]: "realpath_ok os \<Longrightarrow> keeps (confined g s0) m \<Longrightarrow> keeps (confined g s0) (aborting os g w m)"
  unfolding aborting_def by (intro keeps_rules)

lemma keeps_begin_blob [keeps_rules]: "realpath_ok os \<Longrightarrow> keeps (confined g s0) (begin_blob os g sha tag)"
  unfolding begin_blob_def by (intro keeps_rules)

lemma keeps_publish [keeps_rules]: "realpath_ok os \<Longrightarrow> keeps (confined g s0) (publish os g tmp final)"
  unfolding publish_def by (intro keeps_rules)

lemma keeps_existing [keeps_rules]: "keeps (confined g s0) (keep_existing os g sha sz)"
  unfolding keep_existing_def by (intro keeps_rules)

lemma keeps_commit [keeps_rules]: "realpath_ok os \<Longrightarrow> keeps (confined g s0) (commit digest os g w sha sz)"
  unfolding commit_def by (intro keeps_rules)

lemma keeps_clean_temps [keeps_rules]: "realpath_ok os \<Longrightarrow> keeps (confined g s0) (clean_temps os g shas tag)"
  unfolding clean_temps_def clean_dir_def clean_name_def by (intro keeps_rules)

lemma keeps_pour [keeps_rules]: "keeps (confined g s0) (pour os src w)"
  unfolding pour_def by (intro keeps_rules)

lemma keeps_copy_into [keeps_rules]: "realpath_ok os \<Longrightarrow> keeps (confined g s0) (copy_into digest os g src sha sz tag)"
  unfolding copy_into_def by (intro keeps_rules)

lemma keeps_link_from_source [keeps_rules]: "realpath_ok os \<Longrightarrow> keeps (confined g s0) (link_from_source digest os g allow src sha sz tag)"
  unfolding link_from_source_def by (intro keeps_rules)

lemma keeps_link_or_copy [keeps_rules]: "realpath_ok os \<Longrightarrow> keeps (confined g s0) (link_or_copy digest os g allow src dst sha sz)"
  unfolding link_or_copy_def by (intro keeps_rules)

lemma keeps_place [keeps_rules]: "realpath_ok os \<Longrightarrow> keeps (confined g s0) (place digest os g allow sha sz target verify)"
  unfolding place_def same_content_def by (intro keeps_rules)

end
