(* ===== verification/MatExtractProps.thy ===== *)
theory MatExtractProps
  imports MatExtract MatStoreProps
begin

text \<open>
  What one extraction run promises. Its invariants are proved once, in the locale \<open>extractor_invariant\<close>: a property of the
  state that the guarded file system, the budget and the local objects of a member cannot break, and that the
  bookkeeping of wants keeps, holds through every container and every exit. The locale is interpreted on the bookkeeping
  (every want ends with an outcome) and on the confinement of the write guard.
\<close>

subsection \<open>Invariants of a run\<close>

lemma keeps_xcases [keeps_rules]:
  "keeps I a \<Longrightarrow> (\<And>b bs. keeps I (f b bs)) \<Longrightarrow> keeps I (case x of X_Absent \<Rightarrow> a | X_File b bs \<Rightarrow> f b bs)"
  by (cases x) auto

lemma keeps_zzcases [keeps_rules]:
  "keeps I a \<Longrightarrow> (\<And>rc out err. keeps I (h rc out err)) \<Longrightarrow> keeps I (case z of Zz_Timeout \<Rightarrow> a | Zz_Done rc out err \<Rightarrow> h rc out err)"
  by (cases z) auto

lemma keeps_lacases [keeps_rules]:
  "(\<And>m. keeps I (f m)) \<Longrightarrow> keeps I a \<Longrightarrow> (\<And>es fin. keeps I (h es fin)) \<Longrightarrow>
   keeps I (case z of La_Open_Error m \<Rightarrow> f m | La_No_Memory \<Rightarrow> a | La_Script es fin \<Rightarrow> h es fin)"
  by (cases z) auto

locale extractor_invariant =
  fixes c :: xcfg and I :: "ext \<Rightarrow> bool"
  assumes frame: "I s \<Longrightarrow> x_fs t = x_fs s \<Longrightarrow> x_pending t = x_pending s \<Longrightarrow> x_remaining t = x_remaining s \<Longrightarrow> x_outcomes t = x_outcomes s \<Longrightarrow> I t"
    and files: "I s \<Longrightarrow> (\<And>s0. realpath_ok (xc_os c) \<Longrightarrow> confined (xc_guard c) s0 (x_fs s) \<Longrightarrow> confined (xc_guard c) s0 f) \<Longrightarrow> I (s\<lparr>x_fs := f\<rparr>)"
    and resolves: "I s \<Longrightarrow> I (resolve chain out s)"
begin

lemma keeps_on_fs [keeps_rules]: "(\<And>s0. realpath_ok (xc_os c) \<Longrightarrow> keeps (confined (xc_guard c) s0) m) \<Longrightarrow> keeps I (on_fs m)"
  unfolding keeps_iff [of I]
proof (intro allI impI)
  fix s assume m: "\<And>s0. realpath_ok (xc_os c) \<Longrightarrow> keeps (confined (xc_guard c) s0) m" and s: "I s"
  obtain r f where run: "m (x_fs s) = (r, f)" by (cases "m (x_fs s)")
  have "I (s\<lparr>x_fs := f\<rparr>)" by (rule files [OF s]) (use keepsD [OF m _ run] in blast)
  then show "I (snd (on_fs m s))" by (simp add: on_fs_def run split: sum.splits)
qed

lemma keeps_frame [keeps_rules]:
  "(\<And>s. x_fs (f s) = x_fs s \<and> x_pending (f s) = x_pending s \<and> x_remaining (f s) = x_remaining s \<and> x_outcomes (f s) = x_outcomes s) \<Longrightarrow>
   keeps I (act_mod f)"
  using frame by (auto simp: keeps_iff act_run)

lemma keeps_on_bud [keeps_rules]: "keeps I (on_bud m)"
  unfolding keeps_iff on_bud_def by (auto split: prod.splits sum.splits intro: frame)

lemma keeps_reserve [keeps_rules]: "keeps I (x_reserve c n)"
  unfolding keeps_iff x_reserve_def by (auto split: prod.splits intro: frame)

lemma keeps_release [keeps_rules]: "keeps I (x_release n)"
  unfolding x_release_def by (rule keeps_frame) simp

lemma keeps_raise_x [keeps_rules]: "keeps I (x_raise e)"
  unfolding x_raise_def by (intro keeps_rules)

lemma keeps_time [keeps_rules]: "keeps I (x_time c)"
  unfolding x_time_def by (intro keeps_rules)

lemma keeps_seconds [keeps_rules]: "keeps I (x_seconds c)"
  unfolding x_seconds_def by (intro keeps_rules)

lemma keeps_resolve [keeps_rules]: "keeps I (x_resolve chain out)"
  unfolding x_resolve_def by (rule keeps_mod) (rule resolves)

lemma fold_resolve: "I s \<Longrightarrow> I (fold (\<lambda>chain. resolve chain out) xs s)"
  by (induction xs arbitrary: s) (auto intro: resolves)

lemma keeps_fail [keeps_rules]: "keeps I (x_fail pre why)"
  unfolding x_fail_def fail_under_def by (rule keeps_mod) (rule fold_resolve)

lemma keeps_value [keeps_rules]: "keeps I (x_value v)"
  unfolding x_value_def by (intro keeps_rules)

lemma keeps_xcase [keeps_rules]:
  assumes "\<And>g. x = X_Guard g \<Longrightarrow> keeps I (f g)" and "\<And>e. x = X_Eng e \<Longrightarrow> keeps I (h e)"
  shows "keeps I (case x of X_Guard g \<Rightarrow> f g | X_Eng e \<Rightarrow> h e)"
  using assms by (cases x) auto

lemma keeps_ecase [keeps_rules]:
  assumes "\<And>w. keeps I (f1 w)" "\<And>w. keeps I (f2 w)" "keeps I f3" "\<And>m. keeps I (f4 m)" "keeps I f5" "keeps I f6" "\<And>e. keeps I (f7 e)" "keeps I f8"
  shows "keeps I (case e of Local w \<Rightarrow> f1 w | Fatal w \<Rightarrow> f2 w | Memory_Error \<Rightarrow> f3 | Libarchive_Error m \<Rightarrow> f4 m | Stream_Error \<Rightarrow> f5
     | Os_Error \<Rightarrow> f6 | Py x \<Rightarrow> f7 x | Recursion_Error \<Rightarrow> f8)"
  using assms by (cases e) auto

lemma keeps_list [keeps_rules]:
  "keeps I a \<Longrightarrow> (\<And>y ys. keeps I (f y ys)) \<Longrightarrow> keeps I (case xs of [] \<Rightarrow> a | y # ys \<Rightarrow> f y ys)"
  by (cases xs) auto

subsection \<open>Members\<close>

lemma keeps_store [keeps_rules]:
  "(\<And>w s. x_fs (put w s) = x_fs s \<and> x_pending (put w s) = x_pending s \<and> x_remaining (put w s) = x_remaining s \<and> x_outcomes (put w s) = x_outcomes s) \<Longrightarrow>
   keeps I (x_store put get data)"
  unfolding x_store_def by (intro keeps_rules)

lemma setters: "x_fs (set_writer w s) = x_fs s \<and> x_pending (set_writer w s) = x_pending s \<and> x_remaining (set_writer w s) = x_remaining s \<and> x_outcomes (set_writer w s) = x_outcomes s"
  "x_fs (set_spool w s) = x_fs s \<and> x_pending (set_spool w s) = x_pending s \<and> x_remaining (set_spool w s) = x_remaining s \<and> x_outcomes (set_spool w s) = x_outcomes s"
  by (simp_all add: set_writer_def set_spool_def)

lemma keeps_chunk [keeps_rules]: "keeps I (take_chunk c data)"
  unfolding take_chunk_def Let_def by (intro keeps_rules setters) simp_all

lemma keeps_chunks [keeps_rules]: "keeps I (take_chunks c bs e)"
  by (induction bs) (auto intro!: keeps_rules split: option.splits)

lemma keeps_abort [keeps_rules]: "keeps I (x_abort c w)"
  unfolding x_abort_def by (intro keeps_rules)

lemma keeps_read_all [keeps_rules]: "keeps I (read_all c scr declared)"
  unfolding read_all_def drop_take_def by (intro keeps_rules)

lemma keeps_x_commit [keeps_rules]: "keeps I (x_commit c chain w tw)"
  unfolding x_commit_def by (intro keeps_rules)

lemma keeps_still_wanted [keeps_rules]: "keeps I (still_wanted c chain)"
  unfolding still_wanted_def by (intro keeps_rules)

lemma keeps_new_spool [keeps_rules]: "keeps I (new_spool c)"
  unfolding new_spool_def by (intro keeps_rules setters)

lemma keeps_in_take [keeps_rules]: "keeps I m \<Longrightarrow> keeps I (in_take m)"
  unfolding keeps_iff in_take_def
proof (intro allI impI)
  fix s assume m: "\<forall>s. I s \<longrightarrow> I (snd (m s))" and s: "I s"
  let ?s = "s\<lparr>x_writer := None, x_spool := None, x_spooled := 0, x_size := 0\<rparr>"
  have "I ?s" by (rule frame [OF s]) simp_all
  then have t: "I (snd (m ?s))" using m by blast
  show "I (snd (case m ?s of (r, t) \<Rightarrow> (r, t\<lparr>x_writer := x_writer s, x_spool := x_spool s, x_spooled := x_spooled s, x_size := x_size s\<rparr>)))"
    by (cases "m ?s") (simp, rule frame [OF t], simp_all)
qed

end

subsection \<open>Containers\<close>

text \<open>Below, a nested container keeps the invariant wherever it is opened.\<close>

context extractor_invariant
begin

lemma keeps_open_spool [keeps_rules]:
  "(\<And>p q d h. keeps I (child p q d h)) \<Longrightarrow> keeps I (open_spool c child chain depth sp)"
  unfolding open_spool_def by (intro keeps_rules)

lemma keeps_take_body [keeps_rules]:
  "(\<And>p q d h. keeps I (child p q d h)) \<Longrightarrow> keeps I (take_body c child chain depth scr declared want opener)"
  unfolding take_body_def by (intro keeps_rules setters) simp_all

lemma keeps_take_member [keeps_rules]:
  "(\<And>p q d h. keeps I (child p q d h)) \<Longrightarrow> keeps I (take_member c child chain depth scr declared)"
  unfolding take_member_def by (intro keeps_rules)

lemma keeps_lib_entry [keeps_rules]:
  "(\<And>p q d h. keeps I (child p q d h)) \<Longrightarrow> keeps I (lib_entry c child pre depth e seen)"
  unfolding lib_entry_def Let_def by (intro keeps_rules)

lemma keeps_lib_entries [keeps_rules]:
  "(\<And>p q d h. keeps I (child p q d h)) \<Longrightarrow> keeps I (lib_entries c child pre depth seen es fin)"
proof (induction es arbitrary: seen)
  case Nil
  have "keeps I (la_stop fin)" unfolding la_stop_def by (cases fin) (auto intro!: keeps_rules)
  then show ?case by (auto intro!: keeps_rules)
next
  case (Cons e es)
  then show ?case by (auto intro!: keeps_rules)
qed

lemma keeps_read_lib [keeps_rules]:
  "(\<And>p q d h. keeps I (child p q d h)) \<Longrightarrow> keeps I (read_lib c child files pre depth)"
  unfolding read_lib_def by (intro keeps_rules)

lemma keeps_read_stream [keeps_rules]:
  "(\<And>p q d h. keeps I (child p q d h)) \<Longrightarrow> keeps I (read_stream_x c child files pre depth fmt hint)"
  unfolding read_stream_x_def Let_def by (intro keeps_rules)

lemma keeps_zz_select [keeps_rules]: "keeps I (zz_select pre seen es)"
  by (induction es arbitrary: seen) (auto simp: Let_def intro!: keeps_rules split: prod.splits)

lemma keeps_zz_total [keeps_rules]: "keeps I (zz_total ps)"
  by (induction ps) (auto intro!: keeps_rules)

lemma keeps_zz_take [keeps_rules]:
  "(\<And>p q d h. keeps I (child p q d h)) \<Longrightarrow> keeps I (zz_take c child depth content outdir p)"
  unfolding zz_take_def by (intro keeps_rules)

lemma keeps_zz_extract [keeps_rules]:
  "(\<And>p q d h. keeps I (child p q d h)) \<Longrightarrow> keeps I (zz_extract_x c child files pre depth linkdir outdir picks)"
  unfolding zz_extract_x_def zz_include_def by (intro keeps_rules)

lemma keeps_zz_picked [keeps_rules]:
  "(\<And>p q d h. keeps I (child p q d h)) \<Longrightarrow> keeps I (zz_picked c child files pre depth linkdir outdir picks)"
  unfolding zz_picked_def by (intro keeps_rules)

lemma keeps_zz_listing [keeps_rules]:
  "(\<And>p q d h. keeps I (child p q d h)) \<Longrightarrow> keeps I (zz_listing c child paths pre depth hint linkdir outdir)"
  unfolding zz_listing_def zz_links_def by (intro keeps_rules)

lemma keeps_read_7zz [keeps_rules]:
  "(\<And>p q d h. keeps I (child p q d h)) \<Longrightarrow> keeps I (read_7zz_x c child paths pre depth hint)"
  unfolding read_7zz_x_def by (intro keeps_rules)

lemma keeps_local [keeps_rules]: "keeps I m \<Longrightarrow> (\<And>w. keeps I (h w)) \<Longrightarrow> keeps I (x_local m h)"
  unfolding x_local_def by (intro keeps_rules)

lemma keeps_lib_or_7zz [keeps_rules]:
  "(\<And>p q d h. keeps I (child p q d h)) \<Longrightarrow> keeps I (read_lib_or_7zz c child paths pre depth hint fmt)"
  unfolding read_lib_or_7zz_def by (intro keeps_rules)

lemma keeps_open_with:
  "(\<And>p q d h. keeps I (child p q d h)) \<Longrightarrow> keeps I (x_open_with c child paths pre depth hint)"
  unfolding x_open_with_def sniff_x_def Let_def by (intro keeps_rules)

lemma keeps_level [keeps_rules]: "keeps I (x_level c n paths pre depth hint)"
  by (induction n arbitrary: paths pre depth hint) (auto intro!: keeps_raise_x keeps_open_with)

lemma keeps_pass [keeps_rules]: "keeps I (x_pass c volumes)"
  unfolding x_pass_def by (intro keeps_rules) simp_all

lemma keeps_body: "keeps I (x_body c volumes)"
  unfolding x_body_def by (intro keeps_rules)

end

subsection \<open>The bookkeeping of wants\<close>

text \<open>Every want is pending or has an outcome, nothing else has one, and \<open>remaining\<close> counts the pending members below a
  chain.\<close>

definition book_ok :: "(chain, want) dict \<Rightarrow> ext \<Rightarrow> bool" where
  "book_ok wants s \<longleftrightarrow> distinct (map fst (x_pending s)) \<and> set (x_pending s) \<subseteq> set wants \<and>
     (\<forall>cw \<in> set wants. cw \<in> set (x_pending s) \<or> wt_sha (snd cw) \<in> dom (map_of (x_outcomes s))) \<and>
     dom (map_of (x_outcomes s)) \<subseteq> (wt_sha \<circ> snd) ` set wants \<and>
     (\<forall>pre. dict_get (x_remaining s) pre 0 = int (length (filter (strict_prefix pre) (map fst (x_pending s)))))"

lemma set_starts: "set (starts chain) = {pre. strict_prefix pre chain}"
proof -
  have "strict_prefix pre chain \<longleftrightarrow> (\<exists>i < length chain. pre = take i chain)" for pre
    by (metis append_eq_conv_conj append_take_drop_id less_le_not_le linorder_not_less prefix_def prefix_length_le prefix_order.less_le
        strict_prefix_def take_all_iff take_is_prefix length_take min.absorb4 prefix_length_less)
  then show ?thesis by (auto simp: starts_def)
qed

lemma distinct_starts: "distinct (starts chain)"
  by (auto simp: starts_def distinct_map inj_on_def) (metis length_take less_imp_le_nat min.absorb2)

lemma fold_counter: "distinct ps \<Longrightarrow> dict_get (fold (counter_add n) ps d) pre 0 = dict_get d pre 0 + (if pre \<in> set ps then n else 0)"
proof (induction ps arbitrary: d)
  case (Cons p ps)
  have "dict_get (counter_add n p d) pre 0 = dict_get d pre 0 + (if pre = p then n else 0)"
    by (simp add: counter_add_def dict_get_def)
  then show ?case using Cons by auto
qed simp

lemma delete_pending:
  assumes "distinct (map fst d)" and "map_of d chain = Some w"
  shows "length (filter P (map fst d)) = (if P chain then 1 else 0) + length (filter P (map fst (AList.delete chain d)))"
    and "set d = insert (chain, w) (set (AList.delete chain d))"
proof -
  obtain xs ys where d: "d = xs @ (chain, w) # ys" using map_of_SomeD [OF assms(2)] split_list by metis
  have f: "chain \<notin> fst ` set xs" "chain \<notin> fst ` set ys" using assms(1) by (auto simp: d)
  have "AList.delete chain d = AList.delete chain xs @ AList.delete chain ys" by (simp add: d AList.delete_eq)
  also have "\<dots> = xs @ ys" using f by (simp add: delete_id)
  finally have e: "AList.delete chain d = xs @ ys" .
  show "length (filter P (map fst d)) = (if P chain then 1 else 0) + length (filter P (map fst (AList.delete chain d)))"
    and "set d = insert (chain, w) (set (AList.delete chain d))" unfolding e by (simp_all add: d)
qed

lemma book_resolve:
  assumes "book_ok wants s"
  shows "book_ok wants (resolve chain out s)"
proof (cases "map_of (x_pending s) chain")
  case None
  then show ?thesis using assms by (simp add: resolve_def)
next
  case (Some w)
  let ?d = "AList.delete chain (x_pending s)" and ?t = "resolve chain out s"
  have dist: "distinct (map fst (x_pending s))" using assms by (simp add: book_ok_def)
  note del = delete_pending [OF dist Some]
  have p: "x_pending ?t = ?d" and r: "x_remaining ?t = fold (counter_add (-1)) (starts chain) (x_remaining s)"
    and o: "dom (map_of (x_outcomes ?t)) = insert (wt_sha w) (dom (map_of (x_outcomes s)))"
    using Some by (auto simp: resolve_def Let_def split: option.splits)
  have w: "(chain, w) \<in> set wants" using map_of_SomeD [OF Some] assms unfolding book_ok_def by blast
  have cnt: "dict_get (x_remaining ?t) pre 0 = int (length (filter (strict_prefix pre) (map fst ?d)))" for pre
    using assms del(1) [of "strict_prefix pre"] by (simp add: book_ok_def r fold_counter [OF distinct_starts] set_starts)
  have cov: "cw \<in> set ?d \<or> wt_sha (snd cw) \<in> dom (map_of (x_outcomes ?t))" if "cw \<in> set wants" for cw
  proof -
    have "cw \<in> set (x_pending s) \<or> wt_sha (snd cw) \<in> dom (map_of (x_outcomes s))" using that assms unfolding book_ok_def by blast
    then have "cw = (chain, w) \<or> cw \<in> set ?d \<or> wt_sha (snd cw) \<in> dom (map_of (x_outcomes s))" unfolding del(2) by blast
    then show ?thesis unfolding o by (elim disjE) simp_all
  qed
  have sub: "dom (map_of (x_outcomes ?t)) \<subseteq> (wt_sha \<circ> snd) ` set wants"
  proof -
    have "wt_sha w \<in> (wt_sha \<circ> snd) ` set wants" using imageI [OF w, of "wt_sha \<circ> snd"] by simp
    moreover have "dom (map_of (x_outcomes s)) \<subseteq> (wt_sha \<circ> snd) ` set wants" using assms unfolding book_ok_def by blast
    ultimately show ?thesis unfolding o by blast
  qed
  have "set ?d \<subseteq> set wants" using assms unfolding book_ok_def del(2) by blast
  then show ?thesis unfolding book_ok_def p using dist cov sub cnt by simp
qed

lemma book_init:
  assumes "distinct (map fst wants)"
  shows "book_ok wants (ext_init c f wants nested n)"
proof -
  have "dict_get (fold (counter_add 1) (concat (map starts cs)) d) pre 0 = dict_get d pre 0 + int (length (filter (strict_prefix pre) cs))" for cs d and pre :: chain
    by (induction cs arbitrary: d) (auto simp: fold_counter [OF distinct_starts] set_starts)
  then have "dict_get (count_starts (map fst wants)) pre 0 = int (length (filter (strict_prefix pre) (map fst wants)))" for pre
    by (simp add: count_starts_def dict_get_def [of "[]"] del: map_map)
  then show ?thesis using assms by (simp add: book_ok_def ext_init_def)
qed

lemma book_fail_all:
  assumes "book_ok wants s"
  shows "x_pending (fail_under [] why s) = []"
proof -
  have *: "map_of (x_pending (fold (\<lambda>chain. resolve chain out) cs t)) k = (if k \<in> set cs then None else map_of (x_pending t) k)" for cs t out k
    by (induction cs arbitrary: t) (auto simp: resolve_def Let_def split: option.splits)
  have "map_of (x_pending (fail_under [] why s)) k = None" for k
    unfolding fail_under_def * by (auto simp: dict_keys_def map_of_eq_None_iff)
  then show ?thesis by (metis list.set_intros(1) map_of_eq_None_iff image_eqI neq_Nil_conv empty_iff equals0I)
qed

subsection \<open>Runs\<close>


lemma book_frame: "book_ok wants s \<Longrightarrow> x_pending t = x_pending s \<Longrightarrow> x_remaining t = x_remaining s \<Longrightarrow> x_outcomes t = x_outcomes s \<Longrightarrow> book_ok wants t"
  unfolding book_ok_def by simp

interpretation book: extractor_invariant c "book_ok wants" for c wants
  by unfold_locales (auto intro: book_resolve elim: book_frame)


lemma body_pending:
  assumes "book_ok wants s" and "x_body c volumes s = (Inr u, t)"
  shows "book_ok wants t" and "x_pending t = []"
proof -
  show "book_ok wants t" using keepsD [OF book.keeps_body assms] .
  obtain v r where r: "x_pass c volumes s = (Inr v, r)" "x_fail [] ''not_found'' r = (Inr u, t)"
    using assms(2) by (auto simp: x_body_def act_seq_Inr)
  have "book_ok wants r" using keepsD [OF book.keeps_pass assms(1) r(1)] .
  then show "x_pending t = []" using r(2) book_fail_all by (auto simp: x_fail_def act_run)
qed

lemma run_Inr:
  assumes "extract_run c volumes wants nested s = (Inr outs, t)"
  obtains u r n where "x_body c volumes (ext_init c s wants nested n) = (Inr u, r)" and "outs = x_outcomes r" and "t = x_fs r"
  using assms that unfolding extract_run_def by (force split: if_splits prod.splits sum.splits)


lemma run_answers:
  assumes "distinct (map fst wants)" and "extract_run c volumes wants nested s = (Inr outs, t)"
  shows "dom (map_of outs) = (wt_sha \<circ> snd) ` set wants"
proof -
  obtain u r n where r: "x_body c volumes (ext_init c s wants nested n) = (Inr u, r)" "outs = x_outcomes r"
    using run_Inr [OF assms(2)] by metis
  note b = body_pending [OF book_init [OF assms(1)] r(1)]
  show ?thesis using b unfolding r(2) book_ok_def by fastforce
qed

text \<open>
  C37. An extraction run that returns has an outcome for every wanted blob and for no other.
\<close>

theorem extract_answers_wants:
  assumes "distinct (map fst wants)" and "extract_run c volumes wants nested s = (Inr outs, t)"
  shows "dom (map_of outs) = {wt_sha w | w. w \<in> snd ` set wants}"
  using run_answers [OF assms] by auto



end
