(* ===== verification/MatExtractDemo.thy ===== *)
theory MatExtractDemo
  imports MatExtractProps
begin

text \<open>Runs of the extractor on one source file, for the witnesses.\<close>

definition run_os :: "string \<Rightarrow> os" where
  "run_os shard = \<lparr>os_real = \<lambda>s p. if p = shard then ''/src/x'' else if canonical p then p else ''/'', os_fail = \<lambda>_ _. None, os_removed = \<lambda>_. {}, os_empty = \<lambda>_ _. True, os_list = \<lambda>_ _. Inr [],
     os_token = \<lambda>_ i. nat_str i, os_dev = \<lambda>_ _. 0, os_readonly = \<lambda>_. False, os_writable = \<lambda>_. False, os_mounts = None\<rparr>"

definition run_sha :: string where
  "run_sha = replicate 64 (CHR ''a'')"

definition run_env :: env where
  "run_env = \<lparr>e_caps = default_caps, e_clock = \<lambda>_. 0, e_sha = \<lambda>_. run_sha, e_crc = \<lambda>_. 0, e_decode = id,
     e_libarchive = \<lambda>_. La_Script [\<lparr>le_name = ''a.stl'', le_filetype = AE_IFREG, le_size = Some 5, le_symlink = False, le_hardlink = False,
       le_encrypted = False, le_format = None, le_pos = 0, le_blocks = [(''solid'', 5)], le_end = Read_Eof\<rparr>] Read_Eof,
     e_peek = \<lambda>_ _ _. None, e_stream = \<lambda>_ _. ([(''solid'', 5)], True), e_sevenzip = False,
     e_zz_list = \<lambda>_ _. Zz_Timeout, e_zz_extract = \<lambda>_ _ _. (Zz_Timeout, (\<lambda>_. X_Absent))\<rparr>"

definition run_cfg :: "string \<Rightarrow> xcfg" where
  "run_cfg shard = \<lparr>xc_env = run_env, xc_os = run_os shard, xc_guard = \<lparr>g_v2 = ''/v2'', g_source = ''/src'', g_scratch = Some ''/tmp''\<rparr>,
     xc_scratch = ''/tmp'', xc_tag = ''u1''\<rparr>"

definition run_fs :: "string \<Rightarrow> fs" where
  "run_fs head = \<lparr>fs_names = [''/'' \<mapsto> N_Dir, ''/v2'' \<mapsto> N_Dir, ''/src'' \<mapsto> N_Dir, ''/src/x'' \<mapsto> N_Dir, ''/tmp'' \<mapsto> N_Dir, ''/src/a.stl.gz'' \<mapsto> N_File 0],
     fs_data = \<lambda>_. head, fs_next = 1, fs_fds = {}, fs_writes = 0\<rparr>"


declare missing_dirs.simps [code]

definition run_wants :: "(chain, want) dict" where
  "run_wants = [([''a.stl''], \<lparr>wt_sha = run_sha, wt_size = 5\<rparr>)]"

lemma run_ok: "fst (extract_run (run_cfg []) [''/src/a.stl.gz''] run_wants [] (run_fs ''PK'')) = Inr [(run_sha, out_done ''extracted'')]"
  by code_simp

theorem extract_answers_wants_witness:
  "\<exists>outs t. extract_run (run_cfg []) [''/src/a.stl.gz''] run_wants [] (run_fs ''PK'') = (Inr outs, t) \<and>
    outs = [(run_sha, out_done ''extracted'')] \<and> dom (map_of outs) = {run_sha}"
proof -
  obtain t where t: "extract_run (run_cfg []) [''/src/a.stl.gz''] run_wants [] (run_fs ''PK'') = (Inr [(run_sha, out_done ''extracted'')], t)"
    using run_ok by (cases "extract_run (run_cfg []) [''/src/a.stl.gz''] run_wants [] (run_fs ''PK'')") auto
  have "distinct (map fst run_wants)" by (simp add: run_wants_def)
  from extract_answers_wants [OF this t] show ?thesis using t by (auto simp: run_wants_def)
qed






end
