(* ===== verification/MatApply.thy ===== *)
theory MatApply
  imports MatPlan MatExtract
begin

text \<open>
  \<^verbatim>\<open>materialize/apply.py\<close>: the claim tables, what a worker does with a unit or a pack, and the commands that repair a
  plan. Every transaction is a function on \<open>mdb\<close>; \<open>locked\<close> are the rows other transactions hold (\<open>SKIP LOCKED\<close>), \<open>now\<close> is
  the database's clock. \<open>ac_mtime\<close> is a file's modification time in microseconds, \<open>ac_text\<close> the text reported for
  an exception.
\<close>

subsection \<open>Claims\<close>

record scope =
  sc_packs :: "int list option"
  sc_units :: "nat list option"

definition in_scope :: "'k list option \<Rightarrow> 'k \<Rightarrow> bool" where
  "in_scope sc k \<longleftrightarrow> (case sc of None \<Rightarrow> True | Some ks \<Rightarrow> k \<in> set ks)"

definition job_claim :: "string \<Rightarrow> int \<Rightarrow> job \<Rightarrow> job" where
  "job_claim w now j = j\<lparr>jb_status := Job_Claimed, jb_by := Some w, jb_at := Some now, jb_attempts := jb_attempts j + 1, jb_error := None\<rparr>"

definition job_stale :: "int \<Rightarrow> int \<Rightarrow> job \<Rightarrow> bool" where
  "job_stale now stale j \<longleftrightarrow> jb_status j = Job_Claimed \<and> (case jb_at j of None \<Rightarrow> False | Some t \<Rightarrow> t < now - stale)"

definition job_release :: "int \<Rightarrow> string option \<Rightarrow> job \<Rightarrow> job" where
  "job_release max_attempts e j = j\<lparr>jb_status := (if max_attempts \<le> jb_attempts j then Job_Failed else Job_Pending), jb_error := e, jb_by := None, jb_at := None\<rparr>"

definition EXHAUSTED :: string where
  "EXHAUSTED = ''attempts_exhausted (worker died or stalled)''"

definition job_reap :: "int \<Rightarrow> job \<Rightarrow> job" where
  "job_reap max_attempts j = job_release max_attempts (if max_attempts \<le> jb_attempts j then Some EXHAUSTED else jb_error j) j"

definition job_owned :: "string \<Rightarrow> int \<Rightarrow> job \<Rightarrow> bool" where
  "job_owned w a j \<longleftrightarrow> jb_by j = Some w \<and> jb_attempts j = a \<and> jb_status j = Job_Claimed"

definition update_units :: "(mat_unit \<Rightarrow> bool) \<Rightarrow> (job \<Rightarrow> job) \<Rightarrow> mdb \<Rightarrow> mdb" where
  "update_units P f m = m\<lparr>m_units := map (\<lambda>u. if P u then u\<lparr>mu_job := f (mu_job u)\<rparr> else u) (m_units m)\<rparr>"

definition update_packs :: "(mat_pack \<Rightarrow> bool) \<Rightarrow> (job \<Rightarrow> job) \<Rightarrow> mdb \<Rightarrow> mdb" where
  "update_packs P f m = m\<lparr>m_packs := map (\<lambda>k. if P k then k\<lparr>mk_job := f (mk_job k)\<rparr> else k) (m_packs m)\<rparr>"

definition update_blobs :: "(mat_blob \<Rightarrow> bool) \<Rightarrow> (mat_blob \<Rightarrow> mat_blob) \<Rightarrow> mdb \<Rightarrow> mdb" where
  "update_blobs P f m = m\<lparr>m_blobs := map (\<lambda>b. if P b then f b else b) (m_blobs m)\<rparr>"

definition fail_blob :: "string \<Rightarrow> mat_blob \<Rightarrow> mat_blob" where
  "fail_blob e b = b\<lparr>mb_state := B_Failed, mb_error := Some e\<rparr>"

text \<open>The pending blobs of units that have just failed fail with them.\<close>

definition fail_unit_blobs :: "nat list \<Rightarrow> string \<Rightarrow> mdb \<Rightarrow> mdb" where
  "fail_unit_blobs us e = update_blobs (\<lambda>b. (case mb_unit b of None \<Rightarrow> False | Some u \<Rightarrow> u \<in> set us) \<and> mb_state b = B_Pending) (fail_blob e)"

definition reap :: "nat \<Rightarrow> int \<Rightarrow> int \<Rightarrow> int \<Rightarrow> mdb \<Rightarrow> mdb" where
  "reap p now stale max_attempts m =
     (let failed = map mu_id (filter (\<lambda>u. mu_plan u = p \<and> job_stale now stale (mu_job u) \<and> max_attempts \<le> jb_attempts (mu_job u)) (m_units m)) in
      update_packs (\<lambda>k. mk_plan k = p \<and> job_stale now stale (mk_job k)) (job_reap max_attempts)
        (fail_unit_blobs failed ''unit attempts exhausted''
          (update_units (\<lambda>u. mu_plan u = p \<and> job_stale now stale (mu_job u)) (job_reap max_attempts) m)))"

text \<open>\<open>ORDER BY (kind = 'archive'), id LIMIT 1 FOR UPDATE SKIP LOCKED\<close>.\<close>

definition claim_unit :: "nat \<Rightarrow> string \<Rightarrow> int \<Rightarrow> nat set \<Rightarrow> scope \<Rightarrow> mdb \<Rightarrow> mat_unit option \<times> mdb" where
  "claim_unit p w now locked sc m =
     (case sort_key (\<lambda>u. (mu_root u \<noteq> None, mu_id u))
        (filter (\<lambda>u. mu_plan u = p \<and> jb_status (mu_job u) = Job_Pending \<and> in_scope (sc_units sc) (mu_id u) \<and> mu_id u \<notin> locked) (m_units m)) of
       [] \<Rightarrow> (None, m)
     | u # _ \<Rightarrow> (Some (u\<lparr>mu_job := job_claim w now (mu_job u)\<rparr>), update_units (\<lambda>v. mu_id v = mu_id u) (job_claim w now) m))"

text \<open>The files of a pack with the rows of their blobs, \<open>ORDER BY rel_path\<close>.\<close>

definition pack_files :: "nat \<Rightarrow> int \<Rightarrow> mdb \<Rightarrow> (planned_file \<times> mat_blob) list" where
  "pack_files p pid m = sort_key (\<lambda>(f, _). pf_rel f)
     (concat (map (\<lambda>f. map (\<lambda>b. (mf_file f, b)) (filter (\<lambda>b. mb_plan b = mf_plan f \<and> mb_sha b = pf_sha (mf_file f)) (m_blobs m)))
       (filter (\<lambda>f. mf_plan f = p \<and> mf_pack f = pid) (m_files m))))"

definition pack_waits :: "nat \<Rightarrow> mdb \<Rightarrow> mat_pack \<Rightarrow> bool" where
  "pack_waits p m k \<longleftrightarrow> (\<exists>(_, b) \<in> set (pack_files p (mk_pack k) m). mb_state b = B_Pending)"

definition claim_pack :: "nat \<Rightarrow> string \<Rightarrow> int \<Rightarrow> int set \<Rightarrow> scope \<Rightarrow> mdb \<Rightarrow> mat_pack option \<times> mdb" where
  "claim_pack p w now locked sc m =
     (case sort_key mk_pack
        (filter (\<lambda>k. mk_plan k = p \<and> jb_status (mk_job k) = Job_Pending \<and> in_scope (sc_packs sc) (mk_pack k) \<and> mk_pack k \<notin> locked \<and>
           \<not> pack_waits p m k) (m_packs m)) of
       [] \<Rightarrow> (None, m)
     | k # _ \<Rightarrow> (Some (k\<lparr>mk_job := job_claim w now (mk_job k)\<rparr>),
         update_packs (\<lambda>l. mk_plan l = p \<and> mk_pack l = mk_pack k) (job_claim w now) m))"

definition active_job :: "job \<Rightarrow> bool" where
  "active_job j \<longleftrightarrow> jb_status j \<in> {Job_Pending, Job_Claimed}"

definition remaining :: "nat \<Rightarrow> scope \<Rightarrow> mdb \<Rightarrow> nat \<times> nat" where
  "remaining p sc m =
     (length (filter (\<lambda>u. mu_plan u = p \<and> active_job (mu_job u) \<and> in_scope (sc_units sc) (mu_id u)) (m_units m)),
      length (filter (\<lambda>k. mk_plan k = p \<and> active_job (mk_job k) \<and> in_scope (sc_packs sc) (mk_pack k)) (m_packs m)))"

definition heartbeat :: "nat \<Rightarrow> string \<Rightarrow> int \<Rightarrow> mdb \<Rightarrow> mdb" where
  "heartbeat p w now m = (let mine = \<lambda>j. jb_status j = Job_Claimed \<and> jb_by j = Some w; beat = \<lambda>j. j\<lparr>jb_at := Some now\<rparr> in
     update_packs (\<lambda>k. mk_plan k = p \<and> mine (mk_job k)) beat (update_units (\<lambda>u. mu_plan u = p \<and> mine (mu_job u)) beat m))"

text \<open>One round of \<open>Worker.run\<close> after the reaping: a unit, else a pack, else the end or a pause.\<close>

datatype work = Do_Unit mat_unit | Do_Pack mat_pack | Stop_Work | Pause

definition next_work :: "nat \<Rightarrow> string \<Rightarrow> int \<Rightarrow> nat set \<Rightarrow> int set \<Rightarrow> scope \<Rightarrow> mdb \<Rightarrow> work \<times> mdb" where
  "next_work p w now ulocked klocked sc m = (case claim_unit p w now ulocked sc m of
     (Some u, m) \<Rightarrow> (Do_Unit u, m)
   | (None, m) \<Rightarrow> (case claim_pack p w now klocked sc m of
       (Some k, m) \<Rightarrow> (Do_Pack k, m)
     | (None, m) \<Rightarrow> (if remaining p sc m = (0, 0) then Stop_Work else Pause, m)))"

subsection \<open>Units\<close>

record acfg =
  ac_x :: xcfg
  ac_source_root :: string
  ac_allow_copy :: bool
  ac_verify_loose :: bool
  ac_verify_existing :: bool
  ac_max_attempts :: int
  ac_mtime :: "fs \<Rightarrow> nat \<Rightarrow> int"
  ac_text :: "gexn \<Rightarrow> string"

type_synonym blob_result = "blob_state \<times> string option \<times> string option"

definition path_or :: "blob_source \<Rightarrow> bool \<times> string" where
  "path_or s = (case s of Src_Loose p _ _ \<Rightarrow> (False, p) | _ \<Rightarrow> (True, []))"

text \<open>\<open>ORDER BY source_path NULLS LAST, sha256\<close>.\<close>

definition unit_blobs :: "nat \<Rightarrow> nat \<Rightarrow> mdb \<Rightarrow> mat_blob list" where
  "unit_blobs p uid m = sort_key (\<lambda>b. (path_or (mb_source b), mb_sha b))
     (filter (\<lambda>b. mb_plan b = p \<and> mb_unit b = Some uid \<and> mb_state b \<noteq> B_Done) (m_blobs m))"

definition source_unchanged :: "acfg \<Rightarrow> string \<Rightarrow> int \<Rightarrow> int \<Rightarrow> fs \<Rightarrow> string option" where
  "source_unchanged c p sz mtime s = (case lstat (xc_os (ac_x c)) s p of
     None \<Rightarrow> Some ''source_missing''
   | Some (N_File i) \<Rightarrow> if int (length (fs_data s i)) \<noteq> sz then Some ''source_changed: size''
       else if ac_mtime c s i \<noteq> mtime then Some ''source_changed: mtime'' else None
   | Some _ \<Rightarrow> Some ''source_not_regular'')"

definition safe_source :: "acfg \<Rightarrow> string \<Rightarrow> string fs_act" where
  "safe_source c rel = (if is_v2_relative_safe rel then act_ret (posix_join (ac_source_root c) rel) else act_raise GuardError)"

definition link_loose :: "acfg \<Rightarrow> string \<Rightarrow> string \<Rightarrow> string \<Rightarrow> int \<Rightarrow> blob_result fs_act" where
  "link_loose c tag src sha sz =
     (let os = xc_os (ac_x c); g = xc_guard (ac_x c); digest = e_sha (xc_env (ac_x c)) in
      act_bind (link_from_source digest os g (ac_allow_copy c) src sha sz tag) (\<lambda>how.
      if \<not> ac_verify_loose c then act_ret (B_Done, Some how, None)
      else act_bind (blob_path g sha) (\<lambda>p. act_bind (hash_path digest os p) (\<lambda>(got, n).
        act_ret (if got \<noteq> sha \<or> n \<noteq> sz then (B_Failed, Some how, Some (''sha_mismatch: got '' @ got)) else (B_Done, Some how, None))))))"

definition loose_blob :: "acfg \<Rightarrow> string \<Rightarrow> mat_blob \<Rightarrow> blob_result fs_act" where
  "loose_blob c tag b = (case mb_source b of
     Src_Loose path sz mtime \<Rightarrow>
       act_bind (safe_source c path) (\<lambda>src.
       act_bind (act_get (source_unchanged c src sz mtime)) (\<lambda>why. case why of
         Some w \<Rightarrow> act_ret (B_Failed, None, Some w)
       | None \<Rightarrow> act_catch (link_loose c tag src (mb_sha b) (mb_size b))
           (\<lambda>e. if e \<in> {CopyDisabled, StoreCorrupt} then act_ret (B_Failed, None, Some (take 500 (ac_text c e)))
             else if e = OSErr ENOENT then act_ret (B_Failed, None, Some (take 500 (''source_missing: '' @ ac_text c e)))
             else act_raise e)))
   | _ \<Rightarrow> act_raise GuardError)"

fun loose_results :: "acfg \<Rightarrow> string \<Rightarrow> mat_blob list \<Rightarrow> (string, blob_result) dict \<Rightarrow> (string, blob_result) dict fs_act" where
  "loose_results c tag [] acc = act_ret acc"
| "loose_results c tag (b # bs) acc = act_bind (loose_blob c tag b) (\<lambda>r. loose_results c tag bs (AList.update (mb_sha b) r acc))"

text \<open>The volumes of a root container in order, and the catalog's digests of the archives nested in it.\<close>

definition volumes_of :: "cat \<Rightarrow> nat \<Rightarrow> srow list" where
  "volumes_of d cid = concat (map (\<lambda>i. case sfiles d i of None \<Rightarrow> [] | Some sf \<Rightarrow> [sf]) (files_of d cid))"

definition nested_shas :: "cat \<Rightarrow> nat \<Rightarrow> (chain, string) dict" where
  "nested_shas d cid = concat (map (\<lambda>i. case rows d i of None \<Rightarrow> [] | Some r \<Rightarrow>
     (case (ct_chain r, ct_blob r) of (Some ch, Some sha) \<Rightarrow> [(ch, sha)] | _ \<Rightarrow> [])) (subtree_levels (next_row d) d [cid]))"

fun volume_paths :: "acfg \<Rightarrow> srow list \<Rightarrow> (string + string list) fs_act" where
  "volume_paths c [] = act_ret (Inr [])"
| "volume_paths c (v # vs) = act_bind (safe_source c (sf_path v)) (\<lambda>p.
     act_bind (act_get (\<lambda>s. if sf_present v then source_unchanged c p (sf_size v) (sf_mtime v) s else Some ''source_missing'')) (\<lambda>why. case why of
       Some w \<Rightarrow> act_ret (Inl (w @ '': '' @ sf_path v))
     | None \<Rightarrow> act_bind (volume_paths c vs) (\<lambda>r. act_ret (map_sum id (\<lambda>ps. p # ps) r))))"

definition all_failed :: "string \<Rightarrow> mat_blob list \<Rightarrow> (string, blob_result) dict" where
  "all_failed why bs = fold (\<lambda>b. AList.update (mb_sha b) (B_Failed, None, Some why)) bs []"

definition source_chain :: "mat_blob \<Rightarrow> chain" where
  "source_chain b = (case mb_source b of Src_Archive _ ch _ _ \<Rightarrow> ch | _ \<Rightarrow> [])"

text \<open>Blobs the store already has are done; the others are wanted.\<close>

fun split_wants :: "acfg \<Rightarrow> mat_blob list \<Rightarrow> (string, blob_result) dict \<Rightarrow> (chain, want) dict \<Rightarrow>
    ((string, blob_result) dict \<times> (chain, want) dict) fs_act" where
  "split_wants c [] done wants = act_ret (done, wants)"
| "split_wants c (b # bs) done wants =
     act_bind (has (xc_os (ac_x c)) (xc_guard (ac_x c)) (mb_sha b) (mb_size b)) (\<lambda>there.
     if there then split_wants c bs (AList.update (mb_sha b) (B_Done, Some ''existing'', None) done) wants
     else split_wants c bs done (AList.update (source_chain b) \<lparr>wt_sha = mb_sha b, wt_size = mb_size b\<rparr> wants))"

definition of_outcome :: "outcome \<Rightarrow> blob_result" where
  "of_outcome o' = (if xo_done o' then B_Done else B_Failed, xo_method o', xo_error o')"

type_synonym 'a wact = "(fs, xexn, 'a) act"

definition guarded_act :: "'a fs_act \<Rightarrow> 'a wact" where
  "guarded_act m = (\<lambda>s. case m s of (Inl e, t) \<Rightarrow> (Inl (X_Guard e), t) | (Inr v, t) \<Rightarrow> (Inr v, t))"

definition archive_results :: "acfg \<Rightarrow> cat \<Rightarrow> nat \<Rightarrow> mat_blob list \<Rightarrow> string \<Rightarrow> (string, blob_result) dict wact" where
  "archive_results c d root_id bs tag =
     act_bind (guarded_act (volume_paths c (volumes_of d root_id))) (\<lambda>vols. case vols of
       Inl why \<Rightarrow> act_ret (all_failed why bs)
     | Inr paths \<Rightarrow>
         if paths = [] then act_ret (all_failed ''container has no source files'' bs)
         else act_bind (guarded_act (split_wants c bs [] [])) (\<lambda>(done, wants).
           if wants = [] then act_ret done
           else act_bind (extract_run ((ac_x c)\<lparr>xc_tag := tag\<rparr>) paths wants (nested_shas d root_id)) (\<lambda>outs.
             act_ret (fold (\<lambda>(sha, o'). AList.update sha (of_outcome o')) outs done))))"

definition unit_tag :: "nat \<Rightarrow> string" where
  "unit_tag uid = CHR ''u'' # nat_str uid"

definition unit_results :: "acfg \<Rightarrow> cat \<Rightarrow> mat_unit \<Rightarrow> mat_blob list \<Rightarrow> (string, blob_result) dict wact" where
  "unit_results c d u bs =
     (let tag = unit_tag (mu_id u) in
      act_seq (if 1 < jb_attempts (mu_job u) \<and> bs \<noteq> []
          then guarded_act (clean_temps (xc_os (ac_x c)) (xc_guard (ac_x c)) (map mb_sha bs) tag) else act_ret ())
        (case mu_root u of
           None \<Rightarrow> guarded_act (loose_results c tag bs [])
         | Some r \<Rightarrow> archive_results c d r bs tag))"

definition own_unit :: "string \<Rightarrow> nat \<Rightarrow> int \<Rightarrow> mat_unit \<Rightarrow> bool" where
  "own_unit w uid a u \<longleftrightarrow> mu_id u = uid \<and> job_owned w a (mu_job u)"

definition apply_result :: "nat \<Rightarrow> string \<times> blob_result \<Rightarrow> mdb \<Rightarrow> mdb" where
  "apply_result p r = (case r of (sha, st, how, e) \<Rightarrow>
     update_blobs (\<lambda>b. mb_plan b = p \<and> mb_sha b = sha) (\<lambda>b. b\<lparr>mb_state := st, mb_method := how, mb_error := e\<rparr>))"

definition finish_unit :: "nat \<Rightarrow> string \<Rightarrow> nat \<Rightarrow> int \<Rightarrow> (string, blob_result) dict \<Rightarrow> mdb \<Rightarrow> mdb" where
  "finish_unit p w uid a results m =
     (if \<not> (\<exists>u \<in> set (m_units m). own_unit w uid a u) then m
      else update_units (own_unit w uid a) (\<lambda>j. j\<lparr>jb_status := Job_Done, jb_error := None\<rparr>) (fold (apply_result p) results m))"

text \<open>\<open>_fail_claim\<close> on each of the two tables.\<close>

definition fail_unit :: "int \<Rightarrow> string \<Rightarrow> nat \<Rightarrow> int \<Rightarrow> string \<Rightarrow> mdb \<Rightarrow> mdb" where
  "fail_unit max_attempts w uid a e m =
     (let failed = filter (\<lambda>u. own_unit w uid a u \<and> max_attempts \<le> jb_attempts (mu_job u)) (m_units m);
          t = update_units (own_unit w uid a) (job_release max_attempts (Some (take 1000 e))) m in
      if failed = [] then t else fail_unit_blobs [uid] (take 1000 (''unit failed: '' @ e)) t)"

definition own_pack :: "nat \<Rightarrow> string \<Rightarrow> int \<Rightarrow> int \<Rightarrow> mat_pack \<Rightarrow> bool" where
  "own_pack p w pid a k \<longleftrightarrow> mk_plan k = p \<and> mk_pack k = pid \<and> job_owned w a (mk_job k)"

definition fail_pack :: "nat \<Rightarrow> int \<Rightarrow> string \<Rightarrow> int \<Rightarrow> int \<Rightarrow> string \<Rightarrow> mdb \<Rightarrow> mdb" where
  "fail_pack p max_attempts w pid a e = update_packs (own_pack p w pid a) (job_release max_attempts (Some (take 1000 e)))"

end
