(* ===== verification/MatPublish.thy ===== *)
theory MatPublish
  imports MatApply
begin

text \<open>
  \<^verbatim>\<open>materialize/apply.py\<close>, the rest: publishing a pack with its \<^verbatim>\<open>datapackage.json\<close>, the commands that repair a plan, and the
  scope of a run. \<open>pc_render\<close> is the JSON text of a data package, \<open>pc_same\<close> whether a file's content is one that differs in
  \<^verbatim>\<open>materialized_at\<close> only.
\<close>

subsection \<open>The data package\<close>

record resource =
  rs_path :: string
  rs_bytes :: int
  rs_hash :: string
  rs_kind :: kind
  rs_container :: nat
  rs_anchor :: string
  rs_chain :: "string list"
  rs_from :: blob_source

record datapackage =
  dp_name :: string
  dp_title :: string
  dp_category :: string
  dp_creator :: "string option"
  dp_source :: "string option"
  dp_keywords :: "string list"
  dp_resources :: "resource list"
  dp_pack :: int
  dp_plan :: nat
  dp_needs_review :: bool
  dp_classified :: bool
  dp_status :: pack_status
  dp_containers :: "container_meta list"
  dp_units :: "(int \<times> string \<times> string \<times> role) list"
  dp_shas :: "string list"
  dp_missing :: "(string \<times> string \<times> string option) list"

definition is_alnum :: "char \<Rightarrow> bool" where
  "is_alnum c \<longleftrightarrow> is_letter c \<or> is_digit c \<or> of_char c \<in> set ([170, 178, 179, 181, 185, 186, 188, 189, 190] @ [192..<215] @ [216..<247] @ [248..<256] :: nat list)"

definition strip_chars :: "char list \<Rightarrow> string \<Rightarrow> string" where
  "strip_chars cs s = rev (dropWhile (\<lambda>c. c \<in> set cs) (rev (dropWhile (\<lambda>c. c \<in> set cs) s)))"

definition slug :: "string \<Rightarrow> string" where
  "slug name = strip_chars ''-.'' (map (\<lambda>c. if is_alnum c \<or> c \<in> set ''-._'' then c else CHR ''-'') (str_lower name))"

definition pack_ref :: "int \<Rightarrow> string" where
  "pack_ref pid = ''pack-'' @ nat_str (nat pid)"

definition resource_of :: "planned_file \<times> mat_blob \<Rightarrow> resource" where
  "resource_of fb = (case fb of (f, b) \<Rightarrow> \<lparr>rs_path = pf_rel f, rs_bytes = pf_size f, rs_hash = ''sha256:'' @ pf_sha f, rs_kind = pf_kind f,
     rs_container = pf_container f, rs_anchor = pf_anchor f, rs_chain = pf_chain f, rs_from = mb_source b\<rparr>)"

definition missing_of :: "(planned_file \<times> mat_blob) list \<Rightarrow> (string \<times> string \<times> string option) list" where
  "missing_of fs = map (\<lambda>(f, b). (pf_rel f, pf_sha f, mb_error b)) (filter (\<lambda>(_, b). mb_state b \<noteq> B_Done) fs)"

definition datapackage_of :: "nat \<Rightarrow> mat_pack \<Rightarrow> (planned_file \<times> mat_blob) list \<Rightarrow> datapackage" where
  "datapackage_of plan k fs =
     (let pk = mk_planned k; row = pl_row pk;
          title = str_strip (case pl_name pk of Some n \<Rightarrow> if n \<noteq> [] then n else pack_ref (mk_pack k) | None \<Rightarrow> pack_ref (mk_pack k)) in
      \<lparr>dp_name = (if slug title \<noteq> [] then slug title else pack_ref (mk_pack k)), dp_title = title, dp_category = pl_category pk,
       dp_creator = pp_creator row, dp_source = pp_source_tag row,
       dp_keywords = pack_keywords (Some (pl_category pk)) (pp_source_tag row) (pp_creator row) (Some (pp_tags row)) (pp_tagged row),
       dp_resources = map resource_of (filter (\<lambda>(_, b). mb_state b = B_Done) fs),
       dp_pack = mk_pack k, dp_plan = plan, dp_needs_review = pp_needs_review row, dp_classified = (pp_category row \<noteq> None),
       dp_status = pp_status row, dp_containers = pl_containers pk, dp_units = pl_units pk,
       dp_shas = sorted_list_of_set (set (map (\<lambda>(f, _). pf_sha f) fs)), dp_missing = missing_of fs\<rparr>)"

record pcfg =
  pc_apply :: acfg
  pc_render :: "datapackage \<Rightarrow> string"
  pc_same :: "string \<Rightarrow> datapackage \<Rightarrow> bool"

definition read_whole :: "os \<Rightarrow> string \<Rightarrow> string option fs_act" where
  "read_whole os p = act_catch (act_bind (open_read os p) (\<lambda>i. act_get (\<lambda>s. Some (fs_data s i))))
     (\<lambda>e. if e = OSErr ENOENT then act_ret None else act_raise e)"

definition write_datapackage :: "pcfg \<Rightarrow> string \<Rightarrow> datapackage \<Rightarrow> bool fs_act" where
  "write_datapackage c path dp =
     (let os = xc_os (ac_x (pc_apply c)); g = xc_guard (ac_x (pc_apply c)) in
      act_bind (read_whole os path) (\<lambda>old.
      if (case old of None \<Rightarrow> False | Some text \<Rightarrow> pc_same c text dp) then act_ret False
      else act_bind (new_temp_name os g (dir_name path) ''.forge-tmp-'' V2 0) (\<lambda>tmp.
        act_bind (tw_new os g tmp V2 True) (\<lambda>w.
        act_seq (aborting os g w (act_bind (tw_write w (pc_render c dp)) (tw_close os)))
        (act_seq (guard_rename os g tmp path V2) (act_ret True))))))"

subsection \<open>One pack\<close>

definition pack_target :: "guard \<Rightarrow> string \<Rightarrow> planned_file \<Rightarrow> string" where
  "pack_target g pdir f = posix_join (g_v2 g) (pdir @ ''/'' @ pf_rel f)"

definition check_targets :: "guard \<Rightarrow> string \<Rightarrow> (planned_file \<times> mat_blob) list \<Rightarrow> unit fs_act" where
  "check_targets g pdir fs = act_for fs (\<lambda>(f, _). act_seq (join_v2 g (pdir @ ''/'' @ pf_rel f)) (act_ret ()))"

definition count_up :: "string \<Rightarrow> (string, nat) dict \<Rightarrow> (string, nat) dict" where
  "count_up k d = AList.update k (dict_get d k 0 + 1) d"

fun place_files :: "acfg \<Rightarrow> string \<Rightarrow> (planned_file \<times> mat_blob) list \<Rightarrow> (string, nat) dict \<Rightarrow> (string, nat) dict fs_act" where
  "place_files c pdir [] counts = act_ret counts"
| "place_files c pdir ((f, b) # fs) counts =
     (if mb_state b \<noteq> B_Done then place_files c pdir fs counts
      else act_bind (place (e_sha (xc_env (ac_x c))) (xc_os (ac_x c)) (xc_guard (ac_x c)) (ac_allow_copy c) (pf_sha f) (pf_size f)
          (pack_target (xc_guard (ac_x c)) pdir f) (ac_verify_existing c))
        (\<lambda>how. place_files c pdir fs (count_up how counts)))"

definition pack_results :: "pcfg \<Rightarrow> nat \<Rightarrow> mat_pack \<Rightarrow> (planned_file \<times> mat_blob) list \<Rightarrow> (string, nat) dict fs_act" where
  "pack_results c plan k fs =
     (let a = pc_apply c; os = xc_os (ac_x a); g = xc_guard (ac_x a); pdir = mk_dir k in
      act_bind (join_v2 g pdir) (\<lambda>base.
      act_seq (check_targets g pdir fs)
     (act_seq (if 1 < jb_attempts (mk_job k)
          then act_for (sorted_list_of_set (set (map (\<lambda>(f, _). dir_name (pack_target g pdir f)) fs))) (clean_dir os g ''.forge-tmp-'') else act_ret ())
     (act_seq (mkdirs os g base V2)
     (act_bind (place_files a pdir fs []) (\<lambda>counts.
      act_bind (write_datapackage c (posix_join base DATAPACKAGE) (datapackage_of plan k fs)) (\<lambda>written.
      act_ret (AList.update ''datapackage'' (if written then 1 else 0) counts))))))))"

definition finish_pack :: "nat \<Rightarrow> string \<Rightarrow> int \<Rightarrow> int \<Rightarrow> (planned_file \<times> mat_blob) list \<Rightarrow> (string, nat) dict \<Rightarrow> mdb \<Rightarrow> mdb" where
  "finish_pack p w pid a fs counts m =
     m\<lparr>m_packs := map (\<lambda>k. if own_pack p w pid a k
         then k\<lparr>mk_missing := int (length (missing_of fs)), mk_counts := counts,
           mk_job := (mk_job k)\<lparr>jb_status := (if missing_of fs = [] then Job_Done else Job_Incomplete), jb_error := None\<rparr>\<rparr>
         else k) (m_packs m)\<rparr>"

subsection \<open>Commands\<close>

definition active_plan_id :: "mdb \<Rightarrow> nat py" where
  "active_plan_id m = (case rev (sort (map pr_id (filter pr_active (m_plans m)))) of [] \<Rightarrow> py_raise ConfigError | p # _ \<Rightarrow> py_ret p)"

definition packs_of_plan :: "nat \<Rightarrow> mdb \<Rightarrow> mat_pack list" where
  "packs_of_plan p m = filter (\<lambda>k. mk_plan k = p) (m_packs m)"

definition scope_units :: "nat \<Rightarrow> int list \<Rightarrow> mdb \<Rightarrow> nat list" where
  "scope_units p ids m = sorted_list_of_set (set (concat (map (\<lambda>pid. concat (map (\<lambda>(_, b). case mb_unit b of None \<Rightarrow> [] | Some u \<Rightarrow> [u]) (pack_files p pid m))) ids)))"

definition resolve_scope :: "nat \<Rightarrow> int list option \<Rightarrow> nat option \<Rightarrow> mdb \<Rightarrow> scope py" where
  "resolve_scope p pack_ids limit m =
     (case pack_ids of
        Some (i # is) \<Rightarrow>
          let ids = sort (filter (\<lambda>k. k \<in> set (i # is)) (map mk_pack (packs_of_plan p m))) in
          if length ids \<noteq> card (set (i # is)) then py_raise ConfigError
          else py_ret \<lparr>sc_packs = Some ids, sc_units = Some (scope_units p ids m)\<rparr>
      | _ \<Rightarrow> (case limit of
          None \<Rightarrow> py_ret \<lparr>sc_packs = None, sc_units = None\<rparr>
        | Some 0 \<Rightarrow> py_ret \<lparr>sc_packs = None, sc_units = None\<rparr>
        | Some n \<Rightarrow>
            let ids = take n (sort (map mk_pack (filter (\<lambda>k. jb_status (mk_job k) \<notin> {Job_Done, Job_Incomplete}) (packs_of_plan p m)))) in
            py_ret \<lparr>sc_packs = Some ids, sc_units = Some (scope_units p ids m)\<rparr>))"

definition job_again :: "job \<Rightarrow> job" where
  "job_again j = j\<lparr>jb_status := Job_Pending, jb_attempts := 0, jb_error := None\<rparr>"

definition retry_failed :: "nat \<Rightarrow> mdb \<Rightarrow> mdb" where
  "retry_failed p m =
     update_packs (\<lambda>k. mk_plan k = p \<and> jb_status (mk_job k) \<in> {Job_Failed, Job_Incomplete}) job_again
       (update_blobs (\<lambda>b. mb_plan b = p \<and> mb_state b = B_Failed) (\<lambda>b. b\<lparr>mb_state := B_Pending, mb_error := None\<rparr>)
         (update_units (\<lambda>u. mu_plan u = p \<and> jb_status (mu_job u) = Job_Failed) job_again m))"

definition resume_plan :: "nat \<Rightarrow> int \<Rightarrow> int \<Rightarrow> mdb \<Rightarrow> mdb" where
  "resume_plan p now max_attempts = reap p now 0 (max_attempts + 1)"

text \<open>\<open>main_apply\<close> up to the start of the workers: the plan and the scope they run on.\<close>

definition start_apply :: "nat option \<Rightarrow> int list option \<Rightarrow> nat option \<Rightarrow> bool \<Rightarrow> bool \<Rightarrow> int \<Rightarrow> int \<Rightarrow> mdb \<Rightarrow> (nat \<times> scope) py \<times> mdb" where
  "start_apply plan pack_ids limit resume retry now max_attempts m =
     (case (case plan of Some p \<Rightarrow> if p \<noteq> 0 then py_ret p else active_plan_id m | None \<Rightarrow> active_plan_id m) of
        Some (Inr p) \<Rightarrow>
          let m = (if resume then resume_plan p now max_attempts m else m); m = (if retry then retry_failed p m else m) in
          (py_bind (resolve_scope p pack_ids limit m) (\<lambda>sc. py_ret (p, sc)), m)
      | Some (Inl e) \<Rightarrow> (py_raise e, m)
      | None \<Rightarrow> (None, m))"

text \<open>The exit code from those of the worker processes.\<close>

definition worker_exit :: "nat \<Rightarrow> nat \<Rightarrow> nat" where
  "worker_exit guard_refusals errors = (if guard_refusals \<noteq> 0 then 3 else if errors \<noteq> 0 then 1 else 0)"

definition apply_exit :: "nat list \<Rightarrow> nat" where
  "apply_exit codes = (if 3 \<in> set codes then 3 else if \<forall>c \<in> set codes. c = 0 then 0 else 1)"

end
