(* ===== verification/MatApplyProps.thy ===== *)
theory MatApplyProps
  imports MatPublish MatExtractProps
begin

text \<open>
  Any number of workers, the reaper, heartbeats, crashes and repairs on one plan, as a transition system over its
  tables. Every transaction is one step; what a worker does to the file system between two of them, and whether it raises, is
  left open: a finish step takes any result \<open>unit_results\<close> and \<open>pack_results\<close> can return, on any file system.
\<close>

subsection \<open>The transition system\<close>

datatype activity = Idle | U_Claimed mat_unit | U_Working mat_unit "mat_blob list" | K_Claimed mat_pack | K_Working mat_pack "(planned_file \<times> mat_blob) list"

record world =
  w_db :: mdb
  w_at :: "string \<Rightarrow> activity"

definition at_work :: "work \<Rightarrow> activity" where
  "at_work x = (case x of Do_Unit u \<Rightarrow> U_Claimed u | Do_Pack k \<Rightarrow> K_Claimed k | _ \<Rightarrow> Idle)"

definition go :: "string \<Rightarrow> activity \<Rightarrow> mdb \<Rightarrow> world \<Rightarrow> world" where
  "go w x m s = s\<lparr>w_db := m, w_at := (w_at s)(w := x)\<rparr>"

inductive apply_step :: "pcfg \<Rightarrow> nat \<Rightarrow> world \<Rightarrow> world \<Rightarrow> bool" for c p where
  Reap: "apply_step c p s (s\<lparr>w_db := reap p now stale max_attempts (w_db s)\<rparr>)"
| Beat: "apply_step c p s (s\<lparr>w_db := heartbeat p w now (w_db s)\<rparr>)"
| Poll: "w_at s w = Idle \<Longrightarrow> next_work p w now ulocked klocked sc (w_db s) = (x, m) \<Longrightarrow> apply_step c p s (go w (at_work x) m s)"
| Read_Unit: "w_at s w = U_Claimed u \<Longrightarrow> apply_step c p s (go w (U_Working u (unit_blobs p (mu_id u) (w_db s))) (w_db s) s)"
| Finish_Unit: "w_at s w = U_Working u bs \<Longrightarrow> unit_results (pc_apply c) d u bs f = (Inr rs, f') \<Longrightarrow>
    apply_step c p s (go w Idle (finish_unit p w (mu_id u) (jb_attempts (mu_job u)) rs (w_db s)) s)"
| Fail_Unit: "w_at s w = U_Claimed u \<or> w_at s w = U_Working u bs \<Longrightarrow>
    apply_step c p s (go w Idle (fail_unit max_attempts w (mu_id u) (jb_attempts (mu_job u)) e (w_db s)) s)"
| Read_Pack: "w_at s w = K_Claimed k \<Longrightarrow> apply_step c p s (go w (K_Working k (pack_files p (mk_pack k) (w_db s))) (w_db s) s)"
| Finish_Pack: "w_at s w = K_Working k fs \<Longrightarrow> pack_results c p k fs f = (Inr counts, f') \<Longrightarrow>
    apply_step c p s (go w Idle (finish_pack p w (mk_pack k) (jb_attempts (mk_job k)) fs counts (w_db s)) s)"
| Fail_Pack: "w_at s w = K_Claimed k \<or> w_at s w = K_Working k fs \<Longrightarrow>
    apply_step c p s (go w Idle (fail_pack p max_attempts w (mk_pack k) (jb_attempts (mk_job k)) e (w_db s)) s)"
| Die: "apply_step c p s (go w Idle (w_db s) s)"
| Retry: "apply_step c p s (s\<lparr>w_db := retry_failed p (w_db s)\<rparr>)"

subsection \<open>What no transaction changes\<close>

definition shape :: "mdb \<Rightarrow> (nat \<times> nat) list \<times> (nat \<times> string \<times> nat option) list \<times> (nat \<times> int) list \<times> mat_file list" where
  "shape m = (map (\<lambda>u. (mu_id u, mu_plan u)) (m_units m), map (\<lambda>b. (mb_plan b, mb_sha b, mb_unit b)) (m_blobs m),
     map (\<lambda>k. (mk_plan k, mk_pack k)) (m_packs m), m_files m)"

lemma fields_updates [simp]:
  "m_blobs (update_units P f m) = m_blobs m" "m_packs (update_units P f m) = m_packs m" "m_files (update_units P f m) = m_files m"
  "m_blobs (update_packs Q f m) = m_blobs m" "m_units (update_packs Q f m) = m_units m" "m_files (update_packs Q f m) = m_files m"
  "m_units (update_blobs R h m) = m_units m" "m_packs (update_blobs R h m) = m_packs m" "m_files (update_blobs R h m) = m_files m"
  by (simp_all add: update_units_def update_packs_def update_blobs_def)

lemma shape_units [simp]: "shape (update_units P f m) = shape m"
  by (simp add: shape_def update_units_def comp_def if_distrib cong: if_cong)

lemma shape_packs [simp]: "shape (update_packs P f m) = shape m"
  by (simp add: shape_def update_packs_def comp_def if_distrib cong: if_cong)

lemma shape_blobs: "(\<And>b. mb_plan (f b) = mb_plan b \<and> mb_sha (f b) = mb_sha b \<and> mb_unit (f b) = mb_unit b) \<Longrightarrow> shape (update_blobs P f m) = shape m"
  by (simp add: shape_def update_blobs_def comp_def if_distrib cong: if_cong)

lemma shape_fail_blobs [simp]: "shape (fail_unit_blobs us e m) = shape m"
  unfolding fail_unit_blobs_def by (rule shape_blobs) (simp add: fail_blob_def)

lemma shape_result [simp]: "shape (apply_result p r m) = shape m"
  by (cases r) (simp add: apply_result_def shape_blobs)

lemma shape_results [simp]: "shape (fold (apply_result p) rs m) = shape m"
  by (induction rs arbitrary: m) simp_all

lemma shape_reap [simp]: "shape (reap p now stale n m) = shape m"
  by (simp add: reap_def)

lemma shape_beat [simp]: "shape (heartbeat p w now m) = shape m"
  by (simp add: heartbeat_def Let_def)

lemma shape_claims: "shape (snd (claim_unit p w now locked sc m)) = shape m" "shape (snd (claim_pack p w now klocked sc m)) = shape m"
  by (simp_all add: claim_unit_def claim_pack_def split: list.split)

lemma shape_next [simp]: "shape (snd (next_work p w now ul kl sc m)) = shape m"
  unfolding next_work_def
  using shape_claims(1) [of p w now ul sc m] shape_claims(2) [of p w now kl sc "snd (claim_unit p w now ul sc m)"]
  by (auto split: prod.splits option.splits)

lemma shape_finish [simp]: "shape (finish_unit p w uid a rs m) = shape m"
  by (simp add: finish_unit_def)

lemma shape_fail [simp]: "shape (fail_unit n w uid a e m) = shape m" "shape (fail_pack p n w pid a e m) = shape m"
  by (simp_all add: fail_unit_def fail_pack_def Let_def)

lemma shape_finish_pack [simp]: "shape (finish_pack p w pid a fs counts m) = shape m"
  by (simp add: finish_pack_def shape_def comp_def if_distrib cong: if_cong)

lemma shape_retry [simp]: "shape (retry_failed p m) = shape m"
  by (simp add: retry_failed_def shape_blobs)

lemma shape_step: "apply_step c p s t \<Longrightarrow> shape (w_db t) = shape (w_db s)"
proof (induction rule: apply_step.induct)
  case (Poll s w now ulocked klocked sc x m)
  then show ?case using shape_next [of p w now ulocked klocked sc "w_db s"] by (simp add: go_def)
qed (simp_all add: go_def)


subsection \<open>Owners\<close>

definition owns :: "mdb \<Rightarrow> string \<Rightarrow> nat \<Rightarrow> int \<Rightarrow> bool" where
  "owns m w uid a \<longleftrightarrow> (\<exists>u \<in> set (m_units m). own_unit w uid a u)"

definition all_done :: "nat \<Rightarrow> string \<Rightarrow> mdb \<Rightarrow> bool" where
  "all_done p sha m \<longleftrightarrow> (\<forall>b \<in> set (m_blobs m). mb_plan b = p \<and> mb_sha b = sha \<longrightarrow> mb_state b = B_Done)"

definition none_done :: "nat \<Rightarrow> string \<Rightarrow> mdb \<Rightarrow> bool" where
  "none_done p sha m \<longleftrightarrow> (\<forall>b \<in> set (m_blobs m). mb_plan b = p \<and> mb_sha b = sha \<longrightarrow> mb_state b \<noteq> B_Done)"

definition blob_unit :: "nat \<Rightarrow> string \<Rightarrow> nat \<Rightarrow> mdb \<Rightarrow> bool" where
  "blob_unit p sha uid m \<longleftrightarrow> (p, sha, Some uid) \<in> set (map (\<lambda>b. (mb_plan b, mb_sha b, mb_unit b)) (m_blobs m))"

definition keys_ok :: "mdb \<Rightarrow> bool" where
  "keys_ok m \<longleftrightarrow> distinct (map mu_id (m_units m)) \<and> distinct (map (\<lambda>b. (mb_plan b, mb_sha b)) (m_blobs m)) \<and>
     distinct (map (\<lambda>k. (mk_plan k, mk_pack k)) (m_packs m))"

lemma keys_ok_shape: "shape t = shape m \<Longrightarrow> keys_ok t = keys_ok m"
proof -
  assume s: "shape t = shape m"
  have u: "map mu_id (m_units x) = map fst (map (\<lambda>u. (mu_id u, mu_plan u)) (m_units x))"
    and b: "map (\<lambda>b. (mb_plan b, mb_sha b)) (m_blobs x) = map (\<lambda>(a, b, _). (a, b)) (map (\<lambda>b. (mb_plan b, mb_sha b, mb_unit b)) (m_blobs x))" for x
    by simp_all
  show ?thesis using s unfolding keys_ok_def u b shape_def by simp
qed

lemma blob_unit_shape: "shape t = shape m \<Longrightarrow> blob_unit p sha uid t = blob_unit p sha uid m"
  by (simp add: blob_unit_def shape_def)

lemma blob_unit_unique: "keys_ok m \<Longrightarrow> blob_unit p sha u m \<Longrightarrow> blob_unit p sha v m \<Longrightarrow> u = v"
proof -
  assume k: "keys_ok m" and u: "blob_unit p sha u m" and v: "blob_unit p sha v m"
  from u obtain b where b: "b \<in> set (m_blobs m)" "mb_plan b = p" "mb_sha b = sha" "mb_unit b = Some u" by (auto simp: blob_unit_def)
  from v obtain b' where b': "b' \<in> set (m_blobs m)" "mb_plan b' = p" "mb_sha b' = sha" "mb_unit b' = Some v" by (auto simp: blob_unit_def)
  have "inj_on (\<lambda>b. (mb_plan b, mb_sha b)) (set (m_blobs m))" using k by (simp add: keys_ok_def distinct_map)
  then have "b = b'" by (rule inj_onD) (simp_all add: b b')
  then show "u = v" using b(4) b'(4) by simp
qed

lemma owns_unique:
  assumes "keys_ok m" and "owns m w uid a" and "owns m w' uid a'"
  shows "w = w'"
proof -
  obtain u v where uv: "u \<in> set (m_units m)" "own_unit w uid a u" "v \<in> set (m_units m)" "own_unit w' uid a' v"
    using assms(2,3) unfolding owns_def by blast
  then have "mu_id u = mu_id v" by (simp add: own_unit_def)
  then have "u = v" using uv(1,3) assms(1) unfolding keys_ok_def distinct_map inj_on_def by blast
  then show ?thesis using uv by (simp add: own_unit_def job_owned_def)
qed

text \<open>No transaction but the worker's own claim makes it an owner.\<close>

lemma owns_update:
  assumes "owns (update_units P f m) w uid a" and "\<And>u. u \<in> set (m_units m) \<Longrightarrow> P u \<Longrightarrow> mu_id u = uid \<Longrightarrow> job_owned w a (f (mu_job u)) \<Longrightarrow> job_owned w a (mu_job u)"
  shows "owns m w uid a"
  using assms unfolding owns_def update_units_def own_unit_def by (auto split: if_splits)

lemma owns_frame: "m_units t = m_units m \<Longrightarrow> owns t w uid a = owns m w uid a"
  by (simp add: owns_def)

lemma released: "\<not> job_owned w a (job_release n e j)" "\<not> job_owned w a (job_reap n j)" "\<not> job_owned w a (job_again j)"
  by (simp_all add: job_owned_def job_release_def job_reap_def job_again_def)

lemma owns_units_only:
  "owns (fail_unit_blobs us e m) w uid a = owns m w uid a" "owns (update_packs Q f m) w uid a = owns m w uid a"
  "owns (update_blobs R h m) w uid a = owns m w uid a" "owns (apply_result p r m) w uid a = owns m w uid a"
  by (auto intro!: owns_frame simp: fail_unit_blobs_def apply_result_def split: prod.split)

lemma owns_results [simp]: "owns (fold (apply_result p) rs m) w uid a = owns m w uid a"
  by (induction rs arbitrary: m) (simp_all add: owns_units_only)

lemma owns_reap: "owns (reap p now stale n m) w uid a \<Longrightarrow> owns m w uid a"
  by (auto simp: reap_def Let_def owns_units_only released elim!: owns_update)

lemma owns_beat: "owns (heartbeat p w' now m) w uid a \<Longrightarrow> owns m w uid a"
  by (auto simp: heartbeat_def Let_def owns_units_only job_owned_def elim!: owns_update)

lemma owns_retry: "owns (retry_failed p m) w uid a \<Longrightarrow> owns m w uid a"
  by (auto simp: retry_failed_def owns_units_only released elim!: owns_update)

lemma owns_fail: "owns (fail_unit n w' i b e m) w uid a \<Longrightarrow> owns m w uid a" "owns (fail_pack p n w' j b e m) w uid a = owns m w uid a"
  by (auto simp: fail_unit_def fail_pack_def Let_def owns_units_only released elim!: owns_update split: if_splits)

lemma owns_finish: "owns (finish_unit p w' i b rs m) w uid a \<Longrightarrow> owns m w uid a"
proof (cases "\<exists>u \<in> set (m_units m). own_unit w' i b u")
  case True
  assume "owns (finish_unit p w' i b rs m) w uid a"
  then have "owns (update_units (own_unit w' i b) (\<lambda>j. j\<lparr>jb_status := Job_Done, jb_error := None\<rparr>) (fold (apply_result p) rs m)) w uid a"
    using True by (simp add: finish_unit_def)
  then have "owns (fold (apply_result p) rs m) w uid a" by (rule owns_update) (simp add: job_owned_def)
  then show ?thesis by simp
qed (simp add: finish_unit_def)

lemma owns_finish_pack: "owns (finish_pack p w' i b fs counts m) w uid a = owns m w uid a"
  by (rule owns_frame) (simp add: finish_pack_def)

lemma owns_next:
  assumes "next_work p w' now ul kl sc m = (x, t)" and "w' \<noteq> w" and "owns t w uid a"
  shows "owns m w uid a"
proof -
  have u: "owns m w uid a" if o: "owns (snd (claim_unit p w' now ul sc m)) w uid a"
  proof (cases "fst (claim_unit p w' now ul sc m)")
    case None
    then show ?thesis using o by (simp add: claim_unit_def split: list.splits)
  next
    case (Some u)
    then obtain P where "snd (claim_unit p w' now ul sc m) = update_units P (job_claim w' now) m"
      by (auto simp: claim_unit_def split: list.splits)
    then show ?thesis using o owns_update [of P "job_claim w' now" m w uid a] assms(2) by (auto simp: job_claim_def job_owned_def)
  qed
  have k: "owns (snd (claim_pack p w' now kl sc y)) w uid a = owns y w uid a" for y
    by (simp add: claim_pack_def owns_units_only split: list.split)
  obtain r y where c: "claim_unit p w' now ul sc m = (r, y)" by (cases "claim_unit p w' now ul sc m")
  obtain q z where d: "claim_pack p w' now kl sc y = (q, z)" by (cases "claim_pack p w' now kl sc y")
  have "t = y \<or> t = z" using assms(1) by (auto simp: next_work_def c d split: option.splits)
  then have "owns y w uid a" using k [of y] assms(3) d by auto
  then show ?thesis using u c by simp
qed

subsection \<open>Blobs\<close>

lemma done_frame: "m_blobs t = m_blobs m \<Longrightarrow> all_done p sha t = all_done p sha m \<and> none_done p sha t = none_done p sha m"
  by (simp add: all_done_def none_done_def)

lemma blobs_next: "next_work p w now ul kl sc m = (x, t) \<Longrightarrow> m_blobs t = m_blobs m"
proof -
  have "m_blobs (snd (claim_unit p w now ul sc m)) = m_blobs m" "m_blobs (snd (claim_pack p w now kl sc y)) = m_blobs y" for y
    by (simp_all add: claim_unit_def claim_pack_def split: list.split)
  then show "next_work p w now ul kl sc m = (x, t) \<Longrightarrow> m_blobs t = m_blobs m"
    by (auto simp: next_work_def split: prod.splits option.splits) (metis snd_conv)+
qed

text \<open>An update of rows that are not done, to a state that is not done either.\<close>

lemma done_update:
  assumes "\<And>b. P b \<Longrightarrow> mb_state b \<noteq> B_Done \<and> mb_state (f b) \<noteq> B_Done \<and> mb_plan (f b) = mb_plan b \<and> mb_sha (f b) = mb_sha b"
  shows "all_done p sha m \<Longrightarrow> all_done p sha (update_blobs P f m)" and "none_done p sha m \<Longrightarrow> none_done p sha (update_blobs P f m)"
proof -
  show "all_done p sha m \<Longrightarrow> all_done p sha (update_blobs P f m)"
    unfolding all_done_def update_blobs_def using assms by fastforce
  show "none_done p sha m \<Longrightarrow> none_done p sha (update_blobs P f m)"
    unfolding none_done_def update_blobs_def using assms by fastforce
qed

lemma done_fail_blobs:
  "all_done p sha m \<Longrightarrow> all_done p sha (fail_unit_blobs us e m)" "none_done p sha m \<Longrightarrow> none_done p sha (fail_unit_blobs us e m)"
  unfolding fail_unit_blobs_def by (rule done_update; auto simp: fail_blob_def)+

lemma done_units: "all_done p sha (update_units P f m) = all_done p sha m" "none_done p sha (update_units P f m) = none_done p sha m"
  "all_done p sha (update_packs Q f m) = all_done p sha m" "none_done p sha (update_packs Q f m) = none_done p sha m"
  using done_frame [of "update_units P f m" m] done_frame [of "update_packs Q f m" m] by simp_all

lemma done_reap:
  "all_done p' sha m \<Longrightarrow> all_done p' sha (reap p now stale n m)" "none_done p' sha m \<Longrightarrow> none_done p' sha (reap p now stale n m)"
  by (auto simp: reap_def Let_def done_units intro: done_fail_blobs)

lemma done_beat: "all_done p' sha (heartbeat p w now m) = all_done p' sha m" "none_done p' sha (heartbeat p w now m) = none_done p' sha m"
  by (simp_all add: heartbeat_def Let_def done_units)

lemma done_fail:
  "all_done p' sha m \<Longrightarrow> all_done p' sha (fail_unit n w i a e m)" "none_done p' sha m \<Longrightarrow> none_done p' sha (fail_unit n w i a e m)"
  "all_done p' sha (fail_pack p n w j a e m) = all_done p' sha m" "none_done p' sha (fail_pack p n w j a e m) = none_done p' sha m"
  by (auto simp: fail_unit_def fail_pack_def Let_def done_units intro: done_fail_blobs)

lemma done_retry:
  assumes "all_done p' sha m \<or> none_done p' sha m"
  shows "all_done p' sha m \<Longrightarrow> all_done p' sha (retry_failed p m)" "none_done p' sha m \<Longrightarrow> none_done p' sha (retry_failed p m)"
  unfolding retry_failed_def done_units by (rule done_update; auto simp: done_units)+

lemma done_finish_pack: "all_done p' sha (finish_pack p w j a fs counts m) = all_done p' sha m" "none_done p' sha (finish_pack p w j a fs counts m) = none_done p' sha m"
  using done_frame [of "finish_pack p w j a fs counts m" m] by (simp_all add: finish_pack_def)

text \<open>Results touch only the blobs they name.\<close>

definition rows_of :: "nat \<Rightarrow> string \<Rightarrow> mdb \<Rightarrow> mat_blob list" where
  "rows_of p sha m = filter (\<lambda>b. mb_plan b = p \<and> mb_sha b = sha) (m_blobs m)"

lemma rows_result: "fst r \<noteq> sha \<Longrightarrow> rows_of p' sha (apply_result p r m) = rows_of p' sha m"
proof -
  assume "fst r \<noteq> sha"
  have "filter P (map (\<lambda>b. if Q b then f b else b) bs) = filter P bs" if "\<And>b. Q b \<Longrightarrow> \<not> P b \<and> \<not> P (f b)" for P Q and f :: "mat_blob \<Rightarrow> mat_blob" and bs
    using that by (induction bs) auto
  note keep = this
  obtain k st how e where r: "r = (k, st, how, e)" by (cases r)
  have m: "m_blobs (apply_result p r m) = map (\<lambda>b. if mb_plan b = p \<and> mb_sha b = k then b\<lparr>mb_state := st, mb_method := how, mb_error := e\<rparr> else b) (m_blobs m)"
    by (simp add: r apply_result_def update_blobs_def)
  show ?thesis unfolding rows_of_def m by (rule keep) (use \<open>fst r \<noteq> sha\<close> in \<open>auto simp: r\<close>)
qed

lemma rows_results: "sha \<notin> fst ` set rs \<Longrightarrow> rows_of p' sha (fold (apply_result p) rs m) = rows_of p' sha m"
proof (induction rs arbitrary: m)
  case (Cons r rs)
  then have "rows_of p' sha (apply_result p r m) = rows_of p' sha m" by (intro rows_result) auto
  with Cons show ?case by simp
qed simp

lemma done_rows: "all_done p sha m \<longleftrightarrow> (\<forall>b \<in> set (rows_of p sha m). mb_state b = B_Done)" "none_done p sha m \<longleftrightarrow> (\<forall>b \<in> set (rows_of p sha m). mb_state b \<noteq> B_Done)"
  by (auto simp: all_done_def none_done_def rows_of_def)

lemma done_finish:
  assumes "owns m w i a \<Longrightarrow> sha \<notin> fst ` set rs"
  shows "rows_of p' sha (finish_unit p w i a rs m) = rows_of p' sha m"
proof (cases "owns m w i a")
  case True
  have f: "rows_of p' sha (update_units P g y) = rows_of p' sha y" for P g y by (simp add: rows_of_def)
  show ?thesis using True rows_results [OF assms [OF True]] by (simp add: finish_unit_def owns_def f)
qed (auto simp: finish_unit_def owns_def)

subsection \<open>Results name the blobs of the unit\<close>

lemma keys_update: "fst ` set (AList.update k v d) = insert k (fst ` set d)"
  by (metis dom_map_of_conv_image_fst map_of_update dom_fun_upd option.distinct(1))

lemma dict_set_update: "set (AList.update k v d) \<subseteq> insert (k, v) (set d)"
  by (induction d) auto

lemma loose_keys: "loose_results c tag bs acc f = (Inr rs, f') \<Longrightarrow> fst ` set rs \<subseteq> fst ` set acc \<union> mb_sha ` set bs"
proof (induction bs arbitrary: acc f)
  case (Cons b bs)
  then obtain r f1 where "loose_results c tag bs (AList.update (mb_sha b) r acc) f1 = (Inr rs, f')"
    by (auto simp: act_bind_def split: prod.splits sum.splits)
  from Cons.IH [OF this] show ?case by (auto simp: keys_update)
qed (simp add: act_run)

lemma all_failed_keys: "fst ` set (fold (\<lambda>b. AList.update (mb_sha b) (B_Failed, None, Some why)) bs acc) = fst ` set acc \<union> mb_sha ` set bs"
  by (induction bs arbitrary: acc) (auto simp: keys_update)

lemma split_keys:
  "split_wants c bs acc wants f = (Inr (rs, ws), f') \<Longrightarrow> distinct (map fst wants) \<Longrightarrow>
   distinct (map fst ws) \<and> fst ` set rs \<subseteq> fst ` set acc \<union> mb_sha ` set bs \<and> (wt_sha \<circ> snd) ` set ws \<subseteq> (wt_sha \<circ> snd) ` set wants \<union> mb_sha ` set bs"
proof (induction bs arbitrary: acc wants f)
  case (Cons b bs)
  let ?w = "AList.update (source_chain b) \<lparr>wt_sha = mb_sha b, wt_size = mb_size b\<rparr> wants"
  have w: "set ?w \<subseteq> insert (source_chain b, \<lparr>wt_sha = mb_sha b, wt_size = mb_size b\<rparr>) (set wants)"
    by (rule dict_set_update)
  from Cons.prems(1) consider f1 where "split_wants c bs (AList.update (mb_sha b) (B_Done, Some ''existing'', None) acc) wants f1 = (Inr (rs, ws), f')"
    | f1 where "split_wants c bs acc ?w f1 = (Inr (rs, ws), f')"
    by (auto simp: act_bind_def split: prod.splits sum.splits if_splits)
  then show ?case
  proof cases
    case 1
    from Cons.IH [OF this Cons.prems(2)] show ?thesis by (auto simp: keys_update)
  next
    case 2
    from Cons.IH [OF this distinct_update [OF Cons.prems(2)]] have k: "distinct (map fst ws)" "fst ` set rs \<subseteq> fst ` set acc \<union> mb_sha ` set bs"
      and n: "(wt_sha \<circ> snd) ` set ws \<subseteq> (wt_sha \<circ> snd) ` set ?w \<union> mb_sha ` set bs" by blast+
    have h: "(wt_sha \<circ> snd) ` set ?w \<subseteq> insert (mb_sha b) ((wt_sha \<circ> snd) ` set wants)" using image_mono [OF w, of "wt_sha \<circ> snd"] by simp
    have e: "mb_sha ` set (b # bs) = insert (mb_sha b) (mb_sha ` set bs)" by simp
    have "(wt_sha \<circ> snd) ` set ws \<subseteq> (wt_sha \<circ> snd) ` set wants \<union> mb_sha ` set (b # bs)"
      by (rule subset_trans [OF n]) (use h in \<open>unfold e, blast\<close>)
    then show ?thesis using k by auto
  qed
qed (simp add: act_run)

lemma outs_keys: "fst ` set (fold (\<lambda>(sha, o'). AList.update sha (of_outcome o')) outs acc) = fst ` set acc \<union> fst ` set outs"
proof (induction outs arbitrary: acc)
  case (Cons x outs)
  obtain sha o' where "x = (sha, o')" by (cases x)
  then show ?case using Cons.IH [of "AList.update sha (of_outcome o') acc"] by (simp add: keys_update)
qed simp

lemma guarded_Inr: "guarded_act m s = (Inr v, t) \<longleftrightarrow> m s = (Inr v, t)"
  by (auto simp: guarded_act_def split: prod.splits sum.splits)

lemma act_bind_Inr: "act_bind m k s = (Inr v, t) \<longleftrightarrow> (\<exists>u s1. m s = (Inr u, s1) \<and> k u s1 = (Inr v, t))"
  by (auto simp: act_bind_def split: prod.splits sum.splits)

lemma archive_keys:
  assumes "archive_results c d root_id bs tag f = (Inr rs, f')"
  shows "fst ` set rs \<subseteq> mb_sha ` set bs"
proof -
  have failed: "fst ` set (all_failed why bs) \<subseteq> mb_sha ` set bs" for why
    using equalityD1 [OF all_failed_keys [of why bs "[]"]] unfolding all_failed_def by simp
  from assms obtain vols f1 where 1: "(case vols of Inl why \<Rightarrow> act_ret (all_failed why bs) | Inr paths \<Rightarrow>
         if paths = [] then act_ret (all_failed ''container has no source files'' bs)
         else act_bind (guarded_act (split_wants c bs [] [])) (\<lambda>(done, wants).
           if wants = [] then act_ret done
           else act_bind (extract_run ((ac_x c)\<lparr>xc_tag := tag\<rparr>) paths wants (nested_shas d root_id)) (\<lambda>outs.
             act_ret (fold (\<lambda>(sha, o'). AList.update sha (of_outcome o')) outs done)))) f1 = (Inr rs, f')"
    unfolding archive_results_def act_bind_Inr by blast
  show ?thesis
  proof (cases "\<exists>paths. vols = Inr paths \<and> paths \<noteq> []")
    case False
    then show ?thesis using 1 failed by (auto simp: act_run split: sum.splits)
  next
    case True
    then obtain paths where p: "vols = Inr paths" "paths \<noteq> []" by blast
    obtain acc wants f2 where 2: "split_wants c bs [] [] f1 = (Inr (acc, wants), f2)"
      and 3: "(if wants = [] then act_ret acc
           else act_bind (extract_run ((ac_x c)\<lparr>xc_tag := tag\<rparr>) paths wants (nested_shas d root_id)) (\<lambda>outs.
             act_ret (fold (\<lambda>(sha, o'). AList.update sha (of_outcome o')) outs acc))) f2 = (Inr rs, f')"
      using 1 p by (auto simp: act_bind_Inr guarded_Inr)
    note k = split_keys [OF 2]
    show ?thesis
    proof (cases "wants = []")
      case True
      then show ?thesis using 3 k by (simp add: act_run)
    next
      case False
      then obtain outs where e: "extract_run ((ac_x c)\<lparr>xc_tag := tag\<rparr>) paths wants (nested_shas d root_id) f2 = (Inr outs, f')"
        and rs: "rs = fold (\<lambda>(sha, o'). AList.update sha (of_outcome o')) outs acc"
        using 3 by (auto simp: act_bind_Inr act_run)
      have "fst ` set outs = (wt_sha \<circ> snd) ` set wants" using run_answers [OF _ e] k by (simp add: dom_map_of_conv_image_fst)
      then show ?thesis using k unfolding rs outs_keys by auto
    qed
  qed
qed

lemma result_keys:
  assumes "unit_results c d u bs f = (Inr rs, f')"
  shows "fst ` set rs \<subseteq> mb_sha ` set bs"
proof -
  obtain f1 where f1: "(case mu_root u of None \<Rightarrow> guarded_act (loose_results c (unit_tag (mu_id u)) bs [])
     | Some r \<Rightarrow> archive_results c d r bs (unit_tag (mu_id u))) f1 = (Inr rs, f')"
    using assms unfolding unit_results_def Let_def act_seq_Inr by blast
  show ?thesis
  proof (cases "mu_root u")
    case None
    then have "loose_results c (unit_tag (mu_id u)) bs [] f1 = (Inr rs, f')" using f1 by (simp add: guarded_Inr)
    from loose_keys [OF this] show ?thesis by simp
  next
    case (Some r)
    then have "archive_results c d r bs (unit_tag (mu_id u)) f1 = (Inr rs, f')" using f1 by simp
    from archive_keys [OF this] show ?thesis .
  qed
qed

subsection \<open>The invariant\<close>

definition complete :: "nat \<Rightarrow> int \<Rightarrow> mdb \<Rightarrow> bool" where
  "complete p pid m \<longleftrightarrow> (\<forall>f \<in> set (m_files m). mf_plan f = p \<and> mf_pack f = pid \<longrightarrow> all_done p (pf_sha (mf_file f)) m)"

definition unit_ok :: "nat \<Rightarrow> mdb \<Rightarrow> string \<Rightarrow> activity \<Rightarrow> bool" where
  "unit_ok p m w x \<longleftrightarrow> (case x of
     U_Working u bs \<Rightarrow> (\<forall>b \<in> set bs. blob_unit p (mb_sha b) (mu_id u) m) \<and>
       (owns m w (mu_id u) (jb_attempts (mu_job u)) \<longrightarrow> (\<forall>b \<in> set bs. none_done p (mb_sha b) m))
   | K_Working k fs \<Rightarrow> missing_of fs = [] \<longrightarrow> complete p (mk_pack k) m
   | _ \<Rightarrow> True)"

definition packs_ok :: "nat \<Rightarrow> mdb \<Rightarrow> bool" where
  "packs_ok p m \<longleftrightarrow> (\<forall>k \<in> set (m_packs m). mk_plan k = p \<and> jb_status (mk_job k) = Job_Done \<longrightarrow> complete p (mk_pack k) m)"

definition world_ok :: "nat \<Rightarrow> world \<Rightarrow> bool" where
  "world_ok p s \<longleftrightarrow> keys_ok (w_db s) \<and> (\<forall>w. unit_ok p (w_db s) w (w_at s w)) \<and> packs_ok p (w_db s)"

text \<open>What a transaction other than a finish keeps: the shape, blobs that are done and blobs that are not.\<close>

definition calm :: "mdb \<Rightarrow> mdb \<Rightarrow> bool" where
  "calm m t \<longleftrightarrow> shape t = shape m \<and> (\<forall>p sha. all_done p sha m \<longrightarrow> all_done p sha t) \<and> (\<forall>p sha. none_done p sha m \<longrightarrow> none_done p sha t)"

lemma calm_ops:
  "calm m (reap p now stale n m)" "calm m (heartbeat p w now m)" "calm m (fail_unit n w i a e m)" "calm m (fail_pack p n w j a e m)"
  "calm m (retry_failed p m)" "calm m (finish_pack p w j a fs counts m)" "calm m m"
  by (auto simp: calm_def done_beat done_fail(3,4) done_finish_pack intro: done_reap done_fail(1,2) done_retry)

lemma calm_next: "next_work p w now ul kl sc m = (x, t) \<Longrightarrow> calm m t"
  using shape_next [of p w now ul kl sc m] done_frame [OF blobs_next] by (simp add: calm_def)

lemma complete_mono:
  assumes "complete p pid m" and "shape t = shape m" and "\<And>sha. all_done p sha m \<Longrightarrow> all_done p sha t"
  shows "complete p pid t"
  using assms unfolding complete_def shape_def by auto

lemma unit_ok_calm:
  assumes "unit_ok p m w x" and "calm m t" and "\<And>uid a. owns t w uid a \<Longrightarrow> owns m w uid a"
  shows "unit_ok p t w x"
  using assms complete_mono [of p _ m t] unfolding unit_ok_def calm_def
  by (auto simp: blob_unit_shape [of t m] split: activity.splits)

lemma packs_ok_calm:
  assumes "packs_ok p m" and "calm m t"
    and "\<And>k. k \<in> set (m_packs t) \<Longrightarrow> mk_plan k = p \<Longrightarrow> jb_status (mk_job k) = Job_Done \<Longrightarrow>
      complete p (mk_pack k) m \<or> (\<exists>l \<in> set (m_packs m). mk_plan l = p \<and> mk_pack l = mk_pack k \<and> jb_status (mk_job l) = Job_Done)"
  shows "packs_ok p t"
  using assms complete_mono [of p _ m t] unfolding packs_ok_def calm_def by metis

lemma read_complete:
  assumes "missing_of (pack_files p pid m) = []"
  shows "complete p pid m"
  using assms unfolding complete_def all_done_def missing_of_def pack_files_def by (fastforce simp: filter_empty_conv)

text \<open>Packs become done only in \<open>finish_pack\<close>.\<close>

definition done_back :: "mdb \<Rightarrow> mdb \<Rightarrow> bool" where
  "done_back m t \<longleftrightarrow> (\<forall>k \<in> set (m_packs t). jb_status (mk_job k) = Job_Done \<longrightarrow>
     (\<exists>l \<in> set (m_packs m). mk_plan l = mk_plan k \<and> mk_pack l = mk_pack k \<and> jb_status (mk_job l) = Job_Done))"

lemma done_back_same: "m_packs t = m_packs m \<Longrightarrow> done_back m t"
  by (auto simp: done_back_def)

lemma done_back_update: "(\<And>j. jb_status (f j) = Job_Done \<Longrightarrow> jb_status j = Job_Done) \<Longrightarrow> m_packs t = m_packs (update_packs P f m) \<Longrightarrow> done_back m t"
  by (auto simp: done_back_def update_packs_def split: if_splits)

lemma release_done: "jb_status (job_release n e j) \<noteq> Job_Done" "jb_status (job_reap n j) \<noteq> Job_Done" "jb_status (job_again j) \<noteq> Job_Done" "jb_status (job_claim w now j) \<noteq> Job_Done"
  by (simp_all add: job_release_def job_reap_def job_again_def job_claim_def)

lemma packs_fail_blobs [simp]: "m_packs (fail_unit_blobs us e m) = m_packs m" "m_units (fail_unit_blobs us e m) = m_units m"
  by (simp_all add: fail_unit_blobs_def)

lemma packs_results [simp]: "m_packs (fold (apply_result p) rs m) = m_packs m" "m_units (fold (apply_result p) rs m) = m_units m"
  by (induction rs arbitrary: m) (auto simp: apply_result_def split: prod.splits)

lemma packs_through:
  "m_packs (update_packs P f (fail_unit_blobs us e (update_units Q g m))) = m_packs (update_packs P f m)"
  "m_packs (update_packs P f (update_units Q g m)) = m_packs (update_packs P f m)"
  "m_packs (update_packs P f (update_blobs R h (update_units Q g m))) = m_packs (update_packs P f m)"
  by (simp_all add: update_packs_def)

lemma done_back_ops:
  "done_back m (reap p now stale n m)" "done_back m (heartbeat p w now m)" "done_back m (retry_failed p m)"
  "done_back m (fail_pack p n w j a e m)" "done_back m (fail_unit n w i a e m)" "done_back m (finish_unit p w i a rs m)" "done_back m m"
proof -
  show "done_back m (reap p now stale n m)" unfolding reap_def Let_def by (rule done_back_update [OF _ packs_through(1)]) (simp add: release_done)
  show "done_back m (heartbeat p w now m)" unfolding heartbeat_def Let_def by (rule done_back_update [OF _ packs_through(2)]) simp
  show "done_back m (retry_failed p m)" unfolding retry_failed_def by (rule done_back_update [OF _ packs_through(3)]) (simp add: release_done)
  show "done_back m (fail_pack p n w j a e m)" unfolding fail_pack_def by (rule done_back_update [OF _ refl]) (simp add: release_done)
  show "done_back m (fail_unit n w i a e m)" "done_back m (finish_unit p w i a rs m)" "done_back m m"
    by (auto intro!: done_back_same simp: fail_unit_def finish_unit_def Let_def)
qed

lemma done_back_next: "next_work p w now ul kl sc m = (x, t) \<Longrightarrow> done_back m t"
proof -
  assume n: "next_work p w now ul kl sc m = (x, t)"
  have u: "m_packs (snd (claim_unit p w now ul sc m)) = m_packs m" by (simp add: claim_unit_def split: list.split)
  have k: "done_back y (snd (claim_pack p w now kl sc y))" for y
    by (auto simp: claim_pack_def release_done intro: done_back_same intro!: done_back_update [OF _ refl] split: list.split)
  obtain r y where c: "claim_unit p w now ul sc m = (r, y)" by (cases "claim_unit p w now ul sc m")
  obtain q z where d: "claim_pack p w now kl sc y = (q, z)" by (cases "claim_pack p w now kl sc y")
  have "t = y \<or> t = z" using n by (auto simp: next_work_def c d split: option.splits)
  moreover have "m_packs y = m_packs m" "done_back y z" using u k [of y] c d by auto
  ultimately show ?thesis by (auto simp: done_back_def)
qed

subsection \<open>Steps\<close>

lemma ok_calm:
  assumes "world_ok p s" and "calm (w_db s) m" and "\<And>w' uid a. w' \<noteq> w \<Longrightarrow> owns m w' uid a \<Longrightarrow> owns (w_db s) w' uid a"
    and "unit_ok p m w x" and "packs_ok p m"
  shows "world_ok p (go w x m s)"
proof -
  have "keys_ok m" using assms(1,2) keys_ok_shape [of m "w_db s"] by (simp add: world_ok_def calm_def)
  moreover have "unit_ok p m w' (w_at s w')" if "w' \<noteq> w" for w'
    by (rule unit_ok_calm [OF _ assms(2) assms(3) [OF that]]) (use assms(1) in \<open>auto simp: world_ok_def\<close>)
  ultimately show ?thesis using assms(4,5) by (simp add: world_ok_def go_def)
qed

lemma packs_back: "world_ok p s \<Longrightarrow> calm (w_db s) m \<Longrightarrow> done_back (w_db s) m \<Longrightarrow> packs_ok p m"
  by (rule packs_ok_calm [of p "w_db s"]) (auto simp: world_ok_def done_back_def)

lemma ok_db:
  assumes "world_ok p s" and "calm (w_db s) m" and "\<And>w uid a. owns m w uid a \<Longrightarrow> owns (w_db s) w uid a" and "done_back (w_db s) m"
  shows "world_ok p (s\<lparr>w_db := m\<rparr>)"
proof -
  have "keys_ok m" using assms(1,2) keys_ok_shape [of m "w_db s"] by (simp add: world_ok_def calm_def)
  moreover have "unit_ok p m w (w_at s w)" for w by (rule unit_ok_calm [OF _ assms(2,3)]) (use assms(1) in \<open>auto simp: world_ok_def\<close>)
  ultimately show ?thesis using packs_back [OF assms(1,2,4)] by (simp add: world_ok_def)
qed

lemma ok_go:
  assumes "world_ok p s" and "calm (w_db s) m" and "\<And>w' uid a. w' \<noteq> w \<Longrightarrow> owns m w' uid a \<Longrightarrow> owns (w_db s) w' uid a"
    and "unit_ok p m w x" and "done_back (w_db s) m"
  shows "world_ok p (go w x m s)"
  using ok_calm [OF assms(1-4) packs_back [OF assms(1,2,5)]] .

lemma unit_ok_idle [simp]: "unit_ok p m w Idle" "unit_ok p m w (U_Claimed u)" "unit_ok p m w (K_Claimed k)" "unit_ok p m w (at_work y)"
  by (simp_all add: unit_ok_def at_work_def split: work.split)

text \<open>The blobs a unit reads are its own and not done; what its owner finishes touches no blob that is done or that another owner holds.\<close>

lemma read_unit_ok:
  assumes "keys_ok m"
  shows "unit_ok p m w (U_Working u (unit_blobs p (mu_id u) m))"
proof -
  have inj: "inj_on (\<lambda>b. (mb_plan b, mb_sha b)) (set (m_blobs m))" using assms by (simp add: keys_ok_def distinct_map)
  have "blob_unit p (mb_sha b) (mu_id u) m \<and> none_done p (mb_sha b) m" if "b \<in> set (unit_blobs p (mu_id u) m)" for b
  proof -
    have b: "b \<in> set (m_blobs m)" "mb_plan b = p" "mb_unit b = Some (mu_id u)" "mb_state b \<noteq> B_Done"
      using that by (auto simp: unit_blobs_def)
    have "b' = b" if "b' \<in> set (m_blobs m)" "mb_plan b' = p" "mb_sha b' = mb_sha b" for b'
      by (rule inj_onD [OF inj _ that(1) b(1)]) (simp add: that b)
    then show ?thesis using b by (auto simp: blob_unit_def none_done_def image_iff intro: bexI [of _ b])
  qed
  then show ?thesis by (simp add: unit_ok_def)
qed

lemma finish_untouched:
  assumes "unit_ok p m w (U_Working u bs)" and "fst ` set rs \<subseteq> mb_sha ` set bs" and "all_done p sha m"
  shows "all_done p sha (finish_unit p w (mu_id u) (jb_attempts (mu_job u)) rs m)"
proof -
  have "sha \<notin> fst ` set rs" if o: "owns m w (mu_id u) (jb_attempts (mu_job u))"
  proof
    assume "sha \<in> fst ` set rs"
    then obtain b where b: "b \<in> set bs" "sha = mb_sha b" using assms(2) by blast
    then have "none_done p sha m" "blob_unit p sha (mu_id u) m" using assms(1) o unfolding unit_ok_def activity.case b(2) by blast+
    then show False using assms(3) by (auto simp: all_done_def none_done_def blob_unit_def)
  qed
  from done_finish [of m w "mu_id u" "jb_attempts (mu_job u)" sha rs p p, OF this] assms(3) show ?thesis by (simp add: done_rows)
qed

lemma finish_others:
  assumes "keys_ok m" and "unit_ok p m w (U_Working u bs)" and "fst ` set rs \<subseteq> mb_sha ` set bs"
    and "blob_unit p sha v m" and "owns m w' v a" and "w' \<noteq> w" and "none_done p sha m"
  shows "none_done p sha (finish_unit p w (mu_id u) (jb_attempts (mu_job u)) rs m)"
proof -
  have "sha \<notin> fst ` set rs" if o: "owns m w (mu_id u) (jb_attempts (mu_job u))"
  proof
    assume "sha \<in> fst ` set rs"
    then obtain b where b: "b \<in> set bs" "sha = mb_sha b" using assms(3) by blast
    then have "blob_unit p sha (mu_id u) m" using assms(2) unfolding unit_ok_def activity.case b(2) by blast
    then have "mu_id u = v" using blob_unit_unique [OF assms(1)] assms(4) by blast
    then show False using owns_unique [OF assms(1) o] assms(5,6) by blast
  qed
  from done_finish [of m w "mu_id u" "jb_attempts (mu_job u)" sha rs p p, OF this] assms(7) show ?thesis by (simp add: done_rows)
qed

lemma finish_step:
  assumes "world_ok p s" and "w_at s w = U_Working u bs" and "fst ` set rs \<subseteq> mb_sha ` set bs"
  shows "world_ok p (go w Idle (finish_unit p w (mu_id u) (jb_attempts (mu_job u)) rs (w_db s)) s)"
proof -
  let ?m = "w_db s" and ?t = "finish_unit p w (mu_id u) (jb_attempts (mu_job u)) rs (w_db s)"
  have ok: "keys_ok ?m" "\<And>w. unit_ok p ?m w (w_at s w)" "packs_ok p ?m" using assms(1) by (simp_all add: world_ok_def)
  have mine: "unit_ok p ?m w (U_Working u bs)" using ok(2) [of w] assms(2) by simp
  have keep: "all_done p sha ?m \<Longrightarrow> all_done p sha ?t" for sha by (rule finish_untouched [OF mine assms(3)])
  have cm: "complete p pid ?m \<Longrightarrow> complete p pid ?t" for pid by (rule complete_mono [OF _ shape_finish keep])
  have other: "unit_ok p ?t w' (w_at s w')" if "w' \<noteq> w" for w'
  proof (cases "w_at s w'")
    case (U_Working v cs)
    have v: "unit_ok p ?m w' (U_Working v cs)" using ok(2) [of w'] U_Working by simp
    have "none_done p (mb_sha b) ?t" if b: "b \<in> set cs" and o: "owns ?t w' (mu_id v) (jb_attempts (mu_job v))" for b
    proof -
      have o': "owns ?m w' (mu_id v) (jb_attempts (mu_job v))" using owns_finish [OF o] .
      then have "none_done p (mb_sha b) ?m" "blob_unit p (mb_sha b) (mu_id v) ?m" using v b by (auto simp: unit_ok_def)
      then show ?thesis using finish_others [OF ok(1) mine assms(3) _ o' \<open>w' \<noteq> w\<close>] by blast
    qed
    then show ?thesis using v U_Working by (simp add: unit_ok_def blob_unit_shape [OF shape_finish])
  next
    case (K_Working k fs)
    then show ?thesis using ok(2) [of w'] cm by (simp add: unit_ok_def)
  qed (simp_all)
  have "m_packs ?t = m_packs ?m" by (simp add: finish_unit_def)
  then have "packs_ok p ?t" using ok(3) cm by (simp add: packs_ok_def)
  moreover have "keys_ok ?t" using ok(1) keys_ok_shape [OF shape_finish] by blast
  ultimately show ?thesis using other by (simp add: world_ok_def go_def)
qed

lemma step_ok:
  assumes "apply_step c p s t" and "world_ok p s"
  shows "world_ok p t"
  using assms
proof (induction rule: apply_step.induct)
  case (Reap s now stale n)
  show ?case by (rule ok_db [OF Reap calm_ops(1) owns_reap done_back_ops(1)])
next
  case (Beat s w now)
  show ?case by (rule ok_db [OF Beat calm_ops(2) owns_beat done_back_ops(2)])
next
  case (Retry s)
  show ?case by (rule ok_db [OF Retry calm_ops(5) owns_retry done_back_ops(3)])
next
  case (Poll s w now ul kl sc x m)
  show ?case by (rule ok_go [OF Poll(3) calm_next [OF Poll(2)] owns_next [OF Poll(2)] unit_ok_idle(4) done_back_next [OF Poll(2)]]) auto
next
  case (Read_Unit s w u)
  then have read: "unit_ok p (w_db s) w (U_Working u (unit_blobs p (mu_id u) (w_db s)))" by (intro read_unit_ok) (simp add: world_ok_def)
  show ?case by (rule ok_go [OF Read_Unit(2) calm_ops(7) _ read done_back_ops(7)])
next
  case (Finish_Unit s w u bs d f rs f')
  then show ?case using finish_step result_keys by blast
next
  case (Fail_Unit s w u bs n e)
  show ?case by (rule ok_go [OF Fail_Unit(2) calm_ops(3) owns_fail(1) unit_ok_idle(1) done_back_ops(5)])
next
  case (Read_Pack s w k)
  have read: "unit_ok p (w_db s) w (K_Working k (pack_files p (mk_pack k) (w_db s)))" using read_complete by (simp add: unit_ok_def)
  show ?case by (rule ok_go [OF Read_Pack(2) calm_ops(7) _ read done_back_ops(7)])
next
  case (Fail_Pack s w k fs n e)
  show ?case by (rule ok_go [OF Fail_Pack(2) calm_ops(4) owns_fail(2) [THEN iffD1] unit_ok_idle(1) done_back_ops(4)])
next
  case (Die s w)
  show ?case by (rule ok_go [OF Die calm_ops(7) _ unit_ok_idle(1) done_back_ops(7)])
next
  case (Finish_Pack s w k fs f counts f')
  let ?t = "finish_pack p w (mk_pack k) (jb_attempts (mk_job k)) fs counts (w_db s)"
  have "unit_ok p (w_db s) w (K_Working k fs)" using Finish_Pack(1,3) unfolding world_ok_def by metis
  then have full: "missing_of fs = [] \<Longrightarrow> complete p (mk_pack k) (w_db s)" by (simp add: unit_ok_def)
  have old: "packs_ok p (w_db s)" using Finish_Pack(3) by (simp add: world_ok_def)
  have "complete p (mk_pack l) (w_db s) \<or> (\<exists>l' \<in> set (m_packs (w_db s)). mk_plan l' = p \<and> mk_pack l' = mk_pack l \<and> jb_status (mk_job l') = Job_Done)"
    if l: "l \<in> set (m_packs ?t)" "mk_plan l = p" "jb_status (mk_job l) = Job_Done" for l
  proof -
    obtain k' where k': "k' \<in> set (m_packs (w_db s))" "own_pack p w (mk_pack k) (jb_attempts (mk_job k)) k' \<and> mk_pack l = mk_pack k' \<and>
        (missing_of fs \<noteq> [] \<longrightarrow> jb_status (mk_job l) = Job_Incomplete) \<or> l = k'"
      using l(1) by (auto simp: finish_pack_def)
    from k'(2) show ?thesis
    proof
      assume "l = k'"
      then show ?thesis using k'(1) l(2,3) by blast
    next
      assume "own_pack p w (mk_pack k) (jb_attempts (mk_job k)) k' \<and> mk_pack l = mk_pack k' \<and> (missing_of fs \<noteq> [] \<longrightarrow> jb_status (mk_job l) = Job_Incomplete)"
      then have "mk_pack l = mk_pack k" "missing_of fs = []" using l(3) by (auto simp: own_pack_def)
      then show ?thesis using full by simp
    qed
  qed
  then have new: "packs_ok p ?t" by (intro packs_ok_calm [OF old calm_ops(6)]) blast
  show ?case by (rule ok_calm [OF Finish_Pack(3) calm_ops(6) owns_finish_pack [THEN iffD1] unit_ok_idle(1) new])
qed

end
