(* ===== verification/MatApplyClaims.thy ===== *)
theory MatApplyClaims
  imports MatApplyProps
begin

text \<open>
  The guarantees of a plan's execution, from the plan \<open>build_plan\<close> writes: a pack that is done has all its blobs, whatever the
  workers, the reaper and crashes do; and what \<open>--retry-failed\<close> leaves behind.
\<close>

subsection \<open>A plan that has just been written\<close>

definition mdb_ok :: "mdb \<Rightarrow> bool" where
  "mdb_ok m \<longleftrightarrow> keys_ok m \<and> (\<forall>u \<in> set (m_units m). mu_id u < m_next_unit m) \<and>
     (\<forall>b \<in> set (m_blobs m). mb_plan b \<in> pr_id ` set (m_plans m)) \<and> (\<forall>k \<in> set (m_packs m). mk_plan k \<in> pr_id ` set (m_plans m))"

lemma next_plan_fresh: "p \<in> pr_id ` set (m_plans m) \<Longrightarrow> p < next_plan m"
proof -
  have "x \<in> set xs \<Longrightarrow> x \<le> fold max xs n" and "n \<le> fold max xs n" for x n :: nat and xs
    by (induction xs arbitrary: n) (auto intro: order.trans [OF max.cobounded1] order.trans [OF max.cobounded2])
  then show "p \<in> pr_id ` set (m_plans m) \<Longrightarrow> p < next_plan m" by (auto simp: next_plan_def less_Suc_eq_le)
qed

definition fresh_ids :: "nat \<Rightarrow> mat_unit list \<times> (string, nat) dict \<times> nat \<Rightarrow> bool" where
  "fresh_ids n acc \<longleftrightarrow> (case acc of (us, _, next) \<Rightarrow> n \<le> next \<and> distinct (map mu_id us) \<and> (\<forall>u \<in> set us. n \<le> mu_id u \<and> mu_id u < next))"

lemma fresh_insert: "fresh_ids n acc \<Longrightarrow> fresh_ids n (insert_unit p rt ns acc)"
  by (cases acc) (auto simp: fresh_ids_def insert_unit_def)

lemma fresh_fold: "fresh_ids n acc \<Longrightarrow> fresh_ids n (fold (\<lambda>x. insert_unit p (f x) (g x)) xs acc)"
  by (induction xs arbitrary: acc) (simp_all add: fresh_insert)

lemma fresh_plan: "fresh_ids n (plan_units p n ns)"
proof -
  have "fresh_ids n ([], [], n)" by (simp add: fresh_ids_def)
  then have "fresh_ids n (fold (\<lambda>c. insert_unit p None c) (chunks LOOSE_UNIT_MAX_BLOBS (loose_needs ns)) ([], [], n))"
    using fresh_fold [of n _ p "\<lambda>_. None" "\<lambda>c. c"] by simp
  then show ?thesis unfolding plan_units_def using fresh_fold [of n _ p Some "\<lambda>rt. dict_get (by_root ns) rt []"] by simp
qed

lemma distinct_setdefault: "distinct (map fst d) \<Longrightarrow> distinct (map fst (dict_setdefault k v d))"
  by (auto simp: dict_setdefault_def split: option.splits dest: map_of_eq_None_iff [THEN iffD1])

lemma setdefault_keys: "fst ` set (dict_setdefault k v d) = insert k (fst ` set d)"
  by (auto simp: dict_setdefault_def split: option.splits) (metis fst_conv image_eqI map_of_SomeD)

lemma needed_keys: "distinct (map fst (needed planned))" "fst ` set (needed planned) = pf_sha ` set (concat (map pl_files planned))"
proof -
  have "distinct (map fst d) \<Longrightarrow> distinct (map fst (fold (\<lambda>f. dict_setdefault (pf_sha f) (pf_size f, pf_kind f)) fs d))" for fs d
    by (induction fs arbitrary: d) (auto intro: distinct_setdefault)
  from this [of "[]"] show "distinct (map fst (needed planned))" by (simp add: needed_def)
  have "fst ` set (fold (\<lambda>f. dict_setdefault (pf_sha f) (pf_size f, pf_kind f)) fs d) = fst ` set d \<union> pf_sha ` set fs" for fs d
    by (induction fs arbitrary: d) (auto simp: setdefault_keys)
  from this [of "concat (map pl_files planned)" "[]"] show "fst ` set (needed planned) = pf_sha ` set (concat (map pl_files planned))"
    by (simp add: needed_def)
qed

lemma compute_needs: "compute digest cwd arrange opts db = Some (Inr (planned, ns, st, junk)) \<Longrightarrow> ns = need_blobs (md_cat db) planned"
  by (auto simp: compute_def Let_def py_bind_def py_ret_def split: option.splits sum.splits prod.splits)

lemma need_shas: "map nd_sha (need_blobs d planned) = map fst (needed planned)"
  by (simp add: need_blobs_def case_prod_beta comp_def)

lemma build_plan_Inr:
  assumes "build_plan digest cwd arrange fl opts db m = (Inr p, t)"
  obtains planned ns us uid_of nu where "p = next_plan m" and "map nd_sha ns = map fst (needed planned)"
    and "plan_units p (m_next_unit m) ns = (us, uid_of, nu)" and "distinct (map pl_id planned)"
    and "m_units t = m_units m @ us" and "m_blobs t = m_blobs m @ map (blob_row p uid_of) ns"
    and "m_packs t = m_packs m @ map (pack_row p) planned"
    and "m_files t = m_files m @ concat (map (\<lambda>pk. map (\<lambda>f. \<lparr>mf_plan = p, mf_pack = pl_id pk, mf_file = f\<rparr>) (pl_files pk)) planned)"
proof -
  from assms obtain planned ns st junk where c: "compute digest cwd arrange opts db = Some (Inr (planned, ns, st, junk))"
    by (auto simp: build_plan_def split: if_splits option.splits sum.splits)
  obtain us uid_of nu where u: "plan_units (next_plan m) (m_next_unit m) ns = (us, uid_of, nu)" by (cases "plan_units (next_plan m) (m_next_unit m) ns")
  show ?thesis
    by (rule that [of ns planned us uid_of nu])
      (use assms u need_shas [of "md_cat db" planned] compute_needs [OF c] in
        \<open>auto simp: build_plan_def c Let_def write_packs_def write_units_and_blobs_def split: if_splits prod.splits\<close>)
qed

lemma build_ok:
  assumes "mdb_ok m" and "build_plan digest cwd arrange fl opts db m = (Inr p, t)"
  shows "keys_ok t" and "packs_ok p t" and "\<forall>f \<in> set (m_files t). mf_plan f = p \<and> f \<notin> set (m_files m) \<longrightarrow>
    (\<exists>b \<in> set (m_blobs t). mb_plan b = p \<and> mb_sha b = pf_sha (mf_file f))"
proof -
  from build_plan_Inr [OF assms(2)] obtain planned ns us uid_of nu where b: "p = next_plan m" "map nd_sha ns = map fst (needed planned)"
    "plan_units p (m_next_unit m) ns = (us, uid_of, nu)" "distinct (map pl_id planned)"
    "m_units t = m_units m @ us" "m_blobs t = m_blobs m @ map (blob_row p uid_of) ns" "m_packs t = m_packs m @ map (pack_row p) planned"
    "m_files t = m_files m @ concat (map (\<lambda>pk. map (\<lambda>f. \<lparr>mf_plan = p, mf_pack = pl_id pk, mf_file = f\<rparr>) (pl_files pk)) planned)" .
  have new: "q \<in> pr_id ` set (m_plans m) \<Longrightarrow> q \<noteq> p" for q using next_plan_fresh [of q m] b(1) by simp
  have us: "distinct (map mu_id us)" "\<forall>u \<in> set us. m_next_unit m \<le> mu_id u" using fresh_plan [of "m_next_unit m" p ns] by (simp_all add: fresh_ids_def b(3))
  have old: "distinct (map mu_id (m_units m))" "\<forall>u \<in> set (m_units m). mu_id u < m_next_unit m" using assms(1) by (simp_all add: mdb_ok_def keys_ok_def)
  have "mu_id u \<noteq> mu_id v" if "u \<in> set (m_units m)" "v \<in> set us" for u v using us(2) old(2) that by fastforce
  then have units: "distinct (map mu_id (m_units t))" using us(1) old(1) unfolding b(5) by auto
  have "distinct (map nd_sha ns)" using needed_keys(1) b(2) by metis
  then have "distinct (map (\<lambda>b. (mb_plan b, mb_sha b)) (map (blob_row p uid_of) ns))"
    by (simp add: blob_row_def comp_def distinct_map inj_on_def)
  then have blobs: "distinct (map (\<lambda>b. (mb_plan b, mb_sha b)) (m_blobs t))"
  proof -
    have "mb_plan b \<noteq> p" if "b \<in> set (m_blobs m)" for b using assms(1) new that by (simp add: mdb_ok_def)
    then show ?thesis using assms(1) \<open>distinct (map (\<lambda>b. (mb_plan b, mb_sha b)) (map (blob_row p uid_of) ns))\<close> unfolding b(6)
      by (auto simp: mdb_ok_def keys_ok_def blob_row_def)
  qed
  have "distinct (map (\<lambda>k. (mk_plan k, mk_pack k)) (map (pack_row p) planned))"
    using b(4) by (simp add: pack_row_def comp_def distinct_map inj_on_def)
  then have packs: "distinct (map (\<lambda>k. (mk_plan k, mk_pack k)) (m_packs t))"
  proof -
    have "mk_plan k \<noteq> p" if "k \<in> set (m_packs m)" for k using assms(1) new that by (simp add: mdb_ok_def)
    then show ?thesis using assms(1) \<open>distinct (map (\<lambda>k. (mk_plan k, mk_pack k)) (map (pack_row p) planned))\<close> unfolding b(7)
      by (auto simp: mdb_ok_def keys_ok_def pack_row_def)
  qed
  show "keys_ok t" using units blobs packs by (simp add: keys_ok_def)
  show "packs_ok p t"
  proof -
    have "jb_status (mk_job k) \<noteq> Job_Done" if k: "k \<in> set (m_packs t)" "mk_plan k = p" for k
    proof -
      have "k \<notin> set (m_packs m)" using assms(1) new [of p] k(2) by (auto simp: mdb_ok_def)
      then obtain x where "k = pack_row p x" using k(1) b(7) by auto
      then show ?thesis by (simp add: pack_row_def new_job_def)
    qed
    then show ?thesis by (auto simp: packs_ok_def)
  qed
  show "\<forall>f \<in> set (m_files t). mf_plan f = p \<and> f \<notin> set (m_files m) \<longrightarrow> (\<exists>b \<in> set (m_blobs t). mb_plan b = p \<and> mb_sha b = pf_sha (mf_file f))"
  proof (intro ballI impI)
    fix f assume f: "f \<in> set (m_files t)" "mf_plan f = p \<and> f \<notin> set (m_files m)"
    then obtain pk pf where pf: "pk \<in> set planned" "pf \<in> set (pl_files pk)" "f = \<lparr>mf_plan = p, mf_pack = pl_id pk, mf_file = pf\<rparr>"
      unfolding b(8) by auto
    then have "pf_sha pf \<in> fst ` set (needed planned)" unfolding needed_keys(2) by auto
    then have "pf_sha pf \<in> set (map nd_sha ns)" unfolding b(2) by simp
    then obtain n where "n \<in> set ns" "nd_sha n = pf_sha pf" by auto
    then show "\<exists>b \<in> set (m_blobs t). mb_plan b = p \<and> mb_sha b = pf_sha (mf_file f)"
    proof (intro bexI [of _ "blob_row p uid_of n"])
      show "blob_row p uid_of n \<in> set (m_blobs t)" unfolding b(6) using \<open>n \<in> set ns\<close> by simp
    qed (simp_all add: blob_row_def pf(3))
  qed
qed

subsection \<open>Done packs\<close>

definition start :: "mdb \<Rightarrow> world" where
  "start m = \<lparr>w_db = m, w_at = \<lambda>_. Idle\<rparr>"

lemma start_ok: "keys_ok m \<Longrightarrow> packs_ok p m \<Longrightarrow> world_ok p (start m)"
  by (simp add: world_ok_def start_def)

lemma steps_ok: "(apply_step c p)\<^sup>*\<^sup>* s t \<Longrightarrow> world_ok p s \<Longrightarrow> world_ok p t \<and> shape (w_db t) = shape (w_db s)"
proof (induction rule: rtranclp_induct)
  case (step t u)
  then show ?case using step_ok [OF step(2)] shape_step [OF step(2)] by simp
qed simp

text \<open>
  C35. A pack of a plan is marked done only when the store has every blob of it, in every interleaving of workers, claims, reaping,
  crashes, retries and failed attempts: each of its files has a blob row, and that row is done.
\<close>

theorem done_packs_complete:
  assumes "mdb_ok m" and "\<forall>f \<in> set (m_files m). mf_plan f \<in> pr_id ` set (m_plans m)"
    and "build_plan digest cwd arrange fl opts db m = (Inr p, m')" and "(apply_step c p)\<^sup>*\<^sup>* (start m') s"
    and "k \<in> set (m_packs (w_db s))" and "mk_plan k = p" and "jb_status (mk_job k) = Job_Done"
    and "f \<in> set (m_files (w_db s))" and "mf_plan f = p" and "mf_pack f = mk_pack k"
  shows "\<exists>b \<in> set (m_blobs (w_db s)). mb_plan b = p \<and> mb_sha b = pf_sha (mf_file f) \<and> mb_state b = B_Done"
proof -
  note b = build_ok [OF assms(1,3)]
  have s: "world_ok p s" "shape (w_db s) = shape m'" using steps_ok [OF assms(4) start_ok [OF b(1,2)]] by (simp_all add: start_def)
  have "all_done p (pf_sha (mf_file f)) (w_db s)"
    using s(1) assms(5-10) unfolding world_ok_def packs_ok_def complete_def by blast
  moreover have "\<exists>b \<in> set (m_blobs (w_db s)). mb_plan b = p \<and> mb_sha b = pf_sha (mf_file f)"
  proof -
    have "p = next_plan m" using build_plan_Inr [OF assms(3)] by metis
    then have "f \<notin> set (m_files m)" using assms(2,9) next_plan_fresh [of p m] by (metis less_irrefl)
    then obtain b0 where b0: "b0 \<in> set (m_blobs m')" "mb_plan b0 = p" "mb_sha b0 = pf_sha (mf_file f)"
      using b(3) assms(8,9) s(2) by (auto simp: shape_def)
    have "(mb_plan b0, mb_sha b0, mb_unit b0) \<in> set (map (\<lambda>b. (mb_plan b, mb_sha b, mb_unit b)) (m_blobs (w_db s)))"
    proof -
      have "(mb_plan b0, mb_sha b0, mb_unit b0) \<in> set (map (\<lambda>b. (mb_plan b, mb_sha b, mb_unit b)) (m_blobs m'))" using b0(1) by auto
      then show ?thesis using s(2) by (simp add: shape_def)
    qed
    then show ?thesis using b0 by auto
  qed
  ultimately show ?thesis by (auto simp: all_done_def)
qed

subsection \<open>What a retry strands\<close>

text \<open>A pending blob whose unit is finished, in a pack that waits for it.\<close>

definition stuck :: "nat \<Rightarrow> string \<Rightarrow> nat \<Rightarrow> int \<Rightarrow> mdb \<Rightarrow> bool" where
  "stuck p sha uid pid m \<longleftrightarrow>
     (\<exists>b \<in> set (m_blobs m). mb_plan b = p \<and> mb_sha b = sha \<and> mb_state b = B_Pending) \<and> blob_unit p sha uid m \<and>
     (\<forall>u \<in> set (m_units m). mu_id u = uid \<longrightarrow> jb_status (mu_job u) = Job_Done) \<and>
     (\<exists>f \<in> set (m_files m). mf_plan f = p \<and> mf_pack f = pid \<and> pf_sha (mf_file f) = sha) \<and>
     (\<exists>k \<in> set (m_packs m). mk_plan k = p \<and> mk_pack k = pid) \<and>
     (\<forall>k \<in> set (m_packs m). mk_plan k = p \<and> mk_pack k = pid \<longrightarrow> jb_status (mk_job k) = Job_Pending)"

lemma stuck_waits: "stuck p sha uid pid m \<Longrightarrow> mk_pack k = pid \<Longrightarrow> pack_waits p m k"
  unfolding stuck_def pack_waits_def pack_files_def by force

text \<open>What keeps it: blobs of finished units, rows of finished units and pending packs stay as they are.\<close>

definition keeps_stuck :: "nat \<Rightarrow> string \<Rightarrow> nat \<Rightarrow> int \<Rightarrow> mdb \<Rightarrow> mdb \<Rightarrow> bool" where
  "keeps_stuck p sha uid pid m t \<longleftrightarrow> shape t = shape m \<and>
     (\<forall>b \<in> set (rows_of p sha m). mb_state b = B_Pending \<longrightarrow> b \<in> set (rows_of p sha t)) \<and>
     (\<forall>u \<in> set (m_units t). mu_id u = uid \<longrightarrow> (\<exists>v \<in> set (m_units m). mu_id v = uid \<and> (jb_status (mu_job v) = Job_Done \<longrightarrow> jb_status (mu_job u) = Job_Done))) \<and>
     (\<forall>k \<in> set (m_packs t). mk_plan k = p \<and> mk_pack k = pid \<longrightarrow>
        (\<exists>l \<in> set (m_packs m). mk_plan l = p \<and> mk_pack l = pid \<and> (jb_status (mk_job l) = Job_Pending \<longrightarrow> jb_status (mk_job k) = Job_Pending)))"

lemma stuck_kept:
  assumes "stuck p sha uid pid m" and "keeps_stuck p sha uid pid m t"
  shows "stuck p sha uid pid t"
proof -
  have sh: "shape t = shape m" using assms(2) by (simp add: keeps_stuck_def)
  obtain b where "b \<in> set (rows_of p sha m)" "mb_state b = B_Pending" using assms(1) by (auto simp: stuck_def rows_of_def)
  then have 1: "\<exists>b \<in> set (m_blobs t). mb_plan b = p \<and> mb_sha b = sha \<and> mb_state b = B_Pending"
    using assms(2) unfolding keeps_stuck_def by (auto simp: rows_of_def)
  have 2: "m_files t = m_files m" "map (\<lambda>k. (mk_plan k, mk_pack k)) (m_packs t) = map (\<lambda>k. (mk_plan k, mk_pack k)) (m_packs m)"
    using sh by (simp_all add: shape_def)
  obtain k where "k \<in> set (m_packs m)" "mk_plan k = p" "mk_pack k = pid" using assms(1) by (auto simp: stuck_def)
  then have "(p, pid) \<in> set (map (\<lambda>k. (mk_plan k, mk_pack k)) (m_packs t))" unfolding 2 by auto
  then have 3: "\<exists>k \<in> set (m_packs t). mk_plan k = p \<and> mk_pack k = pid" by auto
  have 4: "\<forall>u \<in> set (m_units t). mu_id u = uid \<longrightarrow> jb_status (mu_job u) = Job_Done"
    using assms unfolding stuck_def keeps_stuck_def by metis
  have 5: "\<forall>k \<in> set (m_packs t). mk_plan k = p \<and> mk_pack k = pid \<longrightarrow> jb_status (mk_job k) = Job_Pending"
    using assms unfolding stuck_def keeps_stuck_def by metis
  show ?thesis using assms(1) 1 2(1) 3 4 5 blob_unit_shape [OF sh] unfolding stuck_def by simp
qed

lemma stuck_units:
  assumes "stuck p sha uid pid m" and "\<And>u. u \<in> set (m_units m) \<Longrightarrow> P u \<Longrightarrow> mu_id u = uid \<Longrightarrow> jb_status (mu_job u) = Job_Done \<Longrightarrow> jb_status (f (mu_job u)) = Job_Done"
  shows "stuck p sha uid pid (update_units P f m)"
proof -
  have u: "\<exists>v \<in> set (m_units m). mu_id v = uid \<and> (jb_status (mu_job v) = Job_Done \<longrightarrow> jb_status (mu_job u) = Job_Done)"
    if i: "u \<in> set (m_units (update_units P f m))" "mu_id u = uid" for u
  proof -
    obtain v where v: "v \<in> set (m_units m)" "u = (if P v then v\<lparr>mu_job := f (mu_job v)\<rparr> else v)" using i(1) by (auto simp: update_units_def)
    then have "mu_id v = uid" using i(2) by (simp split: if_splits)
    then show ?thesis using v assms(2) [of v] by (intro bexI [of _ v]) auto
  qed
  show ?thesis by (rule stuck_kept [OF assms(1)]) (use u in \<open>auto simp: keeps_stuck_def rows_of_def\<close>)
qed

lemma stuck_packs:
  assumes "stuck p sha uid pid m" and "\<And>k. k \<in> set (m_packs m) \<Longrightarrow> P k \<Longrightarrow> mk_plan k = p \<Longrightarrow> mk_pack k = pid \<Longrightarrow> jb_status (mk_job k) = Job_Pending \<Longrightarrow> jb_status (f (mk_job k)) = Job_Pending"
  shows "stuck p sha uid pid (update_packs P f m)"
proof -
  have k: "\<exists>l \<in> set (m_packs m). mk_plan l = p \<and> mk_pack l = pid \<and> (jb_status (mk_job l) = Job_Pending \<longrightarrow> jb_status (mk_job k) = Job_Pending)"
    if i: "k \<in> set (m_packs (update_packs P f m))" "mk_plan k = p" "mk_pack k = pid" for k
  proof -
    obtain l where l: "l \<in> set (m_packs m)" "k = (if P l then l\<lparr>mk_job := f (mk_job l)\<rparr> else l)" using i(1) by (auto simp: update_packs_def)
    then have "mk_plan l = p" "mk_pack l = pid" using i(2,3) by (simp_all split: if_splits)
    then show ?thesis using l assms(2) [of l] by (intro bexI [of _ l]) auto
  qed
  show ?thesis by (rule stuck_kept [OF assms(1)]) (use k in \<open>auto simp: keeps_stuck_def rows_of_def\<close>)
qed

lemma stuck_blobs:
  assumes "stuck p sha uid pid m" and "shape t = shape m" and "m_units t = m_units m" and "m_packs t = m_packs m"
    and "\<And>b. b \<in> set (rows_of p sha m) \<Longrightarrow> mb_state b = B_Pending \<Longrightarrow> b \<in> set (rows_of p sha t)"
  shows "stuck p sha uid pid t"
  by (rule stuck_kept [OF assms(1)]) (use assms(2-5) in \<open>auto simp: keeps_stuck_def\<close>)

lemma row_unit:
  assumes "keys_ok m" and "blob_unit p sha uid m" and "b \<in> set (rows_of p sha m)"
  shows "mb_unit b = Some uid"
proof -
  obtain b' where b': "b' \<in> set (m_blobs m)" "mb_plan b' = p" "mb_sha b' = sha" "mb_unit b' = Some uid" using assms(2) by (auto simp: blob_unit_def)
  have "inj_on (\<lambda>b. (mb_plan b, mb_sha b)) (set (m_blobs m))" using assms(1) by (simp add: keys_ok_def distinct_map)
  then have "b = b'" by (rule inj_onD) (use assms(3) b' in \<open>simp_all add: rows_of_def\<close>)
  then show ?thesis using b'(4) by simp
qed

lemma stuck_fail_blobs:
  assumes "stuck p sha uid pid m" and "keys_ok m" and "uid \<notin> set us"
  shows "stuck p sha uid pid (fail_unit_blobs us e m)"
proof (rule stuck_blobs [OF assms(1) shape_fail_blobs])
  fix b assume b: "b \<in> set (rows_of p sha m)" "mb_state b = B_Pending"
  have "mb_unit b = Some uid" by (rule row_unit [OF assms(2) _ b(1)]) (use assms(1) in \<open>simp add: stuck_def\<close>)
  then show "b \<in> set (rows_of p sha (fail_unit_blobs us e m))"
    using b(1) assms(3) by (auto simp: rows_of_def fail_unit_blobs_def update_blobs_def image_iff intro!: bexI [of _ b])
qed simp_all

lemma stuck_done_unit: "stuck p sha uid pid m \<Longrightarrow> u \<in> set (m_units m) \<Longrightarrow> mu_id u = uid \<Longrightarrow> jb_status (mu_job u) = Job_Done"
  by (simp add: stuck_def)

lemma stuck_pending_pack: "stuck p sha uid pid m \<Longrightarrow> k \<in> set (m_packs m) \<Longrightarrow> mk_plan k = p \<Longrightarrow> mk_pack k = pid \<Longrightarrow> jb_status (mk_job k) = Job_Pending"
  by (simp add: stuck_def)

lemma keys_units: "keys_ok m \<Longrightarrow> keys_ok (update_units P f m)"
  using keys_ok_shape [OF shape_units] by blast

lemma stuck_reap:
  assumes "stuck p sha uid pid m" and "keys_ok m"
  shows "stuck p sha uid pid (reap p now stale n m)"
proof -
  let ?P = "\<lambda>u. mu_plan u = p \<and> job_stale now stale (mu_job u)"
  let ?m = "update_units ?P (job_reap n) m"
  let ?us = "map mu_id (filter (\<lambda>u. mu_plan u = p \<and> job_stale now stale (mu_job u) \<and> n \<le> jb_attempts (mu_job u)) (m_units m))"
  have 1: "stuck p sha uid pid ?m" by (rule stuck_units [OF assms(1)]) (auto simp: job_stale_def)
  have "uid \<notin> set ?us" using stuck_done_unit [OF assms(1)] by (auto simp: job_stale_def)
  from stuck_fail_blobs [OF 1 keys_units [OF assms(2)] this] have 2: "stuck p sha uid pid (fail_unit_blobs ?us ''unit attempts exhausted'' ?m)" .
  show ?thesis unfolding reap_def Let_def by (rule stuck_packs [OF 2]) (auto simp: job_stale_def)
qed

lemma stuck_beat: "stuck p sha uid pid m \<Longrightarrow> stuck p sha uid pid (heartbeat p w now m)"
  unfolding heartbeat_def Let_def by (intro stuck_packs stuck_units) simp_all

lemma stuck_retry:
  assumes "stuck p sha uid pid m"
  shows "stuck p sha uid pid (retry_failed p m)"
proof -
  let ?m = "update_units (\<lambda>u. mu_plan u = p \<and> jb_status (mu_job u) = Job_Failed) job_again m"
  have 1: "stuck p sha uid pid ?m" by (rule stuck_units [OF assms]) simp
  let ?f = "\<lambda>b. b\<lparr>mb_state := B_Pending, mb_error := None\<rparr>"
  have 2: "stuck p sha uid pid (update_blobs (\<lambda>b. mb_plan b = p \<and> mb_state b = B_Failed) ?f ?m)"
  proof (rule stuck_blobs [OF 1])
    fix b assume "b \<in> set (rows_of p sha ?m)" "mb_state b = B_Pending"
    then show "b \<in> set (rows_of p sha (update_blobs (\<lambda>b. mb_plan b = p \<and> mb_state b = B_Failed) ?f ?m))"
      by (auto simp: rows_of_def update_blobs_def image_iff intro!: bexI [of _ b])
  qed (simp_all add: shape_blobs)
  show ?thesis unfolding retry_failed_def by (rule stuck_packs [OF 2]) (simp add: job_again_def)
qed

lemma stuck_fail:
  assumes "stuck p sha uid pid m" and "keys_ok m"
  shows "stuck p sha uid pid (fail_unit n w i a e m)" and "stuck p sha uid pid (fail_pack p n w j a e m)"
proof -
  have 1: "stuck p sha uid pid (update_units (own_unit w i a) f m)" for f
    by (rule stuck_units [OF assms(1)]) (simp add: own_unit_def job_owned_def)
  have "i \<noteq> uid" if "filter (\<lambda>u. own_unit w i a u \<and> n \<le> jb_attempts (mu_job u)) (m_units m) \<noteq> []"
    using that stuck_done_unit [OF assms(1)] by (auto simp: filter_empty_conv own_unit_def job_owned_def)
  then show "stuck p sha uid pid (fail_unit n w i a e m)"
    using 1 stuck_fail_blobs [OF 1 keys_units [OF assms(2)]] by (auto simp: fail_unit_def Let_def)
  show "stuck p sha uid pid (fail_pack p n w j a e m)" unfolding fail_pack_def
    by (rule stuck_packs [OF assms(1)]) (simp add: own_pack_def job_owned_def)
qed

lemma sort_key_hd: "sort_key g (filter P xs) = y # ys \<Longrightarrow> y \<in> set xs \<and> P y"
proof -
  assume "sort_key g (filter P xs) = y # ys"
  then have "y \<in> set (sort_key g (filter P xs))" by simp
  then show ?thesis by simp
qed

lemma stuck_claim_unit: "stuck p sha uid pid m \<Longrightarrow> stuck p sha uid pid (snd (claim_unit p w now ul sc m))"
proof (cases "fst (claim_unit p w now ul sc m)")
  case None
  then show "stuck p sha uid pid m \<Longrightarrow> ?thesis" by (simp add: claim_unit_def split: list.splits)
next
  case (Some x)
  assume m: "stuck p sha uid pid m"
  from Some obtain u where u: "u \<in> set (m_units m)" "jb_status (mu_job u) = Job_Pending"
    "snd (claim_unit p w now ul sc m) = update_units (\<lambda>v. mu_id v = mu_id u) (job_claim w now) m"
    by (auto simp: claim_unit_def dest!: sort_key_hd split: list.splits)
  have "mu_id u \<noteq> uid" using stuck_done_unit [OF m u(1)] u(2) by auto
  then show ?thesis unfolding u(3) by (intro stuck_units [OF m]) simp
qed

lemma stuck_claim_pack:
  assumes "stuck p sha uid pid m"
  shows "stuck p sha uid pid (snd (claim_pack p w now kl sc m))" and "fst (claim_pack p w now kl sc m) = Some k \<Longrightarrow> mk_pack k \<noteq> pid"
proof -
  have *: "mk_pack k' \<noteq> pid" if "sort_key mk_pack (filter (\<lambda>k. mk_plan k = p \<and> jb_status (mk_job k) = Job_Pending \<and> in_scope (sc_packs sc) (mk_pack k) \<and> mk_pack k \<notin> kl \<and>
           \<not> pack_waits p m k) (m_packs m)) = k' # ks" for k' ks
    using sort_key_hd [OF that] stuck_waits [OF assms, of k'] by blast
  show "fst (claim_pack p w now kl sc m) = Some k \<Longrightarrow> mk_pack k \<noteq> pid"
    using * by (auto simp: claim_pack_def split: list.splits)
  show "stuck p sha uid pid (snd (claim_pack p w now kl sc m))"
    using * assms by (auto simp: claim_pack_def intro!: stuck_packs [OF assms] split: list.split)
qed

lemma stuck_next:
  assumes "stuck p sha uid pid m" and "next_work p w now ul kl sc m = (x, t)"
  shows "stuck p sha uid pid t" and "in_scope (sc_packs sc) pid \<Longrightarrow> x \<noteq> Stop_Work"
proof -
  obtain r y where c: "claim_unit p w now ul sc m = (r, y)" by (cases "claim_unit p w now ul sc m")
  obtain q z where d: "claim_pack p w now kl sc y = (q, z)" by (cases "claim_pack p w now kl sc y")
  have y: "stuck p sha uid pid y" using stuck_claim_unit [OF assms(1), of w now ul sc] c by simp
  have z: "stuck p sha uid pid z" using stuck_claim_pack(1) [OF y, of w now kl sc] d by simp
  show "stuck p sha uid pid t" using assms(2) y z by (auto simp: next_work_def c d split: option.splits)
  have "remaining p sc z \<noteq> (0, 0)" if "in_scope (sc_packs sc) pid"
  proof -
    obtain k where "k \<in> set (m_packs z)" "mk_plan k = p" "mk_pack k = pid" "jb_status (mk_job k) = Job_Pending"
      using z unfolding stuck_def by blast
    then show ?thesis using that by (auto simp: remaining_def active_job_def filter_empty_conv)
  qed
  then show "in_scope (sc_packs sc) pid \<Longrightarrow> x \<noteq> Stop_Work" using assms(2) by (auto simp: next_work_def c d split: option.splits if_splits)
qed

lemma stuck_finish:
  assumes "stuck p sha uid pid m" and "keys_ok m" and "unit_ok p m w (U_Working u bs)" and "fst ` set rs \<subseteq> mb_sha ` set bs"
  shows "stuck p sha uid pid (finish_unit p w (mu_id u) (jb_attempts (mu_job u)) rs m)"
proof (cases "owns m w (mu_id u) (jb_attempts (mu_job u))")
  case False
  then have "finish_unit p w (mu_id u) (jb_attempts (mu_job u)) rs m = m" by (auto simp: finish_unit_def owns_def)
  then show ?thesis using assms(1) by simp
next
  case True
  have ne: "mu_id u \<noteq> uid" using True stuck_done_unit [OF assms(1)] by (auto simp: owns_def own_unit_def job_owned_def)
  have "sha \<notin> fst ` set rs"
  proof
    assume "sha \<in> fst ` set rs"
    then obtain b where b: "b \<in> set bs" "sha = mb_sha b" using assms(4) by blast
    then have "blob_unit p sha (mu_id u) m" using assms(3) unfolding unit_ok_def activity.case b(2) by blast
    then show False using blob_unit_unique [OF assms(2)] assms(1) ne unfolding stuck_def by blast
  qed
  then have "stuck p sha uid pid (fold (apply_result p) rs m)"
    by (intro stuck_blobs [OF assms(1)]) (simp_all add: rows_results)
  then show ?thesis using True
    by (auto simp: finish_unit_def owns_def own_unit_def intro!: stuck_units)
qed

lemma stuck_finish_pack:
  assumes "stuck p sha uid pid m"
  shows "stuck p sha uid pid (finish_pack p w j a fs counts m)"
proof -
  have k: "\<exists>l \<in> set (m_packs m). mk_plan l = p \<and> mk_pack l = pid \<and> (jb_status (mk_job l) = Job_Pending \<longrightarrow> jb_status (mk_job k) = Job_Pending)"
    if i: "k \<in> set (m_packs (finish_pack p w j a fs counts m))" "mk_plan k = p" "mk_pack k = pid" for k
  proof -
    obtain l where l: "l \<in> set (m_packs m)" "mk_plan l = mk_plan k" "mk_pack l = mk_pack k" "own_pack p w j a l \<or> k = l"
      using i(1) by (auto simp: finish_pack_def split: if_splits)
    then show ?thesis using i(2,3) by (intro bexI [of _ l]) (auto simp: own_pack_def job_owned_def)
  qed
  have "m_blobs (finish_pack p w j a fs counts m) = m_blobs m" "m_units (finish_pack p w j a fs counts m) = m_units m" by (simp_all add: finish_pack_def)
  then show ?thesis by (intro stuck_kept [OF assms]) (use k in \<open>auto simp: keeps_stuck_def rows_of_def\<close>)
qed

lemma stuck_step:
  assumes "apply_step c p s t" and "world_ok p s" and "stuck p sha uid pid (w_db s)"
  shows "stuck p sha uid pid (w_db t)"
  using assms
proof (induction rule: apply_step.induct)
  case (Finish_Unit s w u bs d f rs f')
  have "unit_ok p (w_db s) w (U_Working u bs)" using Finish_Unit(1,3) unfolding world_ok_def by metis
  then show ?case using stuck_finish [OF Finish_Unit(4)] result_keys [OF Finish_Unit(2)] Finish_Unit(3) by (simp add: go_def world_ok_def)
next
  case (Poll s w now ul kl sc x m)
  then show ?case using stuck_next(1) by (simp add: go_def)
qed (auto simp: go_def world_ok_def intro: stuck_reap stuck_beat stuck_retry stuck_fail stuck_finish_pack)

lemma stuck_steps:
  "(apply_step c p)\<^sup>*\<^sup>* s t \<Longrightarrow> world_ok p s \<Longrightarrow> stuck p sha uid pid (w_db s) \<Longrightarrow> stuck p sha uid pid (w_db t)"
proof (induction rule: rtranclp_induct)
  case (step t u)
  then show ?case using stuck_step [OF step(2)] steps_ok [OF step(1)] by blast
qed simp

lemma retry_stuck:
  assumes "keys_ok m" and "b \<in> set (m_blobs m)" and "mb_plan b = p" and "mb_state b = B_Failed" and "mb_unit b = Some (mu_id u)"
    and "u \<in> set (m_units m)" and "jb_status (mu_job u) = Job_Done"
    and "k \<in> set (m_packs m)" and "mk_plan k = p" and "jb_status (mk_job k) = Job_Incomplete"
    and "f \<in> set (m_files m)" and "mf_plan f = p" and "mf_pack f = mk_pack k" and "pf_sha (mf_file f) = mb_sha b"
  shows "stuck p (mb_sha b) (mu_id u) (mk_pack k) (retry_failed p m)"
proof -
  let ?t = "retry_failed p m"
  have bl: "m_blobs ?t = map (\<lambda>b. if mb_plan b = p \<and> mb_state b = B_Failed then b\<lparr>mb_state := B_Pending, mb_error := None\<rparr> else b) (m_blobs m)"
    by (simp add: retry_failed_def update_packs_def update_blobs_def update_units_def)
  have un: "m_units ?t = map (\<lambda>u. if mu_plan u = p \<and> jb_status (mu_job u) = Job_Failed then u\<lparr>mu_job := job_again (mu_job u)\<rparr> else u) (m_units m)"
    by (simp add: retry_failed_def update_packs_def update_blobs_def update_units_def)
  have pk: "m_packs ?t = map (\<lambda>k. if mk_plan k = p \<and> jb_status (mk_job k) \<in> {Job_Failed, Job_Incomplete} then k\<lparr>mk_job := job_again (mk_job k)\<rparr> else k) (m_packs m)"
    by (simp add: retry_failed_def update_packs_def update_blobs_def update_units_def)
  have fi: "m_files ?t = m_files m" by (simp add: retry_failed_def)
  have b': "b\<lparr>mb_state := B_Pending, mb_error := None\<rparr> \<in> set (m_blobs ?t)" unfolding bl using assms(2-4) by (force simp: image_iff)
  have "(p, mb_sha b, Some (mu_id u)) \<in> set (map (\<lambda>b. (mb_plan b, mb_sha b, mb_unit b)) (m_blobs m))" using assms(2,3,5) by force
  then have bu: "blob_unit p (mb_sha b) (mu_id u) ?t" using blob_unit_shape [OF shape_retry] unfolding blob_unit_def by blast
  have iu: "inj_on mu_id (set (m_units m))" and ik: "inj_on (\<lambda>k. (mk_plan k, mk_pack k)) (set (m_packs m))"
    using assms(1) by (simp_all add: keys_ok_def distinct_map)
  have ua: "jb_status (mu_job v) = Job_Done" if v: "v \<in> set (m_units ?t)" "mu_id v = mu_id u" for v
  proof -
    obtain x where x: "x \<in> set (m_units m)" "v = (if mu_plan x = p \<and> jb_status (mu_job x) = Job_Failed then x\<lparr>mu_job := job_again (mu_job x)\<rparr> else x)"
      using v(1) unfolding un by auto
    have "x = u" by (rule inj_onD [OF iu _ x(1) assms(6)]) (use x(2) v(2) in \<open>simp split: if_splits\<close>)
    then show ?thesis using x(2) assms(7) by simp
  qed
  have ka: "jb_status (mk_job l) = Job_Pending" if l: "l \<in> set (m_packs ?t)" "mk_plan l = p" "mk_pack l = mk_pack k" for l
  proof -
    obtain x where x: "x \<in> set (m_packs m)" "l = (if mk_plan x = p \<and> jb_status (mk_job x) \<in> {Job_Failed, Job_Incomplete} then x\<lparr>mk_job := job_again (mk_job x)\<rparr> else x)"
      using l(1) unfolding pk by auto
    have "x = k" by (rule inj_onD [OF ik _ x(1) assms(8)]) (use x(2) l(2,3) assms(9) in \<open>simp split: if_splits\<close>)
    then show ?thesis using x(2) assms(9,10) by (simp add: job_again_def)
  qed
  have "k\<lparr>mk_job := job_again (mk_job k)\<rparr> \<in> set (m_packs ?t)" unfolding pk using assms(8-10) by (force simp: image_iff)
  then show ?thesis unfolding stuck_def using b' bu ua ka assms(3,9) assms(11-14) fi
    by (intro conjI) (auto intro!: bexI [of _ "b\<lparr>mb_state := B_Pending, mb_error := None\<rparr>"] bexI [of _ f] bexI [of _ "k\<lparr>mk_job := job_again (mk_job k)\<rparr>"])
qed

text \<open>
  C36. \<^verbatim>\<open>apply --retry-failed\<close> never ends once a finished unit has left a failed blob in an incomplete pack: the blob is set back to pending
  but its unit stays done, so no worker is ever given it; in every later state, whatever the workers, the reaper and further
  retries do, the pack is pending, and a worker whose scope has it is never told to stop.
\<close>

theorem retry_strands_pack:
  assumes "mdb_ok m" and "build_plan digest cwd arrange fl opts db m = (Inr p, m')" and "(apply_step c p)\<^sup>*\<^sup>* (start m') s"
    and "b \<in> set (m_blobs (w_db s))" and "mb_plan b = p" and "mb_state b = B_Failed" and "mb_unit b = Some (mu_id u)"
    and "u \<in> set (m_units (w_db s))" and "jb_status (mu_job u) = Job_Done"
    and "k \<in> set (m_packs (w_db s))" and "mk_plan k = p" and "jb_status (mk_job k) = Job_Incomplete"
    and "f \<in> set (m_files (w_db s))" and "mf_plan f = p" and "mf_pack f = mk_pack k" and "pf_sha (mf_file f) = mb_sha b"
    and "(apply_step c p)\<^sup>*\<^sup>* (s\<lparr>w_db := retry_failed p (w_db s)\<rparr>) t" and "in_scope (sc_packs sc) (mk_pack k)"
  shows "(\<exists>l \<in> set (m_packs (w_db t)). mk_plan l = p \<and> mk_pack l = mk_pack k \<and> jb_status (mk_job l) = Job_Pending) \<and>
    fst (next_work p w now ulocked klocked sc (w_db t)) \<noteq> Stop_Work"
proof -
  note bo = build_ok [OF assms(1,2)]
  have s: "world_ok p s" using steps_ok [OF assms(3) start_ok [OF bo(1,2)]] by simp
  then have r: "world_ok p (s\<lparr>w_db := retry_failed p (w_db s)\<rparr>)" using step_ok [OF Retry] by blast
  have "stuck p (mb_sha b) (mu_id u) (mk_pack k) (retry_failed p (w_db s))"
    using retry_stuck [OF _ assms(4-16)] s by (simp add: world_ok_def)
  then have st: "stuck p (mb_sha b) (mu_id u) (mk_pack k) (w_db t)" using stuck_steps [OF assms(17) r] by simp
  then have "\<exists>l \<in> set (m_packs (w_db t)). mk_plan l = p \<and> mk_pack l = mk_pack k \<and> jb_status (mk_job l) = Job_Pending"
    unfolding stuck_def by blast
  moreover obtain x m where n: "next_work p w now ulocked klocked sc (w_db t) = (x, m)" by (cases "next_work p w now ulocked klocked sc (w_db t)")
  ultimately show ?thesis using stuck_next(2) [OF st n assms(18)] by simp
qed

end
