(* ===== verification/MatApplyDemo.thy ===== *)
theory MatApplyDemo
  imports MatApplyClaims MatExtractDemo
begin

text \<open>A plan of one pack with one loose file, executed by one worker, for the witnesses.\<close>

definition demo_cat :: cat where
  "demo_cat = \<lparr>rows = [1 \<mapsto> \<lparr>ct_kind = Ct_Loose, ct_status = St_Done, ct_reason = None, ct_format = None, ct_depth = 0, ct_source = None, ct_blob = None,
       ct_parent = None, ct_chain = None, ct_claimed_by = None, ct_claimed_at = None, ct_attempts = 1, ct_members = 1, ct_bytes = 5,
       ct_source_bytes = Some 5, ct_finished_at = None, ct_notes = None, ct_requeued_from = None, ct_superseded_by = None\<rparr>],
     next_row = 2, cfiles = [(1, 1, 1)],
     occs = [\<lparr>oc_blob = run_sha, oc_container = 1, oc_chain = [''a.stl''], oc_path = ''a.stl'', oc_depth = 1\<rparr>],
     blobs = [(run_sha, \<lparr>bl_size = 5, bl_kind = Mesh, bl_ext = None, bl_triangles = None\<rparr>)],
     sfiles = [1 \<mapsto> \<lparr>sf_path = ''a.stl'', sf_size = 5, sf_mtime = 0, sf_kind = Sf_Loose, sf_format = None, sf_volume_set = None, sf_first_seen = 1,
       sf_last_seen = 1, sf_present = True\<rparr>],
     next_sfile = 2, workers = [], runs = Map.empty, next_run = 1\<rparr>"

definition demo_pack :: plan_pack where
  "demo_pack = \<lparr>pp_id = 7, pp_name = Some ''P'', pp_category = None, pp_creator = None, pp_source_tag = None, pp_tags = [],
     pp_tagged = False, pp_status = Resolved, pp_needs_review = False\<rparr>"

definition demo_packs :: mat_db where
  "demo_packs = \<lparr>md_cat = demo_cat, md_packs = [demo_pack],
     md_containers = [(7, 1, Primary)], md_units = []\<rparr>"

definition empty_mdb :: mdb where
  "empty_mdb = \<lparr>m_plans = [], m_units = [], m_blobs = [], m_packs = [], m_files = [], m_next_unit = 1\<rparr>"

definition demo_opts :: plan_options where
  "demo_opts = \<lparr>po_layout = Tree, po_provisional = False, po_packs = None, po_free = None, po_force = False\<rparr>"

definition demo_row :: scope_row where
  "demo_row = \<lparr>or_pack = 7, or_role = Primary, or_sha = run_sha, or_size = 5, or_kind = Mesh, or_container = 1, or_chain = [''a.stl''],
     or_path = ''a.stl'', or_depth = 1, or_root = 1\<rparr>"

definition demo_roots :: "(nat, root_info) dict" where
  "demo_roots = [(1, \<lparr>ri_kind = Ct_Loose, ri_status = St_Done, ri_bytes = 5, ri_first = Some ''a.stl''\<rparr>)]"

definition demo_file :: planned_file where
  "demo_file = \<lparr>pf_rel = ''a.stl'', pf_sha = run_sha, pf_size = 5, pf_kind = Mesh, pf_container = 1, pf_anchor = ''a.stl'', pf_chain = [''a.stl'']\<rparr>"

definition demo_planned :: planned_pack where
  "demo_planned = \<lparr>pl_id = 7, pl_category = ''Misc'', pl_name = Some ''P'', pl_dir = ''Misc/P'', pl_files = [demo_file],
     pl_containers = [\<lparr>cm_container = 1, cm_role = Primary, cm_kind = Ct_Loose, cm_paths = [''a.stl'']\<rparr>], pl_units = [], pl_row = demo_pack\<rparr>"

definition demo_need :: need where
  "demo_need = \<lparr>nd_sha = run_sha, nd_size = 5, nd_kind = Mesh, nd_source = Src_Loose ''a.stl'' 5 0\<rparr>"

lemma demo_selected: "selected_packs demo_opts demo_packs = [demo_pack]"
  by code_simp

lemma demo_scope: "container_scope demo_packs [7] = [demo_row]" "unit_scope demo_packs [7] = []"
  by code_simp+

lemma demo_root_infos: "root_infos demo_cat = demo_roots"
  by code_simp

lemma demo_cands: "layout_cands (\<lambda>_. run_sha) [] demo_roots Tree [demo_row] =
    py_ret [((0, 1, ''a.stl'', run_sha), \<lparr>cd_rel = ''a.stl'', cd_sha = run_sha\<rparr>, demo_row, ''a.stl'')]"
  by code_simp

lemma demo_resolved: "resolve_collisions (\<lambda>_. run_sha) [\<lparr>cd_rel = ''a.stl'', cd_sha = run_sha\<rparr>] ''Misc/P [7]'' = py_ret [(run_sha, ''a.stl'')]"
  by code_simp

lemma demo_chosen: "chosen_rows [demo_row] = [demo_row]" "junk_count [demo_row] = 0"
  by code_simp+

lemma demo_worst: "worst_dir (\<lambda>_. run_sha) demo_pack = ''Misc/P [7]''"
  by code_simp

lemma demo_final: "final_file [(run_sha, ''a.stl'')] ((0, 1, ''a.stl'', run_sha), \<lparr>cd_rel = ''a.stl'', cd_sha = run_sha\<rparr>, demo_row, ''a.stl'') = py_ret demo_file"
  by code_simp

lemma demo_layout: "layout_pack (\<lambda>_. run_sha) [] demo_roots Tree ''Misc/P [7]'' [demo_row] = py_ret ([demo_file], 0)"
  by (simp add: layout_pack_def demo_chosen demo_cands demo_resolved demo_final)

lemma demo_lay_out: "lay_out (\<lambda>_. run_sha) [] demo_roots Tree [demo_pack] [demo_row] 7 ([], 0) = py_ret ([(7, [demo_file])], 0)"
proof -
  have "by_id pp_id [demo_pack] = [(7, demo_pack)]" "filter (\<lambda>r. or_pack r = 7) [demo_row] = [demo_row]" by code_simp+
  then show ?thesis by (simp add: lay_out_def dict_index_def demo_worst demo_layout)
qed

lemma demo_state: "pack_step (\<lambda>_. run_sha) demo_packs [(7, [demo_file])] demo_pack \<lparr>st_planned = [], st_taken = {}, st_empty = 0, st_uncategorized = 0\<rparr> =
    \<lparr>st_planned = [demo_planned], st_taken = {''misc/p''}, st_empty = 0, st_uncategorized = 1\<rparr>"
  by code_simp

lemma demo_needs: "need_blobs demo_cat [demo_planned] = [demo_need]"
  by code_simp

lemma demo_compute: "compute (\<lambda>_. run_sha) [] id demo_opts demo_packs =
    py_ret ([demo_planned], [demo_need], \<lparr>st_planned = [demo_planned], st_taken = {''misc/p''}, st_empty = 0, st_uncategorized = 1\<rparr>, 0)"
proof -
  have "map pp_id [demo_pack] = [7]" "md_cat demo_packs = demo_cat" "po_layout demo_opts = Tree" "or_pack demo_row = 7"
    by (simp_all add: demo_pack_def demo_packs_def demo_opts_def demo_row_def)
  then show ?thesis by (simp add: compute_def demo_selected demo_scope demo_root_infos demo_lay_out demo_state demo_needs)
qed

subsection \<open>The plan's tables\<close>

definition demo_unit :: "job \<Rightarrow> mat_unit" where
  "demo_unit j = \<lparr>mu_id = 1, mu_plan = 1, mu_root = None, mu_blobs = 1, mu_bytes = 5, mu_source_bytes = 5, mu_job = j\<rparr>"

definition demo_blob :: "blob_state \<Rightarrow> string option \<Rightarrow> string option \<Rightarrow> mat_blob" where
  "demo_blob st how e = \<lparr>mb_plan = 1, mb_sha = run_sha, mb_size = 5, mb_kind = Mesh, mb_source = Src_Loose ''a.stl'' 5 0, mb_unit = Some 1,
     mb_state = st, mb_method = how, mb_error = e\<rparr>"

definition demo_mat_pack :: "int \<Rightarrow> (string, nat) dict \<Rightarrow> job \<Rightarrow> mat_pack" where
  "demo_mat_pack n counts j = \<lparr>mk_plan = 1, mk_pack = 7, mk_planned = demo_planned, mk_dir = ''Misc/P'', mk_files = 1, mk_bytes = 5, mk_missing = n,
     mk_counts = counts, mk_job = j\<rparr>"

definition demo_job :: "job_status \<Rightarrow> job" where
  "demo_job st = \<lparr>jb_status = st, jb_by = Some ''w'', jb_at = Some 0, jb_attempts = 1, jb_error = None\<rparr>"

definition demo_db :: "plan_row list \<Rightarrow> job \<Rightarrow> mat_blob \<Rightarrow> mat_pack \<Rightarrow> mdb" where
  "demo_db plans j b k = \<lparr>m_plans = plans, m_units = [demo_unit j], m_blobs = [b], m_packs = [k],
     m_files = [\<lparr>mf_plan = 1, mf_pack = 7, mf_file = demo_file\<rparr>], m_next_unit = 2\<rparr>"

lemma demo_units: "plan_units 1 1 [demo_need] = ([demo_unit new_job], [(run_sha, 1)], 2)"
  by code_simp

lemma demo_blob_row: "blob_row 1 [(run_sha, 1)] demo_need = demo_blob B_Pending None None"
  by code_simp

lemma demo_pack_row: "pack_row 1 demo_planned = demo_mat_pack 0 [] new_job"
  by code_simp

lemma demo_built: "\<exists>plans. build_plan (\<lambda>_. run_sha) [] id id demo_opts demo_packs empty_mdb =
    (Inr 1, demo_db plans new_job (demo_blob B_Pending None None) (demo_mat_pack 0 [] new_job))"
proof -
  have n: "next_plan empty_mdb = 1" "active_claims empty_mdb = 0" "m_next_unit empty_mdb = 1" by code_simp+
  have e: "m_units empty_mdb = []" "m_blobs empty_mdb = []" "m_packs empty_mdb = []" "m_files empty_mdb = []" by (simp_all add: empty_mdb_def)
  have p: "pl_files demo_planned = [demo_file]" "pl_id demo_planned = 7" by (simp_all add: demo_planned_def)
  show ?thesis
    by (simp add: build_plan_def demo_compute n py_ret_def [of "(_, _)"] write_packs_def write_units_and_blobs_def demo_units demo_blob_row demo_pack_row p del: One_nat_def)
      (simp add: demo_db_def e empty_mdb_def demo_units demo_blob_row demo_pack_row del: One_nat_def)
qed

definition demo_pcfg :: pcfg where
  "demo_pcfg = \<lparr>pc_apply = \<lparr>ac_x = run_cfg [], ac_source_root = ''/src'', ac_allow_copy = True, ac_verify_loose = True, ac_verify_existing = True,
     ac_max_attempts = 3, ac_mtime = \<lambda>_ _. 0, ac_text = \<lambda>_. []\<rparr>, pc_render = \<lambda>_. ''{}'', pc_same = \<lambda>_ _. False\<rparr>"

definition demo_disk :: "string \<Rightarrow> fs" where
  "demo_disk name = \<lparr>fs_names = [''/'' \<mapsto> N_Dir, ''/v2'' \<mapsto> N_Dir, ''/src'' \<mapsto> N_Dir, name \<mapsto> N_File 0],
     fs_data = \<lambda>_. ''solid'', fs_next = 1, fs_fds = {}, fs_writes = 0\<rparr>"


definition full :: scope where
  "full = \<lparr>sc_packs = None, sc_units = None\<rparr>"

lemma demo_poll:
  "next_work 1 ''w'' 0 {} {} full (demo_db plans new_job (demo_blob B_Pending None None) (demo_mat_pack 0 [] new_job)) =
    (Do_Unit (demo_unit (demo_job Job_Claimed)), demo_db plans (demo_job Job_Claimed) (demo_blob B_Pending None None) (demo_mat_pack 0 [] new_job))"
  by code_simp

lemma demo_read: "unit_blobs 1 1 (demo_db plans j (demo_blob B_Pending None None) k) = [demo_blob B_Pending None None]"
  by code_simp

lemma demo_linked: "fst (unit_results (pc_apply demo_pcfg) demo_cat (demo_unit (demo_job Job_Claimed)) [demo_blob B_Pending None None] (demo_disk ''/src/a.stl'')) =
    Inr [(run_sha, B_Done, Some ''linked'', None)]"
  by code_simp

lemma demo_gone: "fst (unit_results (pc_apply demo_pcfg) demo_cat (demo_unit (demo_job Job_Claimed)) [demo_blob B_Pending None None] (demo_disk ''/src/b.stl'')) =
    Inr [(run_sha, B_Failed, None, Some ''source_missing'')]"
  by code_simp

lemma demo_finish: "finish_unit 1 ''w'' 1 1 [(run_sha, st, how, e)] (demo_db plans (demo_job Job_Claimed) (demo_blob B_Pending None None) k) =
    demo_db plans (demo_job Job_Done) (demo_blob st how e) k"
  by code_simp

lemma demo_pick:
  assumes "st \<noteq> B_Pending"
  shows "next_work 1 ''w'' 0 {} {} full (demo_db plans (demo_job Job_Done) (demo_blob st how e) (demo_mat_pack 0 [] new_job)) =
    (Do_Pack (demo_mat_pack 0 [] (demo_job Job_Claimed)), demo_db plans (demo_job Job_Done) (demo_blob st how e) (demo_mat_pack 0 [] (demo_job Job_Claimed)))"
  using assms by (cases st) (simp_all, code_simp+)

lemma demo_pack_read: "pack_files 1 7 (demo_db plans j (demo_blob st how e) k) = [(demo_file, demo_blob st how e)]"
  by code_simp

lemma demo_placed: "fst (pack_results demo_pcfg 1 (demo_mat_pack 0 [] (demo_job Job_Claimed)) [(demo_file, demo_blob B_Done (Some ''linked'') None)]
    (demo_disk (''/v2/.forge-blobs/aa/aa/'' @ run_sha))) = Inr [(''linked'', 1), (''datapackage'', 1)]"
  by code_simp

lemma demo_skipped: "fst (pack_results demo_pcfg 1 (demo_mat_pack 0 [] (demo_job Job_Claimed)) [(demo_file, demo_blob B_Failed None (Some ''source_missing''))]
    (demo_disk ''/src/b.stl'')) = Inr [(''datapackage'', 1)]"
  by code_simp

lemma demo_close:
  "finish_pack 1 ''w'' 7 1 [(demo_file, demo_blob B_Done how e)] counts (demo_db plans j b (demo_mat_pack 0 [] (demo_job Job_Claimed))) =
    demo_db plans j b (demo_mat_pack 0 counts (demo_job Job_Done))"
  "finish_pack 1 ''w'' 7 1 [(demo_file, demo_blob B_Failed how e)] counts (demo_db plans j b (demo_mat_pack 0 [] (demo_job Job_Claimed))) =
    demo_db plans j b (demo_mat_pack 1 counts (demo_job Job_Incomplete))"
  by code_simp+

subsection \<open>Two runs\<close>

lemma applied_run:
  assumes "fst (unit_results (pc_apply demo_pcfg) demo_cat (demo_unit (demo_job Job_Claimed)) [demo_blob B_Pending None None] f) = Inr [(run_sha, st, how, e)]"
    and "fst (pack_results demo_pcfg 1 (demo_mat_pack 0 [] (demo_job Job_Claimed)) [(demo_file, demo_blob st how e)] g) = Inr counts"
    and "st \<noteq> B_Pending"
  shows "\<exists>s. (apply_step demo_pcfg 1)\<^sup>*\<^sup>* (start (demo_db plans new_job (demo_blob B_Pending None None) (demo_mat_pack 0 [] new_job))) s \<and>
    w_db s = finish_pack 1 ''w'' 7 1 [(demo_file, demo_blob st how e)] counts
      (demo_db plans (demo_job Job_Done) (demo_blob st how e) (demo_mat_pack 0 [] (demo_job Job_Claimed)))"
proof -
  let ?w = "''w''" and ?u = "demo_unit (demo_job Job_Claimed)" and ?b = "demo_blob B_Pending None None" and ?k = "demo_mat_pack 0 [] new_job"
  let ?kc = "demo_mat_pack 0 [] (demo_job Job_Claimed)"
  have ids: "mu_id ?u = 1" "jb_attempts (mu_job ?u) = 1" "mk_pack ?kc = 7" "jb_attempts (mk_job ?kc) = 1"
    by (simp_all add: demo_unit_def demo_job_def demo_mat_pack_def)
  define s0 where "s0 = start (demo_db plans new_job ?b ?k)"
  define s1 where "s1 = go ?w (U_Claimed ?u) (demo_db plans (demo_job Job_Claimed) ?b ?k) s0"
  define s2 where "s2 = go ?w (U_Working ?u [?b]) (w_db s1) s1"
  define s3 where "s3 = go ?w Idle (demo_db plans (demo_job Job_Done) (demo_blob st how e) ?k) s2"
  define s4 where "s4 = go ?w (K_Claimed ?kc) (demo_db plans (demo_job Job_Done) (demo_blob st how e) ?kc) s3"
  define s5 where "s5 = go ?w (K_Working ?kc [(demo_file, demo_blob st how e)]) (w_db s4) s4"
  define s6 where "s6 = go ?w Idle (finish_pack 1 ?w 7 1 [(demo_file, demo_blob st how e)] counts (w_db s5)) s5"
  have 1: "apply_step demo_pcfg 1 s0 s1"
    using Poll [of s0 ?w 1 0 "{}" "{}" full _ _ demo_pcfg, OF _ ] demo_poll [of plans] by (simp add: s0_def s1_def start_def at_work_def)
  have 2: "apply_step demo_pcfg 1 s1 s2"
    using Read_Unit [of s1 ?w ?u demo_pcfg 1] demo_read [of plans "demo_job Job_Claimed" ?k] by (simp add: s2_def s1_def go_def ids)
  obtain f' where f': "unit_results (pc_apply demo_pcfg) demo_cat ?u [?b] f = (Inr [(run_sha, st, how, e)], f')"
    using assms(1) by (cases "unit_results (pc_apply demo_pcfg) demo_cat ?u [?b] f") auto
  have 3: "apply_step demo_pcfg 1 s2 s3"
    using Finish_Unit [OF _ f', of s2 ?w 1] demo_finish [of st how e plans ?k] by (simp add: s3_def s2_def s1_def go_def ids)
  have 4: "apply_step demo_pcfg 1 s3 s4"
    using Poll [of s3 ?w 1 0 "{}" "{}" full _ _ demo_pcfg] demo_pick [OF assms(3), of plans how e] by (simp add: s4_def s3_def go_def at_work_def)
  have 5: "apply_step demo_pcfg 1 s4 s5"
    using Read_Pack [of s4 ?w ?kc demo_pcfg 1] demo_pack_read [of plans "demo_job Job_Done" st how e ?kc] by (simp add: s5_def s4_def go_def ids)
  obtain g' where g': "pack_results demo_pcfg 1 ?kc [(demo_file, demo_blob st how e)] g = (Inr counts, g')"
    using assms(2) by (cases "pack_results demo_pcfg 1 ?kc [(demo_file, demo_blob st how e)] g") auto
  have 6: "apply_step demo_pcfg 1 s5 s6"
    using Finish_Pack [OF _ g', of s5 ?w] by (simp add: s6_def s5_def go_def ids)
  have "(apply_step demo_pcfg 1)\<^sup>*\<^sup>* s0 s6" using 1 2 3 4 5 6 by (meson converse_rtranclp_into_rtranclp rtranclp.rtrancl_refl)
  moreover have "w_db s6 = finish_pack 1 ?w 7 1 [(demo_file, demo_blob st how e)] counts (demo_db plans (demo_job Job_Done) (demo_blob st how e) ?kc)"
    by (simp add: s6_def s5_def s4_def go_def)
  ultimately show ?thesis unfolding s0_def by blast
qed

lemma empty_ok: "mdb_ok empty_mdb"
  by (simp add: mdb_ok_def keys_ok_def empty_mdb_def)

theorem done_packs_complete_witness:
  "\<exists>m' s k. build_plan (\<lambda>_. run_sha) [] id id demo_opts demo_packs empty_mdb = (Inr 1, m') \<and> (apply_step demo_pcfg 1)\<^sup>*\<^sup>* (start m') s \<and>
    k \<in> set (m_packs (w_db s)) \<and> jb_status (mk_job k) = Job_Done \<and>
    (\<exists>b \<in> set (m_blobs (w_db s)). mb_sha b = run_sha \<and> mb_state b = B_Done)"
proof -
  obtain plans where m: "build_plan (\<lambda>_. run_sha) [] id id demo_opts demo_packs empty_mdb =
      (Inr 1, demo_db plans new_job (demo_blob B_Pending None None) (demo_mat_pack 0 [] new_job))" using demo_built by blast
  let ?k = "demo_mat_pack 0 [(''linked'', 1), (''datapackage'', 1)] (demo_job Job_Done)" and ?f = "\<lparr>mf_plan = 1, mf_pack = 7, mf_file = demo_file\<rparr>"
  obtain s where s: "(apply_step demo_pcfg 1)\<^sup>*\<^sup>* (start (demo_db plans new_job (demo_blob B_Pending None None) (demo_mat_pack 0 [] new_job))) s"
    "w_db s = demo_db plans (demo_job Job_Done) (demo_blob B_Done (Some ''linked'') None) ?k"
    using applied_run [OF demo_linked demo_placed, of plans] unfolding demo_close by blast
  have k: "?k \<in> set (m_packs (w_db s))" "mk_plan ?k = 1" "jb_status (mk_job ?k) = Job_Done" "mk_pack ?k = 7"
    by (simp_all add: s(2) demo_db_def demo_mat_pack_def demo_job_def)
  have f: "?f \<in> set (m_files (w_db s))" "pf_sha demo_file = run_sha" by (simp_all add: s(2) demo_db_def demo_file_def)
  have "\<forall>f \<in> set (m_files empty_mdb). mf_plan f \<in> pr_id ` set (m_plans empty_mdb)" by (simp add: empty_mdb_def)
  from done_packs_complete [OF empty_ok this m s(1) k(1,2,3) f(1)] k(4)
  have "\<exists>b \<in> set (m_blobs (w_db s)). mb_sha b = run_sha \<and> mb_state b = B_Done" by (auto simp: f(2))
  then show ?thesis using m s(1) k(1,3) by blast
qed

theorem retry_strands_pack_witness:
  "\<exists>m' s t. build_plan (\<lambda>_. run_sha) [] id id demo_opts demo_packs empty_mdb = (Inr 1, m') \<and> (apply_step demo_pcfg 1)\<^sup>*\<^sup>* (start m') s \<and>
    t = retry_failed 1 (w_db s) \<and> (\<exists>l \<in> set (m_packs t). mk_pack l = 7 \<and> jb_status (mk_job l) = Job_Pending) \<and>
    fst (next_work 1 ''w'' 0 {} {} full t) \<noteq> Stop_Work"
proof -
  obtain plans where m: "build_plan (\<lambda>_. run_sha) [] id id demo_opts demo_packs empty_mdb =
      (Inr 1, demo_db plans new_job (demo_blob B_Pending None None) (demo_mat_pack 0 [] new_job))" using demo_built by blast
  let ?k = "demo_mat_pack 1 [(''datapackage'', 1)] (demo_job Job_Incomplete)" and ?f = "\<lparr>mf_plan = 1, mf_pack = 7, mf_file = demo_file\<rparr>"
  let ?b = "demo_blob B_Failed None (Some ''source_missing'')" and ?u = "demo_unit (demo_job Job_Done)"
  obtain s where s: "(apply_step demo_pcfg 1)\<^sup>*\<^sup>* (start (demo_db plans new_job (demo_blob B_Pending None None) (demo_mat_pack 0 [] new_job))) s"
    "w_db s = demo_db plans (demo_job Job_Done) ?b ?k"
    using applied_run [OF demo_gone demo_skipped, of plans] unfolding demo_close by blast
  have b: "?b \<in> set (m_blobs (w_db s))" "mb_plan ?b = 1" "mb_state ?b = B_Failed" "mb_unit ?b = Some (mu_id ?u)"
    and un: "?u \<in> set (m_units (w_db s))" "jb_status (mu_job ?u) = Job_Done"
    and k: "?k \<in> set (m_packs (w_db s))" "mk_plan ?k = 1" "jb_status (mk_job ?k) = Job_Incomplete"
    and f: "?f \<in> set (m_files (w_db s))" "mf_plan ?f = 1" "mf_pack ?f = mk_pack ?k" "pf_sha (mf_file ?f) = mb_sha ?b"
    by (simp_all add: s(2) demo_db_def demo_mat_pack_def demo_job_def demo_blob_def demo_unit_def demo_file_def)
  have "in_scope (sc_packs full) (mk_pack ?k)" by (simp add: full_def in_scope_def)
  from retry_strands_pack [OF empty_ok m s(1) b un k f rtranclp.rtrancl_refl this, of "''w''" 0 "{}" "{}"]
  have "(\<exists>l \<in> set (m_packs (retry_failed 1 (w_db s))). mk_pack l = 7 \<and> jb_status (mk_job l) = Job_Pending) \<and>
      fst (next_work 1 ''w'' 0 {} {} full (retry_failed 1 (w_db s))) \<noteq> Stop_Work"
    by (auto simp: demo_mat_pack_def)
  then show ?thesis using m s(1) by blast
qed

end
