(* ===== verification/Spec2Isabelle.thy ===== *)
theory Spec2Isabelle
  imports UnionFind Kinds Refuse Caps Hashing Fallback EngineProps VolumeSets SweepDefects WalkTreeProps PackUnitsProps PackWriteProps MatGuardProps MatPathsProps
    MatPlanProps MatExtractDemo MatApplyDemo
begin

text \<open>
  A verification library for the Python program \<^emph>\<open>forge\<close> (\<^verbatim>\<open>src/forge/src/forge\<close>), the pipeline that
  catalogs a library of 3D-model archives: a walker records the files of the source tree, a sweep
  reads every archive through the engine, and later passes group the found models into packs, name
  and tag them and lay them out as hardlinks.

  \<^bold>\<open>How the model is built.\<close> Pure functions are HOL functions. Stateful code that raises is an action
  \<open>('s, 'e, 'a) act\<close> (theory Effects): it returns the changed state together with an exception or a
  value. Python computations over dictionaries are \<open>'a py\<close> (theory Prelude): a loop that does not end,
  an exception or a value. Python integers are \<open>int\<close> or \<open>nat\<close>, strings are character lists
  (theory PyStr says which code points), dictionaries are insertion-ordered association lists.
  Operating system, libarchive, 7zz, decompressors and hash functions are parameters.

  \<^bold>\<open>The theories.\<close>
  \<^item> Prelude, Effects, PyStr: effects with their Hoare rules, dictionaries, string methods.
  \<^item> UnionFind: \<^verbatim>\<open>packs/unionfind.py\<close>, the whole class. Its contract is the locale
    \<open>constrained_partition\<close>, interpreted on the model; the theorems: the loops of \<open>find\<close> end, a
    cannot-link always holds, \<open>union\<close> merges exactly when allowed, \<open>components\<close> is a partition.
  \<^item> Kinds, Refuse, Caps, Hashing: \<^verbatim>\<open>engine/kinds.py\<close>, \<^verbatim>\<open>engine/refuse.py\<close>, \<^verbatim>\<open>engine/caps.py\<close> with the
    \<open>Result\<close> of \<^verbatim>\<open>engine/types.py\<close>, and \<^verbatim>\<open>hashing.py\<close>.
  \<^item> Fallback: the pure parts of \<^verbatim>\<open>engine/fallback.py\<close> (names, the 7zz listing, error reasons).
  \<^item> Engine: \<^verbatim>\<open>engine/archive.py\<close> and the readers of \<^verbatim>\<open>fallback.py\<close>: the recursive traversal of one
    source archive with its member writer, spool, budget and calls of the sink.
  \<^item> EngineLog: what a well-formed sequence of sink calls is, and its consequences.
  \<^item> EngineSafe, EngineRead: the invariants of one container (no reserved byte and no scratch entry is
    lost, the log is well formed), proved for every reader inside the locale \<open>nested_opener\<close>, whose
    law is what opening a nested container promises.
  \<^item> EngineProps: the interpretation of that locale at every nesting level, by induction on the
    levels left, and the theorems about whole runs.

  \<^item> Regex: the backtracking matcher for the regular expressions of \<^verbatim>\<open>walker.py\<close>, with its relation to the
    matched texts.
  \<^item> Volumes, VolumeSets: the pure part of \<^verbatim>\<open>walker.py\<close>: volume names, grouping into archive containers,
    loose batches, magic numbers and RAR headers; every archive lands in exactly one group, a set not
    marked as missing volumes is complete, batches respect their caps.
  \<^item> WalkTree, WalkTreeProps: the threads of \<open>walk_tree\<close> as a transition system over the shared queue and lock; every
    run ends, without deadlock, with exactly the files of the tree.
  \<^item> Catalog: the tables of \<^verbatim>\<open>db/models.py\<close> that the walk and the sweep use, with their keys, and the
    transactions both share. WalkSync: what \<open>persist_walk\<close> writes, and \<^verbatim>\<open>requeue.py\<close>. Sweep: \<^verbatim>\<open>sweep.py\<close>, from the
    claim over the sink that records what the engine reports to finishing, releasing and the reaper.
  \<^item> CatalogOk, WalkSafe, SweepSafe: the invariant of the container table, kept by every transaction, and
    the transition system \<open>fleet_step\<close> in which any number of workers, the walk, the requeue command and
    the reaper interleave transaction by transaction.
  \<^item> SweepProps, SweepDefects: the theorems about that system, and two defects as closed runs.

  \<^item> PackUnits, PackUnitsProps: \<^verbatim>\<open>packs/units.py\<close>: the resolution units of archives and loose folders, with the
    memoized search for the deepest model root.
  \<^item> PackResolve, PackResolveProps: the tiers of \<^verbatim>\<open>packs/resolve.py\<close> over the union-find, from human overrides to the
    judge. Their contract is the locale \<open>joins\<close>: a step only joins, never a separated pair; it is interpreted for the
    plain tiers and for the bounded joins of the judge.
  \<^item> PackWrite, PackWriteProps: \<open>_write\<close>: pack ids, roles and the rows of \<^verbatim>\<open>packs\<close> and \<^verbatim>\<open>pack_containers\<close>.
  \<^item> MatPaths, MatPathsProps: \<^verbatim>\<open>materialize/paths.py\<close> and \<^verbatim>\<open>keywords.py\<close>: names of the new tree; the final paths of
    a pack never clash and pass the guard.
  \<^item> MatGuard, MatGuardProps: \<^verbatim>\<open>materialize/guard.py\<close> over a file system of names and inodes; no program over the
    guard's operations changes anything under the source root.
  \<^item> MatPlan, MatPlanProps: \<^verbatim>\<open>materialize/plan.py\<close>: which files each pack gets, their paths, one source for every
    blob, the work units, and the tables of a plan; a folder clash that makes a plan impossible to write.
  \<^item> MatStore, MatStoreProps: \<^verbatim>\<open>materialize/store.py\<close>, the content-addressed blob store, on the file system of MatGuard.
  \<^item> MatExtract, MatExtractProps, MatExtractDemo: \<^verbatim>\<open>materialize/extract.py\<close>, the traversal that takes wanted members into the
    store, with the environment of Engine. The locale \<open>extractor_invariant\<close> lifts what every primitive keeps to whole runs,
    at every nesting level; its interpretations give the bookkeeping (every wanted blob gets one outcome) and the
    confinement of all writes.
  \<^item> MatApply, MatPublish: \<^verbatim>\<open>materialize/apply.py\<close>: claims, units, packs, \<^verbatim>\<open>datapackage.json\<close>, the repair commands.
    MatApplyProps, MatApplyClaims, MatApplyDemo: the transition system \<open>apply_step\<close> in which workers, the reaper, crashes and
    retries interleave; a pack marked done has all its blobs, and a retry that strands a pack.

  \<^bold>\<open>Bounds and fuel.\<close> The recursion over nested containers is by the number of levels that may still
  be opened, \<open>levels\<close>; the depth cap makes it enough (no run ends with \<open>Recursion_Error\<close>). The read
  loops are recursion over the finite list of blocks a reader returns. \<open>nested_levels\<close> descends at most
  \<open>next_row\<close> levels, which is enough because a child has a larger id than its parent.

  \<^bold>\<open>Not modelled.\<close> The process isolation around the engine and its pipes; the supervisor processes and
  signals of the sweep; the processes, memory limit and test hook of \<^verbatim>\<open>materialize/apply.py\<close>; \<^verbatim>\<open>materialize/verify.py\<close>,
  \<^verbatim>\<open>refresh.py\<close>, the JSON export of a plan; the classification and tag passes; the package spark-curate; HTML and HTTP code;
  command lines; migrations. Texts are ordered by character codes, as in PostgreSQL's C collation. In the catalog, source files are
  never deleted, and the texts of a result's \<open>detail\<close> and its peak memory are left out of the notes. The components of the manifest list them all.
\<close>

end
